(* ===== verification/Prelude.thy ===== *)
theory Prelude
  imports Main "HOL-Library.Word"
begin

text \<open>
  Material shared by every component: names for the machine types of the source, the C
  library's character classes (the "C" locale, which is what the program runs under),
  generic lemmas on lists and on bit sets, and the named collections that the component
  theories fill.
\<close>

unbundle bit_operations_syntax

section \<open>Machine types\<close>

type_synonym u8 = "8 word"
type_synonym u16 = "16 word"
type_synonym u32 = "32 word"
type_synonym u64 = "64 word"

section \<open>Collections of facts\<close>

named_theorems step_simps "equations that evaluate one operation of a component"
named_theorems frame_simps "fields of a record that an operation leaves unchanged"
named_theorems inv_intros "preservation of a component's invariant by its operations"

section \<open>Characters of the C locale\<close>

definition char_code :: "char \<Rightarrow> nat" where
  "char_code c = of_char c"

definition c_isspace :: "char \<Rightarrow> bool" where
  "c_isspace c = (char_code c = 32 \<or> (9 \<le> char_code c \<and> char_code c \<le> 13))"

definition c_isdigit :: "char \<Rightarrow> bool" where
  "c_isdigit c = (48 \<le> char_code c \<and> char_code c \<le> 57)"

definition c_isupper :: "char \<Rightarrow> bool" where
  "c_isupper c = (65 \<le> char_code c \<and> char_code c \<le> 90)"

definition c_islower :: "char \<Rightarrow> bool" where
  "c_islower c = (97 \<le> char_code c \<and> char_code c \<le> 122)"

definition c_isalnum :: "char \<Rightarrow> bool" where
  "c_isalnum c = (c_isdigit c \<or> c_isupper c \<or> c_islower c)"

definition c_isxdigit :: "char \<Rightarrow> bool" where
  "c_isxdigit c = (c_isdigit c \<or> (65 \<le> char_code c \<and> char_code c \<le> 70)
                   \<or> (97 \<le> char_code c \<and> char_code c \<le> 102))"

definition c_tolower :: "char \<Rightarrow> char" where
  "c_tolower c = (if c_isupper c then char_of (char_code c + 32) else c)"

definition c_toupper :: "char \<Rightarrow> char" where
  "c_toupper c = (if c_islower c then char_of (char_code c - 32) else c)"

lemmas ctype_defs = char_code_def c_isspace_def c_isdigit_def c_isupper_def c_islower_def
  c_isalnum_def c_isxdigit_def c_tolower_def c_toupper_def

lemma char_code_less_256: "char_code c < 256"
  by (simp add: char_code_def nat_of_char_less_256)

lemma char_code_char_of: "n < 256 \<Longrightarrow> char_code (char_of n) = n"
  by (simp add: char_code_def)

lemma c_tolower_idem [simp]: "c_tolower (c_tolower c) = c_tolower c"
  by (auto simp: c_tolower_def c_isupper_def char_code_char_of)

lemma c_tolower_not_upper [simp]: "\<not> c_isupper (c_tolower c)"
  by (auto simp: c_tolower_def c_isupper_def char_code_char_of)

lemma c_tolower_alnum [simp]: "c_isalnum (c_tolower c) \<longleftrightarrow> c_isalnum c"
  by (auto simp: c_tolower_def c_isupper_def c_isalnum_def c_isdigit_def c_islower_def char_code_char_of)

section \<open>Lists updated by index\<close>

text \<open>\<open>std::vector::insert(begin() + i, x)\<close> and \<open>std::vector::erase(begin() + i)\<close>.\<close>

definition insert_at :: "nat \<Rightarrow> 'a \<Rightarrow> 'a list \<Rightarrow> 'a list" where
  "insert_at i x xs = take i xs @ x # drop i xs"

definition erase_at :: "nat \<Rightarrow> 'a list \<Rightarrow> 'a list" where
  "erase_at i xs = take i xs @ drop (Suc i) xs"

lemma length_insert_at [simp]: "length (insert_at i x xs) = Suc (length xs)"
  by (simp add: insert_at_def min_def)

lemma insert_at_not_Nil [simp]: "insert_at i x xs \<noteq> []"
  by (simp add: insert_at_def)

lemma length_erase_at: "i < length xs \<Longrightarrow> length (erase_at i xs) = length xs - 1"
  by (simp add: erase_at_def min_def)

lemma insert_at_split: "length as = i \<Longrightarrow> insert_at i x (as @ bs) = as @ x # bs"
  by (simp add: insert_at_def)

lemma erase_at_split: "length as = i \<Longrightarrow> erase_at i (as @ b # bs) = as @ bs"
  by (simp add: erase_at_def)

lemma set_erase_at: "set (erase_at i xs) \<subseteq> set xs"
  by (auto simp: erase_at_def dest: in_set_takeD in_set_dropD)

lemma set_insert_at [simp]: "set (insert_at i x xs) = insert x (set xs)"
proof -
  have "set xs = set (take i xs) \<union> set (drop i xs)"
    by (metis append_take_drop_id set_append)
  then show ?thesis by (auto simp: insert_at_def)
qed

section \<open>Ascending enumerations of a bit set\<close>

lemma filter_upt_split:
  "i < n \<Longrightarrow> filter P [0..<n] =
     filter P [0..<i] @ (if P i then [i] else []) @ filter P [Suc i..<n]"
proof -
  assume "i < n"
  then have "[0..<n] = [0..<i] @ i # [Suc i..<n]"
    by (metis le_add1 less_imp_le_nat plus_nat.add_0 upt_add_eq_append upt_conv_Cons
        le_add_diff_inverse)
  then show ?thesis by simp
qed

lemma filter_upt_cong_below:
  "(\<And>j. j < i \<Longrightarrow> P j = Q j) \<Longrightarrow> filter P [0..<i] = filter Q [0..<i]"
  by (rule filter_cong) auto

lemma filter_upt_cong_above:
  "(\<And>j. i < j \<Longrightarrow> P j = Q j) \<Longrightarrow> filter P [Suc i..<n] = filter Q [Suc i..<n]"
  by (rule filter_cong) auto


section \<open>Decimal numerals\<close>

fun show_nat :: "nat \<Rightarrow> string" where
  "show_nat n = (if n < 10 then [char_of (48 + n)] else show_nat (n div 10) @ [char_of (48 + n mod 10)])"

declare show_nat.simps [simp del]

lemma digit_char: "n < 10 \<Longrightarrow> c_isdigit (char_of (48 + n)) \<and> char_code (char_of (48 + n)) = 48 + n"
  by (simp add: c_isdigit_def char_code_char_of)

lemma show_nat_not_Nil [simp]: "show_nat n \<noteq> []"
  by (subst show_nat.simps) simp

lemma show_nat_digits: "\<forall>c\<in>set (show_nat n). c_isdigit c"
  by (induction n rule: show_nat.induct) (subst show_nat.simps, auto simp: digit_char)

definition show_int :: "int \<Rightarrow> string" where
  "show_int i = (if i < 0 then CHR ''-'' # show_nat (nat (- i)) else show_nat (nat i))"

definition digits_value :: "string \<Rightarrow> int" where
  "digits_value ds = foldl (\<lambda>n c. 10 * n + int (char_code c - 48)) 0 ds"

lemma digits_value_snoc: "digits_value (ds @ [c]) = 10 * digits_value ds + int (char_code c - 48)"
  by (simp add: digits_value_def)

lemma digits_value_show_nat: "digits_value (show_nat n) = int n"
proof (induction n rule: show_nat.induct)
  case (1 n)
  show ?case
  proof (cases "n < 10")
    case True
    then show ?thesis using digit_char [of n] by (subst show_nat.simps) (simp add: digits_value_def)
  next
    case False
    have "int (n div 10) * 10 + int (n mod 10) = int n" by presburger
    with False 1 show ?thesis using digit_char [of "n mod 10"]
      by (subst show_nat.simps) (simp add: digits_value_snoc)
  qed
qed

lemma show_nat_run: "takeWhile c_isdigit (show_nat n) = show_nat n" "dropWhile c_isdigit (show_nat n) = []"
  using show_nat_digits by simp_all

lemma show_nat_hd: "show_nat n \<noteq> CHR ''-'' # s"
  using show_nat_digits [of n] by (auto simp: c_isdigit_def char_code_def)

text \<open>Splitting a string after a run of characters.\<close>

lemma takeWhile_run:
  "\<forall>c\<in>set u. P c \<Longrightarrow> r = [] \<or> \<not> P (hd r) \<Longrightarrow> takeWhile P (u @ r) = u \<and> dropWhile P (u @ r) = r"
  by (cases r) (auto simp: takeWhile_append2 dropWhile_append2)

end
