(* ===== verification/Map_Interface.thy ===== *)
theory Map_Interface
  imports Prelude
begin

text \<open>
  What the session registry needs of a key-value store: lookup after an update or an erasure,
  the size as the number of bound keys, and an enumeration of the bindings. The laws hold for
  keys of a set \<open>U\<close> (for a hashed store: keys whose hashes differ). The client's lemmas on
  bulk erasure and on fresh insertions are proved here once.
\<close>

section \<open>The interface\<close>

locale kv_store =
  fixes kempty :: "'m"
    and kset :: "'k \<Rightarrow> 'v \<Rightarrow> 'm \<Rightarrow> 'm"
    and kerase :: "'k \<Rightarrow> 'm \<Rightarrow> 'm"
    and kfind :: "'k \<Rightarrow> 'm \<Rightarrow> 'v option"
    and ksize :: "'m \<Rightarrow> u64"
    and kentries :: "'m \<Rightarrow> ('k \<times> 'v) list"
    and kinv :: "'m \<Rightarrow> bool"
    and U :: "'k set"
  assumes inv_empty: "kinv kempty"
    and inv_set: "kinv m \<Longrightarrow> k \<in> U \<Longrightarrow> kinv (kset k v m)"
    and inv_erase: "kinv m \<Longrightarrow> k \<in> U \<Longrightarrow> kinv (kerase k m)"
    and find_empty: "kfind k kempty = None"
    and find_set: "kinv m \<Longrightarrow> k \<in> U \<Longrightarrow> kfind k' (kset k v m) = (if k' = k then Some v else kfind k' m)"
    and find_erase: "kinv m \<Longrightarrow> k \<in> U \<Longrightarrow> kfind k' (kerase k m) = (if k' = k then None else kfind k' m)"
    and find_entries: "kinv m \<Longrightarrow> kfind k m = map_of (kentries m) k"
    and distinct_entries: "kinv m \<Longrightarrow> distinct (map fst (kentries m))"
    and size_entries: "kinv m \<Longrightarrow> ksize m = of_nat (length (kentries m))"
    and keys_U: "kinv m \<Longrightarrow> kfind k m \<noteq> None \<Longrightarrow> k \<in> U"
begin

text \<open>The map a store stands for.\<close>

definition kmap :: "'m \<Rightarrow> 'k \<rightharpoonup> 'v" where
  "kmap m k = kfind k m"

lemma kmap_set: "kinv m \<Longrightarrow> k \<in> U \<Longrightarrow> kmap (kset k v m) = (kmap m)(k \<mapsto> v)"
  by (auto simp: kmap_def find_set)

lemma kmap_erase: "kinv m \<Longrightarrow> k \<in> U \<Longrightarrow> kmap (kerase k m) = (kmap m)(k := None)"
  by (auto simp: kmap_def find_erase)

lemma kmap_entries: "kinv m \<Longrightarrow> kmap m = map_of (kentries m)"
  by (auto simp: kmap_def find_entries)

lemma finite_dom_kmap: "kinv m \<Longrightarrow> finite (dom (kmap m))"
  by (simp add: kmap_entries finite_dom_map_of)

lemma in_entries_iff: "kinv m \<Longrightarrow> (k, v) \<in> set (kentries m) \<longleftrightarrow> kfind k m = Some v"
  by (simp add: find_entries distinct_entries)

lemma length_entries: "kinv m \<Longrightarrow> length (kentries m) = card (dom (kmap m))"
proof -
  assume i: "kinv m"
  have "dom (kmap m) = fst ` set (kentries m)"
    using i by (simp add: kmap_entries dom_map_of_conv_image_fst)
  then show ?thesis
    using distinct_entries [OF i] by (metis distinct_card length_map list.set_map)
qed

lemma size_card: "kinv m \<Longrightarrow> ksize m = of_nat (card (dom (kmap m)))"
  by (simp add: size_entries length_entries)

lemma size_fresh: "kinv m \<Longrightarrow> k \<in> U \<Longrightarrow> kfind k m = None \<Longrightarrow> ksize (kset k v m) = ksize m + 1"
proof -
  assume a: "kinv m" "k \<in> U" "kfind k m = None"
  then have "k \<notin> dom (kmap m)" by (simp add: kmap_def dom_def)
  then show ?thesis
    using a by (simp add: size_card inv_set kmap_set finite_dom_kmap)
qed

lemma size_again: "kinv m \<Longrightarrow> k \<in> U \<Longrightarrow> kfind k m \<noteq> None \<Longrightarrow> ksize (kset k v m) = ksize m"
proof -
  assume a: "kinv m" "k \<in> U" "kfind k m \<noteq> None"
  then have "k \<in> dom (kmap m)" by (simp add: kmap_def dom_def)
  then show ?thesis
    using a by (simp add: size_card inv_set kmap_set insert_absorb)
qed

text \<open>Erasing a list of keys, as the expiry sweep does.\<close>

lemma inv_erase_all: "kinv m \<Longrightarrow> set ks \<subseteq> U \<Longrightarrow> kinv (fold kerase ks m)"
  by (induction ks arbitrary: m) (auto simp: inv_erase)

lemma find_erase_all:
  "kinv m \<Longrightarrow> set ks \<subseteq> U \<Longrightarrow> kfind k (fold kerase ks m) = (if k \<in> set ks then None else kfind k m)"
  by (induction ks arbitrary: m) (auto simp: inv_erase find_erase)

end

end
