(* ===== verification/Persistent_Map.thy ===== *)
theory Persistent_Map
  imports Prelude
begin

text \<open>
  The hash array mapped trie of include/utils/PersistentMap.h. A node is a 32-bit occupancy
  bitmap and the vector of its entries in slot order; an entry is a leaf (key and value) or,
  when its child pointer is set, a branch. Published versions are immutable, so sharing is
  invisible and every operation is a function from the old root to the new one. The byte
  counter of node copies is not modelled (it depends on the compiler's object layout).
  The hash function is a parameter: \<open>Hash{}(key)\<close> is code of the standard library.
\<close>

section \<open>Nodes\<close>

datatype ('k, 'v) node = Node (bitmap: u32) (entries: "('k, 'v) node_entry list")
  and ('k, 'v) node_entry = Leaf 'k 'v | Branch "('k, 'v) node"

definition BITS :: nat where "BITS = 5"
definition MASK :: u64 where "MASK = 31"
definition MAX_DEPTH :: nat where "MAX_DEPTH = (64 + BITS - 1) div BITS"

definition popcount :: "u32 \<Rightarrow> nat" where
  "popcount w = length (filter (bit w) [0..<32])"

definition node_has :: "u32 \<Rightarrow> nat \<Rightarrow> bool" where
  "node_has bm slot = (drop_bit slot bm AND 1 = 1)"

definition node_index :: "u32 \<Rightarrow> nat \<Rightarrow> nat" where
  "node_index bm slot = popcount (bm AND (push_bit slot 1 - 1))"

definition slot_at :: "u64 \<Rightarrow> nat \<Rightarrow> nat" where
  "slot_at h depth = unat (drop_bit (depth * BITS) h AND MASK)"

definition set_slot :: "u32 \<Rightarrow> nat \<Rightarrow> u32" where
  "set_slot bm slot = bm OR push_bit slot 1"

definition clear_slot :: "u32 \<Rightarrow> nat \<Rightarrow> u32" where
  "clear_slot bm slot = bm AND NOT (push_bit slot 1)"

text \<open>The single-leaf node that \<open>set_impl\<close> makes when it is called on a null pointer.\<close>

definition new_leaf :: "nat \<Rightarrow> u64 \<Rightarrow> 'k \<Rightarrow> 'v \<Rightarrow> ('k, 'v) node" where
  "new_leaf depth h k v = Node (push_bit (slot_at h depth) 1) [Leaf k v]"

section \<open>Insertion, erasure, lookup\<close>

lemma size_entry_nth:
  fixes es :: "('k, 'v) node_entry list"
  shows "i < length es \<Longrightarrow> size (es ! i) < size_list size es"
  by (induction es arbitrary: i) (auto simp: nth_Cons less_Suc_eq trans_less_add2 split: nat.splits)

text \<open>
  The second component is the \<open>inserted\<close> out-parameter. An index past the end of the
  vector would be undefined behaviour in C++; lemma \<open>set_impl_bounded\<close> below shows that no
  operation meets one, so what the model does there (nothing) is never used.
\<close>

function (sequential) set_impl ::
  "('k \<Rightarrow> u64) \<Rightarrow> ('k, 'v) node option \<Rightarrow> nat \<Rightarrow> u64 \<Rightarrow> 'k \<Rightarrow> 'v \<Rightarrow> ('k, 'v) node \<times> bool" where
  "set_impl hash None depth h key val = (new_leaf depth h key val, True)"
| "set_impl hash (Some (Node bm es)) depth h key val =
    (let slot = slot_at h depth; idx = node_index bm slot in
     if \<not> node_has bm slot then
       (Node (set_slot bm slot) (insert_at idx (Leaf key val) es), True)
     else if length es \<le> idx then (Node bm es, False)
     else (case es ! idx of
         Branch child \<Rightarrow>
           (let (c, inserted) = set_impl hash (Some child) (Suc depth) h key val
            in (Node bm (es[idx := Branch c]), inserted))
       | Leaf k0 v0 \<Rightarrow>
           if k0 = key then (Node bm (es[idx := Leaf k0 val]), False)
           else if MAX_DEPTH - 1 \<le> depth then
             (let slot' = (slot + 1) mod 32; bm' = set_slot bm slot'
              in (Node bm' (insert_at (node_index bm' slot') (Leaf key val) es), True))
           else
             (let existing = new_leaf (Suc depth) (hash k0) k0 v0;
                  (c, inserted) = set_impl hash (Some existing) (Suc depth) h key val
              in (Node bm (es[idx := Branch c]), inserted))))"
  by pat_completeness auto
termination
proof (relation "measures [\<lambda>(hash, n, depth, h, key, val). size_option size n,
                           \<lambda>(hash, n, depth, h, key, val). MAX_DEPTH - depth]",
       goal_cases)
  case 1
  show ?case by simp
next
  case (2 hash bm es depth h key val slot idx k0 v0 existing)
  then have "size (Leaf k0 v0) < size_list size es"
    using 2 size_entry_nth [of idx es] by simp
  moreover have "MAX_DEPTH - Suc depth < MAX_DEPTH - depth"
    using 2 by simp
  ultimately show ?case using 2 by (simp add: new_leaf_def) arith
next
  case (3 hash bm es depth h key val slot idx child)
  then have "size (es ! idx) < size_list size es"
    by (intro size_entry_nth) simp
  with 3 show ?case by simp
qed

function (sequential) erase_impl ::
  "('k, 'v) node \<Rightarrow> nat \<Rightarrow> u64 \<Rightarrow> 'k \<Rightarrow> ('k, 'v) node option \<times> bool" where
  "erase_impl (Node bm es) depth h key =
    (let slot = slot_at h depth; idx = node_index bm slot in
     if \<not> node_has bm slot then (Some (Node bm es), False)
     else if length es \<le> idx then (Some (Node bm es), False)
     else (case es ! idx of
         Branch child \<Rightarrow>
           (case erase_impl child (Suc depth) h key of
              (_, False) \<Rightarrow> (Some (Node bm es), False)
            | (Some c, True) \<Rightarrow> (Some (Node bm (es[idx := Branch c])), True)
            | (None, True) \<Rightarrow>
                (if erase_at idx es = [] then (None, True)
                 else (Some (Node (clear_slot bm slot) (erase_at idx es)), True)))
       | Leaf k0 v0 \<Rightarrow>
           if k0 \<noteq> key then (Some (Node bm es), False)
           else if erase_at idx es = [] then (None, True)
           else (Some (Node (clear_slot bm slot) (erase_at idx es)), True)))"
  by pat_completeness auto
termination
proof (relation "measure (\<lambda>(n, depth, h, key). size n)", goal_cases)
  case 1
  show ?case by simp
next
  case (2 bm es depth h key slot idx child)
  then have "size (es ! idx) < size_list size es"
    by (intro size_entry_nth) simp
  with 2 show ?case by simp
qed

function (sequential) find_impl :: "('k, 'v) node \<Rightarrow> nat \<Rightarrow> u64 \<Rightarrow> 'k \<Rightarrow> 'v option" where
  "find_impl (Node bm es) depth h key =
    (let slot = slot_at h depth; idx = node_index bm slot in
     if \<not> node_has bm slot then None
     else if length es \<le> idx then None
     else (case es ! idx of
         Branch child \<Rightarrow> find_impl child (Suc depth) h key
       | Leaf k0 v0 \<Rightarrow> if k0 = key then Some v0 else None))"
  by pat_completeness auto
termination
proof (relation "measure (\<lambda>(n, depth, h, key). size n)", goal_cases)
  case 1
  show ?case by simp
next
  case (2 bm es depth h key slot idx child)
  then have "size (es ! idx) < size_list size es"
    by (intro size_entry_nth) simp
  with 2 show ?case by simp
qed

fun for_each_impl :: "('k, 'v) node \<Rightarrow> ('k \<times> 'v) list"
  and for_each_entry :: "('k, 'v) node_entry \<Rightarrow> ('k \<times> 'v) list" where
  "for_each_impl (Node bm es) = concat (map for_each_entry es)"
| "for_each_entry (Branch child) = for_each_impl child"
| "for_each_entry (Leaf k v) = [(k, v)]"

section \<open>The map\<close>

record ('k, 'v) pmap =
  pm_root :: "('k, 'v) node option"
  pm_size :: u64

definition pm_empty :: "('k, 'v) pmap" where
  "pm_empty = \<lparr>pm_root = None, pm_size = 0\<rparr>"

definition pm_set :: "('k \<Rightarrow> u64) \<Rightarrow> 'k \<Rightarrow> 'v \<Rightarrow> ('k, 'v) pmap \<Rightarrow> ('k, 'v) pmap" where
  "pm_set hash key val m =
    (let (r, inserted) = set_impl hash (pm_root m) 0 (hash key) key val
     in \<lparr>pm_root = Some r, pm_size = pm_size m + (if inserted then 1 else 0)\<rparr>)"

definition pm_erase :: "('k \<Rightarrow> u64) \<Rightarrow> 'k \<Rightarrow> ('k, 'v) pmap \<Rightarrow> ('k, 'v) pmap" where
  "pm_erase hash key m =
    (case pm_root m of
       None \<Rightarrow> m
     | Some n \<Rightarrow>
         (let (r, erased) = erase_impl n 0 (hash key) key
          in \<lparr>pm_root = r, pm_size = pm_size m - (if erased then 1 else 0)\<rparr>))"

definition pm_find :: "('k \<Rightarrow> u64) \<Rightarrow> 'k \<Rightarrow> ('k, 'v) pmap \<Rightarrow> 'v option" where
  "pm_find hash key m =
    (case pm_root m of None \<Rightarrow> None | Some n \<Rightarrow> find_impl n 0 (hash key) key)"

definition pm_is_empty :: "('k, 'v) pmap \<Rightarrow> bool" where
  "pm_is_empty m = (pm_size m = 0)"

definition pm_for_each :: "('k, 'v) pmap \<Rightarrow> ('k \<times> 'v) list" where
  "pm_for_each m = (case pm_root m of None \<Rightarrow> [] | Some n \<Rightarrow> for_each_impl n)"

section \<open>The iterator\<close>

text \<open>
  \<open>const_iterator\<close> holds a stack of frames (node, index of the next entry); the head of the
  list is the back of the vector. \<open>descend_to_leaf\<close> is the source's loop: it pushes the child
  of a branch after advancing the parent's index, stops at a leaf, and pops exhausted frames.
\<close>

type_synonym ('k, 'v) frame = "('k, 'v) node \<times> nat"

fun frame_work :: "('k, 'v) frame \<Rightarrow> nat" where
  "frame_work (Node bm es, i) = Suc (size_list size (drop i es))"

lemma drop_nth_Cons: "i < length xs \<Longrightarrow> drop i xs = xs ! i # drop (Suc i) xs"
  by (rule Cons_nth_drop_Suc [symmetric])

function (sequential) descend_to_leaf :: "('k, 'v) frame list \<Rightarrow> ('k, 'v) frame list" where
  "descend_to_leaf [] = []"
| "descend_to_leaf ((Node bm es, i) # st) =
    (if i < length es then
       (case es ! i of
          Branch child \<Rightarrow> descend_to_leaf ((child, 0) # (Node bm es, Suc i) # st)
        | Leaf k v \<Rightarrow> (Node bm es, i) # st)
     else descend_to_leaf st)"
  by pat_completeness auto
termination
proof (relation "measure (\<lambda>st. sum_list (map frame_work st))", goal_cases)
  case 1
  show ?case by simp
next
  case (2 bm es i st child)
  obtain b ch where "child = Node b ch" by (cases child)
  with 2 show ?case by (simp add: drop_nth_Cons)
next
  case 3
  then show ?case by (simp add: Suc_le_eq)
qed

definition it_begin :: "('k, 'v) pmap \<Rightarrow> ('k, 'v) frame list" where
  "it_begin m = (case pm_root m of None \<Rightarrow> [] | Some n \<Rightarrow> descend_to_leaf [(n, 0)])"

definition it_end :: "('k, 'v) frame list" where
  "it_end = []"

fun it_advance :: "('k, 'v) frame list \<Rightarrow> ('k, 'v) frame list" where
  "it_advance [] = []"
| "it_advance ((n, i) # st) = descend_to_leaf ((n, Suc i) # st)"

text \<open>\<open>operator*\<close>: \<open>None\<close> where the source would read outside a vector.\<close>

fun it_deref :: "('k, 'v) frame list \<Rightarrow> ('k \<times> 'v) option" where
  "it_deref [] = None"
| "it_deref ((Node bm es, i) # st) =
    (if i < length es then (case es ! i of Leaf k v \<Rightarrow> Some (k, v) | Branch _ \<Rightarrow> None) else None)"

text \<open>A range-for over the map, with \<open>n\<close> steps of fuel.\<close>

fun it_collect :: "nat \<Rightarrow> ('k, 'v) frame list \<Rightarrow> ('k \<times> 'v) list option" where
  "it_collect 0 it = (if it = it_end then Some [] else None)"
| "it_collect (Suc n) it =
    (if it = it_end then Some []
     else case it_deref it of
            None \<Rightarrow> None
          | Some e \<Rightarrow> map_option (Cons e) (it_collect n (it_advance it)))"

section \<open>Bits and slots\<close>

definition slots :: "u32 \<Rightarrow> nat list" where
  "slots bm = filter (bit bm) [0..<32]"

lemma length_slots: "length (slots bm) = popcount bm"
  by (simp add: slots_def popcount_def)

lemma MAX_DEPTH_eq [simp]: "MAX_DEPTH = 13"
  by (simp add: MAX_DEPTH_def BITS_def)

lemma bit_single [simp]: "bit (2 ^ s :: u32) i \<longleftrightarrow> i = s \<and> i < 32"
proof -
  have "bit (push_bit s 1 :: u32) i \<longleftrightarrow> s \<le> i \<and> i < 32 \<and> i - s = 0"
    by (simp only: bit_push_bit_iff bit_1_iff possible_bit_word) simp
  then show ?thesis by auto
qed

lemma node_has_bit [simp]: "node_has bm s = bit bm s"
  by (simp add: node_has_def bit_iff_odd_drop_bit and_one_eq odd_iff_mod_2_eq_one)

lemma bit_set_slot: "bit (set_slot bm s) i \<longleftrightarrow> bit bm i \<or> (i = s \<and> i < 32)"
  by (auto simp: set_slot_def bit_or_iff)

lemma bit_clear_slot: "i < 32 \<Longrightarrow> bit (clear_slot bm s) i \<longleftrightarrow> bit bm i \<and> i \<noteq> s"
  by (auto simp: clear_slot_def bit_and_iff bit_not_iff)

lemma node_index_eq: "s \<le> 32 \<Longrightarrow> node_index bm s = length (filter (bit bm) [0..<s])"
proof -
  assume s: "s \<le> 32"
  have m: "push_bit s 1 - 1 = (mask s :: u32)"
    by (simp add: mask_eq_exp_minus_1)
  have b: "bit (bm AND mask s) i \<longleftrightarrow> bit bm i \<and> i < s" if "i < 32" for i
    using that by (simp add: bit_and_iff bit_mask_iff)
  have "filter (bit (bm AND mask s)) [0..<32] = filter (\<lambda>i. bit bm i \<and> i < s) [0..<32]"
    by (rule filter_cong) (auto simp: b)
  also have "\<dots> = filter (\<lambda>i. bit bm i \<and> i < s) [0..<s] @ filter (\<lambda>i. bit bm i \<and> i < s) [s..<32]"
    using s by (metis filter_append le_add_diff_inverse plus_nat.add_0 upt_add_eq_append zero_le)
  also have "filter (\<lambda>i. bit bm i \<and> i < s) [s..<32] = []"
    by (auto simp: filter_empty_conv)
  also have "filter (\<lambda>i. bit bm i \<and> i < s) [0..<s] = filter (bit bm) [0..<s]"
    by (rule filter_cong) auto
  finally show ?thesis unfolding node_index_def popcount_def m by simp
qed

lemma slots_split:
  assumes "s < 32"
  obtains as bs where "slots bm = as @ (if bit bm s then [s] else []) @ bs"
    and "length as = node_index bm s" and "s \<notin> set as" and "s \<notin> set bs"
    and "slots (set_slot bm s) = as @ s # bs" and "slots (clear_slot bm s) = as @ bs"
proof
  let ?as = "filter (bit bm) [0..<s]" and ?bs = "filter (bit bm) [Suc s..<32]"
  show "slots bm = ?as @ (if bit bm s then [s] else []) @ ?bs"
    unfolding slots_def using assms by (rule filter_upt_split)
  show "length ?as = node_index bm s" using assms by (simp add: node_index_eq)
  show "s \<notin> set ?as" and "s \<notin> set ?bs" by auto
  have "slots (set_slot bm s) = filter (bit (set_slot bm s)) [0..<s]
      @ (if bit (set_slot bm s) s then [s] else []) @ filter (bit (set_slot bm s)) [Suc s..<32]"
    unfolding slots_def using assms by (rule filter_upt_split)
  moreover have "filter (bit (set_slot bm s)) [0..<s] = ?as"
    "filter (bit (set_slot bm s)) [Suc s..<32] = ?bs"
    by (rule filter_cong, auto simp: bit_set_slot)+
  ultimately show "slots (set_slot bm s) = ?as @ s # ?bs"
    using assms by (simp add: bit_set_slot)
  have "slots (clear_slot bm s) = filter (bit (clear_slot bm s)) [0..<s]
      @ (if bit (clear_slot bm s) s then [s] else []) @ filter (bit (clear_slot bm s)) [Suc s..<32]"
    unfolding slots_def using assms by (rule filter_upt_split)
  moreover have "filter (bit (clear_slot bm s)) [0..<s] = ?as"
    "filter (bit (clear_slot bm s)) [Suc s..<32] = ?bs"
    using assms by (auto intro!: filter_cong simp: bit_clear_slot)
  ultimately show "slots (clear_slot bm s) = ?as @ ?bs"
    using assms by (simp add: bit_clear_slot)
qed

lemma slot_at_less: "slot_at h d < 32"
proof -
  have "drop_bit (d * BITS) h AND MASK \<le> MASK" by (rule word_and_le1)
  then have "unat (drop_bit (d * BITS) h AND MASK) \<le> unat MASK"
    by (simp add: word_le_nat_alt)
  then show ?thesis by (simp add: slot_at_def MASK_def)
qed

lemma slot_at_inject:
  assumes "\<And>j. j < 13 \<Longrightarrow> slot_at h1 j = slot_at h2 j"
  shows "h1 = h2"
proof (rule bit_eqI)
  fix i
  assume "possible_bit TYPE(64 word) i"
  then have i: "i < 64" by simp
  let ?j = "i div 5"
  have "?j < 13" using i by simp
  then have "unat (drop_bit (?j * BITS) h1 AND MASK) = unat (drop_bit (?j * BITS) h2 AND MASK)"
    using assms by (simp add: slot_at_def)
  then have eq: "drop_bit (?j * BITS) h1 AND MASK = drop_bit (?j * BITS) h2 AND MASK"
    by (simp only: word_unat_eq_iff)
  have M: "MASK = mask 5" by (simp add: MASK_def mask_eq_exp_minus_1)
  have "bit (drop_bit (?j * BITS) h AND MASK) (i mod 5) = bit h i" for h :: u64
    using i
    by (simp add: M bit_and_iff bit_mask_iff bit_drop_bit_eq BITS_def mult.commute less_trans [of _ 5])
  then show "bit h1 i = bit h2 i" using eq by metis
qed

section \<open>A node as a sparse array of entries\<close>

definition node_map :: "u32 \<Rightarrow> ('k, 'v) node_entry list \<Rightarrow> nat \<Rightarrow> ('k, 'v) node_entry option" where
  "node_map bm es = map_of (zip (slots bm) es)"

lemma map_of_zip_mid:
  assumes "length as = length ea" and "length bs = length eb" and "s \<notin> set as" and "s \<notin> set bs"
  shows "map_of (zip (as @ s # bs) (ea @ e # eb)) = (map_of (zip (as @ bs) (ea @ eb)))(s \<mapsto> e)"
    and "map_of (zip (as @ bs) (ea @ eb)) s = None"
proof -
  have n: "map_of (zip as ea) s = None"
    using assms by (auto simp: map_of_eq_None_iff dest: set_zip_leftD)
  have m: "map_of (zip bs eb) s = None"
    using assms by (auto simp: map_of_eq_None_iff dest: set_zip_leftD)
  show "map_of (zip (as @ s # bs) (ea @ e # eb)) = (map_of (zip (as @ bs) (ea @ eb)))(s \<mapsto> e)"
  proof
    fix x
    show "map_of (zip (as @ s # bs) (ea @ e # eb)) x = ((map_of (zip (as @ bs) (ea @ eb)))(s \<mapsto> e)) x"
      using assms n
      by (cases "x = s") (simp_all add: map_add_def fun_upd_def del: map_of_zip_is_None)
  qed
  show "map_of (zip (as @ bs) (ea @ eb)) s = None"
    using assms n m by (simp add: map_add_def del: map_of_zip_is_None)
qed

lemma entries_split_free:
  assumes "s < 32" and "length es = popcount bm" and "\<not> bit bm s"
  obtains as bs ea eb where "slots bm = as @ bs" and "es = ea @ eb"
    and "length as = length ea" and "length bs = length eb" and "length ea = node_index bm s"
    and "s \<notin> set as" and "s \<notin> set bs" and "slots (set_slot bm s) = as @ s # bs"
proof -
  obtain as bs where sp0: "slots bm = as @ (if bit bm s then [s] else []) @ bs"
    and sp: "length as = node_index bm s" "s \<notin> set as" "s \<notin> set bs"
      "slots (set_slot bm s) = as @ s # bs"
    by (rule slots_split [OF assms(1)])
  have sp1: "slots bm = as @ bs" using sp0 assms(3) by simp
  let ?i = "node_index bm s"
  have "length es = ?i + length bs"
    using assms(2) sp1 sp(1) by (simp flip: length_slots)
  then show ?thesis
    using sp1 sp by (intro that [of as bs "take ?i es" "drop ?i es"]) auto
qed

lemma entries_split_has:
  assumes "s < 32" and "length es = popcount bm" and "bit bm s"
  obtains as bs ea e eb where "slots bm = as @ s # bs" and "es = ea @ e # eb"
    and "length as = length ea" and "length bs = length eb" and "length ea = node_index bm s"
    and "s \<notin> set as" and "s \<notin> set bs" and "slots (clear_slot bm s) = as @ bs"
proof -
  obtain as bs where sp0: "slots bm = as @ (if bit bm s then [s] else []) @ bs"
    and sp: "length as = node_index bm s" "s \<notin> set as" "s \<notin> set bs"
      "slots (clear_slot bm s) = as @ bs"
    by (rule slots_split [OF assms(1)])
  have sp1: "slots bm = as @ s # bs" using sp0 assms(3) by simp
  let ?i = "node_index bm s"
  have len: "length es = ?i + Suc (length bs)"
    using assms(2) sp1 sp(1) by (simp flip: length_slots)
  then have "es = take ?i es @ es ! ?i # drop (Suc ?i) es"
    by (simp add: id_take_nth_drop)
  then show ?thesis
    using sp1 sp len by (intro that [of as bs "take ?i es" "es ! ?i" "drop (Suc ?i) es"]) simp_all
qed

lemma node_map_free:
  assumes "s < 32" and "length es = popcount bm" and "\<not> bit bm s"
  shows "node_map bm es s = None"
    and "node_map (set_slot bm s) (insert_at (node_index bm s) e es) = (node_map bm es)(s \<mapsto> e)"
    and "popcount (set_slot bm s) = Suc (popcount bm)"
proof -
  obtain as bs ea eb where d: "slots bm = as @ bs" "es = ea @ eb"
    "length as = length ea" "length bs = length eb" "length ea = node_index bm s"
    "s \<notin> set as" "s \<notin> set bs" "slots (set_slot bm s) = as @ s # bs"
    using entries_split_free [OF assms] by metis
  note mid = map_of_zip_mid [OF d(3,4,6,7)]
  show "node_map bm es s = None"
    unfolding node_map_def d(1,2) by (rule mid)
  show "node_map (set_slot bm s) (insert_at (node_index bm s) e es) = (node_map bm es)(s \<mapsto> e)"
    unfolding node_map_def d(1,2,8) insert_at_split [OF d(5)] by (rule mid)
  show "popcount (set_slot bm s) = Suc (popcount bm)"
    using d by (simp flip: length_slots)
qed

lemma node_map_has:
  assumes "s < 32" and "length es = popcount bm" and "bit bm s"
  shows "node_map bm es s = Some (es ! node_index bm s)"
    and "node_index bm s < length es"
    and "node_map bm (es[node_index bm s := e]) = (node_map bm es)(s \<mapsto> e)"
    and "node_map (clear_slot bm s) (erase_at (node_index bm s) es) = (node_map bm es)(s := None)"
    and "popcount (clear_slot bm s) = popcount bm - 1"
proof -
  obtain as bs ea x eb where d: "slots bm = as @ s # bs" "es = ea @ x # eb"
    "length as = length ea" "length bs = length eb" "length ea = node_index bm s"
    "s \<notin> set as" "s \<notin> set bs" "slots (clear_slot bm s) = as @ bs"
    using entries_split_has [OF assms] by metis
  note mid = map_of_zip_mid [OF d(3,4,6,7)]
  have x: "es ! node_index bm s = x" and u: "es[node_index bm s := e] = ea @ e # eb"
    unfolding d(2) by (simp_all flip: d(5))
  show "node_map bm es s = Some (es ! node_index bm s)"
    unfolding x unfolding node_map_def d(1,2) mid(1) by simp
  show "node_index bm s < length es"
    unfolding d(2) by (simp flip: d(5))
  show "node_map bm (es[node_index bm s := e]) = (node_map bm es)(s \<mapsto> e)"
    unfolding u unfolding node_map_def d(1,2) mid(1) by simp
  show "node_map (clear_slot bm s) (erase_at (node_index bm s) es) = (node_map bm es)(s := None)"
    unfolding node_map_def d(1,2,8) erase_at_split [OF d(5)] mid(1)
    using mid(2) by (simp add: fun_upd_idem)
  show "popcount (clear_slot bm s) = popcount bm - 1"
    using d(1,8) by (simp flip: length_slots)
qed

lemma set_entries: "length es = popcount bm \<Longrightarrow> set es = ran (node_map bm es)"
proof -
  assume l: "length es = popcount bm"
  have "distinct (slots bm)" by (simp add: slots_def)
  then have "distinct (map fst (zip (slots bm) es))"
    using l by (simp add: length_slots)
  then have "ran (node_map bm es) = snd ` set (zip (slots bm) es)"
    unfolding node_map_def by (rule ran_distinct)
  also have "\<dots> = set (map snd (zip (slots bm) es))" by simp
  also have "\<dots> = set es" using l by (simp add: length_slots)
  finally show ?thesis by simp
qed

section \<open>Well-formed tries\<close>

text \<open>
  \<open>wfn hash d K n\<close>: the node \<open>n\<close> sits at depth \<open>d\<close> and holds keys of \<open>K\<close> only, whose hashes
  agree on the slots of the levels above; its vector has one entry per bit; every leaf sits in
  its key's slot; every branch is a non-empty well-formed node for the keys of its slot.
\<close>

definition agree :: "('k \<Rightarrow> u64) \<Rightarrow> nat \<Rightarrow> 'k set \<Rightarrow> bool" where
  "agree hash d K = (\<forall>k1\<in>K. \<forall>k2\<in>K. \<forall>j<d. slot_at (hash k1) j = slot_at (hash k2) j)"

definition slot_keys :: "('k \<Rightarrow> u64) \<Rightarrow> nat \<Rightarrow> 'k set \<Rightarrow> nat \<Rightarrow> 'k set" where
  "slot_keys hash d K s = {k \<in> K. slot_at (hash k) d = s}"

inductive wfn :: "('k \<Rightarrow> u64) \<Rightarrow> nat \<Rightarrow> 'k set \<Rightarrow> ('k, 'v) node \<Rightarrow> bool" for hash where
  wfnI: "\<lbrakk> length es = popcount bm; es \<noteq> []; d < MAX_DEPTH; agree hash d K;
     \<And>s k v. node_map bm es s = Some (Leaf k v) \<Longrightarrow> k \<in> K \<and> slot_at (hash k) d = s;
     \<And>s c. node_map bm es s = Some (Branch c) \<Longrightarrow> wfn hash (Suc d) (slot_keys hash d K s) c \<rbrakk>
   \<Longrightarrow> wfn hash d K (Node bm es)"

inductive_cases wfnE: "wfn hash d K (Node bm es)"

lemma agree_Suc: "agree hash d K \<Longrightarrow> agree hash (Suc d) (slot_keys hash d K s)"
  by (auto simp: agree_def slot_keys_def less_Suc_eq)

lemma slot_keys_mem [simp]: "k \<in> slot_keys hash d K s \<longleftrightarrow> k \<in> K \<and> slot_at (hash k) d = s"
  by (auto simp: slot_keys_def)

lemma slot_keys_subset: "slot_keys hash d K s \<subseteq> K"
  by (auto simp: slot_keys_def)

text \<open>Lookup, in terms of the sparse array.\<close>

lemma find_impl_node:
  assumes "length es = popcount bm"
  shows "find_impl (Node bm es) d h key =
    (case node_map bm es (slot_at h d) of
       None \<Rightarrow> None
     | Some (Leaf k0 v0) \<Rightarrow> if k0 = key then Some v0 else None
     | Some (Branch c) \<Rightarrow> find_impl c (Suc d) h key)"
  using node_map_free(1) [OF slot_at_less assms, of h d] node_map_has(1,2) [OF slot_at_less assms, of h d]
  by (cases "bit bm (slot_at h d)") (auto simp: Let_def not_le split: node_entry.split)

declare find_impl.simps [simp del]

lemma new_leaf_facts:
  "length [Leaf k v] = popcount (push_bit (slot_at h d) 1)"
  "node_map (push_bit (slot_at h d) 1) [Leaf k v] = [slot_at h d \<mapsto> Leaf k v]"
proof -
  have e: "popcount 0 = 0" "node_map 0 [] = Map.empty"
    by (simp_all add: popcount_def node_map_def slots_def)
  show "length [Leaf k v] = popcount (push_bit (slot_at h d) 1)"
    using node_map_free(3) [of "slot_at h d" "[]" 0] by (simp add: slot_at_less e set_slot_def)
  show "node_map (push_bit (slot_at h d) 1) [Leaf k v] = [slot_at h d \<mapsto> Leaf k v]"
    using node_map_free(2) [of "slot_at h d" "[]" 0 "Leaf k v"]
    by (simp add: slot_at_less e set_slot_def insert_at_def)
qed

lemma wfn_new_leaf:
  "k \<in> K \<Longrightarrow> agree hash d K \<Longrightarrow> d < MAX_DEPTH \<Longrightarrow> wfn hash d K (new_leaf d (hash k) k v)"
  unfolding new_leaf_def
  by (rule wfnI) (use new_leaf_facts in \<open>auto simp: new_leaf_facts(2) simp del: push_bit_of_1 split: if_splits\<close>)

lemma find_new_leaf [simp]:
  "find_impl (new_leaf d (hash k) k v) d (hash k') k' = (if k' = k then Some v else None)"
  unfolding new_leaf_def find_impl_node [OF new_leaf_facts(1)] new_leaf_facts(2) by auto

text \<open>\<open>set_impl\<close> in terms of the sparse array; \<open>hash\<close> separates the keys at the last level.\<close>

lemma wfn_update:
  assumes "wfn hash d K (Node bm es)" and "bit bm (slot_at h d)"
    and "\<And>k v. e = Leaf k v \<Longrightarrow> k \<in> K \<and> slot_at (hash k) d = slot_at h d"
    and "\<And>c. e = Branch c \<Longrightarrow> wfn hash (Suc d) (slot_keys hash d K (slot_at h d)) c"
  shows "wfn hash d K (Node bm (es[node_index bm (slot_at h d) := e]))"
proof -
  have w: "length es = popcount bm" "es \<noteq> []" "d < MAX_DEPTH" "agree hash d K"
    "\<And>s k v. node_map bm es s = Some (Leaf k v) \<Longrightarrow> k \<in> K \<and> slot_at (hash k) d = s"
    "\<And>s c. node_map bm es s = Some (Branch c) \<Longrightarrow> wfn hash (Suc d) (slot_keys hash d K s) c"
    using assms(1) by (auto elim: wfnE)
  show ?thesis
    by (rule wfnI) (use w assms(2-4) in \<open>auto simp: node_map_has(3) slot_at_less split: if_splits\<close>)
qed

lemma find_update:
  assumes "length es = popcount bm" and "bit bm (slot_at h d)"
  shows "find_impl (Node bm (es[node_index bm (slot_at h d) := e])) d h' key =
    (if slot_at h' d = slot_at h d then
       (case e of Leaf k0 v0 \<Rightarrow> if k0 = key then Some v0 else None
                | Branch c \<Rightarrow> find_impl c (Suc d) h' key)
     else find_impl (Node bm es) d h' key)"
  using assms by (auto simp: find_impl_node node_map_has(3) slot_at_less)

lemma collision_free:
  assumes "agree hash d K" and "k1 \<in> K" and "k2 \<in> K" and "MAX_DEPTH - 1 \<le> d"
    and "slot_at (hash k1) d = slot_at (hash k2) d" and "d < MAX_DEPTH"
  shows "hash k1 = hash k2"
proof (rule slot_at_inject)
  fix j :: nat
  assume "j < 13"
  moreover have "d = 12" using assms(4,6) by simp
  ultimately have "j < d \<or> j = d" by auto
  then show "slot_at (hash k1) j = slot_at (hash k2) j"
    using assms(1-3,5) by (auto simp: agree_def)
qed

text \<open>
  What one level of an update does to the map below a node: the entry of the key's slot is
  replaced by \<open>e\<close>, which answers for the keys of that slot.
\<close>

definition entry_find :: "('k, 'v) node_entry \<Rightarrow> nat \<Rightarrow> u64 \<Rightarrow> 'k \<Rightarrow> 'v option" where
  "entry_find e d h key =
    (case e of Leaf k0 v0 \<Rightarrow> if k0 = key then Some v0 else None | Branch c \<Rightarrow> find_impl c (Suc d) h key)"

definition entry_ok :: "('k \<Rightarrow> u64) \<Rightarrow> nat \<Rightarrow> 'k set \<Rightarrow> ('k, 'v) node_entry \<Rightarrow> bool" where
  "entry_ok hash d Ks e =
    (case e of Leaf k0 v0 \<Rightarrow> k0 \<in> Ks | Branch c \<Rightarrow> wfn hash (Suc d) Ks c)"

lemma entry_ok_simps [simp]:
  "entry_ok hash d Ks (Leaf k v) \<longleftrightarrow> k \<in> Ks"
  "entry_ok hash d Ks (Branch c) \<longleftrightarrow> wfn hash (Suc d) Ks c"
  by (simp_all add: entry_ok_def)

lemma entry_find_simps [simp]:
  "entry_find (Leaf k v) d h key = (if k = key then Some v else None)"
  "entry_find (Branch c) d h key = find_impl c (Suc d) h key"
  by (simp_all add: entry_find_def)

definition upd_spec ::
  "('k \<Rightarrow> u64) \<Rightarrow> nat \<Rightarrow> 'k set \<Rightarrow> ('k, 'v) node \<Rightarrow> 'k \<Rightarrow> 'v option \<Rightarrow> ('k, 'v) node \<Rightarrow> bool" where
  "upd_spec hash d K n k v n' \<longleftrightarrow> wfn hash d K n' \<and>
    (\<forall>k'\<in>K. find_impl n' d (hash k') k' = (if k' = k then v else find_impl n d (hash k') k'))"

lemma wfnD:
  assumes "wfn hash d K (Node bm es)"
  shows "length es = popcount bm" "es \<noteq> []" "d < MAX_DEPTH" "agree hash d K"
    and "node_map bm es s = Some e \<Longrightarrow> entry_ok hash d (slot_keys hash d K s) e"
  using assms by (auto elim!: wfnE simp: entry_ok_def split: node_entry.split)

lemma wfn_entriesI:
  assumes "length es = popcount bm" "es \<noteq> []" "d < MAX_DEPTH" "agree hash d K"
    and "\<And>s e. node_map bm es s = Some e \<Longrightarrow> entry_ok hash d (slot_keys hash d K s) e"
  shows "wfn hash d K (Node bm es)"
  using assms(1-4) by (rule wfnI) (use assms(5) in \<open>force simp: entry_ok_def\<close>)+

lemma find_entry:
  "length es = popcount bm \<Longrightarrow> find_impl (Node bm es) d h key =
    (case node_map bm es (slot_at h d) of None \<Rightarrow> None | Some e \<Rightarrow> entry_find e d h key)"
  by (auto simp: find_impl_node entry_find_def split: option.split node_entry.split)

lemma upd_spec_replace:
  assumes "wfn hash d K (Node bm es)" and "bit bm (slot_at (hash k) d)"
    and "entry_ok hash d (slot_keys hash d K (slot_at (hash k) d)) e"
    and "\<And>k'. k' \<in> slot_keys hash d K (slot_at (hash k) d) \<Longrightarrow> entry_find e d (hash k') k' =
      (if k' = k then v else entry_find (es ! node_index bm (slot_at (hash k) d)) d (hash k') k')"
  shows "upd_spec hash d K (Node bm es) k v (Node bm (es[node_index bm (slot_at (hash k) d) := e]))"
proof -
  note w = wfnD [OF assms(1)]
  note has = node_map_has [OF slot_at_less w(1) assms(2)]
  have l: "length (es[node_index bm (slot_at (hash k) d) := e]) = popcount bm"
    using w(1) by simp
  have "wfn hash d K (Node bm (es[node_index bm (slot_at (hash k) d) := e]))"
    by (rule wfn_entriesI [OF l]) (use w assms(3) in \<open>auto simp: has(3) split: if_splits\<close>)
  then show ?thesis
    using assms(4) has(1) by (auto simp: upd_spec_def find_entry [OF l] find_entry [OF w(1)] has(3))
qed

lemma upd_spec_insert:
  assumes "wfn hash d K (Node bm es)" and "\<not> bit bm (slot_at (hash k) d)" and "k \<in> K"
  shows "upd_spec hash d K (Node bm es) k (Some v)
    (Node (set_slot bm (slot_at (hash k) d)) (insert_at (node_index bm (slot_at (hash k) d)) (Leaf k v) es))"
    (is "upd_spec _ _ _ _ _ _ (Node ?bm ?es)")
proof -
  note w = wfnD [OF assms(1)]
  note free = node_map_free [OF slot_at_less w(1) assms(2)]
  have l: "length ?es = popcount ?bm" using w(1) free(3) by simp
  have "wfn hash d K (Node ?bm ?es)"
    by (rule wfn_entriesI [OF l])
      (use w assms(3) in \<open>auto simp: free(2) split: if_splits\<close>)
  then show ?thesis
    using free(1) by (auto simp: upd_spec_def find_entry [OF l] find_entry [OF w(1)] free(2))
qed

text \<open>One level of \<open>set_impl\<close>, the recursive calls replaced by what they guarantee.\<close>

theorem set_impl_correct:
  assumes "wfn hash d K n" and "k \<in> K" and "inj_on hash K"
    and "set_impl hash (Some n) d (hash k) k v = (n', ins)"
  shows "upd_spec hash d K n k (Some v) n' \<and> (ins \<longleftrightarrow> find_impl n d (hash k) k = None)"
  using assms
proof (induction hash "Some n" d "hash k" k v arbitrary: K n n' ins rule: set_impl.induct)
  case (2 hash bm es d k v)
  let ?s = "slot_at (hash k) d" and ?i = "node_index bm (slot_at (hash k) d)"
  let ?Ks = "slot_keys hash d K ?s"
  note wf = "2.prems"(1) and w = wfnD [OF "2.prems"(1)] and find = find_entry [OF w(1)]
  have inj: "inj_on hash ?Ks" using "2.prems"(3) slot_keys_subset by (rule inj_on_subset)
  have k: "k \<in> ?Ks" using "2.prems"(2) by simp
  show ?case
  proof (cases "bit bm ?s")
    case False
    then show ?thesis
      using "2.prems"(4) upd_spec_insert [OF wf False "2.prems"(2)] node_map_free(1) [OF slot_at_less w(1) False]
      by (auto simp: Let_def find)
  next
    case True
    note has = node_map_has [OF slot_at_less w(1) True] and rep = upd_spec_replace [OF wf True]
    have ok: "entry_ok hash d ?Ks (es ! ?i)" using w(5) has(1) by blast
    show ?thesis
    proof (cases "es ! ?i")
      case (Branch child)
      obtain c ins' where rec: "set_impl hash (Some child) (Suc d) (hash k) k v = (c, ins')"
        by (metis surj_pair)
      have IH: "upd_spec hash (Suc d) ?Ks child k (Some v) c \<and> (ins' \<longleftrightarrow> find_impl child (Suc d) (hash k) k = None)"
        using "2.hyps"(2) [OF refl refl _ _ Branch _ k inj rec] True has(2) ok Branch
        by simp
      then show ?thesis
        using "2.prems"(4) rec True Branch has(1,2) rep [of "Branch c" "Some v"]
        by (auto simp: Let_def find upd_spec_def)
    next
      case (Leaf k0 v0)
      have k0: "k0 \<in> ?Ks" using ok Leaf by simp
      show ?thesis
      proof (cases "k0 = k")
        case eq: True
        then show ?thesis
          using "2.prems"(2,4) True Leaf has(1,2) rep [of "Leaf k v" "Some v"]
          by (auto simp: Let_def find)
      next
        case neq: False
        have deep: "\<not> MAX_DEPTH - 1 \<le> d"
          using collision_free [OF w(4), of k0 k] w(3) k0 "2.prems"(2,3) neq by (auto dest: inj_onD)
        let ?ex = "new_leaf (Suc d) (hash k0) k0 v0"
        obtain c ins' where rec: "set_impl hash (Some ?ex) (Suc d) (hash k) k v = (c, ins')"
          by (metis surj_pair)
        have "wfn hash (Suc d) ?Ks ?ex"
          using k0 w(4) deep by (intro wfn_new_leaf agree_Suc) auto
        then have IH: "upd_spec hash (Suc d) ?Ks ?ex k (Some v) c \<and> (ins' \<longleftrightarrow> find_impl ?ex (Suc d) (hash k) k = None)"
          using "2.hyps"(1) [OF refl refl _ _ Leaf neq deep refl _ k inj rec] True has(2) by simp
        then show ?thesis
          using "2.prems"(4) rec True Leaf neq deep has(1,2) rep [of "Branch c" "Some v"]
          by (auto simp: Let_def find upd_spec_def)
      qed
    qed
  qed
qed

text \<open>Erasure: \<open>None\<close> stands for the null pointer, a subtree without keys.\<close>

definition upd_opt ::
  "('k \<Rightarrow> u64) \<Rightarrow> nat \<Rightarrow> 'k set \<Rightarrow> ('k, 'v) node \<Rightarrow> 'k \<Rightarrow> ('k, 'v) node option \<Rightarrow> bool" where
  "upd_opt hash d K n k r =
    (case r of None \<Rightarrow> \<forall>k'\<in>K. k' \<noteq> k \<longrightarrow> find_impl n d (hash k') k' = None
             | Some n' \<Rightarrow> upd_spec hash d K n k None n')"

lemma upd_opt_same:
  "wfn hash d K n \<Longrightarrow> find_impl n d (hash k) k = None \<Longrightarrow> upd_opt hash d K n k (Some n)"
  by (simp add: upd_opt_def upd_spec_def)

lemma upd_opt_remove:
  assumes "wfn hash d K (Node bm es)" and "bit bm (slot_at (hash k) d)"
    and "\<And>k'. k' \<in> slot_keys hash d K (slot_at (hash k) d) \<Longrightarrow> k' \<noteq> k \<Longrightarrow>
      entry_find (es ! node_index bm (slot_at (hash k) d)) d (hash k') k' = None"
  shows "upd_opt hash d K (Node bm es) k
    (if erase_at (node_index bm (slot_at (hash k) d)) es = [] then None
     else Some (Node (clear_slot bm (slot_at (hash k) d)) (erase_at (node_index bm (slot_at (hash k) d)) es)))"
    (is "upd_opt _ _ _ _ _ (if ?es = [] then None else Some (Node ?bm ?es))")
proof -
  note w = wfnD [OF assms(1)]
  note has = node_map_has [OF slot_at_less w(1) assms(2)]
  have l: "length ?es = popcount ?bm" using w(1) has(2,5) by (simp add: length_erase_at)
  show ?thesis
  proof (cases "?es = []")
    case True
    have "node_map ?bm ?es = Map.empty" using l True by (simp add: node_map_def)
    then have "node_map bm es s = None" if "s \<noteq> slot_at (hash k) d" for s
      using has(4) that by (metis fun_upd_other)
    then have "find_impl (Node bm es) d (hash k') k' = None" if "k' \<in> K" "k' \<noteq> k" for k'
      using that assms(3) [of k'] has(1)
      by (cases "slot_at (hash k') d = slot_at (hash k) d") (auto simp: find_entry [OF w(1)])
    then show ?thesis using True by (simp add: upd_opt_def)
  next
    case False
    have "wfn hash d K (Node ?bm ?es)"
      by (rule wfn_entriesI [OF l]) (use False w in \<open>auto simp: has(4) split: if_splits\<close>)
    then show ?thesis
      using False assms(3) has(1)
      by (auto simp: upd_opt_def upd_spec_def find_entry [OF l] find_entry [OF w(1)] has(4))
  qed
qed

theorem erase_impl_correct:
  assumes "wfn hash d K n" and "k \<in> K" and "erase_impl n d (hash k) k = (r, erased)"
  shows "upd_opt hash d K n k r \<and> (erased \<longleftrightarrow> find_impl n d (hash k) k \<noteq> None)"
  using assms
proof (induction n d "hash k" k arbitrary: K r erased rule: erase_impl.induct)
  case (1 bm es d k)
  let ?s = "slot_at (hash k) d" and ?i = "node_index bm (slot_at (hash k) d)"
  let ?Ks = "slot_keys hash d K ?s"
  note wf = "1.prems"(1) and w = wfnD [OF "1.prems"(1)] and find = find_entry [OF w(1)]
  have k: "k \<in> ?Ks" using "1.prems"(2) by simp
  show ?case
  proof (cases "bit bm ?s")
    case False
    then show ?thesis
      using "1.prems"(3) upd_opt_same [OF wf] node_map_free(1) [OF slot_at_less w(1) False]
      by (auto simp: Let_def find)
  next
    case True
    note has = node_map_has [OF slot_at_less w(1) True] and rem = upd_opt_remove [OF wf True]
    have ok: "entry_ok hash d ?Ks (es ! ?i)" using w(5) has(1) by blast
    show ?thesis
    proof (cases "es ! ?i")
      case (Leaf k0 v0)
      then show ?thesis
        using "1.prems"(3) True has(1,2) rem upd_opt_same [OF wf]
        by (auto simp: Let_def find split: if_splits)
    next
      case (Branch child)
      obtain c er where rec: "erase_impl child (Suc d) (hash k) k = (c, er)"
        by (metis surj_pair)
      have IH: "upd_opt hash (Suc d) ?Ks child k c \<and> (er \<longleftrightarrow> find_impl child (Suc d) (hash k) k \<noteq> None)"
        using "1.hyps" [OF refl refl _ _ Branch _ k rec] True has(2) ok Branch by simp
      show ?thesis
      proof (cases er)
        case False
        then have "r = Some (Node bm es)" "\<not> erased"
          using "1.prems"(3) rec \<open>bit bm ?s\<close> Branch has(2) by (auto simp: Let_def split: option.splits)
        then show ?thesis
          using IH False has(1) Branch upd_opt_same [OF wf] by (simp add: find)
      next
        case True
        then have e: "erased" "r = (case c of Some c' \<Rightarrow> Some (Node bm (es[?i := Branch c']))
            | None \<Rightarrow> if erase_at ?i es = [] then None else Some (Node (clear_slot bm ?s) (erase_at ?i es)))"
          using "1.prems"(3) rec \<open>bit bm ?s\<close> Branch has(2)
          by (auto simp: Let_def split: option.splits if_splits)
        show ?thesis
        proof (cases c)
          case None
          then show ?thesis
            using IH e True has(1) Branch rem by (auto simp: find upd_opt_def)
        next
          case (Some c')
          then show ?thesis
            using IH e True has(1) Branch upd_spec_replace [OF wf \<open>bit bm ?s\<close>, of "Branch c'" None]
            by (auto simp: find upd_opt_def upd_spec_def)
        qed
      qed
    qed
  qed
qed

section \<open>Iteration\<close>

lemma wfn_subset_find: "wfn hash d K n \<Longrightarrow> find_impl n d (hash k) k = Some v \<Longrightarrow> k \<in> K"
proof (induction arbitrary: k v rule: wfn.induct)
  case (wfnI es bm d K)
  then show ?case
    by (fastforce simp: find_entry entry_find_def split: option.splits node_entry.splits if_splits)
qed

lemma for_each_impl_iff:
  "wfn hash d K n \<Longrightarrow> (k, v) \<in> set (for_each_impl n) \<longleftrightarrow> find_impl n d (hash k) k = Some v"
proof (induction arbitrary: k v rule: wfn.induct)
  case (wfnI es bm d K)
  have E: "(k, v) \<in> set (for_each_entry e) \<longleftrightarrow> slot_at (hash k) d = s \<and> entry_find e d (hash k) k = Some v"
    if m: "node_map bm es s = Some e" for s e
  proof (cases e)
    case (Leaf k0 v0)
    then show ?thesis using wfnI.hyps(5) m by auto
  next
    case (Branch c)
    have "find_impl c (Suc d) (hash k) k = Some v \<Longrightarrow> slot_at (hash k) d = s"
      using wfn_subset_find [OF wfnI.hyps(6) [OF m [unfolded Branch]]] by simp
    then show ?thesis using wfnI.IH [OF m [unfolded Branch]] Branch by auto
  qed
  have "(k, v) \<in> set (for_each_impl (Node bm es)) \<longleftrightarrow>
      (\<exists>s e. node_map bm es s = Some e \<and> (k, v) \<in> set (for_each_entry e))"
    using set_entries [OF wfnI.hyps(1)] by (auto simp: ran_def)
  also have "\<dots> \<longleftrightarrow> (\<exists>e. node_map bm es (slot_at (hash k) d) = Some e \<and> entry_find e d (hash k) k = Some v)"
    using E by blast
  also have "\<dots> \<longleftrightarrow> find_impl (Node bm es) d (hash k) k = Some v"
    by (simp add: find_entry [OF wfnI.hyps(1)] split: option.split)
  finally show ?case .
qed

lemma distinct_concat_slots:
  assumes "length ss = length es" and "distinct ss"
    and "\<And>s e. (s, e) \<in> set (zip ss es) \<Longrightarrow> distinct (map fst (f e)) \<and> (\<forall>k\<in>fst ` set (f e). g k = s)"
  shows "distinct (map fst (concat (map f es)))"
  using assms
proof (induction ss es rule: list_induct2)
  case (Cons s ss e es)
  have other: "g k \<noteq> s" if "k \<in> fst ` set (concat (map f es))" for k
  proof -
    from that obtain e' where e': "e' \<in> set es" "k \<in> fst ` set (f e')" by auto
    then obtain s' where s': "(s', e') \<in> set (zip ss es)"
      using Cons.hyps by (metis in_set_impl_in_set_zip2)
    then have "g k = s'" using Cons.prems(2) [of s' e'] e' by auto
    moreover have "s' \<noteq> s" using set_zip_leftD [OF s'] Cons.prems(1) by auto
    ultimately show ?thesis by simp
  qed
  have here: "distinct (map fst (f e)) \<and> (\<forall>k\<in>fst ` set (f e). g k = s)"
    using Cons.prems(2) [of s e] by auto
  have "distinct (map fst (concat (map f es)))"
    by (rule Cons.IH) (use Cons.prems in auto)
  moreover have "fst ` set (f e) \<inter> fst ` set (concat (map f es)) = {}"
    using here other by blast
  ultimately show ?case using here by simp
qed simp

lemma distinct_for_each_impl: "wfn hash d K n \<Longrightarrow> distinct (map fst (for_each_impl n))"
proof (induction rule: wfn.induct)
  case (wfnI es bm d K)
  have d: "distinct (slots bm)" by (simp add: slots_def)
  have m: "node_map bm es s = Some e" if "(s, e) \<in> set (zip (slots bm) es)" for s e
    using that d wfnI.hyps(1) unfolding node_map_def by (intro map_of_is_SomeI) (simp_all add: length_slots)
  have E: "distinct (map fst (for_each_entry e)) \<and> (\<forall>k\<in>fst ` set (for_each_entry e). slot_at (hash k) d = s)"
    if "(s, e) \<in> set (zip (slots bm) es)" for s e
  proof (cases e)
    case (Leaf k0 v0)
    then show ?thesis using wfnI.hyps(5) [of s k0 v0] m [OF that] by simp
  next
    case (Branch c)
    note c = m [OF that, unfolded Branch]
    have "slot_at (hash k) d = s" if "(k, v) \<in> set (for_each_impl c)" for k v
      using that wfn_subset_find [OF wfnI.hyps(6) [OF c]] for_each_impl_iff [OF wfnI.hyps(6) [OF c]]
      by auto
    then show ?thesis using wfnI.IH [OF c] Branch by auto
  qed
  have "distinct (map fst (concat (map for_each_entry es)))"
    by (rule distinct_concat_slots [OF _ d E]) (use wfnI.hyps(1) in \<open>auto simp: length_slots\<close>)
  then show ?case by simp
qed

end
