(* ===== verification/Persistent_Map_Props.thy ===== *)
theory Persistent_Map_Props
  imports Persistent_Map Map_Interface
begin

text \<open>
  The public operations of the trie against a finite map: the interface of
  \<open>Map_Interface\<close> is discharged for any hash that separates the keys in use; without that
  hypothesis, memory safety still holds but a full hash collision loses the second key.
  The iterator enumerates what \<open>for_each\<close> visits, in the same order.
\<close>

section \<open>The map invariant\<close>

definition pm_inv :: "('k \<Rightarrow> u64) \<Rightarrow> 'k set \<Rightarrow> ('k, 'v) pmap \<Rightarrow> bool" where
  "pm_inv hash U m \<longleftrightarrow> pm_size m = of_nat (length (pm_for_each m)) \<and>
     (case pm_root m of None \<Rightarrow> True | Some n \<Rightarrow> wfn hash 0 U n)"

lemma pm_inv_empty: "pm_inv hash U pm_empty"
  by (simp add: pm_inv_def pm_empty_def pm_for_each_def)

lemma pm_inv_node: "pm_inv hash U m \<Longrightarrow> pm_root m = Some n \<Longrightarrow> wfn hash 0 U n"
  by (simp add: pm_inv_def)

lemma pm_entries_iff:
  "pm_inv hash U m \<Longrightarrow> (k, v) \<in> set (pm_for_each m) \<longleftrightarrow> pm_find hash k m = Some v"
  by (auto simp: pm_inv_def pm_find_def pm_for_each_def for_each_impl_iff split: option.splits)

lemma pm_distinct: "pm_inv hash U m \<Longrightarrow> distinct (map fst (pm_for_each m))"
  by (auto simp: pm_inv_def pm_for_each_def intro: distinct_for_each_impl split: option.splits)

lemma pm_find_map_of: "pm_inv hash U m \<Longrightarrow> pm_find hash k m = map_of (pm_for_each m) k"
  by (metis map_of_eq_Some_iff not_None_eq pm_distinct pm_entries_iff)

lemma pm_find_U: "pm_inv hash U m \<Longrightarrow> pm_find hash k m = Some v \<Longrightarrow> k \<in> U"
  by (auto simp: pm_inv_def pm_find_def intro: wfn_subset_find split: option.splits)

lemma pm_length: "pm_inv hash U m \<Longrightarrow> length (pm_for_each m) = card (dom (\<lambda>k. pm_find hash k m))"
proof -
  assume i: "pm_inv hash U m"
  then have "dom (\<lambda>k. pm_find hash k m) = set (map fst (pm_for_each m))"
    by (force simp: pm_find_map_of dom_map_of_conv_image_fst)
  then show ?thesis using pm_distinct [OF i] by (metis distinct_card length_map)
qed

text \<open>
  A step that keeps the trie well formed, updates its map at one key and adjusts the count
  by the change of the domain keeps the invariant.
\<close>

lemma card_dom_upd_Some: "finite (dom f) \<Longrightarrow> card (dom (f(k \<mapsto> v))) = card (dom f) + (if f k = None then 1 else 0)"
  by (auto simp: domIff insert_absorb)

lemma card_dom_upd_None: "finite (dom f) \<Longrightarrow> card (dom (f(k := None))) = card (dom f) - (if f k = None then 0 else 1)"
  by (auto simp: domIff dom_fun_upd)

lemma wfn_find_ext:
  assumes "wfn hash d K n" and "wfn hash d K n'" and "k \<in> K"
    and "\<forall>k'\<in>K. find_impl n' d (hash k') k' = (if k' = k then v else find_impl n d (hash k') k')"
  shows "find_impl n' d (hash k') k' = (if k' = k then v else find_impl n d (hash k') k')"
  using assms wfn_subset_find [of hash d K n k'] wfn_subset_find [of hash d K n' k']
  by (cases "k' \<in> K"; cases "find_impl n d (hash k') k'"; cases "find_impl n' d (hash k') k'") auto

lemma wfn_card:
  assumes "wfn hash d K n"
  shows "length (for_each_impl n) = card (dom (\<lambda>k. find_impl n d (hash k) k))"
    and "finite (dom (\<lambda>k. find_impl n d (hash k) k))"
proof -
  have d: "dom (\<lambda>k. find_impl n d (hash k) k) = set (map fst (for_each_impl n))"
    using for_each_impl_iff [OF assms] by (force simp: dom_def)
  then show "length (for_each_impl n) = card (dom (\<lambda>k. find_impl n d (hash k) k))"
    using distinct_for_each_impl [OF assms] by (metis distinct_card length_map)
  show "finite (dom (\<lambda>k. find_impl n d (hash k) k))"
    unfolding d by simp
qed

lemma wfn_count:
  assumes "wfn hash d K n" and "wfn hash d K n'"
    and "\<And>k'. find_impl n' d (hash k') k' = (if k' = k then v else find_impl n d (hash k') k')"
  shows "length (for_each_impl n') = card (dom ((\<lambda>k. find_impl n d (hash k) k)(k := v)))"
proof -
  have "(\<lambda>k. find_impl n' d (hash k) k) = (\<lambda>k. find_impl n d (hash k) k)(k := v)"
    using assms(3) by auto
  then show ?thesis using wfn_card(1) [OF assms(2)] by simp
qed

lemma pm_set_root:
  assumes "pm_inv hash U m" and "inj_on hash U" and "k \<in> U"
  obtains n' where "pm_root (pm_set hash k v m) = Some n'" and "wfn hash 0 U n'"
    and "\<And>k'. find_impl n' 0 (hash k') k' = (if k' = k then Some v else pm_find hash k' m)"
    and "pm_size (pm_set hash k v m) = of_nat (length (for_each_impl n'))"
proof (cases "pm_root m")
  case None
  have "wfn hash 0 U (new_leaf 0 (hash k) k v)"
    using assms(3) by (intro wfn_new_leaf) (simp_all add: agree_def)
  then show ?thesis
    using assms(1) None
    by (intro that [of "new_leaf 0 (hash k) k v"])
      (auto simp: pm_set_def pm_find_def pm_inv_def pm_for_each_def, simp add: new_leaf_def)
next
  case (Some n)
  note wf = pm_inv_node [OF assms(1) Some]
  obtain n' ins where s: "set_impl hash (Some n) 0 (hash k) k v = (n', ins)" by (metis surj_pair)
  have c: "upd_spec hash 0 U n k (Some v) n'" "ins \<longleftrightarrow> find_impl n 0 (hash k) k = None"
    using set_impl_correct [OF wf assms(3,2) s] by auto
  have f: "find_impl n' 0 (hash k') k' = (if k' = k then Some v else find_impl n 0 (hash k') k')" for k'
    using c(1) by (intro wfn_find_ext [OF wf _ assms(3)]) (simp_all add: upd_spec_def)
  have "length (for_each_impl n') = length (for_each_impl n) + (if ins then 1 else 0)"
    using wfn_count [OF wf _ f] c(1)
    unfolding card_dom_upd_Some [OF wfn_card(2) [OF wf]] wfn_card(1) [OF wf] c(2)
    by (simp add: upd_spec_def)
  then show ?thesis
    using assms(1) Some s c(1) f
    by (intro that [of n']) (auto simp: pm_set_def pm_find_def pm_inv_def pm_for_each_def upd_spec_def)
qed

lemma pm_set_inv: "pm_inv hash U m \<Longrightarrow> inj_on hash U \<Longrightarrow> k \<in> U \<Longrightarrow> pm_inv hash U (pm_set hash k v m)"
  by (rule pm_set_root [of hash U m k v]) (auto simp: pm_inv_def pm_for_each_def)

lemma pm_find_set:
  "pm_inv hash U m \<Longrightarrow> inj_on hash U \<Longrightarrow> k \<in> U \<Longrightarrow>
   pm_find hash k' (pm_set hash k v m) = (if k' = k then Some v else pm_find hash k' m)"
  by (rule pm_set_root [of hash U m k v]) (auto simp: pm_find_def)

lemma pm_erase_node:
  assumes "pm_inv hash U m" and "k \<in> U" and "pm_root m = Some n"
    and "erase_impl n 0 (hash k) k = (r, erased)"
  shows "(case r of None \<Rightarrow> True | Some n' \<Rightarrow> wfn hash 0 U n')"
    and "(case r of None \<Rightarrow> None | Some n' \<Rightarrow> find_impl n' 0 (hash k') k') =
      (if k' = k then None else find_impl n 0 (hash k') k')"
    and "length (case r of None \<Rightarrow> [] | Some n' \<Rightarrow> for_each_impl n') =
      length (for_each_impl n) - (if erased then 1 else 0)"
    and "erased \<Longrightarrow> length (for_each_impl n) \<noteq> 0"
proof -
  note wf = pm_inv_node [OF assms(1,3)]
  note c = erase_impl_correct [OF wf assms(2,4)]
  let ?f = "\<lambda>k. find_impl n 0 (hash k) k"
  have er: "erased \<longleftrightarrow> ?f k \<noteq> None" using c by simp
  show "erased \<Longrightarrow> length (for_each_impl n) \<noteq> 0"
    using er for_each_impl_iff [OF wf, of k] by fastforce
  have "(case r of None \<Rightarrow> True | Some n' \<Rightarrow> wfn hash 0 U n') \<and>
    (\<forall>k'. (case r of None \<Rightarrow> None | Some n' \<Rightarrow> find_impl n' 0 (hash k') k') = (?f(k := None)) k') \<and>
    length (case r of None \<Rightarrow> [] | Some n' \<Rightarrow> for_each_impl n') = card (dom (?f(k := None)))"
  proof (cases r)
    case None
    then have "?f(k := None) = Map.empty"
      using c wfn_subset_find [OF wf] by (fastforce simp: upd_opt_def)
    then show ?thesis using None by simp
  next
    case (Some n')
    then have u: "upd_spec hash 0 U n k None n'" using c by (simp add: upd_opt_def)
    have f: "find_impl n' 0 (hash k') k' = (if k' = k then None else find_impl n 0 (hash k') k')" for k'
      using u by (intro wfn_find_ext [OF wf _ assms(2)]) (simp_all add: upd_spec_def)
    show ?thesis
      using Some u f wfn_count [OF wf _ f] by (simp add: upd_spec_def)
  qed
  note all = this
  show "(case r of None \<Rightarrow> True | Some n' \<Rightarrow> wfn hash 0 U n')" using all by blast
  show "(case r of None \<Rightarrow> None | Some n' \<Rightarrow> find_impl n' 0 (hash k') k') =
      (if k' = k then None else find_impl n 0 (hash k') k')" using all by simp
  show "length (case r of None \<Rightarrow> [] | Some n' \<Rightarrow> for_each_impl n') =
      length (for_each_impl n) - (if erased then 1 else 0)"
    using all er unfolding card_dom_upd_None [OF wfn_card(2) [OF wf]] wfn_card(1) [OF wf] by simp
qed

lemma pm_erase_facts:
  assumes "pm_inv hash U m" and "k \<in> U"
  shows "pm_inv hash U (pm_erase hash k m)"
    and "pm_find hash k' (pm_erase hash k m) = (if k' = k then None else pm_find hash k' m)"
proof -
  have "pm_inv hash U (pm_erase hash k m) \<and>
    pm_find hash k' (pm_erase hash k m) = (if k' = k then None else pm_find hash k' m)"
  proof (cases "pm_root m")
    case None
    then show ?thesis using assms(1) by (simp add: pm_erase_def pm_find_def)
  next
    case (Some n)
    obtain r erased where e: "erase_impl n 0 (hash k) k = (r, erased)" by (metis surj_pair)
    note f = pm_erase_node [OF assms Some e]
    have sz: "pm_size m = of_nat (length (for_each_impl n))"
      using assms(1) Some by (simp add: pm_inv_def pm_for_each_def)
    have "of_nat (length (for_each_impl n) - (if erased then 1 else 0)) = pm_size m - (if erased then 1 else 0)"
      using f(4) sz by (cases "length (for_each_impl n)") auto
    then show ?thesis
      using Some e f(1,2,3)
      by (auto simp: pm_inv_def pm_erase_def pm_find_def pm_for_each_def split: option.splits)
  qed
  then show "pm_inv hash U (pm_erase hash k m)"
    "pm_find hash k' (pm_erase hash k m) = (if k' = k then None else pm_find hash k' m)" by auto
qed

section \<open>The trie is a key-value store\<close>

lemma pm_find_empty: "pm_find hash k pm_empty = None"
  by (simp add: pm_find_def pm_empty_def)

lemma hamt_kv_store:
  assumes "inj_on hash U"
  shows "kv_store pm_empty (pm_set hash) (pm_erase hash) (pm_find hash) pm_size pm_for_each
    (pm_inv hash U) U"
proof
  fix m :: "('a, 'b) pmap" and k k' v
  assume i: "pm_inv hash U m"
  show "pm_find hash k m = map_of (pm_for_each m) k" using i by (rule pm_find_map_of)
  show "distinct (map fst (pm_for_each m))" using i by (rule pm_distinct)
  show "pm_size m = of_nat (length (pm_for_each m))" using i by (simp add: pm_inv_def)
  show "pm_find hash k m \<noteq> None \<Longrightarrow> k \<in> U" using pm_find_U [OF i] by blast
  assume k: "k \<in> U"
  show "pm_inv hash U (pm_set hash k v m)" using i assms k by (rule pm_set_inv)
  show "pm_inv hash U (pm_erase hash k m)" using i k by (rule pm_erase_facts)
  show "pm_find hash k' (pm_set hash k v m) = (if k' = k then Some v else pm_find hash k' m)"
    using i assms k by (rule pm_find_set)
  show "pm_find hash k' (pm_erase hash k m) = (if k' = k then None else pm_find hash k' m)"
    using i k by (rule pm_erase_facts)
qed (simp_all add: pm_inv_empty pm_find_empty)

text \<open>
  \<open>std::hash\<close> of an unsigned 64-bit integer is the identity in libstdc++ and libc++, the
  libraries of the server's builds. The session map is keyed by it.
\<close>

definition std_hash_u64 :: "u64 \<Rightarrow> u64" where
  "std_hash_u64 k = k"

interpretation session_map: kv_store pm_empty "pm_set std_hash_u64" "pm_erase std_hash_u64"
  "pm_find std_hash_u64" pm_size pm_for_each "pm_inv std_hash_u64 UNIV" UNIV
  by (rule hamt_kv_store) (simp add: std_hash_u64_def inj_on_def)

section \<open>Memory safety, for every hash function\<close>

text \<open>
  \<open>bnd d n\<close>: at \<open>n\<close> (of depth \<open>d\<close>) and below, a vector has at least one entry per bit and
  the depth stays below \<open>MAX_DEPTH\<close>. This much survives a full hash collision, and it is what
  keeps every index in range and every shift below the width of the hash.
\<close>

inductive bnd :: "nat \<Rightarrow> ('k, 'v) node \<Rightarrow> bool" where
  bndI: "d < MAX_DEPTH \<Longrightarrow> popcount bm \<le> length es \<Longrightarrow> (\<And>c. Branch c \<in> set es \<Longrightarrow> bnd (Suc d) c) \<Longrightarrow>
    bnd d (Node bm es)"

inductive_cases bndE: "bnd d (Node bm es)"

text \<open>\<open>subnode e m d n\<close>: the node \<open>m\<close> at depth \<open>e\<close> is reached from \<open>n\<close> at depth \<open>d\<close>.\<close>

inductive subnode :: "nat \<Rightarrow> ('k, 'v) node \<Rightarrow> nat \<Rightarrow> ('k, 'v) node \<Rightarrow> bool" where
  sub_refl: "subnode d n d n"
| sub_step: "Branch c \<in> set es \<Longrightarrow> subnode e m (Suc d) c \<Longrightarrow> subnode e m d (Node bm es)"

inductive pm_reachable :: "('k \<Rightarrow> u64) \<Rightarrow> ('k, 'v) pmap \<Rightarrow> bool" for hash where
  reach_empty: "pm_reachable hash pm_empty"
| reach_set: "pm_reachable hash m \<Longrightarrow> pm_reachable hash (pm_set hash k v m)"
| reach_erase: "pm_reachable hash m \<Longrightarrow> pm_reachable hash (pm_erase hash k m)"

lemma bnd_subnode: "subnode e m d n \<Longrightarrow> bnd d n \<Longrightarrow> bnd e m"
  by (induction rule: subnode.induct) (auto elim: bndE)

lemma node_index_bounds:
  assumes "s < 32"
  shows "node_index bm s + (if bit bm s then 1 else 0) \<le> popcount bm"
    and "popcount (set_slot bm s) \<le> Suc (popcount bm)"
    and "node_index (set_slot bm s) s = node_index bm s"
    and "popcount (clear_slot bm s) = popcount bm - (if bit bm s then 1 else 0)"
proof -
  obtain as bs where sp: "slots bm = as @ (if bit bm s then [s] else []) @ bs"
    "length as = node_index bm s" "slots (set_slot bm s) = as @ s # bs" "slots (clear_slot bm s) = as @ bs"
    by (rule slots_split [OF assms])
  show "node_index bm s + (if bit bm s then 1 else 0) \<le> popcount bm"
    "popcount (set_slot bm s) \<le> Suc (popcount bm)"
    "popcount (clear_slot bm s) = popcount bm - (if bit bm s then 1 else 0)"
    using sp by (auto simp flip: length_slots)
  have "filter (bit (set_slot bm s)) [0..<s] = filter (bit bm) [0..<s]"
    by (rule filter_cong) (auto simp: bit_set_slot)
  then show "node_index (set_slot bm s) s = node_index bm s"
    using assms by (simp add: node_index_eq)
qed

lemma bnd_new_leaf: "d < MAX_DEPTH \<Longrightarrow> bnd d (new_leaf d h k v)"
proof -
  assume d: "d < MAX_DEPTH"
  have "popcount (push_bit (slot_at h d) 1) = length [Leaf k v]"
    using new_leaf_facts(1) [of k v h d] by simp
  then show ?thesis using d unfolding new_leaf_def by (intro bndI) auto
qed

lemma bnd_depth: "bnd d n \<Longrightarrow> d < MAX_DEPTH"
  by (cases n) (auto elim: bndE)

lemma bnd_insert_leaf:
  "bnd d (Node bm es) \<Longrightarrow> s < 32 \<Longrightarrow> bnd d (Node (set_slot bm s) (insert_at i (Leaf k v) es))"
  using node_index_bounds(2) [of s bm] by (auto elim!: bndE intro!: bndI)

lemma bnd_replace:
  "bnd d (Node bm es) \<Longrightarrow> (\<And>c. e = Branch c \<Longrightarrow> bnd (Suc d) c) \<Longrightarrow> bnd d (Node bm (es[i := e]))"
  by (auto elim!: bndE intro!: bndI dest!: set_update_subset_insert [THEN subsetD])

lemma bnd_remove:
  "bnd d (Node bm es) \<Longrightarrow> s < 32 \<Longrightarrow> bit bm s \<Longrightarrow> i < length es \<Longrightarrow>
    bnd d (Node (clear_slot bm s) (erase_at i es))"
  using node_index_bounds(4) [of s bm] set_erase_at [of i es]
  by (auto elim!: bndE intro!: bndI simp: length_erase_at)

lemma bnd_nth: "bnd d (Node bm es) \<Longrightarrow> i < length es \<Longrightarrow> es ! i = Branch c \<Longrightarrow> bnd (Suc d) c"
  by (metis bndE nth_mem)

lemma set_impl_bounded:
  "d < MAX_DEPTH \<Longrightarrow> (case n of None \<Rightarrow> True | Some n0 \<Rightarrow> bnd d n0) \<Longrightarrow> bnd d (fst (set_impl hash n d h k v))"
proof (induction hash n d h k v rule: set_impl.induct)
  case (2 hash bm es d h k v)
  then have b: "bnd d (Node bm es)" by simp
  let ?s = "slot_at h d"
  let ?i = "node_index bm ?s"
  show ?case
  proof (cases "bit bm ?s \<and> ?i < length es")
    case False
    then show ?thesis using b by (auto simp: Let_def slot_at_less intro: bnd_insert_leaf)
  next
    case True
    show ?thesis
    proof (cases "es ! ?i")
      case (Branch c)
      then have "bnd (Suc d) (fst (set_impl hash (Some c) (Suc d) h k v))"
        using "2.IH"(2) [OF refl refl _ _ Branch] True bnd_nth [OF b _ Branch] bnd_depth by fastforce
      then show ?thesis
        using True Branch by (auto simp: Let_def split_beta not_le intro: bnd_replace [OF b])
    next
      case (Leaf k0 v0)
      have "bnd (Suc d) (fst (set_impl hash (Some (new_leaf (Suc d) (hash k0) k0 v0)) (Suc d) h k v))"
        if "k0 \<noteq> k" "d < 12"
        using "2.IH"(1) [OF refl refl _ _ Leaf that(1) _ refl] that True
        by (simp add: bnd_new_leaf not_le)
      then show ?thesis
        using True Leaf b
        by (auto simp: Let_def split_beta not_le intro!: bnd_insert_leaf bnd_replace [OF b])
    qed
  qed
qed (simp add: bnd_new_leaf)

lemma erase_impl_bounded:
  "bnd d n \<Longrightarrow> (case fst (erase_impl n d h k) of None \<Rightarrow> True | Some n' \<Rightarrow> bnd d n')"
proof (induction n d h k rule: erase_impl.induct)
  case (1 bm es d h k)
  note b = "1.prems" and ih = "1.IH" [OF refl refl]
  show ?case
    using b ih bnd_nth [OF b]
    by (auto simp: Let_def slot_at_less not_le split: node_entry.split prod.split option.split bool.split
        intro!: bnd_remove bnd_replace)
qed

lemma pm_reachable_bounded:
  "pm_reachable hash m \<Longrightarrow> pm_root m = Some n \<Longrightarrow> bnd 0 n"
proof (induction arbitrary: n rule: pm_reachable.induct)
  case (reach_set m k v)
  then show ?case
    using set_impl_bounded [of 0 "pm_root m" hash "hash k" k v]
    by (auto simp: pm_set_def split: prod.splits option.splits)
next
  case (reach_erase m k)
  show ?case
  proof (cases "pm_root m")
    case (Some n0)
    then show ?thesis
      using reach_erase erase_impl_bounded [of 0 n0 "hash k" k]
      by (auto simp: pm_erase_def split: prod.splits option.splits)
  qed (use reach_erase in \<open>simp add: pm_erase_def\<close>)
qed (simp add: pm_empty_def)


lemma subnode_safe:
  assumes "pm_reachable hash m" and "pm_root m = Some n" and "subnode d (Node bm es) 0 n" and "s < 32"
  shows "d * BITS < 64" and "node_has bm s \<Longrightarrow> node_index bm s < length es"
    and "node_index bm s \<le> length es"
proof -
  have "bnd d (Node bm es)"
    using assms(3) pm_reachable_bounded [OF assms(1,2)] by (rule bnd_subnode)
  then have b: "d < 13" "popcount bm \<le> length es" by (auto elim: bndE)
  then show "d * BITS < 64" by (simp add: BITS_def)
  show "node_has bm s \<Longrightarrow> node_index bm s < length es" "node_index bm s \<le> length es"
    using b(2) node_index_bounds(1) [OF assms(4), of bm] by (auto split: if_splits)
qed

section \<open>A full hash collision\<close>

lemma slot_at_last: "slot_at h 12 < 16"
proof -
  have "slot_at h 12 \<le> unat (drop_bit 60 h)"
    by (simp add: slot_at_def BITS_def MASK_def word_and_le2 flip: word_le_nat_alt)
  also have "\<dots> < 16"
    using unsigned_less [of h, where 'a = nat]
    by (simp add: unat_drop_bit_eq) (simp add: drop_bit_eq_div less_mult_imp_div_less)
  finally show ?thesis .
qed

lemma new_leaf_index:
  assumes "s < 32"
  shows "node_index (push_bit s 1) s = 0"
    and "s < 31 \<Longrightarrow> node_index (set_slot (push_bit s 1) (Suc s)) (Suc s) = 1"
    and "s < 31 \<Longrightarrow> node_index (set_slot (push_bit s 1) (Suc s)) s = 0"
  using assms by (auto simp: node_index_eq bit_set_slot filter_empty_conv length_filter_conv_card)

lemma set_impl_collide:
  assumes "hash k1 = h" and "hash k2 = h" and "k1 \<noteq> k2" and "d \<le> 12"
    and "set_impl hash (Some (new_leaf d h k1 v1)) d h k2 v2 = (n', ins)"
  shows "ins \<and> find_impl n' d h k2 = None \<and> find_impl n' d h k1 = Some v1"
  using assms(4,5)
proof (induction "12 - d" arbitrary: d n' ins)
  case 0
  then have d: "d = 12" by simp
  let ?s = "slot_at h 12"
  have s: "?s < 31" using slot_at_last [of h] by simp
  have "bit (set_slot (push_bit ?s 1) (Suc ?s)) ?s"
    using s by (simp add: bit_set_slot)
  then show ?case
    using 0 d s assms(3) new_leaf_index [of ?s]
    by (auto simp: new_leaf_def Let_def insert_at_def find_impl.simps)
next
  case (Suc x)
  then have d: "d < 12" by simp
  obtain c i where rec: "set_impl hash (Some (new_leaf (Suc d) h k1 v1)) (Suc d) h k2 v2 = (c, i)"
    by (metis surj_pair)
  have IH: "i \<and> find_impl c (Suc d) h k2 = None \<and> find_impl c (Suc d) h k1 = Some v1"
    using Suc.hyps(1) [OF _ _ rec] Suc.hyps(2) d by simp
  show ?case
    using Suc.prems(2) d assms(1,3) IH rec new_leaf_index(1) [OF slot_at_less, of h d]
    by (auto simp: new_leaf_def [of d] Let_def slot_at_less find_impl.simps)
qed

lemma pm_collide:
  assumes "hash k1 = hash k2" and "k1 \<noteq> k2"
  shows "pm_find hash k2 (pm_set hash k2 v2 (pm_set hash k1 v1 pm_empty)) = None"
    and "pm_find hash k1 (pm_set hash k2 v2 (pm_set hash k1 v1 pm_empty)) = Some v1"
    and "pm_size (pm_set hash k2 v2 (pm_set hash k1 v1 pm_empty)) = 2"
proof -
  obtain n' ins where s: "set_impl hash (Some (new_leaf 0 (hash k1) k1 v1)) 0 (hash k2) k2 v2 = (n', ins)"
    by (metis surj_pair)
  have m: "pm_set hash k2 v2 (pm_set hash k1 v1 pm_empty) =
      \<lparr>pm_root = Some n', pm_size = 1 + (if ins then 1 else 0)\<rparr>"
    using s by (simp add: pm_set_def pm_empty_def)
  have "ins \<and> find_impl n' 0 (hash k2) k2 = None \<and> find_impl n' 0 (hash k1) k1 = Some v1"
    using set_impl_collide [OF refl assms(1)[symmetric] assms(2), of 0 v1 v2 n' ins] s assms(1) by simp
  then show "pm_find hash k2 (pm_set hash k2 v2 (pm_set hash k1 v1 pm_empty)) = None"
    "pm_find hash k1 (pm_set hash k2 v2 (pm_set hash k1 v1 pm_empty)) = Some v1"
    "pm_size (pm_set hash k2 v2 (pm_set hash k1 v1 pm_empty)) = 2"
    unfolding m by (auto simp: pm_find_def)
qed

section \<open>The iterator visits what for_each visits\<close>

fun frame_rest :: "('k, 'v) frame \<Rightarrow> ('k \<times> 'v) list" where
  "frame_rest (Node bm es, i) = concat (map for_each_entry (drop i es))"

definition it_rest :: "('k, 'v) frame list \<Rightarrow> ('k \<times> 'v) list" where
  "it_rest st = concat (map frame_rest st)"

lemma it_rest_descend: "it_rest (descend_to_leaf st) = it_rest st"
proof (induction st rule: descend_to_leaf.induct)
  case (2 bm es i st)
  show ?case
  proof (cases "i < length es")
    case True
    show ?thesis
    proof (cases "es ! i")
      case (Branch child)
      obtain b ch where "child = Node b ch" by (cases child)
      then show ?thesis
        using 2(1) [OF True Branch] True Branch by (simp add: it_rest_def drop_nth_Cons)
    qed (simp add: True)
  qed (use 2 in \<open>simp add: it_rest_def\<close>)
qed simp

lemma descend_leaf:
  "descend_to_leaf st = [] \<or>
    (\<exists>bm es i rest k v. descend_to_leaf st = (Node bm es, i) # rest \<and> i < length es \<and> es ! i = Leaf k v)"
  by (induction st rule: descend_to_leaf.induct) (auto split: node_entry.split)

lemma it_collect_descend:
  "it_collect (length (it_rest (descend_to_leaf st))) (descend_to_leaf st) = Some (it_rest (descend_to_leaf st))"
proof (induction "length (it_rest (descend_to_leaf st))" arbitrary: st)
  case 0
  then show ?case
    using descend_leaf [of st] by (auto simp: it_rest_def drop_nth_Cons it_end_def)
next
  case (Suc n)
  obtain bm es i rest k v where t: "descend_to_leaf st = (Node bm es, i) # rest" "i < length es" "es ! i = Leaf k v"
    using descend_leaf [of st] Suc.hyps(2) by (auto simp: it_rest_def)
  have r: "it_rest (descend_to_leaf st) = (k, v) # it_rest (descend_to_leaf ((Node bm es, Suc i) # rest))"
    using t by (simp only: it_rest_descend) (simp add: it_rest_def drop_nth_Cons)
  have n: "n = length (it_rest (descend_to_leaf ((Node bm es, Suc i) # rest)))"
    using Suc.hyps(2) r by simp
  show ?case
    unfolding r using Suc.hyps(1) [OF n] t by (simp add: it_end_def)
qed

lemma it_rest_begin: "it_rest (it_begin m) = pm_for_each m"
proof -
  have "frame_rest (n, 0) = for_each_impl n" for n :: "('a, 'b) node" by (cases n) simp
  then show ?thesis
    by (simp add: it_begin_def pm_for_each_def it_rest_descend split: option.split)
      (simp add: it_rest_def)
qed

lemma it_collect_begin: "it_collect (length (pm_for_each m)) (it_begin m) = Some (pm_for_each m)"
proof (cases "pm_root m")
  case None
  then show ?thesis by (simp add: pm_for_each_def it_begin_def it_end_def)
next
  case (Some n)
  then show ?thesis
    using it_collect_descend [of "[(n, 0)]"] it_rest_begin [of m] by (simp add: it_begin_def)
qed


section \<open>Properties\<close>

text \<open>A sequence of updates, on the trie and on a finite map.\<close>

datatype ('k, 'v) pm_op = PSet 'k 'v | PErase 'k

fun op_key :: "('k, 'v) pm_op \<Rightarrow> 'k" where
  "op_key (PSet k v) = k"
| "op_key (PErase k) = k"

fun pm_apply :: "('k \<Rightarrow> u64) \<Rightarrow> ('k, 'v) pm_op \<Rightarrow> ('k, 'v) pmap \<Rightarrow> ('k, 'v) pmap" where
  "pm_apply hash (PSet k v) m = pm_set hash k v m"
| "pm_apply hash (PErase k) m = pm_erase hash k m"

fun map_apply :: "('k, 'v) pm_op \<Rightarrow> ('k \<rightharpoonup> 'v) \<Rightarrow> ('k \<rightharpoonup> 'v)" where
  "map_apply (PSet k v) f = f(k \<mapsto> v)"
| "map_apply (PErase k) f = f(k := None)"

lemma pm_fold_map:
  assumes "pm_inv hash U m" and "inj_on hash U" and "op_key ` set ops \<subseteq> U"
  shows "pm_inv hash U (fold (pm_apply hash) ops m) \<and>
    (\<lambda>k. pm_find hash k (fold (pm_apply hash) ops m)) = fold map_apply ops (\<lambda>k. pm_find hash k m)"
  using assms
proof (induction ops arbitrary: m)
  case (Cons a ops)
  have step: "pm_inv hash U (pm_apply hash a m) \<and>
      (\<lambda>k. pm_find hash k (pm_apply hash a m)) = map_apply a (\<lambda>k. pm_find hash k m)"
    using Cons.prems by (cases a) (auto simp: pm_set_inv pm_find_set pm_erase_facts)
  then show ?case using Cons.IH [of "pm_apply hash a m"] Cons.prems by simp
qed simp

text \<open>
  C1: After any sequence of insertions and erasures whose keys have different hashes, the trie
  is the finite map that the same sequence builds: every lookup agrees, the iteration lists
  each binding once, and the stored size is the number of bindings.
\<close>

theorem hamt_refines_map:
  assumes "inj_on hash (op_key ` set ops)"
  shows "(let m = fold (pm_apply hash) ops pm_empty; f = fold map_apply ops Map.empty in
     (\<forall>k. pm_find hash k m = f k) \<and> map_of (pm_for_each m) = f \<and>
     distinct (map fst (pm_for_each m)) \<and> pm_size m = of_nat (card (dom f)))"
proof -
  let ?U = "op_key ` set ops" and ?m = "fold (pm_apply hash) ops pm_empty"
  have i: "pm_inv hash ?U ?m"
    and f: "(\<lambda>k. pm_find hash k ?m) = fold map_apply ops Map.empty"
    using pm_fold_map [OF pm_inv_empty assms order_refl] by (simp_all add: pm_find_empty)
  have "map_of (pm_for_each ?m) = fold map_apply ops Map.empty"
    using pm_find_map_of [OF i] f by auto
  then show ?thesis
    using fun_cong [OF f] pm_distinct [OF i] pm_length [OF i] f i by (simp add: Let_def pm_inv_def)
qed

theorem hamt_refines_map_witness:
  "pm_find id (7 :: u64) (fold (pm_apply id) [PSet 7 True, PSet 39 False, PErase 39] pm_empty) = Some True"
  using hamt_refines_map [of id "[PSet (7 :: u64) True, PSet 39 False, PErase 39]"]
  by (simp add: Let_def)

text \<open>
  Whatever the hash function, every node of every reachable trie has at least as many
  entries as bits set, so the index of an occupied slot is inside the vector, an insertion
  index is at most its length, and the shift by depth times five stays below 64.
\<close>

theorem hamt_accesses_in_range:
  assumes "pm_reachable hash m" and "pm_root m = Some n" and "subnode d (Node bm es) 0 n"
  shows "d * BITS < 64 \<and> (\<forall>s<32. node_index bm s \<le> length es \<and> (node_has bm s \<longrightarrow> node_index bm s < length es))"
  using subnode_safe [OF assms] subnode_safe(1) [OF assms, of 0] by (simp del: node_has_bit)

theorem hamt_accesses_in_range_witness:
  "\<exists>es. pm_root (pm_set id (7 :: u64) True pm_empty) = Some (Node 128 es) \<and> node_index 128 7 < length es"
proof -
  have r: "pm_root (pm_set id (7 :: u64) True pm_empty) = Some (Node 128 [Leaf 7 True])"
    by (simp add: pm_set_def pm_empty_def new_leaf_def slot_at_def BITS_def MASK_def)
  have "node_has 128 7" by (simp add: node_has_def)
  then show ?thesis
    using hamt_accesses_in_range [OF reach_set [OF reach_empty] r sub_refl] r by (simp del: node_has_bit)
qed

text \<open>
  When two different keys have the same 64-bit hash, inserting both leaves the second
  one unreachable although the size counts it: the collision entry of the deepest level is
  stored in a slot that no lookup inspects.
\<close>

theorem hamt_full_collision_loses_key:
  assumes "hash k1 = hash k2" and "k1 \<noteq> k2"
  shows "pm_find hash k2 (pm_set hash k2 v2 (pm_set hash k1 v1 pm_empty)) = None \<and>
    pm_find hash k1 (pm_set hash k2 v2 (pm_set hash k1 v1 pm_empty)) = Some v1 \<and>
    pm_size (pm_set hash k2 v2 (pm_set hash k1 v1 pm_empty)) = 2"
  by (intro conjI pm_collide assms)

theorem hamt_full_collision_loses_key_witness:
  "pm_find (\<lambda>_ :: bool. 5) True (pm_set (\<lambda>_. 5) True ''b'' (pm_set (\<lambda>_. 5) False ''a'' pm_empty)) = None"
  using hamt_full_collision_loses_key [of "\<lambda>_ :: bool. 5" False True "''b''" "''a''"] by simp

text \<open>
  The range-based for loop over the map (begin, advance, dereference until end)
  terminates after as many steps as there are entries, never dereferences outside a vector,
  and yields exactly what \<open>for_each\<close> visits, in the same order.
\<close>

theorem hamt_iterator_is_for_each:
  "it_collect (length (pm_for_each m)) (it_begin m) = Some (pm_for_each m)"
  by (rule it_collect_begin)

end
