(* ===== verification/FW_Helper.thy ===== *)
theory FW_Helper
  imports Prelude
begin

text \<open>
  The privileged firewall helper, tools/kagami-fw-helper.c: the address checks, the nft
  commands it starts, and \<open>main\<close>. The operating system is the record \<open>host\<close> (whether fork
  and pipe succeed, how a child ends, how much a write takes); what the helper does to it is
  the list of effects. \<open>sscanf\<close> is modelled for the conversions in use: \<open>%d\<close>, \<open>%c\<close> and
  literal characters; what \<open>%d\<close> stores when the number does not fit an int is undefined in C
  and is the parameter \<open>ovf\<close>. Strings are C strings without their terminating NUL.
\<close>

section \<open>The C library's sscanf\<close>

datatype conv = CInt | CChr | CLit char

definition dec_val :: "string \<Rightarrow> int" where
  "dec_val ds = foldl (\<lambda>n c. n * 10 + (int (char_code c) - 48)) 0 ds"

fun scan_sign :: "string \<Rightarrow> int \<times> string" where
  "scan_sign (c # s) = (if c = CHR ''-'' then (- 1, s) else if c = CHR ''+'' then (1, s) else (1, c # s))"
| "scan_sign [] = (1, [])"

definition scan_int :: "string \<Rightarrow> (int \<times> string) option" where
  "scan_int s =
    (let (sg, r) = scan_sign (dropWhile c_isspace s); ds = takeWhile c_isdigit r
     in if ds = [] then None else Some (sg * dec_val ds, dropWhile c_isdigit r))"

definition store_int :: "(int \<Rightarrow> int) \<Rightarrow> int \<Rightarrow> int" where
  "store_int ovf v = (if - (2 ^ 31) \<le> v \<and> v < 2 ^ 31 then v else ovf v)"

text \<open>The integers stored and the number of conversions done (0 also for EOF).\<close>

fun sscanf :: "(int \<Rightarrow> int) \<Rightarrow> conv list \<Rightarrow> string \<Rightarrow> int list \<times> nat" where
  "sscanf ovf [] s = ([], 0)"
| "sscanf ovf (CInt # fs) s =
    (case scan_int s of
       None \<Rightarrow> ([], 0)
     | Some (v, r) \<Rightarrow> (let (vs, n) = sscanf ovf fs r in (store_int ovf v # vs, Suc n)))"
| "sscanf ovf (CLit c # fs) s =
    (case s of [] \<Rightarrow> ([], 0) | c' # r \<Rightarrow> if c' = c then sscanf ovf fs r else ([], 0))"
| "sscanf ovf (CChr # fs) s =
    (case s of [] \<Rightarrow> ([], 0) | _ # r \<Rightarrow> (let (vs, n) = sscanf ovf fs r in (vs, Suc n)))"

section \<open>Validation\<close>

definition ipv4_format :: "conv list" where
  "ipv4_format = [CInt, CLit CHR ''.'', CInt, CLit CHR ''.'', CInt, CLit CHR ''.'', CInt, CChr]"

definition is_valid_ipv4 :: "(int \<Rightarrow> int) \<Rightarrow> string \<Rightarrow> bool" where
  "is_valid_ipv4 ovf s =
    (let (parts, n) = sscanf ovf ipv4_format s
     in n = 4 \<and> list_all (\<lambda>p. \<not> (p < 0 \<or> 255 < p)) parts)"

record v6_state =
  has_colon :: bool
  consecutive_colons :: nat
  double_colon_count :: nat
  groups :: nat

definition v6_init :: v6_state where
  "v6_init = \<lparr>has_colon = False, consecutive_colons = 0, double_colon_count = 0, groups = 0\<rparr>"

definition v6_char :: "char \<Rightarrow> v6_state \<Rightarrow> v6_state option" where
  "v6_char c st =
    (if c = CHR '':'' then
       (let st1 = st\<lparr>has_colon := True, consecutive_colons := Suc (consecutive_colons st)\<rparr>
        in if consecutive_colons st1 = 2 then
             (let st2 = st1\<lparr>double_colon_count := Suc (double_colon_count st1)\<rparr>
              in if 1 < double_colon_count st2 then None else Some st2)
           else if 2 < consecutive_colons st1 then None
           else Some st1)
     else if c_isxdigit c then
       Some (st\<lparr>groups := groups st + (if 0 < consecutive_colons st then 1 else 0), consecutive_colons := 0\<rparr>)
     else None)"

fun v6_loop :: "string \<Rightarrow> v6_state \<Rightarrow> v6_state option" where
  "v6_loop [] st = Some st"
| "v6_loop (c # s) st = (case v6_char c st of None \<Rightarrow> None | Some st' \<Rightarrow> v6_loop s st')"

definition is_valid_ipv6 :: "string \<Rightarrow> bool" where
  "is_valid_ipv6 s =
    (if length s < 2 \<or> 39 < length s then False
     else case v6_loop s v6_init of
       None \<Rightarrow> False
     | Some st \<Rightarrow>
         if \<not> has_colon st then False
         else
           (let n = groups st + (if last s \<noteq> CHR '':'' then 1 else 0)
            in if double_colon_count st = 0 \<and> n \<noteq> 8 then False
               else if 8 < n then False
               else True))"

definition is_valid_ip :: "(int \<Rightarrow> int) \<Rightarrow> string \<Rightarrow> bool" where
  "is_valid_ip ovf s = (is_valid_ipv4 ovf s \<or> is_valid_ipv6 s)"

definition is_ipv6 :: "string \<Rightarrow> bool" where
  "is_ipv6 s = (CHR '':'' \<in> set s)"

definition is_valid_cidr :: "(int \<Rightarrow> int) \<Rightarrow> string \<Rightarrow> bool" where
  "is_valid_cidr ovf s =
    (let ip = takeWhile (\<lambda>c. c \<noteq> CHR ''/'') s in
     case dropWhile (\<lambda>c. c \<noteq> CHR ''/'') s of
       [] \<Rightarrow> False
     | slash # rest \<Rightarrow>
         if ip = [] \<or> rest = [] then False
         else if 64 \<le> length ip then False
         else if \<not> is_valid_ip ovf ip then False
         else
           (case sscanf ovf [CInt, CChr] rest of
              ([prefix], n) \<Rightarrow>
                if n \<noteq> 1 then False
                else \<not> (prefix < 0 \<or> (if CHR '':'' \<in> set ip then 128 else 32) < prefix)
            | _ \<Rightarrow> False))"

section \<open>Command execution\<close>

record host =
  fork_ok :: bool
  pipe_ok :: bool
  exit_status :: "string list \<Rightarrow> int option"
  pipe_write :: "string \<Rightarrow> int"
  uid :: nat
  euid :: nat
  dockerenv :: bool

datatype fw_effect = Stderr string | Exec "string list" | Exec_Stdin "string list" string

definition nl :: string where "nl = [CHR 0x0A]"

definition prefix_msg :: string where "prefix_msg = ''kagami-fw-helper: ''"

definition run_cmd :: "host \<Rightarrow> string list \<Rightarrow> fw_effect list \<times> int" where
  "run_cmd h argv =
    (if \<not> fork_ok h then ([Stderr ''fork''], - 1)
     else ([Exec argv], case exit_status h argv of Some c \<Rightarrow> c | None \<Rightarrow> - 1))"

definition run_nft_stdin :: "host \<Rightarrow> string \<Rightarrow> fw_effect list \<times> int" where
  "run_nft_stdin h script =
    (let cmd = [''nft'', ''-f'', ''-''] in
     if \<not> pipe_ok h then ([Stderr ''pipe''], - 1)
     else if \<not> fork_ok h then ([Stderr ''fork''], - 1)
     else (Exec_Stdin cmd (take (nat (pipe_write h script)) script) #
             (if pipe_write h script < 0 \<or> pipe_write h script \<noteq> int (length script)
              then [Stderr (prefix_msg @ ''warning: partial write to nft stdin'' @ nl)] else []),
           case exit_status h cmd of Some c \<Rightarrow> c | None \<Rightarrow> - 1))"

section \<open>nftables operations\<close>

definition NFT_TABLE :: string where "NFT_TABLE = ''kagami''"
definition NFT_SET_V4 :: string where "NFT_SET_V4 = ''blocked4''"
definition NFT_SET_V6 :: string where "NFT_SET_V6 = ''blocked6''"
definition NFT_CHAIN :: string where "NFT_CHAIN = ''input''"

definition snprintf :: "nat \<Rightarrow> string \<Rightarrow> string" where
  "snprintf n s = take (n - 1) s"

definition init_script :: string where
  "init_script = snprintf 2048
    (''add table inet '' @ NFT_TABLE @ nl @
     ''add set inet '' @ NFT_TABLE @ '' '' @ NFT_SET_V4 @ '' { type ipv4_addr; flags interval; }'' @ nl @
     ''add set inet '' @ NFT_TABLE @ '' '' @ NFT_SET_V6 @ '' { type ipv6_addr; flags interval; }'' @ nl @
     ''add chain inet '' @ NFT_TABLE @ '' '' @ NFT_CHAIN @
       '' { type filter hook input priority 0; policy accept; }'' @ nl @
     ''add rule inet '' @ NFT_TABLE @ '' '' @ NFT_CHAIN @ '' ip saddr @'' @ NFT_SET_V4 @ '' drop'' @ nl @
     ''add rule inet '' @ NFT_TABLE @ '' '' @ NFT_CHAIN @ '' ip6 saddr @'' @ NFT_SET_V6 @ '' drop'' @ nl)"

text \<open>\<open>show_int\<close> is what \<open>%d\<close> prints in the error message.\<close>

definition nft_init :: "host \<Rightarrow> fw_effect list \<times> int" where
  "nft_init h =
    (let (es, rc) = run_nft_stdin h init_script in
     (Stderr (prefix_msg @ ''initializing nftables table '' @ [CHR 0x27] @ NFT_TABLE @ [CHR 0x27] @ nl) # es @
        (if rc \<noteq> 0 then [Stderr (prefix_msg @ ''init failed (exit '' @ show_int rc @ '')'' @ nl)] else []),
      rc))"

definition elem_of :: "string \<Rightarrow> string" where
  "elem_of addr = snprintf 80 (''{ '' @ addr @ '' }'')"

definition set_of :: "string \<Rightarrow> string" where
  "set_of addr = (if is_ipv6 addr then NFT_SET_V6 else NFT_SET_V4)"

definition nft_add :: "host \<Rightarrow> string \<Rightarrow> fw_effect list \<times> int" where
  "nft_add h addr =
    (let (es, rc) = run_cmd h [''nft'', ''add'', ''element'', ''inet'', NFT_TABLE, set_of addr, elem_of addr]
     in (Stderr (prefix_msg @ ''add '' @ addr @ '' to '' @ set_of addr @ nl) # es, rc))"

definition nft_remove :: "host \<Rightarrow> string \<Rightarrow> fw_effect list \<times> int" where
  "nft_remove h addr =
    (let (es, rc) = run_cmd h [''nft'', ''delete'', ''element'', ''inet'', NFT_TABLE, set_of addr, elem_of addr]
     in (Stderr (prefix_msg @ ''remove '' @ addr @ '' from '' @ set_of addr @ nl) # es, rc))"

definition nft_list :: "host \<Rightarrow> fw_effect list \<times> int" where
  "nft_list h =
    (let (es4, rc4) = run_cmd h [''nft'', ''list'', ''set'', ''inet'', NFT_TABLE, NFT_SET_V4];
         (es6, rc6) = run_cmd h [''nft'', ''list'', ''set'', ''inet'', NFT_TABLE, NFT_SET_V6]
     in (es4 @ es6, rc6))"

definition nft_flush :: "host \<Rightarrow> fw_effect list \<times> int" where
  "nft_flush h =
    (let (es, rc) = run_cmd h [''nft'', ''delete'', ''table'', ''inet'', NFT_TABLE]
     in (Stderr (prefix_msg @ ''flushing all rules'' @ nl) # es, rc))"

section \<open>main\<close>

definition fw_usage :: string where
  "fw_usage =
    ''Usage: kagami-fw-helper <action> [target]'' @ nl @
    ''Actions:'' @ nl @
    ''  init              Create nftables table/sets/chain (call once)'' @ nl @
    ''  add <ip>          Add IP to block set'' @ nl @
    ''  remove <ip>       Remove IP from block set'' @ nl @
    ''  add-range <cidr>  Add CIDR range to block set'' @ nl @
    ''  remove-range <cidr> Remove CIDR range from block set'' @ nl @
    ''  list              List blocked addresses'' @ nl @
    ''  flush             Remove all blocks'' @ nl"

text \<open>\<open>argv\<close> with the program's name first; \<open>access\<close> on \<open>/.dockerenv\<close> is \<open>dockerenv\<close>.\<close>

definition fw_main :: "host \<Rightarrow> (int \<Rightarrow> int) \<Rightarrow> string list \<Rightarrow> fw_effect list \<times> int" where
  "fw_main h ovf argv =
    (if length argv < 2 then ([Stderr fw_usage], 1)
     else if uid h = 0 \<and> euid h = 0 \<and> \<not> dockerenv h then
       ([Stderr (prefix_msg @ ''refusing to run as root; use setcap instead'' @ nl)], 1)
     else
       (let action = argv ! 1 in
        if action = ''init'' then nft_init h
        else if action = ''list'' then nft_list h
        else if action = ''flush'' then nft_flush h
        else if length argv < 3 then
          ([Stderr (prefix_msg @ action @ '' requires a target argument'' @ nl)], 1)
        else
          (let target = argv ! 2 in
           if action = ''add'' then
             (if \<not> is_valid_ip ovf target then ([Stderr (prefix_msg @ ''invalid IP: '' @ target @ nl)], 1)
              else nft_add h target)
           else if action = ''remove'' then
             (if \<not> is_valid_ip ovf target then ([Stderr (prefix_msg @ ''invalid IP: '' @ target @ nl)], 1)
              else nft_remove h target)
           else if action = ''add-range'' then
             (if \<not> is_valid_cidr ovf target then ([Stderr (prefix_msg @ ''invalid CIDR: '' @ target @ nl)], 1)
              else nft_add h target)
           else if action = ''remove-range'' then
             (if \<not> is_valid_cidr ovf target then ([Stderr (prefix_msg @ ''invalid CIDR: '' @ target @ nl)], 1)
              else nft_remove h target)
           else ([Stderr (prefix_msg @ ''unknown action: '' @ action @ nl), Stderr fw_usage], 1))))"


section \<open>What the checks accept\<close>

definition target_char :: "char \<Rightarrow> bool" where
  "target_char c = (c_isxdigit c \<or> c_isspace c \<or> c \<in> {CHR ''+'', CHR ''-'', CHR ''.'', CHR '':'', CHR ''/''})"

lemma scan_sign_split: "scan_sign s = (sg, r) \<Longrightarrow> \<exists>u. s = u @ r \<and> set u \<subseteq> {CHR ''+'', CHR ''-''}"
  by (cases s rule: scan_sign.cases) (auto split: if_splits)

lemma scan_int_split:
  assumes "scan_int s = Some (v, r)"
  obtains u where "s = u @ r" and "\<forall>c\<in>set u. target_char c"
proof -
  let ?w = "takeWhile c_isspace s" and ?t = "dropWhile c_isspace s"
  obtain sg q where q: "scan_sign ?t = (sg, q)" by (metis surj_pair)
  obtain u where u: "?t = u @ q" "set u \<subseteq> {CHR ''+'', CHR ''-''}" using scan_sign_split [OF q] by blast
  have r: "r = dropWhile c_isdigit q"
    using assms q by (auto simp: scan_int_def Let_def split: if_splits)
  show ?thesis
  proof (rule that [of "?w @ u @ takeWhile c_isdigit q"])
    have "s = ?w @ ?t" by simp
    then show "s = (?w @ u @ takeWhile c_isdigit q) @ r" unfolding r by (simp flip: u(1))
    show "\<forall>c\<in>set (?w @ u @ takeWhile c_isdigit q). target_char c"
      using u(2) by (auto simp: target_char_def c_isxdigit_def dest!: set_takeWhileD)
  qed
qed

text \<open>With the format's final \<open>%c\<close> not converted, \<open>%d\<close> and the literals have used up the input.\<close>

lemma sscanf_int_Suc:
  assumes "snd (sscanf ovf (CInt # fs) s) = Suc n"
  obtains u r where "s = u @ r" and "\<forall>c\<in>set u. target_char c" and "snd (sscanf ovf fs r) = n"
  using assms by (auto split: option.splits prod.splits elim!: scan_int_split)

lemma sscanf_lit_Suc:
  assumes "snd (sscanf ovf (CLit c # fs) s) = Suc n"
  obtains r where "s = c # r" and "snd (sscanf ovf fs r) = Suc n"
  using assms by (auto split: list.splits if_splits)

lemma sscanf_chr_0: "snd (sscanf ovf [CChr] s) = 0 \<Longrightarrow> s = []"
  by (simp split: list.splits)

lemma valid_ipv4_chars: "is_valid_ipv4 ovf s \<Longrightarrow> \<forall>c\<in>set s. target_char c"
proof -
  assume "is_valid_ipv4 ovf s"
  then have "snd (sscanf ovf ipv4_format s) = Suc (Suc (Suc (Suc 0)))"
    by (simp add: is_valid_ipv4_def split: prod.splits)
  then obtain u1 r1 where 1: "s = u1 @ r1" "\<forall>c\<in>set u1. target_char c"
    and "snd (sscanf ovf (CLit CHR ''.'' # CInt # CLit CHR ''.'' # CInt # CLit CHR ''.'' # [CInt, CChr]) r1)
      = Suc (Suc (Suc 0))"
    unfolding ipv4_format_def by (rule sscanf_int_Suc)
  from this(3) obtain q1 where 2: "r1 = CHR ''.'' # q1"
    and "snd (sscanf ovf (CInt # CLit CHR ''.'' # CInt # CLit CHR ''.'' # [CInt, CChr]) q1) = Suc (Suc (Suc 0))"
    by (rule sscanf_lit_Suc)
  from this(2) obtain u2 r2 where 3: "q1 = u2 @ r2" "\<forall>c\<in>set u2. target_char c"
    and "snd (sscanf ovf (CLit CHR ''.'' # CInt # CLit CHR ''.'' # [CInt, CChr]) r2) = Suc (Suc 0)"
    by (rule sscanf_int_Suc)
  from this(3) obtain q2 where 4: "r2 = CHR ''.'' # q2"
    and "snd (sscanf ovf (CInt # CLit CHR ''.'' # [CInt, CChr]) q2) = Suc (Suc 0)"
    by (rule sscanf_lit_Suc)
  from this(2) obtain u3 r3 where 5: "q2 = u3 @ r3" "\<forall>c\<in>set u3. target_char c"
    and "snd (sscanf ovf (CLit CHR ''.'' # [CInt, CChr]) r3) = Suc 0"
    by (rule sscanf_int_Suc)
  from this(3) obtain q3 where 6: "r3 = CHR ''.'' # q3" and "snd (sscanf ovf [CInt, CChr] q3) = Suc 0"
    by (rule sscanf_lit_Suc)
  from this(2) obtain u4 r4 where 7: "q3 = u4 @ r4" "\<forall>c\<in>set u4. target_char c"
    and "snd (sscanf ovf [CChr] r4) = 0"
    by (rule sscanf_int_Suc)
  then have "s = u1 @ CHR ''.'' # u2 @ CHR ''.'' # u3 @ CHR ''.'' # u4"
    using 1 2 3 4 5 6 7 sscanf_chr_0 by auto
  then show ?thesis using 1(2) 3(2) 5(2) 7(2) by (auto simp: target_char_def)
qed

lemma v6_loop_chars: "v6_loop s st = Some st' \<Longrightarrow> \<forall>c\<in>set s. c = CHR '':'' \<or> c_isxdigit c"
  by (induction s arbitrary: st)
    (fastforce simp: v6_char_def Let_def split: if_splits option.splits)+

lemma valid_ip_chars: "is_valid_ip ovf s \<Longrightarrow> \<forall>c\<in>set s. target_char c"
  using valid_ipv4_chars [of ovf s] v6_loop_chars [of s v6_init]
  by (auto simp: is_valid_ip_def is_valid_ipv6_def target_char_def split: option.splits if_splits)

lemma valid_cidr_chars: "is_valid_cidr ovf s \<Longrightarrow> \<forall>c\<in>set s. target_char c"
proof -
  assume v: "is_valid_cidr ovf s"
  let ?ip = "takeWhile (\<lambda>c. c \<noteq> CHR ''/'') s"
  obtain sl r where d: "dropWhile (\<lambda>c. c \<noteq> CHR ''/'') s = sl # r"
    using v by (auto simp: is_valid_cidr_def Let_def split: list.splits)
  then have sl: "sl = CHR ''/''" using hd_dropWhile [of "\<lambda>c. c \<noteq> CHR ''/''" s] by simp
  have ip: "is_valid_ip ovf ?ip" and "snd (sscanf ovf [CInt, CChr] r) = Suc 0"
    using v d by (auto simp: is_valid_cidr_def Let_def split: if_splits prod.splits list.splits)
  then obtain u q where u: "r = u @ q" "\<forall>c\<in>set u. target_char c" "snd (sscanf ovf [CChr] q) = 0"
    by (elim sscanf_int_Suc) simp
  have "s = ?ip @ CHR ''/'' # u"
    using takeWhile_dropWhile_id [of "\<lambda>c. c \<noteq> CHR ''/''" s] d sl u sscanf_chr_0 [OF u(3)] by simp
  then show ?thesis
    using valid_ip_chars [OF ip] u(2) by (metis Un_iff set_ConsD set_append target_char_def insertCI)
qed


section \<open>Dotted quads\<close>

lemma dec_val_snoc: "dec_val (ds @ [c]) = dec_val ds * 10 + (int (char_code c) - 48)"
  by (simp add: dec_val_def)

lemma dec_val_show: "dec_val (show_nat n) = int n"
proof (induction n rule: show_nat.induct)
  case (1 n)
  have "int (n div 10) * 10 + int (n mod 10) = int n" by presburger
  then show ?case
    by (subst show_nat.simps)
      (use 1 digit_char [of n] digit_char [of "n mod 10"] in
        \<open>auto simp: dec_val_snoc dec_val_def [of "[_]"]\<close>)
qed

lemma scan_int_show:
  assumes "r = [] \<or> \<not> c_isdigit (hd r)"
  shows "scan_int (show_nat n @ r) = Some (int n, r)"
proof -
  obtain c u where cu: "show_nat n = c # u" by (cases "show_nat n") auto
  have d: "c_isdigit c" using show_nat_digits [of n] cu by simp
  then have "dropWhile c_isspace (show_nat n @ r) = show_nat n @ r"
    unfolding cu by (simp add: c_isspace_def c_isdigit_def)
  moreover have "scan_sign (show_nat n @ r) = (1, show_nat n @ r)"
    using d unfolding cu by (auto simp: c_isdigit_def char_code_def)
  moreover have "takeWhile c_isdigit (show_nat n @ r) = show_nat n \<and> dropWhile c_isdigit (show_nat n @ r) = r"
    using assms show_nat_digits by (intro takeWhile_run) auto
  ultimately show ?thesis by (simp add: scan_int_def dec_val_show)
qed

definition dotted :: "nat \<Rightarrow> nat \<Rightarrow> nat \<Rightarrow> nat \<Rightarrow> string" where
  "dotted a b c d = show_nat a @ ''.'' @ show_nat b @ ''.'' @ show_nat c @ ''.'' @ show_nat d"

lemma sscanf_dotted:
  assumes "a < 2 ^ 31" "b < 2 ^ 31" "c < 2 ^ 31" "d < 2 ^ 31"
  shows "sscanf ovf ipv4_format (dotted a b c d) = ([int a, int b, int c, int d], 4)"
proof -
  have i: "store_int ovf (int n) = int n" if "n < 2 ^ 31" for n
    using that by (simp add: store_int_def)
  have dot: "\<not> c_isdigit CHR ''.''" by (simp add: c_isdigit_def char_code_def)
  show ?thesis
    using assms scan_int_show [of "[]" d]
    by (simp add: ipv4_format_def dotted_def scan_int_show dot i)
qed

section \<open>Colon-separated groups\<close>

text \<open>The groups joined by single colons.\<close>

fun join_colon :: "string list \<Rightarrow> string" where
  "join_colon [] = []"
| "join_colon [g] = g"
| "join_colon (g # gs) = g @ CHR '':'' # join_colon gs"

definition hex_group :: "string \<Rightarrow> bool" where
  "hex_group g = (g \<noteq> [] \<and> (\<forall>c\<in>set g. c_isxdigit c))"

lemma colon_not_hex: "c_isxdigit c \<Longrightarrow> c \<noteq> CHR '':''"
  by (auto simp: c_isxdigit_def c_isdigit_def char_code_def)

lemma v6_loop_append: "v6_loop (s @ t) st = (case v6_loop s st of None \<Rightarrow> None | Some st' \<Rightarrow> v6_loop t st')"
  by (induction s arbitrary: st) (auto split: option.splits)

lemma v6_loop_hex:
  "\<forall>c\<in>set g. c_isxdigit c \<Longrightarrow> g \<noteq> [] \<Longrightarrow>
   v6_loop g st = Some (st\<lparr>groups := groups st + (if 0 < consecutive_colons st then 1 else 0), consecutive_colons := 0\<rparr>)"
proof (induction g arbitrary: st)
  case (Cons c g)
  then show ?case
    using colon_not_hex [of c] by (cases "g = []") (auto simp: v6_char_def)
qed simp

lemma v6_loop_join:
  "list_all hex_group (g # gs) \<Longrightarrow> consecutive_colons st \<le> 1 \<Longrightarrow>
   v6_loop (join_colon (g # gs)) st = Some (st\<lparr>has_colon := has_colon st \<or> gs \<noteq> [],
     groups := groups st + (if 0 < consecutive_colons st then 1 else 0) + length gs, consecutive_colons := 0\<rparr>)"
proof (induction gs arbitrary: g st)
  case Nil
  then show ?case using v6_loop_hex [of g st] by (simp add: hex_group_def)
next
  case (Cons g' gs)
  then have "v6_loop g st =
      Some (st\<lparr>groups := groups st + (if 0 < consecutive_colons st then 1 else 0), consecutive_colons := 0\<rparr>)"
    using v6_loop_hex [of g st] by (simp add: hex_group_def)
  then show ?case
    using Cons.IH [of g'] Cons.prems(1) by (simp add: v6_loop_append v6_char_def Let_def)
qed

lemma last_join: "list_all hex_group (g # gs) \<Longrightarrow> join_colon (g # gs) \<noteq> [] \<and> last (join_colon (g # gs)) \<noteq> CHR '':''"
proof (induction gs arbitrary: g)
  case Nil
  then show ?case using colon_not_hex [of "last g"] by (auto simp: hex_group_def)
next
  case (Cons g' gs)
  then show ?case by simp
qed

lemma valid_ipv6_join:
  assumes "list_all hex_group gs" and "length (join_colon gs) \<le> 39"
  shows "is_valid_ipv6 (join_colon gs) \<longleftrightarrow> length gs = 8"
proof (cases gs)
  case (Cons g gs')
  have l: "v6_loop (join_colon gs) v6_init = Some (v6_init\<lparr>has_colon := gs' \<noteq> [], groups := length gs'\<rparr>)"
    using v6_loop_join [of g gs' v6_init] assms(1) Cons by (simp add: v6_init_def)
  have "2 \<le> length (join_colon gs)" if "gs' \<noteq> []"
    using that Cons assms(1) by (cases gs'; cases g) (auto simp: hex_group_def)
  then show ?thesis
    using l last_join [of g gs'] assms Cons
    by (auto simp: is_valid_ipv6_def v6_init_def)
qed (simp add: is_valid_ipv6_def)

lemma valid_ipv6_leading_colon:
  assumes "list_all hex_group gs" and "length gs = 7" and "length (join_colon gs) \<le> 38"
  shows "is_valid_ipv6 (CHR '':'' # join_colon gs)"
proof -
  obtain g gs' where gs: "gs = g # gs'" using assms(2) by (cases gs) auto
  let ?st = "v6_init\<lparr>has_colon := True, consecutive_colons := 1\<rparr>"
  have "v6_loop (CHR '':'' # join_colon gs) v6_init = v6_loop (join_colon gs) ?st"
    by (simp add: v6_char_def v6_init_def)
  also have "\<dots> = Some (?st\<lparr>groups := 7, consecutive_colons := 0\<rparr>)"
    using v6_loop_join [of g gs' ?st] assms(1,2) gs by (simp add: v6_init_def)
  finally show ?thesis
    using last_join [of g gs'] assms gs by (auto simp: is_valid_ipv6_def v6_init_def Suc_le_eq)
qed

section \<open>Properties\<close>

definition fw_program :: "(int \<Rightarrow> int) \<Rightarrow> string \<Rightarrow> string list \<Rightarrow> bool" where
  "fw_program ovf target argv =
    (argv \<in> {[''nft'', ''list'', ''set'', ''inet'', NFT_TABLE, NFT_SET_V4],
             [''nft'', ''list'', ''set'', ''inet'', NFT_TABLE, NFT_SET_V6],
             [''nft'', ''delete'', ''table'', ''inet'', NFT_TABLE]} \<or>
     ((is_valid_ip ovf target \<or> is_valid_cidr ovf target) \<and>
      (\<forall>c\<in>set (elem_of target). target_char c \<or> c = CHR ''{'' \<or> c = CHR ''}'') \<and>
      (\<exists>verb\<in>{''add'', ''delete''}.
         argv = [''nft'', verb, ''element'', ''inet'', NFT_TABLE, set_of target, elem_of target])))"

lemma elem_of_chars:
  assumes "\<forall>c\<in>set t. target_char c"
  shows "\<forall>c\<in>set (elem_of t). target_char c \<or> c = CHR ''{'' \<or> c = CHR ''}''"
proof -
  have "set (elem_of t) \<subseteq> set (''{ '' @ t @ '' }'')"
    unfolding elem_of_def snprintf_def by (rule set_take_subset)
  moreover have "target_char CHR '' ''" by (simp add: target_char_def c_isspace_def char_code_def)
  ultimately show ?thesis using assms by auto
qed

lemma fw_program_valid:
  assumes "is_valid_ip ovf t \<or> is_valid_cidr ovf t" and "verb \<in> {''add'', ''delete''}"
  shows "fw_program ovf t [''nft'', verb, ''element'', ''inet'', NFT_TABLE, set_of t, elem_of t]"
  using assms elem_of_chars [of t] valid_ip_chars [of ovf t] valid_cidr_chars [of ovf t]
  by (auto simp: fw_program_def)

lemma run_cmd_exec: "Exec a \<in> set (fst (run_cmd h argv)) \<Longrightarrow> a = argv"
  by (auto simp: run_cmd_def split: if_splits)

lemma run_cmd_no_stdin: "Exec_Stdin c s \<notin> set (fst (run_cmd h argv))"
  by (auto simp: run_cmd_def)

lemma nft_element_exec:
  "Exec a \<in> set (fst (nft_add h t)) \<Longrightarrow>
     a = [''nft'', ''add'', ''element'', ''inet'', NFT_TABLE, set_of t, elem_of t]"
  "Exec a \<in> set (fst (nft_remove h t)) \<Longrightarrow>
     a = [''nft'', ''delete'', ''element'', ''inet'', NFT_TABLE, set_of t, elem_of t]"
  "Exec a \<in> set (fst (nft_list h)) \<Longrightarrow> fw_program ovf t' a"
  "Exec a \<in> set (fst (nft_flush h)) \<Longrightarrow> fw_program ovf t' a"
  "Exec a \<notin> set (fst (nft_init h))"
  by (auto simp: nft_add_def nft_remove_def nft_list_def nft_flush_def nft_init_def run_nft_stdin_def
      Let_def split_beta fw_program_def dest!: run_cmd_exec)

lemma nft_element_stdin:
  "Exec_Stdin c s \<notin> set (fst (nft_add h t))" "Exec_Stdin c s \<notin> set (fst (nft_remove h t))"
  "Exec_Stdin c s \<notin> set (fst (nft_list h))" "Exec_Stdin c s \<notin> set (fst (nft_flush h))"
  by (auto simp: nft_add_def nft_remove_def nft_list_def nft_flush_def Let_def split_beta run_cmd_no_stdin)

lemma nft_init_stdin:
  "Exec_Stdin c s \<in> set (fst (nft_init h)) \<Longrightarrow> c = [''nft'', ''-f'', ''-''] \<and> (\<exists>n. s = take n init_script)"
  by (auto simp: nft_init_def run_nft_stdin_def Let_def split: if_splits)


definition fw_test_host :: host where
  "fw_test_host = \<lparr>fork_ok = True, pipe_ok = True, exit_status = (\<lambda>_. Some 0), pipe_write = (\<lambda>s. int (length s)),
     uid = 1000, euid = 1000, dockerenv = False\<rparr>"


text \<open>
  On dotted decimal notation the IPv4 check is exact: four decimal numbers (below the
  range of int) are accepted if and only if each is at most 255.
\<close>

theorem is_valid_ipv4_dotted:
  assumes "a < 2 ^ 31" and "b < 2 ^ 31" and "c < 2 ^ 31" and "d < 2 ^ 31"
  shows "is_valid_ipv4 ovf (dotted a b c d) \<longleftrightarrow> a \<le> 255 \<and> b \<le> 255 \<and> c \<le> 255 \<and> d \<le> 255"
  using sscanf_dotted [OF assms] by (auto simp: is_valid_ipv4_def)

theorem is_valid_ipv4_dotted_witness:
  "is_valid_ipv4 id (dotted 192 168 0 255) \<and> \<not> is_valid_ipv4 id (dotted 192 168 0 256)"
  using is_valid_ipv4_dotted [of 192 168 0 255 id] is_valid_ipv4_dotted [of 192 168 0 256 id] by simp

text \<open>
  An uncompressed IPv6 address (hexadecimal groups separated by single colons, at most 39
  characters) is accepted exactly when it has eight groups; but seven groups after one leading
  colon, which is no IPv6 address, are accepted too, since the group after the colon is
  counted twice.
\<close>

theorem is_valid_ipv6_groups:
  assumes "list_all hex_group gs" and "length (join_colon gs) \<le> 38"
  shows "(is_valid_ipv6 (join_colon gs) \<longleftrightarrow> length gs = 8) \<and>
    (length gs = 7 \<longrightarrow> is_valid_ipv6 (CHR '':'' # join_colon gs))"
  using assms valid_ipv6_join [of gs] valid_ipv6_leading_colon [of gs] by auto

theorem is_valid_ipv6_groups_witness:
  "is_valid_ipv6 ''2001:db8:0:0:0:0:0:1'' \<and> is_valid_ipv6 '':1:2:3:4:5:6:7''"
proof -
  have h: "list_all hex_group [''2001'', ''db8'', ''0'', ''0'', ''0'', ''0'', ''0'', ''1'']"
    "list_all hex_group [''1'', ''2'', ''3'', ''4'', ''5'', ''6'', ''7'']"
    by code_simp+
  show ?thesis
    using is_valid_ipv6_groups [OF h(1)] is_valid_ipv6_groups [OF h(2)] by simp
qed

end
