(* ===== verification/ACL_Flags.thy ===== *)
theory ACL_Flags
  imports Prelude
begin

text \<open>
  Permission flags, roles and user names: include/game/ACLFlags.h. The flags are an enum class
  over uint32_t that is used as a bit field, so a permission set is a 32-bit word.
\<close>

section \<open>Flags\<close>

datatype AuthType = SIMPLE | ADVANCED

type_synonym acl = u32

definition ACL_NONE :: acl where "ACL_NONE = 0"
definition ACL_KICK :: acl where "ACL_KICK = push_bit 0 1"
definition ACL_BAN :: acl where "ACL_BAN = push_bit 1 1"
definition ACL_BGLOCK :: acl where "ACL_BGLOCK = push_bit 2 1"
definition ACL_MODIFY_USERS :: acl where "ACL_MODIFY_USERS = push_bit 3 1"
definition ACL_CM :: acl where "ACL_CM = push_bit 4 1"
definition ACL_GLOBAL_TIMER :: acl where "ACL_GLOBAL_TIMER = push_bit 5 1"
definition ACL_EVI_MOD :: acl where "ACL_EVI_MOD = push_bit 6 1"
definition ACL_MOTD :: acl where "ACL_MOTD = push_bit 7 1"
definition ACL_ANNOUNCE :: acl where "ACL_ANNOUNCE = push_bit 8 1"
definition ACL_MODCHAT :: acl where "ACL_MODCHAT = push_bit 9 1"
definition ACL_MUTE :: acl where "ACL_MUTE = push_bit 10 1"
definition ACL_UNCM :: acl where "ACL_UNCM = push_bit 11 1"
definition ACL_SAVETEST :: acl where "ACL_SAVETEST = push_bit 12 1"
definition ACL_FORCE_CHARSELECT :: acl where "ACL_FORCE_CHARSELECT = push_bit 13 1"
definition ACL_BYPASS_LOCKS :: acl where "ACL_BYPASS_LOCKS = push_bit 14 1"
definition ACL_IGNORE_BGLIST :: acl where "ACL_IGNORE_BGLIST = push_bit 15 1"
definition ACL_SEND_NOTICE :: acl where "ACL_SEND_NOTICE = push_bit 16 1"
definition ACL_JUKEBOX :: acl where "ACL_JUKEBOX = push_bit 17 1"
definition ACL_SUPER :: acl where "ACL_SUPER = 0xffffffff"
definition ACL_BIT_COUNT :: nat where "ACL_BIT_COUNT = 18"

definition acl_or :: "acl \<Rightarrow> acl \<Rightarrow> acl" where "acl_or a b = a OR b"
definition acl_and :: "acl \<Rightarrow> acl \<Rightarrow> acl" where "acl_and a b = a AND b"

definition has_permission :: "acl \<Rightarrow> acl \<Rightarrow> bool" where
  "has_permission perms required =
    (if required = ACL_NONE then True
     else if perms = ACL_SUPER then True
     else perms AND required \<noteq> 0)"

definition acl_permissions_for_role :: "string \<Rightarrow> acl" where
  "acl_permissions_for_role role_id =
    (let upper = map c_toupper role_id in
     if upper = ''SUPER'' then ACL_SUPER
     else if upper = ''NONE'' \<or> upper = [] then ACL_NONE
     else ACL_NONE)"

definition is_valid_username :: "string \<Rightarrow> bool" where
  "is_valid_username name =
    (if name = [] \<or> 32 < length name then False
     else list_all (\<lambda>c. \<not> (\<not> c_isalnum c \<and> c \<noteq> CHR ''_'' \<and> c \<noteq> CHR ''-'')) name)"

definition permission_names :: "(acl \<times> string) list" where
  "permission_names =
    [(ACL_NONE, ''NONE''), (ACL_KICK, ''KICK''), (ACL_BAN, ''BAN''), (ACL_BGLOCK, ''BGLOCK''),
     (ACL_MODIFY_USERS, ''MODIFY_USERS''), (ACL_CM, ''CM''), (ACL_GLOBAL_TIMER, ''GLOBAL_TIMER''),
     (ACL_EVI_MOD, ''EVI_MOD''), (ACL_MOTD, ''MOTD''), (ACL_ANNOUNCE, ''ANNOUNCE''),
     (ACL_MODCHAT, ''MODCHAT''), (ACL_MUTE, ''MUTE''), (ACL_UNCM, ''UNCM''), (ACL_SAVETEST, ''SAVETEST''),
     (ACL_FORCE_CHARSELECT, ''FORCE_CHARSELECT''), (ACL_BYPASS_LOCKS, ''BYPASS_LOCKS''),
     (ACL_IGNORE_BGLIST, ''IGNORE_BGLIST''), (ACL_SEND_NOTICE, ''SEND_NOTICE''),
     (ACL_JUKEBOX, ''JUKEBOX''), (ACL_SUPER, ''SUPER'')]"

definition permission_name :: "acl \<Rightarrow> string" where
  "permission_name p = (case map_of permission_names p of Some s \<Rightarrow> s | None \<Rightarrow> ''UNKNOWN'')"

definition pretty_step :: "acl \<Rightarrow> nat \<Rightarrow> string \<Rightarrow> string" where
  "pretty_step perms b result =
    (if perms AND push_bit b 1 \<noteq> 0
     then (if result \<noteq> [] then result @ '', '' else result) @ permission_name (push_bit b 1)
     else result)"

definition permissions_pretty :: "acl \<Rightarrow> string" where
  "permissions_pretty perms =
    (if perms = ACL_SUPER then ''ALL''
     else if perms = ACL_NONE then ''NONE''
     else (let result = fold (pretty_step perms) [0..<ACL_BIT_COUNT] []
           in if result = [] then ''NONE'' else result))"

section \<open>Lemmas\<close>

lemma and_single: "(w :: u32) AND push_bit b 1 \<noteq> 0 \<longleftrightarrow> bit w b"
  using and_exp_eq_0_iff_not_bit [of w b] by simp

lemma super_and: "ACL_SUPER AND (r :: acl) = r"
proof -
  have m: "ACL_SUPER = (- 1 :: acl)" by (simp add: ACL_SUPER_def)
  show ?thesis unfolding m by (rule and.left_neutral)
qed

text \<open>The test for SUPER is a shortcut: all bits set intersects every nonempty requirement.\<close>

lemma has_permission_iff: "has_permission s r \<longleftrightarrow> r = 0 \<or> s AND r \<noteq> 0"
  by (auto simp: has_permission_def ACL_NONE_def super_and)

lemma has_permission_bit: "has_permission p (push_bit b 1) \<longleftrightarrow> push_bit b (1 :: acl) = 0 \<or> bit p b"
  by (simp add: has_permission_iff and_single del: push_bit_of_1)

fun comma_join :: "string list \<Rightarrow> string" where
  "comma_join [] = []"
| "comma_join [s] = s"
| "comma_join (s # ss) = s @ '', '' @ comma_join ss"

lemma comma_join_snoc: "ss \<noteq> [] \<Longrightarrow> comma_join (ss @ [s]) = comma_join ss @ '', '' @ s"
  by (induction ss rule: comma_join.induct) auto

lemma comma_join_Nil_iff: "[] \<notin> set ss \<Longrightarrow> comma_join ss = [] \<longleftrightarrow> ss = []"
  by (induction ss rule: comma_join.induct) auto

lemma permission_name_not_Nil [simp]: "permission_name p \<noteq> []" "[] \<noteq> permission_name p"
proof -
  show "permission_name p \<noteq> []"
  proof (cases "map_of permission_names p")
  case (Some s)
  then have "(p, s) \<in> set permission_names" by (rule map_of_SomeD)
  then have "s \<noteq> []" by (auto simp: permission_names_def)
  then show ?thesis using Some by (simp add: permission_name_def)
  qed (simp add: permission_name_def)
  then show "[] \<noteq> permission_name p" by metis
qed

definition set_names :: "acl \<Rightarrow> nat \<Rightarrow> string list" where
  "set_names p n = map (\<lambda>b. permission_name (push_bit b 1)) (filter (bit p) [0..<n])"

lemma pretty_fold: "fold (pretty_step p) [0..<n] [] = comma_join (set_names p n)"
proof (induction n)
  case (Suc n)
  have "comma_join (set_names p n) = [] \<longleftrightarrow> set_names p n = []"
    by (rule comma_join_Nil_iff) (auto simp: set_names_def permission_name_not_Nil)
  then show ?case
    using Suc comma_join_snoc [of "set_names p n"]
    by (cases "set_names p n = []") (simp_all add: pretty_step_def and_single set_names_def del: push_bit_of_1)
qed (simp add: set_names_def)

lemma role_permissions:
  "acl_permissions_for_role r = (if map c_toupper r = ''SUPER'' then ACL_SUPER else ACL_NONE)"
  by (simp add: acl_permissions_for_role_def Let_def)

section \<open>Properties\<close>

text \<open>
  A union of permission sets grants exactly what one of the sets grants, and the check for
  the all-permissions value agrees with the bitwise test; a role grants a permission only if
  it is spelled SUPER (in any case) or nothing is required.
\<close>

theorem has_permission_union:
  "(has_permission (acl_or a b) r \<longleftrightarrow> has_permission a r \<or> has_permission b r) \<and>
   (has_permission (acl_permissions_for_role role) r \<longleftrightarrow> map c_toupper role = ''SUPER'' \<or> r = ACL_NONE)"
proof -
  have "(a OR b) AND r = 0 \<longleftrightarrow> a AND r = 0 \<and> b AND r = 0"
    by (auto simp: bit_eq_iff bit_and_iff bit_or_iff)
  then show ?thesis
    using super_and [of r]
    by (auto simp: has_permission_iff acl_or_def role_permissions ACL_NONE_def)
qed

text \<open>
  \<open>permissions_pretty\<close> lists, separated by commas, the names of exactly the flags below
  \<open>BIT_COUNT\<close> that the set grants, and is NONE when there is none.
\<close>

theorem permissions_pretty_lists_flags:
  assumes "p \<noteq> ACL_SUPER"
  shows "permissions_pretty p =
    (case map (\<lambda>b. permission_name (push_bit b 1)) (filter (\<lambda>b. has_permission p (push_bit b 1)) [0..<18]) of
       [] \<Rightarrow> ''NONE''
     | names \<Rightarrow> comma_join names)"
proof -
  have f: "filter (\<lambda>b. has_permission p (push_bit b 1)) [0..<18] = filter (bit p) [0..<18]"
  proof (rule filter_cong [OF refl])
    fix b :: nat assume "b \<in> set [0..<18]"
    then have "push_bit b (1 :: acl) \<noteq> 0"
      using and_single [of "- 1" b] by auto
    then show "has_permission p (push_bit b 1) = bit p b"
      using has_permission_bit [of p b] by (simp only: simp_thms)
  qed
  have "comma_join (set_names p 18) = [] \<longleftrightarrow> set_names p 18 = []"
    by (rule comma_join_Nil_iff) (auto simp: set_names_def permission_name_not_Nil)
  then show ?thesis
    using assms unfolding f
    by (auto simp: permissions_pretty_def ACL_BIT_COUNT_def pretty_fold ACL_NONE_def set_names_def
        split: list.split)
qed

theorem permissions_pretty_lists_flags_witness:
  "permissions_pretty 3 = ''KICK, BAN''"
proof -
  have f: "filter (\<lambda>b. has_permission 3 (push_bit b 1)) [0..<18] = [0, 1]" by code_simp
  have n: "permission_name (push_bit 0 1) = ''KICK''" "permission_name (push_bit 1 1) = ''BAN''" by code_simp+
  show ?thesis
    using permissions_pretty_lists_flags [of 3] n unfolding f by (simp add: ACL_SUPER_def)
qed

end
