(* ===== verification/Area_State.thy ===== *)
theory Area_State
  imports Prelude
begin

text \<open>Per-area runtime state, include/game/AreaState.h, with its membership checks.\<close>

record area_background =
  bg_name :: string
  bg_manifest_hash :: string
  bg_position :: string

record area_music =
  mus_name :: string
  mus_asset_hash :: string
  mus_looping :: bool
  mus_channel :: int

record area_hp =
  hp_defense :: int
  hp_prosecution :: int

record area_timer =
  timer_value_ms :: int
  timer_running :: bool

record evidence_item =
  ev_name :: string
  ev_description :: string
  ev_image :: string

datatype TestimonyState = T_IDLE | T_RECORDING | T_PLAYBACK | T_UPDATE | T_ADD

record testimony_data =
  tst_state :: TestimonyState
  tst_statements :: "string list"
  tst_current_index :: int

definition testimony_reset :: "testimony_data \<Rightarrow> testimony_data" where
  "testimony_reset t = t\<lparr>tst_state := T_IDLE, tst_statements := [], tst_current_index := - 1\<rparr>"

datatype AreaLockMode = LM_FREE | LM_LOCKED | LM_SPECTATABLE

record area_state =
  as_id :: string
  as_name :: string
  as_path :: string
  as_status :: string
  as_lock_mode :: AreaLockMode
  as_background :: area_background
  as_music :: area_music
  as_hp :: area_hp
  as_timers :: "int \<rightharpoonup> area_timer"
  as_evidence :: "evidence_item list"
  as_testimony :: testimony_data
  as_cm_owners :: "u64 set"
  as_cm :: string
  as_invited :: "u64 set"
  as_bg_locked :: bool

text \<open>The default member initialisers.\<close>

definition area_state_new :: area_state where
  "area_state_new =
    \<lparr>as_id = [], as_name = [], as_path = [], as_status = ''IDLE'', as_lock_mode = LM_FREE,
     as_background = \<lparr>bg_name = [], bg_manifest_hash = [], bg_position = []\<rparr>,
     as_music = \<lparr>mus_name = [], mus_asset_hash = [], mus_looping = False, mus_channel = 0\<rparr>,
     as_hp = \<lparr>hp_defense = 10, hp_prosecution = 10\<rparr>,
     as_timers = Map.empty, as_evidence = [],
     as_testimony = \<lparr>tst_state = T_IDLE, tst_statements = [], tst_current_index = - 1\<rparr>,
     as_cm_owners = {}, as_cm = [], as_invited = {}, as_bg_locked = False\<rparr>"

definition is_cm :: "area_state \<Rightarrow> u64 \<Rightarrow> bool" where
  "is_cm a client_id = (client_id \<in> as_cm_owners a)"

definition is_invited :: "area_state \<Rightarrow> u64 \<Rightarrow> bool" where
  "is_invited a client_id = (client_id \<in> as_invited a)"

definition can_speak_ic :: "area_state \<Rightarrow> u64 \<Rightarrow> bool" where
  "can_speak_ic a client_id =
    (if as_lock_mode a = LM_FREE then True else is_cm a client_id \<or> is_invited a client_id)"

definition can_enter :: "area_state \<Rightarrow> u64 \<Rightarrow> bool" where
  "can_enter a client_id =
    (if as_lock_mode a = LM_FREE \<or> as_lock_mode a = LM_SPECTATABLE then True
     else is_cm a client_id \<or> is_invited a client_id)"

lemma speak_imp_enter: "can_speak_ic a c \<Longrightarrow> can_enter a c"
  by (auto simp: can_speak_ic_def can_enter_def)

end
