(* ===== verification/Game_Room.thy ===== *)
theory Game_Room
  imports Persistent_Map_Props Area_State ACL_Flags
begin

text \<open>
  The shared game state: engine/game/GameRoom.cpp with include/game/GameRoom.h,
  ServerSession.h, GameAction.h and ClientId.h. Sessions are shared objects: the session map
  holds pointers, which are indices into the list \<open>heap\<close> of all sessions ever made, so a
  handler that writes through a pointer is a write to the heap. Broadcast callbacks are code
  of the protocol backends: a callback is an identifier, and calling it is an entry of the
  output trace. The clock, the SHA-256 of \<open>Crypto\<close> and the hash of strings are arguments.
  Log lines are not modelled.
\<close>

section \<open>Sessions\<close>

record session =
  s_client_id :: u64
  s_session_id :: u64
  s_session_token :: string
  s_display_name :: string
  s_client_software :: string
  s_character_id :: int
  s_area :: string
  s_ipid :: string
  s_ip_address :: string
  s_hardware_id :: string
  s_password :: string
  s_casing_preferences :: "bool list"
  s_joined :: bool
  s_moderator :: bool
  s_acl_role :: string
  s_auth_token_id :: string
  s_moderator_name :: string
  s_change_auth_started :: bool
  s_login_failures :: int
  s_last_login_failure :: int
  s_protocol :: string
  s_last_activity_ns :: int
  s_bytes_sent :: u64
  s_bytes_received :: u64
  s_packets_sent :: u64
  s_packets_received :: u64
  s_mod_actions :: u64

text \<open>The default member initialisers; the clock is read once, at construction.\<close>

definition session_new :: "int \<Rightarrow> session" where
  "session_new now =
    \<lparr>s_client_id = 0, s_session_id = 0, s_session_token = [], s_display_name = [], s_client_software = [],
     s_character_id = - 1, s_area = [], s_ipid = [], s_ip_address = [], s_hardware_id = [], s_password = [],
     s_casing_preferences = [], s_joined = False, s_moderator = False, s_acl_role = [], s_auth_token_id = [],
     s_moderator_name = [], s_change_auth_started = False, s_login_failures = 0, s_last_login_failure = 0,
     s_protocol = [], s_last_activity_ns = now, s_bytes_sent = 0, s_bytes_received = 0, s_packets_sent = 0,
     s_packets_received = 0, s_mod_actions = 0\<rparr>"

definition is_spectator :: "session \<Rightarrow> bool" where
  "is_spectator s = (s_character_id s < 0)"

definition touch :: "int \<Rightarrow> session \<Rightarrow> session" where
  "touch now s = s\<lparr>s_last_activity_ns := now\<rparr>"

definition NX_BIT :: u64 where "NX_BIT = 0x8000000000000000"

definition format_client_id :: "u64 \<Rightarrow> string" where
  "format_client_id c =
    (if c AND NX_BIT \<noteq> 0 then ''NX'' @ show_nat (unat (c AND NOT NX_BIT)) else ''AO'' @ show_nat (unat c))"

section \<open>Actions and events\<close>

record ic_action =
  ic_sender_id :: u64
  ic_character :: string
  ic_emote :: string
  ic_message :: string
  ic_side :: string
  ic_showname :: string
  ic_pre_emote :: string
  ic_emote_mod :: int
  ic_char_id :: int
  ic_desk_mod :: int
  ic_flip :: bool
  ic_text_color :: int
  ic_objection_mod :: int
  ic_evidence_id :: int
  ic_realization :: bool
  ic_screenshake :: bool
  ic_additive :: bool
  ic_immediate :: bool
  ic_sfx_name :: string
  ic_sfx_delay :: int
  ic_sfx_looping :: bool
  ic_frame_screenshake :: string
  ic_frame_realization :: string
  ic_frame_sfx :: string
  ic_effects :: string
  ic_other_charid :: int
  ic_self_offset :: string
  ic_blipname :: string
  ic_slide :: bool

record ooc_action =
  ooc_sender_id :: u64
  ooc_name :: string
  ooc_message :: string

record char_select_action =
  cs_sender_id :: u64
  cs_character_id :: int

record music_action =
  mu_sender_id :: u64
  mu_track :: string
  mu_showname :: string
  mu_channel :: int
  mu_looping :: bool

record ic_event =
  ice_area :: string
  ice_action :: ic_action

record ooc_event =
  ooce_area :: string
  ooce_action :: ooc_action

record char_select_event =
  cse_client_id :: u64
  cse_character_id :: int
  cse_character_name :: string

record music_event =
  mue_area :: string
  mue_action :: music_action

text \<open>A call of a registered callback, the first component being the callback.\<close>

datatype room_output =
    IC_Out nat string ic_event
  | OOC_Out nat string ooc_event
  | CharSelect_Out nat char_select_event
  | Music_Out nat string music_event
  | CharsTaken_Out nat "int list"

section \<open>The room\<close>

record room_stats =
  st_sessions_ao :: int
  st_sessions_nx :: int
  st_joined :: int
  st_moderators :: int
  st_chars_taken :: int

type_synonym session_map = "(u64, nat) pmap"
type_synonym token_map = "(string, u64) pmap"

record room =
  stats :: room_stats
  characters :: "string list"
  music :: "string list"
  areas :: "string list"
  server_name :: string
  server_description :: string
  max_players :: int
  asset_url :: string
  max_ic_message_length :: int
  max_ooc_message_length :: int
  mod_password :: string
  auth_type :: AuthType
  char_taken :: "int list"
  heap :: "session list"
  sessions :: session_map
  token_index :: token_map
  next_session_id :: u64
  char_ids :: "string list"
  char_id_to_index :: "string \<rightharpoonup> int"
  area_states :: "string \<rightharpoonup> area_state"
  area_name_to_id :: "string \<rightharpoonup> string"
  area_name_to_index :: "string \<rightharpoonup> int"
  ic_broadcasts :: "nat list"
  ooc_broadcasts :: "nat list"
  char_select_broadcasts :: "nat list"
  music_broadcasts :: "nat list"
  chars_taken_broadcasts :: "nat list"

definition room_new :: room where
  "room_new =
    \<lparr>stats = \<lparr>st_sessions_ao = 0, st_sessions_nx = 0, st_joined = 0, st_moderators = 0, st_chars_taken = 0\<rparr>,
     characters = [], music = [], areas = [], server_name = [], server_description = [], max_players = 100,
     asset_url = [], max_ic_message_length = 256, max_ooc_message_length = 256, mod_password = [],
     auth_type = SIMPLE, char_taken = [], heap = [], sessions = pm_empty, token_index = pm_empty,
     next_session_id = 0, char_ids = [], char_id_to_index = Map.empty, area_states = Map.empty,
     area_name_to_id = Map.empty, area_name_to_index = Map.empty, ic_broadcasts = [], ooc_broadcasts = [],
     char_select_broadcasts = [], music_broadcasts = [], chars_taken_broadcasts = []\<rparr>"

definition add_ic_broadcast :: "nat \<Rightarrow> room \<Rightarrow> room" where
  "add_ic_broadcast cb g = g\<lparr>ic_broadcasts := ic_broadcasts g @ [cb]\<rparr>"

definition add_ooc_broadcast :: "nat \<Rightarrow> room \<Rightarrow> room" where
  "add_ooc_broadcast cb g = g\<lparr>ooc_broadcasts := ooc_broadcasts g @ [cb]\<rparr>"

definition add_char_select_broadcast :: "nat \<Rightarrow> room \<Rightarrow> room" where
  "add_char_select_broadcast cb g = g\<lparr>char_select_broadcasts := char_select_broadcasts g @ [cb]\<rparr>"

definition add_music_broadcast :: "nat \<Rightarrow> room \<Rightarrow> room" where
  "add_music_broadcast cb g = g\<lparr>music_broadcasts := music_broadcasts g @ [cb]\<rparr>"

definition add_chars_taken_broadcast :: "nat \<Rightarrow> room \<Rightarrow> room" where
  "add_chars_taken_broadcast cb g = g\<lparr>chars_taken_broadcasts := chars_taken_broadcasts g @ [cb]\<rparr>"

definition broadcast_chars_taken :: "room \<Rightarrow> room_output list" where
  "broadcast_chars_taken g = map (\<lambda>cb. CharsTaken_Out cb (char_taken g)) (chars_taken_broadcasts g)"

definition reset_taken :: "room \<Rightarrow> room" where
  "reset_taken g = g\<lparr>char_taken := replicate (length (characters g)) 0\<rparr>"

section \<open>Session management\<close>

definition count_session :: "int \<Rightarrow> string \<Rightarrow> room_stats \<Rightarrow> room_stats" where
  "count_session n protocol st =
    (if protocol = ''ao2'' then st\<lparr>st_sessions_ao := st_sessions_ao st + n\<rparr>
     else st\<lparr>st_sessions_nx := st_sessions_nx st + n\<rparr>)"

definition create_session :: "int \<Rightarrow> u64 \<Rightarrow> string \<Rightarrow> room \<Rightarrow> nat \<times> room" where
  "create_session now client_id protocol g =
    (let p = length (heap g);
         s = (session_new now)\<lparr>s_client_id := client_id, s_protocol := protocol,
               s_area := (if areas g \<noteq> [] then areas g ! 0 else []), s_session_id := next_session_id g\<rparr>
     in (p, g\<lparr>heap := heap g @ [s], next_session_id := next_session_id g + 1,
              sessions := pm_set std_hash_u64 client_id p (sessions g),
              stats := count_session 1 protocol (stats g)\<rparr>))"

definition create_session_with_token ::
  "(string \<Rightarrow> u64) \<Rightarrow> int \<Rightarrow> u64 \<Rightarrow> string \<Rightarrow> string \<Rightarrow> room \<Rightarrow> nat \<times> room" where
  "create_session_with_token shash now client_id protocol token g =
    (let p = length (heap g);
         s = (session_new now)\<lparr>s_client_id := client_id, s_protocol := protocol, s_session_token := token,
               s_area := (if areas g \<noteq> [] then areas g ! 0 else []), s_session_id := next_session_id g\<rparr>
     in (p, g\<lparr>heap := heap g @ [s], next_session_id := next_session_id g + 1,
              sessions := pm_set std_hash_u64 client_id p (sessions g),
              token_index := (if token \<noteq> [] then pm_set shash token client_id (token_index g) else token_index g),
              stats := count_session 1 protocol (stats g)\<rparr>))"

definition get_session :: "u64 \<Rightarrow> room \<Rightarrow> nat option" where
  "get_session client_id g = pm_find std_hash_u64 client_id (sessions g)"

definition session_count :: "room \<Rightarrow> u64" where
  "session_count g = pm_size (sessions g)"

definition free_char :: "int \<Rightarrow> room \<Rightarrow> room" where
  "free_char char_id g =
    (if 0 \<le> char_id \<and> char_id < int (length (char_taken g)) then
       g\<lparr>char_taken := (char_taken g)[nat char_id := 0],
         stats := (stats g)\<lparr>st_chars_taken := st_chars_taken (stats g) - 1\<rparr>\<rparr>
     else g)"

definition destroy_session :: "(string \<Rightarrow> u64) \<Rightarrow> u64 \<Rightarrow> room \<Rightarrow> room" where
  "destroy_session shash client_id g =
    (case get_session client_id g of
       None \<Rightarrow> g
     | Some p \<Rightarrow>
         (let s = heap g ! p;
              st1 = count_session (- 1) (s_protocol s) (stats g);
              st2 = (if s_joined s then st1\<lparr>st_joined := st_joined st1 - 1\<rparr> else st1);
              st3 = (if s_moderator s then st2\<lparr>st_moderators := st_moderators st2 - 1\<rparr> else st2);
              g1 = free_char (s_character_id s) (g\<lparr>stats := st3\<rparr>)
          in g1\<lparr>token_index := (if s_session_token s \<noteq> [] then pm_erase shash (s_session_token s) (token_index g1)
                                else token_index g1),
                sessions := pm_erase std_hash_u64 client_id (sessions g1)\<rparr>))"

definition register_session_token :: "(string \<Rightarrow> u64) \<Rightarrow> string \<Rightarrow> u64 \<Rightarrow> room \<Rightarrow> room" where
  "register_session_token shash token client_id g =
    (if token \<noteq> [] then g\<lparr>token_index := pm_set shash token client_id (token_index g)\<rparr> else g)"

definition find_session_by_token :: "(string \<Rightarrow> u64) \<Rightarrow> string \<Rightarrow> room \<Rightarrow> nat option" where
  "find_session_by_token shash token g =
    (case pm_find shash token (token_index g) of
       None \<Rightarrow> None
     | Some cid \<Rightarrow> pm_find std_hash_u64 cid (sessions g))"

text \<open>\<open>duration_cast\<close> from nanoseconds to seconds truncates towards zero.\<close>

definition ns_to_s :: "int \<Rightarrow> int" where
  "ns_to_s d = (if d < 0 then - ((- d) div 1000000000) else d div 1000000000)"

definition session_expired :: "int \<Rightarrow> int \<Rightarrow> session \<Rightarrow> bool" where
  "session_expired now ttl s =
    (s_session_token s \<noteq> [] \<and> ns_to_s (now - s_last_activity_ns s) > ttl)"

definition find_expired_sessions :: "int \<Rightarrow> int \<Rightarrow> room \<Rightarrow> u64 list" where
  "find_expired_sessions now ttl g =
    (if ttl \<le> 0 then []
     else map fst (filter (\<lambda>(cid, p). session_expired now ttl (heap g ! p)) (pm_for_each (sessions g))))"

definition expire_sessions :: "(string \<Rightarrow> u64) \<Rightarrow> int \<Rightarrow> int \<Rightarrow> room \<Rightarrow> int \<times> room \<times> room_output list" where
  "expire_sessions shash now ttl g =
    (if ttl \<le> 0 then (0, g, [])
     else
       (let to_expire = map fst (filter (\<lambda>(cid, p). session_expired now ttl (heap g ! p)) (pm_for_each (sessions g)));
            g1 = fold (destroy_session shash) to_expire g;
            expired = int (length to_expire)
        in (expired, g1,
            if expired > 0 then map (\<lambda>cb. CharsTaken_Out cb (char_taken g1)) (chars_taken_broadcasts g1) else [])))"

definition sessions_snapshot :: "room \<Rightarrow> session_map \<times> token_map" where
  "sessions_snapshot g = (sessions g, token_index g)"

definition for_each_session :: "room \<Rightarrow> nat list" where
  "for_each_session g = map snd (pm_for_each (fst (sessions_snapshot g)))"

definition sessions_in_area :: "string \<Rightarrow> room \<Rightarrow> nat list" where
  "sessions_in_area area g = filter (\<lambda>p. s_area (heap g ! p) = area) (map snd (pm_for_each (sessions g)))"

section \<open>Actions\<close>

definition joined_session :: "u64 \<Rightarrow> room \<Rightarrow> session option" where
  "joined_session sender g =
    (case get_session sender g of
       None \<Rightarrow> None
     | Some p \<Rightarrow> if \<not> s_joined (heap g ! p) then None else Some (heap g ! p))"

definition handle_ic :: "ic_action \<Rightarrow> room \<Rightarrow> room_output list" where
  "handle_ic action g =
    (case joined_session (ic_sender_id action) g of
       None \<Rightarrow> []
     | Some s \<Rightarrow>
         (let evt = \<lparr>ice_area = s_area s, ice_action = action\<rparr>
          in map (\<lambda>cb. IC_Out cb (ice_area evt) evt) (ic_broadcasts g)))"

definition handle_ic_to :: "ic_action \<Rightarrow> string \<Rightarrow> room \<Rightarrow> room_output list" where
  "handle_ic_to action target_area g =
    (case joined_session (ic_sender_id action) g of
       None \<Rightarrow> []
     | Some s \<Rightarrow>
         (let evt = \<lparr>ice_area = target_area, ice_action = action\<rparr>
          in map (\<lambda>cb. IC_Out cb (ice_area evt) evt) (ic_broadcasts g)))"

definition handle_ooc :: "ooc_action \<Rightarrow> room \<Rightarrow> room_output list" where
  "handle_ooc action g =
    (case joined_session (ooc_sender_id action) g of
       None \<Rightarrow> []
     | Some s \<Rightarrow>
         (let evt = \<lparr>ooce_area = s_area s, ooce_action = action\<rparr>
          in map (\<lambda>cb. OOC_Out cb (ooce_area evt) evt) (ooc_broadcasts g)))"

definition handle_ooc_to :: "ooc_action \<Rightarrow> string \<Rightarrow> room \<Rightarrow> room_output list" where
  "handle_ooc_to action target_area g =
    (case joined_session (ooc_sender_id action) g of
       None \<Rightarrow> []
     | Some s \<Rightarrow>
         (let evt = \<lparr>ooce_area = target_area, ooce_action = action\<rparr>
          in map (\<lambda>cb. OOC_Out cb (ooce_area evt) evt) (ooc_broadcasts g)))"

definition handle_music :: "music_action \<Rightarrow> room \<Rightarrow> room_output list" where
  "handle_music action g =
    (case joined_session (mu_sender_id action) g of
       None \<Rightarrow> []
     | Some s \<Rightarrow>
         (let evt = \<lparr>mue_area = s_area s, mue_action = action\<rparr>
          in map (\<lambda>cb. Music_Out cb (mue_area evt) evt) (music_broadcasts g)))"

text \<open>
  The result, the room and the output; \<open>None\<close> when the handler would read \<open>char_taken\<close> out of
  its bounds.
\<close>

definition handle_char_select :: "char_select_action \<Rightarrow> room \<Rightarrow> (bool \<times> room \<times> room_output list) option" where
  "handle_char_select action g =
    (case get_session (cs_sender_id action) g of
       None \<Rightarrow> Some (False, g, [])
     | Some p \<Rightarrow>
         (let requested = cs_character_id action in
          if requested < - 1 \<or> int (length (characters g)) \<le> requested then Some (False, g, [])
          else
            (let g1 = free_char (s_character_id (heap g ! p)) g in
             if 0 \<le> requested \<and> length (char_taken g1) \<le> nat requested then None
             else if 0 \<le> requested \<and> char_taken g1 ! nat requested \<noteq> 0 then Some (False, g1, [])
             else
               (let g2 = (if 0 \<le> requested then
                            g1\<lparr>char_taken := (char_taken g1)[nat requested := 1],
                               stats := (stats g1)\<lparr>st_chars_taken := st_chars_taken (stats g1) + 1\<rparr>\<rparr>
                          else g1);
                    s = (heap g2 ! p)\<lparr>s_character_id := requested\<rparr>;
                    s' = (if 0 \<le> requested then s\<lparr>s_display_name := characters g2 ! nat requested\<rparr> else s);
                    g3 = g2\<lparr>heap := (heap g2)[p := s']\<rparr>;
                    evt = \<lparr>cse_client_id = cs_sender_id action, cse_character_id = requested,
                           cse_character_name = s_display_name s'\<rparr>
                in Some (True, g3,
                     map (\<lambda>cb. CharSelect_Out cb evt) (char_select_broadcasts g3) @
                     map (\<lambda>cb. CharsTaken_Out cb (char_taken g3)) (chars_taken_broadcasts g3))))))"

section \<open>Character and area indices\<close>

definition build_char_id_index :: "(string \<Rightarrow> string) \<Rightarrow> room \<Rightarrow> room" where
  "build_char_id_index sha256 g =
    fold (\<lambda>i g'. let id = sha256 (''character:'' @ characters g' ! i)
                 in g'\<lparr>char_id_to_index := (char_id_to_index g')(id \<mapsto> int i), char_ids := char_ids g' @ [id]\<rparr>)
      [0..<length (characters g)] (g\<lparr>char_ids := [], char_id_to_index := Map.empty\<rparr>)"

definition find_char_index :: "string \<Rightarrow> room \<Rightarrow> int" where
  "find_char_index char_id g = (case char_id_to_index g char_id of Some i \<Rightarrow> i | None \<Rightarrow> - 1)"

definition char_id_at :: "int \<Rightarrow> room \<Rightarrow> string" where
  "char_id_at index g =
    (if index < 0 \<or> int (length (char_ids g)) \<le> index then [] else char_ids g ! nat index)"

definition slugify :: "string \<Rightarrow> string" where
  "slugify name = concat (map (\<lambda>c.
     if c = CHR '' '' \<or> c = CHR ''_'' then ''-''
     else if c_isalnum c \<or> c = CHR ''-'' then [c_tolower c]
     else []) name)"

text \<open>\<open>emplace\<close> keeps an existing entry; \<open>operator[]\<close> overwrites it.\<close>

definition build_area_index :: "(string \<Rightarrow> string) \<Rightarrow> room \<Rightarrow> room" where
  "build_area_index sha256 g =
    fold (\<lambda>i g'.
        let name = areas g' ! i;
            state = area_state_new\<lparr>as_id := sha256 (''area:'' @ name), as_name := name, as_path := slugify name\<rparr>
        in g'\<lparr>area_name_to_id := (area_name_to_id g')(name \<mapsto> as_id state),
              area_name_to_index := (area_name_to_index g')(name \<mapsto> int i),
              area_states := (if area_states g' (as_id state) = None
                              then (area_states g')(as_id state \<mapsto> state) else area_states g')\<rparr>)
      [0..<length (areas g)]
      (g\<lparr>area_states := Map.empty, area_name_to_id := Map.empty, area_name_to_index := Map.empty\<rparr>)"

definition find_area :: "string \<Rightarrow> room \<Rightarrow> area_state option" where
  "find_area area_id g = area_states g area_id"

definition find_area_by_name :: "string \<Rightarrow> room \<Rightarrow> area_state option" where
  "find_area_by_name name g =
    (case area_name_to_id g name of None \<Rightarrow> None | Some i \<Rightarrow> find_area i g)"

definition area_index :: "string \<Rightarrow> room \<Rightarrow> int" where
  "area_index name g = (case area_name_to_index g name of Some i \<Rightarrow> i | None \<Rightarrow> - 1)"

end
