(* ===== verification/Game_Room_Props.thy ===== *)
theory Game_Room_Props
  imports Game_Room
begin

text \<open>
  The room against its abstract view: the finite map from client ids to the sessions the
  registry holds. Creation, destruction, expiry and character selection are updates of that
  map; the counters are cardinalities of it; \<open>char_taken\<close> is the set of characters owned.
\<close>

section \<open>The abstract view\<close>

definition view :: "room \<Rightarrow> u64 \<rightharpoonup> session" where
  "view g c = map_option (\<lambda>p. heap g ! p) (get_session c g)"

definition cnt :: "(session \<Rightarrow> bool) \<Rightarrow> (u64 \<rightharpoonup> session) \<Rightarrow> int" where
  "cnt P f = int (card {c. \<exists>s. f c = Some s \<and> P s})"

definition store_ok :: "(string \<Rightarrow> u64) \<Rightarrow> string set \<Rightarrow> room \<Rightarrow> bool" where
  "store_ok shash U g \<longleftrightarrow>
     pm_inv std_hash_u64 UNIV (sessions g) \<and> pm_inv shash U (token_index g) \<and>
     (\<forall>c p. get_session c g = Some p \<longrightarrow> p < length (heap g) \<and> s_client_id (heap g ! p) = c \<and>
        (s_session_token (heap g ! p) \<noteq> [] \<longrightarrow> s_session_token (heap g ! p) \<in> U))"

definition stats_ok :: "room \<Rightarrow> bool" where
  "stats_ok g \<longleftrightarrow>
     st_sessions_ao (stats g) = cnt (\<lambda>s. s_protocol s = ''ao2'') (view g) \<and>
     st_sessions_nx (stats g) = cnt (\<lambda>s. s_protocol s \<noteq> ''ao2'') (view g) \<and>
     st_joined (stats g) = cnt s_joined (view g) \<and>
     st_moderators (stats g) = cnt s_moderator (view g) \<and>
     st_chars_taken (stats g) = cnt (\<lambda>s. 0 \<le> s_character_id s) (view g)"

definition owned :: "(u64 \<rightharpoonup> session) \<Rightarrow> int \<Rightarrow> bool" where
  "owned f i \<longleftrightarrow> (\<exists>c s. f c = Some s \<and> s_character_id s = i)"

definition chars_ok :: "room \<Rightarrow> bool" where
  "chars_ok g \<longleftrightarrow>
     length (char_taken g) = length (characters g) \<and>
     (\<forall>c s. view g c = Some s \<longrightarrow> - 1 \<le> s_character_id s \<and> s_character_id s < int (length (characters g))) \<and>
     (\<forall>i<length (characters g). char_taken g ! i = (if owned (view g) (int i) then 1 else 0)) \<and>
     (\<forall>c c' s s'. view g c = Some s \<longrightarrow> view g c' = Some s' \<longrightarrow> 0 \<le> s_character_id s \<longrightarrow>
        s_character_id s = s_character_id s' \<longrightarrow> c = c')"

definition room_ok :: "(string \<Rightarrow> u64) \<Rightarrow> string set \<Rightarrow> room \<Rightarrow> bool" where
  "room_ok shash U g \<longleftrightarrow> store_ok shash U g \<and> stats_ok g \<and> chars_ok g"

lemma view_Some: "view g c = Some s \<longleftrightarrow> (\<exists>p. get_session c g = Some p \<and> s = heap g ! p)"
  by (auto simp: view_def)

lemma finite_view: "store_ok shash U g \<Longrightarrow> finite (dom (view g))"
proof -
  assume "store_ok shash U g"
  then have "finite (dom (session_map.kmap (sessions g)))"
    by (intro session_map.finite_dom_kmap) (simp add: store_ok_def)
  moreover have "dom (view g) = dom (session_map.kmap (sessions g))"
    by (auto simp: view_def dom_def session_map.kmap_def get_session_def)
  ultimately show ?thesis by simp
qed

section \<open>Counting\<close>

lemma cnt_insert:
  assumes "finite (dom f)" and "f c = None"
  shows "cnt P (f(c \<mapsto> s)) = cnt P f + (if P s then 1 else 0)"
proof -
  let ?S = "{c. \<exists>s. f c = Some s \<and> P s}"
  have fin: "finite ?S" by (rule finite_subset [OF _ assms(1)]) auto
  have "{c'. \<exists>s'. (f(c \<mapsto> s)) c' = Some s' \<and> P s'} = (if P s then insert c ?S else ?S)"
    using assms(2) by auto
  moreover have "c \<notin> ?S" using assms(2) by simp
  ultimately show ?thesis using fin by (simp add: cnt_def)
qed

lemma cnt_remove:
  assumes "finite (dom f)" and "f c = Some s"
  shows "cnt P (f(c := None)) = cnt P f - (if P s then 1 else 0)"
proof -
  have "f = (f(c := None))(c \<mapsto> s)" using assms(2) by auto
  then have "cnt P f = cnt P ((f(c := None))(c \<mapsto> s))" by simp
  also have "\<dots> = cnt P (f(c := None)) + (if P s then 1 else 0)"
    using assms(1) by (intro cnt_insert) auto
  finally show ?thesis by simp
qed

lemma cnt_update:
  assumes "finite (dom f)" and "f c = Some s"
  shows "cnt P (f(c \<mapsto> s')) = cnt P f - (if P s then 1 else 0) + (if P s' then 1 else 0)"
proof -
  have "cnt P (f(c \<mapsto> s')) = cnt P ((f(c := None))(c \<mapsto> s'))" by simp
  also have "\<dots> = cnt P (f(c := None)) + (if P s' then 1 else 0)"
    using assms(1) by (intro cnt_insert) auto
  finally show ?thesis using cnt_remove [OF assms] by simp
qed

section \<open>Simulation of the operations\<close>

definition fresh_session :: "int \<Rightarrow> u64 \<Rightarrow> string \<Rightarrow> string \<Rightarrow> room \<Rightarrow> session" where
  "fresh_session now c pr token g =
    (session_new now)\<lparr>s_client_id := c, s_protocol := pr, s_session_token := token,
      s_area := (if areas g \<noteq> [] then areas g ! 0 else []), s_session_id := next_session_id g\<rparr>"

lemma create_eq:
  "create_session now c pr g = (p, g') \<Longrightarrow> g' = g\<lparr>heap := heap g @ [fresh_session now c pr [] g],
     next_session_id := next_session_id g + 1, sessions := pm_set std_hash_u64 c (length (heap g)) (sessions g),
     stats := count_session 1 pr (stats g)\<rparr> \<and> p = length (heap g)"
  by (auto simp: create_session_def Let_def fresh_session_def session_new_def)

lemma create_token_eq:
  "create_session_with_token shash now c pr t g = (p, g') \<Longrightarrow>
     g' = g\<lparr>heap := heap g @ [fresh_session now c pr t g],
     next_session_id := next_session_id g + 1, sessions := pm_set std_hash_u64 c (length (heap g)) (sessions g),
     token_index := (if t \<noteq> [] then pm_set shash t c (token_index g) else token_index g),
     stats := count_session 1 pr (stats g)\<rparr> \<and> p = length (heap g)"
  by (auto simp: create_session_with_token_def Let_def fresh_session_def session_new_def)

lemma view_add:
  assumes "store_ok shash U g" and "heap g' = heap g @ [s]"
    and "sessions g' = pm_set std_hash_u64 c (length (heap g)) (sessions g)"
  shows "view g' = (view g)(c \<mapsto> s)"
proof
  fix c'
  show "view g' c' = ((view g)(c \<mapsto> s)) c'"
    using assms
    by (auto simp: view_def get_session_def store_ok_def session_map.find_set nth_append map_option_case
        split: option.splits)
qed

lemma store_ok_add:
  assumes "store_ok shash U g" and "heap g' = heap g @ [s]"
    and "sessions g' = pm_set std_hash_u64 c (length (heap g)) (sessions g)"
    and "pm_inv shash U (token_index g')" and "s_client_id s = c"
    and "s_session_token s \<noteq> [] \<Longrightarrow> s_session_token s \<in> U"
  shows "store_ok shash U g'"
  using assms
  by (auto simp: store_ok_def get_session_def session_map.find_set session_map.inv_set nth_append
      intro: less_SucI split: if_splits)

lemma view_destroy:
  assumes "store_ok shash U g" and "inj_on shash U"
  shows "view (destroy_session shash c g) = (view g)(c := None)"
    and "store_ok shash U (destroy_session shash c g)"
proof -
  have *: "view (destroy_session shash c g) = (view g)(c := None) \<and> store_ok shash U (destroy_session shash c g)"
  proof (cases "get_session c g")
    case None
    then show ?thesis using assms by (auto simp: destroy_session_def view_def)
  next
    case (Some p)
    let ?g' = "destroy_session shash c g"
    let ?t = "s_session_token (heap g ! p)"
    have h: "heap ?g' = heap g" and s: "sessions ?g' = pm_erase std_hash_u64 c (sessions g)"
      and t: "token_index ?g' = (if ?t \<noteq> [] then pm_erase shash ?t (token_index g) else token_index g)"
      using Some by (auto simp: destroy_session_def free_char_def Let_def)
    have get: "get_session c' ?g' = (if c' = c then None else get_session c' g)" for c'
      using assms(1) s by (simp add: get_session_def store_ok_def session_map.find_erase)
    have "pm_inv shash U (token_index ?g')"
      using assms(1) Some unfolding t by (auto simp: store_ok_def intro: pm_erase_facts(1))
    moreover have "pm_inv std_hash_u64 UNIV (sessions ?g')"
      using assms(1) s by (simp add: store_ok_def session_map.inv_erase)
    ultimately have "store_ok shash U ?g'"
      using assms(1) get h by (auto simp: store_ok_def split: if_splits)
    then show ?thesis using get h by (auto simp: view_def)
  qed
  then show "view (destroy_session shash c g) = (view g)(c := None)"
    "store_ok shash U (destroy_session shash c g)" by blast+
qed


text \<open>Every session keeps the facts of its own after an update of the view elsewhere.\<close>

lemma view_char_select:
  assumes "store_ok shash U g" and "get_session c g = Some p"
    and "heap g' = (heap g)[p := s']" and "sessions g' = sessions g" and "token_index g' = token_index g"
    and "s_client_id s' = s_client_id (heap g ! p)" and "s_session_token s' = s_session_token (heap g ! p)"
  shows "view g' = (view g)(c \<mapsto> s')" and "store_ok shash U g'"
proof -
  have get: "get_session c' g' = get_session c' g" for c' using assms(4) by (simp add: get_session_def)
  have p: "p < length (heap g)" "s_client_id (heap g ! p) = c"
    using assms(1,2) by (auto simp: store_ok_def)
  have other: "p' \<noteq> p" if "get_session c' g = Some p'" "c' \<noteq> c" for c' p'
    using that p assms(1) by (auto simp: store_ok_def)
  show "view g' = (view g)(c \<mapsto> s')"
  proof
    fix c'
    show "view g' c' = ((view g)(c \<mapsto> s')) c'"
    proof (cases "c' = c")
      case True
      then show ?thesis using get p assms(2,3) by (simp add: view_def)
    next
      case False
      then show ?thesis
        using get assms(3) other [of c'] by (cases "get_session c' g") (auto simp: view_def)
    qed
  qed
  have len: "length (heap g') = length (heap g)" using assms(3) by simp
  have "s_client_id (heap g' ! q) = s_client_id (heap g ! q) \<and>
      s_session_token (heap g' ! q) = s_session_token (heap g ! q)" for q
    using assms(3,6,7) p by (cases "q = p") auto
  then show "store_ok shash U g'"
    using assms(1,4,5) get len unfolding store_ok_def by metis
qed

section \<open>Preservation of the counters and of character ownership\<close>

lemma stats_ok_add:
  assumes "stats_ok g" and "finite (dom (view g))" and "view g c = None"
    and "view g' = (view g)(c \<mapsto> s)" and "stats g' = count_session 1 (s_protocol s) (stats g)"
    and "\<not> s_joined s" and "\<not> s_moderator s" and "s_character_id s = - 1"
  shows "stats_ok g'"
  using assms by (auto simp: stats_ok_def cnt_insert count_session_def)

lemma owned_add:
  "f c = None \<Longrightarrow> s_character_id s = - 1 \<Longrightarrow> 0 \<le> i \<Longrightarrow> owned (f(c \<mapsto> s)) i = owned f i"
  unfolding owned_def by (metis fun_upd_other fun_upd_same not_numeral_le_zero option.distinct(1)
      option.inject rel_simps(28) verit_minus_simplify(4) neg_0_le_iff_le zero_neq_one
      le_minus_one_simps(1) le_minus_one_simps(3))

lemma chars_ok_add:
  assumes "chars_ok g" and "view g c = None" and "view g' = (view g)(c \<mapsto> s)"
    and "s_character_id s = - 1" and "char_taken g' = char_taken g" and "characters g' = characters g"
  shows "chars_ok g'"
  using assms(1) unfolding chars_ok_def assms(3,5,6) by (auto simp: assms(2,4) owned_add)

lemma fresh_session_facts [simp]:
  "s_client_id (fresh_session now c pr t g) = c"
  "s_protocol (fresh_session now c pr t g) = pr"
  "s_session_token (fresh_session now c pr t g) = t"
  "s_character_id (fresh_session now c pr t g) = - 1"
  "\<not> s_joined (fresh_session now c pr t g)"
  "\<not> s_moderator (fresh_session now c pr t g)"
  by (simp_all add: fresh_session_def session_new_def)

lemma room_ok_add:
  assumes "room_ok shash U g" and "get_session c g = None"
    and "heap g' = heap g @ [fresh_session now c pr t g]"
    and "sessions g' = pm_set std_hash_u64 c (length (heap g)) (sessions g)"
    and "pm_inv shash U (token_index g')" and "t \<noteq> [] \<Longrightarrow> t \<in> U"
    and "stats g' = count_session 1 pr (stats g)"
    and "char_taken g' = char_taken g" and "characters g' = characters g"
  shows "room_ok shash U g'" and "view g' = (view g)(c \<mapsto> fresh_session now c pr t g)"
proof -
  have st: "store_ok shash U g" "stats_ok g" "chars_ok g" using assms(1) by (simp_all add: room_ok_def)
  have n: "view g c = None" using assms(2) by (simp add: view_def)
  show v: "view g' = (view g)(c \<mapsto> fresh_session now c pr t g)"
    using view_add [OF st(1) assms(3,4)] .
  have "store_ok shash U g'" using store_ok_add [OF st(1) assms(3,4,5)] assms(6) by simp
  moreover have "stats_ok g'"
    using stats_ok_add [OF st(2) finite_view [OF st(1)] n v] assms(7) by simp
  moreover have "chars_ok g'"
    using chars_ok_add [OF st(3) n v _ assms(8,9)] by simp
  ultimately show "room_ok shash U g'" by (simp add: room_ok_def)
qed

lemma free_char_fields [simp]:
  "heap (free_char i g) = heap g" "sessions (free_char i g) = sessions g"
  "token_index (free_char i g) = token_index g" "characters (free_char i g) = characters g"
  "length (char_taken (free_char i g)) = length (char_taken g)"
  "get_session c (free_char i g) = get_session c g" "view (free_char i g) = view g"
  by (auto simp: free_char_def get_session_def view_def fun_eq_iff)

lemma free_char_stats:
  "stats (free_char i g) =
    (if 0 \<le> i \<and> i < int (length (char_taken g))
     then (stats g)\<lparr>st_chars_taken := st_chars_taken (stats g) - 1\<rparr> else stats g)"
  by (simp add: free_char_def)

lemma free_char_taken:
  "char_taken (free_char i g) =
    (if 0 \<le> i \<and> i < int (length (char_taken g)) then (char_taken g)[nat i := 0] else char_taken g)"
  by (simp add: free_char_def)

lemma owned_remove:
  assumes "f c = Some s" and "\<forall>c c' s s'. f c = Some s \<longrightarrow> f c' = Some s' \<longrightarrow> 0 \<le> s_character_id s \<longrightarrow>
      s_character_id s = s_character_id s' \<longrightarrow> c = c'" and "0 \<le> i"
  shows "owned (f(c := None)) i \<longleftrightarrow> owned f i \<and> i \<noteq> s_character_id s"
  unfolding owned_def using assms by (metis fun_upd_apply option.distinct(1) option.inject)

lemma destroy_fields:
  assumes "get_session c g = Some p"
  shows "char_taken (destroy_session shash c g) = char_taken (free_char (s_character_id (heap g ! p)) g)"
    and "characters (destroy_session shash c g) = characters g"
    and "chars_taken_broadcasts (destroy_session shash c g) = chars_taken_broadcasts g"
    and "heap (destroy_session shash c g) = heap g"
  using assms by (auto simp: destroy_session_def Let_def free_char_def)

lemma room_ok_destroy:
  assumes "room_ok shash U g" and "inj_on shash U"
  shows "room_ok shash U (destroy_session shash c g)"
proof (cases "get_session c g")
  case None
  then show ?thesis using assms by (simp add: destroy_session_def)
next
  case (Some p)
  let ?g' = "destroy_session shash c g" and ?s = "heap g ! p"
  have st: "store_ok shash U g" "stats_ok g" "chars_ok g" using assms(1) by (simp_all add: room_ok_def)
  have s: "view g c = Some ?s" using Some by (simp add: view_def)
  note v = view_destroy [OF st(1) assms(2), of c]
  note fin = finite_view [OF st(1)]
  have rng: "0 \<le> s_character_id ?s \<longleftrightarrow> 0 \<le> s_character_id ?s \<and> s_character_id ?s < int (length (char_taken g))"
    using st(3) s by (auto simp: chars_ok_def)
  have ct: "char_taken ?g' = (if 0 \<le> s_character_id ?s then (char_taken g)[nat (s_character_id ?s) := 0] else char_taken g)"
    using destroy_fields(1) [OF Some] rng by (simp add: free_char_taken)
  have "st_sessions_ao (stats ?g') = st_sessions_ao (stats g) - (if s_protocol ?s = ''ao2'' then 1 else 0) \<and>
    st_sessions_nx (stats ?g') = st_sessions_nx (stats g) - (if s_protocol ?s \<noteq> ''ao2'' then 1 else 0) \<and>
    st_joined (stats ?g') = st_joined (stats g) - (if s_joined ?s then 1 else 0) \<and>
    st_moderators (stats ?g') = st_moderators (stats g) - (if s_moderator ?s then 1 else 0) \<and>
    st_chars_taken (stats ?g') = st_chars_taken (stats g) - (if 0 \<le> s_character_id ?s then 1 else 0)"
    using Some rng by (auto simp: destroy_session_def Let_def free_char_def count_session_def)
  then have "stats_ok ?g'"
    using st(2) by (simp add: stats_ok_def v(1) cnt_remove [OF fin s])
  moreover have "chars_ok ?g'"
  proof -
    have ex: "\<forall>c c' s s'. view g c = Some s \<longrightarrow> view g c' = Some s' \<longrightarrow> 0 \<le> s_character_id s \<longrightarrow>
        s_character_id s = s_character_id s' \<longrightarrow> c = c'" using st(3) by (simp add: chars_ok_def)
    have "char_taken ?g' ! i = (if owned (view ?g') (int i) then 1 else 0)" if "i < length (characters g)" for i
      using st(3) that unfolding ct v(1)
      by (cases "nat (s_character_id ?s) = i") (auto simp: chars_ok_def owned_remove [OF s ex])
    then show ?thesis
      using st(3) ct ex unfolding chars_ok_def v(1) destroy_fields(2) [OF Some] by (auto split: if_splits)
  qed
  ultimately show ?thesis using v(2) by (simp add: room_ok_def)
qed


section \<open>Character selection\<close>

text \<open>What an accepted request makes of the sender's session.\<close>

definition select_char :: "room \<Rightarrow> int \<Rightarrow> session \<Rightarrow> session" where
  "select_char g requested s =
    (if 0 \<le> requested
     then s\<lparr>s_character_id := requested, s_display_name := characters g ! nat requested\<rparr>
     else s\<lparr>s_character_id := requested\<rparr>)"

lemma select_char_facts [simp]:
  "s_client_id (select_char g r s) = s_client_id s" "s_session_token (select_char g r s) = s_session_token s"
  "s_character_id (select_char g r s) = r" "s_protocol (select_char g r s) = s_protocol s"
  "s_joined (select_char g r s) = s_joined s" "s_moderator (select_char g r s) = s_moderator s"
  by (simp_all add: select_char_def)

definition select_events :: "room \<Rightarrow> char_select_action \<Rightarrow> session \<Rightarrow> int list \<Rightarrow> room_output list" where
  "select_events g a s' taken =
    map (\<lambda>cb. CharSelect_Out cb \<lparr>cse_client_id = cs_sender_id a, cse_character_id = cs_character_id a,
          cse_character_name = s_display_name s'\<rparr>) (char_select_broadcasts g) @
    map (\<lambda>cb. CharsTaken_Out cb taken) (chars_taken_broadcasts g)"

lemma char_select_cases:
  assumes "length (char_taken g) = length (characters g)" and "get_session (cs_sender_id a) g = Some p"
    and "- 1 \<le> cs_character_id a" and "cs_character_id a < int (length (characters g))"
  defines "g1 \<equiv> free_char (s_character_id (heap g ! p)) g"
  defines "s' \<equiv> select_char g (cs_character_id a) (heap g ! p)"
  defines "g2 \<equiv> (if 0 \<le> cs_character_id a then g1\<lparr>char_taken := (char_taken g1)[nat (cs_character_id a) := 1],
    stats := (stats g1)\<lparr>st_chars_taken := st_chars_taken (stats g1) + 1\<rparr>\<rparr> else g1)"
  shows "handle_char_select a g =
    (if 0 \<le> cs_character_id a \<and> char_taken g1 ! nat (cs_character_id a) \<noteq> 0 then Some (False, g1, [])
     else Some (True, g2\<lparr>heap := (heap g)[p := s']\<rparr>, select_events g a s' (char_taken g2)))"
  using assms(1-4) unfolding g1_def g2_def s'_def
  by (auto simp: handle_char_select_def Let_def select_char_def select_events_def)
    (simp_all add: free_char_def)

lemma owned_update:
  assumes "f c = Some s" and "0 \<le> i"
    and "\<forall>c c' s s'. f c = Some s \<longrightarrow> f c' = Some s' \<longrightarrow> 0 \<le> s_character_id s \<longrightarrow>
      s_character_id s = s_character_id s' \<longrightarrow> c = c'"
  shows "owned (f(c \<mapsto> s')) i \<longleftrightarrow> i = s_character_id s' \<or> (owned f i \<and> i \<noteq> s_character_id s)"
proof -
  have "owned (f(c \<mapsto> s')) i \<longleftrightarrow> i = s_character_id s' \<or> (\<exists>d t. d \<noteq> c \<and> f d = Some t \<and> s_character_id t = i)"
    by (auto simp: owned_def)
  also have "(\<exists>d t. d \<noteq> c \<and> f d = Some t \<and> s_character_id t = i) \<longleftrightarrow> owned f i \<and> i \<noteq> s_character_id s"
  proof
    assume "\<exists>d t. d \<noteq> c \<and> f d = Some t \<and> s_character_id t = i"
    then obtain d t where d: "d \<noteq> c" "f d = Some t" "s_character_id t = i" by blast
    then have "i \<noteq> s_character_id s" using assms(3) [rule_format, OF assms(1) d(2)] assms(2) by auto
    then show "owned f i \<and> i \<noteq> s_character_id s" using d by (auto simp: owned_def)
  next
    assume "owned f i \<and> i \<noteq> s_character_id s"
    then obtain d t where "f d = Some t" "s_character_id t = i" "i \<noteq> s_character_id s"
      by (auto simp: owned_def)
    then show "\<exists>d t. d \<noteq> c \<and> f d = Some t \<and> s_character_id t = i" using assms(1) by force
  qed
  finally show ?thesis .
qed

lemma char_select_accepted:
  assumes "room_ok shash U g" and "get_session (cs_sender_id a) g = Some p"
    and "handle_char_select a g = Some (True, g', out)"
  shows "view g' = (view g)(cs_sender_id a \<mapsto> select_char g (cs_character_id a) (heap g ! p))"
    and "room_ok shash U g'"
    and "out = select_events g a (select_char g (cs_character_id a) (heap g ! p)) (char_taken g')"
proof -
  let ?r = "cs_character_id a" and ?s = "heap g ! p" and ?c = "cs_sender_id a"
  let ?o = "s_character_id ?s" and ?n = "length (characters g)"
  have st: "store_ok shash U g" "stats_ok g" "chars_ok g" using assms(1) by (simp_all add: room_ok_def)
  have s: "view g ?c = Some ?s" using assms(2) by (simp add: view_def)
  have len: "length (char_taken g) = ?n" and o: "- 1 \<le> ?o" "?o < int ?n"
    and ct: "\<forall>i<?n. char_taken g ! i = (if owned (view g) (int i) then 1 else 0)"
    and ex: "\<forall>c c' s s'. view g c = Some s \<longrightarrow> view g c' = Some s' \<longrightarrow> 0 \<le> s_character_id s \<longrightarrow>
      s_character_id s = s_character_id s' \<longrightarrow> c = c'"
    using st(3) s by (auto simp: chars_ok_def)
  have r: "- 1 \<le> ?r" "?r < int ?n"
    using assms(2,3) by (auto simp: handle_char_select_def Let_def split: if_splits)
  note eq = char_select_cases [OF len assms(2) r]
  let ?g1 = "free_char ?o g"
  let ?g2 = "if 0 \<le> ?r then ?g1\<lparr>char_taken := (char_taken ?g1)[nat ?r := 1],
    stats := (stats ?g1)\<lparr>st_chars_taken := st_chars_taken (stats ?g1) + 1\<rparr>\<rparr> else ?g1"
  let ?s' = "select_char g ?r ?s"
  have free: "\<not> (0 \<le> ?r \<and> char_taken ?g1 ! nat ?r \<noteq> 0)" and g': "g' = ?g2\<lparr>heap := (heap g)[p := ?s']\<rparr>"
    and out: "out = select_events g a ?s' (char_taken ?g2)"
    using assms(3) eq by (auto split: if_splits)
  have h: "heap g' = (heap g)[p := ?s']" "sessions g' = sessions g" "token_index g' = token_index g"
    "characters g' = characters g"
    unfolding g' by auto
  have v: "view g' = (view g)(?c \<mapsto> ?s')" "store_ok shash U g'"
    using view_char_select [OF st(1) assms(2) h(1,2,3)] by simp_all
  then show "view g' = (view g)(cs_sender_id a \<mapsto> select_char g (cs_character_id a) (heap g ! p))" by simp
  show "out = select_events g a ?s' (char_taken g')" using out unfolding g' by simp
  have sts: "stats g' = (stats g)\<lparr>st_chars_taken :=
      st_chars_taken (stats g) - (if 0 \<le> ?o then 1 else 0) + (if 0 \<le> ?r then 1 else 0)\<rparr>"
    unfolding g' using o len by (auto simp: free_char_stats)
  have "stats_ok g'"
    using st(2) unfolding stats_ok_def v(1) by (simp add: sts cnt_update [OF finite_view [OF st(1)] s])
  moreover have "chars_ok g'"
  proof -
    have nobody: "owned (view g) ?r \<Longrightarrow> ?r = ?o" if "0 \<le> ?r"
      using that free ct r(2) len by (auto simp: free_char_taken nth_list_update split: if_splits)
    have L: "length (char_taken g') = ?n" unfolding g' using len by simp
    have ct': "char_taken g' ! i = (if int i = ?r then 1 else if int i = ?o then 0 else char_taken g ! i)"
      if "i < ?n" for i
      using that o(2) r len unfolding g'
      by (cases "0 \<le> ?o"; cases "0 \<le> ?r") (auto simp: free_char_taken nth_list_update nat_eq_iff)
    have T: "char_taken g' ! i = (if owned (view g') (int i) then 1 else 0)" if i: "i < ?n" for i
      using ct i unfolding v(1) owned_update [OF s of_nat_0_le_iff ex] ct' [OF i] by simp
    have E: "c = c'" if "view g' c = Some t" "view g' c' = Some t'" "0 \<le> s_character_id t"
      "s_character_id t = s_character_id t'" for c c' t t'
    proof (rule ccontr)
      assume "c \<noteq> c'"
      moreover have "\<not> (view g d = Some u \<and> d \<noteq> ?c \<and> s_character_id u = ?r)" if "0 \<le> ?r" for d u
      proof
        assume a: "view g d = Some u \<and> d \<noteq> ?c \<and> s_character_id u = ?r"
        then have "owned (view g) ?r" unfolding owned_def by auto
        then have "?r = ?o" using nobody that by simp
        then show False using a ex s that by metis
      qed
      ultimately show False
        using that ex unfolding v(1) by (auto split: if_splits; blast)
    qed
    have R: "- 1 \<le> s_character_id t \<and> s_character_id t < int ?n" if "view g' c = Some t" for c t
      using that st(3) r unfolding v(1) chars_ok_def by (auto split: if_splits)
    show ?thesis unfolding chars_ok_def h(4) using L T E R by blast
  qed
  ultimately show "room_ok shash U g'" using v(2) by (simp add: room_ok_def)
qed


section \<open>Expiry\<close>

lemma room_ok_destroy_all:
  assumes "inj_on shash U" and "room_ok shash U g"
  shows "room_ok shash U (fold (destroy_session shash) ids g) \<and>
    view (fold (destroy_session shash) ids g) = (\<lambda>c. if c \<in> set ids then None else view g c) \<and>
    chars_taken_broadcasts (fold (destroy_session shash) ids g) = chars_taken_broadcasts g"
  using assms(2)
proof (induction ids arbitrary: g)
  case (Cons c ids)
  have "store_ok shash U g" using Cons.prems by (simp add: room_ok_def)
  moreover have "chars_taken_broadcasts (destroy_session shash c g) = chars_taken_broadcasts g"
  proof (cases "get_session c g")
    case None
    then show ?thesis by (simp add: destroy_session_def)
  qed (simp add: destroy_fields(3))
  ultimately show ?case
    using Cons.IH [OF room_ok_destroy [OF Cons.prems assms(1)]] view_destroy(1) [OF _ assms(1)]
    by auto
qed simp

lemma registry_entries:
  assumes "store_ok shash U g"
  shows "(c, p) \<in> set (pm_for_each (sessions g)) \<longleftrightarrow> get_session c g = Some p"
    and "distinct (map fst (pm_for_each (sessions g)))"
  using assms session_map.in_entries_iff [of "sessions g" c p] session_map.distinct_entries [of "sessions g"]
  by (simp_all add: store_ok_def get_session_def)

lemma expired_ids:
  assumes "store_ok shash U g" and "0 < ttl"
  shows "set (find_expired_sessions now ttl g) = {c. \<exists>s. view g c = Some s \<and> session_expired now ttl s}"
    and "distinct (find_expired_sessions now ttl g)"
proof -
  show "set (find_expired_sessions now ttl g) = {c. \<exists>s. view g c = Some s \<and> session_expired now ttl s}"
    using assms(2) registry_entries(1) [OF assms(1)]
    by (force simp: find_expired_sessions_def view_Some)
  show "distinct (find_expired_sessions now ttl g)"
    using assms(2) registry_entries(2) [OF assms(1)]
    by (simp add: find_expired_sessions_def distinct_map_filter)
qed

lemma expire_eq:
  "0 < ttl \<Longrightarrow> expire_sessions shash now ttl g =
    (let ids = find_expired_sessions now ttl g; g1 = fold (destroy_session shash) ids g
     in (int (length ids), g1, if ids \<noteq> [] then map (\<lambda>cb. CharsTaken_Out cb (char_taken g1)) (chars_taken_broadcasts g1) else []))"
  by (auto simp: expire_sessions_def find_expired_sessions_def Let_def)

section \<open>Rooms reached by the registry's operations\<close>

definition room_start :: "string list \<Rightarrow> string list \<Rightarrow> room" where
  "room_start chars ars = reset_taken (room_new\<lparr>characters := chars, areas := ars\<rparr>)"

text \<open>
  Client ids are fresh when a session is made, as the transports guarantee. A refused character
  request is not a step: what it does to the room is the subject of a property below.
\<close>

inductive room_reach :: "(string \<Rightarrow> u64) \<Rightarrow> string set \<Rightarrow> room \<Rightarrow> bool" for shash U where
  rr_start: "room_reach shash U (room_start chars ars)"
| rr_create: "room_reach shash U g \<Longrightarrow> get_session c g = None \<Longrightarrow> create_session now c pr g = (p, g') \<Longrightarrow>
    room_reach shash U g'"
| rr_create_token: "room_reach shash U g \<Longrightarrow> get_session c g = None \<Longrightarrow> t = [] \<or> t \<in> U \<Longrightarrow>
    create_session_with_token shash now c pr t g = (p, g') \<Longrightarrow> room_reach shash U g'"
| rr_register: "room_reach shash U g \<Longrightarrow> t \<in> U \<Longrightarrow> room_reach shash U (register_session_token shash t c g)"
| rr_destroy: "room_reach shash U g \<Longrightarrow> room_reach shash U (destroy_session shash c g)"
| rr_expire: "room_reach shash U g \<Longrightarrow> expire_sessions shash now ttl g = (n, g', out) \<Longrightarrow> room_reach shash U g'"
| rr_select: "room_reach shash U g \<Longrightarrow> handle_char_select a g = Some (True, g', out) \<Longrightarrow> room_reach shash U g'"

lemma room_ok_start: "room_ok shash U (room_start chars ars)"
  by (auto simp: room_ok_def store_ok_def stats_ok_def chars_ok_def room_start_def reset_taken_def room_new_def
      pm_inv_empty view_def get_session_def pm_find_empty cnt_def owned_def)

lemma room_ok_register:
  "room_ok shash U g \<Longrightarrow> inj_on shash U \<Longrightarrow> t \<in> U \<Longrightarrow> room_ok shash U (register_session_token shash t c g)"
proof -
  assume a: "room_ok shash U g" "inj_on shash U" "t \<in> U"
  have v: "view (register_session_token shash t c g) = view g"
    by (auto simp: register_session_token_def view_def get_session_def fun_eq_iff)
  show ?thesis
    using a unfolding room_ok_def stats_ok_def chars_ok_def v
    by (auto simp: register_session_token_def store_ok_def get_session_def pm_set_inv)
qed

lemma room_reach_ok: "room_reach shash U g \<Longrightarrow> inj_on shash U \<Longrightarrow> room_ok shash U g"
proof (induction rule: room_reach.induct)
  case (rr_create g c now pr p g')
  then have "room_ok shash U g" by simp
  then show ?case
    using create_eq [OF rr_create.hyps(3)] rr_create.hyps(2)
    by (intro room_ok_add(1) [of shash U g c g' now pr "[]"]) (auto simp: room_ok_def store_ok_def)
next
  case (rr_create_token g c t now pr p g')
  then have "room_ok shash U g" by simp
  then show ?case
    using create_token_eq [OF rr_create_token.hyps(4)] rr_create_token
    by (intro room_ok_add(1) [of shash U g c g' now pr t]) (auto simp: room_ok_def store_ok_def pm_set_inv)
next
  case (rr_expire g now ttl n g' out)
  then show ?case
    using room_ok_destroy_all [of shash U g] by (auto simp: expire_sessions_def Let_def split: if_splits)
next
  case (rr_select g a g' out)
  then have "get_session (cs_sender_id a) g \<noteq> None" by (auto simp: handle_char_select_def split: option.splits)
  then show ?case using rr_select char_select_accepted(2) by blast
qed (simp_all add: room_ok_start room_ok_destroy room_ok_register)


section \<open>A refused request\<close>

lemma char_select_refused:
  assumes "room_ok shash U g" and "get_session (cs_sender_id a) g = Some p"
    and "0 \<le> s_character_id (heap g ! p)" and "0 \<le> cs_character_id a"
    and "cs_character_id a \<noteq> s_character_id (heap g ! p)" and "owned (view g) (cs_character_id a)"
  shows "handle_char_select a g = Some (False, free_char (s_character_id (heap g ! p)) g, [])"
proof -
  let ?o = "s_character_id (heap g ! p)" and ?r = "cs_character_id a"
  have ok: "chars_ok g" using assms(1) by (simp add: room_ok_def)
  obtain d t where t: "view g d = Some t" "s_character_id t = ?r" using assms(6) by (auto simp: owned_def)
  have r: "?r < int (length (characters g))" using ok t unfolding chars_ok_def by metis
  have len: "length (char_taken g) = length (characters g)" using ok by (simp add: chars_ok_def)
  have "char_taken (free_char ?o g) ! nat ?r = 1"
    using ok r assms(3,4,5,6) by (auto simp: free_char_taken chars_ok_def nth_list_update)
  then show ?thesis
    using char_select_cases [OF len assms(2) _ r] assms(4) by simp
qed

section \<open>The character and area indices\<close>

definition char_step :: "(string \<Rightarrow> string) \<Rightarrow> nat \<Rightarrow> room \<Rightarrow> room" where
  "char_step sha256 i g' = (let id = sha256 (''character:'' @ characters g' ! i)
     in g'\<lparr>char_id_to_index := (char_id_to_index g')(id \<mapsto> int i), char_ids := char_ids g' @ [id]\<rparr>)"

lemma char_index_fold:
  fixes g :: room and sha256 :: "string \<Rightarrow> string"
  defines "cid \<equiv> \<lambda>i. sha256 (''character:'' @ characters g ! i)"
  assumes "char_ids g = []" and "char_id_to_index g = Map.empty"
  shows "characters (fold (char_step sha256) [0..<n] g) = characters g \<and>
    char_ids (fold (char_step sha256) [0..<n] g) = map cid [0..<n] \<and>
    (\<forall>h. char_id_to_index (fold (char_step sha256) [0..<n] g) h =
       (if \<exists>i<n. cid i = h then Some (int (GREATEST i. i < n \<and> cid i = h)) else None))"
proof (induction n)
  case (Suc n)
  have G: "(GREATEST i. i < Suc n \<and> cid i = h) = (if cid n = h then n else (GREATEST i. i < n \<and> cid i = h))" for h
  proof (cases "cid n = h")
    case True
    then show ?thesis by (intro Greatest_equality) auto
  next
    case False
    then have "(\<lambda>i. i < Suc n \<and> cid i = h) = (\<lambda>i. i < n \<and> cid i = h)" by (auto simp: less_Suc_eq)
    then show ?thesis using False by simp
  qed
  have E: "(\<exists>i<Suc n. cid i = h) \<longleftrightarrow> cid n = h \<or> (\<exists>i<n. cid i = h)" for h by (auto simp: less_Suc_eq)
  show ?case
    using Suc unfolding G E by (auto simp: char_step_def Let_def cid_def)
qed (use assms in simp)

lemma char_index_built:
  "char_ids (build_char_id_index sha256 g) = map (\<lambda>n. sha256 (''character:'' @ n)) (characters g)"
  "char_id_to_index (build_char_id_index sha256 g) h =
     (if \<exists>i<length (characters g). sha256 (''character:'' @ characters g ! i) = h
      then Some (int (GREATEST i. i < length (characters g) \<and> sha256 (''character:'' @ characters g ! i) = h))
      else None)"
proof -
  let ?g0 = "g\<lparr>char_ids := [], char_id_to_index := Map.empty\<rparr>"
  have b: "build_char_id_index sha256 g = fold (char_step sha256) [0..<length (characters g)] ?g0"
    by (simp add: build_char_id_index_def char_step_def [abs_def])
  have m: "map (\<lambda>n. sha256 (''character:'' @ n)) (characters g) =
      map (\<lambda>i. sha256 (''character:'' @ characters g ! i)) [0..<length (characters g)]"
    by (rule nth_equalityI) auto
  show "char_ids (build_char_id_index sha256 g) = map (\<lambda>n. sha256 (''character:'' @ n)) (characters g)"
    unfolding b m using char_index_fold [of ?g0 sha256 "length (characters g)"] by simp
  show "char_id_to_index (build_char_id_index sha256 g) h =
     (if \<exists>i<length (characters g). sha256 (''character:'' @ characters g ! i) = h
      then Some (int (GREATEST i. i < length (characters g) \<and> sha256 (''character:'' @ characters g ! i) = h))
      else None)"
    unfolding b using char_index_fold [of ?g0 sha256 "length (characters g)"] by simp
qed

definition area_made :: "(string \<Rightarrow> string) \<Rightarrow> string \<Rightarrow> area_state" where
  "area_made sha256 name =
    area_state_new\<lparr>as_id := sha256 (''area:'' @ name), as_name := name, as_path := slugify name\<rparr>"

definition area_step :: "(string \<Rightarrow> string) \<Rightarrow> nat \<Rightarrow> room \<Rightarrow> room" where
  "area_step sha256 i g' =
    (let name = areas g' ! i; state = area_made sha256 name
     in g'\<lparr>area_name_to_id := (area_name_to_id g')(name \<mapsto> as_id state),
           area_name_to_index := (area_name_to_index g')(name \<mapsto> int i),
           area_states := (if area_states g' (as_id state) = None
                           then (area_states g')(as_id state \<mapsto> state) else area_states g')\<rparr>)"

lemma area_step_fields:
  "areas (area_step sha256 i f) = areas f"
  "area_name_to_id (area_step sha256 i f) =
     (area_name_to_id f)(areas f ! i \<mapsto> sha256 (''area:'' @ areas f ! i))"
  "area_name_to_index (area_step sha256 i f) = (area_name_to_index f)(areas f ! i \<mapsto> int i)"
  "area_states (area_step sha256 i f) =
     (if area_states f (sha256 (''area:'' @ areas f ! i)) = None
      then (area_states f)(sha256 (''area:'' @ areas f ! i) \<mapsto> area_made sha256 (areas f ! i)) else area_states f)"
  by (simp_all add: area_step_def area_made_def Let_def)

lemma area_index_fold:
  assumes "area_states g = Map.empty" and "area_name_to_id g = Map.empty" and "area_name_to_index g = Map.empty"
    and "inj_on (\<lambda>n. sha256 (''area:'' @ n)) (set (areas g))" and "n \<le> length (areas g)"
  shows "areas (fold (area_step sha256) [0..<n] g) = areas g \<and>
    area_name_to_id (fold (area_step sha256) [0..<n] g) =
      (\<lambda>a. if a \<in> set (take n (areas g)) then Some (sha256 (''area:'' @ a)) else None) \<and>
    (\<forall>a. case area_name_to_index (fold (area_step sha256) [0..<n] g) a of
       None \<Rightarrow> a \<notin> set (take n (areas g))
     | Some i \<Rightarrow> 0 \<le> i \<and> nat i < n \<and> areas g ! nat i = a) \<and>
    (\<forall>a\<in>set (take n (areas g)). area_states (fold (area_step sha256) [0..<n] g) (sha256 (''area:'' @ a)) =
       Some (area_made sha256 a)) \<and>
    (\<forall>h. area_states (fold (area_step sha256) [0..<n] g) h \<noteq> None \<longrightarrow> h \<in> (\<lambda>a. sha256 (''area:'' @ a)) ` set (take n (areas g)))"
  using assms(5)
proof (induction n)
  case (Suc n)
  let ?f = "fold (area_step sha256) [0..<n] g" and ?a = "areas g ! n"
  note IH = Suc.IH [OF Suc_leD [OF Suc.prems]]
  have t: "take (Suc n) (areas g) = take n (areas g) @ [?a]"
    using Suc.prems by (simp add: take_Suc_conv_app_nth)
  have mem: "?a \<in> set (areas g)" "set (take n (areas g)) \<subseteq> set (areas g)"
    using Suc.prems by (auto dest: in_set_takeD)
  have old: "?a \<in> set (take n (areas g))" if "area_states ?f (sha256 (''area:'' @ ?a)) \<noteq> None"
  proof -
    have "sha256 (''area:'' @ ?a) \<in> (\<lambda>a. sha256 (''area:'' @ a)) ` set (take n (areas g))"
      using IH [THEN conjunct2, THEN conjunct2, THEN conjunct2, THEN conjunct2, rule_format, OF that] .
    then obtain b where b: "b \<in> set (take n (areas g))" "sha256 (''area:'' @ ?a) = sha256 (''area:'' @ b)"
      by (elim imageE)
    have "?a = b" by (rule inj_onD [OF assms(4)]) (use b mem in auto)
    then show ?thesis using b by simp
  qed
  have neq: "sha256 (''area:'' @ b) \<noteq> sha256 (''area:'' @ ?a)" if "b \<in> set (take n (areas g))" "b \<noteq> ?a" for b
    by (rule inj_on_contraD [OF assms(4) that(2)]) (use that(1) mem in auto)
  have st: "area_states (area_step sha256 n ?f) = (if area_states ?f (sha256 (''area:'' @ ?a)) = None
      then (area_states ?f)(sha256 (''area:'' @ ?a) \<mapsto> area_made sha256 ?a) else area_states ?f)"
    using IH by (simp only: area_step_fields)
  have S: "\<forall>b\<in>set (take (Suc n) (areas g)). area_states (area_step sha256 n ?f) (sha256 (''area:'' @ b)) =
       Some (area_made sha256 b)"
    using IH old neq unfolding st t by auto
  have H: "\<forall>h. area_states (area_step sha256 n ?f) h \<noteq> None \<longrightarrow>
      h \<in> (\<lambda>a. sha256 (''area:'' @ a)) ` set (take (Suc n) (areas g))"
    using IH unfolding st t by auto
  have I: "case area_name_to_index (area_step sha256 n ?f) b of
       None \<Rightarrow> b \<notin> set (take (Suc n) (areas g))
     | Some i \<Rightarrow> 0 \<le> i \<and> nat i < Suc n \<and> areas g ! nat i = b" for b
  proof -
    have "area_name_to_index (area_step sha256 n ?f) b = (if b = ?a then Some (int n) else area_name_to_index ?f b)"
      using IH by (simp add: area_step_fields)
    moreover have "case area_name_to_index ?f b of None \<Rightarrow> b \<notin> set (take n (areas g))
      | Some i \<Rightarrow> 0 \<le> i \<and> nat i < n \<and> areas g ! nat i = b" using IH by blast
    ultimately show ?thesis unfolding t by (auto split: option.splits)
  qed
  have N: "areas (area_step sha256 n ?f) = areas g \<and> area_name_to_id (area_step sha256 n ?f) =
      (\<lambda>a. if a \<in> set (take (Suc n) (areas g)) then Some (sha256 (''area:'' @ a)) else None)"
    using IH unfolding t by (auto simp: area_step_fields fun_eq_iff)
  show ?case using S H I N by simp
qed (use assms in auto)

end
