(* ===== verification/Game_Room_Theorems.thy ===== *)
theory Game_Room_Theorems
  imports Game_Room_Props
begin

text \<open>The properties of the shared game state, from the lemmas of \<open>Game_Room_Props\<close>.\<close>

section \<open>A small room for the witnesses\<close>

definition test_hash :: "string \<Rightarrow> u64" where
  "test_hash s = of_nat (length s)"

definition demo_chars :: "string list" where "demo_chars = [''Phoenix'', ''Miles'', ''Maya'']"

text \<open>Sessions 1, 2 and 3; session 1 takes character 0, session 2 character 1.\<close>

definition select :: "u64 \<Rightarrow> int \<Rightarrow> room \<Rightarrow> room" where
  "select c i g = (case handle_char_select \<lparr>cs_sender_id = c, cs_character_id = i\<rparr> g of
     Some (_, g', _) \<Rightarrow> g' | None \<Rightarrow> g)"

definition demo_empty :: room where
  "demo_empty = snd (create_session_with_token test_hash 0 3 ''aonx'' ''tok'' (snd (create_session 0 2 ''aonx''
     (snd (create_session 0 1 ''ao2'' (room_start demo_chars [''Lobby'']))))))"

definition demo_room :: room where
  "demo_room = select 2 1 (select 1 0 demo_empty)"

definition demo_facts :: "room \<Rightarrow> bool" where
  "demo_facts g = (get_session 1 g = Some 0 \<and> get_session 2 g = Some 1 \<and> get_session 3 g = Some 2 \<and>
     s_character_id (heap g ! 0) = 0 \<and> s_character_id (heap g ! 1) = 1 \<and>
     s_session_token (heap g ! 2) = ''tok'' \<and> s_last_activity_ns (heap g ! 2) = 0)"

lemma demo_facts: "demo_facts demo_room"
  by code_simp

lemma demo_get:
  "get_session 1 demo_room = Some 0" "get_session 2 demo_room = Some 1" "get_session 3 demo_room = Some 2"
  "s_character_id (heap demo_room ! 0) = 0" "s_character_id (heap demo_room ! 1) = 1"
  "s_session_token (heap demo_room ! 2) = ''tok''" "s_last_activity_ns (heap demo_room ! 2) = 0"
  using demo_facts by (simp_all add: demo_facts_def)

lemma demo_empty_reach: "room_reach test_hash {''tok''} demo_empty"
proof -
  let ?g0 = "room_start demo_chars [''Lobby'']"
  let ?g1 = "snd (create_session 0 1 ''ao2'' ?g0)"
  let ?g2 = "snd (create_session 0 2 ''aonx'' ?g1)"
  have "room_reach test_hash {''tok''} ?g1"
    by (rule rr_create [OF rr_start, where c = 1]) (code_simp, rule prod.collapse [symmetric])
  then have "room_reach test_hash {''tok''} ?g2"
    by (rule rr_create [where c = 2]) (code_simp, rule prod.collapse [symmetric])
  then show ?thesis unfolding demo_empty_def
    by (rule rr_create_token [where c = 3 and t = "''tok''"]) (code_simp, simp, rule prod.collapse [symmetric])
qed

lemma select_reach:
  assumes "room_reach shash U g" and "map_option fst (handle_char_select \<lparr>cs_sender_id = c, cs_character_id = i\<rparr> g) = Some True"
  shows "room_reach shash U (select c i g)"
  using assms rr_select [OF assms(1), of "\<lparr>cs_sender_id = c, cs_character_id = i\<rparr>"]
  by (auto simp: select_def)

lemma demo_reach: "room_reach test_hash {''tok''} demo_room"
  unfolding demo_room_def
  by (intro select_reach demo_empty_reach) code_simp+

lemma demo_inj: "inj_on test_hash {''tok''}"
  by simp


section \<open>Properties\<close>





text \<open>
  A refused request is not harmless. When a session that holds character \<open>o\<close> asks for a
  character that another session holds, the answer is false and nothing is broadcast, but \<open>o\<close>
  is marked free and the counter goes down although the session still holds \<open>o\<close>; a third
  session that then asks for \<open>o\<close> gets it, and both hold the same character.
\<close>

theorem refused_char_select_frees_held_character:
  assumes "room_reach shash U g" and "inj_on shash U"
    and "view g c = Some s" and "0 \<le> s_character_id s"
    and "view g c' = Some s'" and "s_character_id s' = r" and "0 \<le> r" and "r \<noteq> s_character_id s"
    and "view g d = Some t" and "d \<noteq> c"
  shows "\<exists>g1 g2 out. handle_char_select \<lparr>cs_sender_id = c, cs_character_id = r\<rparr> g = Some (False, g1, []) \<and>
    view g1 c = Some s \<and> char_taken g1 ! nat (s_character_id s) = 0 \<and>
    st_chars_taken (stats g1) = st_chars_taken (stats g) - 1 \<and>
    handle_char_select \<lparr>cs_sender_id = d, cs_character_id = s_character_id s\<rparr> g1 = Some (True, g2, out) \<and>
    map_option s_character_id (view g2 c) = Some (s_character_id s) \<and>
    map_option s_character_id (view g2 d) = Some (s_character_id s)"
proof -
  let ?o = "s_character_id s"
  have ok: "room_ok shash U g" using room_reach_ok [OF assms(1,2)] .
  then have len: "length (char_taken g) = length (characters g)" and so: "store_ok shash U g"
    by (simp_all add: room_ok_def chars_ok_def)
  have o: "?o < int (length (characters g))"
    using ok assms(3) unfolding room_ok_def chars_ok_def by metis
  obtain p where p: "get_session c g = Some p" "s = heap g ! p" using assms(3) by (auto simp: view_Some)
  obtain q where q: "get_session d g = Some q" "t = heap g ! q" using assms(9) by (auto simp: view_Some)
  let ?g1 = "free_char ?o g"
  have "owned (view g) r" using assms(5,6) by (auto simp: owned_def)
  then have h1: "handle_char_select \<lparr>cs_sender_id = c, cs_character_id = r\<rparr> g = Some (False, ?g1, [])"
    using char_select_refused [OF ok, of "\<lparr>cs_sender_id = c, cs_character_id = r\<rparr>" p] p assms(4,7,8) by simp
  have so1: "store_ok shash U ?g1" using so by (simp add: store_ok_def)
  have free1: "char_taken ?g1 ! nat ?o = 0"
    using o len assms(4) by (simp add: free_char_taken)
  then have free2: "char_taken (free_char j ?g1) ! nat ?o = 0" for j
    using o len assms(4) by (auto simp: free_char_taken nth_list_update)
  let ?b = "\<lparr>cs_sender_id = d, cs_character_id = ?o\<rparr>"
  obtain g2 out where h2: "handle_char_select ?b ?g1 = Some (True, g2, out)"
    and g2: "heap g2 = (heap ?g1)[q := select_char ?g1 ?o t]" "sessions g2 = sessions ?g1" "token_index g2 = token_index ?g1"
    using char_select_cases [of ?g1 ?b q] len q o assms(4) free2 by auto
  have "view g2 = (view ?g1)(d \<mapsto> select_char ?g1 ?o t)"
    using view_char_select(1) [OF so1 _ g2] q by simp
  then have "map_option s_character_id (view g2 c) = Some ?o \<and> map_option s_character_id (view g2 d) = Some ?o"
    using assms(3,10) by simp
  moreover have "st_chars_taken (stats ?g1) = st_chars_taken (stats g) - 1"
    using o len assms(4) by (simp add: free_char_stats)
  ultimately show ?thesis using h1 h2 free1 assms(3) by (intro exI [of _ ?g1] exI [of _ g2] exI [of _ out]) simp
qed

theorem refused_char_select_frees_held_character_witness:
  "\<exists>g1. handle_char_select \<lparr>cs_sender_id = 1, cs_character_id = 1\<rparr> demo_room = Some (False, g1, []) \<and>
     char_taken g1 ! 0 = 0"
proof -
  have v: "view demo_room 1 = Some (heap demo_room ! 0)" "view demo_room 2 = Some (heap demo_room ! 1)"
    "view demo_room 3 = Some (heap demo_room ! 2)"
    by (simp_all add: view_def demo_get)
  show ?thesis
    using refused_char_select_frees_held_character [OF demo_reach demo_inj v(1) _ v(2) _ _ _ v(3), of 1] demo_get
    by auto
qed


text \<open>
  Expiry removes exactly the sessions that have a token and have been idle for more than
  \<open>ttl\<close> seconds; every other session is untouched, the returned number is how many were
  removed, the availability broadcast happens exactly when there was one, the counters and
  the character table stay right, and a second sweep at the same time finds nothing.
\<close>

theorem expire_removes_exactly_idle:
  assumes "room_reach shash U g" and "inj_on shash U" and "0 < ttl"
    and "expire_sessions shash now ttl g = (n, g', out)"
  shows "view g' = (\<lambda>c. case view g c of None \<Rightarrow> None
      | Some s \<Rightarrow> if session_expired now ttl s then None else Some s) \<and>
    n = cnt (session_expired now ttl) (view g) \<and>
    out = (if n > 0 then map (\<lambda>cb. CharsTaken_Out cb (char_taken g')) (chars_taken_broadcasts g) else []) \<and>
    room_ok shash U g' \<and> find_expired_sessions now ttl g' = []"
proof -
  have ok: "room_ok shash U g" using room_reach_ok [OF assms(1,2)] .
  then have so: "store_ok shash U g" by (simp add: room_ok_def)
  let ?ids = "find_expired_sessions now ttl g"
  note e = expired_ids [OF so assms(3), of now]
  note d = room_ok_destroy_all [OF assms(2) ok, of ?ids]
  have g': "g' = fold (destroy_session shash) ?ids g" and n: "n = int (length ?ids)"
    and out: "out = (if ?ids \<noteq> [] then map (\<lambda>cb. CharsTaken_Out cb (char_taken g')) (chars_taken_broadcasts g') else [])"
    using assms(4) expire_eq [OF assms(3)] by (auto simp: Let_def)
  have v: "view g' = (\<lambda>c. case view g c of None \<Rightarrow> None
      | Some s \<Rightarrow> if session_expired now ttl s then None else Some s)"
    using d e(1) unfolding g' by (auto simp: fun_eq_iff split: option.split)
  have ok': "room_ok shash U g'" using d unfolding g' by simp
  have "n = cnt (session_expired now ttl) (view g)"
    using e distinct_card [OF e(2)] unfolding n cnt_def by simp
  moreover have "find_expired_sessions now ttl g' = []"
  proof -
    have "set (find_expired_sessions now ttl g') = {}"
      using expired_ids(1) [of shash U g' ttl now] ok' assms(3) unfolding v
      by (auto simp: room_ok_def split: option.splits if_splits)
    then show ?thesis by simp
  qed
  moreover have "out = (if n > 0 then map (\<lambda>cb. CharsTaken_Out cb (char_taken g')) (chars_taken_broadcasts g) else [])"
    using out n d unfolding g' by (cases ?ids) simp_all
  ultimately show ?thesis using v ok' by (intro conjI)
qed

theorem expire_removes_exactly_idle_witness:
  "view (fst (snd (expire_sessions test_hash 61000000001 60 demo_room))) 3 = None \<and>
   view (fst (snd (expire_sessions test_hash 61000000001 60 demo_room))) 1 = Some (heap demo_room ! 0)"
proof -
  obtain n g' out where e: "expire_sessions test_hash 61000000001 60 demo_room = (n, g', out)"
    by (metis surj_pair)
  have "session_expired 61000000001 60 (heap demo_room ! 2)" "\<not> session_expired 61000000001 60 (heap demo_room ! 0)"
    by code_simp+
  then show ?thesis
    using expire_removes_exactly_idle [OF demo_reach demo_inj _ e] e
    by (simp add: view_def demo_get)
qed

text \<open>
  A session made with a token is found by that token until it is destroyed; once it is
  destroyed, neither its id nor its token finds anything, no action in its name broadcasts
  anything, and every other session is unchanged.
\<close>

theorem token_lookup_lifecycle:
  assumes "room_reach shash U g" and "inj_on shash U" and "get_session c g = None" and "t \<in> U" and "t \<noteq> []"
    and "create_session_with_token shash now c pr t g = (p, g1)"
  shows "find_session_by_token shash t g1 = Some p \<and> s_session_token (heap g1 ! p) = t \<and>
    (let g2 = destroy_session shash c g1
     in get_session c g2 = None \<and> find_session_by_token shash t g2 = None \<and> view g2 = view g \<and>
        (\<forall>a. ic_sender_id a = c \<longrightarrow> handle_ic a g2 = []) \<and> (\<forall>a. ooc_sender_id a = c \<longrightarrow> handle_ooc a g2 = []) \<and>
        (\<forall>a. mu_sender_id a = c \<longrightarrow> handle_music a g2 = []) \<and>
        (\<forall>a. cs_sender_id a = c \<longrightarrow> handle_char_select a g2 = Some (False, g2, [])))"
proof -
  have so: "store_ok shash U g" using room_reach_ok [OF assms(1,2)] by (simp add: room_ok_def)
  have r1: "room_reach shash U g1" using rr_create_token assms by blast
  have so1: "store_ok shash U g1" using room_reach_ok [OF r1 assms(2)] by (simp add: room_ok_def)
  note eq = create_token_eq [OF assms(6)]
  let ?s = "fresh_session now c pr t g"
  have v1: "view g1 = (view g)(c \<mapsto> ?s)" using eq by (intro view_add [OF so]) auto
  have get1: "get_session c g1 = Some p"
    using eq so by (auto simp: get_session_def store_ok_def session_map.find_set)
  have s: "heap g1 ! p = ?s" using eq by simp
  have tok: "pm_find shash t (token_index g1) = Some c"
    using eq assms(2,4,5) so pm_find_set [of shash U "token_index g" t t c] by (auto simp: store_ok_def)
  have f1: "find_session_by_token shash t g1 = Some p"
    using tok get1 by (simp add: find_session_by_token_def get_session_def)
  let ?g2 = "destroy_session shash c g1"
  note v2 = view_destroy(1) [OF so1 assms(2), of c]
  have v: "view ?g2 = view g"
    unfolding v2 v1 using assms(3) by (auto simp: fun_eq_iff view_def)
  have get2: "get_session c ?g2 = None"
    using v assms(3) by (metis not_None_eq option.simps(3) view_Some view_def map_option_is_None)
  have "token_index ?g2 = pm_erase shash t (token_index g1)"
    using get1 s assms(5) by (auto simp: destroy_session_def Let_def free_char_def)
  then have "pm_find shash t (token_index ?g2) = None"
    using so1 assms(4) pm_erase_facts(2) [of shash U "token_index g1" t t] by (simp add: store_ok_def)
  then have f2: "find_session_by_token shash t ?g2 = None" by (simp add: find_session_by_token_def)
  show ?thesis
    using f1 s f2 get2 v
    by (simp add: Let_def handle_ic_def handle_ooc_def handle_music_def handle_char_select_def joined_session_def)
qed

theorem token_lookup_lifecycle_witness:
  "find_session_by_token test_hash ''tok'' (snd (create_session_with_token test_hash 5 9 ''aonx'' ''tok''
     (room_start demo_chars [])) ) = Some 0"
proof -
  let ?g = "room_start demo_chars []"
  have n: "get_session 9 ?g = None" by code_simp
  obtain p g1 where c: "create_session_with_token test_hash 5 9 ''aonx'' ''tok'' ?g = (p, g1)" by (metis surj_pair)
  then have "p = 0" by (auto simp: create_session_with_token_def Let_def room_start_def reset_taken_def room_new_def)
  then show ?thesis
    using token_lookup_lifecycle [OF rr_start demo_inj n _ _ c] c by simp
qed

text \<open>
  The registry's enumerations are exact: \<open>sessions_in_area\<close> lists, once each, the live
  sessions whose area it is, and \<open>session_count\<close> is the number of live sessions.
\<close>

theorem sessions_in_area_exact:
  assumes "room_reach shash U g" and "inj_on shash U"
  shows "distinct (sessions_in_area area g) \<and>
    set (sessions_in_area area g) = {p. \<exists>c. get_session c g = Some p \<and> s_area (heap g ! p) = area} \<and>
    session_count g = of_nat (card (dom (view g)))"
proof -
  have so: "store_ok shash U g" using room_reach_ok [OF assms] by (simp add: room_ok_def)
  note e = registry_entries [OF so]
  have "inj_on snd (set (pm_for_each (sessions g)))"
  proof (rule inj_onI)
    fix x y assume "x \<in> set (pm_for_each (sessions g))" "y \<in> set (pm_for_each (sessions g))" "snd x = snd y"
    then show "x = y" using e(1) so unfolding store_ok_def by (metis prod.collapse)
  qed
  moreover have "distinct (pm_for_each (sessions g))" using e(2) by (simp add: distinct_map)
  ultimately have d: "distinct (map snd (pm_for_each (sessions g)))" by (simp add: distinct_map)
  have "set (sessions_in_area area g) = {p. \<exists>c. get_session c g = Some p \<and> s_area (heap g ! p) = area}"
    using e(1) unfolding sessions_in_area_def set_filter set_map by (auto simp: image_iff) (metis snd_conv)
  moreover have "session_count g = of_nat (card (dom (view g)))"
  proof -
    have "dom (view g) = dom (session_map.kmap (sessions g))"
      by (auto simp: view_def dom_def session_map.kmap_def get_session_def)
    then show ?thesis
      using so session_map.size_card [of "sessions g"] by (simp add: session_count_def store_ok_def)
  qed
  ultimately show ?thesis using d by (simp add: sessions_in_area_def)
qed

theorem sessions_in_area_exact_witness:
  "set (sessions_in_area ''Lobby'' demo_room) = {0, 1, 2}"
proof -
  have "sessions_in_area ''Lobby'' demo_room = [0, 1, 2]" by code_simp
  then show ?thesis
    using sessions_in_area_exact [OF demo_reach demo_inj, of "''Lobby''"] by simp
qed

text \<open>
  After the index is built, and when the hashes of the character names do not collide,
  the id at an index leads back to that index, and a string that is no character's id is not
  found.
\<close>

theorem char_index_roundtrip:
  assumes "distinct (map (\<lambda>n. sha256 (''character:'' @ n)) (characters g))"
  shows "(\<forall>i. 0 \<le> i \<and> i < int (length (characters g)) \<longrightarrow>
      find_char_index (char_id_at i (build_char_id_index sha256 g)) (build_char_id_index sha256 g) = i) \<and>
    (\<forall>h. h \<notin> (\<lambda>n. sha256 (''character:'' @ n)) ` set (characters g) \<longrightarrow>
      find_char_index h (build_char_id_index sha256 g) = - 1)"
proof -
  let ?b = "build_char_id_index sha256 g" and ?id = "\<lambda>i. sha256 (''character:'' @ characters g ! i)"
  have "find_char_index (char_id_at (int i) ?b) ?b = int i" if i: "i < length (characters g)" for i
  proof -
    have c: "char_id_at (int i) ?b = ?id i" using i by (simp add: char_id_at_def char_index_built(1))
    have "j = i" if "j < length (characters g)" "?id j = ?id i" for j
      using that i nth_eq_iff_index_eq [OF assms, of j i] by simp
    then have "(GREATEST j. j < length (characters g) \<and> ?id j = ?id i) = i"
      using i by (intro Greatest_equality) auto
    then show ?thesis using i unfolding c by (auto simp: find_char_index_def char_index_built(2))
  qed
  then have "find_char_index (char_id_at i ?b) ?b = i" if "0 \<le> i" "i < int (length (characters g))" for i
    using that by (metis int_nat_eq nat_less_iff)
  moreover have "find_char_index h ?b = - 1" if "h \<notin> (\<lambda>n. sha256 (''character:'' @ n)) ` set (characters g)" for h
    using that by (auto simp: find_char_index_def char_index_built(2))
  ultimately show ?thesis by blast
qed

theorem char_index_roundtrip_witness:
  "find_char_index (char_id_at 1 (build_char_id_index (\<lambda>x. x) (room_start demo_chars [])))
     (build_char_id_index (\<lambda>x. x) (room_start demo_chars [])) = 1"
proof -
  have c: "characters (room_start demo_chars []) = demo_chars"
    by (simp add: room_start_def reset_taken_def)
  have d: "distinct (map (\<lambda>n. ''character:'' @ n) (characters (room_start demo_chars [])))"
    unfolding c by (simp add: demo_chars_def)
  show ?thesis
  proof (rule char_index_roundtrip [OF d, THEN conjunct1, rule_format])
    show "0 \<le> (1 :: int) \<and> 1 < int (length (characters (room_start demo_chars [])))"
      unfolding c by (simp add: demo_chars_def)
  qed
qed

lemma slugify_chars:
  assumes "c \<in> set (slugify n)"
  shows "(c_isalnum c \<and> \<not> c_isupper c) \<or> c = CHR ''-''"
proof -
  have m: "c_tolower CHR ''-'' = CHR ''-''" by (simp add: c_tolower_def c_isupper_def char_code_def)
  obtain b where "c \<in> set (if b = CHR '' '' \<or> b = CHR ''_'' then ''-''
      else if c_isalnum b \<or> b = CHR ''-'' then [c_tolower b] else [])"
    using assms unfolding slugify_def set_concat set_map by blast
  then show ?thesis using m by (cases "b = CHR ''-''") (simp_all split: if_splits)
qed

lemma slugify_fixed: "\<forall>c\<in>set s. (c_isalnum c \<and> \<not> c_isupper c) \<or> c = CHR ''-'' \<Longrightarrow> slugify s = s"
proof (induction s)
  case (Cons c s)
  have n: "\<not> c_isalnum CHR '' ''" "\<not> c_isalnum CHR ''_''" "\<not> c_isupper CHR ''-''"
    by (simp_all add: ctype_defs)
  have c: "c_tolower c = c" "c \<noteq> CHR '' ''" "c \<noteq> CHR ''_''" "c_isalnum c \<or> c = CHR ''-''"
    using Cons.prems n by (cases "c = CHR ''-''"; simp add: c_tolower_def; metis)+
  have "slugify (c # s) = c # slugify s"
    using c by (simp add: slugify_def)
  then show ?case using Cons by simp
qed (simp add: slugify_def)

text \<open>
  After the area index is built, and when the hashes of the area names do not collide,
  every configured area is found by its name, with its name, its slug and its id, and its
  index leads back to the name; a name that is not configured is not found. A slug has only
  lower-case letters, digits and hyphens, and is its own slug.
\<close>

theorem area_index_lookup:
  assumes "inj_on (\<lambda>n. sha256 (''area:'' @ n)) (set (areas g))"
  shows "(let b = build_area_index sha256 g in
    (\<forall>n\<in>set (areas g). (\<exists>st. find_area_by_name n b = Some st \<and> find_area (as_id st) b = Some st \<and>
        as_name st = n \<and> as_path st = slugify n) \<and>
      0 \<le> area_index n b \<and> nat (area_index n b) < length (areas g) \<and> areas g ! nat (area_index n b) = n) \<and>
    (\<forall>n. n \<notin> set (areas g) \<longrightarrow> find_area_by_name n b = None \<and> area_index n b = - 1)) \<and>
   (\<forall>c\<in>set (slugify m). (c_isalnum c \<and> \<not> c_isupper c) \<or> c = CHR ''-'') \<and> slugify (slugify m) = slugify m"
proof -
  let ?g0 = "g\<lparr>area_states := Map.empty, area_name_to_id := Map.empty, area_name_to_index := Map.empty\<rparr>"
  let ?b = "build_area_index sha256 g"
  have b: "?b = fold (area_step sha256) [0..<length (areas g)] ?g0"
    by (simp add: build_area_index_def area_step_def [abs_def] area_made_def [abs_def])
  have e: "area_states ?g0 = Map.empty" "area_name_to_id ?g0 = Map.empty" "area_name_to_index ?g0 = Map.empty"
    "areas ?g0 = areas g" by simp_all
  have i: "inj_on (\<lambda>n. sha256 (''area:'' @ n)) (set (areas ?g0))" using assms e(4) by simp
  note R = area_index_fold [OF e(1,2,3) i order_refl, unfolded e(4), folded b]
  have F: "area_name_to_id ?b = (\<lambda>a. if a \<in> set (areas g) then Some (sha256 (''area:'' @ a)) else None)"
    "\<And>a. case area_name_to_index ?b a of None \<Rightarrow> a \<notin> set (areas g)
       | Some i \<Rightarrow> 0 \<le> i \<and> nat i < length (areas g) \<and> areas g ! nat i = a"
    "\<And>a. a \<in> set (areas g) \<Longrightarrow> area_states ?b (sha256 (''area:'' @ a)) = Some (area_made sha256 a)"
    using R [THEN conjunct2, THEN conjunct1] R [THEN conjunct2, THEN conjunct2, THEN conjunct1]
      R [THEN conjunct2, THEN conjunct2, THEN conjunct2, THEN conjunct1]
    unfolding take_all [OF order_refl] by blast+
  have I: "if n \<in> set (areas g) then 0 \<le> area_index n ?b \<and> nat (area_index n ?b) < length (areas g) \<and>
      areas g ! nat (area_index n ?b) = n else area_index n ?b = - 1" for n
    using F(2) [of n] by (auto simp: area_index_def split: option.splits)
  have S: "find_area_by_name n ?b = (if n \<in> set (areas g) then Some (area_made sha256 n) else None)" for n
    using F(1,3) by (simp add: find_area_by_name_def find_area_def)
  have A: "find_area (as_id (area_made sha256 n)) ?b = Some (area_made sha256 n) \<and>
      as_name (area_made sha256 n) = n \<and> as_path (area_made sha256 n) = slugify n" if "n \<in> set (areas g)" for n
    using F(3) [OF that] by (simp add: find_area_def area_made_def)
  have "\<forall>n\<in>set (areas g). (\<exists>st. find_area_by_name n ?b = Some st \<and> find_area (as_id st) ?b = Some st \<and>
        as_name st = n \<and> as_path st = slugify n) \<and>
      0 \<le> area_index n ?b \<and> nat (area_index n ?b) < length (areas g) \<and> areas g ! nat (area_index n ?b) = n"
    using S A I by (metis (no_types, lifting))
  moreover have "\<forall>n. n \<notin> set (areas g) \<longrightarrow> find_area_by_name n ?b = None \<and> area_index n ?b = - 1"
    using S I by (metis (no_types, lifting))
  ultimately show ?thesis
    using slugify_chars slugify_fixed unfolding Let_def by blast
qed

theorem area_index_lookup_witness:
  "area_index ''Court 1'' (build_area_index (\<lambda>x. x) (room_start [] [''Lobby'', ''Court 1''])) = 1 \<and>
   map_option as_path (find_area_by_name ''Court 1'' (build_area_index (\<lambda>x. x) (room_start [] [''Lobby'', ''Court 1''])))
     = Some ''court-1''"
proof -
  let ?g = "room_start [] [''Lobby'', ''Court 1'']"
  have i: "inj_on (\<lambda>n. (\<lambda>x. x) (''area:'' @ n)) (set (areas ?g))" by (simp add: inj_on_def)
  have a: "''Court 1'' \<in> set (areas ?g)" and sl: "slugify ''Court 1'' = ''court-1''"
    and ix: "area_index ''Court 1'' (build_area_index (\<lambda>x. x) ?g) = 1" by code_simp+
  obtain st where "find_area_by_name ''Court 1'' (build_area_index (\<lambda>x. x) ?g) = Some st"
    "as_path st = slugify ''Court 1''"
    using area_index_lookup [OF i, unfolded Let_def, THEN conjunct1, THEN conjunct1, THEN bspec, OF a] by blast
  then show ?thesis using sl ix by simp
qed

end
