(* ===== verification/Crypto.thy ===== *)
theory Crypto
  imports Prelude
begin

text \<open>
  SHA-1, SHA-256, HMAC, PBKDF2 and the password check of include/utils/Crypto.h. Bytes are
  8-bit words and a C string is its list of bytes; a pointer into a buffer is the rest of the
  list. The five registers of the unrolled SHA-1 are a list, and a call of a round function
  names them by their positions; the random source of \<open>randbytes\<close> is an argument.
\<close>

type_synonym bytes = "u8 list"

definition bytes_of :: "string \<Rightarrow> bytes" where
  "bytes_of s = map (\<lambda>c. of_nat (char_code c)) s"

section \<open>Shared helpers\<close>

definition read_be32 :: "bytes \<Rightarrow> u32" where
  "read_be32 p = push_bit 24 (ucast (p ! 0)) OR push_bit 16 (ucast (p ! 1)) OR push_bit 8 (ucast (p ! 2)) OR ucast (p ! 3)"

definition be32 :: "u32 \<Rightarrow> bytes" where
  "be32 v = [ucast (drop_bit 24 v), ucast (drop_bit 16 v), ucast (drop_bit 8 v), ucast v]"

definition write_be32 :: "nat \<Rightarrow> u32 \<Rightarrow> bytes \<Rightarrow> bytes" where
  "write_be32 pos v p = take pos p @ be32 v @ drop (pos + 4) p"

definition hex_digit :: "nat \<Rightarrow> char" where
  "hex_digit n = char_of (if n < 10 then 48 + n else 87 + n)"

text \<open>\<open>std::hex\<close> with \<open>setfill('0')\<close> and \<open>setw(k)\<close>, for a value below \<open>16 ^ k\<close>.\<close>

fun hex_pad :: "nat \<Rightarrow> nat \<Rightarrow> string" where
  "hex_pad 0 n = []"
| "hex_pad (Suc k) n = hex_pad k (n div 16) @ [hex_digit (n mod 16)]"

definition to_hex :: "u32 list \<Rightarrow> string" where
  "to_hex ws = concat (map (\<lambda>w. hex_pad 8 (unat w)) ws)"

definition bytes_hex :: "bytes \<Rightarrow> string" where
  "bytes_hex bs = concat (map (\<lambda>b. hex_pad 2 (unat b)) bs)"

definition to_bytes :: "u32 list \<Rightarrow> bytes" where
  "to_bytes ws = concat (map be32 ws)"

definition HASH_BLOCK :: nat where "HASH_BLOCK = 64"

definition load_block :: "bytes \<Rightarrow> u32 list" where
  "load_block src = map (\<lambda>i. read_be32 (drop (4 * i) src)) [0..<16]"

section \<open>SHA-1\<close>

definition rol :: "u32 \<Rightarrow> nat \<Rightarrow> u32" where
  "rol v n = push_bit n v OR drop_bit (32 - n) v"

definition sha1_blk :: "u32 list \<Rightarrow> nat \<Rightarrow> u32" where
  "sha1_blk w i = rol (w ! ((i + 13) mod 16) XOR w ! ((i + 8) mod 16) XOR w ! ((i + 2) mod 16) XOR w ! i) 1"

datatype sha1_round = R0 | R1 | R2 | R3 | R4

text \<open>The value a round function adds to \<open>z\<close>, without the message word.\<close>

fun sha1_mix :: "sha1_round \<Rightarrow> u32 \<Rightarrow> u32 \<Rightarrow> u32 \<Rightarrow> u32" where
  "sha1_mix R0 a x y = ((a AND (x XOR y)) XOR y)"
| "sha1_mix R1 a x y = ((a AND (x XOR y)) XOR y)"
| "sha1_mix R2 a x y = (a XOR x XOR y)"
| "sha1_mix R3 a x y = (((a OR x) AND y) OR (a AND x))"
| "sha1_mix R4 a x y = (a XOR x XOR y)"

fun sha1_const :: "sha1_round \<Rightarrow> u32" where
  "sha1_const R0 = 0x5a827999"
| "sha1_const R1 = 0x5a827999"
| "sha1_const R2 = 0x6ed9eba1"
| "sha1_const R3 = 0x8f1bbcdc"
| "sha1_const R4 = 0xca62c1d6"

type_synonym sha1_call = "sha1_round \<times> nat \<times> nat \<times> nat \<times> nat \<times> nat \<times> nat"

text \<open>One call \<open>Rn(w, v, a, x, y, z, i)\<close> on the registers and the message buffer.\<close>

fun sha1_step :: "sha1_call \<Rightarrow> u32 list \<times> u32 list \<Rightarrow> u32 list \<times> u32 list" where
  "sha1_step (r, v, a, x, y, z, i) (h, w) =
    (let w1 = (if r = R0 then w else w[i := sha1_blk w i]);
         h1 = h[z := h ! z + (sha1_mix r (h ! a) (h ! x) (h ! y) + w1 ! i + sha1_const r + rol (h ! v) 5)];
         h2 = h1[a := rol (h1 ! a) 30]
     in (h2, w1))"

text \<open>The eighty unrolled calls; the registers a to e are 0 to 4.\<close>

definition sha1_calls :: "sha1_call list" where
  "sha1_calls =
    [(R0, 0, 1, 2, 3, 4, 0), (R0, 4, 0, 1, 2, 3, 1), (R0, 3, 4, 0, 1, 2, 2), (R0, 2, 3, 4, 0, 1, 3), (R0, 1, 2, 3, 4, 0, 4),
     (R0, 0, 1, 2, 3, 4, 5), (R0, 4, 0, 1, 2, 3, 6), (R0, 3, 4, 0, 1, 2, 7), (R0, 2, 3, 4, 0, 1, 8), (R0, 1, 2, 3, 4, 0, 9),
     (R0, 0, 1, 2, 3, 4, 10), (R0, 4, 0, 1, 2, 3, 11), (R0, 3, 4, 0, 1, 2, 12), (R0, 2, 3, 4, 0, 1, 13), (R0, 1, 2, 3, 4, 0, 14),
     (R0, 0, 1, 2, 3, 4, 15), (R1, 4, 0, 1, 2, 3, 0), (R1, 3, 4, 0, 1, 2, 1), (R1, 2, 3, 4, 0, 1, 2), (R1, 1, 2, 3, 4, 0, 3),
     (R2, 0, 1, 2, 3, 4, 4), (R2, 4, 0, 1, 2, 3, 5), (R2, 3, 4, 0, 1, 2, 6), (R2, 2, 3, 4, 0, 1, 7), (R2, 1, 2, 3, 4, 0, 8),
     (R2, 0, 1, 2, 3, 4, 9), (R2, 4, 0, 1, 2, 3, 10), (R2, 3, 4, 0, 1, 2, 11), (R2, 2, 3, 4, 0, 1, 12), (R2, 1, 2, 3, 4, 0, 13),
     (R2, 0, 1, 2, 3, 4, 14), (R2, 4, 0, 1, 2, 3, 15), (R2, 3, 4, 0, 1, 2, 0), (R2, 2, 3, 4, 0, 1, 1), (R2, 1, 2, 3, 4, 0, 2),
     (R2, 0, 1, 2, 3, 4, 3), (R2, 4, 0, 1, 2, 3, 4), (R2, 3, 4, 0, 1, 2, 5), (R2, 2, 3, 4, 0, 1, 6), (R2, 1, 2, 3, 4, 0, 7),
     (R3, 0, 1, 2, 3, 4, 8), (R3, 4, 0, 1, 2, 3, 9), (R3, 3, 4, 0, 1, 2, 10), (R3, 2, 3, 4, 0, 1, 11), (R3, 1, 2, 3, 4, 0, 12),
     (R3, 0, 1, 2, 3, 4, 13), (R3, 4, 0, 1, 2, 3, 14), (R3, 3, 4, 0, 1, 2, 15), (R3, 2, 3, 4, 0, 1, 0), (R3, 1, 2, 3, 4, 0, 1),
     (R3, 0, 1, 2, 3, 4, 2), (R3, 4, 0, 1, 2, 3, 3), (R3, 3, 4, 0, 1, 2, 4), (R3, 2, 3, 4, 0, 1, 5), (R3, 1, 2, 3, 4, 0, 6),
     (R3, 0, 1, 2, 3, 4, 7), (R3, 4, 0, 1, 2, 3, 8), (R3, 3, 4, 0, 1, 2, 9), (R3, 2, 3, 4, 0, 1, 10), (R3, 1, 2, 3, 4, 0, 11),
     (R4, 0, 1, 2, 3, 4, 12), (R4, 4, 0, 1, 2, 3, 13), (R4, 3, 4, 0, 1, 2, 14), (R4, 2, 3, 4, 0, 1, 15), (R4, 1, 2, 3, 4, 0, 0),
     (R4, 0, 1, 2, 3, 4, 1), (R4, 4, 0, 1, 2, 3, 2), (R4, 3, 4, 0, 1, 2, 3), (R4, 2, 3, 4, 0, 1, 4), (R4, 1, 2, 3, 4, 0, 5),
     (R4, 0, 1, 2, 3, 4, 6), (R4, 4, 0, 1, 2, 3, 7), (R4, 3, 4, 0, 1, 2, 8), (R4, 2, 3, 4, 0, 1, 9), (R4, 1, 2, 3, 4, 0, 10),
     (R4, 0, 1, 2, 3, 4, 11), (R4, 4, 0, 1, 2, 3, 12), (R4, 3, 4, 0, 1, 2, 13), (R4, 2, 3, 4, 0, 1, 14), (R4, 1, 2, 3, 4, 0, 15)]"

definition sha1_transform :: "u32 list \<Rightarrow> u32 list \<Rightarrow> u32 list \<times> u32 list" where
  "sha1_transform h w =
    (let (r, w') = fold sha1_step sha1_calls (h, w) in (map2 (+) h r, w'))"

function (sequential) sha1_blocks :: "u32 list \<Rightarrow> bytes \<Rightarrow> u32 list \<times> bytes" where
  "sha1_blocks h data =
    (if HASH_BLOCK \<le> length data
     then sha1_blocks (fst (sha1_transform h (load_block data))) (drop HASH_BLOCK data)
     else (h, data))"
  by pat_completeness auto
termination by (relation "measure (\<lambda>(h, data). length data)") (auto simp: HASH_BLOCK_def)

text \<open>The final buffer: the remaining bytes, 0x80, zeros, and the length in bits at the end.\<close>

definition final_pad :: "bytes \<Rightarrow> nat \<Rightarrow> bytes" where
  "final_pad rest len =
    (let remaining = length rest;
         total_pad = (if remaining < HASH_BLOCK - 8 then HASH_BLOCK else HASH_BLOCK * 2);
         pad = rest @ [0x80] @ replicate (total_pad - (remaining + 1)) 0;
         bits = (of_nat len :: u64) * 8
     in write_be32 (total_pad - 4) (ucast bits) (write_be32 (total_pad - 8) (ucast (drop_bit 32 bits)) pad))"

definition sha1_compute :: "u32 list \<Rightarrow> bytes \<Rightarrow> u32 list" where
  "sha1_compute h data =
    (let (h1, rest) = sha1_blocks h data;
         pad = final_pad rest (length data);
         h2 = fst (sha1_transform h1 (load_block pad))
     in if HASH_BLOCK < length pad then fst (sha1_transform h2 (load_block (drop HASH_BLOCK pad))) else h2)"

definition sha1_init :: "u32 list" where
  "sha1_init = [0x67452301, 0xefcdab89, 0x98badcfe, 0x10325476, 0xc3d2e1f0]"

definition sha1 :: "string \<Rightarrow> string" where
  "sha1 input = to_hex (sha1_compute sha1_init (bytes_of input))"

definition sha1_raw :: "string \<Rightarrow> bytes" where
  "sha1_raw input = to_bytes (sha1_compute sha1_init (bytes_of input))"

section \<open>SHA-256\<close>

definition K256 :: "u32 list" where
  "K256 =
    concat
     [[0x428a2f98, 0x71374491, 0xb5c0fbcf, 0xe9b5dba5],
      [0x3956c25b, 0x59f111f1, 0x923f82a4, 0xab1c5ed5],
      [0xd807aa98, 0x12835b01, 0x243185be, 0x550c7dc3],
      [0x72be5d74, 0x80deb1fe, 0x9bdc06a7, 0xc19bf174],
      [0xe49b69c1, 0xefbe4786, 0x0fc19dc6, 0x240ca1cc],
      [0x2de92c6f, 0x4a7484aa, 0x5cb0a9dc, 0x76f988da],
      [0x983e5152, 0xa831c66d, 0xb00327c8, 0xbf597fc7],
      [0xc6e00bf3, 0xd5a79147, 0x06ca6351, 0x14292967],
      [0x27b70a85, 0x2e1b2138, 0x4d2c6dfc, 0x53380d13],
      [0x650a7354, 0x766a0abb, 0x81c2c92e, 0x92722c85],
      [0xa2bfe8a1, 0xa81a664b, 0xc24b8b70, 0xc76c51a3],
      [0xd192e819, 0xd6990624, 0xf40e3585, 0x106aa070],
      [0x19a4c116, 0x1e376c08, 0x2748774c, 0x34b0bcb5],
      [0x391c0cb3, 0x4ed8aa4a, 0x5b9cca4f, 0x682e6ff3],
      [0x748f82ee, 0x78a5636f, 0x84c87814, 0x8cc70208],
      [0x90befffa, 0xa4506ceb, 0xbef9a3f7, 0xc67178f2]]"

definition ror :: "u32 \<Rightarrow> nat \<Rightarrow> u32" where
  "ror x n = drop_bit n x OR push_bit (32 - n) x"

definition sha_ch :: "u32 \<Rightarrow> u32 \<Rightarrow> u32 \<Rightarrow> u32" where
  "sha_ch x y z = (x AND y) XOR (NOT x AND z)"

definition sha_maj :: "u32 \<Rightarrow> u32 \<Rightarrow> u32 \<Rightarrow> u32" where
  "sha_maj x y z = (x AND y) XOR (x AND z) XOR (y AND z)"

definition sigma0 :: "u32 \<Rightarrow> u32" where "sigma0 x = ror x 2 XOR ror x 13 XOR ror x 22"
definition sigma1 :: "u32 \<Rightarrow> u32" where "sigma1 x = ror x 6 XOR ror x 11 XOR ror x 25"
definition gamma0 :: "u32 \<Rightarrow> u32" where "gamma0 x = ror x 7 XOR ror x 18 XOR drop_bit 3 x"
definition gamma1 :: "u32 \<Rightarrow> u32" where "gamma1 x = ror x 17 XOR ror x 19 XOR drop_bit 10 x"

definition sha256_schedule :: "u32 list \<Rightarrow> u32 list" where
  "sha256_schedule blk =
    fold (\<lambda>i w. w @ [gamma1 (w ! (i - 2)) + w ! (i - 7) + gamma0 (w ! (i - 15)) + w ! (i - 16)]) [16..<64] (take 16 blk)"

type_synonym sha256_regs = "u32 \<times> u32 \<times> u32 \<times> u32 \<times> u32 \<times> u32 \<times> u32 \<times> u32"

definition sha256_round :: "u32 list \<Rightarrow> nat \<Rightarrow> sha256_regs \<Rightarrow> sha256_regs" where
  "sha256_round w i = (\<lambda>(a, b, c, d, e, f, g, h).
    (let t1 = h + sigma1 e + sha_ch e f g + K256 ! i + w ! i;
         t2 = sigma0 a + sha_maj a b c
     in (t1 + t2, a, b, c, d + t1, e, f, g)))"

definition sha256_transform :: "u32 list \<Rightarrow> u32 list \<Rightarrow> u32 list" where
  "sha256_transform s blk =
    (let (a, b, c, d, e, f, g, h) = fold (sha256_round (sha256_schedule blk)) [0..<64]
           (s ! 0, s ! 1, s ! 2, s ! 3, s ! 4, s ! 5, s ! 6, s ! 7)
     in [s ! 0 + a, s ! 1 + b, s ! 2 + c, s ! 3 + d, s ! 4 + e, s ! 5 + f, s ! 6 + g, s ! 7 + h])"

function (sequential) sha256_blocks :: "u32 list \<Rightarrow> bytes \<Rightarrow> u32 list \<times> bytes" where
  "sha256_blocks s data =
    (if HASH_BLOCK \<le> length data
     then sha256_blocks (sha256_transform s (load_block data)) (drop HASH_BLOCK data)
     else (s, data))"
  by pat_completeness auto
termination by (relation "measure (\<lambda>(h, data). length data)") (auto simp: HASH_BLOCK_def)

definition sha256_compute :: "u32 list \<Rightarrow> bytes \<Rightarrow> u32 list" where
  "sha256_compute s data =
    (let (s1, rest) = sha256_blocks s data;
         pad = final_pad rest (length data);
         s2 = sha256_transform s1 (load_block pad)
     in if HASH_BLOCK < length pad then sha256_transform s2 (load_block (drop HASH_BLOCK pad)) else s2)"

definition sha256_init :: "u32 list" where
  "sha256_init = [0x6a09e667, 0xbb67ae85, 0x3c6ef372, 0xa54ff53a, 0x510e527f, 0x9b05688c, 0x1f83d9ab, 0x5be0cd19]"

definition sha256 :: "string \<Rightarrow> string" where
  "sha256 input = to_hex (sha256_compute sha256_init (bytes_of input))"

definition sha256_raw :: "bytes \<Rightarrow> bytes" where
  "sha256_raw data = to_bytes (sha256_compute sha256_init data)"

definition sha256_raw_str :: "string \<Rightarrow> bytes" where
  "sha256_raw_str input = sha256_raw (bytes_of input)"

section \<open>HMAC and PBKDF2\<close>

definition hmac_key :: "bytes \<Rightarrow> bytes" where
  "hmac_key key =
    (if HASH_BLOCK < length key then sha256_raw key @ replicate (HASH_BLOCK - length (sha256_raw key)) 0
     else key @ replicate (HASH_BLOCK - length key) 0)"

definition hmac_sha256 :: "bytes \<Rightarrow> bytes \<Rightarrow> bytes" where
  "hmac_sha256 key message =
    (let padded_key = hmac_key key;
         i_key_pad = map (\<lambda>b. b XOR 0x36) padded_key;
         o_key_pad = map (\<lambda>b. b XOR 0x5c) padded_key;
         inner_hash = sha256_raw (i_key_pad @ message)
     in sha256_raw (o_key_pad @ inner_hash))"

definition hmac_sha256_hex :: "string \<Rightarrow> string \<Rightarrow> string" where
  "hmac_sha256_hex key message =
    (let digest = hmac_sha256 (bytes_of key) (bytes_of message)
     in to_hex (map (\<lambda>i. read_be32 (drop (4 * i) digest)) [0..<8]))"

definition hmac_sha256_str :: "bytes \<Rightarrow> string \<Rightarrow> bytes" where
  "hmac_sha256_str key message = hmac_sha256 key (bytes_of message)"

text \<open>
  The inner loop runs while \<open>i < iterations\<close> from 1, so a non-positive count does what 1 does;
  \<open>resize\<close> truncates, since the blocks are at least \<open>output_len\<close> bytes.
\<close>

definition pbkdf2_iterate :: "bytes \<Rightarrow> nat \<Rightarrow> bytes \<times> bytes \<Rightarrow> bytes \<times> bytes" where
  "pbkdf2_iterate password i = (\<lambda>(u, result).
    (let u' = hmac_sha256 password u in (u', map2 (XOR) result u')))"

definition pbkdf2_block :: "bytes \<Rightarrow> bytes \<Rightarrow> int \<Rightarrow> nat \<Rightarrow> bytes" where
  "pbkdf2_block password salt iterations block =
    (let u = hmac_sha256 password (salt @ be32 (of_nat block))
     in snd (fold (pbkdf2_iterate password) [1..<nat iterations] (u, u)))"

definition pbkdf2_sha256 :: "bytes \<Rightarrow> bytes \<Rightarrow> int \<Rightarrow> nat \<Rightarrow> bytes" where
  "pbkdf2_sha256 password salt iterations output_len =
    (let blocks_needed = (output_len + 32 - 1) div 32;
         out = concat (map (pbkdf2_block password salt iterations) [1..<blocks_needed + 1])
     in take output_len out @ replicate (output_len - length out) 0)"

definition hex_nibble :: "char \<Rightarrow> u32" where
  "hex_nibble c =
    (if c_isdigit c then of_nat (char_code c - 48)
     else if 97 \<le> char_code c \<and> char_code c \<le> 102 then of_nat (char_code c - 97 + 10)
     else if 65 \<le> char_code c \<and> char_code c \<le> 70 then of_nat (char_code c - 65 + 10)
     else 0)"

fun hex_salt_bytes :: "string \<Rightarrow> bytes" where
  "hex_salt_bytes (c # d # s) =
    ucast (push_bit 4 (push_bit 4 0 OR hex_nibble c) OR hex_nibble d) # hex_salt_bytes s"
| "hex_salt_bytes _ = []"

definition pbkdf2_sha256_hex :: "string \<Rightarrow> string \<Rightarrow> int \<Rightarrow> string" where
  "pbkdf2_sha256_hex password hex_salt iterations =
    bytes_hex (pbkdf2_sha256 (bytes_of password) (hex_salt_bytes hex_salt) iterations 32)"

section \<open>Random bytes and verification\<close>

definition randbytes :: "(nat \<Rightarrow> bytes) \<Rightarrow> nat \<Rightarrow> bytes" where
  "randbytes arc4random_buf count = arc4random_buf count"

definition randbytes_hex :: "(nat \<Rightarrow> bytes) \<Rightarrow> nat \<Rightarrow> string" where
  "randbytes_hex arc4random_buf count = bytes_hex (randbytes arc4random_buf count)"

definition constant_time_equal :: "string \<Rightarrow> string \<Rightarrow> bool" where
  "constant_time_equal a b =
    (if length a \<noteq> length b then False
     else fold (\<lambda>(x, y) result. result OR (x XOR y)) (zip (bytes_of a) (bytes_of b)) 0 = 0)"

definition verify_password :: "string \<Rightarrow> string \<Rightarrow> string \<Rightarrow> bool" where
  "verify_password password hex_salt stored_hash =
    (let computed = (if 32 \<le> length hex_salt then pbkdf2_sha256_hex password hex_salt 100000
                     else hmac_sha256_hex hex_salt password)
     in constant_time_equal computed stored_hash)"

end
