(* ===== verification/Crypto_Props.thy ===== *)
theory Crypto_Props
  imports Crypto
begin

text \<open>
  The hash functions against their standards: the unrolled SHA-1 with its circular buffer is
  the FIPS 180-4 round function over an eighty-word schedule; both drivers compress the blocks
  of the padded message; PBKDF2 is the RFC 8018 iteration; comparison and hex encoding are
  exact.
\<close>

declare sha1_blocks.simps [simp del] sha256_blocks.simps [simp del]

section \<open>SHA-1 as FIPS 180-4 states it\<close>

fun fips_W :: "u32 list \<Rightarrow> nat \<Rightarrow> u32" where
  "fips_W m t = (if t < 16 then m ! t
     else rol (fips_W m (t - 3) XOR fips_W m (t - 8) XOR fips_W m (t - 14) XOR fips_W m (t - 16)) 1)"

declare fips_W.simps [simp del]

definition fips_f :: "nat \<Rightarrow> u32 \<Rightarrow> u32 \<Rightarrow> u32 \<Rightarrow> u32" where
  "fips_f t x y z =
    (if t < 20 then (x AND y) XOR (NOT x AND z)
     else if 40 \<le> t \<and> t < 60 then (x AND y) XOR (x AND z) XOR (y AND z)
     else x XOR y XOR z)"

definition fips_K :: "nat \<Rightarrow> u32" where
  "fips_K t = (if t < 20 then 0x5a827999 else if t < 40 then 0x6ed9eba1 else if t < 60 then 0x8f1bbcdc else 0xca62c1d6)"

definition fips_round :: "u32 list \<Rightarrow> nat \<Rightarrow> u32 \<times> u32 \<times> u32 \<times> u32 \<times> u32 \<Rightarrow> u32 \<times> u32 \<times> u32 \<times> u32 \<times> u32" where
  "fips_round m t = (\<lambda>(a, b, c, d, e). (rol a 5 + fips_f t b c d + e + fips_K t + fips_W m t, a, rol b 30, c, d))"

definition fips_compress :: "u32 list \<Rightarrow> u32 list \<Rightarrow> u32 list" where
  "fips_compress h m =
    (let (a, b, c, d, e) = fold (fips_round m) [0..<80] (h ! 0, h ! 1, h ! 2, h ! 3, h ! 4)
     in [h ! 0 + a, h ! 1 + b, h ! 2 + c, h ! 3 + d, h ! 4 + e])"

section \<open>The unrolled calls\<close>

text \<open>The position of the register that plays the \<open>k\<close>-th part in step \<open>t\<close>.\<close>

definition role :: "nat \<Rightarrow> nat \<Rightarrow> nat" where
  "role t k = (k + 4 * t) mod 5"

definition kind :: "nat \<Rightarrow> sha1_round" where
  "kind t = (if t < 16 then R0 else if t < 20 then R1 else if t < 40 then R2 else if t < 60 then R3 else R4)"

definition call_at :: "nat \<Rightarrow> sha1_call" where
  "call_at t = (kind t, role t 0, role t 1, role t 2, role t 3, role t 4, t mod 16)"

lemma sha1_calls_eq: "sha1_calls = map call_at [0..<80]"
  by code_simp

lemma mix_f: "sha1_mix (kind t) a x y = fips_f t a x y"
proof -
  have "(a AND (x XOR y)) XOR y = (a AND x) XOR (NOT a AND y)"
    by (rule bit_word_eqI) (auto simp: bit_and_iff bit_xor_iff bit_not_iff)
  moreover have "((a OR x) AND y) OR (a AND x) = (a AND x) XOR (a AND y) XOR (x AND y)"
    by (rule bit_word_eqI) (auto simp: bit_and_iff bit_xor_iff bit_or_iff)
  ultimately show ?thesis by (simp add: kind_def fips_f_def)
qed

lemma const_K: "sha1_const (kind t) = fips_K t"
  by (simp add: kind_def fips_K_def)

definition regs_at :: "nat \<Rightarrow> u32 list \<Rightarrow> u32 \<times> u32 \<times> u32 \<times> u32 \<times> u32" where
  "regs_at t h = (h ! role t 0, h ! role t 1, h ! role t 2, h ! role t 3, h ! role t 4)"

definition buffer_at :: "u32 list \<Rightarrow> nat \<Rightarrow> u32 list \<Rightarrow> bool" where
  "buffer_at m t w \<longleftrightarrow> length w = 16 \<and> (\<forall>s. s < max t 16 \<longrightarrow> max t 16 \<le> s + 16 \<longrightarrow> w ! (s mod 16) = fips_W m s)"

lemma role_less [simp]: "role t k < 5"
  by (simp add: role_def)

lemma mod_window:
  fixes s t :: nat
  assumes "s \<le> t" and "t < s + n" and "s mod n = t mod n"
  shows "s = t"
proof -
  have "n dvd t - s" using assms(1,3) by (metis mod_eq_dvd_iff_nat)
  moreover have "t - s < n" using assms(1,2) by simp
  ultimately have "t - s = 0" by (metis nat_dvd_not_less neq0_conv)
  then show ?thesis using assms(1) by simp
qed

lemma role_eq: "j < 5 \<Longrightarrow> k < 5 \<Longrightarrow> role t j = role t k \<longleftrightarrow> j = k"
  using mod_window [of "j + 4 * t" "k + 4 * t" 5] mod_window [of "k + 4 * t" "j + 4 * t" 5]
  unfolding role_def by (cases "j \<le> k") auto

lemma role_Suc_Suc: "role (Suc t) (Suc k) = role t k"
proof -
  have "Suc k + 4 * Suc t = (k + 4 * t) + 5" by simp
  then show ?thesis unfolding role_def by (metis mod_add_self2)
qed

lemma role_Suc:
  "role (Suc t) 0 = role t 4" "role (Suc t) 1 = role t 0" "role (Suc t) 2 = role t 1"
  "role (Suc t) 3 = role t 2" "role (Suc t) 4 = role t 3"
proof -
  show "role (Suc t) 0 = role t 4" by (simp add: role_def)
  show "role (Suc t) 1 = role t 0" "role (Suc t) 2 = role t 1"
    "role (Suc t) 3 = role t 2" "role (Suc t) 4 = role t 3"
    using role_Suc_Suc [of t] by (simp_all add: numeral_eq_Suc)
qed

lemma mod16_ne: "s < t \<Longrightarrow> t < s + 16 \<Longrightarrow> s mod 16 \<noteq> (t :: nat) mod 16"
  using mod_window [of s t 16] by auto

lemma blk_W:
  assumes "buffer_at m t w" and "16 \<le> t"
  shows "sha1_blk w (t mod 16) = fips_W m t"
proof -
  obtain u where "t = 16 + u" using assms(2) by (metis le_Suc_ex)
  then have "(t mod 16 + 13) mod 16 = (t - 3) mod 16" "(t mod 16 + 8) mod 16 = (t - 8) mod 16"
    "(t mod 16 + 2) mod 16 = (t - 14) mod 16" "t mod 16 = (t - 16) mod 16"
    by (simp_all add: mod_simps add.commute)
  moreover have "w ! ((t - k) mod 16) = fips_W m (t - k)" if "0 < k" "k \<le> 16" for k
    using assms that by (simp add: buffer_at_def max_def)
  ultimately have "sha1_blk w (t mod 16) =
      rol (fips_W m (t - 3) XOR fips_W m (t - 8) XOR fips_W m (t - 14) XOR fips_W m (t - 16)) 1"
    unfolding sha1_blk_def by simp
  then show ?thesis using assms(2) by (subst fips_W.simps) simp
qed

definition word_step :: "nat \<Rightarrow> u32 list \<Rightarrow> u32 list" where
  "word_step t w = (if t < 16 then w else w[t mod 16 := sha1_blk w (t mod 16)])"

lemma word_step_W:
  assumes "buffer_at m t w"
  shows "word_step t w ! (t mod 16) = fips_W m t" and "buffer_at m (Suc t) (word_step t w)"
proof -
  have len: "length w = 16" using assms by (simp add: buffer_at_def)
  show "word_step t w ! (t mod 16) = fips_W m t"
  proof (cases "t < 16")
    case True
    then show ?thesis using assms by (simp add: word_step_def buffer_at_def max_def)
  next
    case False
    then show ?thesis using blk_W [OF assms] len by (simp add: word_step_def)
  qed
  show "buffer_at m (Suc t) (word_step t w)"
  proof (cases "t < 16")
    case True
    then show ?thesis using assms by (auto simp: word_step_def buffer_at_def max_def)
  next
    case False
    have ne: "s mod 16 \<noteq> t mod 16" if "s < t" "Suc t \<le> s + 16" for s
      using that by (intro mod16_ne) auto
    show ?thesis
      using assms False blk_W [OF assms] len ne
      by (auto simp: word_step_def buffer_at_def max_def nth_list_update less_Suc_eq) (metis ne)
  qed
qed

lemma sha1_step_fips:
  assumes "length h = 5" and "buffer_at m t w"
  shows "\<exists>h'. sha1_step (call_at t) (h, w) = (h', word_step t w) \<and> length h' = 5 \<and>
    regs_at (Suc t) h' = fips_round m t (regs_at t h)"
proof -
  let ?w = "word_step t w"
  have w1: "(if kind t = R0 then w else w[t mod 16 := sha1_blk w (t mod 16)]) = ?w"
    by (simp add: kind_def word_step_def)
  let ?h1 = "h[role t 4 := h ! role t 4 + (sha1_mix (kind t) (h ! role t 1) (h ! role t 2) (h ! role t 3) +
    ?w ! (t mod 16) + sha1_const (kind t) + rol (h ! role t 0) 5)]"
  let ?h2 = "?h1[role t 1 := rol (?h1 ! role t 1) 30]"
  have st: "sha1_step (call_at t) (h, w) = (?h2, ?w)"
    by (simp add: call_at_def w1 Let_def)
  have "regs_at (Suc t) ?h2 = fips_round m t (regs_at t h)"
    using assms(1) word_step_W(1) [OF assms(2)]
    by (simp add: regs_at_def role_Suc [simplified] role_eq fips_round_def mix_f const_K add_ac)
  then show ?thesis using st assms(1) by simp
qed

lemma sha1_fold_fips:
  assumes "length h = 5" and "length m = 16"
  shows "\<exists>h' w'. fold sha1_step (map call_at [0..<n]) (h, m) = (h', w') \<and> length h' = 5 \<and> buffer_at m n w' \<and>
    regs_at n h' = fold (fips_round m) [0..<n] (regs_at 0 h)"
proof (induction n)
  case 0
  have "buffer_at m 0 m" using assms by (simp add: buffer_at_def fips_W.simps)
  then show ?case using assms by simp
next
  case (Suc n)
  then obtain h' w' where h: "fold sha1_step (map call_at [0..<n]) (h, m) = (h', w')" "length h' = 5"
    "buffer_at m n w'" "regs_at n h' = fold (fips_round m) [0..<n] (regs_at 0 h)" by blast
  then show ?case using sha1_step_fips [OF h(2,3)] word_step_W(2) [OF h(3)] by auto
qed

lemma sha1_transform_fips:
  assumes "length h = 5" and "length m = 16"
  shows "fst (sha1_transform h m) = fips_compress h m"
proof -
  obtain h' w' where f: "fold sha1_step sha1_calls (h, m) = (h', w')" "length h' = 5"
    "regs_at 80 h' = fold (fips_round m) [0..<80] (regs_at 0 h)"
    using sha1_fold_fips [OF assms, of 80] unfolding sha1_calls_eq by blast
  have r: "regs_at 80 h' = (h' ! 0, h' ! 1, h' ! 2, h' ! 3, h' ! 4)"
    "regs_at 0 h = (h ! 0, h ! 1, h ! 2, h ! 3, h ! 4)"
    by (simp_all add: regs_at_def role_def)
  have "map2 (+) h h' = [h ! 0 + h' ! 0, h ! 1 + h' ! 1, h ! 2 + h' ! 2, h ! 3 + h' ! 3, h ! 4 + h' ! 4]"
    using assms(1) f(2) by (intro nth_equalityI) (auto simp: less_Suc_eq numeral_eq_Suc)
  then show ?thesis using f r by (auto simp: sha1_transform_def fips_compress_def split: prod.splits)
qed


section \<open>The padded message\<close>

definition be64 :: "u64 \<Rightarrow> bytes" where
  "be64 v = be32 (ucast (drop_bit 32 v)) @ be32 (ucast v)"

definition md_pad :: "bytes \<Rightarrow> bytes" where
  "md_pad data = data @ [0x80] @ replicate ((119 - length data mod 64) mod 64) 0 @ be64 (of_nat (length data) * 8)"

function (sequential) chunk64 :: "bytes \<Rightarrow> bytes list" where
  "chunk64 xs = (if 64 \<le> length xs then take 64 xs # chunk64 (drop 64 xs) else [])"
  by pat_completeness auto
termination by (relation "measure length") auto

declare chunk64.simps [simp del]

lemma length_be32 [simp]: "length (be32 v) = 4"
  by (simp add: be32_def)

lemma length_be64 [simp]: "length (be64 v) = 8"
  by (simp add: be64_def)

text \<open>The zeros fill the last block.\<close>

lemma pad_zeros: "r < 64 \<Longrightarrow> (119 - r) mod 64 = (if r < 56 then 55 - r else 119 - (r :: nat))"
proof -
  assume "r < 64"
  moreover have "119 - r = 64 + (55 - r)" if "r < 56" using that by simp
  ultimately show ?thesis by (cases "r < 56") (simp_all only: mod_add_self1 if_True if_False, simp_all)
qed

lemma pad_total: "r < 64 \<Longrightarrow> r + 9 + (119 - r) mod 64 = (if r < 56 then 64 else (128 :: nat))"
  by (simp add: pad_zeros)

lemma length_md_pad: "length (md_pad data) mod 64 = 0"
proof -
  let ?r = "length data mod 64" and ?q = "length data div 64"
  have "length (md_pad data) = 64 * ?q + (?r + 9 + (119 - ?r) mod 64)"
    using mult_div_mod_eq [of 64 "length data"] by (simp add: md_pad_def)
  also have "\<dots> = 64 * (?q + (if ?r < 56 then 1 else 2))"
    by (subst pad_total) simp_all
  finally show ?thesis by simp
qed

lemma load_block_take: "64 \<le> length xs \<Longrightarrow> load_block (take 64 xs) = load_block xs"
  by (auto simp: load_block_def read_be32_def)

lemma length_load_block [simp]: "length (load_block xs) = 16"
  by (simp add: load_block_def)

lemma chunk64_append: "length xs mod 64 = 0 \<Longrightarrow> chunk64 (xs @ ys) = chunk64 xs @ chunk64 ys"
proof (induction xs rule: chunk64.induct)
  case (1 xs)
  show ?case
  proof (cases "64 \<le> length xs")
    case True
    then show ?thesis
      using 1 by (subst (1 2) chunk64.simps) (simp add: le_mod_geq)
  next
    case False
    then have "xs = []" using "1.prems" by simp
    then show ?thesis by (simp add: chunk64.simps [of "[]"])
  qed
qed

lemma chunk64_one: "length xs = 64 \<Longrightarrow> chunk64 xs = [xs]"
  by (simp add: chunk64.simps [of xs] chunk64.simps [of "[]"])

lemma chunk64_two: "length xs = 128 \<Longrightarrow> chunk64 xs = [take 64 xs, drop 64 xs]"
  using chunk64_one [of "drop 64 xs"] by (simp add: chunk64.simps [of xs])

lemma final_pad_eq:
  assumes "length rest = n mod 64"
  shows "final_pad rest n = rest @ [0x80] @ replicate ((119 - n mod 64) mod 64) 0 @ be64 (of_nat n * 8)"
proof -
  have w: "write_be32 (length xs) v (xs @ a # b # c # d # ys) = xs @ be32 v @ ys" for xs v a b c d ys
    by (simp add: write_be32_def)
  have fin: "write_be32 (length xs + 4) u (write_be32 (length xs) v (xs @ replicate 8 0)) = xs @ be32 v @ be32 u"
    for xs u v
    using w [of xs v 0 0 0 0 "[0, 0, 0, 0]"] w [of "xs @ be32 v" u 0 0 0 0 "[]"]
    by (simp add: numeral_eq_Suc)
  have main: "final_pad rest n = rest @ [0x80] @ replicate z 0 @ be64 (of_nat n * 8)"
    if t: "(if length rest < HASH_BLOCK - 8 then HASH_BLOCK else HASH_BLOCK * 2) = length rest + 9 + z" for z
  proof -
    have "replicate (length rest + 9 + z - (length rest + 1)) 0 = replicate z 0 @ replicate 8 (0 :: u8)"
      by (simp flip: replicate_add add: add.commute)
    then show ?thesis
      using fin [of "rest @ [0x80] @ replicate z 0"]
      unfolding final_pad_def Let_def t be64_def by (simp add: add_ac)
  qed
  have "n mod 64 < 64" by simp
  then show ?thesis
    using main [of "(119 - n mod 64) mod 64"] assms by (simp add: HASH_BLOCK_def pad_zeros)
qed

text \<open>The driver both hash functions share: full blocks from the input, then the final buffer.\<close>

locale block_driver =
  fixes step :: "u32 list \<Rightarrow> u32 list \<Rightarrow> u32 list"
    and blocks :: "u32 list \<Rightarrow> bytes \<Rightarrow> u32 list \<times> bytes"
    and compute :: "u32 list \<Rightarrow> bytes \<Rightarrow> u32 list"
  assumes blocks_full: "64 \<le> length data \<Longrightarrow> blocks h data = blocks (step h (load_block data)) (drop 64 data)"
    and blocks_rest: "length data < 64 \<Longrightarrow> blocks h data = (h, data)"
    and compute_blocks: "blocks h data = (h1, rest) \<Longrightarrow> compute h data =
      (let pad = final_pad rest (length data); h2 = step h1 (load_block pad)
       in if 64 < length pad then step h2 (load_block (drop 64 pad)) else h2)"
begin

definition compress :: "u32 list \<Rightarrow> bytes list \<Rightarrow> u32 list" where
  "compress h bs = foldl (\<lambda>h b. step h (load_block b)) h bs"

lemma blocks_eq: "blocks h data = (compress h (chunk64 data), drop (64 * (length data div 64)) data)"
proof (induction data arbitrary: h rule: chunk64.induct)
  case (1 data)
  show ?case
  proof (cases "64 \<le> length data")
    case True
    then show ?thesis
      using 1 [OF True] by (simp add: blocks_full compress_def chunk64.simps [of data] load_block_take le_div_geq add.commute)
  qed (simp add: blocks_rest compress_def chunk64.simps [of data])
qed

lemma compute_padded: "compute h data = compress h (chunk64 (md_pad data))"
proof -
  let ?n = "length data" and ?k = "64 * (length data div 64)"
  let ?rest = "drop ?k data"
  let ?pad = "final_pad ?rest ?n"
  have k: "?k \<le> ?n" by simp
  have r: "length ?rest = ?n mod 64" by (simp add: minus_mult_div_eq_mod)
  have tk: "length (take ?k data) mod 64 = 0" using k by (simp add: min_absorb2)
  have pad: "md_pad data = take ?k data @ ?pad"
    by (simp add: final_pad_eq [OF r] md_pad_def flip: append_assoc)
  have "chunk64 (take ?k data) = chunk64 data"
  proof -
    have "chunk64 ?rest = []" using r by (subst chunk64.simps) simp
    then show ?thesis using chunk64_append [OF tk, of ?rest] by simp
  qed
  then have c: "chunk64 (md_pad data) = chunk64 data @ chunk64 ?pad"
    unfolding pad chunk64_append [OF tk] by simp
  have "length ?pad = ?n mod 64 + 9 + (119 - ?n mod 64) mod 64"
    using r by (simp add: final_pad_eq [OF r])
  then have lp: "length ?pad = 64 \<or> length ?pad = 128"
    by (simp add: pad_total split: if_splits)
  have "compute h data = compress (compress h (chunk64 data)) (chunk64 ?pad)"
  proof (cases "length ?pad = 64")
    case True
    then show ?thesis using True chunk64_one [OF True] compute_blocks [OF blocks_eq] by (simp add: compress_def Let_def)
  next
    case False
    then have "length ?pad = 128" using lp by simp
    then show ?thesis
      using chunk64_two [of ?pad] compute_blocks [OF blocks_eq] by (simp add: compress_def Let_def load_block_take)
  qed
  then show ?thesis unfolding c by (simp add: compress_def)
qed

end

interpretation sha1_driver: block_driver "\<lambda>h w. fst (sha1_transform h w)" sha1_blocks sha1_compute
proof
  show "64 \<le> length data \<Longrightarrow> sha1_blocks h data = sha1_blocks (fst (sha1_transform h (load_block data))) (drop 64 data)"
    for h data by (subst sha1_blocks.simps) (simp add: HASH_BLOCK_def)
  show "length data < 64 \<Longrightarrow> sha1_blocks h data = (h, data)" for h data
    by (subst sha1_blocks.simps) (simp add: HASH_BLOCK_def)
qed (simp add: sha1_compute_def HASH_BLOCK_def Let_def)

interpretation sha256_driver: block_driver sha256_transform sha256_blocks sha256_compute
proof
  show "64 \<le> length data \<Longrightarrow> sha256_blocks h data = sha256_blocks (sha256_transform h (load_block data)) (drop 64 data)"
    for h data by (subst sha256_blocks.simps) (simp add: HASH_BLOCK_def)
  show "length data < 64 \<Longrightarrow> sha256_blocks h data = (h, data)" for h data
    by (subst sha256_blocks.simps) (simp add: HASH_BLOCK_def)
qed (simp add: sha256_compute_def HASH_BLOCK_def Let_def)


section \<open>Words, bytes and hexadecimal\<close>

lemma read_be32_be32: "read_be32 (be32 v @ xs) = v"
proof (rule bit_word_eqI)
  fix n assume n: "n < LENGTH(32)"
  then consider "n < 8" | "8 \<le> n" "n < 16" | "16 \<le> n" "n < 24" | "24 \<le> n" "n < 32" by fastforce
  then show "bit (read_be32 (be32 v @ xs)) n = bit v n"
  proof cases
    case 2
    then have "n - 8 < 8" by simp
    then show ?thesis using 2
      by (simp add: read_be32_def be32_def bit_or_iff bit_push_bit_iff bit_ucast_iff bit_drop_bit_eq)
  next
    case 3
    then have "n - 16 < 8" "\<not> n - 8 < 8" by simp_all
    then show ?thesis using 3
      by (simp add: read_be32_def be32_def bit_or_iff bit_push_bit_iff bit_ucast_iff bit_drop_bit_eq)
  next
    case 4
    then have "n - 24 < 8" "\<not> n - 16 < 8" "\<not> n - 8 < 8" by simp_all
    then show ?thesis using 4
      by (simp add: read_be32_def be32_def bit_or_iff bit_push_bit_iff bit_ucast_iff bit_drop_bit_eq)
  qed (simp add: read_be32_def be32_def bit_or_iff bit_push_bit_iff bit_ucast_iff bit_drop_bit_eq)
qed

lemma be32_inj: "be32 v = be32 w \<Longrightarrow> v = w"
  using read_be32_be32 [of v "[]"] read_be32_be32 [of w "[]"] by simp

lemma be64_inj: "be64 v = be64 w \<Longrightarrow> v = w"
proof -
  assume "be64 v = be64 w"
  then have e: "(ucast (drop_bit 32 v) :: u32) = ucast (drop_bit 32 w)" "(ucast v :: u32) = ucast w"
    unfolding be64_def by (auto dest!: be32_inj)
  show "v = w"
  proof (rule bit_word_eqI)
    fix n assume n: "n < LENGTH(64)"
    show "bit v n = bit w n"
    proof (cases "n < 32")
      case True
      then show ?thesis using arg_cong [OF e(2), of "\<lambda>x. bit x n"] by (simp add: bit_ucast_iff)
    next
      case False
      then have "n - 32 < 32" using n by simp
      then show ?thesis
        using False arg_cong [OF e(1), of "\<lambda>x. bit x (n - 32)"] by (simp add: bit_ucast_iff bit_drop_bit_eq)
    qed
  qed
qed

text \<open>Messages below two to the 61 bytes are determined by their padding.\<close>

lemma md_pad_inj:
  assumes "md_pad a = md_pad b" and "length a < 2 ^ 61" and "length b < 2 ^ 61"
  shows "a = b"
proof -
  have suf: "drop (length (md_pad x) - 8) (md_pad x) = be64 (of_nat (length x) * 8)" for x
    by (simp add: md_pad_def)
  have "(of_nat (length a) :: u64) * 8 = of_nat (length b) * 8"
    using suf [of a] suf [of b] assms(1) by (intro be64_inj) simp
  then have "(of_nat (length a * 8) :: u64) = of_nat (length b * 8)" by simp
  then have "length a * 8 = length b * 8"
    using assms(2,3) by (simp only: word_of_nat_eq_iff) (simp add: take_bit_nat_eq_self)
  then have "length a = length b" by simp
  moreover have "take (length x) (md_pad x) = x" for x by (simp add: md_pad_def)
  ultimately show ?thesis using assms(1) by metis
qed

lemma length_hex_pad [simp]: "length (hex_pad k n) = k"
  by (induction k arbitrary: n) auto

lemma hex_digit_inj: "m < 16 \<Longrightarrow> n < 16 \<Longrightarrow> hex_digit m = hex_digit n \<Longrightarrow> m = n"
proof -
  assume a: "m < 16" "n < 16" "hex_digit m = hex_digit n"
  have c: "char_code (hex_digit k) = (if k < 10 then 48 + k else 87 + k)" if "k < 16" for k
    using that by (simp add: hex_digit_def char_code_char_of)
  have "(if m < 10 then 48 + m else 87 + m) = (if n < 10 then 48 + n else 87 + n)"
    using arg_cong [OF a(3), of char_code] unfolding c [OF a(1)] c [OF a(2)] .
  then show "m = n" by (simp split: if_splits)
qed

lemma hex_pad_inj: "m < 16 ^ k \<Longrightarrow> n < 16 ^ k \<Longrightarrow> hex_pad k m = hex_pad k n \<Longrightarrow> m = n"
proof (induction k arbitrary: m n)
  case (Suc k)
  have "m div 16 < 16 ^ k" "n div 16 < 16 ^ k"
    using Suc.prems(1,2) by (simp_all add: less_mult_imp_div_less mult.commute)
  then have "m div 16 = n div 16" using Suc.IH Suc.prems(3) by simp
  moreover have "m mod 16 = n mod 16"
    by (rule hex_digit_inj) (use Suc.prems(3) in simp_all)
  ultimately show ?case by (metis div_mult_mod_eq)
qed simp

lemma length_to_hex: "length (to_hex ws) = 8 * length ws"
  by (induction ws) (simp_all add: to_hex_def)

lemma to_hex_inj: "length ws = length vs \<Longrightarrow> to_hex ws = to_hex vs \<Longrightarrow> ws = vs"
proof (induction ws vs rule: list_induct2)
  case (Cons w ws v vs)
  have "hex_pad 8 (unat w) @ to_hex ws = hex_pad 8 (unat v) @ to_hex vs"
    using Cons.prems by (simp only: to_hex_def list.map concat.simps)
  then have h: "hex_pad 8 (unat w) = hex_pad 8 (unat v)" "to_hex ws = to_hex vs"
    by (simp_all only: append_eq_append_conv [OF disjI1 [OF trans [OF length_hex_pad length_hex_pad [symmetric]]]])
  have b: "unat x < 16 ^ 8" for x :: u32 using unsigned_less [of x, where 'a = nat] by simp
  have "w = v" using hex_pad_inj [OF b b h(1)] by (rule unsigned_word_eqI)
  then show ?case using Cons.IH [OF h(2)] by simp
qed simp

lemma length_bytes_hex: "length (bytes_hex bs) = 2 * length bs"
  by (induction bs) (simp_all add: bytes_hex_def)

lemma length_to_bytes [simp]: "length (to_bytes ws) = 4 * length ws"
  by (induction ws) (simp_all add: to_bytes_def)

lemma to_bytes_inj: "length ws = length vs \<Longrightarrow> to_bytes ws = to_bytes vs \<Longrightarrow> ws = vs"
  by (induction ws vs rule: list_induct2) (auto simp: to_bytes_def dest: be32_inj)

lemma words_of_to_bytes: "map (\<lambda>i. read_be32 (drop (4 * i) (to_bytes ws))) [0..<length ws] = ws"
proof (induction ws)
  case (Cons w ws)
  have "map (\<lambda>i. read_be32 (drop (4 * i) (to_bytes (w # ws)))) [0..<length (w # ws)] =
      read_be32 (to_bytes (w # ws)) # map (\<lambda>i. read_be32 (drop (4 * Suc i) (to_bytes (w # ws)))) [0..<length ws]"
    by (simp add: upt_conv_Cons map_Suc_upt [symmetric] comp_def del: upt_Suc)
  also have "\<dots> = w # ws"
    using Cons.IH by (simp add: to_bytes_def read_be32_be32)
  finally show ?case .
qed simp

section \<open>Sizes of digests\<close>

lemma length_sha256_transform [simp]: "length (sha256_transform s b) = 8"
  by (simp add: sha256_transform_def split: prod.splits)

lemma length_sha256_compute: "length (sha256_compute s data) = 8"
  by (simp add: sha256_compute_def Let_def split: prod.splits)

lemma length_sha256_raw [simp]: "length (sha256_raw data) = 32"
  by (simp add: sha256_raw_def length_sha256_compute)

lemma length_hmac [simp]: "length (hmac_sha256 k m) = 32"
  by (simp add: hmac_sha256_def Let_def)

section \<open>Comparison\<close>

lemma bytes_of_inj: "bytes_of a = bytes_of b \<longleftrightarrow> a = b"
proof -
  have "inj (\<lambda>c. of_nat (char_code c) :: u8)"
  proof (rule injI)
    fix c d assume "(of_nat (char_code c) :: u8) = of_nat (char_code d)"
    then have "char_code c = char_code d"
      using char_code_less_256 by (simp add: word_of_nat_eq_iff take_bit_nat_eq_self)
    then show "c = d" by (simp add: char_code_def)
  qed
  then show ?thesis by (simp add: bytes_of_def inj_map_eq_map)
qed

lemma or_fold_zero:
  fixes r :: u8
  shows "length xs = length ys \<Longrightarrow> fold (\<lambda>(x, y) r. r OR (x XOR y)) (zip xs ys) r = 0 \<longleftrightarrow> r = 0 \<and> xs = ys"
proof (induction xs ys arbitrary: r rule: list_induct2)
  case (Cons x xs y ys)
  have "r OR (x XOR y) = 0 \<longleftrightarrow> r = 0 \<and> x = y"
    by (metis bit.disj_zero_right bit.xor_self or_eq_0_iff xor_self_eq bit.xor_left_self xor.right_neutral)
  then show ?case using Cons by auto
qed simp

lemma constant_time_equal_iff: "constant_time_equal a b \<longleftrightarrow> a = b"
proof (cases "length a = length b")
  case True
  then have "length (bytes_of a) = length (bytes_of b)" by (simp add: bytes_of_def)
  then show ?thesis using True or_fold_zero [of "bytes_of a" "bytes_of b" 0]
    by (simp add: constant_time_equal_def bytes_of_inj)
qed (auto simp: constant_time_equal_def)

section \<open>PBKDF2\<close>

lemma pbkdf2_iterates:
  "fold (pbkdf2_iterate p) [1..<Suc n] (u, u) =
    ((hmac_sha256 p ^^ n) u, fold (\<lambda>j r. map2 (XOR) r ((hmac_sha256 p ^^ j) u)) [1..<Suc n] u)"
  by (induction n) (simp_all add: pbkdf2_iterate_def Let_def)

lemma pbkdf2_block_rfc:
  "pbkdf2_block p s c i =
    (let u = hmac_sha256 p (s @ be32 (of_nat i))
     in fold (\<lambda>j r. map2 (XOR) r ((hmac_sha256 p ^^ j) u)) [1..<nat c] u)"
  using pbkdf2_iterates [of p "nat c - 1"]
  by (cases "nat c") (simp_all add: pbkdf2_block_def Let_def)

lemma length_xor_fold: "length u = n \<Longrightarrow> \<forall>j. length (f j) = n \<Longrightarrow> length (fold (\<lambda>j r. map2 (XOR) r (f j)) js u) = n"
  by (induction js arbitrary: u) auto

lemma length_pbkdf2_block [simp]: "length (pbkdf2_block p s c i) = 32"
proof -
  have "length ((hmac_sha256 p ^^ j) (hmac_sha256 p m)) = 32" for j m by (cases j) simp_all
  then show ?thesis unfolding pbkdf2_block_rfc Let_def by (intro length_xor_fold) auto
qed

lemma length_pbkdf2_blocks: "length (concat (map (pbkdf2_block p s c) is)) = 32 * length is"
  by (induction "is") simp_all

lemma pbkdf2_count: "(n + 32 - 1) div 32 = (n + 31) div (32 :: nat)"
  by simp

lemma pbkdf2_enough: "(n :: nat) \<le> 32 * ((n + 31) div 32)"
  by presburger

section \<open>Properties\<close>

text \<open>
  C29: The SHA-1 of a string is the FIPS 180-4 digest: the unrolled eighty rounds over the
  circular sixteen-word buffer compute the standard's compression function, applied in order to
  the 64-byte blocks of the padded message, and printed in hexadecimal.
\<close>

theorem sha1_is_fips_180_4:
  "sha1 input = to_hex (foldl (\<lambda>h b. fips_compress h (load_block b)) sha1_init (chunk64 (md_pad (bytes_of input))))"
proof -
  have len: "length (fips_compress h m) = 5" for h m by (simp add: fips_compress_def split: prod.splits)
  have "length h = 5 \<Longrightarrow> foldl (\<lambda>h b. fst (sha1_transform h (load_block b))) h bs =
      foldl (\<lambda>h b. fips_compress h (load_block b)) h bs" for h bs
    by (induction bs arbitrary: h) (simp_all add: sha1_transform_fips len)
  then show ?thesis
    by (simp add: sha1_def sha1_driver.compute_padded sha1_driver.compress_def sha1_init_def)
qed

text \<open>
  The SHA-256 of a string is the iterated compression of the blocks of the padded message,
  printed as 64 hexadecimal characters; the padding is a multiple of 64 bytes and injective on
  messages below two to the 61 bytes; two printed digests are equal only when the raw digests are.
\<close>

theorem sha256_padding_and_encoding:
  "sha256 input = to_hex (foldl (\<lambda>h b. sha256_transform h (load_block b)) sha256_init (chunk64 (md_pad (bytes_of input)))) \<and>
   length (sha256 input) = 64 \<and> length (md_pad m) mod 64 = 0 \<and>
   (length m < 2 ^ 61 \<longrightarrow> length m' < 2 ^ 61 \<longrightarrow> md_pad m = md_pad m' \<longrightarrow> m = m') \<and>
   (sha256 input = sha256 input' \<longleftrightarrow> sha256_raw_str input = sha256_raw_str input')"
proof -
  have "sha256 input = sha256 input' \<longleftrightarrow> sha256_raw_str input = sha256_raw_str input'"
    using to_hex_inj to_bytes_inj length_sha256_compute
    unfolding sha256_def sha256_raw_str_def sha256_raw_def by metis
  then show ?thesis
    using md_pad_inj [of m m']
    by (simp add: sha256_def sha256_driver.compute_padded sha256_driver.compress_def length_md_pad)
      (simp add: length_to_hex flip: sha256_driver.compress_def sha256_driver.compute_padded add: length_sha256_compute)
qed

theorem sha256_padding_and_encoding_witness:
  "md_pad [1] \<noteq> md_pad [2]"
proof
  assume a: "md_pad [1] = md_pad [2]"
  have "length [1 :: u8] < 2 ^ 61" "length [2 :: u8] < 2 ^ 61" by simp_all
  then have "[1 :: u8] = [2]"
    using sha256_padding_and_encoding [of "[]" "[1]" "[2]" "[]"] a by blast
  then show False by simp
qed

text \<open>
  The constant-time comparison is equality, so a password is accepted exactly when the
  stored string is the PBKDF2 encoding (for a salt of at least 32 characters) or the HMAC
  encoding (for a shorter salt) of that password.
\<close>

theorem verify_password_exact:
  "(constant_time_equal a b \<longleftrightarrow> a = b) \<and>
   (verify_password password salt stored \<longleftrightarrow>
      stored = (if length salt < 32 then hmac_sha256_hex salt password else pbkdf2_sha256_hex password salt 100000))"
  by (auto simp: constant_time_equal_iff verify_password_def Let_def)

text \<open>
  PBKDF2 returns exactly the requested number of bytes, a prefix of the RFC 8018 blocks,
  each the exclusive or of the iterated HMACs; the hexadecimal form of the default length has
  64 characters, and that of an HMAC is the hexadecimal form of its digest's words.
\<close>

theorem pbkdf2_is_rfc_8018:
  "pbkdf2_sha256 p s c n = take n (concat (map (\<lambda>i.
      let u = hmac_sha256 p (s @ be32 (of_nat i))
      in fold (\<lambda>j r. map2 (XOR) r ((hmac_sha256 p ^^ j) u)) [1..<nat c] u) [1..<(n + 31) div 32 + 1])) \<and>
   length (pbkdf2_sha256 p s c n) = n \<and> length (pbkdf2_sha256_hex pw salt c) = 64 \<and>
   to_bytes (map (\<lambda>i. read_be32 (drop (4 * i) (hmac_sha256 p s))) [0..<8]) = hmac_sha256 p s"
proof -
  let ?bs = "concat (map (pbkdf2_block p s c) [1..<(n + 31) div 32 + 1])"
  have l: "length (concat (map (pbkdf2_block p' s' c) [1..<(m + 31) div 32 + 1])) \<ge> m" for p' s' m
    unfolding length_pbkdf2_blocks using pbkdf2_enough [of m] by simp
  have e: "pbkdf2_sha256 p' s' c m = take m (concat (map (pbkdf2_block p' s' c) [1..<(m + 31) div 32 + 1]))" for p' s' m
    unfolding pbkdf2_sha256_def Let_def pbkdf2_count
    by (simp only: diff_is_0_eq' [OF l] replicate_0 append_Nil2)
  have len: "length (pbkdf2_sha256 p' s' c m) = m" for p' s' m
    unfolding e using l [of m p' s'] by (simp add: min_absorb2)
  have "to_bytes (map (\<lambda>i. read_be32 (drop (4 * i) (hmac_sha256 p s))) [0..<8]) = hmac_sha256 p s"
  proof -
    obtain ws where ws: "hmac_sha256 p s = to_bytes ws" "length ws = 8"
      by (metis hmac_sha256_def sha256_raw_def length_sha256_compute)
    then show ?thesis using words_of_to_bytes [of ws] by simp
  qed
  then show ?thesis
    using len unfolding e pbkdf2_block_rfc [abs_def]
    by (simp add: pbkdf2_sha256_hex_def length_bytes_hex len)
qed

end
