(* ===== verification/Spam_Detector.thy ===== *)
theory Spam_Detector
  imports Prelude "HOL-Library.AList"
begin

text \<open>
  Coordinated-spam detection: engine/game/SpamDetector.cpp and include/game/SpamDetector.h.
  The unordered containers of the source are association lists and lists without repetition in
  insertion order, one of the orders the source may iterate in; no property depends on it.
  The clock (milliseconds) and \<open>std::hash\<close> on strings are arguments. A call of the registered
  callback is an output. Writing outside a ring buffer is the result \<open>None\<close>.
\<close>

section \<open>Data\<close>

record spam_verdict =
  v_is_spam :: bool
  v_heuristic :: string
  v_detail :: string
  v_participants :: "(string \<times> string) list"

definition no_verdict :: spam_verdict where
  "no_verdict = \<lparr>v_is_spam = False, v_heuristic = [], v_detail = [], v_participants = []\<rparr>"

record spam_config =
  sc_enabled :: bool
  sc_echo_threshold :: int
  sc_echo_window_seconds :: int
  sc_burst_threshold :: int
  sc_burst_window_seconds :: int
  sc_join_spam_max_seconds :: int
  sc_name_pattern_threshold :: int
  sc_name_pattern_min_prefix :: int
  sc_name_pattern_window_seconds :: int
  sc_ghost_threshold :: int
  sc_hwid_reuse_threshold :: int
  sc_message_ring_size :: int
  sc_name_ring_size :: int

definition spam_config_default :: spam_config where
  "spam_config_default =
    \<lparr>sc_enabled = True, sc_echo_threshold = 3, sc_echo_window_seconds = 60, sc_burst_threshold = 20,
     sc_burst_window_seconds = 30, sc_join_spam_max_seconds = 5, sc_name_pattern_threshold = 3,
     sc_name_pattern_min_prefix = 4, sc_name_pattern_window_seconds = 300, sc_ghost_threshold = 5,
     sc_hwid_reuse_threshold = 3, sc_message_ring_size = 1000, sc_name_ring_size = 200\<rparr>"

record message_record =
  mr_fingerprint :: u64
  mr_ipid :: string
  mr_asn :: u32
  mr_timestamp :: int

record fp_cluster =
  fc_count :: int
  fc_ipids :: "string list"
  fc_asns :: "u32 list"
  fc_first_seen :: int
  fc_last_seen :: int
  fc_alerted :: bool

record name_record =
  nr_prefix :: string
  nr_ipid :: string
  nr_timestamp :: int

record prefix_cluster =
  pc_ipids :: "string list"
  pc_first_seen :: int
  pc_last_seen :: int
  pc_alerted :: bool

record hwid_record =
  hr_ipids :: "string list"
  hr_last_seen :: int
  hr_alerted :: bool

record detector =
  sd_config :: spam_config
  sd_callback :: "nat option"
  sd_ipid_to_ip :: "(string \<times> string) list"
  sd_message_ring :: "message_record list"
  sd_message_pos :: nat
  sd_clusters :: "(u64 \<times> fp_cluster) list"
  sd_connection_times :: "int list"
  sd_join_times :: "(string \<times> int) list"
  sd_name_ring :: "name_record list"
  sd_name_pos :: nat
  sd_prefixes :: "(string \<times> prefix_cluster) list"
  sd_ghosts :: "(string \<times> int) list"
  sd_hwids :: "(string \<times> hwid_record) list"

definition detector_new :: detector where
  "detector_new =
    \<lparr>sd_config = spam_config_default, sd_callback = None, sd_ipid_to_ip = [], sd_message_ring = [],
     sd_message_pos = 0, sd_clusters = [], sd_connection_times = [], sd_join_times = [], sd_name_ring = [],
     sd_name_pos = 0, sd_prefixes = [], sd_ghosts = [], sd_hwids = []\<rparr>"

text \<open>A callback, and the arguments it is called with.\<close>

type_synonym spam_call = "nat \<times> string \<times> u32 \<times> spam_verdict"

section \<open>Helpers\<close>

fun normalize_step :: "char \<Rightarrow> string \<times> bool \<Rightarrow> string \<times> bool" where
  "normalize_step c (normalized, last_was_space) =
    (if c_isspace c then
       (if \<not> last_was_space then (normalized @ '' '', True) else (normalized, last_was_space))
     else (normalized @ [c_tolower c], False))"

definition normalize :: "string \<Rightarrow> string" where
  "normalize message =
    (let normalized = fst (fold normalize_step message ([], True))
     in if normalized \<noteq> [] \<and> last normalized = CHR '' '' then butlast normalized else normalized)"

definition fingerprint :: "(string \<Rightarrow> u64) \<Rightarrow> string \<Rightarrow> u64" where
  "fingerprint shash message = shash (normalize message)"

fun prefix_end :: "string \<Rightarrow> nat \<Rightarrow> nat" where
  "prefix_end name 0 = 0"
| "prefix_end name (Suc e) = (if c_isdigit (name ! e) then prefix_end name e else Suc e)"

definition extract_prefix :: "string \<Rightarrow> string" where
  "extract_prefix name =
    (let e = prefix_end name (length name)
     in if e = length name \<or> e = 0 then [] else take e name)"

text \<open>The participants whose address is known.\<close>

definition participants_of :: "detector \<Rightarrow> string list \<Rightarrow> (string \<times> string) list" where
  "participants_of s ipids =
    concat (map (\<lambda>pid. case map_of (sd_ipid_to_ip s) pid of
        Some ip \<Rightarrow> if ip \<noteq> [] then [(pid, ip)] else []
      | None \<Rightarrow> []) ipids)"

definition ring_resize :: "int \<Rightarrow> 'a \<Rightarrow> 'a list \<Rightarrow> 'a list" where
  "ring_resize n d xs = take (nat n) xs @ replicate (nat n - length xs) d"

section \<open>Configuration\<close>

text \<open>
  A negative size is converted to a huge one and \<open>resize\<close> throws, after the configuration has
  been stored: \<open>Inl\<close> is the state the exception leaves.
\<close>

definition sd_configure :: "spam_config \<Rightarrow> detector \<Rightarrow> detector + detector" where
  "sd_configure config s =
    (let s1 = s\<lparr>sd_config := config\<rparr>;
         m0 = \<lparr>mr_fingerprint = 0, mr_ipid = [], mr_asn = 0, mr_timestamp = 0\<rparr>;
         n0 = \<lparr>nr_prefix = [], nr_ipid = [], nr_timestamp = 0\<rparr>
     in if sc_message_ring_size config < 0 then Inl s1
        else
          (let s2 = s1\<lparr>sd_message_ring := ring_resize (sc_message_ring_size config) m0 (sd_message_ring s1)\<rparr>
           in if sc_name_ring_size config < 0 then Inl s2
              else Inr (s2\<lparr>sd_name_ring := ring_resize (sc_name_ring_size config) n0 (sd_name_ring s2)\<rparr>)))"

definition set_callback :: "nat option \<Rightarrow> detector \<Rightarrow> detector" where
  "set_callback cb s = s\<lparr>sd_callback := cb\<rparr>"

definition remember_ip :: "string \<Rightarrow> string \<Rightarrow> detector \<Rightarrow> detector" where
  "remember_ip ipid ip s =
    (if ip \<noteq> [] then s\<lparr>sd_ipid_to_ip := AList.update ipid ip (sd_ipid_to_ip s)\<rparr> else s)"

section \<open>Messages\<close>

definition record_message :: "message_record \<Rightarrow> detector \<Rightarrow> detector option" where
  "record_message r s =
    (if sd_message_ring s = [] then Some s
     else if length (sd_message_ring s) \<le> sd_message_pos s then None
     else Some (s\<lparr>sd_message_ring := (sd_message_ring s)[sd_message_pos s := r],
                  sd_message_pos := (sd_message_pos s + 1) mod length (sd_message_ring s)\<rparr>))"

definition fp_cluster_new :: fp_cluster where
  "fp_cluster_new = \<lparr>fc_count = 0, fc_ipids = [], fc_asns = [], fc_first_seen = 0, fc_last_seen = 0, fc_alerted = False\<rparr>"

definition add_unique :: "'a \<Rightarrow> 'a list \<Rightarrow> 'a list" where
  "add_unique x xs = (if x \<in> set xs then xs else xs @ [x])"

definition touch_cluster :: "int \<Rightarrow> string \<Rightarrow> u32 \<Rightarrow> fp_cluster \<Rightarrow> fp_cluster" where
  "touch_cluster now ipid asn c =
    c\<lparr>fc_count := fc_count c + 1, fc_ipids := add_unique ipid (fc_ipids c), fc_asns := add_unique asn (fc_asns c),
      fc_first_seen := (if fc_first_seen c = 0 then now else fc_first_seen c), fc_last_seen := now\<rparr>"

definition fast_joiners :: "detector \<Rightarrow> fp_cluster \<Rightarrow> int" where
  "fast_joiners s c = int (length (filter (\<lambda>uid.
     case map_of (sd_join_times s) uid of
       None \<Rightarrow> False
     | Some jt \<Rightarrow> fc_last_seen c - jt < sc_join_spam_max_seconds (sd_config s) * 1000) (fc_ipids c)))"

text \<open>The verdict on a touched cluster, and the cluster after it.\<close>

definition judge_message :: "detector \<Rightarrow> int \<Rightarrow> string \<Rightarrow> fp_cluster \<Rightarrow> spam_verdict \<times> fp_cluster" where
  "judge_message s now ipid c =
    (let cfg = sd_config s;
         in_window = now - fc_first_seen c \<le> sc_echo_window_seconds cfg * 1000;
         unique_count = int (length (fc_ipids c))
     in if in_window \<and> sc_echo_threshold cfg \<le> unique_count \<and> \<not> fc_alerted c then
          (\<lparr>v_is_spam = True, v_heuristic = ''echo'',
            v_detail = ''Same message from '' @ show_int unique_count @ '' distinct IPs within '' @
                       show_int (sc_echo_window_seconds cfg) @ ''s'',
            v_participants = participants_of s (fc_ipids c)\<rparr>, c\<lparr>fc_alerted := True\<rparr>)
        else
          (case map_of (sd_join_times s) ipid of
             None \<Rightarrow> (no_verdict, c)
           | Some jt \<Rightarrow>
               if now - jt < sc_join_spam_max_seconds cfg * 1000 \<and>
                  sc_echo_threshold cfg \<le> fast_joiners s c \<and> \<not> fc_alerted c then
                 (\<lparr>v_is_spam = True, v_heuristic = ''join_spam'',
                   v_detail = show_int (fast_joiners s c) @ '' IPs sent same message within '' @
                              show_int (sc_join_spam_max_seconds cfg) @ ''s of joining'',
                   v_participants = participants_of s (fc_ipids c)\<rparr>, c\<lparr>fc_alerted := True\<rparr>)
               else (no_verdict, c)))"

definition calls_of :: "detector \<Rightarrow> string \<Rightarrow> u32 \<Rightarrow> spam_verdict \<Rightarrow> spam_call list" where
  "calls_of s ipid asn v =
    (case sd_callback s of None \<Rightarrow> [] | Some cb \<Rightarrow> if v_is_spam v then [(cb, ipid, asn, v)] else [])"

definition check_message ::
  "(string \<Rightarrow> u64) \<Rightarrow> int \<Rightarrow> string \<Rightarrow> string \<Rightarrow> u32 \<Rightarrow> string \<Rightarrow> detector \<Rightarrow>
   (spam_verdict \<times> detector \<times> spam_call list) option" where
  "check_message shash now ipid ip asn message s =
    (if \<not> sc_enabled (sd_config s) then Some (no_verdict, s, [])
     else
       (let fp = fingerprint shash message;
            s1 = remember_ip ipid ip s
        in case record_message \<lparr>mr_fingerprint = fp, mr_ipid = ipid, mr_asn = asn, mr_timestamp = now\<rparr> s1 of
             None \<Rightarrow> None
           | Some s2 \<Rightarrow>
               (let c0 = (case map_of (sd_clusters s2) fp of Some c \<Rightarrow> c | None \<Rightarrow> fp_cluster_new);
                    c1 = touch_cluster now ipid asn c0;
                    (v, c2) = judge_message s2 now ipid c1;
                    s3 = s2\<lparr>sd_clusters := AList.update fp c2 (sd_clusters s2)\<rparr>
                in Some (v, s3, calls_of s3 ipid asn v))))"

section \<open>Connections\<close>

definition record_name :: "name_record \<Rightarrow> detector \<Rightarrow> detector option" where
  "record_name r s =
    (if sd_name_ring s = [] then Some s
     else if length (sd_name_ring s) \<le> sd_name_pos s then None
     else Some (s\<lparr>sd_name_ring := (sd_name_ring s)[sd_name_pos s := r],
                  sd_name_pos := (sd_name_pos s + 1) mod length (sd_name_ring s)\<rparr>))"

definition check_burst :: "int \<Rightarrow> detector \<Rightarrow> spam_verdict \<times> detector" where
  "check_burst now s =
    (let cfg = sd_config s;
         times = filter (\<lambda>t. \<not> t < now - sc_burst_window_seconds cfg * 1000) (sd_connection_times s @ [now]);
         s1 = s\<lparr>sd_connection_times := times\<rparr>
     in (if sc_burst_threshold cfg \<le> int (length times)
         then no_verdict\<lparr>v_is_spam := True, v_heuristic := ''burst'',
                v_detail := show_nat (length times) @ '' connections in '' @
                            show_int (sc_burst_window_seconds cfg) @ ''s window''\<rparr>
         else no_verdict, s1))"

definition check_name :: "int \<Rightarrow> string \<Rightarrow> string \<Rightarrow> spam_verdict \<Rightarrow> detector \<Rightarrow> (spam_verdict \<times> detector) option" where
  "check_name now ipid username v s =
    (let cfg = sd_config s; prefix = extract_prefix username in
     if username = [] \<or> int (length prefix) < sc_name_pattern_min_prefix cfg then Some (v, s)
     else
       (case record_name \<lparr>nr_prefix = prefix, nr_ipid = ipid, nr_timestamp = now\<rparr> s of
          None \<Rightarrow> None
        | Some s1 \<Rightarrow>
            (let pc0 = (case map_of (sd_prefixes s1) prefix of Some p \<Rightarrow> p
                        | None \<Rightarrow> \<lparr>pc_ipids = [], pc_first_seen = 0, pc_last_seen = 0, pc_alerted = False\<rparr>);
                 pc = pc0\<lparr>pc_ipids := add_unique ipid (pc_ipids pc0),
                          pc_first_seen := (if pc_first_seen pc0 = 0 then now else pc_first_seen pc0),
                          pc_last_seen := now\<rparr>;
                 in_window = now - pc_first_seen pc \<le> sc_name_pattern_window_seconds cfg * 1000;
                 unique_count = int (length (pc_ipids pc));
                 trip = (in_window \<and> sc_name_pattern_threshold cfg \<le> unique_count \<and> \<not> pc_alerted pc);
                 s2 = s1\<lparr>sd_prefixes := AList.update prefix (if trip then pc\<lparr>pc_alerted := True\<rparr> else pc) (sd_prefixes s1)\<rparr>
             in Some (if trip \<and> \<not> v_is_spam v then
                        \<lparr>v_is_spam = True, v_heuristic = ''name_pattern'',
                         v_detail = ''Username prefix '' @ [CHR 0x22] @ prefix @ [CHR 0x22] @ '' from '' @
                                    show_int unique_count @ '' distinct IPs'',
                         v_participants = participants_of s1 (pc_ipids pc)\<rparr>
                      else v, s2))))"

definition check_hwid :: "int \<Rightarrow> string \<Rightarrow> string \<Rightarrow> spam_verdict \<Rightarrow> detector \<Rightarrow> spam_verdict \<times> detector" where
  "check_hwid now ipid hwid v s =
    (if hwid = [] then (v, s)
     else
       (let cfg = sd_config s;
            hr0 = (case map_of (sd_hwids s) hwid of Some h \<Rightarrow> h
                   | None \<Rightarrow> \<lparr>hr_ipids = [], hr_last_seen = 0, hr_alerted = False\<rparr>);
            hr = hr0\<lparr>hr_ipids := add_unique ipid (hr_ipids hr0), hr_last_seen := now\<rparr>;
            trip = (sc_hwid_reuse_threshold cfg \<le> int (length (hr_ipids hr)) \<and> \<not> hr_alerted hr);
            s1 = s\<lparr>sd_hwids := AList.update hwid (if trip then hr\<lparr>hr_alerted := True\<rparr> else hr) (sd_hwids s)\<rparr>
        in (if trip \<and> \<not> v_is_spam v then
              v\<lparr>v_is_spam := True, v_heuristic := ''hwid_reuse'',
                v_detail := ''HWID '' @ take 8 hwid @ ''... seen from '' @ show_nat (length (hr_ipids hr)) @ '' distinct IPs''\<rparr>
            else v, s1)))"

definition on_connection ::
  "int \<Rightarrow> string \<Rightarrow> string \<Rightarrow> u32 \<Rightarrow> string \<Rightarrow> string \<Rightarrow> detector \<Rightarrow> (spam_verdict \<times> detector \<times> spam_call list) option" where
  "on_connection now ipid ip asn hwid username s =
    (if \<not> sc_enabled (sd_config s) then Some (no_verdict, s, [])
     else
       (let (v1, s1) = check_burst now (remember_ip ipid ip s) in
        case check_name now ipid username v1 s1 of
          None \<Rightarrow> None
        | Some (v2, s2) \<Rightarrow>
            (let (v3, s3) = check_hwid now ipid hwid v2 s2
             in Some (v3, s3, calls_of s3 ipid asn v3))))"

definition on_disconnect :: "string \<Rightarrow> bool \<Rightarrow> detector \<Rightarrow> detector \<times> spam_call list" where
  "on_disconnect ip completed_handshake s =
    (if \<not> sc_enabled (sd_config s) \<or> completed_handshake then (s, [])
     else
       (let count = (case map_of (sd_ghosts s) ip of Some n \<Rightarrow> n | None \<Rightarrow> 0) + 1;
            s1 = s\<lparr>sd_ghosts := AList.update ip count (sd_ghosts s)\<rparr>
        in (s1,
            if sc_ghost_threshold (sd_config s) \<le> count then
              calls_of s1 [] 0 (no_verdict\<lparr>v_is_spam := True, v_heuristic := ''ghost'',
                v_detail := ''IP '' @ ip @ '' has '' @ show_int count @ '' ghost connections''\<rparr>)
            else [])))"

definition record_join_time :: "int \<Rightarrow> string \<Rightarrow> detector \<Rightarrow> detector" where
  "record_join_time now ipid s = s\<lparr>sd_join_times := AList.update ipid now (sd_join_times s)\<rparr>"

section \<open>Periodic cleanup\<close>

definition sd_sweep :: "int \<Rightarrow> detector \<Rightarrow> detector" where
  "sd_sweep now s =
    (let cfg = sd_config s;
         clusters = filter (\<lambda>(_, c). \<not> fc_last_seen c < now - sc_echo_window_seconds cfg * 1000) (sd_clusters s);
         times = filter (\<lambda>t. \<not> t < now - sc_burst_window_seconds cfg * 1000) (sd_connection_times s);
         joins = filter (\<lambda>(_, t). \<not> t < now - 300000) (sd_join_times s);
         prefixes = filter (\<lambda>(_, p). \<not> pc_last_seen p < now - sc_name_pattern_window_seconds cfg * 1000) (sd_prefixes s);
         hwids = filter (\<lambda>(_, h). \<not> hr_last_seen h < now - 3600000) (sd_hwids s);
         live = concat (map (\<lambda>(_, c). fc_ipids c) clusters) @ concat (map (\<lambda>(_, p). pc_ipids p) prefixes)
     in s\<lparr>sd_clusters := clusters, sd_connection_times := times, sd_join_times := joins, sd_prefixes := prefixes,
          sd_ghosts := [], sd_hwids := hwids,
          sd_ipid_to_ip := filter (\<lambda>(ipid, _). ipid \<in> set live) (sd_ipid_to_ip s)\<rparr>)"

end
