(* ===== verification/Spam_Detector_Props.thy ===== *)
theory Spam_Detector_Props
  imports Spam_Detector
begin

text \<open>
  Properties of the spam detector: its ring buffers are never overrun while they do not shrink
  (and are when they do), a cluster raises one alert, the alert comes at the configured number
  of distinct senders, the cleanup keeps what later alerts need, and the two text
  normalisations meet their descriptions.
\<close>

section \<open>Ring buffers\<close>

definition ring_ok :: "detector \<Rightarrow> bool" where
  "ring_ok s \<longleftrightarrow> (sd_message_ring s = [] \<or> sd_message_pos s < length (sd_message_ring s)) \<and>
     (sd_name_ring s = [] \<or> sd_name_pos s < length (sd_name_ring s))"

lemma length_ring_resize [simp]: "length (ring_resize n d xs) = nat n"
  by (simp add: ring_resize_def)

lemma remember_ip_fields [simp]:
  "sd_message_ring (remember_ip i a s) = sd_message_ring s" "sd_message_pos (remember_ip i a s) = sd_message_pos s"
  "sd_name_ring (remember_ip i a s) = sd_name_ring s" "sd_name_pos (remember_ip i a s) = sd_name_pos s"
  "sd_clusters (remember_ip i a s) = sd_clusters s" "sd_config (remember_ip i a s) = sd_config s"
  "sd_join_times (remember_ip i a s) = sd_join_times s" "sd_callback (remember_ip i a s) = sd_callback s"
  by (simp_all add: remember_ip_def)

lemma record_message_ok:
  assumes "ring_ok s"
  obtains s' where "record_message r s = Some s'" and "ring_ok s'"
    and "length (sd_message_ring s') = length (sd_message_ring s)" and "sd_clusters s' = sd_clusters s"
    and "sd_config s' = sd_config s" and "sd_join_times s' = sd_join_times s" and "sd_ipid_to_ip s' = sd_ipid_to_ip s"
proof (cases "sd_message_ring s = []")
  case True
  then show ?thesis using assms by (intro that [of s]) (simp_all add: record_message_def)
next
  case False
  then have "sd_message_pos s < length (sd_message_ring s)" using assms by (simp add: ring_ok_def)
  then show ?thesis using False assms
    by (intro that [of "s\<lparr>sd_message_ring := (sd_message_ring s)[sd_message_pos s := r],
          sd_message_pos := (sd_message_pos s + 1) mod length (sd_message_ring s)\<rparr>"])
      (auto simp: record_message_def ring_ok_def)
qed

lemma record_name_ok:
  assumes "ring_ok s"
  obtains s' where "record_name r s = Some s'" and "ring_ok s'" and "sd_clusters s' = sd_clusters s"
proof (cases "sd_name_ring s = []")
  case True
  then show ?thesis using assms by (intro that [of s]) (simp_all add: record_name_def)
next
  case False
  then have "sd_name_pos s < length (sd_name_ring s)" using assms by (simp add: ring_ok_def)
  then show ?thesis using False assms
    by (intro that [of "s\<lparr>sd_name_ring := (sd_name_ring s)[sd_name_pos s := r],
          sd_name_pos := (sd_name_pos s + 1) mod length (sd_name_ring s)\<rparr>"])
      (auto simp: record_name_def ring_ok_def)
qed

lemma ring_ok_cong:
  "sd_message_ring s' = sd_message_ring s \<Longrightarrow> sd_message_pos s' = sd_message_pos s \<Longrightarrow>
   sd_name_ring s' = sd_name_ring s \<Longrightarrow> sd_name_pos s' = sd_name_pos s \<Longrightarrow> ring_ok s \<Longrightarrow> ring_ok s'"
  by (simp add: ring_ok_def)

text \<open>The cluster a message is filed under, before and after the message.\<close>

definition cluster_of :: "detector \<Rightarrow> u64 \<Rightarrow> fp_cluster" where
  "cluster_of s fp = (case map_of (sd_clusters s) fp of Some c \<Rightarrow> c | None \<Rightarrow> fp_cluster_new)"

lemma check_message_ok:
  assumes "ring_ok s" and "sc_enabled (sd_config s)"
  obtains s2 v c2 s' where
    "check_message shash now ipid ip asn message s = Some (v, s', calls_of s' ipid asn v)"
    and "judge_message s2 now ipid (touch_cluster now ipid asn (cluster_of s (fingerprint shash message))) = (v, c2)"
    and "map_of (sd_clusters s') = (map_of (sd_clusters s))(fingerprint shash message \<mapsto> c2)"
    and "ring_ok s'" and "sd_config s' = sd_config s" and "sd_join_times s' = sd_join_times s"
    and "sd_config s2 = sd_config s" and "sd_join_times s2 = sd_join_times s"
    and "sd_ipid_to_ip s2 = sd_ipid_to_ip (remember_ip ipid ip s)"
proof -
  let ?fp = "fingerprint shash message"
  have r1: "ring_ok (remember_ip ipid ip s)" using assms(1) by (rule ring_ok_cong [rotated -1]) simp_all
  obtain s2 where s2: "record_message \<lparr>mr_fingerprint = ?fp, mr_ipid = ipid, mr_asn = asn, mr_timestamp = now\<rparr>
      (remember_ip ipid ip s) = Some s2" "ring_ok s2" "sd_clusters s2 = sd_clusters s"
    "sd_config s2 = sd_config s" "sd_join_times s2 = sd_join_times s"
    "sd_ipid_to_ip s2 = sd_ipid_to_ip (remember_ip ipid ip s)"
    using record_message_ok [OF r1] by (metis remember_ip_fields(5,6,7))
  obtain v c2 where j: "judge_message s2 now ipid (touch_cluster now ipid asn (cluster_of s ?fp)) = (v, c2)"
    by (metis surj_pair)
  let ?s' = "s2\<lparr>sd_clusters := AList.update ?fp c2 (sd_clusters s2)\<rparr>"
  have "ring_ok ?s'" using s2(2) by (rule ring_ok_cong [rotated -1]) simp_all
  then show ?thesis
    using assms(2) s2 j
    by (intro that [of v ?s' s2 c2]) (simp_all add: check_message_def Let_def cluster_of_def update_conv')
qed

lemma on_connection_ok:
  assumes "ring_ok s"
  obtains v s' out where "on_connection now ipid ip asn hwid username s = Some (v, s', out)" and "ring_ok s'"
    and "sd_clusters s' = sd_clusters s"
proof (cases "sc_enabled (sd_config s)")
  case False
  then show ?thesis using assms by (intro that [of no_verdict s "[]"]) (simp_all add: on_connection_def)
next
  case True
  obtain v1 s1 where b: "check_burst now (remember_ip ipid ip s) = (v1, s1)" by (metis surj_pair)
  have r1: "ring_ok s1" "sd_clusters s1 = sd_clusters s"
    using b assms by (auto simp: check_burst_def Let_def ring_ok_def)
  have "\<exists>v2 s2. check_name now ipid username v1 s1 = Some (v2, s2) \<and> ring_ok s2 \<and> sd_clusters s2 = sd_clusters s1"
  proof (cases "username = [] \<or> int (length (extract_prefix username)) < sc_name_pattern_min_prefix (sd_config s1)")
    case False
    obtain s2 where "record_name \<lparr>nr_prefix = extract_prefix username, nr_ipid = ipid, nr_timestamp = now\<rparr> s1 = Some s2"
      "ring_ok s2" "sd_clusters s2 = sd_clusters s1" using record_name_ok [OF r1(1)] .
    then show ?thesis using False by (simp add: check_name_def Let_def ring_ok_def)
  qed (use r1 in \<open>simp add: check_name_def\<close>)
  then obtain v2 s2 where n: "check_name now ipid username v1 s1 = Some (v2, s2)" "ring_ok s2"
    "sd_clusters s2 = sd_clusters s1" by blast
  obtain v3 s3 where h: "check_hwid now ipid hwid v2 s2 = (v3, s3)" by (metis surj_pair)
  then have "ring_ok s3" "sd_clusters s3 = sd_clusters s2"
    using n by (auto simp: check_hwid_def Let_def ring_ok_def split: if_splits)
  then show ?thesis using True b n h r1
    by (intro that [of v3 s3 "calls_of s3 ipid asn v3"]) (simp_all add: on_connection_def)
qed

section \<open>Sequences of events\<close>

datatype sd_event =
    EMessage int string string u32 string
  | EConnection int string string u32 string string
  | EDisconnect string bool
  | EJoin int string
  | ECallback "nat option"

text \<open>The verdict of the event (none for the last three), and the state; \<open>None\<close> on an overrun.\<close>

fun run_event :: "(string \<Rightarrow> u64) \<Rightarrow> sd_event \<Rightarrow> detector \<Rightarrow> (spam_verdict \<times> detector) option" where
  "run_event shash (EMessage now ipid ip asn m) s =
     map_option (\<lambda>(v, s', _). (v, s')) (check_message shash now ipid ip asn m s)"
| "run_event shash (EConnection now ipid ip asn hwid user) s =
     map_option (\<lambda>(v, s', _). (v, s')) (on_connection now ipid ip asn hwid user s)"
| "run_event shash (EDisconnect ip b) s = Some (no_verdict, fst (on_disconnect ip b s))"
| "run_event shash (EJoin now ipid) s = Some (no_verdict, record_join_time now ipid s)"
| "run_event shash (ECallback cb) s = Some (no_verdict, set_callback cb s)"

fun sd_run :: "(string \<Rightarrow> u64) \<Rightarrow> sd_event list \<Rightarrow> detector \<Rightarrow> (spam_verdict list \<times> detector) option" where
  "sd_run shash [] s = Some ([], s)"
| "sd_run shash (e # es) s =
     (case run_event shash e s of
        None \<Rightarrow> None
      | Some (v, s') \<Rightarrow> map_option (\<lambda>(vs, s''). (v # vs, s'')) (sd_run shash es s'))"

lemma run_event_ok:
  assumes "ring_ok s"
  obtains v s' where "run_event shash e s = Some (v, s')" and "ring_ok s'"
proof (cases e)
  case (EMessage now ipid ip asn m)
  show ?thesis
  proof (cases "sc_enabled (sd_config s)")
    case True
    obtain s2 v c2 s' where "check_message shash now ipid ip asn m s = Some (v, s', calls_of s' ipid asn v)" "ring_ok s'"
      by (rule check_message_ok [OF assms True])
    then show ?thesis using EMessage by (intro that [of v s']) simp_all
  next
    case False
    then show ?thesis using EMessage assms by (intro that [of no_verdict s]) (simp_all add: check_message_def)
  qed
next
  case (EConnection now ipid ip asn hwid user)
  obtain v s' out where "on_connection now ipid ip asn hwid user s = Some (v, s', out)" "ring_ok s'"
    using on_connection_ok [OF assms] .
  then show ?thesis using EConnection by (intro that) simp_all
next
  case (EDisconnect ip b)
  then show ?thesis using assms
    by (intro that [of no_verdict "fst (on_disconnect ip b s)"]) (auto simp: on_disconnect_def Let_def ring_ok_def)
next
  case (EJoin now ipid)
  then show ?thesis using assms
    by (intro that [of no_verdict "record_join_time now ipid s"]) (auto simp: record_join_time_def ring_ok_def)
next
  case (ECallback cb)
  then show ?thesis using assms
    by (intro that [of no_verdict "set_callback cb s"]) (auto simp: set_callback_def ring_ok_def)
qed

lemma sd_run_ok: "ring_ok s \<Longrightarrow> \<exists>vs s'. sd_run shash es s = Some (vs, s') \<and> ring_ok s'"
proof (induction es arbitrary: s)
  case (Cons e es)
  obtain v s1 where e: "run_event shash e s = Some (v, s1)" "ring_ok s1" using run_event_ok [OF Cons.prems] .
  obtain vs s' where "sd_run shash es s1 = Some (vs, s')" "ring_ok s'" using Cons.IH [OF e(2)] by blast
  then show ?case using e by simp
qed simp


section \<open>One alert per cluster\<close>

lemma judge_cases:
  assumes "judge_message s now ipid c = (v, c2)"
  shows "(v_is_spam v \<and> \<not> fc_alerted c \<and> c2 = c\<lparr>fc_alerted := True\<rparr>) \<or> (\<not> v_is_spam v \<and> c2 = c)"
  using assms by (auto simp: judge_message_def Let_def no_verdict_def split: if_splits option.splits)

lemma touch_alerted [simp]: "fc_alerted (touch_cluster now ipid asn c) = fc_alerted c"
  by (simp add: touch_cluster_def)

definition is_message :: "(string \<Rightarrow> u64) \<Rightarrow> u64 \<Rightarrow> sd_event \<Rightarrow> bool" where
  "is_message shash fp e = (case e of EMessage _ _ _ _ m \<Rightarrow> fingerprint shash m = fp | _ \<Rightarrow> False)"

text \<open>The alerts among the verdicts of the messages with one fingerprint.\<close>

definition alerts :: "(string \<Rightarrow> u64) \<Rightarrow> u64 \<Rightarrow> sd_event list \<Rightarrow> spam_verdict list \<Rightarrow> nat" where
  "alerts shash fp es vs = length (filter (\<lambda>(e, v). is_message shash fp e \<and> v_is_spam v) (zip es vs))"

lemma on_disconnect_clusters: "sd_clusters (fst (on_disconnect ip b s)) = sd_clusters s"
  by (simp add: on_disconnect_def Let_def)

lemma run_event_alert:
  assumes "ring_ok s" and "run_event shash e s = Some (v, s')"
  shows "(is_message shash fp e \<and> v_is_spam v \<and> \<not> fc_alerted (cluster_of s fp) \<and> fc_alerted (cluster_of s' fp)) \<or>
    (\<not> (is_message shash fp e \<and> v_is_spam v) \<and> fc_alerted (cluster_of s' fp) = fc_alerted (cluster_of s fp))"
proof (cases e)
  case (EMessage now ipid ip asn m)
  show ?thesis
  proof (cases "sc_enabled (sd_config s)")
    case True
    obtain s2 v1 c2 s1 where c: "check_message shash now ipid ip asn m s = Some (v1, s1, calls_of s1 ipid asn v1)"
      "judge_message s2 now ipid (touch_cluster now ipid asn (cluster_of s (fingerprint shash m))) = (v1, c2)"
      "map_of (sd_clusters s1) = (map_of (sd_clusters s))(fingerprint shash m \<mapsto> c2)"
      by (rule check_message_ok [OF assms(1) True])
    then have e: "v = v1" "s' = s1" using assms(2) EMessage by simp_all
    have "cluster_of s' fp = (if fp = fingerprint shash m then c2 else cluster_of s fp)"
      unfolding e cluster_of_def c(3) by simp
    then show ?thesis using judge_cases [OF c(2)] EMessage e by (auto simp: is_message_def)
  next
    case False
    then show ?thesis using assms(2) EMessage by (auto simp: check_message_def no_verdict_def)
  qed
next
  case (EConnection now ipid ip asn hwid user)
  obtain v1 s1 out where "on_connection now ipid ip asn hwid user s = Some (v1, s1, out)" "sd_clusters s1 = sd_clusters s"
    using on_connection_ok [OF assms(1)] .
  then show ?thesis using EConnection assms(2) by (simp add: is_message_def cluster_of_def)
qed (use assms(2) in \<open>auto simp: is_message_def cluster_of_def on_disconnect_clusters record_join_time_def
       set_callback_def\<close>)

lemma run_alerts:
  assumes "ring_ok s" and "sd_run shash es s = Some (vs, s')"
  shows "alerts shash fp es vs \<le> (if fc_alerted (cluster_of s fp) then 0 else 1)"
  using assms
proof (induction es arbitrary: s vs)
  case Nil
  then show ?case by (simp add: alerts_def)
next
  case (Cons e es)
  obtain v s1 where e: "run_event shash e s = Some (v, s1)" "ring_ok s1" using run_event_ok [OF Cons.prems(1)] .
  then obtain ws where w: "sd_run shash es s1 = Some (ws, s')" "vs = v # ws" using Cons.prems(2) by auto
  have "alerts shash fp es ws \<le> (if fc_alerted (cluster_of s1 fp) then 0 else 1)" using Cons.IH [OF e(2) w(1)] .
  then show ?case
    using run_event_alert [OF Cons.prems(1) e(1), of fp] unfolding w(2) by (auto simp: alerts_def split: if_splits)
qed

section \<open>The echo threshold\<close>

lemma judge_plain:
  assumes "map_of (sd_join_times s) ipid = None"
  shows "judge_message s now ipid c =
    (if now - fc_first_seen c \<le> sc_echo_window_seconds (sd_config s) * 1000 \<and>
        sc_echo_threshold (sd_config s) \<le> int (length (fc_ipids c)) \<and> \<not> fc_alerted c
     then (\<lparr>v_is_spam = True, v_heuristic = ''echo'',
            v_detail = ''Same message from '' @ show_int (int (length (fc_ipids c))) @ '' distinct IPs within '' @
                       show_int (sc_echo_window_seconds (sd_config s)) @ ''s'',
            v_participants = participants_of s (fc_ipids c)\<rparr>, c\<lparr>fc_alerted := True\<rparr>)
     else (no_verdict, c))"
  using assms by (simp add: judge_message_def Let_def)

text \<open>The state of the cluster after the messages of the senders \<open>ids\<close>, from \<open>t0\<close> on.\<close>

definition echo_state :: "detector \<Rightarrow> u64 \<Rightarrow> int \<Rightarrow> string list \<Rightarrow> bool" where
  "echo_state s fp t0 ids \<longleftrightarrow>
     ring_ok s \<and> sc_enabled (sd_config s) \<and> sd_join_times s = [] \<and>
     (if ids = [] then map_of (sd_clusters s) fp = None
      else fc_ipids (cluster_of s fp) = ids \<and> fc_first_seen (cluster_of s fp) = t0 \<and>
        map_of (sd_clusters s) fp \<noteq> None) \<and>
     (fc_alerted (cluster_of s fp) \<longleftrightarrow> ids \<noteq> [] \<and> sc_echo_threshold (sd_config s) \<le> int (length ids))"

lemma echo_step:
  assumes "echo_state s fp t0 ids" and "fingerprint shash m = fp" and "0 < t0"
    and "ids = [] \<Longrightarrow> now = t0" and "now \<le> t0 + sc_echo_window_seconds (sd_config s) * 1000"
    and "ipid \<notin> set ids" and "1 \<le> sc_echo_threshold (sd_config s)"
    and "0 \<le> sc_echo_window_seconds (sd_config s)"
  obtains v s' where "run_event shash (EMessage now ipid ip asn m) s = Some (v, s')"
    and "echo_state s' fp t0 (ids @ [ipid])" and "sd_config s' = sd_config s"
    and "v_is_spam v \<longleftrightarrow> int (length ids) + 1 = sc_echo_threshold (sd_config s)"
    and "v_is_spam v \<Longrightarrow> v_heuristic v = ''echo''"
proof -
  let ?cfg = "sd_config s"
  have st: "ring_ok s" "sc_enabled ?cfg" "sd_join_times s = []" using assms(1) by (simp_all add: echo_state_def)
  obtain s2 v c2 s' where c: "check_message shash now ipid ip asn m s = Some (v, s', calls_of s' ipid asn v)"
    "judge_message s2 now ipid (touch_cluster now ipid asn (cluster_of s (fingerprint shash m))) = (v, c2)"
    "map_of (sd_clusters s') = (map_of (sd_clusters s))(fingerprint shash m \<mapsto> c2)"
    "ring_ok s'" "sd_config s' = ?cfg" "sd_join_times s' = sd_join_times s" "sd_config s2 = ?cfg"
    "sd_join_times s2 = sd_join_times s"
    by (rule check_message_ok [OF st(1,2)])
  let ?c1 = "touch_cluster now ipid asn (cluster_of s fp)"
  have ids: "fc_ipids ?c1 = ids @ [ipid]" "fc_first_seen ?c1 = t0"
    using assms(1,3,4,6)
    by (auto simp: echo_state_def touch_cluster_def add_unique_def cluster_of_def fp_cluster_new_def split: if_splits)
  have al: "fc_alerted ?c1 \<longleftrightarrow> ids \<noteq> [] \<and> sc_echo_threshold ?cfg \<le> int (length ids)"
    using assms(1) by (simp add: echo_state_def)
  let ?trip = "sc_echo_threshold ?cfg \<le> int (length ids) + 1 \<and> \<not> fc_alerted ?c1"
  have j: "v_is_spam v = ?trip" "c2 = (if ?trip then ?c1\<lparr>fc_alerted := True\<rparr> else ?c1)"
    "v_is_spam v \<Longrightarrow> v_heuristic v = ''echo''"
    using c(2,7,8) assms(2,5) st(3) ids judge_plain [of s2 ipid now ?c1]
    by (auto simp: no_verdict_def split: if_splits)
  have trip: "?trip \<longleftrightarrow> int (length ids) + 1 = sc_echo_threshold ?cfg" using al assms(7) by auto
  have c2: "cluster_of s' fp = c2" using c(3) assms(2) by (simp add: cluster_of_def)
  have "echo_state s' fp t0 (ids @ [ipid])"
    using c(3,4,5,6) st ids al assms(2,7) trip unfolding echo_state_def c2 j(2) by auto
  then show ?thesis
    using c(1,5) j(1,3) trip by (intro that [of v s']) simp_all
qed

lemma echo_run:
  assumes "echo_state s fp t0 ids" and "0 < t0" and "1 \<le> sc_echo_threshold (sd_config s)"
    and "0 \<le> sc_echo_window_seconds (sd_config s)"
    and "\<forall>(now, ipid, ip, asn, m)\<in>set ms. fingerprint shash m = fp \<and>
      now \<le> t0 + sc_echo_window_seconds (sd_config s) * 1000"
    and "ids = [] \<Longrightarrow> ms \<noteq> [] \<Longrightarrow> fst (hd ms) = t0"
    and "distinct (ids @ map (\<lambda>(now, ipid, ip, asn, m). ipid) ms)"
  shows "\<exists>vs s'. sd_run shash (map (\<lambda>(now, ipid, ip, asn, m). EMessage now ipid ip asn m) ms) s = Some (vs, s') \<and>
    length vs = length ms \<and>
    (\<forall>i<length ms. v_is_spam (vs ! i) \<longleftrightarrow> int (length ids + i) + 1 = sc_echo_threshold (sd_config s))"
  using assms
proof (induction ms arbitrary: s ids)
  case (Cons msg ms)
  obtain now ipid ip asn m where msg: "msg = (now, ipid, ip, asn, m)" by (cases msg) auto
  have p: "fingerprint shash m = fp" "ids = [] \<Longrightarrow> now = t0"
    "now \<le> t0 + sc_echo_window_seconds (sd_config s) * 1000" "ipid \<notin> set ids"
    using Cons.prems msg by auto
  obtain v s1 where e: "run_event shash (EMessage now ipid ip asn m) s = Some (v, s1)"
    "echo_state s1 fp t0 (ids @ [ipid])" "sd_config s1 = sd_config s"
    "v_is_spam v \<longleftrightarrow> int (length ids) + 1 = sc_echo_threshold (sd_config s)"
    by (rule echo_step [OF Cons.prems(1) p(1) Cons.prems(2) p(2,3,4) Cons.prems(3,4), of ip asn])
  obtain vs s' where r: "sd_run shash (map (\<lambda>(now, ipid, ip, asn, m). EMessage now ipid ip asn m) ms) s1 = Some (vs, s')"
    "length vs = length ms"
    "\<forall>i<length ms. v_is_spam (vs ! i) \<longleftrightarrow> int (length (ids @ [ipid]) + i) + 1 = sc_echo_threshold (sd_config s1)"
    using Cons.IH [OF e(2)] Cons.prems e(3) msg by auto
  have "\<forall>i<length (msg # ms). v_is_spam ((v # vs) ! i) \<longleftrightarrow> int (length ids + i) + 1 = sc_echo_threshold (sd_config s)"
    using e(3,4) r(3) by (auto simp: less_Suc_eq_0_disj)
  moreover have "sd_run shash (map (\<lambda>(now, ipid, ip, asn, m). EMessage now ipid ip asn m) (msg # ms)) s =
      Some (v # vs, s')"
    unfolding msg list.map case_prod_conv sd_run.simps e(1) by (simp add: r(1))
  ultimately show ?case using r(2) by (intro exI [of _ "v # vs"] exI [of _ s']) simp
qed simp


section \<open>Text normalisation\<close>

text \<open>The words of a text, and the words joined by single spaces.\<close>

fun words_of :: "string \<Rightarrow> string \<Rightarrow> string list" where
  "words_of w [] = (if w = [] then [] else [w])"
| "words_of w (c # s) =
    (if c_isspace c then (if w = [] then words_of [] s else w # words_of [] s)
     else words_of (w @ [c_tolower c]) s)"

fun join_space :: "string list \<Rightarrow> string" where
  "join_space [] = []"
| "join_space [w] = w"
| "join_space (w # ws) = w @ '' '' @ join_space ws"

lemma join_space_snoc: "ws \<noteq> [] \<Longrightarrow> join_space (ws @ [w]) = join_space ws @ '' '' @ w"
  by (induction ws rule: join_space.induct) auto

lemma join_space_append: "ws \<noteq> [] \<Longrightarrow> vs \<noteq> [] \<Longrightarrow> join_space (ws @ vs) = join_space ws @ '' '' @ join_space vs"
  by (induction ws rule: join_space.induct) (auto simp: neq_Nil_conv)

lemma c_tolower_not_space: "\<not> c_isspace c \<Longrightarrow> c_tolower c \<noteq> CHR '' ''"
proof
  assume a: "\<not> c_isspace c" "c_tolower c = CHR '' ''"
  have s: "c_isspace CHR '' ''" by (simp add: c_isspace_def char_code_def)
  show False
  proof (cases "c_isupper c")
    case True
    then have "char_code (c_tolower c) = char_code c + 32"
      by (simp add: c_tolower_def c_isupper_def char_code_char_of)
    then show False using a(2) True by (simp add: c_isupper_def char_code_def)
  qed (use a s in \<open>simp add: c_tolower_def\<close>)
qed

text \<open>The loop: the words so far, followed by a space when the last character was one.\<close>

definition norm_state :: "string list \<Rightarrow> string \<Rightarrow> string" where
  "norm_state ws w = (if w = [] then (if ws = [] then [] else join_space ws @ '' '') else join_space (ws @ [w]))"

lemma normalize_fold:
  "(\<forall>c\<in>set w. c \<noteq> CHR '' '') \<Longrightarrow>
   \<exists>b. fst (fold normalize_step s (norm_state ws w, w = [])) =
     (if b \<and> ws @ words_of w s \<noteq> [] then join_space (ws @ words_of w s) @ '' '' else join_space (ws @ words_of w s))"
proof (induction s arbitrary: ws w)
  case Nil
  show ?case by (intro exI [of _ "w = []"]) (simp add: norm_state_def)
next
  case (Cons c s)
  show ?case
  proof (cases "c_isspace c")
    case True
    let ?ws = "if w = [] then ws else ws @ [w]"
    have "normalize_step c (norm_state ws w, w = []) = (norm_state ?ws [], True)"
      using True by (cases "w = []") (simp_all add: norm_state_def)
    moreover have "ws @ words_of w (c # s) = ?ws @ words_of [] s" using True by simp
    ultimately show ?thesis using Cons.IH [of "[]" ?ws] by (simp only: fold_simps o_apply list.set) simp
  next
    case False
    have "normalize_step c (norm_state ws w, w = []) = (norm_state ws (w @ [c_tolower c]), (w @ [c_tolower c]) = [])"
      using False by (cases "ws = []"; cases "w = []") (simp_all add: norm_state_def join_space_snoc)
    moreover have "words_of w (c # s) = words_of (w @ [c_tolower c]) s" using False by simp
    moreover have "\<forall>d\<in>set (w @ [c_tolower c]). d \<noteq> CHR '' ''"
      using Cons.prems c_tolower_not_space [OF False] by simp
    ultimately show ?thesis using Cons.IH [of "w @ [c_tolower c]" ws] by (simp only: fold_simps o_apply)
  qed
qed

lemma words_of_nonempty: "(\<forall>c\<in>set w. c \<noteq> CHR '' '') \<Longrightarrow> v \<in> set (words_of w s) \<Longrightarrow> v \<noteq> [] \<and> CHR '' '' \<notin> set v"
proof (induction s arbitrary: w)
  case Nil
  then show ?case by (auto split: if_splits)
next
  case (Cons c s)
  show ?case
  proof (cases "c_isspace c")
    case True
    then show ?thesis using Cons.IH [of "[]"] Cons.prems by (auto split: if_splits)
  next
    case False
    have "\<forall>d\<in>set (w @ [c_tolower c]). d \<noteq> CHR '' ''"
      using Cons.prems(1) c_tolower_not_space [OF False] by simp
    then show ?thesis using Cons.IH [of "w @ [c_tolower c]"] Cons.prems(2) False by simp
  qed
qed

lemma last_join_space: "ws \<noteq> [] \<Longrightarrow> \<forall>v\<in>set ws. v \<noteq> [] \<and> CHR '' '' \<notin> set v \<Longrightarrow>
  join_space ws \<noteq> [] \<and> last (join_space ws) \<noteq> CHR '' ''"
proof (induction ws rule: join_space.induct)
  case (2 w)
  then have "w \<noteq> []" "CHR '' '' \<notin> set w" by simp_all
  then have "last w \<noteq> CHR '' ''" using last_in_set [of w] by metis
  then show ?case using \<open>w \<noteq> []\<close> by simp
qed simp_all

lemma normalize_words: "normalize s = join_space (words_of [] s)"
proof -
  let ?ws = "words_of [] s"
  have "\<exists>b. fst (fold normalize_step s ([], True)) =
      (if b \<and> ?ws \<noteq> [] then join_space ?ws @ '' '' else join_space ?ws)"
    using normalize_fold [of "[]" s "[]"] unfolding norm_state_def append_Nil by simp
  then obtain b where b: "fst (fold normalize_step s ([], True)) =
      (if b \<and> ?ws \<noteq> [] then join_space ?ws @ '' '' else join_space ?ws)" by blast
  have "?ws \<noteq> [] \<Longrightarrow> join_space ?ws \<noteq> [] \<and> last (join_space ?ws) \<noteq> CHR '' ''"
    using words_of_nonempty [of "[]"] by (intro last_join_space) auto
  then show ?thesis unfolding normalize_def Let_def b by (cases "?ws = []") auto
qed

lemma words_of_case: "words_of w (map c_toupper s) = words_of w s"
proof (induction s arbitrary: w)
  case (Cons c s)
  have "c_isspace (c_toupper c) = c_isspace c" "c_tolower (c_toupper c) = c_tolower c"
    by (auto simp: c_toupper_def c_tolower_def c_isspace_def c_islower_def c_isupper_def char_code_char_of)
      (auto simp: char_code_def)
  then show ?case using Cons by simp
qed simp

lemma prefix_end_spec:
  "e \<le> length name \<Longrightarrow> prefix_end name e \<le> e \<and> (\<forall>i. prefix_end name e \<le> i \<longrightarrow> i < e \<longrightarrow> c_isdigit (name ! i)) \<and>
     (prefix_end name e \<noteq> 0 \<longrightarrow> \<not> c_isdigit (name ! (prefix_end name e - 1)))"
  by (induction e) (auto simp: less_Suc_eq)

section \<open>Cleanup\<close>

lemma map_of_filter_key: "map_of (filter (\<lambda>(k, _). P k) al) k = (if P k then map_of al k else None)"
  by (induction al) auto

section \<open>Properties\<close>

text \<open>
  From a state whose ring positions are inside their buffers (as they are after the first
  configuration), no sequence of messages, connections, disconnections and joins writes outside
  a ring. But reconfiguring with a smaller message buffer keeps the old position, and when that
  position is past the new end the next message writes outside the buffer.
\<close>

theorem spam_rings_in_bounds_until_shrunk:
  assumes "ring_ok s" and "0 < n" and "n \<le> int (sd_message_pos s)" and "sd_message_ring s \<noteq> []"
    and "sc_enabled cfg"
  shows "(\<exists>vs s'. sd_run shash es s = Some (vs, s') \<and> ring_ok s') \<and>
    (\<forall>s'. sd_configure (cfg\<lparr>sc_message_ring_size := n\<rparr>) s = Inr s' \<longrightarrow>
       check_message shash now ipid ip asn m s' = None)"
proof (intro conjI allI impI)
  show "\<exists>vs s'. sd_run shash es s = Some (vs, s') \<and> ring_ok s'" using sd_run_ok [OF assms(1)] .
next
  fix s' assume c: "sd_configure (cfg\<lparr>sc_message_ring_size := n\<rparr>) s = Inr s'"
  then have s': "length (sd_message_ring s') = nat n" "sd_message_pos s' = sd_message_pos s" "sc_enabled (sd_config s')"
    using assms(2,5) by (auto simp: sd_configure_def Let_def split: if_splits)
  have "sd_message_ring s' \<noteq> []" using s'(1) assms(2) by auto
  then have "record_message r (remember_ip ipid ip s') = None" for r
    using s' assms(3) by (simp add: record_message_def)
  then show "check_message shash now ipid ip asn m s' = None"
    using s'(3) by (simp add: check_message_def)
qed

definition spam_demo :: detector where
  "spam_demo = detector_new\<lparr>sd_message_ring := replicate 4 \<lparr>mr_fingerprint = 0, mr_ipid = [], mr_asn = 0, mr_timestamp = 0\<rparr>,
     sd_message_pos := 3\<rparr>"

theorem spam_rings_in_bounds_until_shrunk_witness:
  "\<exists>s'. sd_configure (spam_config_default\<lparr>sc_message_ring_size := 2\<rparr>) spam_demo = Inr s' \<and>
     check_message (\<lambda>_. 0) 5 ''a'' ''10.0.0.1'' 0 ''hi'' s' = None"
proof -
  have r: "ring_ok spam_demo" "(2 :: int) \<le> int (sd_message_pos spam_demo)" "sd_message_ring spam_demo \<noteq> []"
    "sc_enabled spam_config_default"
    by (simp_all add: spam_demo_def ring_ok_def detector_new_def spam_config_default_def)
  obtain s' where "sd_configure (spam_config_default\<lparr>sc_message_ring_size := 2\<rparr>) spam_demo = Inr s'"
    by (simp add: sd_configure_def Let_def spam_config_default_def)
  then show ?thesis
    using spam_rings_in_bounds_until_shrunk [OF r(1) _ r(2-4), THEN conjunct2] by auto
qed

text \<open>
  In an enabled detector, messages with one fingerprint from distinct senders, none of
  them recorded as joining, all within the window from the first, raise exactly one alert: at
  the message of the sender whose number is the threshold.
\<close>

theorem echo_alert_at_threshold:
  assumes "ring_ok s" and "sc_enabled (sd_config s)" and "sd_join_times s = []"
    and "map_of (sd_clusters s) fp = None" and "1 \<le> sc_echo_threshold (sd_config s)"
    and "0 \<le> sc_echo_window_seconds (sd_config s)" and "0 < t0"
    and "\<forall>(now, ipid, ip, asn, m)\<in>set ms. fingerprint shash m = fp \<and>
      now \<le> t0 + sc_echo_window_seconds (sd_config s) * 1000"
    and "ms \<noteq> []" and "fst (hd ms) = t0" and "distinct (map (\<lambda>(now, ipid, ip, asn, m). ipid) ms)"
  shows "\<exists>vs s'. sd_run shash (map (\<lambda>(now, ipid, ip, asn, m). EMessage now ipid ip asn m) ms) s = Some (vs, s') \<and>
    length vs = length ms \<and>
    (\<forall>i<length ms. v_is_spam (vs ! i) \<longleftrightarrow> int i + 1 = sc_echo_threshold (sd_config s))"
proof -
  have "echo_state s fp t0 []"
    using assms(1-4) by (simp add: echo_state_def cluster_of_def fp_cluster_new_def)
  then show ?thesis using echo_run [where ids = "[]", OF _ assms(7,5,6,8)] assms(9-11) by simp
qed

theorem echo_alert_at_threshold_witness:
  "\<exists>vs s'. sd_run (\<lambda>_. 7) [EMessage 1 ''a'' ''1'' 0 ''buy'', EMessage 2 ''b'' ''2'' 0 ''BUY'', EMessage 3 ''c'' ''3'' 0 '' buy'']
     detector_new = Some (vs, s') \<and> map v_is_spam vs = [False, False, True]"
proof -
  let ?ms = "[(1, ''a'', ''1'', 0, ''buy''), (2, ''b'', ''2'', 0, ''BUY''), (3 :: int, ''c'', ''3'', 0 :: u32, '' buy'')]"
  obtain vs s' where r: "sd_run (\<lambda>_. 7) (map (\<lambda>(now, ipid, ip, asn, m). EMessage now ipid ip asn m) ?ms) detector_new
      = Some (vs, s')" "length vs = length ?ms" "\<forall>i<length ?ms. v_is_spam (vs ! i) \<longleftrightarrow> int i + 1 = 3"
    using echo_alert_at_threshold [of detector_new 7 1 ?ms "\<lambda>_. 7"]
    by (auto simp: ring_ok_def detector_new_def spam_config_default_def fingerprint_def)
  have l: "length vs = 3" using r(2) by simp
  then obtain a b c where vs: "vs = [a, b, c]" by (auto simp: numeral_3_eq_3 length_Suc_conv)
  have "v_is_spam (vs ! i) \<longleftrightarrow> int i + 1 = 3" if "i < 3" for i using r(2,3) that l by simp
  from this [of 0] this [of 1] this [of 2] have "map v_is_spam vs = [False, False, True]" by (simp add: vs)
  then show ?thesis using r(1) by auto
qed

text \<open>
  Between two cleanups, whatever else happens, the messages with one fingerprint raise at
  most one alert.
\<close>

theorem spam_cluster_alerts_once:
  assumes "ring_ok s" and "sd_run shash es s = Some (vs, s')"
  shows "alerts shash fp es vs \<le> 1"
  using run_alerts [OF assms, of fp] by (auto split: if_splits)

theorem spam_cluster_alerts_once_witness:
  "\<exists>vs s'. sd_run (\<lambda>_. 7) [EMessage 1 ''a'' ''1'' 0 ''x'', EJoin 2 ''b'', EMessage 3 ''b'' ''2'' 0 ''x''] detector_new
     = Some (vs, s') \<and> alerts (\<lambda>_. 7) 7 [EMessage 1 ''a'' ''1'' 0 ''x'', EJoin 2 ''b'', EMessage 3 ''b'' ''2'' 0 ''x''] vs \<le> 1"
proof -
  have r: "ring_ok detector_new" by (simp add: ring_ok_def detector_new_def)
  show ?thesis using sd_run_ok [OF r] spam_cluster_alerts_once [OF r] by blast
qed

text \<open>
  The fingerprint of a message depends only on its words: it is the hash of the lower-case
  words joined by single spaces, so letter case and the amount of white space do not matter. A
  name pattern is what is left of a name when its trailing digits, at least one, are removed.
\<close>

theorem fingerprint_normalises:
  "fingerprint shash m = shash (join_space (words_of [] m)) \<and>
   fingerprint shash (map c_toupper m) = fingerprint shash m \<and>
   (extract_prefix name = p \<and> p \<noteq> [] \<longrightarrow>
      (\<exists>ds. name = p @ ds \<and> ds \<noteq> [] \<and> (\<forall>c\<in>set ds. c_isdigit c) \<and> \<not> c_isdigit (last p)))"
proof -
  let ?e = "prefix_end name (length name)"
  note e = prefix_end_spec [of "length name" name, OF order_refl]
  have "\<exists>ds. name = p @ ds \<and> ds \<noteq> [] \<and> (\<forall>c\<in>set ds. c_isdigit c) \<and> \<not> c_isdigit (last p)"
    if "extract_prefix name = p" "p \<noteq> []"
  proof -
    have p: "?e \<noteq> length name" "?e \<noteq> 0" "p = take ?e name"
      using that by (auto simp: extract_prefix_def Let_def split: if_splits)
    have "\<forall>c\<in>set (drop ?e name). c_isdigit c"
      using e by (auto simp: in_set_conv_nth)
    moreover have "last p = name ! (?e - 1)"
      using p(2) e by (subst p(3), subst last_conv_nth) (auto simp: min_absorb2)
    ultimately show ?thesis using p e by (intro exI [of _ "drop ?e name"]) auto
  qed
  then show ?thesis by (simp add: fingerprint_def normalize_words words_of_case)
qed

theorem fingerprint_normalises_witness:
  "\<exists>ds. ''TuskNail2638'' = ''TuskNail'' @ ds \<and> ds \<noteq> []"
proof -
  have "extract_prefix ''TuskNail2638'' = ''TuskNail''" by code_simp
  then show ?thesis using fingerprint_normalises [of "\<lambda>_. 0" "[]" "''TuskNail2638''" "''TuskNail''"] by blast
qed

text \<open>
  The periodic cleanup keeps the address of every participant of a surviving cluster, so a
  later alert still resolves it, forgets every other address, and empties all ghost counts; a
  cluster survives exactly when it was seen within the window.
\<close>

theorem sweep_keeps_participants:
  assumes "sd_sweep now s = s'"
  shows "(\<forall>fp c. (fp, c) \<in> set (sd_clusters s') \<longleftrightarrow> (fp, c) \<in> set (sd_clusters s) \<and>
      now - sc_echo_window_seconds (sd_config s) * 1000 \<le> fc_last_seen c) \<and>
    (\<forall>fp c pid. (fp, c) \<in> set (sd_clusters s') \<longrightarrow> pid \<in> set (fc_ipids c) \<longrightarrow>
      map_of (sd_ipid_to_ip s') pid = map_of (sd_ipid_to_ip s) pid) \<and>
    (\<forall>fp c. (fp, c) \<in> set (sd_clusters s') \<longrightarrow> participants_of s' (fc_ipids c) = participants_of s (fc_ipids c)) \<and>
    (\<forall>(pid, ip)\<in>set (sd_ipid_to_ip s'). (\<exists>(fp, c)\<in>set (sd_clusters s'). pid \<in> set (fc_ipids c)) \<or>
      (\<exists>(p, c)\<in>set (sd_prefixes s'). pid \<in> set (pc_ipids c))) \<and>
    sd_ghosts s' = []"
proof -
  have 1: "(fp, c) \<in> set (sd_clusters s') \<longleftrightarrow> (fp, c) \<in> set (sd_clusters s) \<and>
      now - sc_echo_window_seconds (sd_config s) * 1000 \<le> fc_last_seen c" for fp c
    using assms by (auto simp: sd_sweep_def Let_def)
  have 2: "map_of (sd_ipid_to_ip s') pid = map_of (sd_ipid_to_ip s) pid"
    if "(fp, c) \<in> set (sd_clusters s')" "pid \<in> set (fc_ipids c)" for fp c pid
    using assms that by (force simp: sd_sweep_def Let_def map_of_filter_key)
  have 3: "participants_of s' (fc_ipids c) = participants_of s (fc_ipids c)" if "(fp, c) \<in> set (sd_clusters s')" for fp c
    unfolding participants_of_def using 2 [OF that] by (intro arg_cong [of _ _ concat] map_cong) auto
  have 4: "\<forall>(pid, ip)\<in>set (sd_ipid_to_ip s'). (\<exists>(fp, c)\<in>set (sd_clusters s'). pid \<in> set (fc_ipids c)) \<or>
      (\<exists>(p, c)\<in>set (sd_prefixes s'). pid \<in> set (pc_ipids c))"
    using assms by (fastforce simp: sd_sweep_def Let_def)
  have 5: "sd_ghosts s' = []" using assms by (auto simp: sd_sweep_def Let_def)
  show ?thesis using 1 2 3 4 5 by blast
qed

theorem sweep_keeps_participants_witness:
  "sd_ghosts (sd_sweep 10 detector_new) = []"
  using sweep_keeps_participants [of 10 detector_new, OF refl] by simp

end
