(* ===== verification/Queue_Interface.thy ===== *)
theory Queue_Interface
  imports Prelude "HOL-Library.Sublist"
begin

text \<open>
  What the clients of the program's event queues rely on: a queue hands its elements out in the
  order they came in. An element may be one that flushes the queue (an objection interrupts the
  courtroom), a dequeue may be refused, and a queue may have further operations that do not
  touch its elements. The lemmas about whole runs are proved here once.
\<close>

section \<open>Runs of queue operations\<close>

datatype ('a, 'o) queue_op = Enq 'a | Deq | Other 'o

fun queue_run :: "('a \<Rightarrow> 'q \<Rightarrow> 'q) \<Rightarrow> ('q \<Rightarrow> 'a option \<times> 'q) \<Rightarrow> ('o \<Rightarrow> 'q \<Rightarrow> 'q)
    \<Rightarrow> ('a, 'o) queue_op list \<Rightarrow> 'q \<Rightarrow> 'a list \<times> 'q" where
  "queue_run enq deq other [] q = ([], q)"
| "queue_run enq deq other (Enq a # ops) q = queue_run enq deq other ops (enq a q)"
| "queue_run enq deq other (Other x # ops) q = queue_run enq deq other ops (other x q)"
| "queue_run enq deq other (Deq # ops) q =
     (case deq q of
        (None, q') \<Rightarrow> queue_run enq deq other ops q'
      | (Some a, q') \<Rightarrow> (case queue_run enq deq other ops q' of (as, q'') \<Rightarrow> (a # as, q'')))"

fun enqueued :: "('a, 'o) queue_op list \<Rightarrow> 'a list" where
  "enqueued [] = []"
| "enqueued (Enq a # ops) = a # enqueued ops"
| "enqueued (op # ops) = enqueued ops"

lemma enqueued_append [simp]: "enqueued (xs @ ys) = enqueued xs @ enqueued ys"
  by (induction xs rule: enqueued.induct) auto

lemma queue_run_append:
  "queue_run enq deq other (xs @ ys) q =
     (case queue_run enq deq other xs q of (as, q') \<Rightarrow>
        case queue_run enq deq other ys q' of (bs, q'') \<Rightarrow> (as @ bs, q''))"
proof (induction xs arbitrary: q)
  case (Cons x xs)
  then show ?case by (cases x) (auto split: prod.splits option.splits)
qed auto

section \<open>The interface\<close>

locale fifo_queue =
  fixes qenq :: "'a \<Rightarrow> 'q \<Rightarrow> 'q"
    and qdeq :: "'q \<Rightarrow> 'a option \<times> 'q"
    and qother :: "'o \<Rightarrow> 'q \<Rightarrow> 'q"
    and qitems :: "'q \<Rightarrow> 'a list"
    and qflush :: "'a \<Rightarrow> bool"
  assumes items_enq: "qitems (qenq a q) = (if qflush a then [] else qitems q) @ [a]"
    and items_deq_none: "qdeq q = (None, q') \<Longrightarrow> qitems q' = qitems q"
    and items_deq_some: "qdeq q = (Some a, q') \<Longrightarrow> qitems q = a # qitems q'"
    and items_other: "qitems (qother x q) = qitems q"
begin

abbreviation run :: "('a, 'o) queue_op list \<Rightarrow> 'q \<Rightarrow> 'a list \<times> 'q" where
  "run \<equiv> queue_run qenq qdeq qother"

text \<open>Without a flushing element nothing is lost, duplicated or reordered.\<close>

lemma run_exact:
  "run ops q = (outs, q') \<Longrightarrow> \<forall>a\<in>set (enqueued ops). \<not> qflush a \<Longrightarrow>
     qitems q @ enqueued ops = outs @ qitems q'"
proof (induction ops arbitrary: q outs)
  case (Cons op ops)
  show ?case
  proof (cases op)
    case Deq
    obtain r q1 where d: "qdeq q = (r, q1)" by fastforce
    have i: "qitems q = (case r of None \<Rightarrow> qitems q1 | Some a \<Rightarrow> a # qitems q1)"
      using items_deq_none items_deq_some d by (cases r) auto
    show ?thesis using Cons Deq d i by (cases r) (auto split: prod.splits)
  qed (use Cons in \<open>fastforce simp: items_enq items_other\<close>)+
qed simp

text \<open>With flushing elements the output is still in order and without duplicates.\<close>

lemma run_subseq: "run ops q = (outs, q') \<Longrightarrow> subseq (outs @ qitems q') (qitems q @ enqueued ops)"
proof (induction ops arbitrary: q outs)
  case (Cons op ops)
  show ?case
  proof (cases op)
    case (Enq a)
    have "subseq (outs @ qitems q') (qitems (qenq a q) @ enqueued ops)"
      using Cons Enq by simp
    moreover have "subseq (qitems (qenq a q) @ enqueued ops) (qitems q @ enqueued (op # ops))"
      by (cases "qflush a") (auto simp: Enq items_enq intro: subseq_drop_many)
    ultimately show ?thesis by (rule subseq_order.trans)
  next
    case Deq
    obtain r q1 where d: "qdeq q = (r, q1)" by fastforce
    have i: "qitems q = (case r of None \<Rightarrow> qitems q1 | Some a \<Rightarrow> a # qitems q1)"
      using items_deq_none items_deq_some d by (cases r) auto
    show ?thesis using Cons Deq d i by (cases r) (auto split: prod.splits)
  next
    case (Other x)
    with Cons.prems have "subseq (outs @ qitems q') (qitems (qother x q) @ enqueued ops)"
      by (intro Cons.IH) simp
    with Other show ?thesis by (simp add: items_other)
  qed
qed simp

text \<open>What comes out after a flushing element starts with that element.\<close>

lemma run_after_flush:
  assumes "run (Enq a # ops) q = (outs, q')" "qflush a" "\<forall>b\<in>set (enqueued ops). \<not> qflush b"
  shows "outs @ qitems q' = a # enqueued ops"
  using run_exact [of ops "qenq a q" outs q'] assms by (simp add: items_enq)

end

end
