(* ===== verification/Event_Channel.thy ===== *)
theory Event_Channel
  imports Queue_Interface
begin

text \<open>
  The event system: \<open>EventChannel\<close> (include/event/EventChannel.h), a mutex-guarded FIFO with a
  publish counter and an optional callback, and \<open>EventManager\<close> (include/event/EventManager.h),
  the lazily filled registry of one channel per event type.
  Every method runs under the channel's mutex, so a method is one atomic step; the callback of
  \<open>publish\<close> is copied under the lock and invoked after it, hence it is an output of the step.
\<close>

section \<open>One channel\<close>

record ('e, 'c) event_channel =
  event_queue :: "'e list"
  publish_count :: u64
  on_publish :: "'c option"

definition channel_new :: "('e, 'c) event_channel" where
  "channel_new = \<lparr>event_queue = [], publish_count = 0, on_publish = None\<rparr>"

text \<open>The second component is the callback that is invoked once the lock is released.\<close>

definition publish :: "'e \<Rightarrow> ('e, 'c) event_channel \<Rightarrow> ('e, 'c) event_channel \<times> 'c option" where
  "publish ev ch =
     (ch\<lparr>event_queue := event_queue ch @ [ev], publish_count := publish_count ch + 1\<rparr>, on_publish ch)"

definition set_on_publish :: "'c option \<Rightarrow> ('e, 'c) event_channel \<Rightarrow> ('e, 'c) event_channel" where
  "set_on_publish cb ch = ch\<lparr>on_publish := (case cb of Some f \<Rightarrow> Some f | None \<Rightarrow> None)\<rparr>"

definition channel_size :: "('e, 'c) event_channel \<Rightarrow> nat" where
  "channel_size ch = length (event_queue ch)"

definition has_events :: "('e, 'c) event_channel \<Rightarrow> bool" where
  "has_events ch = (event_queue ch \<noteq> [])"

definition get_event :: "('e, 'c) event_channel \<Rightarrow> 'e option \<times> ('e, 'c) event_channel" where
  "get_event ch =
     (case event_queue ch of
        [] \<Rightarrow> (None, ch)
      | ev # rest \<Rightarrow> (Some ev, ch\<lparr>event_queue := rest\<rparr>))"

interpretation ec: fifo_queue "\<lambda>ev ch. fst (publish ev ch)" get_event set_on_publish event_queue "\<lambda>_. False"
  by unfold_locales (auto simp: publish_def get_event_def set_on_publish_def split: list.splits)

section \<open>The registry of channels\<close>

text \<open>
  \<open>raw_type\<close> is the type a wrapper was instantiated with; \<open>dynamic_cast\<close> to the wrapper of
  type \<open>t\<close> succeeds exactly when it is \<open>t\<close>. A reference to a channel is its key, because a
  channel is never removed or replaced.
\<close>

record ('t, 'e, 'c) channel_wrapper =
  raw_type :: 't
  channel :: "('e, 'c) event_channel"

type_synonym ('t, 'e, 'c) event_manager = "'t \<rightharpoonup> ('t, 'e, 'c) channel_wrapper"

datatype event_error = Channel_type_mismatch

definition wrapper_new :: "'t \<Rightarrow> ('t, 'e, 'c) channel_wrapper" where
  "wrapper_new t = \<lparr>raw_type = t, channel = channel_new\<rparr>"

definition get_channel :: "'t \<Rightarrow> ('t, 'e, 'c) event_manager
    \<Rightarrow> event_error + ('e, 'c) event_channel \<times> ('t, 'e, 'c) event_manager" where
  "get_channel t m =
     (case m t of
        None \<Rightarrow> (let w = wrapper_new t in Inr (channel w, m(t \<mapsto> w)))
      | Some w \<Rightarrow> if raw_type w = t then Inr (channel w, m) else Inl Channel_type_mismatch)"

text \<open>A method called on the reference that \<open>get_channel\<close> returned.\<close>

definition on_channel :: "'t \<Rightarrow> (('e, 'c) event_channel \<Rightarrow> 'r \<times> ('e, 'c) event_channel)
    \<Rightarrow> ('t, 'e, 'c) event_manager \<Rightarrow> event_error + 'r \<times> ('t, 'e, 'c) event_manager" where
  "on_channel t f m =
     (case get_channel t m of
        Inl e \<Rightarrow> Inl e
      | Inr (ch, m') \<Rightarrow>
          (case f ch of (r, ch') \<Rightarrow> Inr (r, m'(t \<mapsto> (case m' t of
              Some w \<Rightarrow> w\<lparr>channel := ch'\<rparr> | None \<Rightarrow> \<lparr>raw_type = t, channel = ch'\<rparr>)))))"

text \<open>
  The registry is an \<open>unordered_map\<close>: \<open>ts\<close> is the order in which it enumerates its keys.
  \<open>std::sort\<close> with the strict order "larger count first" is a sort by descending count; its
  order among equal counts is that of some enumeration.
\<close>

definition snapshot_channel_stats :: "'t list \<Rightarrow> ('t, 'e, 'c) event_manager \<Rightarrow> ('t \<times> u64) list" where
  "snapshot_channel_stats ts m =
     sort_key (\<lambda>s. - int (unat (snd s)))
       (List.map_filter (\<lambda>t. map_option (\<lambda>w. (raw_type w, publish_count (channel w))) (m t)) ts)"

section \<open>A channel with its consumer\<close>

text \<open>
  The use the network threads make of a channel (\<open>ws_client_thread\<close>, the SSE loop): the callback
  notifies the poller the consumer sleeps on, and the consumer drains the channel after every
  wake-up. A publisher stands between its unlock and its callback for as long as
  \<open>firing\<close> holds that callback.
\<close>

record 'e channel_sys =
  chan :: "('e, unit) event_channel"
  firing :: nat
  notified :: bool
  draining :: bool

definition sys_publish :: "'e \<Rightarrow> 'e channel_sys \<Rightarrow> 'e channel_sys" where
  "sys_publish ev s =
     (case publish ev (chan s) of (ch, cb) \<Rightarrow>
        s\<lparr>chan := ch, firing := firing s + (case cb of Some _ \<Rightarrow> 1 | None \<Rightarrow> 0)\<rparr>)"

definition sys_drain :: "'e channel_sys \<Rightarrow> 'e option \<times> 'e channel_sys" where
  "sys_drain s =
     (case get_event (chan s) of
        (None, ch) \<Rightarrow> (None, s\<lparr>chan := ch, draining := False\<rparr>)
      | (Some ev, ch) \<Rightarrow> (Some ev, s\<lparr>chan := ch\<rparr>))"

datatype 'e sys_event = Published 'e | Fired | Taken 'e | Slept | Woke

inductive sys_step :: "'e channel_sys \<Rightarrow> 'e sys_event \<Rightarrow> 'e channel_sys \<Rightarrow> bool" where
  step_publish: "sys_step s (Published ev) (sys_publish ev s)"
| step_fire: "firing s > 0 \<Longrightarrow> sys_step s Fired (s\<lparr>firing := firing s - 1, notified := True\<rparr>)"
| step_take: "draining s \<Longrightarrow> sys_drain s = (Some ev, s') \<Longrightarrow> sys_step s (Taken ev) s'"
| step_sleep: "draining s \<Longrightarrow> sys_drain s = (None, s') \<Longrightarrow> sys_step s Slept s'"
| step_wake: "\<not> draining s \<Longrightarrow> notified s \<Longrightarrow> sys_step s Woke (s\<lparr>notified := False, draining := True\<rparr>)"

inductive sys_run :: "'e channel_sys \<Rightarrow> 'e sys_event list \<Rightarrow> 'e channel_sys \<Rightarrow> bool" where
  run_nil: "sys_run s [] s"
| run_snoc: "sys_run s xs s' \<Longrightarrow> sys_step s' x s'' \<Longrightarrow> sys_run s (xs @ [x]) s''"

inductive_cases sys_stepE: "sys_step s x s'"

definition sys_start :: "'e channel_sys" where
  "sys_start = \<lparr>chan = set_on_publish (Some ()) channel_new, firing = 0, notified = False, draining = True\<rparr>"

section \<open>Lemmas\<close>

lemma channel_fields [frame_simps]:
  "on_publish (fst (publish ev ch)) = on_publish ch"
  "publish_count (fst (publish ev ch)) = publish_count ch + 1"
  "on_publish (snd (get_event ch)) = on_publish ch"
  "publish_count (snd (get_event ch)) = publish_count ch"
  "publish_count (set_on_publish cb ch) = publish_count ch"
  "event_queue (set_on_publish cb ch) = event_queue ch"
  "on_publish (set_on_publish cb ch) = cb"
  by (auto simp: publish_def get_event_def set_on_publish_def split: list.splits option.splits)

abbreviation channel_run where
  "channel_run \<equiv> queue_run (\<lambda>ev ch. fst (publish ev ch)) get_event set_on_publish"

lemma channel_run_count:
  "publish_count (snd (channel_run ops ch)) = publish_count ch + of_nat (length (enqueued ops))"
proof (induction ops arbitrary: ch)
  case (Cons op ops)
  show ?case
  proof (cases op)
    case Deq
    have "publish_count (snd (get_event ch)) = publish_count ch" by (simp add: frame_simps)
    with Deq Cons show ?thesis by (auto split: prod.splits option.splits) (metis snd_conv)+
  qed (use Cons in \<open>auto simp: frame_simps\<close>)
qed simp

text \<open>The registry's invariant: a channel is filed under the type it carries.\<close>

definition manager_ok :: "('t, 'e, 'c) event_manager \<Rightarrow> bool" where
  "manager_ok m = (\<forall>t w. m t = Some w \<longrightarrow> raw_type w = t)"

definition channel_of :: "('t, 'e, 'c) event_manager \<Rightarrow> 't \<Rightarrow> ('e, 'c) event_channel" where
  "channel_of m t = (case m t of Some w \<Rightarrow> channel w | None \<Rightarrow> channel_new)"

lemma manager_ok_empty: "manager_ok Map.empty"
  by (simp add: manager_ok_def)

lemma on_channel_ok:
  assumes "manager_ok m"
  shows "\<exists>m'. on_channel t f m = Inr (fst (f (channel_of m t)), m') \<and> manager_ok m'
     \<and> channel_of m' = (channel_of m)(t := snd (f (channel_of m t)))
     \<and> dom m' = insert t (dom m)"
proof (cases "m t")
  case None
  then show ?thesis using assms
    by (auto simp: on_channel_def get_channel_def channel_of_def wrapper_new_def manager_ok_def
        split: prod.splits)
next
  case (Some w)
  let ?m = "m(t \<mapsto> w\<lparr>channel := snd (f (channel w))\<rparr>)"
  have "raw_type w = t" using assms Some by (simp add: manager_ok_def)
  then have "on_channel t f m = Inr (fst (f (channel_of m t)), ?m) \<and> manager_ok ?m
     \<and> channel_of ?m = (channel_of m)(t := snd (f (channel_of m t))) \<and> dom ?m = insert t (dom m)"
    using assms Some
    by (auto simp: on_channel_def get_channel_def channel_of_def manager_ok_def fun_eq_iff
        split: prod.splits)
  then show ?thesis by blast
qed

text \<open>A sequence of accesses, each through its own \<open>get_channel\<close>.\<close>

fun manager_run :: "('t \<times> (('e, 'c) event_channel \<Rightarrow> 'r \<times> ('e, 'c) event_channel)) list
    \<Rightarrow> ('t, 'e, 'c) event_manager \<Rightarrow> event_error + 'r list \<times> ('t, 'e, 'c) event_manager" where
  "manager_run [] m = Inr ([], m)"
| "manager_run ((t, f) # acts) m =
     (case on_channel t f m of
        Inl e \<Rightarrow> Inl e
      | Inr (r, m') \<Rightarrow>
          (case manager_run acts m' of Inl e \<Rightarrow> Inl e | Inr (rs, m'') \<Rightarrow> Inr (r # rs, m'')))"

definition accesses_of :: "'t \<Rightarrow> ('t \<times> 'f) list \<Rightarrow> 'f list" where
  "accesses_of t acts = map snd (filter (\<lambda>p. fst p = t) acts)"

lemma manager_run_ok:
  "manager_ok m \<Longrightarrow> \<exists>rs m'. manager_run acts m = Inr (rs, m') \<and> manager_ok m'
     \<and> dom m' = fst ` set acts \<union> dom m
     \<and> (\<forall>t. channel_of m' t = fold (\<lambda>f ch. snd (f ch)) (accesses_of t acts) (channel_of m t))"
proof (induction acts arbitrary: m)
  case (Cons a acts)
  obtain t f where a: "a = (t, f)" by fastforce
  obtain m1 where m1: "on_channel t f m = Inr (fst (f (channel_of m t)), m1)" "manager_ok m1"
    "channel_of m1 = (channel_of m)(t := snd (f (channel_of m t)))" "dom m1 = insert t (dom m)"
    using on_channel_ok [OF Cons.prems, of t f] by blast
  from Cons.IH [OF m1(2)] obtain rs m2 where "manager_run acts m1 = Inr (rs, m2)" "manager_ok m2"
    "dom m2 = fst ` set acts \<union> dom m1"
    "\<forall>t. channel_of m2 t = fold (\<lambda>f ch. snd (f ch)) (accesses_of t acts) (channel_of m1 t)"
    by blast
  then show ?case using m1 by (auto simp: a accesses_of_def)
qed (auto simp: accesses_of_def)

lemma snapshot_sorted: "sorted_wrt (\<lambda>a b. snd b \<le> snd a) (snapshot_channel_stats ts m)"
proof -
  have "sorted_wrt (\<lambda>a b. - int (unat (snd a)) \<le> - int (unat (snd b))) (snapshot_channel_stats ts m)"
    unfolding snapshot_channel_stats_def
    by (rule sorted_sort_key [unfolded sorted_wrt_map])
  then show ?thesis by (rule sorted_wrt_mono_rel [rotated]) (simp add: word_le_def)
qed

lemma snapshot_set:
  assumes "manager_ok m" "set ts = dom m"
  shows "set (snapshot_channel_stats ts m) = {(t, publish_count (channel_of m t)) | t. t \<in> dom m}"
proof -
  have some: "set (List.map_filter f xs) = {y. \<exists>x\<in>set xs. f x = Some y}" for f :: "'d \<Rightarrow> 'f option" and xs
    by (induction xs) (auto simp: List.map_filter_def)
  show ?thesis
    using assms unfolding snapshot_channel_stats_def set_sort some
    by (auto simp: manager_ok_def channel_of_def) (metis domI)
qed

lemma snapshot_length:
  assumes "set ts = dom m"
  shows "length (snapshot_channel_stats ts m) = length ts"
proof -
  have "filter (\<lambda>t. map_option (\<lambda>w. (raw_type w, publish_count (channel w))) (m t) \<noteq> None) ts = ts"
    using assms by (intro filter_True) auto
  then show ?thesis by (simp add: snapshot_channel_stats_def List.map_filter_def)
qed

text \<open>No wake-up is lost, and every step that is not a publish brings the system closer to rest.\<close>

definition sys_ok :: "'e channel_sys \<Rightarrow> bool" where
  "sys_ok s = (on_publish (chan s) = Some ()
     \<and> (draining s \<or> event_queue (chan s) = [] \<or> notified s \<or> firing s > 0))"

definition sys_measure :: "'e channel_sys \<Rightarrow> nat" where
  "sys_measure s = 3 * firing s + (if notified s then 2 else 0) + (if draining s then 1 else 0)
     + length (event_queue (chan s))"

fun published :: "'e sys_event list \<Rightarrow> 'e list" where
  "published [] = []"
| "published (Published ev # xs) = ev # published xs"
| "published (x # xs) = published xs"

fun taken_events :: "'e sys_event list \<Rightarrow> 'e list" where
  "taken_events [] = []"
| "taken_events (Taken ev # xs) = ev # taken_events xs"
| "taken_events (x # xs) = taken_events xs"

lemma trace_append [simp]:
  "published (xs @ ys) = published xs @ published ys"
  "taken_events (xs @ ys) = taken_events xs @ taken_events ys"
  by (induction xs rule: published.induct) simp_all

lemmas sys_defs = sys_publish_def sys_drain_def publish_def get_event_def

lemma sys_step_ok:
  assumes "sys_step s x s'" "sys_ok s"
  shows "sys_ok s' \<and> event_queue (chan s) @ published [x] = taken_events [x] @ event_queue (chan s')
     \<and> (published [x] = [] \<longrightarrow> sys_measure s' < sys_measure s)"
  using assms
  by (elim sys_stepE) (auto simp: sys_defs sys_ok_def sys_measure_def split: list.splits prod.splits option.splits)

lemma sys_run_ok:
  assumes "sys_run s xs s'" "sys_ok s"
  shows "sys_ok s' \<and> event_queue (chan s) @ published xs = taken_events xs @ event_queue (chan s')
     \<and> (published xs = [] \<longrightarrow> sys_measure s' + length xs \<le> sys_measure s)"
  using assms
proof (induction rule: sys_run.induct)
  case (run_snoc s xs s' x s'')
  note IH = run_snoc.IH [OF run_snoc.prems]
  then have "sys_ok s'" by blast
  from sys_step_ok [OF run_snoc.hyps(2) this] IH
  have st: "event_queue (chan s') @ published [x] = taken_events [x] @ event_queue (chan s'')"
    "published [x] = [] \<longrightarrow> sys_measure s'' < sys_measure s'" "sys_ok s''"
    and pre: "event_queue (chan s) @ published xs = taken_events xs @ event_queue (chan s')"
    "published xs = [] \<longrightarrow> sys_measure s' + length xs \<le> sys_measure s" by blast+
  have "event_queue (chan s) @ published (xs @ [x]) = taken_events xs @ event_queue (chan s') @ published [x]"
    using pre(1) by simp
  then show ?case using st pre(2) by auto
qed simp

lemma sys_run_Cons: "sys_run s' xs s'' \<Longrightarrow> sys_step s x s' \<Longrightarrow> sys_run s (x # xs) s''"
proof (induction rule: sys_run.induct)
  case (run_nil s')
  then show ?case using sys_run.run_snoc [OF sys_run.run_nil, of s x s'] by simp
next
  case (run_snoc s1 xs s2 y s3)
  then show ?case using sys_run.run_snoc [of s "x # xs" s2 y s3] by simp
qed

lemma sys_start_ok: "sys_ok sys_start"
  by (simp add: sys_ok_def sys_start_def set_on_publish_def)

lemma sys_stuck_empty:
  assumes "sys_ok s" "\<forall>x s'. sys_step s x s' \<longrightarrow> published [x] \<noteq> []"
  shows "event_queue (chan s) = []"
proof (rule ccontr)
  assume q: "event_queue (chan s) \<noteq> []"
  consider "draining s" | "notified s" "\<not> draining s" | "firing s > 0" using assms(1) q by (auto simp: sys_ok_def)
  then have "\<exists>x s'. sys_step s x s' \<and> published [x] = []"
  proof cases
    case 1
    with q obtain ev rest where "event_queue (chan s) = ev # rest" by (cases "event_queue (chan s)") auto
    then have "sys_drain s = (Some ev, s\<lparr>chan := (chan s)\<lparr>event_queue := rest\<rparr>\<rparr>)"
      by (simp add: sys_drain_def get_event_def)
    from step_take [OF 1 this] show ?thesis by fastforce
  next
    case 2
    from step_wake [OF 2(2) 2(1)] show ?thesis by fastforce
  next
    case 3
    from step_fire [OF 3] show ?thesis by fastforce
  qed
  with assms(2) show False by blast
qed

section \<open>Properties\<close>

text \<open>A channel is a FIFO queue that loses nothing: after any sequence of publishes, takes and
callback changes, the events that were queued before followed by those published since are
exactly the events handed out followed by those still queued, in that order; the publish counter
has advanced by the number of publishes (modulo 2^64), \<open>size\<close> is what is left, and
\<open>has_events\<close> tells whether the next take succeeds.\<close>

theorem event_channel_fifo:
  assumes "channel_run ops ch = (outs, ch')"
  shows "event_queue ch @ enqueued ops = outs @ event_queue ch'
     \<and> publish_count ch' = publish_count ch + of_nat (length (enqueued ops))
     \<and> int (channel_size ch') = int (channel_size ch) + int (length (enqueued ops)) - int (length outs)
     \<and> (has_events ch' \<longleftrightarrow> fst (get_event ch') \<noteq> None)"
proof -
  have *: "event_queue ch @ enqueued ops = outs @ event_queue ch'"
    using ec.run_exact [OF assms] by simp
  moreover have "publish_count ch' = publish_count ch + of_nat (length (enqueued ops))"
    using channel_run_count [of ops ch] assms by simp
  moreover have "length (event_queue ch) + length (enqueued ops) = length outs + length (event_queue ch')"
    using arg_cong [OF *, of length] by simp
  moreover have "has_events ch' \<longleftrightarrow> fst (get_event ch') \<noteq> None"
    by (simp add: has_events_def get_event_def split: list.splits)
  ultimately show ?thesis by (simp add: channel_size_def)
qed

theorem event_channel_fifo_witness:
  "event_queue (channel_new :: (nat, nat) event_channel) @ enqueued [Enq 1, Enq 2, Other (Some 7), Deq, Enq (3::nat)]
     = [1] @ [2, 3]"
  using event_channel_fifo [of "[Enq 1, Enq 2, Other (Some (7::nat)), Deq, Enq (3::nat)]" channel_new "[1]"
      "\<lparr>event_queue = [2, 3], publish_count = 3, on_publish = Some 7\<rparr>"]
  by (simp add: channel_new_def publish_def get_event_def set_on_publish_def)

text \<open>The registry never throws its type mismatch, and channels are independent: after any
sequence of accesses every channel is what the accesses to its own type alone made of a fresh
channel, a channel exists exactly for the types accessed, and the statistics list every one of
them once with its publish count, largest count first.\<close>

theorem event_manager_isolates_channels:
  "\<exists>rs m. manager_run acts Map.empty = Inr (rs, m)
     \<and> dom m = set (map fst acts)
     \<and> (\<forall>t. channel_of m t = fold (\<lambda>f ch. snd (f ch)) (accesses_of t acts) channel_new)
     \<and> (\<forall>ts. distinct ts \<and> set ts = dom m \<longrightarrow>
          sorted_wrt (\<lambda>a b. snd b \<le> snd a) (snapshot_channel_stats ts m)
          \<and> length (snapshot_channel_stats ts m) = card (dom m)
          \<and> set (snapshot_channel_stats ts m) = {(t, publish_count (channel_of m t)) | t. t \<in> dom m})"
proof -
  obtain rs m where m: "manager_run acts Map.empty = Inr (rs, m)" "manager_ok m" "dom m = fst ` set acts"
    "\<forall>t. channel_of m t = fold (\<lambda>f ch. snd (f ch)) (accesses_of t acts) (channel_of Map.empty t)"
    using manager_run_ok [OF manager_ok_empty, of acts] by auto
  have "length (snapshot_channel_stats ts m) = card (dom m)" if "distinct ts" "set ts = dom m" for ts
    using snapshot_length [of ts m] that distinct_card [of ts] by simp
  with m show ?thesis
    by (auto simp: snapshot_sorted snapshot_set channel_of_def)
qed

text \<open>The registry at work: two types, one of them published to twice.\<close>

definition demo_accesses :: "(nat \<times> ((nat, unit) event_channel \<Rightarrow> unit option \<times> (nat, unit) event_channel)) list" where
  "demo_accesses = [(0, \<lambda>ch. prod.swap (publish 1 ch)), (1, \<lambda>ch. prod.swap (publish 2 ch)),
     (0, \<lambda>ch. prod.swap (publish 3 ch))]"

theorem event_manager_isolates_channels_witness:
  "\<exists>rs m. manager_run demo_accesses Map.empty = Inr (rs, m)
     \<and> event_queue (channel_of m 0) = [1, 3]
     \<and> sorted_wrt (\<lambda>a b. snd b \<le> snd a) (snapshot_channel_stats [1, 0] m)"
proof -
  obtain rs m where m: "manager_run demo_accesses Map.empty = Inr (rs, m)"
    "dom m = set (map fst demo_accesses)"
    "\<forall>t. channel_of m t = fold (\<lambda>f ch. snd (f ch)) (accesses_of t demo_accesses) channel_new"
    "\<forall>ts. distinct ts \<and> set ts = dom m \<longrightarrow> sorted_wrt (\<lambda>a b. snd b \<le> snd a) (snapshot_channel_stats ts m)
       \<and> length (snapshot_channel_stats ts m) = card (dom m)
       \<and> set (snapshot_channel_stats ts m) = {(t, publish_count (channel_of m t)) | t. t \<in> dom m}"
    using event_manager_isolates_channels [of demo_accesses] by (elim exE conjE)
  have "set [1, 0] = dom m" unfolding m(2) by (auto simp: demo_accesses_def)
  moreover have "distinct [1, 0 :: nat]" by simp
  ultimately have "sorted_wrt (\<lambda>a b. snd b \<le> snd a) (snapshot_channel_stats [1, 0] m)"
    by (intro m(4) [THEN spec, THEN mp, THEN conjunct1] conjI)
  moreover have "event_queue (channel_of m 0) = [1, 3]"
    using m(3) by (simp add: accesses_of_def demo_accesses_def publish_def channel_new_def)
  ultimately show ?thesis using m(1) by blast
qed

text \<open>C40: No wake-up is lost between publishers and a sleeping consumer: from every reachable
state, however the steps interleave, the run comes to rest after a bounded number of steps once
publishing stops, and at rest the consumer has received every event that was still queued, in
the order of publication.\<close>

theorem no_lost_wakeup:
  assumes "sys_run sys_start before s" "sys_run s after s'" "published after = []"
  shows "length after \<le> sys_measure s
     \<and> taken_events (before @ after) @ event_queue (chan s') = published before
     \<and> ((\<forall>x s''. sys_step s' x s'' \<longrightarrow> published [x] \<noteq> []) \<longrightarrow>
          taken_events after = event_queue (chan s) \<and> taken_events (before @ after) = published before)"
proof -
  have s: "sys_ok s" "published before = taken_events before @ event_queue (chan s)"
    using sys_run_ok [OF assms(1) sys_start_ok]
    by (auto simp: sys_start_def channel_new_def set_on_publish_def)
  have s': "sys_ok s'" "event_queue (chan s) = taken_events after @ event_queue (chan s')"
    "length after \<le> sys_measure s"
    using sys_run_ok [OF assms(2) s(1)] assms(3) by auto
  show ?thesis using s s' sys_stuck_empty [OF s'(1)] by auto
qed

theorem no_lost_wakeup_witness:
  "taken_events ([Published (5::nat)] @ [Taken 5, Slept, Fired, Woke, Slept]) = [5]"
proof -
  let ?s = "\<lambda>q f n d. \<lparr>chan = \<lparr>event_queue = q, publish_count = 1, on_publish = Some ()\<rparr>,
     firing = f, notified = n, draining = d\<rparr> :: nat channel_sys"
  have "sys_run sys_start [Published 5] (sys_publish 5 sys_start)"
    by (intro sys_run_Cons [OF run_nil] step_publish)
  then have pub: "sys_run sys_start [Published 5] (?s [5] 1 False True)"
    by (simp add: sys_start_def channel_new_def set_on_publish_def sys_publish_def publish_def)
  have fire: "sys_step (?s [] 1 False False) Fired (?s [] 0 True False)"
    using step_fire [of "?s [] 1 False False"] by simp
  have wake: "sys_step (?s [] 0 True False) Woke (?s [] 0 False True)"
    using step_wake [of "?s [] 0 True False"] by simp
  have take: "sys_step (?s [5] 1 False True) (Taken 5) (?s [] 1 False True)"
    by (rule step_take) (simp_all add: sys_defs)
  have sleep: "sys_step (?s [] n False True) Slept (?s [] n False False)" for n
    by (rule step_sleep) (simp_all add: sys_defs)
  have rest: "sys_run (?s [5] 1 False True) [Taken 5, Slept, Fired, Woke, Slept] (?s [] 0 False False)"
    using sys_run_Cons [OF sys_run_Cons [OF sys_run_Cons [OF sys_run_Cons [OF sys_run_Cons [OF sys_run.run_nil
      sleep] wake] fire] sleep] take] .
  show ?thesis using no_lost_wakeup [OF pub rest] by simp
qed

end
