(* ===== verification/IC_Queue.thy ===== *)
theory IC_Queue
  imports Queue_Interface
begin

text \<open>
  In-character messages on the client: the event that carries one
  (include/event/ICMessageEvent.h) and the queue that plays them one after the other
  (plugins/ao/game/ICMessageQueue.h and .cpp). Objections clear the queue and interrupt.
\<close>

section \<open>The event\<close>

datatype emote_mod = IDLE | PREANIM | ZOOM | PREANIM_ZOOM

datatype desk_mod = CHAT | HIDE | SHOW | EMOTE_ONLY | PRE_ONLY | EMOTE_ONLY_EX | PRE_ONLY_EX

fun emote_mod_value :: "emote_mod \<Rightarrow> int" where
  "emote_mod_value IDLE = 0"
| "emote_mod_value PREANIM = 1"
| "emote_mod_value ZOOM = 5"
| "emote_mod_value PREANIM_ZOOM = 6"

fun desk_mod_value :: "desk_mod \<Rightarrow> int" where
  "desk_mod_value CHAT = - 1"
| "desk_mod_value HIDE = 0"
| "desk_mod_value SHOW = 1"
| "desk_mod_value EMOTE_ONLY = 2"
| "desk_mod_value PRE_ONLY = 3"
| "desk_mod_value EMOTE_ONLY_EX = 4"
| "desk_mod_value PRE_ONLY_EX = 5"

record ic_message_event =
  get_character :: string
  get_emote :: string
  get_pre_emote :: string
  get_message :: string
  get_showname :: string
  get_side :: string
  get_emote_mod :: emote_mod
  get_desk_mod :: desk_mod
  get_flip :: bool
  get_char_id :: int
  get_text_color :: int
  get_objection_mod :: int
  get_screenshake :: bool
  get_realization :: bool
  get_additive :: bool
  get_frame_screenshake :: string
  get_sfx_name :: string
  get_sfx_delay :: int
  get_sfx_looping :: bool
  get_frame_sfx :: string
  get_immediate :: bool
  get_slide :: bool

section \<open>The captured message\<close>

record ic_message =
  im_character :: string
  im_emote :: string
  im_pre_emote :: string
  im_message :: string
  im_showname :: string
  im_side :: string
  im_emote_mod :: emote_mod
  im_desk_mod :: desk_mod
  im_flip :: bool
  im_char_id :: int
  im_text_color :: int
  im_screenshake :: bool
  im_realization :: bool
  im_additive :: bool
  im_objection_mod :: int
  im_sfx_name :: string
  im_sfx_delay :: int
  im_sfx_looping :: bool
  im_frame_sfx :: string
  im_immediate :: bool
  im_slide :: bool

definition from_event :: "ic_message_event \<Rightarrow> ic_message" where
  "from_event ev =
     \<lparr>im_character = get_character ev, im_emote = get_emote ev, im_pre_emote = get_pre_emote ev,
      im_message = get_message ev, im_showname = get_showname ev, im_side = get_side ev,
      im_emote_mod = get_emote_mod ev, im_desk_mod = get_desk_mod ev, im_flip = get_flip ev,
      im_char_id = get_char_id ev, im_text_color = get_text_color ev,
      im_screenshake = get_screenshake ev, im_realization = get_realization ev,
      im_additive = get_additive ev, im_objection_mod = get_objection_mod ev,
      im_sfx_name = get_sfx_name ev, im_sfx_delay = get_sfx_delay ev,
      im_sfx_looping = get_sfx_looping ev, im_frame_sfx = get_frame_sfx ev,
      im_immediate = get_immediate ev, im_slide = get_slide ev\<rparr>"

definition is_objection :: "ic_message \<Rightarrow> bool" where
  "is_objection msg = (im_objection_mod msg \<ge> 1 \<and> im_objection_mod msg \<le> 4)"

section \<open>The queue\<close>

record ic_queue =
  ic_msgs :: "ic_message list"
  has_prefetch :: bool
  playing :: bool
  ready :: bool
  linger_ms :: int

definition LINGER_DURATION_MS :: int where
  "LINGER_DURATION_MS = 300"

definition ic_queue_new :: ic_queue where
  "ic_queue_new = \<lparr>ic_msgs = [], has_prefetch = False, playing = False, ready = False, linger_ms = 0\<rparr>"

text \<open>Whether a prefetch callback is set; \<open>enqueue\<close> tells what it is called with.\<close>

definition set_prefetch :: "bool \<Rightarrow> ic_queue \<Rightarrow> ic_queue" where
  "set_prefetch f q = q\<lparr>has_prefetch := f\<rparr>"

definition enqueue :: "ic_message \<Rightarrow> ic_queue \<Rightarrow> ic_message option \<times> ic_queue" where
  "enqueue msg q =
     (if is_objection msg then
        (None, q\<lparr>ic_msgs := [msg], playing := False, ready := True, linger_ms := 0\<rparr>)
      else
        let prefetched = (if playing q \<and> has_prefetch q then Some msg else None);
            q1 = q\<lparr>ic_msgs := ic_msgs q @ [msg]\<rparr>;
            q2 = (if \<not> playing q1 then q1\<lparr>ready := True\<rparr> else q1)
        in (prefetched, q2))"

definition tick :: "int \<Rightarrow> bool \<Rightarrow> ic_queue \<Rightarrow> bool \<times> ic_queue" where
  "tick delta_ms current_message_done q =
     (if \<not> playing q \<or> ic_msgs q = [] then (ready q, q)
      else if \<not> current_message_done then (False, q)
      else
        let q1 = q\<lparr>linger_ms := linger_ms q + delta_ms\<rparr>
        in if linger_ms q1 \<ge> LINGER_DURATION_MS
           then (True, q1\<lparr>playing := False, ready := True, linger_ms := 0\<rparr>)
           else (False, q1))"

definition next_message :: "ic_queue \<Rightarrow> ic_message option \<times> ic_queue" where
  "next_message q =
     (if \<not> ready q then (None, q)
      else case ic_msgs q of
        [] \<Rightarrow> (None, q)
      | msg # rest \<Rightarrow>
          (Some msg, q\<lparr>ic_msgs := rest, playing := True, ready := False, linger_ms := 0\<rparr>))"

definition is_playing :: "ic_queue \<Rightarrow> bool" where
  "is_playing q = playing q"

definition pending :: "ic_queue \<Rightarrow> nat" where
  "pending q = length (ic_msgs q)"

definition ic_clear :: "ic_queue \<Rightarrow> ic_queue" where
  "ic_clear q = q\<lparr>ic_msgs := [], playing := False, ready := False, linger_ms := 0\<rparr>"

lemmas ic_defs = enqueue_def tick_def next_message_def ic_clear_def set_prefetch_def Let_def
  LINGER_DURATION_MS_def

text \<open>The queue as the presenter drives it: enqueue, next, and ticks \<open>(delta, done)\<close>.\<close>

abbreviation ic_run :: "(ic_message, int \<times> bool) queue_op list \<Rightarrow> ic_queue \<Rightarrow> ic_message list \<times> ic_queue" where
  "ic_run \<equiv> queue_run (\<lambda>m q. snd (enqueue m q)) next_message (\<lambda>(d, fin) q. snd (tick d fin q))"

interpretation iq: fifo_queue "\<lambda>m q. snd (enqueue m q)" next_message "\<lambda>(d, fin) q. snd (tick d fin q)"
    ic_msgs is_objection
  by unfold_locales (auto simp: ic_defs split: list.splits if_splits)

section \<open>Invariant\<close>

definition ic_ok :: "ic_queue \<Rightarrow> bool" where
  "ic_ok q = ((playing q \<longrightarrow> \<not> ready q) \<and> (\<not> playing q \<and> ic_msgs q \<noteq> [] \<longrightarrow> ready q)
     \<and> linger_ms q < LINGER_DURATION_MS)"

lemma ic_ok_new [inv_intros]: "ic_ok ic_queue_new"
  by (simp add: ic_ok_def ic_queue_new_def ic_defs)

lemma ic_ok_enqueue [inv_intros]: "ic_ok q \<Longrightarrow> ic_ok (snd (enqueue m q))"
  by (auto simp: ic_ok_def ic_defs)

lemma ic_ok_tick [inv_intros]: "ic_ok q \<Longrightarrow> ic_ok (snd (tick d f q))"
  by (auto simp: ic_ok_def ic_defs)

lemma ic_ok_next [inv_intros]: "ic_ok q \<Longrightarrow> ic_ok (snd (next_message q))"
  by (auto simp: ic_ok_def ic_defs split: list.splits)

lemma ic_ok_clear [inv_intros]: "ic_ok (ic_clear q)"
  by (simp add: ic_ok_def ic_defs)

lemma ic_ok_run: "ic_run ops q = (outs, q') \<Longrightarrow> ic_ok q \<Longrightarrow> ic_ok q'"
proof (induction ops arbitrary: q outs)
  case (Cons op ops)
  show ?case
  proof (cases op)
    case Deq
    obtain r q1 where d: "next_message q = (r, q1)" by fastforce
    then have "ic_ok q1" using ic_ok_next [OF Cons.prems(2)] by simp
    with Cons Deq d show ?thesis by (cases r) (auto split: prod.splits)
  next
    case (Other x)
    obtain d fin where x: "x = (d, fin)" by fastforce
    then show ?thesis using Cons.IH [OF _ ic_ok_tick [OF Cons.prems(2)]] Cons.prems Other by simp
  next
    case (Enq m)
    then show ?thesis using Cons.IH [OF _ ic_ok_enqueue [OF Cons.prems(2)]] Cons.prems by simp
  qed
qed simp

section \<open>Pace\<close>

text \<open>The time ticked away after the text of the current message was finished.\<close>

fun linger_time :: "(ic_message, int \<times> bool) queue_op list \<Rightarrow> int" where
  "linger_time [] = 0"
| "linger_time (Other (d, fin) # ops) = (if fin then d else 0) + linger_time ops"
| "linger_time (op # ops) = linger_time ops"

fun ticks_forward :: "(ic_message, int \<times> bool) queue_op list \<Rightarrow> bool" where
  "ticks_forward [] = True"
| "ticks_forward (Other (d, fin) # ops) = (d \<ge> 0 \<and> ticks_forward ops)"
| "ticks_forward (op # ops) = ticks_forward ops"

lemma linger_time_nonneg: "ticks_forward ops \<Longrightarrow> linger_time ops \<ge> 0"
  by (induction ops rule: ticks_forward.induct) auto

lemma ic_run_waits:
  assumes "playing q" "\<not> ready q" "linger_ms q + linger_time ops < LINGER_DURATION_MS"
    "ticks_forward ops" "\<forall>m\<in>set (enqueued ops). \<not> is_objection m"
  shows "fst (ic_run ops q) = [] \<and> playing (snd (ic_run ops q))"
  using assms
proof (induction ops arbitrary: q)
  case (Cons op ops)
  show ?case
  proof (cases op)
    case (Enq m)
    with Cons.prems have "playing (snd (enqueue m q))" "\<not> ready (snd (enqueue m q))"
      "linger_ms (snd (enqueue m q)) = linger_ms q" by (auto simp: ic_defs)
    with Cons Enq show ?thesis by simp
  next
    case Deq
    with Cons show ?thesis by (simp add: ic_defs)
  next
    case (Other x)
    obtain d fin where x: "x = (d, fin)" by fastforce
    let ?q = "snd (tick d fin q)"
    have n: "linger_time ops \<ge> 0" "d \<ge> 0"
      using Cons.prems(4) linger_time_nonneg Other x by auto
    then have "playing ?q" "\<not> ready ?q" "linger_ms ?q \<le> linger_ms q + (if fin then d else 0)"
      using Cons.prems Other x by (auto simp: ic_defs)
    with Cons Other x show ?thesis by simp
  qed
qed simp

lemma tick_ready: "\<not> playing q \<Longrightarrow> tick d fin q = (ready q, q)"
  by (simp add: tick_def)

lemma ic_run_ticks_ready: "\<not> playing q \<Longrightarrow> ic_run (map (\<lambda>d. Other (d, True)) ds) q = ([], q)"
  by (induction ds) (auto simp: tick_ready)

lemma ic_run_lingers:
  assumes "ic_ok q" "ic_msgs q \<noteq> []" "playing q \<longrightarrow> linger_ms q + sum_list ds \<ge> LINGER_DURATION_MS"
  shows "\<exists>q'. ic_run (map (\<lambda>d. Other (d, True)) ds) q = ([], q') \<and> \<not> playing q' \<and> ready q'
     \<and> ic_msgs q' = ic_msgs q"
  using assms
proof (induction ds arbitrary: q)
  case Nil
  then show ?case by (auto simp: ic_ok_def)
next
  case (Cons d ds)
  show ?case
  proof (cases "playing (snd (tick d True q))")
    case False
    have "ic_msgs (snd (tick d True q)) = ic_msgs q" by (simp add: ic_defs)
    moreover have "ready (snd (tick d True q))"
      using False Cons.prems ic_ok_tick [OF Cons.prems(1)] calculation by (auto simp: ic_ok_def)
    ultimately show ?thesis using False ic_run_ticks_ready by auto
  next
    case True
    then have p: "playing q" by (auto simp: ic_defs split: if_splits)
    then have "linger_ms (snd (tick d True q)) = linger_ms q + d"
      "ic_msgs (snd (tick d True q)) = ic_msgs q"
      using True Cons.prems by (auto simp: ic_defs split: if_splits)
    with Cons.IH [OF ic_ok_tick [OF Cons.prems(1)], of d True] Cons.prems p show ?thesis
      by (simp add: algebra_simps)
  qed
qed

lemma next_not_playing:
  assumes "ready q" "ic_msgs q = m # rest"
  shows "next_message q = (Some m, q\<lparr>ic_msgs := rest, playing := True, ready := False, linger_ms := 0\<rparr>)"
  using assms by (simp add: next_message_def)

section \<open>Properties\<close>

text \<open>Messages play in the order they arrived, each at most once: for any sequence of
enqueues, ticks and dequeues, what was played followed by what still waits is a subsequence of
what waited before followed by what arrived; without objections nothing is dropped at all, and
after an objection everything older is gone and the objection is the first to be played.\<close>

theorem ic_messages_play_in_order:
  assumes "ic_run ops q = (outs, q')"
  shows "subseq (outs @ ic_msgs q') (ic_msgs q @ enqueued ops)
     \<and> ((\<forall>m\<in>set (enqueued ops). \<not> is_objection m) \<longrightarrow> ic_msgs q @ enqueued ops = outs @ ic_msgs q')
     \<and> (\<forall>before m after. ops = before @ Enq m # after \<and> is_objection m
           \<and> (\<forall>x\<in>set (enqueued after). \<not> is_objection x) \<longrightarrow>
         outs @ ic_msgs q' = fst (ic_run before q) @ m # enqueued after)"
proof -
  have "outs @ ic_msgs q' = fst (ic_run before q) @ m # enqueued after"
    if "ops = before @ Enq m # after" "is_objection m" "\<forall>x\<in>set (enqueued after). \<not> is_objection x"
    for before m after
  proof -
    obtain as q1 where b: "ic_run before q = (as, q1)" by fastforce
    obtain bs q2 where a: "ic_run (Enq m # after) q1 = (bs, q2)" by fastforce
    have "bs @ ic_msgs q2 = m # enqueued after" by (rule iq.run_after_flush [OF a that(2,3)])
    then show ?thesis using assms a b that(1) by (auto simp: queue_run_append)
  qed
  then show ?thesis using iq.run_subseq [OF assms] iq.run_exact [OF assms] by blast
qed

definition plain_message :: "string \<Rightarrow> int \<Rightarrow> ic_message" where
  "plain_message txt obj =
     \<lparr>im_character = ''Phoenix'', im_emote = ''normal'', im_pre_emote = [], im_message = txt,
      im_showname = [], im_side = ''def'', im_emote_mod = IDLE, im_desk_mod = CHAT, im_flip = False,
      im_char_id = 0, im_text_color = 0, im_screenshake = False, im_realization = False,
      im_additive = False, im_objection_mod = obj, im_sfx_name = [], im_sfx_delay = 0,
      im_sfx_looping = False, im_frame_sfx = [], im_immediate = False, im_slide = False\<rparr>"

theorem ic_messages_play_in_order_witness:
  "subseq ([plain_message ''a'' 0, plain_message ''c'' 2] @ [plain_message ''d'' 0])
     [plain_message ''a'' 0, plain_message ''b'' 0, plain_message ''c'' 2, plain_message ''d'' 0]"
  using ic_messages_play_in_order
    [of "[Enq (plain_message ''a'' 0), Deq, Enq (plain_message ''b'' 0), Enq (plain_message ''c'' 2), Deq,
          Enq (plain_message ''d'' 0), Other (16, True)]" ic_queue_new
        "[plain_message ''a'' 0, plain_message ''c'' 2]"
        "\<lparr>ic_msgs = [plain_message ''d'' 0], has_prefetch = False, playing = True, ready = False,
          linger_ms = 16\<rparr>", THEN conjunct1]
  by (simp add: ic_defs ic_queue_new_def is_objection_def plain_message_def)

text \<open>Messages keep their pace and none gets stuck: from every state the queue reaches, a
dequeued message is not followed by another one until its text is done and 300 ms of ticks have
passed (unless an objection interrupts); once ticks of a finished message add up to what is left
of the 300 ms, or if nothing is playing, the oldest waiting message is handed out; and an
objection is handed out at the next dequeue whatever is playing.\<close>

theorem ic_messages_keep_pace:
  assumes "ic_run history ic_queue_new = (played, q)"
  shows "(\<forall>m q1 ops. next_message q = (Some m, q1) \<and> ticks_forward ops
            \<and> (\<forall>x\<in>set (enqueued ops). \<not> is_objection x) \<and> linger_time ops < LINGER_DURATION_MS \<longrightarrow>
          fst (ic_run ops q1) = [] \<and> is_playing (snd (ic_run ops q1)))
     \<and> (\<forall>m rest ds. ic_msgs q = m # rest
            \<and> (is_playing q \<longrightarrow> linger_ms q + sum_list ds \<ge> LINGER_DURATION_MS) \<longrightarrow>
          fst (ic_run (map (\<lambda>d. Other (d, True)) ds @ [Deq]) q) = [m])
     \<and> (\<forall>m. is_objection m \<longrightarrow> fst (ic_run [Enq m, Deq] q) = [m] \<and> pending (snd (enqueue m q)) = 1)"
proof (intro conjI allI impI)
  have ok: "ic_ok q" by (rule ic_ok_run [OF assms ic_ok_new])
  show "fst (ic_run ops q1) = []" "is_playing (snd (ic_run ops q1))"
    if "next_message q = (Some m, q1) \<and> ticks_forward ops
            \<and> (\<forall>x\<in>set (enqueued ops). \<not> is_objection x) \<and> linger_time ops < LINGER_DURATION_MS" for m q1 ops
  proof -
    have "playing q1 \<and> \<not> ready q1 \<and> linger_ms q1 = 0"
      using that by (auto simp: next_message_def split: if_splits list.splits)
    then have "fst (ic_run ops q1) = [] \<and> playing (snd (ic_run ops q1))"
      using that by (intro ic_run_waits) auto
    then show "fst (ic_run ops q1) = []" "is_playing (snd (ic_run ops q1))"
      by (auto simp: is_playing_def)
  qed
  show "fst (ic_run (map (\<lambda>d. Other (d, True)) ds @ [Deq]) q) = [m]"
    if "ic_msgs q = m # rest \<and> (is_playing q \<longrightarrow> linger_ms q + sum_list ds \<ge> LINGER_DURATION_MS)" for m rest ds
  proof -
    have "\<exists>q'. ic_run (map (\<lambda>d. Other (d, True)) ds) q = ([], q') \<and> \<not> playing q' \<and> ready q' \<and> ic_msgs q' = ic_msgs q"
      by (rule ic_run_lingers [OF ok]) (use that in \<open>auto simp: is_playing_def\<close>)
    with that obtain q' where q': "ic_run (map (\<lambda>d. Other (d, True)) ds) q = ([], q')" "ready q'" "ic_msgs q' = m # rest"
      by auto
    then show ?thesis using next_not_playing [OF q'(2,3)] by (simp add: queue_run_append)
  qed
  show "fst (ic_run [Enq m, Deq] q) = [m]" "pending (snd (enqueue m q)) = 1" if "is_objection m" for m
    using that by (auto simp: ic_defs pending_def)
qed

theorem ic_messages_keep_pace_witness:
  "fst (ic_run (map (\<lambda>d. Other (d, True)) [100, 250] @ [Deq])
     \<lparr>ic_msgs = [plain_message ''b'' 0], has_prefetch = False, playing = True, ready = False, linger_ms = 0\<rparr>)
     = [plain_message ''b'' 0]"
proof -
  have h: "ic_run [Enq (plain_message ''a'' 0), Deq, Enq (plain_message ''b'' 0)] ic_queue_new
      = ([plain_message ''a'' 0], \<lparr>ic_msgs = [plain_message ''b'' 0], has_prefetch = False, playing = True,
          ready = False, linger_ms = 0\<rparr>)"
    by (simp add: ic_defs ic_queue_new_def is_objection_def plain_message_def)
  show ?thesis
    using ic_messages_keep_pace [OF h, THEN conjunct2, THEN conjunct1]
    by (elim allE [of _ "plain_message ''b'' 0"] allE [of _ "[]"] allE [of _ "[100, 250]"])
       (simp add: LINGER_DURATION_MS_def)
qed

end
