(* ===== verification/State_Buffer.thy ===== *)
theory State_Buffer
  imports Prelude "HOL-Library.Sublist"
begin

text \<open>
  The triple buffer between the game thread and the render thread (include/render/StateBuffer.h,
  engine/render/StateBuffer.cpp): three allocated render states and three pointers to them.
  The render states live in a store indexed by address, so that aliasing between the pointers is
  visible; the atomic flag and the mutex make \<open>present\<close> and \<open>update\<close> atomic steps, while the
  threads' own accesses to their buffers may come anywhere between.
\<close>

section \<open>The buffer\<close>

record 'a state_buffer =
  slots :: "nat \<Rightarrow> 'a"
  presenting :: nat
  ready_slot :: nat
  preparing :: nat
  stale :: bool

text \<open>The constructors allocate three copies of one state, at addresses 0, 1 and 2.\<close>

definition state_buffer_new :: "'a \<Rightarrow> 'a state_buffer" where
  "state_buffer_new initial =
     \<lparr>slots = (\<lambda>_. initial), presenting = 0, ready_slot = 1, preparing = 2, stale = False\<rparr>"

definition get_consumer_buf :: "'a state_buffer \<Rightarrow> nat" where
  "get_consumer_buf b = presenting b"

definition get_producer_buf :: "'a state_buffer \<Rightarrow> nat" where
  "get_producer_buf b = preparing b"

definition present :: "'a state_buffer \<Rightarrow> 'a state_buffer" where
  "present b = b\<lparr>preparing := ready_slot b, ready_slot := preparing b, stale := True\<rparr>"

definition update_buffer :: "'a state_buffer \<Rightarrow> 'a state_buffer" where
  "update_buffer b =
     (if stale b then b\<lparr>presenting := ready_slot b, ready_slot := presenting b, stale := False\<rparr> else b)"

section \<open>The two threads\<close>

text \<open>The game thread mutates its buffer in place; the render thread only reads.\<close>

definition write_buf :: "('a \<Rightarrow> 'a) \<Rightarrow> 'a state_buffer \<Rightarrow> 'a state_buffer" where
  "write_buf f b = b\<lparr>slots := (slots b)(get_producer_buf b := f (slots b (get_producer_buf b)))\<rparr>"

definition shown :: "'a state_buffer \<Rightarrow> 'a" where
  "shown b = slots b (get_consumer_buf b)"

definition draft :: "'a state_buffer \<Rightarrow> 'a" where
  "draft b = slots b (get_producer_buf b)"

datatype 'a buf_op = Write "'a \<Rightarrow> 'a" | Present | Update

fun buf_step :: "'a buf_op \<Rightarrow> 'a state_buffer \<Rightarrow> 'a state_buffer" where
  "buf_step (Write f) b = write_buf f b"
| "buf_step Present b = present b"
| "buf_step Update b = update_buffer b"

text \<open>A run, with the states that were published and the states shown after each update.\<close>

fun buf_run :: "'a buf_op list \<Rightarrow> 'a state_buffer \<Rightarrow> 'a list \<times> 'a list \<times> 'a state_buffer" where
  "buf_run [] b = ([], [], b)"
| "buf_run (op # ops) b =
     (case buf_run ops (buf_step op b) of (pub, seen, b') \<Rightarrow>
        ((case op of Present \<Rightarrow> draft b # pub | _ \<Rightarrow> pub),
         (case op of Update \<Rightarrow> shown (update_buffer b) # seen | _ \<Rightarrow> seen), b'))"

section \<open>Specification\<close>

text \<open>What the buffer promises: a cell with the latest published state, read by the consumer.\<close>

fun spec_seen :: "'a buf_op list \<Rightarrow> 'a list \<Rightarrow> 'a \<Rightarrow> 'a list" where
  "spec_seen [] pub latest = []"
| "spec_seen (Write f # ops) pub latest = spec_seen ops pub latest"
| "spec_seen (Present # ops) (p # pub) latest = spec_seen ops pub p"
| "spec_seen (Present # ops) [] latest = spec_seen ops [] latest"
| "spec_seen (Update # ops) pub latest = latest # spec_seen ops pub latest"

definition slots_ok :: "'a state_buffer \<Rightarrow> bool" where
  "slots_ok b = ({presenting b, ready_slot b, preparing b} = {0, 1, 2})"

definition latest_state :: "'a state_buffer \<Rightarrow> 'a" where
  "latest_state b = (if stale b then slots b (ready_slot b) else shown b)"

lemma slots_ok_distinct:
  assumes "slots_ok b"
  shows "presenting b \<noteq> ready_slot b \<and> presenting b \<noteq> preparing b \<and> ready_slot b \<noteq> preparing b"
proof -
  have "card {presenting b, ready_slot b, preparing b} = 3"
    using assms by (simp add: slots_ok_def)
  then show ?thesis by (auto simp: card_insert_if split: if_splits)
qed

lemmas buf_defs = present_def update_buffer_def write_buf_def shown_def draft_def latest_state_def
  get_consumer_buf_def get_producer_buf_def

lemma slots_ok_step [inv_intros]: "slots_ok b \<Longrightarrow> slots_ok (buf_step op b)"
  by (cases op) (simp_all add: slots_ok_def buf_defs insert_commute)

lemma slots_ok_new [inv_intros]: "slots_ok (state_buffer_new i)"
  by (simp add: slots_ok_def state_buffer_new_def)

lemma write_step:
  "slots_ok b \<Longrightarrow> latest_state (write_buf f b) = latest_state b \<and> shown (write_buf f b) = shown b
     \<and> draft (write_buf f b) = f (draft b)"
  using slots_ok_distinct [of b] by (simp add: buf_defs)

lemma present_step: "latest_state (present b) = draft b \<and> shown (present b) = shown b"
  by (simp add: buf_defs)

lemma update_step:
  "latest_state (update_buffer b) = latest_state b \<and> shown (update_buffer b) = latest_state b
     \<and> draft (update_buffer b) = draft b"
  by (simp add: buf_defs)

lemma buf_run_spec:
  "slots_ok b \<Longrightarrow> buf_run ops b = (pub, seen, b') \<Longrightarrow>
     slots_ok b' \<and> seen = spec_seen ops pub (latest_state b) \<and> latest_state b' = last (latest_state b # pub)"
proof (induction ops arbitrary: b pub seen)
  case (Cons op ops)
  obtain pub1 seen1 where r: "buf_run ops (buf_step op b) = (pub1, seen1, b')"
    using Cons.prems(2) by (auto split: prod.splits)
  note IH = Cons.IH [OF slots_ok_step [OF Cons.prems(1)] r]
  show ?case
  proof (cases op)
    case (Write f)
    then show ?thesis using IH r Cons.prems write_step [OF Cons.prems(1), of f] by auto
  next
    case Present
    then show ?thesis using IH r Cons.prems present_step [of b] by auto
  next
    case Update
    then show ?thesis using IH r Cons.prems update_step [of b] by auto
  qed
qed simp

lemma spec_seen_in:
  "set (spec_seen ops pub latest) \<subseteq> set (latest # pub)"
  by (induction ops pub latest rule: spec_seen.induct) auto

section \<open>Properties\<close>

text \<open>The triple buffer is a single-cell mailbox: however the threads' steps interleave, the
three pointers stay a permutation of the three allocated states (so the threads never share a
buffer), each update makes the render thread see exactly the state published last before it
(the initial state when there is none), a state being written is never seen, and what is seen
does not change until the next update.\<close>

theorem state_buffer_shows_latest:
  assumes "buf_run ops (state_buffer_new initial) = (pub, seen, b)"
  shows "seen = spec_seen ops pub initial
     \<and> {get_consumer_buf b, ready_slot b, get_producer_buf b} = {0, 1, 2}
     \<and> get_consumer_buf b \<noteq> get_producer_buf b
     \<and> shown (buf_step Update b) = last (initial # pub)
     \<and> shown (buf_step (Write f) b) = shown b \<and> shown (buf_step Present b) = shown b
     \<and> set seen \<subseteq> set (initial # pub)"
proof -
  note ok = slots_ok_new [of initial]
  have l: "latest_state (state_buffer_new initial) = initial"
    by (simp add: buf_defs state_buffer_new_def)
  note r = buf_run_spec [OF ok assms, unfolded l]
  have ok': "slots_ok b" using r by blast
  have "{get_consumer_buf b, ready_slot b, get_producer_buf b} = {0, 1, 2}"
    using ok' unfolding slots_ok_def get_consumer_buf_def get_producer_buf_def .
  moreover have "get_consumer_buf b \<noteq> get_producer_buf b"
    using slots_ok_distinct [OF ok'] by (simp add: get_consumer_buf_def get_producer_buf_def)
  moreover have "shown (buf_step Update b) = last (initial # pub)" using r update_step [of b] by simp
  moreover have "shown (buf_step (Write f) b) = shown b" using write_step [OF ok', of f] by simp
  moreover have "shown (buf_step Present b) = shown b" using present_step [of b] by simp
  moreover have "set seen \<subseteq> set (initial # pub)" using r spec_seen_in [of ops pub initial] by blast
  ultimately show ?thesis using r by blast
qed

theorem state_buffer_shows_latest_witness:
  "[0, 2, 2] = spec_seen [Write (\<lambda>_. 1), Update, Present, Write (\<lambda>_. 2), Present, Write (\<lambda>_. 3), Update, Update]
      [1, 2] (0::nat)"
proof -
  let ?ops = "[Write (\<lambda>_. 1), Update, Present, Write (\<lambda>_. 2), Present, Write (\<lambda>_. 3), Update, Update] :: nat buf_op list"
  obtain b where "buf_run ?ops (state_buffer_new 0) = ([1, 2], [0, 2, 2], b)"
    by (simp add: buf_defs state_buffer_new_def)
  from state_buffer_shows_latest [OF this] show ?thesis by (rule conjunct1)
qed

end
