(* ===== verification/Ban_Manager.thy ===== *)
theory Ban_Manager
  imports Prelude "HOL-Library.AList"
begin

text \<open>
  Bans: include/game/BanManager.h and engine/game/BanManager.cpp. The bans live in memory, keyed by
  IPID; the database and the firewall are other components, which the manager calls: the calls
  are its outputs, in order. \<open>bans_\<close> is an \<open>unordered_map\<close>, here the list of its entries in the
  order in which it enumerates them. The clock is an argument, in nanoseconds.
\<close>

section \<open>Entries\<close>

record ban_entry =
  be_id :: int
  be_ipid :: string
  be_hdid :: string
  be_ip :: string
  be_reason :: string
  be_moderator :: string
  be_timestamp :: int
  be_duration :: int

definition ban_entry_new :: ban_entry where
  "ban_entry_new = \<lparr>be_id = 0, be_ipid = [], be_hdid = [], be_ip = [], be_reason = [], be_moderator = [],
     be_timestamp = 0, be_duration = 0\<rparr>"

definition is_permanent :: "ban_entry \<Rightarrow> bool" where
  "is_permanent e = (be_duration e = - 2)"

definition is_expired :: "int \<Rightarrow> ban_entry \<Rightarrow> bool" where
  "is_expired now e =
     (if is_permanent e then False
      else if be_duration e = 0 then True
      else now > (be_timestamp e + be_duration e) * 1000000000)"

section \<open>Durations\<close>

definition INT64_MAX :: int where
  "INT64_MAX = 2 ^ 63 - 1"

text \<open>
  The state of the scan: tot, current number, whether a unit was seen. \<open>None\<close> is a signed
  overflow, whose behaviour C++ leaves undefined; \<open>Some (Inl ())\<close> is the early return of -1.
\<close>

type_synonym duration_scan = "int \<times> int \<times> bool"

definition scan_unit :: "int \<Rightarrow> duration_scan \<Rightarrow> duration_scan option" where
  "scan_unit f st =
     (case st of (tot, current, has_unit) \<Rightarrow>
        if current * f > INT64_MAX \<or> tot + current * f > INT64_MAX then None
        else Some (tot + current * f, 0, True))"

definition scan_char :: "char \<Rightarrow> duration_scan \<Rightarrow> (unit + duration_scan) option" where
  "scan_char c st =
     (case st of (tot, current, has_unit) \<Rightarrow>
        if c_isdigit c then
          (let n = current * 10 + int (char_code c - 48)
           in if n > INT64_MAX then None else Some (Inr (tot, n, has_unit)))
        else if c = CHR ''h'' then map_option Inr (scan_unit 3600 st)
        else if c = CHR ''m'' then map_option Inr (scan_unit 60 st)
        else if c = CHR ''s'' then map_option Inr (scan_unit 1 st)
        else Some (Inl ()))"

fun scan_duration :: "string \<Rightarrow> duration_scan \<Rightarrow> (unit + duration_scan) option" where
  "scan_duration [] st = Some (Inr st)"
| "scan_duration (c # cs) st =
     (case scan_char c st of
        None \<Rightarrow> None
      | Some (Inl _) \<Rightarrow> Some (Inl ())
      | Some (Inr st') \<Rightarrow> scan_duration cs st')"

definition parse_ban_duration :: "string \<Rightarrow> int option" where
  "parse_ban_duration input =
     (if input = [] then Some (- 1)
      else
        let lower = map c_tolower input
        in if lower = ''perma'' \<or> lower = ''permanent'' then Some (- 2)
           else case scan_duration lower (0, 0, False) of
             None \<Rightarrow> None
           | Some (Inl _) \<Rightarrow> Some (- 1)
           | Some (Inr (tot, current, has_unit)) \<Rightarrow>
               if current > 0 then (if tot + current > INT64_MAX then None else Some (tot + current))
               else Some (if has_unit then tot else - 1))"

definition format_ban_duration :: "int \<Rightarrow> string" where
  "format_ban_duration duration =
     (if duration = - 2 then ''permanent''
      else if duration \<le> 0 then ''invalidated''
      else
        let h = duration div 3600;
            m = (duration mod 3600) div 60;
            s = duration mod 60;
            r1 = (if h > 0 then show_int h @ ''h'' else []);
            r2 = (if m > 0 then r1 @ show_int m @ ''m'' else r1)
        in if s > 0 \<or> r2 = [] then r2 @ show_int s @ ''s'' else r2)"

section \<open>The manager\<close>

text \<open>Calls on the database and on the firewall.\<close>

datatype ban_call =
    Db_Add ban_entry
  | Db_Invalidate int
  | Db_Update int string string
  | Fw_Block string string int
  | Fw_Unblock string

record ban_manager =
  bm_bans :: "(string \<times> ban_entry) list"
  bm_has_db :: bool
  bm_fw_enabled :: bool

definition DURATION_PERMANENT :: int where
  "DURATION_PERMANENT = - 2"

definition ban_manager_new :: ban_manager where
  "ban_manager_new = \<lparr>bm_bans = [], bm_has_db = False, bm_fw_enabled = False\<rparr>"

definition set_db :: "bool \<Rightarrow> ban_manager \<Rightarrow> ban_manager" where
  "set_db db b = b\<lparr>bm_has_db := db\<rparr>"

definition set_firewall :: "bool \<Rightarrow> ban_manager \<Rightarrow> ban_manager" where
  "set_firewall fw b = b\<lparr>bm_fw_enabled := fw\<rparr>"

definition fw_duration :: "ban_entry \<Rightarrow> int" where
  "fw_duration e = (if is_permanent e then DURATION_PERMANENT else be_duration e)"

definition block_call :: "ban_entry \<Rightarrow> ban_call" where
  "block_call e = Fw_Block (be_ip e) (be_reason e) (fw_duration e)"

text \<open>\<open>active\<close> is what the open database returns for its active bans.\<close>

definition load_from_db :: "bool \<Rightarrow> ban_entry list \<Rightarrow> ban_manager \<Rightarrow> ban_manager \<times> ban_call list" where
  "load_from_db is_open active b =
     (if \<not> bm_has_db b \<or> \<not> is_open then (b, [])
      else (b\<lparr>bm_bans := fold (\<lambda>e. AList.update (be_ipid e) e) active []\<rparr>,
            if bm_fw_enabled b then map block_call (filter (\<lambda>e. be_ip e \<noteq> []) active) else []))"

definition add_ban :: "ban_entry \<Rightarrow> ban_manager \<Rightarrow> ban_manager \<times> ban_call list" where
  "add_ban e b =
     (b\<lparr>bm_bans := AList.update (be_ipid e) e (bm_bans b)\<rparr>,
      (if bm_fw_enabled b \<and> be_ip e \<noteq> [] then [block_call e] else [])
      @ (if bm_has_db b then [Db_Add e] else []))"

definition remove_ban :: "string \<Rightarrow> ban_manager \<Rightarrow> bool \<times> ban_manager \<times> ban_call list" where
  "remove_ban ipid b =
     (case map_of (bm_bans b) ipid of
        None \<Rightarrow> (False, b, [])
      | Some e \<Rightarrow>
          (True, b\<lparr>bm_bans := AList.delete ipid (bm_bans b)\<rparr>,
           (if bm_has_db b \<and> be_id e > 0 then [Db_Invalidate (be_id e)] else [])
           @ (if bm_fw_enabled b \<and> be_ip e \<noteq> [] then [Fw_Unblock (be_ip e)] else [])))"

text \<open>\<open>None\<close>: the duration overflows while it is parsed.\<close>

definition update_ban :: "string \<Rightarrow> string \<Rightarrow> string \<Rightarrow> ban_manager \<Rightarrow> (bool \<times> ban_manager \<times> ban_call list) option" where
  "update_ban ipid field val b =
     (case map_of (bm_bans b) ipid of
        None \<Rightarrow> Some (False, b, [])
      | Some e \<Rightarrow>
          if field = ''reason'' then
            (let e' = e\<lparr>be_reason := val\<rparr>
             in Some (True, b\<lparr>bm_bans := AList.update ipid e' (bm_bans b)\<rparr>,
                  if bm_has_db b \<and> be_id e' > 0 then [Db_Update (be_id e') field val] else []))
          else if field = ''duration'' then
            (case parse_ban_duration val of
               None \<Rightarrow> None
             | Some dur \<Rightarrow>
                 if dur = - 1 then Some (False, b, [])
                 else
                   (let e' = e\<lparr>be_duration := dur\<rparr>
                    in Some (True, b\<lparr>bm_bans := AList.update ipid e' (bm_bans b)\<rparr>,
                         (if bm_has_db b \<and> be_id e' > 0 then [Db_Update (be_id e') field (show_int (be_duration e'))] else [])
                         @ (if be_ip e' \<noteq> [] \<and> bm_fw_enabled b then [Fw_Unblock (be_ip e'), block_call e'] else []))))
          else Some (False, b, []))"

definition find_ban :: "int \<Rightarrow> string \<Rightarrow> ban_manager \<Rightarrow> ban_entry option" where
  "find_ban now ipid b =
     (case map_of (bm_bans b) ipid of
        Some e \<Rightarrow> if \<not> is_expired now e then Some e else None
      | None \<Rightarrow> None)"

definition hdid_matches :: "int \<Rightarrow> string \<Rightarrow> ban_entry \<Rightarrow> bool" where
  "hdid_matches now hdid e = (be_hdid e \<noteq> [] \<and> be_hdid e = hdid \<and> \<not> is_expired now e)"

definition find_ban_by_hdid :: "int \<Rightarrow> string \<Rightarrow> ban_manager \<Rightarrow> ban_entry option" where
  "find_ban_by_hdid now hdid b =
     (if hdid = [] then None else find (hdid_matches now hdid) (map snd (bm_bans b)))"

definition check_ban :: "int \<Rightarrow> string \<Rightarrow> string \<Rightarrow> ban_manager \<Rightarrow> ban_entry option" where
  "check_ban now ipid hdid b =
     (let by_hdid = (if hdid \<noteq> [] then find (hdid_matches now hdid) (map snd (bm_bans b)) else None)
      in case map_of (bm_bans b) ipid of
           Some e \<Rightarrow> if \<not> is_expired now e then Some e else by_hdid
         | None \<Rightarrow> by_hdid)"

text \<open>Substring search on lower-case text; the loop stops once \<open>limit\<close> results are in.\<close>

fun has_sub :: "string \<Rightarrow> string \<Rightarrow> bool" where
  "has_sub p [] = (p = [])"
| "has_sub p (c # s) = (take (length p) (c # s) = p \<or> has_sub p s)"

definition ban_matches :: "string \<Rightarrow> ban_entry \<Rightarrow> bool" where
  "ban_matches query e =
     (let q = map c_tolower query; contains = (\<lambda>field. has_sub q (map c_tolower field))
      in contains (be_ipid e) \<or> contains (be_hdid e) \<or> contains (be_reason e) \<or> contains (be_moderator e))"

fun search_loop :: "string \<Rightarrow> int \<Rightarrow> ban_entry list \<Rightarrow> ban_entry list \<Rightarrow> ban_entry list" where
  "search_loop query limit [] results = results"
| "search_loop query limit (e # es) results =
     (if ban_matches query e then
        (if int (length (results @ [e])) \<ge> limit then results @ [e] else search_loop query limit es (results @ [e]))
      else search_loop query limit es results)"

definition search_bans :: "string \<Rightarrow> int \<Rightarrow> ban_manager \<Rightarrow> ban_entry list" where
  "search_bans query limit b = search_loop query limit (map snd (bm_bans b)) []"

text \<open>The order of \<open>std::sort\<close> among equal timestamps is that of some enumeration of the map.\<close>

definition list_bans :: "nat \<Rightarrow> ban_manager \<Rightarrow> ban_entry list" where
  "list_bans limit b = take limit (sort_key (\<lambda>e. - be_timestamp e) (map snd (bm_bans b)))"

definition ban_count :: "int \<Rightarrow> ban_manager \<Rightarrow> nat" where
  "ban_count now b = length (filter (\<lambda>e. \<not> is_expired now e) (map snd (bm_bans b)))"

section \<open>Properties\<close>

definition bans_ok :: "ban_manager \<Rightarrow> bool" where
  "bans_ok b = (distinct (map fst (bm_bans b)) \<and> (\<forall>(k, e)\<in>set (bm_bans b). be_ipid e = k))"

lemma bans_ok_new [inv_intros]: "bans_ok ban_manager_new"
  by (simp add: bans_ok_def ban_manager_new_def)

lemma set_update_subset: "set (AList.update k v xs) \<subseteq> insert (k, v) (set xs)"
  by (induction xs) auto

lemma set_delete_subset: "set (AList.delete k xs) \<subseteq> set xs"
  by (induction xs) auto

lemma bans_ok_update:
  "bans_ok b \<Longrightarrow> be_ipid e = k \<Longrightarrow> bans_ok (b\<lparr>bm_bans := AList.update k e (bm_bans b)\<rparr>)"
  using set_update_subset [of k e "bm_bans b"]
  by (auto simp: bans_ok_def distinct_update)

lemma bans_ok_add [inv_intros]: "bans_ok b \<Longrightarrow> bans_ok (fst (add_ban e b))"
  by (simp add: add_ban_def bans_ok_update)

lemma bans_ok_remove [inv_intros]: "bans_ok b \<Longrightarrow> bans_ok (fst (snd (remove_ban ipid b)))"
  using set_delete_subset
  by (fastforce simp: remove_ban_def bans_ok_def distinct_delete split: option.splits)

lemma bans_ok_ban: "bans_ok b \<Longrightarrow> map_of (bm_bans b) ipid = Some e \<Longrightarrow> be_ipid e = ipid"
  by (auto simp: bans_ok_def dest!: map_of_SomeD)

lemma bans_ok_update_ban [inv_intros]:
  "bans_ok b \<Longrightarrow> update_ban ipid field val b = Some (r, b', calls) \<Longrightarrow> bans_ok b'"
  using bans_ok_ban [of b ipid]
  by (auto simp: update_ban_def Let_def intro!: bans_ok_update split: option.splits if_splits)

lemma find_Some_iff_ex: "find P xs \<noteq> None \<longleftrightarrow> (\<exists>x\<in>set xs. P x)"
  by (induction xs) auto

text \<open>Round trip of durations.\<close>

lemma digits_value_grows:
  "0 \<le> m \<Longrightarrow> m \<le> foldl (\<lambda>n c. 10 * n + int (char_code c - 48)) m ds"
proof (induction ds arbitrary: m)
  case (Cons d ds)
  have "m \<le> 10 * m + int (char_code d - 48)" using Cons.prems by simp
  also have "\<dots> \<le> foldl (\<lambda>n c. 10 * n + int (char_code c - 48)) (10 * m + int (char_code d - 48)) ds"
    by (rule Cons.IH) (use Cons.prems in simp)
  finally show ?case by simp
qed simp

lemma scan_digits:
  "list_all c_isdigit ds \<Longrightarrow> 0 \<le> n \<Longrightarrow>
     foldl (\<lambda>n c. 10 * n + int (char_code c - 48)) n ds \<le> INT64_MAX \<Longrightarrow>
     scan_duration (ds @ cs) (t, n, u) = scan_duration cs (t, foldl (\<lambda>n c. 10 * n + int (char_code c - 48)) n ds, u)"
proof (induction ds arbitrary: n)
  case (Cons c ds)
  have "10 * n + int (char_code c - 48) \<le> INT64_MAX"
    using digits_value_grows [of "10 * n + int (char_code c - 48)" ds] Cons.prems by simp
  then show ?case using Cons by (simp add: scan_char_def Let_def mult.commute)
qed simp

text \<open>One component \<open>12h\<close> of a duration.\<close>

definition unit_factor :: "char \<Rightarrow> int" where
  "unit_factor c = (if c = CHR ''h'' then 3600 else if c = CHR ''m'' then 60 else 1)"

lemma scan_component:
  assumes "0 \<le> n" "n * unit_factor c + t \<le> INT64_MAX" "0 \<le> t" "c \<in> {CHR ''h'', CHR ''m'', CHR ''s''}"
  shows "scan_duration (show_int n @ c # cs) (t, 0, u) = scan_duration cs (t + n * unit_factor c, 0, True)"
proof -
  have f: "1 \<le> unit_factor c" by (simp add: unit_factor_def)
  have le: "n * unit_factor c \<le> INT64_MAX" using assms by linarith
  have "n * 1 \<le> n * unit_factor c" using f assms(1) by (rule mult_left_mono)
  then have n: "n \<le> INT64_MAX" using le by linarith
  have v: "foldl (\<lambda>n c. 10 * n + int (char_code c - 48)) 0 (show_nat (nat n)) = n"
    using digits_value_show_nat [of "nat n"] assms(1) by (simp add: digits_value_def)
  have d: "list_all c_isdigit (show_nat (nat n))" using show_nat_digits by (simp add: list_all_iff)
  have nd: "\<not> c_isdigit c" using assms(4) by (auto simp: c_isdigit_def char_code_def)
  have "scan_duration (show_int n @ c # cs) (t, 0, u) = scan_duration (c # cs) (t, n, u)"
    using scan_digits [OF d, of 0 "c # cs" t u] v n assms(1) by (simp add: show_int_def)
  also have "\<dots> = scan_duration cs (t + n * unit_factor c, 0, True)"
    using assms(2,4) le nd by (auto simp: scan_char_def scan_unit_def unit_factor_def)
  finally show ?thesis .
qed

lemma tolower_plain: "list_all (\<lambda>c. \<not> c_isupper c) s \<Longrightarrow> map c_tolower s = s"
  by (induction s) (simp_all add: c_tolower_def)

lemma show_int_lower: "0 \<le> n \<Longrightarrow> list_all (\<lambda>c. \<not> c_isupper c) (show_int n)"
  using show_nat_digits [of "nat n"] by (auto simp: show_int_def list_all_iff c_isdigit_def c_isupper_def)

lemma unit_letters: "\<not> c_isupper CHR ''h''" "\<not> c_isupper CHR ''m''" "\<not> c_isupper CHR ''s''"
  by (simp_all add: c_isupper_def char_code_def)

lemma show_int_hd: "0 \<le> n \<Longrightarrow> \<exists>c s. show_int n = c # s \<and> c_isdigit c"
  using show_nat_digits [of "nat n"] show_nat_not_Nil [of "nat n"]
  by (cases "show_nat (nat n)") (auto simp: show_int_def)

text \<open>A duration survives being shown and entered again: what \<open>format_ban_duration\<close> prints for a
positive duration, or for a permanent ban, is parsed back to the same value, without overflow.\<close>

theorem ban_duration_roundtrip:
  assumes "d = - 2 \<or> 0 < d" "d \<le> INT64_MAX"
  shows "parse_ban_duration (format_ban_duration d) = Some d"
proof (cases "d = - 2")
  case True
  have "map c_tolower ''permanent'' = ''permanent''" by (rule tolower_plain) (simp add: c_isupper_def char_code_def)
  with True show ?thesis by (simp add: format_ban_duration_def parse_ban_duration_def)
next
  case False
  then have d: "0 < d" using assms(1) by simp
  define h where "h = d div 3600"
  define m where "m = (d mod 3600) div 60"
  define s where "s = d mod 60"
  have hms: "0 \<le> h" "0 \<le> m" "0 \<le> s" "h * 3600 + m * 60 + s = d"
  proof -
    have "d mod 3600 mod 60 = s" unfolding s_def by (rule mod_mod_cancel) simp
    then have "m * 60 + s = d mod 3600" using div_mult_mod_eq [of "d mod 3600" 60] by (simp add: m_def)
    moreover have "h * 3600 + d mod 3600 = d" by (simp add: h_def)
    ultimately show "h * 3600 + m * 60 + s = d" by simp
  qed (use d in \<open>simp_all add: h_def m_def s_def pos_imp_zdiv_nonneg_iff\<close>)
  let ?H = "if h > 0 then show_int h @ ''h'' else []"
  let ?M = "if m > 0 then show_int m @ ''m'' else []"
  let ?S = "if s > 0 \<or> ?H @ ?M = [] then show_int s @ ''s'' else []"
  have f: "format_ban_duration d = ?H @ ?M @ ?S"
    unfolding format_ban_duration_def Let_def h_def [symmetric] m_def [symmetric] s_def [symmetric]
    using False d by simp
  have ne: "?H @ ?M @ ?S \<noteq> []" by simp
  have low: "map c_tolower (?H @ ?M @ ?S) = ?H @ ?M @ ?S"
    by (rule tolower_plain) (use hms unit_letters in \<open>simp add: show_int_lower\<close>)
  have dig: "\<exists>c t. ?H @ ?M @ ?S = c # t \<and> c_isdigit c"
    using show_int_hd [OF hms(1)] show_int_hd [OF hms(2)] show_int_hd [OF hms(3)] by (auto split: if_splits)
  then have np: "?H @ ?M @ ?S \<noteq> ''perma''" "?H @ ?M @ ?S \<noteq> ''permanent''"
    by (auto simp: c_isdigit_def char_code_def)
  have sc: "scan_duration (?H @ ?M @ ?S) (0, 0, False) = Some (Inr (d, 0, True))"
  proof -
    have 1: "scan_duration (?H @ cs) (0, 0, False) = scan_duration cs (h * 3600, 0, h > 0)" for cs
      using scan_component [of h "CHR ''h''" 0 cs False] hms assms(2) by (simp add: unit_factor_def)
    have 2: "scan_duration (?M @ cs) (h * 3600, 0, h > 0) = scan_duration cs (h * 3600 + m * 60, 0, h > 0 \<or> m > 0)" for cs
      using scan_component [of m "CHR ''m''" "h * 3600" cs "h > 0"] hms assms(2) by (simp add: unit_factor_def)
    have 3: "scan_duration ?S (h * 3600 + m * 60, 0, h > 0 \<or> m > 0) = Some (Inr (d, 0, True))"
      using scan_component [of s "CHR ''s''" "h * 3600 + m * 60" "[]" "h > 0 \<or> m > 0"] hms assms(2)
      by (auto simp: unit_factor_def)
    show ?thesis unfolding 1 2 3 ..
  qed
  show ?thesis unfolding f parse_ban_duration_def low Let_def using ne np sc by simp
qed

theorem ban_duration_roundtrip_witness:
  "parse_ban_duration (format_ban_duration 9015) = Some 9015 \<and> parse_ban_duration (format_ban_duration (- 2)) = Some (- 2)"
  using ban_duration_roundtrip [of 9015] ban_duration_roundtrip [of "- 2"] by (simp add: INT64_MAX_def)

text \<open>A connecting user is refused exactly when an active ban names the user's IPID or the user's
(non-empty) hardware id, and the ban that is returned is such a ban; this holds after any of the
manager's operations, which all keep one ban per IPID.\<close>

theorem check_ban_exact:
  assumes "bans_ok b"
  shows "(check_ban now ipid hdid b \<noteq> None \<longleftrightarrow>
      (\<exists>e\<in>snd ` set (bm_bans b). \<not> is_expired now e \<and> (be_ipid e = ipid \<or> be_hdid e = hdid \<and> hdid \<noteq> [])))
    \<and> (\<forall>e. check_ban now ipid hdid b = Some e \<longrightarrow> \<not> is_expired now e \<and> (be_ipid e = ipid \<or> be_hdid e = hdid))
    \<and> bans_ok (fst (add_ban n b)) \<and> bans_ok (fst (snd (remove_ban k b)))"
proof -
  have key: "(k, e) \<in> set (bm_bans b) \<Longrightarrow> be_ipid e = k \<and> map_of (bm_bans b) k = Some e" for k e
    using assms by (auto simp: bans_ok_def)
  let ?f = "if hdid \<noteq> [] then find (hdid_matches now hdid) (map snd (bm_bans b)) else None"
  have f: "?f \<noteq> None \<longleftrightarrow> (\<exists>e\<in>snd ` set (bm_bans b). hdid \<noteq> [] \<and> be_hdid e = hdid \<and> \<not> is_expired now e)"
    using find_Some_iff_ex [of "hdid_matches now hdid" "map snd (bm_bans b)"] by (auto simp: hdid_matches_def)
  have fs: "?f = Some e \<Longrightarrow> be_hdid e = hdid \<and> \<not> is_expired now e" for e
    by (auto simp: hdid_matches_def find_Some_iff split: if_splits)
  have c: "check_ban now ipid hdid b = (case find_ban now ipid b of Some e \<Rightarrow> Some e | None \<Rightarrow> ?f)"
    by (auto simp: check_ban_def find_ban_def Let_def split: option.splits)
  have i: "find_ban now ipid b \<noteq> None \<longleftrightarrow> (\<exists>e\<in>snd ` set (bm_bans b). be_ipid e = ipid \<and> \<not> is_expired now e)"
  proof -
    have "find_ban now ipid b \<noteq> None \<longleftrightarrow> (\<exists>e. map_of (bm_bans b) ipid = Some e \<and> \<not> is_expired now e)"
      by (auto simp: find_ban_def split: option.splits)
    also have "\<dots> \<longleftrightarrow> (\<exists>e. (ipid, e) \<in> set (bm_bans b) \<and> \<not> is_expired now e)"
      using key by (blast dest: map_of_SomeD)
    finally show ?thesis using key by force
  qed
  have ib: "find_ban now ipid b = Some e \<Longrightarrow> be_ipid e = ipid \<and> \<not> is_expired now e" for e
    using bans_ok_ban [OF assms] by (auto simp: find_ban_def split: option.splits if_splits)
  have "check_ban now ipid hdid b \<noteq> None \<longleftrightarrow> find_ban now ipid b \<noteq> None \<or> ?f \<noteq> None"
    unfolding c by (auto split: option.splits)
  then have "check_ban now ipid hdid b \<noteq> None \<longleftrightarrow>
      (\<exists>e\<in>snd ` set (bm_bans b). \<not> is_expired now e \<and> (be_ipid e = ipid \<or> be_hdid e = hdid \<and> hdid \<noteq> []))"
    unfolding i f by blast
  moreover have "check_ban now ipid hdid b = Some e \<Longrightarrow> \<not> is_expired now e \<and> (be_ipid e = ipid \<or> be_hdid e = hdid)" for e
    unfolding c using ib fs by (auto split: option.splits)
  ultimately show ?thesis using bans_ok_add [OF assms] bans_ok_remove [OF assms] by blast
qed

definition demo_ban :: ban_entry where
  "demo_ban = ban_entry_new\<lparr>be_ipid := ''abcd'', be_hdid := ''hw'', be_duration := - 2\<rparr>"

theorem check_ban_exact_witness:
  "check_ban 0 ''other'' ''hw'' (fst (add_ban demo_ban ban_manager_new)) = Some demo_ban
   \<and> (\<exists>e\<in>snd ` set (bm_bans (fst (add_ban demo_ban ban_manager_new))).
         \<not> is_expired 0 e \<and> (be_ipid e = ''other'' \<or> be_hdid e = ''hw'' \<and> ''hw'' \<noteq> []))"
proof -
  let ?b = "fst (add_ban demo_ban ban_manager_new)"
  have "check_ban 0 ''other'' ''hw'' ?b = Some demo_ban"
    by (simp add: add_ban_def ban_manager_new_def check_ban_def demo_ban_def ban_entry_new_def hdid_matches_def
        is_expired_def is_permanent_def)
  moreover have "bans_ok ?b" by (intro bans_ok_add bans_ok_new)
  ultimately show ?thesis using check_ban_exact [of ?b 0 "''other''" "''hw''", THEN conjunct1] by (metis option.distinct(1))
qed

text \<open>Lifting a ban that was issued since the server started does not reach the database: the
entry in memory has no row id, so no row is invalidated, and the next start loads the ban again
and enforces it.\<close>

theorem lifted_ban_returns_after_restart:
  assumes "bm_has_db b" "be_id e = 0" "\<not> is_expired now e" "0 < n"
    and "add_ban e b = (b1, calls1)" "remove_ban (be_ipid e) b1 = (r, b2, calls2)"
    and "load_from_db True [e\<lparr>be_id := n\<rparr>] b2 = (b3, calls3)"
  shows "r \<and> Db_Add e \<in> set calls1 \<and> (\<forall>i. Db_Invalidate i \<notin> set calls2)
    \<and> find_ban now (be_ipid e) b2 = None
    \<and> check_ban now (be_ipid e) hdid b3 = Some (e\<lparr>be_id := n\<rparr>)"
proof -
  have b1: "map_of (bm_bans b1) (be_ipid e) = Some e" "bm_has_db b1"
    using assms(1,5) by (auto simp: add_ban_def update_conv')
  have "bm_has_db b2" "r" "find_ban now (be_ipid e) b2 = None" "\<forall>i. Db_Invalidate i \<notin> set calls2"
    using assms(2,6) b1 by (auto simp: remove_ban_def find_ban_def delete_conv')
  moreover have "Db_Add e \<in> set calls1" using assms(1,5) by (auto simp: add_ban_def)
  moreover have "bm_bans b3 = [(be_ipid e, e\<lparr>be_id := n\<rparr>)]"
    using assms(7) calculation(1) by (auto simp: load_from_db_def)
  moreover have "is_expired now (e\<lparr>be_id := n\<rparr>) = is_expired now e" by (simp add: is_expired_def is_permanent_def)
  ultimately show ?thesis using assms(3) by (simp add: check_ban_def Let_def)
qed

theorem lifted_ban_returns_after_restart_witness:
  "check_ban 0 ''abcd'' [] (ban_manager_new\<lparr>bm_has_db := True, bm_bans := [(''abcd'', demo_ban\<lparr>be_id := 1\<rparr>)]\<rparr>)
     = Some (demo_ban\<lparr>be_id := 1\<rparr>)"
  using lifted_ban_returns_after_restart [of "ban_manager_new\<lparr>bm_has_db := True\<rparr>" demo_ban 0 1
      "ban_manager_new\<lparr>bm_has_db := True, bm_bans := [(''abcd'', demo_ban)]\<rparr>" "[Db_Add demo_ban]" True
      "ban_manager_new\<lparr>bm_has_db := True\<rparr>" "[]"
      "ban_manager_new\<lparr>bm_has_db := True, bm_bans := [(''abcd'', demo_ban\<lparr>be_id := 1\<rparr>)]\<rparr>" "[]" "[]"]
  by (simp add: ban_manager_new_def add_ban_def remove_ban_def load_from_db_def is_expired_def is_permanent_def
      demo_ban_def ban_entry_new_def)

end
