(* ===== verification/ASN_Reputation.thy ===== *)
theory ASN_Reputation
  imports Ban_Manager
begin

text \<open>
  Reputation of autonomous systems: include/game/ASNReputationManager.h and
  engine/game/ASNReputationManager.cpp. Abuse reports escalate a network from NORMAL to WATCHED,
  RATE_LIMITED and BLOCKED; a block expires, is lifted or is set by hand. The map of networks is
  the list of its entries, a set of addresses a list without repetitions. The clock (seconds) is
  an argument. Files are JSON arrays written and parsed by a library: a document is the list of
  its items. The writer thread is a mailbox of one snapshot.
\<close>

section \<open>Entries\<close>

datatype asn_status = NORMAL | WATCHED | RATE_LIMITED | BLOCKED

definition asn_status_to_string :: "asn_status \<Rightarrow> string" where
  "asn_status_to_string st =
     (case st of NORMAL \<Rightarrow> ''NORMAL'' | WATCHED \<Rightarrow> ''WATCHED'' | RATE_LIMITED \<Rightarrow> ''RATE_LIMITED'' | BLOCKED \<Rightarrow> ''BLOCKED'')"

record asn_entry =
  ae_asn :: u32
  ae_as_org :: string
  ae_total_abuse_events :: int
  ae_abusive_ips :: "string list"
  ae_recent_event_times :: "int list"
  ae_status :: asn_status
  ae_status_changed_at :: int
  ae_block_expires_at :: int
  ae_block_reason :: string

definition asn_entry_new :: asn_entry where
  "asn_entry_new = \<lparr>ae_asn = 0, ae_as_org = [], ae_total_abuse_events = 0, ae_abusive_ips = [],
     ae_recent_event_times = [], ae_status = NORMAL, ae_status_changed_at = 0, ae_block_expires_at = 0,
     ae_block_reason = []\<rparr>"

record asn_config =
  ac_enabled :: bool
  ac_watch_threshold :: int
  ac_rate_limit_threshold :: int
  ac_block_threshold :: int
  ac_window_minutes :: int
  ac_auto_block_duration :: string
  ac_whitelist_asns :: "u32 list"
  ac_whitelist_multiplier :: int

definition asn_config_default :: asn_config where
  "asn_config_default = \<lparr>ac_enabled = True, ac_watch_threshold = 2, ac_rate_limit_threshold = 3,
     ac_block_threshold = 5, ac_window_minutes = 60, ac_auto_block_duration = ''24h'', ac_whitelist_asns = [],
     ac_whitelist_multiplier = 5\<rparr>"

text \<open>A call of the status callback: the callback, the network, the two statuses and the reason.\<close>

type_synonym asn_call = "nat \<times> u32 \<times> asn_status \<times> asn_status \<times> string"

record asn_manager =
  am_config :: asn_config
  am_callback :: "nat option"
  am_asns :: "(u32 \<times> asn_entry) list"
  am_writer :: "(string \<times> (u32 \<times> asn_entry) list) option"

definition asn_manager_new :: asn_manager where
  "asn_manager_new = \<lparr>am_config = asn_config_default, am_callback = None, am_asns = [], am_writer = None\<rparr>"

definition asn_configure :: "asn_config \<Rightarrow> asn_manager \<Rightarrow> asn_manager" where
  "asn_configure c m = m\<lparr>am_config := c\<rparr>"

definition set_status_callback :: "nat option \<Rightarrow> asn_manager \<Rightarrow> asn_manager" where
  "set_status_callback cb m = m\<lparr>am_callback := cb\<rparr>"

section \<open>Escalation\<close>

definition is_whitelisted :: "asn_config \<Rightarrow> u32 \<Rightarrow> bool" where
  "is_whitelisted c asn = (asn \<in> set (ac_whitelist_asns c))"

definition effective_threshold :: "asn_config \<Rightarrow> int \<Rightarrow> u32 \<Rightarrow> int" where
  "effective_threshold c base asn = (if is_whitelisted c asn then base * ac_whitelist_multiplier c else base)"

definition prune_window :: "asn_config \<Rightarrow> int \<Rightarrow> asn_entry \<Rightarrow> asn_entry" where
  "prune_window c now en =
     en\<lparr>ae_recent_event_times :=
          filter (\<lambda>t. \<not> t < now - ac_window_minutes c * 60) (ae_recent_event_times en)\<rparr>"

text \<open>\<open>None\<close> when the configured duration overflows the parser's integers.\<close>

definition escalate :: "asn_config \<Rightarrow> int \<Rightarrow> asn_status \<Rightarrow> string \<Rightarrow> asn_entry \<Rightarrow> asn_entry option" where
  "escalate c now st reason en =
    (let en1 = en\<lparr>ae_status := st, ae_status_changed_at := now\<rparr>
     in if st = BLOCKED then
          map_option (\<lambda>d. en1\<lparr>ae_block_expires_at := (if d > 0 then now + d else 0), ae_block_reason := reason\<rparr>)
            (parse_ban_duration (ac_auto_block_duration c))
        else Some en1)"

definition evaluate_escalation :: "asn_config \<Rightarrow> int \<Rightarrow> asn_entry \<Rightarrow> asn_entry option" where
  "evaluate_escalation c now en =
    (let unique_ips = int (length (ae_abusive_ips en));
         watch_thresh = effective_threshold c (ac_watch_threshold c) (ae_asn en);
         rate_limit_thresh = effective_threshold c (ac_rate_limit_threshold c) (ae_asn en);
         block_thresh = effective_threshold c (ac_block_threshold c) (ae_asn en)
     in case ae_status en of
          NORMAL \<Rightarrow>
            if unique_ips \<ge> watch_thresh then escalate c now WATCHED ''abuse threshold (WATCHED)'' en else Some en
        | WATCHED \<Rightarrow>
            if unique_ips \<ge> rate_limit_thresh then escalate c now RATE_LIMITED ''abuse threshold (RATE_LIMITED)'' en
            else Some en
        | RATE_LIMITED \<Rightarrow>
            if unique_ips \<ge> block_thresh then escalate c now BLOCKED ''abuse threshold (BLOCKED)'' en
            else if now - ae_status_changed_at en > 15 * 60 \<and> ae_recent_event_times en \<noteq> [] then
              (if list_ex (\<lambda>t. t > now - 300) (ae_recent_event_times en)
               then escalate c now BLOCKED ''sustained abuse after rate limiting'' en else Some en)
            else Some en
        | BLOCKED \<Rightarrow> Some en)"

definition asn_lookup :: "u32 \<Rightarrow> asn_manager \<Rightarrow> asn_entry" where
  "asn_lookup asn m = (case map_of (am_asns m) asn of Some en \<Rightarrow> en | None \<Rightarrow> asn_entry_new)"

definition asn_store :: "u32 \<Rightarrow> asn_entry \<Rightarrow> asn_manager \<Rightarrow> asn_manager" where
  "asn_store asn en m = m\<lparr>am_asns := AList.update asn en (am_asns m)\<rparr>"

definition name_entry :: "u32 \<Rightarrow> string \<Rightarrow> asn_entry \<Rightarrow> asn_entry" where
  "name_entry asn as_org en =
    (if ae_asn en = 0 then en\<lparr>ae_asn := asn, ae_as_org := as_org, ae_status := NORMAL\<rparr>
     else if ae_as_org en = [] \<and> as_org \<noteq> [] then en\<lparr>ae_as_org := as_org\<rparr>
     else en)"

definition record_event :: "int \<Rightarrow> string \<Rightarrow> asn_entry \<Rightarrow> asn_entry" where
  "record_event now ip en =
     en\<lparr>ae_total_abuse_events := ae_total_abuse_events en + 1,
        ae_recent_event_times := ae_recent_event_times en @ [now],
        ae_abusive_ips := (if ip \<in> set (ae_abusive_ips en) then ae_abusive_ips en else ae_abusive_ips en @ [ip])\<rparr>"

definition report_abuse ::
  "int \<Rightarrow> u32 \<Rightarrow> string \<Rightarrow> string \<Rightarrow> string \<Rightarrow> asn_manager \<Rightarrow> (asn_manager \<times> asn_call list) option" where
  "report_abuse now asn ip as_org reason m =
    (if \<not> ac_enabled (am_config m) \<or> asn = 0 then Some (m, [])
     else
       let en = name_entry asn as_org (asn_lookup asn m) in
       if ae_status en = BLOCKED then Some (asn_store asn en m, [])
       else
         map_option
           (\<lambda>en'. (asn_store asn en' m,
                   if ae_status en \<noteq> ae_status en' then
                     (case am_callback m of None \<Rightarrow> [] | Some cb \<Rightarrow> [(cb, asn, ae_status en, ae_status en', reason)])
                   else []))
           (evaluate_escalation (am_config m) now (prune_window (am_config m) now (record_event now ip en))))"

section \<open>Queries and manual changes\<close>

definition check_blocked :: "int \<Rightarrow> u32 \<Rightarrow> asn_manager \<Rightarrow> asn_entry option" where
  "check_blocked now asn m =
    (if asn = 0 then None
     else case map_of (am_asns m) asn of
            None \<Rightarrow> None
          | Some en \<Rightarrow>
              if ae_status en \<noteq> BLOCKED then None
              else if ae_block_expires_at en > 0 \<and> ae_block_expires_at en \<le> now then None
              else Some en)"

definition get_status :: "u32 \<Rightarrow> asn_manager \<Rightarrow> asn_entry option" where
  "get_status asn m = map_of (am_asns m) asn"

definition block_asn :: "int \<Rightarrow> u32 \<Rightarrow> string \<Rightarrow> string \<Rightarrow> int \<Rightarrow> asn_manager \<Rightarrow> asn_manager" where
  "block_asn now asn as_org reason duration_sec m =
    (let en = asn_lookup asn m;
         en1 = en\<lparr>ae_asn := asn\<rparr>;
         en2 = (if as_org \<noteq> [] then en1\<lparr>ae_as_org := as_org\<rparr> else en1)
     in asn_store asn
          (en2\<lparr>ae_status := BLOCKED, ae_status_changed_at := now,
               ae_block_expires_at := (if duration_sec = DURATION_PERMANENT then 0 else now + duration_sec),
               ae_block_reason := reason\<rparr>) m)"

definition unblock_asn :: "int \<Rightarrow> u32 \<Rightarrow> asn_manager \<Rightarrow> bool \<times> asn_manager" where
  "unblock_asn now asn m =
    (case map_of (am_asns m) asn of
       None \<Rightarrow> (False, m)
     | Some en \<Rightarrow>
         (True, asn_store asn
           (en\<lparr>ae_status := NORMAL, ae_block_expires_at := 0, ae_block_reason := [], ae_abusive_ips := [],
               ae_recent_event_times := [], ae_status_changed_at := now\<rparr>) m))"

definition list_flagged :: "asn_manager \<Rightarrow> asn_entry list" where
  "list_flagged m = filter (\<lambda>en. ae_status en \<noteq> NORMAL) (map snd (am_asns m))"

definition block_lapsed :: "int \<Rightarrow> asn_entry \<Rightarrow> bool" where
  "block_lapsed now en = (ae_status en = BLOCKED \<and> ae_block_expires_at en > 0 \<and> ae_block_expires_at en \<le> now)"

definition sweep_entry :: "asn_config \<Rightarrow> int \<Rightarrow> asn_entry \<Rightarrow> asn_entry" where
  "sweep_entry c now en =
    (let en1 = (if block_lapsed now en
                then en\<lparr>ae_status := NORMAL, ae_block_reason := [], ae_status_changed_at := now\<rparr> else en);
         en2 = prune_window c now en1
     in if ae_recent_event_times en2 = [] then en2\<lparr>ae_abusive_ips := []\<rparr> else en2)"

definition asn_sweep :: "int \<Rightarrow> asn_manager \<Rightarrow> nat \<times> asn_manager" where
  "asn_sweep now m =
    (length (filter (\<lambda>(_, en). block_lapsed now en) (am_asns m)),
     m\<lparr>am_asns :=
         filter (\<lambda>(_, en). \<not> (ae_status en = NORMAL \<and> ae_total_abuse_events en = 0 \<and> ae_abusive_ips en = []))
           (map (\<lambda>(k, en). (k, sweep_entry (am_config m) now en)) (am_asns m))\<rparr>)"

definition asn_count :: "asn_manager \<Rightarrow> nat" where
  "asn_count m = length (am_asns m)"

section \<open>Persistence\<close>

text \<open>An item of the document, with the defaults that a missing member gets.\<close>

record asn_item =
  ai_asn :: u32
  ai_as_org :: string
  ai_total_abuse_events :: int
  ai_status :: string
  ai_status_changed_at :: int
  ai_block_expires_at :: int
  ai_block_reason :: string

definition item_status :: "string \<Rightarrow> asn_status" where
  "item_status t =
    (if t = ''WATCHED'' then WATCHED else if t = ''RATE_LIMITED'' then RATE_LIMITED
     else if t = ''BLOCKED'' then BLOCKED else NORMAL)"

definition entry_of_item :: "int \<Rightarrow> asn_item \<Rightarrow> asn_entry" where
  "entry_of_item now it =
    (let en = asn_entry_new\<lparr>ae_asn := ai_asn it, ae_as_org := ai_as_org it,
                ae_total_abuse_events := ai_total_abuse_events it, ae_status_changed_at := ai_status_changed_at it,
                ae_block_expires_at := ai_block_expires_at it, ae_block_reason := ai_block_reason it,
                ae_status := item_status (ai_status it)\<rparr>
     in if block_lapsed now en then en\<lparr>ae_status := NORMAL, ae_block_reason := []\<rparr> else en)"

text \<open>The document is \<open>None\<close> when the file does not open, does not parse or is not an array.\<close>

definition asn_load :: "int \<Rightarrow> asn_item list option \<Rightarrow> asn_manager \<Rightarrow> asn_manager" where
  "asn_load now doc m =
    (case doc of
       None \<Rightarrow> m
     | Some items \<Rightarrow>
         fold (\<lambda>it m'. if ai_asn it = 0 then m' else asn_store (ai_asn it) (entry_of_item now it) m')
           items (m\<lparr>am_asns := []\<rparr>))"

definition item_of_entry :: "asn_entry \<Rightarrow> asn_item" where
  "item_of_entry en =
     \<lparr>ai_asn = ae_asn en, ai_as_org = ae_as_org en, ai_total_abuse_events = ae_total_abuse_events en,
      ai_status = asn_status_to_string (ae_status en), ai_status_changed_at = ae_status_changed_at en,
      ai_block_expires_at = ae_block_expires_at en, ai_block_reason = ae_block_reason en\<rparr>"

definition write_to_disk :: "(u32 \<times> asn_entry) list \<Rightarrow> asn_item list" where
  "write_to_disk asns = map (\<lambda>(_, en). item_of_entry en) asns"

definition asn_snapshot :: "asn_manager \<Rightarrow> (u32 \<times> asn_entry) list" where
  "asn_snapshot m = am_asns m"

definition asn_save_sync :: "asn_manager \<Rightarrow> asn_item list" where
  "asn_save_sync m = write_to_disk (asn_snapshot m)"

definition asn_save_async :: "string \<Rightarrow> asn_manager \<Rightarrow> asn_manager" where
  "asn_save_async path m = m\<lparr>am_writer := Some (path, asn_snapshot m)\<rparr>"

text \<open>One turn of the writer thread: the file it writes, if a snapshot was waiting.\<close>

definition writer_turn :: "asn_manager \<Rightarrow> (string \<times> asn_item list) option \<times> asn_manager" where
  "writer_turn m =
    (case am_writer m of
       None \<Rightarrow> (None, m)
     | Some (path, asns) \<Rightarrow> (Some (path, write_to_disk asns), m\<lparr>am_writer := None\<rparr>))"

end
