(* ===== verification/ASN_Reputation_Props.thy ===== *)
theory ASN_Reputation_Props
  imports ASN_Reputation
begin

text \<open>
  The ladder of a network's status, and what a restart keeps of it.
\<close>

section \<open>Escalation\<close>

text \<open>All reports on one network, in order: the times and the addresses.\<close>

fun report_all :: "u32 \<Rightarrow> (int \<times> string \<times> string \<times> string) list \<Rightarrow> asn_manager \<Rightarrow> asn_manager option" where
  "report_all asn [] m = Some m"
| "report_all asn ((now, ip, org, reason) # rs) m =
     (case report_abuse now asn ip org reason m of None \<Rightarrow> None | Some (m', _) \<Rightarrow> report_all asn rs m')"

lemma report_all_append:
  "report_all asn (rs @ qs) m = (case report_all asn rs m of None \<Rightarrow> None | Some m' \<Rightarrow> report_all asn qs m')"
  by (induction asn rs m rule: report_all.induct) (auto split: option.split)

definition ladder :: "asn_config \<Rightarrow> u32 \<Rightarrow> nat \<Rightarrow> asn_status" where
  "ladder c asn n =
    (if int n < effective_threshold c (ac_watch_threshold c) asn then NORMAL
     else if int n < effective_threshold c (ac_rate_limit_threshold c) asn then WATCHED
     else if int n < effective_threshold c (ac_block_threshold c) asn then RATE_LIMITED
     else BLOCKED)"

definition rising :: "asn_config \<Rightarrow> u32 \<Rightarrow> bool" where
  "rising c asn \<longleftrightarrow> 1 \<le> effective_threshold c (ac_watch_threshold c) asn \<and>
     effective_threshold c (ac_watch_threshold c) asn < effective_threshold c (ac_rate_limit_threshold c) asn \<and>
     effective_threshold c (ac_rate_limit_threshold c) asn < effective_threshold c (ac_block_threshold c) asn"

text \<open>The entry of a network whose reports all came between \<open>T\<close> and a quarter of an hour later.\<close>

definition climbing :: "asn_config \<Rightarrow> u32 \<Rightarrow> int \<Rightarrow> string set \<Rightarrow> asn_entry \<Rightarrow> bool" where
  "climbing c asn T ips en \<longleftrightarrow> ae_asn en = asn \<and> ae_status en = ladder c asn (card ips) \<and>
     (ae_status en \<noteq> BLOCKED \<longrightarrow> set (ae_abusive_ips en) = ips \<and> distinct (ae_abusive_ips en)) \<and>
     (ae_status en = RATE_LIMITED \<longrightarrow> T \<le> ae_status_changed_at en)"

lemma ladder_insert:
  assumes "rising c asn" and "ladder c asn n = BLOCKED"
  shows "ladder c asn (n + k) = BLOCKED"
  using assms by (auto simp: ladder_def rising_def split: if_splits)

lemma one_report:
  assumes "rising c asn" and "climbing c asn T ips en" and "T \<le> now" "now \<le> T + 900" and "finite ips"
    and "ae_status en \<noteq> BLOCKED" and "parse_ban_duration (ac_auto_block_duration c) = Some d"
  shows "\<exists>en'. evaluate_escalation c now (prune_window c now (record_event now ip en)) = Some en' \<and>
    climbing c asn T (insert ip ips) en'"
proof -
  let ?en = "prune_window c now (record_event now ip en)"
  have ips: "set (ae_abusive_ips ?en) = insert ip ips" "distinct (ae_abusive_ips ?en)" "ae_asn ?en = asn"
    "ae_status ?en = ladder c asn (card ips)" "ae_status_changed_at ?en = ae_status_changed_at en"
    using assms(2,6) by (auto simp: climbing_def prune_window_def record_event_def)
  then have n: "length (ae_abusive_ips ?en) = card (insert ip ips)" by (metis distinct_card)
  have step: "card (insert ip ips) = card ips \<or> card (insert ip ips) = Suc (card ips)"
    using assms(5) by (auto simp: card_insert_if)
  have late: "ae_status en = RATE_LIMITED \<Longrightarrow> \<not> now - ae_status_changed_at ?en > 900"
    using assms(2,4) ips(5) by (auto simp: climbing_def)
  have since: "ae_status en = RATE_LIMITED \<Longrightarrow> T \<le> ae_status_changed_at en" using assms(2) by (simp add: climbing_def)
  have st: "ae_status en = ladder c asn (card ips)" using assms(2) by (simp add: climbing_def)
  show ?thesis
    using assms(1,3,6,7) ips n step late since st
    by (cases "ladder c asn (card ips)")
      (auto simp: evaluate_escalation_def Let_def escalate_def climbing_def ladder_def rising_def split: if_splits)
qed

lemma report_climbs:
  assumes "rising (am_config m) asn" and "asn \<noteq> 0" and "ac_enabled (am_config m)" and "T \<le> now" and "now \<le> T + 900"
    and "parse_ban_duration (ac_auto_block_duration (am_config m)) = Some d" and "finite ips"
    and "climbing (am_config m) asn T ips (name_entry asn org (asn_lookup asn m))"
  shows "\<exists>en' calls. report_abuse now asn ip org reason m = Some (asn_store asn en' m, calls) \<and>
    climbing (am_config m) asn T (insert ip ips) en'"
proof (cases "ae_status (name_entry asn org (asn_lookup asn m)) = BLOCKED")
  case True
  then have "ladder (am_config m) asn (card (insert ip ips)) = BLOCKED"
    using assms(7,8) ladder_insert [OF assms(1), of "card ips" 1] by (auto simp: climbing_def card_insert_if)
  then show ?thesis using True assms(2,3,8)
    by (intro exI [of _ "name_entry asn org (asn_lookup asn m)"] exI [of _ "[]"]) (simp add: report_abuse_def Let_def climbing_def)
next
  case False
  from one_report [OF assms(1,8,4,5,7) False assms(6), of ip] show ?thesis
    using False assms(2,3) by (auto simp: report_abuse_def Let_def)
qed

lemma fresh_climbs: "rising c asn \<Longrightarrow> climbing c asn T {} (name_entry asn org asn_entry_new)"
  by (simp add: climbing_def name_entry_def asn_entry_new_def ladder_def rising_def)

lemma named_climbs: "climbing c asn T ips en \<Longrightarrow> asn \<noteq> 0 \<Longrightarrow> climbing c asn T ips (name_entry asn org en)"
  by (simp add: climbing_def name_entry_def)

definition reported_ips :: "(int \<times> string \<times> string \<times> string) list \<Rightarrow> string set" where
  "reported_ips rs = set (map (\<lambda>(_, ip, _). ip) rs)"

text \<open>Where a network is after reports that began when it was not tracked.\<close>

definition tracked :: "u32 \<Rightarrow> int \<Rightarrow> asn_manager \<Rightarrow> (int \<times> string \<times> string \<times> string) list \<Rightarrow> asn_manager \<Rightarrow> bool" where
  "tracked asn T m rs m' \<longleftrightarrow> am_config m' = am_config m \<and> (\<forall>k. k \<noteq> asn \<longrightarrow> get_status k m' = get_status k m) \<and>
     (case map_of (am_asns m') asn of None \<Rightarrow> rs = []
      | Some en \<Rightarrow> climbing (am_config m) asn T (reported_ips rs) en)"

lemma tracked_entry:
  assumes "tracked asn T m rs m'" and "rising (am_config m) asn" and "asn \<noteq> 0"
  shows "climbing (am_config m) asn T (reported_ips rs) (name_entry asn org (asn_lookup asn m'))"
  using assms named_climbs [OF _ assms(3)] fresh_climbs [OF assms(2)]
  by (auto simp: tracked_def asn_lookup_def reported_ips_def split: option.splits)

lemma reports_tracked:
  assumes "map_of (am_asns m) asn = None" and "asn \<noteq> 0" and "ac_enabled (am_config m)" and "rising (am_config m) asn"
    and "parse_ban_duration (ac_auto_block_duration (am_config m)) = Some d"
    and "list_all (\<lambda>(now, _). T \<le> now \<and> now \<le> T + 900) rs"
  shows "\<exists>m'. report_all asn rs m = Some m' \<and> tracked asn T m rs m'"
  using assms(6)
proof (induction rs rule: rev_induct)
  case (snoc r rs)
  obtain now ip org reason where r: "r = (now, ip, org, reason)" by (cases r)
  obtain m1 where m1: "report_all asn rs m = Some m1" "tracked asn T m rs m1" using snoc by auto
  then have c: "am_config m1 = am_config m" by (simp add: tracked_def)
  have "finite (reported_ips rs)" by (simp add: reported_ips_def)
  with report_climbs [of m1 asn T now d "reported_ips rs" org ip reason] tracked_entry [OF m1(2) assms(4,2)] assms snoc.prems
  obtain en' calls where "report_abuse now asn ip org reason m1 = Some (asn_store asn en' m1, calls)"
    "climbing (am_config m) asn T (insert ip (reported_ips rs)) en'" by (auto simp: c r)
  then show ?case using m1
    by (auto simp: report_all_append r tracked_def asn_store_def get_status_def update_conv reported_ips_def)
qed (simp add: tracked_def assms(1))

text \<open>C36: Abuse reports move a network up the ladder by the number of distinct addresses reported and
by nothing else: when a network that is not tracked yet is reported any number of times within a
quarter of an hour, and its three thresholds rise, then no arithmetic overflows, its status is the
rung that the number of distinct addresses has reached, it is refused from then on exactly when
this is the highest rung (until the block lapses), and no other network changes.\<close>

theorem asn_escalation_ladder:
  assumes "map_of (am_asns m) asn = None" and "asn \<noteq> 0" and "ac_enabled (am_config m)" and "rising (am_config m) asn"
    and "parse_ban_duration (ac_auto_block_duration (am_config m)) = Some d"
    and "list_all (\<lambda>(now, _). T \<le> now \<and> now \<le> T + 900) rs" and "rs \<noteq> []"
  shows "\<exists>m' en. report_all asn rs m = Some m' \<and> get_status asn m' = Some en \<and>
    ae_status en = ladder (am_config m) asn (card (set (map (\<lambda>(_, ip, _). ip) rs))) \<and>
    (check_blocked now asn m' \<noteq> None \<longleftrightarrow> ae_status en = BLOCKED \<and> \<not> block_lapsed now en) \<and>
    (\<forall>k. k \<noteq> asn \<longrightarrow> get_status k m' = get_status k m)"
proof -
  obtain m' where m': "report_all asn rs m = Some m'" "tracked asn T m rs m'"
    using reports_tracked [OF assms(1-6)] by blast
  then obtain en where "map_of (am_asns m') asn = Some en" "climbing (am_config m) asn T (reported_ips rs) en"
    using assms(7) by (auto simp: tracked_def split: option.splits)
  then show ?thesis using assms(2) m'
    by (intro exI [of _ m'] exI [of _ en])
      (auto simp: get_status_def climbing_def check_blocked_def block_lapsed_def tracked_def reported_ips_def)
qed

definition demo_reports :: "(int \<times> string \<times> string \<times> string) list" where
  "demo_reports = map (\<lambda>ip. (1000, ip, ''Org'', ''spam'')) [''a'', ''b'', ''a'', ''c'', ''d'', ''e'']"

theorem asn_escalation_ladder_witness:
  "\<exists>m' en. report_all 64500 demo_reports asn_manager_new = Some m' \<and> get_status 64500 m' = Some en \<and> ae_status en = BLOCKED"
proof -
  have "map_of (am_asns asn_manager_new) 64500 = None" "(64500 :: u32) \<noteq> 0" "ac_enabled (am_config asn_manager_new)"
    "rising (am_config asn_manager_new) 64500"
    "parse_ban_duration (ac_auto_block_duration (am_config asn_manager_new)) = Some 86400"
    "list_all (\<lambda>(now, _). 1000 \<le> now \<and> now \<le> 1000 + 900) demo_reports" "demo_reports \<noteq> []"
    unfolding rising_def by code_simp+
  moreover have "card (set (map (\<lambda>(_, ip, _). ip) demo_reports)) = 5" by (simp add: demo_reports_def insert_commute)
  moreover have "ladder (am_config asn_manager_new) 64500 5 = BLOCKED" unfolding ladder_def by code_simp
  ultimately show ?thesis using asn_escalation_ladder [of asn_manager_new 64500 86400 1000 demo_reports] by metis
qed

section \<open>A restart\<close>

definition asns_ok :: "asn_manager \<Rightarrow> bool" where
  "asns_ok m \<longleftrightarrow> distinct (map fst (am_asns m)) \<and> (\<forall>(k, en)\<in>set (am_asns m). ae_asn en = k \<and> k \<noteq> 0)"

lemma asns_ok_store: "asns_ok m \<Longrightarrow> ae_asn en = k \<Longrightarrow> k \<noteq> 0 \<Longrightarrow> asns_ok (asn_store k en m)"
  using set_update_subset [of k en "am_asns m"] by (auto simp: asns_ok_def asn_store_def distinct_update)

text \<open>What is left of an entry that has been written and loaded.\<close>

definition reloaded :: "int \<Rightarrow> asn_entry \<Rightarrow> asn_entry" where
  "reloaded now en =
    (let kept = en\<lparr>ae_abusive_ips := [], ae_recent_event_times := []\<rparr>
     in if block_lapsed now en then kept\<lparr>ae_status := NORMAL, ae_block_reason := []\<rparr> else kept)"

lemma item_roundtrip: "entry_of_item now (item_of_entry en) = reloaded now en"
  by (cases "ae_status en")
    (simp_all add: entry_of_item_def item_of_entry_def reloaded_def asn_entry_new_def item_status_def
      asn_status_to_string_def block_lapsed_def Let_def)

lemma load_items:
  "\<forall>(k, en)\<in>set xs. ae_asn en = k \<and> k \<noteq> 0 \<Longrightarrow> distinct (map fst xs) \<Longrightarrow>
   map_of (am_asns (fold (\<lambda>it m'. if ai_asn it = 0 then m' else asn_store (ai_asn it) (entry_of_item now it) m')
     (write_to_disk xs) m)) asn =
   (case map_of xs asn of Some en \<Rightarrow> Some (reloaded now en) | None \<Rightarrow> map_of (am_asns m) asn)"
proof (induction xs arbitrary: m)
  case (Cons x xs)
  obtain k en where x: "x = (k, en)" by (cases x)
  have "ai_asn (item_of_entry en) = k" "k \<noteq> 0" using Cons.prems by (auto simp: x item_of_entry_def)
  moreover have "map_of xs k = None" using Cons.prems by (auto simp: x map_of_eq_None_iff)
  ultimately show ?case using Cons
    by (auto simp: x write_to_disk_def item_roundtrip asn_store_def update_conv split: option.split)
qed (simp add: write_to_disk_def)

text \<open>A restart keeps the blocks and forgets the progress: after saving and loading, every network
has its name, counters, status and deadline again, lapsed blocks excepted, so the same networks are
refused; but the addresses and times that were counted towards the next rung are gone.\<close>

theorem asn_restart:
  assumes "asns_ok m"
  shows "get_status asn (asn_load now (Some (asn_save_sync m)) m0) = map_option (reloaded now) (get_status asn m) \<and>
    (check_blocked now asn (asn_load now (Some (asn_save_sync m)) m0) \<noteq> None \<longleftrightarrow> check_blocked now asn m \<noteq> None) \<and>
    (\<forall>en. get_status asn (asn_load now (Some (asn_save_sync m)) m0) = Some en \<longrightarrow>
       ae_abusive_ips en = [] \<and> ae_recent_event_times en = [])"
proof -
  have load: "map_of (am_asns (asn_load now (Some (asn_save_sync m)) m0)) asn = map_option (reloaded now) (map_of (am_asns m) asn)"
    using load_items [of "am_asns m" now "m0\<lparr>am_asns := []\<rparr>" asn] assms
    by (auto simp: asns_ok_def asn_load_def asn_save_sync_def asn_snapshot_def split: option.split)
  then show ?thesis
    by (auto simp: get_status_def check_blocked_def reloaded_def Let_def block_lapsed_def split: option.splits if_splits)
qed

theorem asn_restart_witness:
  "check_blocked 1500 64500 (asn_load 1500 (Some (asn_save_sync (block_asn 1000 64500 ''Org'' ''x'' 600 asn_manager_new))) asn_manager_new) \<noteq> None"
proof -
  have "asns_ok (block_asn 1000 64500 ''Org'' ''x'' 600 asn_manager_new)"
    by (simp add: asns_ok_def block_asn_def asn_store_def asn_manager_new_def Let_def)
  moreover have "check_blocked 1500 64500 (block_asn 1000 64500 ''Org'' ''x'' 600 asn_manager_new) \<noteq> None" by code_simp
  ultimately show ?thesis using asn_restart by blast
qed

end
