(* ===== verification/User_Store.thy ===== *)
theory User_Store
  imports Prelude
begin

text \<open>
  The accounts table of engine/game/DatabaseManager.cpp: the five operations on \<open>users\<close>, whose rows
  are kept in the order of their ids. Names go to the SQL engine as C strings, so they end at their
  first NUL; the engine itself is assumed not to fail.
\<close>

record user_entry =
  us_username :: string
  us_salt :: string
  us_password :: string
  us_acl :: string

definition c_str :: "string \<Rightarrow> string" where
  "c_str s = takeWhile (\<lambda>c. char_code c \<noteq> 0) s"

definition get_user :: "string \<Rightarrow> user_entry list \<Rightarrow> user_entry option" where
  "get_user name us = find (\<lambda>u. us_username u = c_str name) us"

definition create_user :: "string \<Rightarrow> string \<Rightarrow> string \<Rightarrow> string \<Rightarrow> user_entry list \<Rightarrow> bool \<times> user_entry list" where
  "create_user name salt hash role us =
    (if list_ex (\<lambda>u. us_username u = c_str name) us then (False, us)
     else (True, us @ [\<lparr>us_username = c_str name, us_salt = c_str salt, us_password = c_str hash,
                        us_acl = c_str role\<rparr>]))"

definition delete_user :: "string \<Rightarrow> user_entry list \<Rightarrow> bool \<times> user_entry list" where
  "delete_user name us =
    (list_ex (\<lambda>u. us_username u = c_str name) us, filter (\<lambda>u. us_username u \<noteq> c_str name) us)"

definition list_users :: "user_entry list \<Rightarrow> string list" where
  "list_users us = map us_username us"

definition update_acl :: "string \<Rightarrow> string \<Rightarrow> user_entry list \<Rightarrow> bool \<times> user_entry list" where
  "update_acl name role us =
    (list_ex (\<lambda>u. us_username u = c_str name) us,
     map (\<lambda>u. if us_username u = c_str name then u\<lparr>us_acl := c_str role\<rparr> else u) us)"

text \<open>The result is that of the statement, whether or not a row matched.\<close>

definition update_password :: "string \<Rightarrow> string \<Rightarrow> string \<Rightarrow> user_entry list \<Rightarrow> bool \<times> user_entry list" where
  "update_password name salt hash us =
    (True, map (\<lambda>u. if us_username u = c_str name
                    then u\<lparr>us_salt := c_str salt, us_password := c_str hash\<rparr> else u) us)"

section \<open>Names are unique\<close>

definition users_ok :: "user_entry list \<Rightarrow> bool" where
  "users_ok us = distinct (map us_username us)"

lemma c_str_idem [simp]: "c_str (c_str s) = c_str s"
  unfolding c_str_def by (metis takeWhile_eq_all_conv set_takeWhileD)

lemma users_ok_create [inv_intros]: "users_ok us \<Longrightarrow> users_ok (snd (create_user n s h r us))"
  by (auto simp: users_ok_def create_user_def list_ex_iff)

lemma users_ok_delete [inv_intros]: "users_ok us \<Longrightarrow> users_ok (snd (delete_user n us))"
  by (simp add: users_ok_def delete_user_def distinct_map_filter)

lemma map_username_update:
  "(\<And>u. us_username (f u) = us_username u) \<Longrightarrow> map us_username (map f us) = map us_username us"
  by simp

lemma users_ok_update_acl [inv_intros]: "users_ok us \<Longrightarrow> users_ok (snd (update_acl n r us))"
  unfolding users_ok_def update_acl_def snd_conv by (subst map_username_update) auto

lemma users_ok_update_password [inv_intros]: "users_ok us \<Longrightarrow> users_ok (snd (update_password n s h us))"
  unfolding users_ok_def update_password_def snd_conv by (subst map_username_update) auto

lemma get_user_Some: "get_user n us = Some u \<Longrightarrow> u \<in> set us \<and> us_username u = c_str n"
  unfolding get_user_def by (auto simp: find_Some_iff)

end
