(* ===== verification/Spam_Response.thy ===== *)
theory Spam_Response
  imports Spam_Detector ASN_Reputation_Props
begin

text \<open>
  What the server does with a spam alert: the callback that apps/kagami/main.cpp installs in the
  spam detector, which reports the sender's network to the reputation manager and bans the senders
  of a coordinated attack. The clock is read in nanoseconds, whose seconds are what is stored.
\<close>

section \<open>The callback\<close>

definition auto_ban_heuristic :: "spam_verdict \<Rightarrow> bool" where
  "auto_ban_heuristic v =
     (v_heuristic v = ''echo'' \<or> v_heuristic v = ''join_spam'' \<or> v_heuristic v = ''name_pattern'')"

definition auto_ban :: "int \<Rightarrow> spam_verdict \<Rightarrow> string \<times> string \<Rightarrow> ban_entry" where
  "auto_ban now_sec v = (\<lambda>(pid, pip).
     ban_entry_new\<lparr>be_ipid := pid, be_ip := pip, be_reason := ''[auto] '' @ v_heuristic v @ '': '' @ v_detail v,
       be_moderator := ''SpamDetector'', be_timestamp := now_sec, be_duration := 24 * 3600\<rparr>)"

definition auto_ban_step ::
  "int \<Rightarrow> spam_verdict \<Rightarrow> string \<times> string \<Rightarrow> ban_manager \<times> ban_call list \<Rightarrow> ban_manager \<times> ban_call list" where
  "auto_ban_step now v p = (\<lambda>(b, calls).
     if find_ban now (fst p) b \<noteq> None then (b, calls)
     else case add_ban (auto_ban (now div 1000000000) v p) b of (b', cs) \<Rightarrow> (b', calls @ cs))"

definition on_spam ::
  "int \<Rightarrow> u32 \<Rightarrow> spam_verdict \<Rightarrow> asn_manager \<Rightarrow> ban_manager \<Rightarrow>
   (asn_manager \<times> asn_call list \<times> ban_manager \<times> ban_call list) option" where
  "on_spam now asn v a b =
    map_option
      (\<lambda>(a', acalls).
        if \<not> auto_ban_heuristic v \<or> v_participants v = [] then (a', acalls, b, [])
        else case fold (auto_ban_step now v) (v_participants v) (b, []) of (b', bcalls) \<Rightarrow> (a', acalls, b', bcalls))
      (if asn \<noteq> 0
       then report_abuse (now div 1000000000) asn (v_detail v) [] (v_heuristic v @ '': '' @ v_detail v) a
       else Some (a, []))"

section \<open>The senders are banned\<close>

lemma fresh_ban: "0 \<le> now \<Longrightarrow> now \<le> t \<Longrightarrow> t \<le> (now div 1000000000 + 24 * 3600) * 1000000000 \<Longrightarrow>
  \<not> is_expired t (auto_ban (now div 1000000000) v p)"
  by (simp add: auto_ban_def is_expired_def is_permanent_def ban_entry_new_def split: prod.split)

lemma fresh_ban_now: "\<not> is_expired now (auto_ban (now div 1000000000) v p)"
proof -
  have "now = 1000000000 * (now div 1000000000) + now mod 1000000000" by simp
  moreover have "now mod 1000000000 < 1000000000" by simp
  ultimately have "now < 1000000000 * (now div 1000000000) + 1000000000" by linarith
  then show ?thesis
    by (simp add: auto_ban_def is_expired_def is_permanent_def ban_entry_new_def distrib_right split: prod.split)
qed

lemma auto_ban_step_fw: "bm_fw_enabled (fst (auto_ban_step now v p (b, cs))) = bm_fw_enabled b"
  by (simp add: auto_ban_step_def add_ban_def)

lemma auto_ban_step_calls: "set cs \<subseteq> set (snd (auto_ban_step now v p (b, cs)))"
  by (auto simp: auto_ban_step_def add_ban_def)

lemma auto_ban_step_bans:
  "map_of (bm_bans (fst (auto_ban_step now v p (b, cs)))) pid =
    (if pid = fst p \<and> find_ban now pid b = None then Some (auto_ban (now div 1000000000) v p) else map_of (bm_bans b) pid)"
  by (auto simp: auto_ban_step_def add_ban_def auto_ban_def update_conv split: prod.split)

lemma find_ban_auto: "map_of (bm_bans b) pid = Some (auto_ban (now div 1000000000) v p) \<Longrightarrow> find_ban now pid b \<noteq> None"
  using fresh_ban_now [of now v p] by (simp add: find_ban_def)

lemma auto_ban_fold_calls: "set cs \<subseteq> set (snd (fold (auto_ban_step now v) ps (b, cs)))"
proof (induction ps arbitrary: b cs)
  case (Cons p ps)
  obtain b1 cs1 where s1: "auto_ban_step now v p (b, cs) = (b1, cs1)" by (cases "auto_ban_step now v p (b, cs)")
  have "set cs \<subseteq> set cs1" using auto_ban_step_calls [of cs now v p b] by (simp add: s1)
  also have "\<dots> \<subseteq> set (snd (fold (auto_ban_step now v) ps (b1, cs1)))" by (rule Cons)
  finally show ?case by (simp add: s1)
qed simp

text \<open>What the loop makes of the ban of one address.\<close>

definition settled ::
  "int \<Rightarrow> spam_verdict \<Rightarrow> (string \<times> string) list \<Rightarrow> string \<Rightarrow> ban_manager \<Rightarrow> ban_manager \<times> ban_call list \<Rightarrow> bool" where
  "settled now v ps pid b r \<longleftrightarrow>
    (if find_ban now pid b \<noteq> None \<or> pid \<notin> fst ` set ps then map_of (bm_bans (fst r)) pid = map_of (bm_bans b) pid
     else \<exists>ip. (pid, ip) \<in> set ps \<and> map_of (bm_bans (fst r)) pid = Some (auto_ban (now div 1000000000) v (pid, ip)) \<and>
       (bm_fw_enabled b \<and> ip \<noteq> [] \<longrightarrow> block_call (auto_ban (now div 1000000000) v (pid, ip)) \<in> set (snd r)))"

lemma auto_ban_fold: "settled now v ps pid b (fold (auto_ban_step now v) ps (b, cs))"
proof (induction ps arbitrary: b cs)
  case (Cons p ps)
  obtain b1 cs1 where s1: "auto_ban_step now v p (b, cs) = (b1, cs1)" by (cases "auto_ban_step now v p (b, cs)")
  let ?r = "fold (auto_ban_step now v) ps (b1, cs1)"
  note bans = auto_ban_step_bans [of now v p b cs pid, unfolded s1 fst_conv]
  have fw: "bm_fw_enabled b1 = bm_fw_enabled b" using auto_ban_step_fw [of now v p b cs] by (simp add: s1)
  have rest: "settled now v ps pid b1 ?r" by (rule Cons)
  show ?case
  proof (cases "pid = fst p \<and> find_ban now pid b = None")
    case True
    then have new: "map_of (bm_bans b1) pid = Some (auto_ban (now div 1000000000) v p)"
      unfolding bans by (rule if_P)
    then have "map_of (bm_bans (fst ?r)) pid = map_of (bm_bans b1) pid"
      using rest find_ban_auto by (auto simp: settled_def)
    moreover have "bm_fw_enabled b \<and> snd p \<noteq> [] \<longrightarrow> block_call (auto_ban (now div 1000000000) v p) \<in> set cs1"
      using s1 True by (auto simp: auto_ban_step_def add_ban_def auto_ban_def split: prod.splits)
    moreover have "set cs1 \<subseteq> set (snd ?r)" by (rule auto_ban_fold_calls)
    moreover obtain ip where p: "p = (pid, ip)" using True by (cases p) simp
    ultimately show ?thesis
      using True new unfolding settled_def list.set fold_Cons comp_apply s1 [unfolded p] p
      by (auto intro!: exI [of _ ip])
  next
    case False
    then have same: "map_of (bm_bans b1) pid = map_of (bm_bans b) pid" using bans by auto
    then have "find_ban now pid b1 = find_ban now pid b" by (simp add: find_ban_def)
    then show ?thesis using rest same fw False by (auto simp: settled_def s1 split: if_splits)
  qed
qed (simp add: settled_def)

text \<open>C31: An alert for a coordinated attack bans every participant: after the callback has run on an
echo, join-spam or name-pattern verdict each participant's address hash is banned; one that had no
ban in force has one for 24 hours from now, which the firewall is told when it is enabled and the
address is known; bans in force and everyone else's entries are as they were.\<close>

theorem spam_response_bans_cluster:
  assumes "on_spam now asn v a b = Some (a', ac, b', bc)" and "auto_ban_heuristic v" and "0 \<le> now"
  shows "(pid \<in> fst ` set (v_participants v) \<longrightarrow> find_ban now pid b' \<noteq> None) \<and>
    (pid \<in> fst ` set (v_participants v) \<and> find_ban now pid b = None \<longrightarrow>
      (\<forall>t. now \<le> t \<and> t \<le> (now div 1000000000 + 24 * 3600) * 1000000000 \<longrightarrow> find_ban t pid b' \<noteq> None) \<and>
      (\<exists>ip. (pid, ip) \<in> set (v_participants v) \<and> (bm_fw_enabled b \<and> ip \<noteq> [] \<longrightarrow>
         Fw_Block ip (''[auto] '' @ v_heuristic v @ '': '' @ v_detail v) 86400 \<in> set bc))) \<and>
    (pid \<notin> fst ` set (v_participants v) \<or> find_ban now pid b \<noteq> None \<longrightarrow> map_of (bm_bans b') pid = map_of (bm_bans b) pid)"
proof -
  have "settled now v (v_participants v) pid b (b', bc)"
    using auto_ban_fold [of now v "v_participants v" pid b "[]"] assms(1,2)
    by (auto simp: on_spam_def settled_def split: if_splits prod.splits)
  moreover have "block_call (auto_ban n v (pid, ip)) = Fw_Block ip (''[auto] '' @ v_heuristic v @ '': '' @ v_detail v) 86400" for n ip
    by (simp add: block_call_def auto_ban_def fw_duration_def is_permanent_def ban_entry_new_def)
  moreover have "find_ban t pid b' \<noteq> None" if "map_of (bm_bans b') pid = Some (auto_ban (now div 1000000000) v p)"
    "now \<le> t" "t \<le> (now div 1000000000 + 24 * 3600) * 1000000000" for t p
    using fresh_ban [OF assms(3) that(2,3)] that(1) by (simp add: find_ban_def)
  moreover have "find_ban now pid b' \<noteq> None" if "map_of (bm_bans b') pid = map_of (bm_bans b) pid" "find_ban now pid b \<noteq> None"
    using that by (simp add: find_ban_def)
  ultimately show ?thesis using find_ban_auto [of b' pid now v] unfolding settled_def fst_conv snd_conv
    by (smt (verit))
qed

definition demo_cluster :: fp_cluster where
  "demo_cluster = fp_cluster_new\<lparr>fc_ipids := [''a'', ''b'', ''c''], fc_count := 3, fc_first_seen := 5, fc_last_seen := 5\<rparr>"

definition demo_detector :: detector where
  "demo_detector = detector_new\<lparr>sd_ipid_to_ip := [(''a'', ''1.1.1.1''), (''b'', ''1.1.1.2''), (''c'', ''1.1.1.3'')]\<rparr>"

definition demo_verdict :: spam_verdict where
  "demo_verdict = fst (judge_message demo_detector 5 ''c'' demo_cluster)"

theorem spam_response_bans_cluster_witness:
  "\<exists>r. on_spam 5000000000 0 demo_verdict asn_manager_new ban_manager_new = Some r \<and>
     find_ban 6000000000 ''b'' (fst (snd (snd r))) \<noteq> None"
proof -
  have v: "auto_ban_heuristic demo_verdict" "''b'' \<in> fst ` set (v_participants demo_verdict)"
    "find_ban 5000000000 ''b'' ban_manager_new = None" by code_simp+
  obtain a' ac b' bc where r: "on_spam 5000000000 0 demo_verdict asn_manager_new ban_manager_new = Some (a', ac, b', bc)"
    by (cases "on_spam 5000000000 0 demo_verdict asn_manager_new ban_manager_new") (auto simp: on_spam_def)
  from spam_response_bans_cluster [OF r v(1), of "''b''"] v have "find_ban 6000000000 ''b'' b' \<noteq> None" by simp
  with r show ?thesis by simp
qed

section \<open>The networks are not\<close>

text \<open>The answers to a series of alerts on senders of one network.\<close>

fun respond_all :: "u32 \<Rightarrow> (int \<times> spam_verdict) list \<Rightarrow> asn_manager \<Rightarrow> ban_manager \<Rightarrow> (asn_manager \<times> ban_manager) option" where
  "respond_all asn [] a b = Some (a, b)"
| "respond_all asn ((now, v) # evs) a b =
     (case on_spam now asn v a b of None \<Rightarrow> None | Some (a', _, b', _) \<Rightarrow> respond_all asn evs a' b')"

lemma echo_detail:
  assumes "v = fst (judge_message s t ipid c)" and "v_heuristic v = ''echo''"
  shows "v_detail v = ''Same message from '' @ show_int (int (length (fc_ipids c))) @ '' distinct IPs within '' @
    show_int (sc_echo_window_seconds (sd_config s)) @ ''s''"
  using assms by (auto simp: judge_message_def Let_def no_verdict_def split: if_splits option.splits)

text \<open>One text stands for all the addresses of a network.\<close>

definition stuck :: "u32 \<Rightarrow> string \<Rightarrow> asn_entry \<Rightarrow> bool" where
  "stuck asn d en \<longleftrightarrow> ae_asn en \<in> {0, asn} \<and> ae_status en = NORMAL \<and> ae_abusive_ips en \<in> {[], [d]}"

lemma report_stuck:
  assumes "stuck asn d (asn_lookup asn a)" and "asn \<noteq> 0" and "2 \<le> effective_threshold (am_config a) (ac_watch_threshold (am_config a)) asn"
    and "report_abuse now asn d org reason a = r"
  shows "\<exists>a' calls. r = Some (a', calls) \<and> am_config a' = am_config a \<and> stuck asn d (asn_lookup asn a')"
proof -
  let ?en = "prune_window (am_config a) now (record_event now d (name_entry asn org (asn_lookup asn a)))"
  have en: "ae_asn ?en = asn" "ae_status ?en = NORMAL" "ae_abusive_ips ?en = [d]"
    using assms(1,2) by (auto simp: stuck_def name_entry_def record_event_def prune_window_def)
  then have "evaluate_escalation (am_config a) now ?en = Some ?en" using assms(3) by (simp add: evaluate_escalation_def Let_def)
  moreover have "ae_status (name_entry asn org (asn_lookup asn a)) = NORMAL"
    using assms(1) by (auto simp: stuck_def name_entry_def)
  ultimately show ?thesis using assms(1,4) en
    by (auto simp: report_abuse_def Let_def asn_store_def asn_lookup_def update_conv stuck_def)
qed

text \<open>Repeated attacks do not move a network: the callback hands the alert's description to the
reputation manager where an address is expected. So whatever addresses of an untracked network
take part, however often its bots trip the echo alert with the same number of senders, a network
whose first threshold is at least two keeps the status NORMAL, with one description counted as its
only address.\<close>

theorem repeated_alerts_never_escalate:
  assumes "map_of (am_asns a) asn = None" and "asn \<noteq> 0"
    and "2 \<le> effective_threshold (am_config a) (ac_watch_threshold (am_config a)) asn"
    and "list_all (\<lambda>(now, v). \<exists>s t ipid c. v = fst (judge_message s t ipid c) \<and> v_heuristic v = ''echo'' \<and>
      int (length (fc_ipids c)) = k \<and> sc_echo_window_seconds (sd_config s) = w) evs"
  shows "\<exists>a' b'. respond_all asn evs a b = Some (a', b') \<and>
    (\<forall>en. get_status asn a' = Some en \<longrightarrow> ae_status en = NORMAL \<and>
       set (ae_abusive_ips en) \<subseteq> {''Same message from '' @ show_int k @ '' distinct IPs within '' @ show_int w @ ''s''})"
proof -
  let ?d = "''Same message from '' @ show_int k @ '' distinct IPs within '' @ show_int w @ ''s''"
  have "stuck asn ?d (asn_lookup asn a)" using assms(1) by (simp add: asn_lookup_def stuck_def asn_entry_new_def)
  then have "\<exists>a' b'. respond_all asn evs a b = Some (a', b') \<and> stuck asn ?d (asn_lookup asn a')"
    using assms(3,4)
  proof (induction evs arbitrary: a b)
    case (Cons ev evs)
    obtain now v where ev: "ev = (now, v)" by (cases ev)
    have d: "v_detail v = ?d" using Cons.prems(3) echo_detail [of v] by (fastforce simp: ev)
    obtain a1 calls where a1: "report_abuse (now div 1000000000) asn (v_detail v) [] (v_heuristic v @ '': '' @ v_detail v) a = Some (a1, calls)"
      "am_config a1 = am_config a" "stuck asn ?d (asn_lookup asn a1)"
      using report_stuck [OF Cons.prems(1) assms(2) Cons.prems(2) refl] unfolding d by blast
    have "map_option fst (on_spam now asn v a b) = Some a1"
      using a1(1) assms(2) by (simp add: on_spam_def split: prod.split)
    then obtain b1 ac bc where "on_spam now asn v a b = Some (a1, ac, b1, bc)" by auto
    then show ?case using Cons.IH [OF a1(3), of b1] Cons.prems a1(2) by (simp add: ev)
  qed simp
  then show ?thesis by (auto simp: get_status_def asn_lookup_def stuck_def split: option.splits)
qed

theorem repeated_alerts_never_escalate_witness:
  "\<exists>a' b'. respond_all 64500 (replicate 9 (5000000000, demo_verdict)) asn_manager_new ban_manager_new = Some (a', b') \<and>
     (\<forall>en. get_status 64500 a' = Some en \<longrightarrow> ae_status en = NORMAL)"
proof -
  have "v_heuristic demo_verdict = ''echo''" "length (fc_ipids demo_cluster) = 3" "sc_echo_window_seconds (sd_config demo_detector) = 60"
    by code_simp+
  then have "list_all (\<lambda>(now, v). \<exists>s t ipid c. v = fst (judge_message s t ipid c) \<and> v_heuristic v = ''echo'' \<and>
      int (length (fc_ipids c)) = 3 \<and> sc_echo_window_seconds (sd_config s) = 60) (replicate 9 (5000000000, demo_verdict))"
    unfolding list_all_iff demo_verdict_def
    by (auto intro!: exI [of _ demo_detector] exI [of _ 5] exI [of _ "''c''"] exI [of _ demo_cluster])
  moreover have "map_of (am_asns asn_manager_new) 64500 = None" "(64500 :: u32) \<noteq> 0"
    "2 \<le> effective_threshold (am_config asn_manager_new) (ac_watch_threshold (am_config asn_manager_new)) 64500" by code_simp+
  ultimately show ?thesis using repeated_alerts_never_escalate [of asn_manager_new 64500] by blast
qed

end
