(* ===== verification/AO_Wire.thy ===== *)
theory AO_Wire
  imports Prelude
begin

text \<open>
  The text layer of the AO2 protocol: substring search, the escape sequences and the number
  parser of plugins/net/ao/PacketTypes.cpp, and the split into tokens that
  plugins/net/ao/AOPacket.cpp performs on a frame.
\<close>

section \<open>Substring search\<close>

text \<open>\<open>std::string::find\<close>: the index of the leftmost occurrence.\<close>

definition starts_with :: "string \<Rightarrow> string \<Rightarrow> bool" where
  "starts_with p s = (take (length p) s = p)"

fun find_sub :: "string \<Rightarrow> string \<Rightarrow> nat option" where
  "find_sub p [] = (if p = [] then Some 0 else None)"
| "find_sub p (c # s) = (if starts_with p (c # s) then Some 0 else map_option Suc (find_sub p s))"

lemma starts_with_iff: "starts_with p s \<longleftrightarrow> (\<exists>v. s = p @ v)"
  by (auto simp: starts_with_def) (metis append_take_drop_id)

lemma starts_with_append [simp]: "starts_with p (p @ v)"
  by (simp add: starts_with_def)

lemma find_sub_Some:
  "find_sub p s = Some i \<Longrightarrow> i + length p \<le> length s \<and> s = take i s @ p @ drop (i + length p) s"
proof (induction s arbitrary: i)
  case (Cons c s)
  show ?case
  proof (cases "starts_with p (c # s)")
    case True
    then obtain v where v: "c # s = p @ v" by (auto simp: starts_with_iff)
    then have "length p \<le> Suc (length s)" by (metis le_add1 length_Cons length_append)
    moreover have "i = 0" using Cons.prems True by simp
    ultimately show ?thesis using v by simp
  next
    case False
    with Cons show ?thesis by (auto split: if_splits)
  qed
qed (auto split: if_splits)

lemma find_sub_first:
  "find_sub p s = Some i \<Longrightarrow> j < i \<Longrightarrow> \<not> starts_with p (drop j s)"
proof (induction s arbitrary: i j)
  case (Cons c s)
  then show ?case by (cases j) (auto split: if_splits)
qed (auto split: if_splits)

lemma find_sub_None: "find_sub p s = None \<Longrightarrow> s \<noteq> u @ p @ v"
proof (induction s arbitrary: u)
  case (Cons c s)
  show ?case
  proof (cases u)
    case Nil
    with Cons show ?thesis by (auto split: if_splits)
  next
    case (Cons d u')
    with Cons.IH [of u'] Cons.prems show ?thesis by (auto split: if_splits)
  qed
qed (auto split: if_splits)

lemma find_sub_append:
  assumes "find_sub p s = Some i" shows "find_sub p (s @ t) = Some i"
  using assms
proof (induction s arbitrary: i)
  case Nil
  then show ?case by (cases t) (auto simp: starts_with_def split: if_splits)
next
  case (Cons c s)
  have "starts_with p (c # s) \<Longrightarrow> starts_with p ((c # s) @ t)"
    by (auto simp: starts_with_iff) (metis append_Cons append_assoc)
  moreover have "\<not> starts_with p (c # s) \<Longrightarrow> starts_with p ((c # s) @ t) \<Longrightarrow> find_sub p s = Some i' \<Longrightarrow> False" for i'
    using find_sub_Some [of p s i'] by (cases p) (auto simp: starts_with_def)
  ultimately show ?case using Cons by (auto split: if_splits)
qed

text \<open>A one-character pattern: everything before the first occurrence of the character.\<close>

lemma find_sub_char:
  "find_sub [d] s = (if d \<in> set s then Some (length (takeWhile (\<lambda>c. c \<noteq> d) s)) else None)"
  by (induction s) (auto simp: starts_with_def)

section \<open>Escapes\<close>

fun encode_char :: "char \<Rightarrow> string" where
  "encode_char c =
     (if c = CHR ''#'' then ''<pound>''
      else if c = CHR ''%'' then ''<percent>''
      else if c = CHR ''&'' then ''<and>''
      else if c = CHR ''$'' then ''<dollar>''
      else [c])"

definition ao_encode :: "string \<Rightarrow> string" where
  "ao_encode s = concat (map encode_char s)"

text \<open>The loop of \<open>replace_all\<close>: find the next occurrence, replace it, go on behind the replacement.\<close>

function replace_all :: "string \<Rightarrow> string \<Rightarrow> string \<Rightarrow> string" where
  "replace_all pat rep s =
     (if pat = [] then s
      else case find_sub pat s of
        None \<Rightarrow> s
      | Some pos \<Rightarrow> take pos s @ rep @ replace_all pat rep (drop (pos + length pat) s))"
  by auto
termination
proof (relation "measure (\<lambda>(pat, rep, s). length s)")
  fix pat rep s pos
  assume f: "pat \<noteq> []" and s: "find_sub pat s = Some pos"
  then have "0 < length pat" "pos + length pat \<le> length s" "s \<noteq> []" using find_sub_Some by fastforce+
  then show "((pat, rep, drop (pos + length pat) s), pat, rep, s) \<in> measure (\<lambda>(pat, rep, s). length s)"
    by simp
qed simp

definition ao_decode :: "string \<Rightarrow> string" where
  "ao_decode s =
     replace_all ''<dollar>'' ''$''
       (replace_all ''<and>'' ''&''
         (replace_all ''<percent>'' ''%''
           (replace_all ''<pound>'' ''#'' s)))"

definition ao_decode_list :: "string list \<Rightarrow> string list" where
  "ao_decode_list fields = map ao_decode fields"

section \<open>Numbers\<close>

text \<open>
  \<open>std::from_chars\<close> for a signed type with range \<open>lo\<close> to \<open>hi\<close>: an optional minus sign and decimal
  digits; the unparsed rest is the second component.
\<close>

datatype from_chars_error = Invalid_argument | Out_of_range

definition from_chars :: "int \<Rightarrow> int \<Rightarrow> string \<Rightarrow> from_chars_error + int \<times> string" where
  "from_chars lo hi s =
     (let neg = (case s of c # _ \<Rightarrow> c = CHR ''-'' | [] \<Rightarrow> False);
          body = (if neg then tl s else s);
          ds = takeWhile c_isdigit body;
          v = (if neg then - digits_value ds else digits_value ds)
      in if ds = [] then Inl Invalid_argument
         else if v < lo \<or> v > hi then Inl Out_of_range
         else Inr (v, dropWhile c_isdigit body))"

definition INT_MIN :: int where "INT_MIN = - (2 ^ 31)"
definition INT_MAX :: int where "INT_MAX = 2 ^ 31 - 1"

definition safe_stoi :: "string \<Rightarrow> int \<Rightarrow> int" where
  "safe_stoi field default_value =
     (if field = [] then default_value
      else case from_chars INT_MIN INT_MAX field of
        Inr (v, []) \<Rightarrow> v
      | _ \<Rightarrow> default_value)"

section \<open>Tokens\<close>

text \<open>The loop of \<open>deserialize\<close> over the positions of \<open>#\<close>; the last token is what remains.\<close>

function split_tokens :: "string \<Rightarrow> string list" where
  "split_tokens content =
     (case find_sub ''#'' content of
        None \<Rightarrow> [content]
      | Some pos \<Rightarrow> take pos content # split_tokens (drop (pos + 1) content))"
  by auto
termination
proof (relation "measure length")
  fix content pos
  assume "find_sub ''#'' content = Some pos"
  then have "pos + 1 \<le> length content" using find_sub_Some by force
  then show "(drop (pos + 1) content, content) \<in> measure length" by simp
qed simp

definition join_tokens :: "string \<Rightarrow> string list \<Rightarrow> string" where
  "join_tokens header fields = foldl (\<lambda>packet field. packet @ ''#'' @ field) header fields"

declare replace_all.simps [simp del] split_tokens.simps [simp del] encode_char.simps [simp del]

section \<open>Lemmas on tokens\<close>

lemma split_tokens_no_hash: "CHR ''#'' \<notin> set s \<Longrightarrow> split_tokens s = [s]"
  by (subst split_tokens.simps) (simp add: find_sub_char)

lemma split_tokens_hash:
  assumes "CHR ''#'' \<notin> set s"
  shows "split_tokens (s @ ''#'' @ t) = s # split_tokens t"
proof -
  have "takeWhile (\<lambda>c. c \<noteq> CHR ''#'') (s @ ''#'' @ t) = s"
    using assms by (subst takeWhile_append2) auto
  then show ?thesis by (subst split_tokens.simps) (simp add: find_sub_char)
qed

lemma join_tokens_Nil [simp]: "join_tokens h [] = h"
  by (simp add: join_tokens_def)

lemma foldl_join: "foldl (\<lambda>packet field. packet @ ''#'' @ field) (u @ h) fs =
    u @ foldl (\<lambda>packet field. packet @ ''#'' @ field) h fs"
proof (induction fs arbitrary: h)
  case (Cons f fs)
  from Cons [of "h @ ''#'' @ f"] show ?case by simp
qed simp

lemma join_tokens_Cons [simp]: "join_tokens h (f # fs) = h @ ''#'' @ join_tokens f fs"
  using foldl_join [of "h @ ''#''" f fs] by (simp add: join_tokens_def)

lemma split_join:
  "CHR ''#'' \<notin> set h \<Longrightarrow> \<forall>f\<in>set fs. CHR ''#'' \<notin> set f \<Longrightarrow> split_tokens (join_tokens h fs) = h # fs"
proof (induction fs arbitrary: h)
  case (Cons f fs)
  then show ?case using split_tokens_hash [of h "join_tokens f fs"] by simp
qed (simp add: split_tokens_no_hash)

lemma split_tokens_not_Nil [simp]: "split_tokens s \<noteq> []"
  by (subst split_tokens.simps) (simp split: option.splits)

lemma join_split: "join_tokens (hd (split_tokens s)) (tl (split_tokens s)) = s"
proof (induction s rule: split_tokens.induct)
  case (1 s)
  show ?case
  proof (cases "find_sub ''#'' s")
    case None
    then show ?thesis by (subst (1 2) split_tokens.simps) simp
  next
    case (Some pos)
    let ?r = "drop (pos + 1) s"
    obtain f fs where f: "split_tokens ?r = f # fs" by (cases "split_tokens ?r") auto
    have "split_tokens s = take pos s # f # fs"
      using Some f by (subst split_tokens.simps) simp
    then have "join_tokens (hd (split_tokens s)) (tl (split_tokens s)) = take pos s @ ''#'' @ ?r"
      using 1 [OF Some] f by simp
    then show ?thesis using find_sub_Some [OF Some] by simp
  qed
qed

section \<open>Lemmas on escapes\<close>

lemma ao_encode_simps [simp]:
  "ao_encode [] = []" "ao_encode (c # s) = encode_char c @ ao_encode s"
  "ao_encode (s @ t) = ao_encode s @ ao_encode t"
  by (simp_all add: ao_encode_def)

definition wire_special :: "char set" where
  "wire_special = {CHR ''#'', CHR ''%'', CHR ''&'', CHR ''$''}"

lemma encode_char_plain: "c \<notin> wire_special \<Longrightarrow> encode_char c = [c]"
  by (simp add: wire_special_def encode_char.simps)

lemma encode_char_no_special: "set (encode_char c) \<inter> wire_special = {}"
  by (simp add: wire_special_def encode_char.simps)

lemma ao_encode_no_special: "set (ao_encode s) \<inter> wire_special = {}"
  using encode_char_no_special by (induction s) auto

lemma no_special_no_hash: "set s \<inter> wire_special = {} \<Longrightarrow> CHR ''#'' \<notin> set s"
  by (auto simp: wire_special_def)

text \<open>One pass of replacement as a scan from left to right.\<close>

lemma replace_all_Nil [simp]: "replace_all pat rep [] = []"
  by (subst replace_all.simps) simp

lemma replace_all_step:
  "pat \<noteq> [] \<Longrightarrow> replace_all pat rep (c # s) =
     (if starts_with pat (c # s) then rep @ replace_all pat rep (drop (length pat) (c # s))
      else c # replace_all pat rep s)"
proof -
  assume f: "pat \<noteq> []"
  show ?thesis
  proof (cases "starts_with pat (c # s)")
    case True
    with f show ?thesis by (subst replace_all.simps) simp
  next
    case False
    then show ?thesis using f
      by (subst (1 2) replace_all.simps) (auto split: option.splits)
  qed
qed

text \<open>An escape sequence: an opening bracket, then neither brackets nor special characters.\<close>

definition is_escape :: "string \<Rightarrow> bool" where
  "is_escape p = (p \<noteq> [] \<and> hd p = CHR ''<'' \<and> CHR ''<'' \<notin> set (tl p) \<and> set (tl p) \<inter> wire_special = {})"

lemma escapes: "is_escape ''<pound>''" "is_escape ''<percent>''" "is_escape ''<and>''" "is_escape ''<dollar>''"
  by (simp_all add: is_escape_def wire_special_def)

lemma is_escapeE: "is_escape p \<Longrightarrow> (\<And>q. p = CHR ''<'' # q \<Longrightarrow> CHR ''<'' \<notin> set q \<Longrightarrow> set q \<inter> wire_special = {} \<Longrightarrow> P) \<Longrightarrow> P"
  by (cases p) (auto simp: is_escape_def)

lemma replace_all_skip:
  assumes "is_escape p" "CHR ''<'' \<notin> set u"
  shows "replace_all p r (u @ t) = u @ replace_all p r t"
  using assms(2)
proof (induction u)
  case (Cons c u)
  then have "\<not> starts_with p ((c # u) @ t)" using assms(1) by (auto elim!: is_escapeE simp: starts_with_iff)
  with Cons assms(1) show ?case using replace_all_step [of p r c "u @ t"] by (simp add: is_escape_def)
qed simp

lemma replace_all_absent:
  "find_sub p s = None \<Longrightarrow> replace_all p r s = s"
  by (subst replace_all.simps) simp

lemma replace_all_found:
  "p \<noteq> [] \<Longrightarrow> find_sub p s = Some i \<Longrightarrow>
     replace_all p r s = take i s @ r @ replace_all p r (drop (i + length p) s)"
  by (subst replace_all.simps) simp

lemma length_replace_all: "p \<noteq> [] \<Longrightarrow> length r \<le> length p \<Longrightarrow> length (replace_all p r s) \<le> length s"
proof (induction p r s rule: replace_all.induct)
  case (1 p r s)
  show ?case
  proof (cases "find_sub p s")
    case (Some i)
    with 1 have "length (replace_all p r (drop (i + length p) s)) \<le> length s - (i + length p)" by simp
    then show ?thesis using 1(2,3) Some find_sub_Some [OF Some, THEN conjunct1]
      by (simp add: replace_all_found [OF _ Some])
  qed (simp add: replace_all_absent)
qed

lemma length_replace_all_present:
  assumes "p \<noteq> []" "length r < length p" "find_sub p s \<noteq> None"
  shows "length (replace_all p r s) < length s"
proof -
  from assms obtain i where i: "find_sub p s = Some i" by auto
  have "length (replace_all p r (drop (i + length p) s)) \<le> length s - (i + length p)"
    using length_replace_all [of p r "drop (i + length p) s"] assms by simp
  then show ?thesis using assms(1,2) find_sub_Some [OF i, THEN conjunct1]
    by (simp add: replace_all_found [OF _ i])
qed

text \<open>Encoding only the special characters of a set \<open>S\<close>.\<close>

definition encode_in :: "char set \<Rightarrow> string \<Rightarrow> string" where
  "encode_in S s = concat (map (\<lambda>c. if c \<in> S then encode_char c else [c]) s)"

lemma encode_in_simps [simp]:
  "encode_in S [] = []"
  "encode_in S (c # s) = (if c \<in> S then encode_char c else [c]) @ encode_in S s"
  "encode_in S (s @ t) = encode_in S s @ encode_in S t"
  by (simp_all add: encode_in_def)

lemma encode_in_special: "encode_in wire_special s = ao_encode s"
  by (induction s) (auto simp: encode_char_plain)

lemma encode_in_empty: "encode_in {} s = s"
  by (induction s) auto

lemma encode_in_plain: "set u \<inter> S = {} \<Longrightarrow> encode_in S u = u"
  by (induction u) auto

lemma encode_char_hd: "c \<in> wire_special \<Longrightarrow> \<exists>q. encode_char c = CHR ''<'' # q \<and> CHR ''<'' \<notin> set q"
  by (auto simp: wire_special_def encode_char.simps)

lemma escape_prefix_free:
  "c \<in> wire_special \<Longrightarrow> x \<in> wire_special \<Longrightarrow> c \<noteq> x \<Longrightarrow> \<not> starts_with (encode_char x) (encode_char c @ t)"
  unfolding wire_special_def
  by (elim insertE emptyE) (simp_all add: encode_char.simps starts_with_def)

lemma starts_with_encode_in:
  assumes "S \<subseteq> wire_special" "CHR ''<'' \<notin> set q"
  shows "starts_with q (encode_in S s) \<Longrightarrow> starts_with q s"
  using assms(2)
proof (induction q arbitrary: s)
  case Nil
  then show ?case by (simp add: starts_with_def)
next
  case (Cons d q)
  then obtain c s' where s: "s = c # s'" by (cases s) (auto simp: starts_with_def)
  have "c \<notin> S"
  proof
    assume c: "c \<in> S"
    then obtain r where "encode_char c = CHR ''<'' # r" using assms(1) encode_char_hd by blast
    with Cons.prems s c show False by (auto simp: starts_with_def)
  qed
  with Cons s show ?case by (auto simp: starts_with_def)
qed

lemma replace_all_encode_in:
  assumes S: "S \<subseteq> wire_special" and x: "x \<in> S"
  shows "replace_all (encode_char x) [x] (encode_in S s) = encode_in (S - {x}) (replace_all (encode_char x) [x] s)"
proof (induction s rule: measure_induct_rule [of length])
  case (less s)
  let ?p = "encode_char x"
  have esc: "is_escape ?p" using S x escapes by (auto simp: wire_special_def encode_char.simps)
  then have ne: "?p \<noteq> []" by (simp add: is_escape_def)
  show ?case
  proof (cases s)
    case (Cons c s')
    consider "starts_with ?p s" | "\<not> starts_with ?p s" "c = x" | "\<not> starts_with ?p s" "c \<in> S" "c \<noteq> x"
      | "\<not> starts_with ?p s" "c \<notin> S" by blast
    then show ?thesis
    proof cases
      case 1
      then obtain v where v: "s = ?p @ v" by (auto simp: starts_with_iff)
      have "set ?p \<inter> S = {}" using encode_char_no_special [of x] S by blast
      then have e: "encode_in S (?p @ v) = ?p @ encode_in S v" by (simp add: encode_in_plain)
      obtain a b where p: "?p = a # b" using ne by (cases ?p) auto
      have st: "replace_all ?p [x] (?p @ t) = x # replace_all ?p [x] t" for t
        using replace_all_step [OF ne, of "[x]" a "b @ t"] by (metis p append_Cons append_Nil append_eq_conv_conj starts_with_append)
      have "length v < length s" using v p by simp
      from less [OF this] show ?thesis unfolding v e st by simp
    next
      case 2
      have "replace_all ?p [x] s = x # replace_all ?p [x] s'"
        using replace_all_step [OF ne, of "[x]" c s'] 2 Cons by simp
      moreover have "replace_all ?p [x] (encode_in S s) = x # replace_all ?p [x] (encode_in S s')"
      proof -
        obtain a b where p: "?p = a # b" using ne by (cases ?p) auto
        have "replace_all ?p [x] (?p @ t) = x # replace_all ?p [x] t" for t
          using replace_all_step [OF ne, of "[x]" a "b @ t"]
          by (metis p append_Cons append_Nil append_eq_conv_conj starts_with_append)
        then show ?thesis using 2 Cons x by simp
      qed
      ultimately show ?thesis using less [of s'] Cons by simp
    next
      case 3
      obtain q where q: "encode_char c = CHR ''<'' # q" "CHR ''<'' \<notin> set q" using 3 S encode_char_hd by blast
      have "\<not> starts_with ?p (encode_char c @ t)" for t
        using 3 x S escape_prefix_free [of c x t] by blast
      then have "replace_all ?p [x] (encode_char c @ t) = encode_char c @ replace_all ?p [x] t" for t
        using replace_all_step [OF ne, of "[x]" "CHR ''<''" "q @ t"] replace_all_skip [OF esc q(2)] q(1) by simp
      moreover have "replace_all ?p [x] s = c # replace_all ?p [x] s'"
        using replace_all_step [OF ne, of "[x]" c s'] 3 Cons by simp
      ultimately show ?thesis using less [of s'] Cons 3 by simp
    next
      case 4
      have "\<not> starts_with ?p (c # encode_in S s')"
      proof
        assume a: "starts_with ?p (c # encode_in S s')"
        obtain q where q: "?p = CHR ''<'' # q" "CHR ''<'' \<notin> set q" using esc by (auto elim!: is_escapeE)
        then have "starts_with q (encode_in S s')" "c = CHR ''<''" using a by (auto simp: starts_with_def)
        then have "starts_with ?p s" using starts_with_encode_in [OF S q(2)] Cons q(1) by (auto simp: starts_with_def)
        with 4 show False by simp
      qed
      then have "replace_all ?p [x] (encode_in S s) = c # replace_all ?p [x] (encode_in S s')"
        using replace_all_step [OF ne, of "[x]" c "encode_in S s'"] 4 Cons by simp
      moreover have "replace_all ?p [x] s = c # replace_all ?p [x] s'"
        using replace_all_step [OF ne, of "[x]" c s'] 4 Cons by simp
      ultimately show ?thesis using less [of s'] Cons 4 by simp
    qed
  qed simp
qed

lemma ao_decode_chars:
  "ao_decode s = replace_all (encode_char CHR ''$'') ''$'' (replace_all (encode_char CHR ''&'') ''&''
     (replace_all (encode_char CHR ''%'') ''%'' (replace_all (encode_char CHR ''#'') ''#'' s)))"
  by (simp add: ao_decode_def encode_char.simps)

lemma ao_decode_encode: "ao_decode (ao_encode s) = ao_decode s"
proof -
  have S: "wire_special - {CHR ''#''} = {CHR ''%'', CHR ''&'', CHR ''$''}"
    "{CHR ''%'', CHR ''&'', CHR ''$''} - {CHR ''%''} = {CHR ''&'', CHR ''$''}"
    "{CHR ''&'', CHR ''$''} - {CHR ''&''} = {CHR ''$''}" "{CHR ''$''} - {CHR ''$''} = {}"
    by (auto simp: wire_special_def)
  let ?e = encode_char
  note r = replace_all_encode_in
  have 1: "replace_all (?e CHR ''#'') ''#'' (ao_encode s)
      = encode_in {CHR ''%'', CHR ''&'', CHR ''$''} (replace_all (?e CHR ''#'') ''#'' s)"
    using r [of wire_special "CHR ''#''" s] unfolding S encode_in_special
    by (simp add: wire_special_def)
  have 2: "replace_all (?e CHR ''%'') ''%'' (encode_in {CHR ''%'', CHR ''&'', CHR ''$''} t)
      = encode_in {CHR ''&'', CHR ''$''} (replace_all (?e CHR ''%'') ''%'' t)" for t
    using r [of "{CHR ''%'', CHR ''&'', CHR ''$''}" "CHR ''%''" t, unfolded S] by (simp add: wire_special_def)
  have 3: "replace_all (?e CHR ''&'') ''&'' (encode_in {CHR ''&'', CHR ''$''} t)
      = encode_in {CHR ''$''} (replace_all (?e CHR ''&'') ''&'' t)" for t
    using r [of "{CHR ''&'', CHR ''$''}" "CHR ''&''" t, unfolded S] by (simp add: wire_special_def)
  have 4: "replace_all (?e CHR ''$'') ''$'' (encode_in {CHR ''$''} t) = replace_all (?e CHR ''$'') ''$'' t" for t
    using r [of "{CHR ''$''}" "CHR ''$''" t, unfolded S] by (simp add: wire_special_def encode_in_empty)
  show ?thesis unfolding ao_decode_chars 1 2 3 4 by (rule refl)
qed

lemma replace_all_fixed: "p \<noteq> [] \<Longrightarrow> length r < length p \<Longrightarrow> replace_all p r s = s \<longleftrightarrow> find_sub p s = None"
  using length_replace_all_present [of p r s] replace_all_absent [of p s r] by fastforce

lemma ao_decode_fixed:
  "ao_decode s = s \<longleftrightarrow> find_sub ''<pound>'' s = None \<and> find_sub ''<percent>'' s = None
     \<and> find_sub ''<and>'' s = None \<and> find_sub ''<dollar>'' s = None"
proof -
  define a where "a = replace_all ''<pound>'' ''#'' s"
  define b where "b = replace_all ''<percent>'' ''%'' a"
  define c where "c = replace_all ''<and>'' ''&'' b"
  define d where "d = replace_all ''<dollar>'' ''$'' c"
  have le: "length a \<le> length s" "length b \<le> length a" "length c \<le> length b" "length d \<le> length c"
    using length_replace_all unfolding a_def b_def c_def d_def by auto
  have ne: "find_sub ''<pound>'' s \<noteq> None \<Longrightarrow> length a < length s"
    "find_sub ''<percent>'' a \<noteq> None \<Longrightarrow> length b < length a"
    "find_sub ''<and>'' b \<noteq> None \<Longrightarrow> length c < length b"
    "find_sub ''<dollar>'' c \<noteq> None \<Longrightarrow> length d < length c"
    using length_replace_all_present unfolding a_def b_def c_def d_def by auto
  have eq: "find_sub ''<pound>'' s = None \<Longrightarrow> a = s" "find_sub ''<percent>'' a = None \<Longrightarrow> b = a"
    "find_sub ''<and>'' b = None \<Longrightarrow> c = b" "find_sub ''<dollar>'' c = None \<Longrightarrow> d = c"
    using replace_all_absent unfolding a_def b_def c_def d_def by auto
  have "ao_decode s = d" by (simp add: ao_decode_def a_def b_def c_def d_def)
  moreover have "d = s \<longleftrightarrow> find_sub ''<pound>'' s = None \<and> find_sub ''<percent>'' s = None
     \<and> find_sub ''<and>'' s = None \<and> find_sub ''<dollar>'' s = None"
  proof
    assume "d = s"
    then have "length a = length s" "length b = length a" "length c = length b" "length d = length c"
      using le by auto
    then have "find_sub ''<pound>'' s = None" "find_sub ''<percent>'' a = None"
      "find_sub ''<and>'' b = None" "find_sub ''<dollar>'' c = None" using ne by force+
    then show "find_sub ''<pound>'' s = None \<and> find_sub ''<percent>'' s = None
      \<and> find_sub ''<and>'' s = None \<and> find_sub ''<dollar>'' s = None" using eq by simp
  next
    assume "find_sub ''<pound>'' s = None \<and> find_sub ''<percent>'' s = None
      \<and> find_sub ''<and>'' s = None \<and> find_sub ''<dollar>'' s = None"
    then show "d = s" using eq by simp
  qed
  ultimately show ?thesis by simp
qed

section \<open>Lemmas on numbers\<close>

lemma safe_stoi_show_int:
  assumes "INT_MIN \<le> i" "i \<le> INT_MAX"
  shows "safe_stoi (show_int i) d = i"
proof (cases "i < 0")
  case True
  then show ?thesis using assms
    by (simp add: safe_stoi_def from_chars_def show_int_def show_nat_run digits_value_show_nat)
next
  case False
  then have "\<not> (case show_nat (nat i) of c # _ \<Rightarrow> c = CHR ''-'' | [] \<Rightarrow> False)"
    using show_nat_hd [of "nat i"] by (auto split: list.splits)
  with False assms show ?thesis
    by (simp add: safe_stoi_def from_chars_def show_int_def show_nat_run digits_value_show_nat Let_def)
qed

lemma safe_stoi_range:
  "INT_MIN \<le> d \<Longrightarrow> d \<le> INT_MAX \<Longrightarrow> INT_MIN \<le> safe_stoi s d \<and> safe_stoi s d \<le> INT_MAX"
  by (auto simp: safe_stoi_def from_chars_def Let_def split: sum.splits prod.splits list.splits if_splits)

section \<open>Properties\<close>

text \<open>Escaping a field makes it safe for the wire and loses nothing it does not have to: the
encoded text contains none of the four protocol characters, decoding it gives what decoding the
text itself would give, and so it gives the text back exactly when the text contains none of the
four escape sequences.\<close>

theorem ao_escape_roundtrip:
  "set (ao_encode s) \<inter> {CHR ''#'', CHR ''%'', CHR ''&'', CHR ''$''} = {}
   \<and> ao_decode (ao_encode s) = ao_decode s
   \<and> (ao_decode (ao_encode s) = s \<longleftrightarrow>
        find_sub ''<pound>'' s = None \<and> find_sub ''<percent>'' s = None
        \<and> find_sub ''<and>'' s = None \<and> find_sub ''<dollar>'' s = None)"
  using ao_encode_no_special [of s] ao_decode_encode [of s] ao_decode_fixed [of s]
  by (simp add: wire_special_def)

end
