(* ===== verification/AO_Packets.thy ===== *)
theory AO_Packets
  imports AO_Wire
begin

text \<open>
  The packets of the AO2 protocol: plugins/net/ao/AOPacket.h and .cpp (base class, parsing,
  serialisation, the dispatch boundary), PacketFactory.h and PacketRegistrar.h (the registry of
  packet classes), PacketTypes.h and PacketTypes.cpp (one class per packet type). A typed packet
  is the base packet with a body, which has the members of its class. Some classes leave
  integers uninitialised when a frame has too few fields; their indeterminate values are the
  arguments \<open>gi\<close> and \<open>gb\<close>.
\<close>

section \<open>Packet bodies\<close>

record ms_packet =
  desk_mod :: int
  pre_emote :: string
  character :: string
  emote :: string
  message :: string
  side :: string
  showname :: string
  emote_mod :: int
  char_id :: int
  flip :: bool
  text_color :: int
  objection_mod :: int
  screenshake :: bool
  realization :: bool
  additive :: bool
  frame_screenshake :: string
  sfx_name :: string
  sfx_delay :: int
  sfx_looping :: bool
  frame_sfx :: string
  immediate :: bool
  slide :: bool

record mc_packet =
  mc_name :: string
  mc_char_id :: int
  mc_showname :: string
  mc_looping :: int
  mc_channel :: int
  mc_effect_flags :: int

datatype (plugins only: code size) packet_body =
    NoBody
  | Decryptor (decryptor: string)
  | HI (hardware_id: string)
  | ID (player_number: int) (software: string) (version: string)
  | PN (current_players: int) (max_players: int) (server_description: string)
  | AskChaa
  | ASS (asset_url: string)
  | SI (character_count: int) (evidence_count: int) (music_count: int)
  | RC
  | SC (character_list: "string list")
  | RM
  | SM (music_list: "string list")
  | RD
  | CH
  | CHECK
  | DONE
  | CharsCheck (taken: "bool list")
  | PW (password: string)
  | CC
  | PV (pv_char_id: int)
  | MS ms_packet
  | BN (background: string) (position: string)
  | MC mc_packet
  | ARUP (arup_type: int) (arup_values: "string list")
  | FL (features: "string list")
  | FA (fa_areas: "string list")
  | FM (fm_tracks: "string list")
  | HP (hp_side: int) (hp_value: int)
  | TI (timer_id: int) (ti_action: int) (time_ms: int)
  | LE (raw_items: "string list")
  | PR (pr_player_id: int) (update_type: int)
  | PU (pu_player_id: int) (data_type: int) (pu_data: string)
  | ZZ (alert_reason: string)
  | CT (sender_name: string) (ct_message: string) (system_message: bool)
  | MA (target_ipid: string) (duration: int) (reason: string)
  | RT (animation: string)
  | PE (pe_name: string) (pe_description: string) (pe_image: string)
  | EE (ee_id: int) (ee_name: string) (ee_description: string) (ee_image: string)
  | DE (de_id: int)
  | CASEA (case_title: string) (need_def: bool) (need_pro: bool) (need_judge: bool)
      (need_juror: bool) (need_steno: bool)
  | SETCASE (sc_showname: string) (preferences: "bool list")

record ao_packet =
  valid :: bool
  header :: string
  pfields :: "string list"
  body :: packet_body

definition packet :: "string \<Rightarrow> string list \<Rightarrow> ao_packet" where
  "packet h fs = \<lparr>valid = True, header = h, pfields = fs, body = NoBody\<rparr>"

definition packet_invalid :: ao_packet where
  "packet_invalid = \<lparr>valid = False, header = [], pfields = [], body = NoBody\<rparr>"

definition with_body :: "string \<Rightarrow> string list \<Rightarrow> packet_body \<Rightarrow> ao_packet" where
  "with_body h fs b = (packet h fs)\<lparr>body := b\<rparr>"

section \<open>Incoming packets\<close>

definition decryptor_of :: "string list \<Rightarrow> ao_packet" where
  "decryptor_of fs = with_body ''decryptor'' fs (Decryptor (if length fs \<ge> 1 then fs ! 0 else []))"

definition HI_of :: "string list \<Rightarrow> ao_packet" where
  "HI_of fs = with_body ''HI'' fs (HI (if length fs \<ge> 1 then fs ! 0 else []))"

definition ID_of :: "string list \<Rightarrow> ao_packet" where
  "ID_of fs = with_body ''ID'' fs
     (if length fs \<ge> 3 then ID (safe_stoi (fs ! 0) 0) (fs ! 1) (fs ! 2)
      else if length fs \<ge> 2 then ID 0 (fs ! 0) (fs ! 1)
      else ID 0 [] [])"

definition PN_of :: "int \<Rightarrow> string list \<Rightarrow> ao_packet" where
  "PN_of gi fs = with_body ''PN'' fs
     (if length fs \<ge> 2
      then PN (safe_stoi (fs ! 0) 0) (safe_stoi (fs ! 1) 0) (if length fs > 2 then ao_decode (fs ! 2) else [])
      else PN gi gi [])"

definition askchaa_of :: "string list \<Rightarrow> ao_packet" where
  "askchaa_of fs = with_body ''askchaa'' fs AskChaa"

definition ASS_of :: "string list \<Rightarrow> ao_packet" where
  "ASS_of fs = with_body ''ASS'' fs (ASS (if length fs \<ge> 1 then fs ! 0 else []))"

definition SI_of :: "int \<Rightarrow> string list \<Rightarrow> ao_packet" where
  "SI_of gi fs = with_body ''SI'' fs
     (if length fs \<ge> 3 then SI (safe_stoi (fs ! 0) 0) (safe_stoi (fs ! 1) 0) (safe_stoi (fs ! 2) 0)
      else SI gi gi gi)"

definition RC_of :: "string list \<Rightarrow> ao_packet" where
  "RC_of fs = with_body ''RC'' fs RC"

definition SC_of :: "string list \<Rightarrow> ao_packet" where
  "SC_of fs = with_body ''SC'' fs (SC (ao_decode_list fs))"

definition RM_of :: "string list \<Rightarrow> ao_packet" where
  "RM_of fs = with_body ''RM'' fs RM"

definition SM_of :: "string list \<Rightarrow> ao_packet" where
  "SM_of fs = with_body ''SM'' fs (SM (ao_decode_list fs))"

definition CH_of :: "string list \<Rightarrow> ao_packet" where
  "CH_of fs = with_body ''CH'' fs CH"

definition CHECK_of :: "string list \<Rightarrow> ao_packet" where
  "CHECK_of fs = with_body ''CHECK'' fs CHECK"

definition RD_of :: "string list \<Rightarrow> ao_packet" where
  "RD_of fs = with_body ''RD'' fs RD"

text \<open>The creator of DONE ignores the fields of the frame.\<close>

definition DONE_of :: "string list \<Rightarrow> ao_packet" where
  "DONE_of fs = with_body ''DONE'' [] DONE"

definition CharsCheck_of :: "string list \<Rightarrow> ao_packet" where
  "CharsCheck_of fs = with_body ''CharsCheck'' fs (CharsCheck (map (\<lambda>f. f = ''-1'') fs))"

definition PW_of :: "string list \<Rightarrow> ao_packet" where
  "PW_of fs = with_body ''PW'' fs (PW (if length fs \<ge> 1 then fs ! 0 else []))"

definition CC_of :: "string list \<Rightarrow> ao_packet" where
  "CC_of fs = with_body ''CC'' fs CC"

definition ms_default :: "int \<Rightarrow> bool \<Rightarrow> ms_packet" where
  "ms_default gi gb =
     \<lparr>desk_mod = gi, pre_emote = [], character = [], emote = [], message = [], side = [], showname = [],
      emote_mod = gi, char_id = gi, flip = gb, text_color = gi, objection_mod = 0, screenshake = False,
      realization = False, additive = False, frame_screenshake = [], sfx_name = [], sfx_delay = 0,
      sfx_looping = False, frame_sfx = [], immediate = False, slide = False\<rparr>"

definition remap_emote_mod :: "int \<Rightarrow> int" where
  "remap_emote_mod e =
     (let e1 = (if e = 4 then 6 else e);
          e2 = (if e1 = 2 then 1 else e1)
      in if e2 \<noteq> 0 \<and> e2 \<noteq> 1 \<and> e2 \<noteq> 5 \<and> e2 \<noteq> 6 then 0 else e2)"

definition ms_parse :: "string list \<Rightarrow> ms_packet" where
  "ms_parse fs =
     \<lparr>desk_mod = (if fs ! 0 = ''chat'' then - 1 else safe_stoi (fs ! 0) 0),
      pre_emote = ao_decode (fs ! 1),
      character = ao_decode (fs ! 2),
      emote = ao_decode (fs ! 3),
      message = ao_decode (fs ! 4),
      side = ao_decode (fs ! 5),
      showname = (if length fs > 15 then ao_decode (fs ! 15) else ao_decode (fs ! 2)),
      emote_mod = remap_emote_mod (safe_stoi (fs ! 7) 0),
      char_id = safe_stoi (fs ! 8) 0,
      flip = (fs ! 12 = ''1''),
      text_color = safe_stoi (fs ! 14) 0,
      objection_mod = safe_stoi (fs ! 10) 0,
      screenshake = (length fs > 24 \<and> fs ! 24 = ''1''),
      realization = (fs ! 13 = ''1''),
      additive = (length fs > 28 \<and> fs ! 28 = ''1''),
      frame_screenshake = (if length fs > 25 then ao_decode (fs ! 25) else []),
      sfx_name = ao_decode (fs ! 6),
      sfx_delay = safe_stoi (fs ! 9) 0,
      sfx_looping = (length fs > 23 \<and> fs ! 23 = ''1''),
      frame_sfx = (if length fs > 27 then ao_decode (fs ! 27) else []),
      immediate = (length fs > 22 \<and> fs ! 22 = ''1''),
      slide = (length fs > 31 \<and> fs ! 31 = ''1'')\<rparr>"

definition MS_of :: "int \<Rightarrow> bool \<Rightarrow> string list \<Rightarrow> ao_packet" where
  "MS_of gi gb fs = with_body ''MS'' fs (MS (if length fs \<ge> 15 then ms_parse fs else ms_default gi gb))"

definition MC_of :: "string list \<Rightarrow> ao_packet" where
  "MC_of fs = with_body ''MC'' fs (MC
     (if length fs \<ge> 2 then
        \<lparr>mc_name = ao_decode (fs ! 0), mc_char_id = safe_stoi (fs ! 1) 0,
         mc_showname = (if length fs > 2 then ao_decode (fs ! 2) else []),
         mc_looping = (if length fs > 3 then safe_stoi (fs ! 3) 0 else - 1),
         mc_channel = (if length fs > 4 then safe_stoi (fs ! 4) 0 else 0),
         mc_effect_flags = (if length fs > 5 then safe_stoi (fs ! 5) 0 else 0)\<rparr>
      else \<lparr>mc_name = [], mc_char_id = - 1, mc_showname = [], mc_looping = - 1, mc_channel = 0, mc_effect_flags = 0\<rparr>))"

definition ARUP_of :: "string list \<Rightarrow> ao_packet" where
  "ARUP_of fs = with_body ''ARUP'' fs
     (if length fs \<ge> 2 then ARUP (safe_stoi (fs ! 0) 0) (map ao_decode (tl fs)) else ARUP 0 [])"

definition BN_of :: "string list \<Rightarrow> ao_packet" where
  "BN_of fs = with_body ''BN'' fs
     (if length fs \<ge> 1 then BN (ao_decode (fs ! 0)) (if length fs \<ge> 2 then ao_decode (fs ! 1) else [])
      else BN [] [])"

definition PV_of :: "string list \<Rightarrow> ao_packet" where
  "PV_of fs = with_body ''PV'' fs (PV (if length fs \<ge> 3 then safe_stoi (fs ! 2) 0 else - 1))"

definition FL_of :: "string list \<Rightarrow> ao_packet" where
  "FL_of fs = with_body ''FL'' fs (FL fs)"

definition FA_of :: "string list \<Rightarrow> ao_packet" where
  "FA_of fs = with_body ''FA'' fs (FA (ao_decode_list fs))"

definition FM_of :: "string list \<Rightarrow> ao_packet" where
  "FM_of fs = with_body ''FM'' fs (FM (ao_decode_list fs))"

definition HP_of :: "string list \<Rightarrow> ao_packet" where
  "HP_of fs = with_body ''HP'' fs
     (if length fs \<ge> 2 then HP (safe_stoi (fs ! 0) 0) (safe_stoi (fs ! 1) 0) else HP 0 0)"

text \<open>The 64-bit time is parsed by its own \<open>from_chars\<close>; an empty text is an error there too.\<close>

definition parse_time_ms :: "string \<Rightarrow> int" where
  "parse_time_ms s = (case from_chars (- (2 ^ 63)) (2 ^ 63 - 1) s of Inr (v, []) \<Rightarrow> v | _ \<Rightarrow> 0)"

definition TI_of :: "string list \<Rightarrow> ao_packet" where
  "TI_of fs = with_body ''TI'' fs
     (if length fs \<ge> 2
      then TI (safe_stoi (fs ! 0) 0) (safe_stoi (fs ! 1) 0) (if length fs > 2 then parse_time_ms (fs ! 2) else 0)
      else TI 0 0 0)"

definition LE_of :: "string list \<Rightarrow> ao_packet" where
  "LE_of fs = with_body ''LE'' fs (LE (ao_decode_list fs))"

definition PR_of :: "string list \<Rightarrow> ao_packet" where
  "PR_of fs = with_body ''PR'' fs
     (if length fs \<ge> 2 then PR (safe_stoi (fs ! 0) 0) (safe_stoi (fs ! 1) 0) else PR 0 0)"

definition PU_of :: "string list \<Rightarrow> ao_packet" where
  "PU_of fs = with_body ''PU'' fs
     (if length fs \<ge> 3 then PU (safe_stoi (fs ! 0) 0) (safe_stoi (fs ! 1) 0) (ao_decode (fs ! 2)) else PU 0 0 [])"

definition ZZ_of :: "string list \<Rightarrow> ao_packet" where
  "ZZ_of fs = with_body ''ZZ'' fs (ZZ (if fs \<noteq> [] then ao_decode (fs ! 0) else []))"

definition CT_of :: "bool \<Rightarrow> string list \<Rightarrow> ao_packet" where
  "CT_of gb fs = with_body ''CT'' fs
     (if length fs \<ge> 2
      then CT (ao_decode (fs ! 0)) (ao_decode (fs ! 1)) (length fs > 2 \<and> fs ! 2 = ''1'')
      else CT [] [] gb)"

definition MA_of :: "string list \<Rightarrow> ao_packet" where
  "MA_of fs = with_body ''MA'' fs
     (if length fs \<ge> 3
      then MA (fs ! 0) (safe_stoi (fs ! 1) 0) (if length fs > 2 then ao_decode (fs ! 2) else ''No reason given'')
      else MA [] 0 [])"

definition RT_of :: "string list \<Rightarrow> ao_packet" where
  "RT_of fs = with_body ''RT'' fs (RT (if fs \<noteq> [] then fs ! 0 else []))"

definition PE_of :: "string list \<Rightarrow> ao_packet" where
  "PE_of fs = with_body ''PE'' fs
     (if length fs \<ge> 3 then PE (ao_decode (fs ! 0)) (ao_decode (fs ! 1)) (ao_decode (fs ! 2)) else PE [] [] [])"

definition EE_of :: "string list \<Rightarrow> ao_packet" where
  "EE_of fs = with_body ''EE'' fs
     (if length fs \<ge> 4
      then EE (safe_stoi (fs ! 0) (- 1)) (ao_decode (fs ! 1)) (ao_decode (fs ! 2)) (ao_decode (fs ! 3))
      else EE 0 [] [] [])"

definition DE_of :: "string list \<Rightarrow> ao_packet" where
  "DE_of fs = with_body ''DE'' fs (DE (if length fs \<ge> 1 then safe_stoi (fs ! 0) (- 1) else 0))"

definition CASEA_of :: "string list \<Rightarrow> ao_packet" where
  "CASEA_of fs = with_body ''CASEA'' fs
     (if length fs \<ge> 6
      then CASEA (ao_decode (fs ! 0)) (fs ! 1 = ''1'') (fs ! 2 = ''1'') (fs ! 3 = ''1'') (fs ! 4 = ''1'')
             (fs ! 5 = ''1'')
      else CASEA [] False False False False False)"

definition SETCASE_of :: "string list \<Rightarrow> ao_packet" where
  "SETCASE_of fs = with_body ''SETCASE'' fs
     (if length fs \<ge> 7
      then SETCASE (ao_decode (fs ! 0))
             [fs ! 2 = ''1'', fs ! 3 = ''1'', fs ! 4 = ''1'', fs ! 5 = ''1'', fs ! 6 = ''1'']
      else SETCASE [] [])"

section \<open>Outgoing packets\<close>

definition HI_packet :: "string \<Rightarrow> ao_packet" where
  "HI_packet hdid = with_body ''HI'' [hdid] (HI hdid)"

definition IDServer_packet :: "string \<Rightarrow> string \<Rightarrow> ao_packet" where
  "IDServer_packet client_software client_version = packet ''ID'' [client_software, client_version]"

definition askchaa_packet :: ao_packet where
  "askchaa_packet = with_body ''askchaa'' [] AskChaa"

definition RC_packet :: ao_packet where
  "RC_packet = with_body ''RC'' [] RC"

definition RM_packet :: ao_packet where
  "RM_packet = with_body ''RM'' [] RM"

definition RD_packet :: ao_packet where
  "RD_packet = with_body ''RD'' [] RD"

definition CH_packet :: "int \<Rightarrow> ao_packet" where
  "CH_packet cid = with_body ''CH'' [show_int cid] CH"

definition PW_packet :: "string \<Rightarrow> ao_packet" where
  "PW_packet pw = with_body ''PW'' [pw] (PW pw)"

definition CC_packet :: "int \<Rightarrow> int \<Rightarrow> string \<Rightarrow> ao_packet" where
  "CC_packet player_num cid hdid = with_body ''CC'' [show_int player_num, show_int cid, hdid] CC"

definition MC_packet :: "string \<Rightarrow> int \<Rightarrow> string \<Rightarrow> ao_packet" where
  "MC_packet nm cid sn = with_body ''MC'' [ao_encode nm, show_int cid, ao_encode sn, ''1'', ''0'', ''0'']
     (MC \<lparr>mc_name = nm, mc_char_id = cid, mc_showname = sn, mc_looping = - 1, mc_channel = 0, mc_effect_flags = 0\<rparr>)"

definition CT_packet :: "string \<Rightarrow> string \<Rightarrow> bool \<Rightarrow> ao_packet" where
  "CT_packet sender msg sys =
     with_body ''CT'' [ao_encode sender, ao_encode msg, (if sys then ''1'' else ''0'')] (CT sender msg sys)"

text \<open>\<open>ICMessageData\<close> (include/event/OutgoingICMessageEvent.h) and its packet.\<close>

record ic_message_data =
  d_desk_mod :: int
  d_pre_emote :: string
  d_character :: string
  d_emote :: string
  d_message :: string
  d_side :: string
  d_sfx_name :: string
  d_emote_mod :: int
  d_char_id :: int
  d_sfx_delay :: int
  d_objection_mod :: int
  d_evidence_id :: int
  d_flip :: int
  d_realization :: int
  d_text_color :: int
  d_showname :: string
  d_other_charid :: int
  d_other_name :: string
  d_other_emote :: string
  d_self_offset :: string
  d_other_offset :: string
  d_other_flip :: int
  d_immediate :: int
  d_looping_sfx :: int
  d_screenshake :: int
  d_frame_screenshake :: string
  d_frame_realization :: string
  d_frame_sfx :: string
  d_additive :: int
  d_effects :: string
  d_blipname :: string
  d_slide :: string

definition MS_packet :: "int \<Rightarrow> bool \<Rightarrow> ic_message_data \<Rightarrow> ao_packet" where
  "MS_packet gi gb d = with_body ''MS''
     [show_int (d_desk_mod d), ao_encode (d_pre_emote d), ao_encode (d_character d), ao_encode (d_emote d),
      ao_encode (d_message d), ao_encode (d_side d), ao_encode (d_sfx_name d), show_int (d_emote_mod d),
      show_int (d_char_id d), show_int (d_sfx_delay d), show_int (d_objection_mod d),
      show_int (d_evidence_id d), show_int (d_flip d), show_int (d_realization d),
      show_int (d_text_color d),
      ao_encode (d_showname d), show_int (d_other_charid d), ao_encode (d_self_offset d), show_int (d_immediate d),
      show_int (d_looping_sfx d), show_int (d_screenshake d), ao_encode (d_frame_screenshake d),
      ao_encode (d_frame_realization d), ao_encode (d_frame_sfx d), show_int (d_additive d), ao_encode (d_effects d),
      ao_encode (d_blipname d), d_slide d]
     (MS (ms_default gi gb))"

section \<open>The registry of packet classes\<close>

type_synonym creator = "string list \<Rightarrow> ao_packet"

definition register_packet :: "string \<Rightarrow> creator \<Rightarrow> (string \<rightharpoonup> creator) \<Rightarrow> (string \<rightharpoonup> creator)" where
  "register_packet h c creators = creators(h \<mapsto> c)"

definition has_packet :: "(string \<rightharpoonup> creator) \<Rightarrow> string \<Rightarrow> bool" where
  "has_packet creators h = (creators h \<noteq> None)"

definition create_packet :: "(string \<rightharpoonup> creator) \<Rightarrow> string \<Rightarrow> string list \<Rightarrow> ao_packet" where
  "create_packet creators h fs = (case creators h of Some c \<Rightarrow> c fs | None \<Rightarrow> packet h fs)"

text \<open>The static registrars of the translation unit.\<close>

definition registrars :: "int \<Rightarrow> bool \<Rightarrow> (string \<times> creator) list" where
  "registrars gi gb =
     [(''decryptor'', decryptor_of), (''HI'', HI_of), (''ID'', ID_of), (''PN'', PN_of gi),
      (''askchaa'', askchaa_of), (''ASS'', ASS_of), (''SI'', SI_of gi), (''RC'', RC_of), (''SC'', SC_of),
      (''RM'', RM_of), (''SM'', SM_of), (''CH'', CH_of), (''CHECK'', CHECK_of), (''RD'', RD_of),
      (''DONE'', DONE_of), (''CharsCheck'', CharsCheck_of), (''PW'', PW_of), (''CC'', CC_of),
      (''MS'', MS_of gi gb), (''MC'', MC_of), (''ARUP'', ARUP_of), (''BN'', BN_of), (''PV'', PV_of),
      (''FL'', FL_of), (''FA'', FA_of), (''FM'', FM_of), (''HP'', HP_of), (''TI'', TI_of), (''LE'', LE_of),
      (''PR'', PR_of), (''PU'', PU_of), (''ZZ'', ZZ_of), (''CT'', CT_of gb), (''MA'', MA_of), (''RT'', RT_of),
      (''PE'', PE_of), (''EE'', EE_of), (''DE'', DE_of), (''CASEA'', CASEA_of), (''SETCASE'', SETCASE_of)]"

definition packet_creators :: "int \<Rightarrow> bool \<Rightarrow> (string \<rightharpoonup> creator)" where
  "packet_creators gi gb = fold (\<lambda>(h, c). register_packet h c) (registrars gi gb) Map.empty"

section \<open>Serialisation\<close>

definition DELIMITER :: string where
  "DELIMITER = ''#%''"

definition serialize :: "ao_packet \<Rightarrow> string" where
  "serialize p = join_tokens (header p) (pfields p) @ DELIMITER"

datatype packet_error = Missing_delimiter | Empty_packet

definition deserialize :: "(string \<rightharpoonup> creator) \<Rightarrow> string \<Rightarrow> packet_error + ao_packet" where
  "deserialize creators serialized =
     (if length serialized < length DELIMITER
         \<or> drop (length serialized - length DELIMITER) serialized \<noteq> DELIMITER
      then Inl Missing_delimiter
      else
        let content = take (length serialized - length DELIMITER) serialized;
            tokens = split_tokens content
        in if tokens = [] then Inl Empty_packet
           else Inr (create_packet creators (hd tokens) (tl tokens)))"

section \<open>The dispatch boundary\<close>

definition MAX_LOG_PREVIEW :: nat where
  "MAX_LOG_PREVIEW = 256"

definition redact_for_log :: "string \<Rightarrow> string" where
  "redact_for_log wire =
     map (\<lambda>c. if char_code c \<ge> 32 \<and> char_code c < 127 then c else CHR ''?'') (take MAX_LOG_PREVIEW wire)
     @ (if length wire > MAX_LOG_PREVIEW then ''...'' else [])"

datatype dispatch_result = Ok | ParseFailed | HandlerFailed | InvalidPacket

text \<open>
  \<open>dispatch\<close> runs a handler on a state: a handler that throws leaves the state as it was when it
  threw. The second component is the wire preview that is logged.
\<close>

definition safe_dispatch :: "(string \<rightharpoonup> creator) \<Rightarrow> string \<Rightarrow> (ao_packet \<Rightarrow> 's \<Rightarrow> bool \<times> 's) \<Rightarrow> 's
    \<Rightarrow> dispatch_result \<times> string option \<times> 's" where
  "safe_dispatch creators wire dispatch s =
     (case deserialize creators wire of
        Inl e \<Rightarrow> (ParseFailed, Some (redact_for_log wire), s)
      | Inr pkt \<Rightarrow>
          if \<not> valid pkt then (InvalidPacket, Some (redact_for_log wire), s)
          else (case dispatch pkt s of
                  (threw, s') \<Rightarrow>
                    if threw then (HandlerFailed, Some (redact_for_log wire), s') else (Ok, None, s')))"

section \<open>Framing\<close>

text \<open>
  The loop of \<open>on_message\<close> (client) and \<open>on_client_message\<close> (server): cut the buffer behind every
  delimiter and hand each frame on. The rest stays in the buffer; no handler has access to it.
\<close>

function drain :: "(string \<Rightarrow> 's \<Rightarrow> 's) \<Rightarrow> string \<Rightarrow> 's \<Rightarrow> string \<times> 's" where
  "drain h buf s =
     (case find_sub DELIMITER buf of
        None \<Rightarrow> (buf, s)
      | Some pos \<Rightarrow> drain h (drop (pos + length DELIMITER) buf) (h (take (pos + length DELIMITER) buf) s))"
  by auto
termination
proof (relation "measure (\<lambda>(h, buf, s). length buf)")
  fix h :: "string \<Rightarrow> 's \<Rightarrow> 's" and buf s pos
  assume "find_sub DELIMITER buf = Some pos"
  then have "pos + length DELIMITER \<le> length buf" using find_sub_Some by blast
  then show "((h, drop (pos + length DELIMITER) buf, h (take (pos + length DELIMITER) buf) s), h, buf, s)
      \<in> measure (\<lambda>(h, buf, s). length buf)"
    by (simp add: DELIMITER_def)
qed simp

declare drain.simps [simp del]

lemmas packet_of_defs = decryptor_of_def HI_of_def ID_of_def PN_of_def askchaa_of_def ASS_of_def SI_of_def
  RC_of_def SC_of_def RM_of_def SM_of_def CH_of_def CHECK_of_def RD_of_def DONE_of_def CharsCheck_of_def
  PW_of_def CC_of_def MS_of_def MC_of_def ARUP_of_def BN_of_def PV_of_def FL_of_def FA_of_def FM_of_def
  HP_of_def TI_of_def LE_of_def PR_of_def PU_of_def ZZ_of_def CT_of_def MA_of_def RT_of_def PE_of_def
  EE_of_def DE_of_def CASEA_of_def SETCASE_of_def

lemmas packet_defs = packet_def with_body_def packet_of_defs

end
