(* ===== verification/AO_Packet_Props.thy ===== *)
theory AO_Packet_Props
  imports AO_Packets
begin

text \<open>
  Facts about the packet layer: what each registered class makes of a frame, printing and
  parsing as inverses, which frames leave members uninitialised, and what the dispatch boundary
  guarantees to its callers.
\<close>

section \<open>The registry\<close>

definition packet_headers :: "string list" where
  "packet_headers = map fst (registrars 0 False)"

lemma fold_register: "fold (\<lambda>(h, c). register_packet h c) rs m = m ++ map_of (rev rs)"
  by (induction rs arbitrary: m) (auto simp: register_packet_def map_add_def fun_eq_iff split: option.splits)

lemma packet_headers_eq: "map fst (registrars gi gb) = packet_headers"
  by (simp add: packet_headers_def registrars_def)

lemma packet_headers_distinct: "distinct packet_headers"
  by (simp add: packet_headers_def registrars_def)

lemma packet_creators_map_of: "packet_creators gi gb = map_of (registrars gi gb)"
proof -
  have "distinct (map fst (registrars gi gb))"
    using packet_headers_distinct by (simp add: packet_headers_eq)
  then have "map_of (rev (registrars gi gb)) = map_of (registrars gi gb)"
    by (intro map_of_inject_set [THEN iffD2]) (simp_all add: rev_map flip: rev_map)
  then show ?thesis by (simp add: packet_creators_def fold_register)
qed

lemma has_packet_iff: "has_packet (packet_creators gi gb) h \<longleftrightarrow> h \<in> set packet_headers"
proof -
  have "has_packet (packet_creators gi gb) h \<longleftrightarrow> h \<in> set (map fst (registrars gi gb))"
    by (simp add: has_packet_def packet_creators_map_of map_of_eq_None_iff)
  then show ?thesis by (simp only: packet_headers_eq)
qed

lemmas packet_creators_simps =
  packet_creators_map_of registrars_def

text \<open>What every class does with the header and the fields it is given.\<close>

definition frame_kept :: "string \<times> creator \<Rightarrow> bool" where
  "frame_kept = (\<lambda>(h, c). \<forall>fs. valid (c fs) \<and> header (c fs) = h
     \<and> pfields (c fs) = (if h = ''DONE'' then [] else fs))"

lemma registrars_frame: "list_all frame_kept (registrars gi gb)"
  by (simp add: registrars_def frame_kept_def packet_defs)

lemma create_packet_frame:
  "valid (create_packet (packet_creators gi gb) h fs)
   \<and> header (create_packet (packet_creators gi gb) h fs) = h
   \<and> pfields (create_packet (packet_creators gi gb) h fs) = (if h = ''DONE'' then [] else fs)"
proof (cases "packet_creators gi gb h")
  case None
  then have "h \<noteq> ''DONE''" by (auto simp: packet_creators_simps split: if_splits)
  with None show ?thesis by (simp add: create_packet_def packet_def)
next
  case (Some c)
  then have "(h, c) \<in> set (registrars gi gb)" by (simp add: packet_creators_map_of map_of_SomeD)
  then have "frame_kept (h, c)" using registrars_frame [of gi gb] by (auto simp: list_all_iff)
  with Some show ?thesis by (simp add: create_packet_def frame_kept_def)
qed

section \<open>Printing and parsing\<close>

lemma framed_iff:
  "(length w < length DELIMITER \<or> drop (length w - length DELIMITER) w \<noteq> DELIMITER)
     \<longleftrightarrow> (\<forall>u. w \<noteq> u @ DELIMITER)"
proof -
  have "\<exists>u. w = u @ DELIMITER" if "drop (length w - length DELIMITER) w = DELIMITER"
    using that by (metis append_take_drop_id)
  then show ?thesis by auto
qed

lemma deserialize_framed:
  "deserialize cs (u @ DELIMITER) = Inr (create_packet cs (hd (split_tokens u)) (tl (split_tokens u)))"
  by (simp add: deserialize_def Let_def)

lemma deserialize_unframed: "(\<And>u. w \<noteq> u @ DELIMITER) \<Longrightarrow> deserialize cs w = Inl Missing_delimiter"
  using framed_iff [of w] by (simp add: deserialize_def)

text \<open>C12: Parsing and printing are inverse to each other: a packet whose header and fields contain
no \<open>#\<close> is parsed back from its wire form as the packet class registered for its header, with the
same fields (DONE drops its fields); a text is rejected exactly when it does not end in the
delimiter; and whatever is accepted is printed back to the same text, unless it is a DONE.\<close>

theorem packet_wire_roundtrip:
  "(CHR ''#'' \<notin> set (header p) \<and> list_all (\<lambda>f. CHR ''#'' \<notin> set f) (pfields p) \<longrightarrow>
      deserialize cs (serialize p) = Inr (create_packet cs (header p) (pfields p)))
   \<and> ((\<exists>e. deserialize cs w = Inl e) \<longleftrightarrow> (\<forall>u. w \<noteq> u @ DELIMITER))
   \<and> (deserialize (packet_creators gi gb) w = Inr q \<and> header q \<noteq> ''DONE'' \<longrightarrow> serialize q = w)"
proof (intro conjI impI)
  assume "CHR ''#'' \<notin> set (header p) \<and> list_all (\<lambda>f. CHR ''#'' \<notin> set f) (pfields p)"
  then have "split_tokens (join_tokens (header p) (pfields p)) = header p # pfields p"
    by (intro split_join) (auto simp: list_all_iff)
  then show "deserialize cs (serialize p) = Inr (create_packet cs (header p) (pfields p))"
    by (simp add: serialize_def deserialize_framed)
next
  show "(\<exists>e. deserialize cs w = Inl e) \<longleftrightarrow> (\<forall>u. w \<noteq> u @ DELIMITER)"
    using deserialize_unframed [of w cs] deserialize_framed [of cs] by fastforce
next
  assume q: "deserialize (packet_creators gi gb) w = Inr q \<and> header q \<noteq> ''DONE''"
  then obtain u where u: "w = u @ DELIMITER" using deserialize_unframed [of w "packet_creators gi gb"] by force
  have eq: "q = create_packet (packet_creators gi gb) (hd (split_tokens u)) (tl (split_tokens u))"
    using q by (simp add: u deserialize_framed)
  then have "header q = hd (split_tokens u)" using create_packet_frame by simp
  moreover from this q eq have "pfields q = tl (split_tokens u)" using create_packet_frame by simp
  ultimately show "serialize q = w" using join_split [of u] by (simp add: serialize_def u)
qed

theorem packet_wire_roundtrip_witness:
  "deserialize (packet_creators 0 False) ''HP#1#7#%'' = Inr (HP_of [''1'', ''7''])
   \<and> serialize (HP_of [''1'', ''7'']) = ''HP#1#7#%''"
proof -
  let ?cs = "packet_creators 0 False"
  have s: "serialize (packet ''HP'' [''1'', ''7'']) = ''HP#1#7#%''"
    by (simp add: serialize_def packet_def DELIMITER_def)
  have d: "deserialize ?cs (serialize (packet ''HP'' [''1'', ''7''])) = Inr (create_packet ?cs ''HP'' [''1'', ''7''])"
    using packet_wire_roundtrip [of "packet ''HP'' [''1'', ''7'']" ?cs, THEN conjunct1]
    by (simp add: packet_def)
  have c: "create_packet ?cs ''HP'' [''1'', ''7''] = HP_of [''1'', ''7'']"
    by (simp add: create_packet_def packet_creators_simps)
  have "deserialize ?cs ''HP#1#7#%'' = Inr (HP_of [''1'', ''7''])" using d unfolding s c .
  moreover have "serialize (HP_of [''1'', ''7'']) = ''HP#1#7#%''"
    by (simp add: HP_of_def with_body_def packet_def serialize_def DELIMITER_def)
  ultimately show ?thesis by blast
qed

section \<open>Members without a value\<close>

definition determined :: "string \<Rightarrow> string list \<Rightarrow> bool" where
  "determined h fs = (\<not> (h = ''PN'' \<and> length fs < 2) \<and> \<not> (h = ''SI'' \<and> length fs < 3)
     \<and> \<not> (h = ''MS'' \<and> length fs < 15) \<and> \<not> (h = ''CT'' \<and> length fs < 2))"

lemma create_packet_indeterminate:
  assumes "h \<notin> {''PN'', ''SI'', ''MS'', ''CT''}"
  shows "create_packet (packet_creators gi gb) h fs = create_packet (packet_creators 0 False) h fs"
  using assms by (simp add: create_packet_def packet_creators_simps)

lemma create_packet_PN: "create_packet (packet_creators gi gb) ''PN'' fs = PN_of gi fs"
  by (simp add: create_packet_def packet_creators_simps)

lemma create_packet_SI: "create_packet (packet_creators gi gb) ''SI'' fs = SI_of gi fs"
  by (simp add: create_packet_def packet_creators_simps)

lemma create_packet_MS: "create_packet (packet_creators gi gb) ''MS'' fs = MS_of gi gb fs"
  by (simp add: create_packet_def packet_creators_simps)

lemma create_packet_CT: "create_packet (packet_creators gi gb) ''CT'' fs = CT_of gb fs"
  by (simp add: create_packet_def packet_creators_simps)

lemmas create_packet_typed = create_packet_PN create_packet_SI create_packet_MS create_packet_CT

text \<open>Exactly the frames PN, SI, MS and CT with too few fields leave members of their packet
uninitialised: for every other frame the packet does not depend on what was in memory, and for
these it does, although they are accepted as valid packets and go on to their handlers.\<close>

theorem short_frames_uninitialised:
  assumes "gi \<noteq> gi'" "gb \<noteq> gb'"
  shows "(create_packet (packet_creators gi gb) h fs = create_packet (packet_creators gi' gb') h fs
           \<longleftrightarrow> determined h fs)
     \<and> valid (create_packet (packet_creators gi gb) h fs)"
proof -
  consider "h = ''PN''" | "h = ''SI''" | "h = ''MS''" | "h = ''CT''" | "h \<notin> {''PN'', ''SI'', ''MS'', ''CT''}"
    by blast
  then have "create_packet (packet_creators gi gb) h fs = create_packet (packet_creators gi' gb') h fs
           \<longleftrightarrow> determined h fs"
  proof cases
    case 1
    then show ?thesis using assms by (simp add: create_packet_PN determined_def PN_of_def with_body_def packet_def)
  next
    case 2
    then show ?thesis using assms by (simp add: create_packet_SI determined_def SI_of_def with_body_def packet_def)
  next
    case 3
    then show ?thesis using assms
      by (simp add: create_packet_MS determined_def MS_of_def with_body_def packet_def ms_default_def)
  next
    case 4
    then show ?thesis using assms by (simp add: create_packet_CT determined_def CT_of_def with_body_def packet_def)
  next
    case 5
    then have "determined h fs" by (simp add: determined_def)
    then show ?thesis using create_packet_indeterminate [OF 5] by metis
  qed
  then show ?thesis using create_packet_frame by blast
qed

theorem short_frames_uninitialised_witness:
  "create_packet (packet_creators 0 False) ''MS'' [] \<noteq> create_packet (packet_creators 7 True) ''MS'' []"
  using short_frames_uninitialised [of 0 7 False True "''MS''" "[]"] by (simp add: determined_def)

section \<open>The dispatch boundary\<close>

lemma redact_length: "length (redact_for_log w) \<le> 259"
  by (simp add: redact_for_log_def MAX_LOG_PREVIEW_def)

lemma redact_printable: "c \<in> set (redact_for_log w) \<Longrightarrow> 32 \<le> char_code c \<and> char_code c < 127"
  by (auto simp: redact_for_log_def char_code_def split: if_splits)

text \<open>C28: The dispatch boundary contains every failure: whatever bytes arrive, a text without the
delimiter is reported as a parse failure and does not reach the handler, every other text makes
exactly one packet, is handled exactly once and never counts as a parse failure or an invalid
packet; an exception of the handler becomes the result \<open>HandlerFailed\<close>; and a log line, written
exactly for the failures, is at most 259 printable characters long.\<close>

theorem safe_dispatch_contains_failures:
  assumes "safe_dispatch (packet_creators gi gb) wire h s = (r, log, s')"
  shows "((\<forall>u. wire \<noteq> u @ DELIMITER) \<longrightarrow> r = ParseFailed \<and> s' = s)
     \<and> (\<forall>u. wire = u @ DELIMITER \<longrightarrow>
          (let p = create_packet (packet_creators gi gb) (hd (split_tokens u)) (tl (split_tokens u))
           in s' = snd (h p s) \<and> r = (if fst (h p s) then HandlerFailed else Ok)))
     \<and> r \<noteq> InvalidPacket
     \<and> (log = None \<longleftrightarrow> r = Ok)
     \<and> (\<forall>l. log = Some l \<longrightarrow> length l \<le> 259 \<and> list_all (\<lambda>c. 32 \<le> char_code c \<and> char_code c < 127) l)"
proof (cases "\<exists>u. wire = u @ DELIMITER")
  case True
  then obtain u where u: "wire = u @ DELIMITER" ..
  let ?p = "create_packet (packet_creators gi gb) (hd (split_tokens u)) (tl (split_tokens u))"
  obtain threw t where h: "h ?p s = (threw, t)" by fastforce
  have "valid ?p" using create_packet_frame by blast
  then have "(r, log, s') = (if threw then (HandlerFailed, Some (redact_for_log wire), t) else (Ok, None, t))"
    using assms h by (auto simp: safe_dispatch_def u deserialize_framed)
  then show ?thesis using u h redact_length redact_printable
    by (cases threw) (auto simp: list_all_iff)
next
  case False
  then have "deserialize (packet_creators gi gb) wire = Inl Missing_delimiter"
    by (intro deserialize_unframed) blast
  with False show ?thesis using assms redact_length redact_printable
    by (auto simp: safe_dispatch_def list_all_iff)
qed

theorem safe_dispatch_contains_failures_witness:
  "fst (safe_dispatch (packet_creators 0 False) ''MS#'' (\<lambda>p s. (True, s + 1)) (0::nat)) = ParseFailed
   \<and> fst (safe_dispatch (packet_creators 0 False) ''RD#%'' (\<lambda>p s. (True, s + 1)) (0::nat)) = HandlerFailed"
proof -
  let ?d = "\<lambda>w. safe_dispatch (packet_creators 0 False) w (\<lambda>p s. (True, s + 1)) (0::nat)"
  obtain r l s where a: "?d ''MS#'' = (r, l, s)" by (metis prod_cases3)
  obtain r' l' s' where b: "?d ''RD#%'' = (r', l', s')" by (metis prod_cases3)
  have "''MS#'' \<noteq> u @ DELIMITER" for u
  proof
    assume "''MS#'' = u @ DELIMITER"
    then have "last ''MS#'' = last (u @ DELIMITER)" by (rule arg_cong)
    then show False by (simp add: DELIMITER_def)
  qed
  then have "r = ParseFailed" using safe_dispatch_contains_failures [OF a] by blast
  moreover have "''RD#%'' = ''RD'' @ DELIMITER" by (simp add: DELIMITER_def)
  then have "r' = HandlerFailed" using safe_dispatch_contains_failures [OF b] by (auto simp: Let_def)
  ultimately show ?thesis using a b by simp
qed

section \<open>Framing\<close>

lemma drain_None: "find_sub DELIMITER b = None \<Longrightarrow> drain h b s = (b, s)"
  by (subst drain.simps) simp

lemma drain_Some:
  "find_sub DELIMITER b = Some pos \<Longrightarrow>
     drain h b s = drain h (drop (pos + length DELIMITER) b) (h (take (pos + length DELIMITER) b) s)"
  by (subst drain.simps) simp

lemma drain_append:
  "drain h (b @ t) s = (case drain h b s of (b', s') \<Rightarrow> drain h (b' @ t) s')"
proof (induction h b s rule: drain.induct)
  case (1 h b s)
  show ?case
  proof (cases "find_sub DELIMITER b")
    case None
    then show ?thesis by (simp add: drain_None)
  next
    case (Some pos)
    have "pos + length DELIMITER \<le> length b" using find_sub_Some [OF Some] by blast
    then have "drain h (b @ t) s = drain h (drop (pos + length DELIMITER) b @ t) (h (take (pos + length DELIMITER) b) s)"
      using drain_Some [OF find_sub_append [OF Some], of h t s] by simp
    then show ?thesis unfolding drain_Some [OF Some, of h s] using 1 [OF Some] by simp
  qed
qed

lemma drain_done: "drain h b s = (b', s') \<Longrightarrow> find_sub DELIMITER b' = None"
proof (induction h b s rule: drain.induct)
  case (1 h b s)
  then show ?case by (cases "find_sub DELIMITER b") (auto simp: drain_None drain_Some)
qed

text \<open>A frame: a text that has the delimiter at its end and nowhere else.\<close>

definition frame_body :: "string \<Rightarrow> bool" where
  "frame_body u = (find_sub DELIMITER (u @ DELIMITER) = Some (length u))"

lemma drain_frame: "frame_body u \<Longrightarrow> drain h (u @ DELIMITER @ t) s = drain h t (h (u @ DELIMITER) s)"
proof -
  assume u: "frame_body u"
  then have "find_sub DELIMITER (u @ DELIMITER @ t) = Some (length u)"
    using find_sub_append [of DELIMITER "u @ DELIMITER" "length u" t] by (simp add: frame_body_def)
  from drain_Some [OF this, of h s] show ?thesis by simp
qed

lemma drain_frames:
  "list_all frame_body us \<Longrightarrow>
     drain h (concat (map (\<lambda>u. u @ DELIMITER) us) @ t) s = drain h t (fold (\<lambda>u. h (u @ DELIMITER)) us s)"
proof (induction us arbitrary: s)
  case (Cons u us)
  then show ?case using drain_frame [of u h "concat (map (\<lambda>u. u @ DELIMITER) us) @ t" s] by simp
qed simp

lemma frame_body_no_percent:
  assumes "CHR ''%'' \<notin> set u" shows "frame_body u"
proof -
  have "find_sub DELIMITER (u @ DELIMITER) \<noteq> None"
    using find_sub_None [of DELIMITER "u @ DELIMITER" u "[]"] by auto
  then obtain i where i: "find_sub DELIMITER (u @ DELIMITER) = Some i" by auto
  note f = find_sub_Some [OF i]
  have le: "i \<le> length u" using f by simp
  moreover have "\<not> i < length u"
  proof
    assume l: "i < length u"
    have "(u @ DELIMITER) ! Suc i = (take i (u @ DELIMITER) @ DELIMITER @ drop (i + length DELIMITER) (u @ DELIMITER)) ! Suc i"
      using f by simp
    also have "\<dots> = CHR ''%''" using l by (simp add: nth_append DELIMITER_def)
    finally have p: "(u @ DELIMITER) ! Suc i = CHR ''%''" .
    show False
    proof (cases "Suc i < length u")
      case True
      then show False using p assms nth_mem [of "Suc i" u] by (simp add: nth_append)
    next
      case False
      then have "Suc i = length u" using l by simp
      then show False using p by (simp add: nth_append DELIMITER_def)
    qed
  qed
  ultimately show ?thesis using i by (simp add: frame_body_def)
qed

lemma join_tokens_set: "set (join_tokens h fs) \<subseteq> set h \<union> {CHR ''#''} \<union> \<Union> (set ` set fs)"
proof (induction fs arbitrary: h)
  case (Cons f fs)
  from Cons [of f] show ?case by auto
qed auto

text \<open>A stream is framed the same way however the network cuts it up: draining a buffer and
then what arrives later is draining everything at once; what stays in the buffer holds no
complete frame; and a stream of printed packets whose headers and fields have no percent sign (the
escape of \<open>ao_encode\<close> guarantees it) is cut into exactly these packets, in order.\<close>

theorem framing_independent_of_chunks:
  "drain h (b @ t) s = (case drain h b s of (b', s') \<Rightarrow> drain h (b' @ t) s')
   \<and> find_sub DELIMITER (fst (drain h b s)) = None
   \<and> (list_all (\<lambda>p. CHR ''%'' \<notin> set (header p) \<and> list_all (\<lambda>f. CHR ''%'' \<notin> set f) (pfields p)) ps \<longrightarrow>
        drain h (concat (map serialize ps)) s = ([], fold (\<lambda>p. h (serialize p)) ps s))"
proof (intro conjI impI drain_append)
  show "find_sub DELIMITER (fst (drain h b s)) = None"
    using drain_done [of h b s] by (cases "drain h b s") simp
  let ?us = "map (\<lambda>p. join_tokens (header p) (pfields p)) ps"
  assume "list_all (\<lambda>p. CHR ''%'' \<notin> set (header p) \<and> list_all (\<lambda>f. CHR ''%'' \<notin> set f) (pfields p)) ps"
  then have "list_all frame_body ?us"
    using join_tokens_set by (fastforce simp: list_all_iff intro!: frame_body_no_percent)
  from drain_frames [OF this, of h "[]" s]
  show "drain h (concat (map serialize ps)) s = ([], fold (\<lambda>p. h (serialize p)) ps s)"
    by (simp add: serialize_def [abs_def] fold_map comp_def drain_None DELIMITER_def)
qed

theorem framing_independent_of_chunks_witness:
  "drain (\<lambda>w ws. ws @ [w]) ''RC#%RM#%'' [] = ([], [''RC#%'', ''RM#%''])"
proof -
  have "drain (\<lambda>w ws. ws @ [w]) (concat (map serialize [RC_packet, RM_packet])) [] =
      ([], fold (\<lambda>p ws. ws @ [serialize p]) [RC_packet, RM_packet] [])"
    by (rule framing_independent_of_chunks [THEN conjunct2, THEN conjunct2, THEN mp])
       (simp add: RC_packet_def RM_packet_def with_body_def packet_def)
  then show ?thesis
    by (simp add: RC_packet_def RM_packet_def with_body_def packet_def serialize_def DELIMITER_def)
qed

end
