(* ===== verification/AO_Client.thy ===== *)
theory AO_Client
  imports AO_Packet_Props
begin

text \<open>
  The client side of the AO2 protocol: plugins/net/ao/AOClient.h and .cpp (connection state,
  framing, outgoing queue) and plugins/net/ao/PacketBehavior.cpp (the handler of every packet the
  server sends). Publishing on an event channel is an entry of \<open>published\<close>; the events that the
  game thread wants sent are the argument of \<open>flush_outgoing\<close>. The hardware id of the machine, the
  version string the build generates and the clock (in nanoseconds) are arguments.
\<close>

section \<open>State\<close>

datatype connection_state = NOT_CONNECTED | CONNECTED | JOINED

record evidence_item =
  ei_name :: string
  ei_description :: string
  ei_image :: string

datatype player_list_action = PL_Add | PL_Remove | PL_UpdateName | PL_UpdateCharacter | PL_UpdateCharname | PL_UpdateArea

text \<open>The events that handlers publish, by channel.\<close>

datatype client_event =
    ServerInfoEvent string string int
  | PlayerCountEvent int int string
  | AssetUrlEvent string
  | CharacterListEvent "string list"
  | MusicListEvent "string list" "string list" bool
  | CharLoadingDone
  | EnteredCourtroom string int
  | CharsCheckEvent "bool list"
  | ICMessageReceived ms_packet
  | BackgroundEvent string string
  | MusicChangeEvent mc_packet
  | AreaUpdateEvent int "string list"
  | ChatEvent string string bool
  | FeatureListEvent "string list"
  | HealthBarEvent int int
  | TimerEvent int int int
  | EvidenceListEvent "evidence_item list"
  | PlayerListEvent player_list_action int string

record ao_client =
  conn_state :: connection_state
  cl_decryptor :: string
  cl_player_number :: int
  cl_asset_url :: string
  cl_character_count :: int
  cl_evidence_count :: int
  cl_music_count :: int
  cl_character_list :: "string list"
  cl_music_list :: "string list"
  cl_char_id :: int
  cl_features :: "string list"
  incomplete_buf :: string
  buffered_messages :: "string list"
  last_keepalive :: int
  cl_published :: "client_event list"

definition client_new :: ao_client where
  "client_new = \<lparr>conn_state = NOT_CONNECTED, cl_decryptor = [], cl_player_number = 0, cl_asset_url = [],
     cl_character_count = 0, cl_evidence_count = 0, cl_music_count = 0, cl_character_list = [],
     cl_music_list = [], cl_char_id = - 1, cl_features = [], incomplete_buf = [], buffered_messages = [],
     last_keepalive = 0, cl_published = []\<rparr>"

record client_env =
  hwid :: string
  version_string :: string

definition add_message :: "ao_packet \<Rightarrow> ao_client \<Rightarrow> ao_client" where
  "add_message p c = c\<lparr>buffered_messages := buffered_messages c @ [serialize p]\<rparr>"

definition publish_event :: "client_event \<Rightarrow> ao_client \<Rightarrow> ao_client" where
  "publish_event ev c = c\<lparr>cl_published := cl_published c @ [ev]\<rparr>"

section \<open>Handlers\<close>

text \<open>The first component is True when the handler throws \<open>ProtocolStateException\<close>.\<close>

definition when_connected :: "(ao_client \<Rightarrow> ao_client) \<Rightarrow> ao_client \<Rightarrow> bool \<times> ao_client" where
  "when_connected f c = (if conn_state c \<noteq> CONNECTED then (True, c) else (False, f c))"

definition handle_decryptor :: "client_env \<Rightarrow> string \<Rightarrow> ao_client \<Rightarrow> bool \<times> ao_client" where
  "handle_decryptor env d = when_connected (\<lambda>c. add_message (HI_packet (hwid env)) (c\<lparr>cl_decryptor := d\<rparr>))"

definition handle_ID :: "client_env \<Rightarrow> int \<Rightarrow> string \<Rightarrow> string \<Rightarrow> ao_client \<Rightarrow> bool \<times> ao_client" where
  "handle_ID env n sw ver = when_connected (\<lambda>c.
     add_message (IDServer_packet (''AO-SDL/'' @ version_string env) ''2.999.999'')
       (publish_event (ServerInfoEvent sw ver n) (c\<lparr>cl_player_number := n\<rparr>)))"

definition handle_PN :: "int \<Rightarrow> int \<Rightarrow> string \<Rightarrow> ao_client \<Rightarrow> bool \<times> ao_client" where
  "handle_PN cur mx desc = when_connected (\<lambda>c.
     add_message askchaa_packet (publish_event (PlayerCountEvent cur mx desc) c))"

definition handle_ASS :: "string \<Rightarrow> ao_client \<Rightarrow> bool \<times> ao_client" where
  "handle_ASS url = when_connected (\<lambda>c.
     let c1 = c\<lparr>cl_asset_url := url\<rparr> in if url \<noteq> [] then publish_event (AssetUrlEvent url) c1 else c1)"

definition handle_SI :: "int \<Rightarrow> int \<Rightarrow> int \<Rightarrow> ao_client \<Rightarrow> bool \<times> ao_client" where
  "handle_SI chars evi music = when_connected (\<lambda>c.
     add_message RC_packet
       (c\<lparr>cl_character_count := chars, cl_evidence_count := evi, cl_music_count := music\<rparr>))"

text \<open>\<open>substr(0, find('&'))\<close>: the whole text when there is none.\<close>

definition folder_name :: "string \<Rightarrow> string" where
  "folder_name e = (case find_sub ''&'' e of Some p \<Rightarrow> take p e | None \<Rightarrow> e)"

definition handle_SC :: "string list \<Rightarrow> ao_client \<Rightarrow> bool \<times> ao_client" where
  "handle_SC chars = when_connected (\<lambda>c.
     add_message RM_packet
       (publish_event (CharacterListEvent (map folder_name chars)) (c\<lparr>cl_character_list := chars\<rparr>)))"

definition has_audio_extension :: "string \<Rightarrow> bool" where
  "has_audio_extension nm =
     (\<exists>ext\<in>set [''.wav'', ''.mp3'', ''.mp4'', ''.ogg'', ''.opus''].
        length nm \<ge> length ext \<and> drop (length nm - length ext) nm = ext)"

text \<open>The loop over the combined list; the state is \<open>areas\<close>, \<open>tracks\<close> and \<open>in_music\<close>.\<close>

fun split_music :: "string list \<Rightarrow> string list \<Rightarrow> string list \<Rightarrow> bool \<Rightarrow> string list \<times> string list" where
  "split_music [] areas tracks in_music = (areas, tracks)"
| "split_music (entry # es) areas tracks in_music =
     (if in_music then split_music es areas (tracks @ [entry]) True
      else if has_audio_extension entry then
        (if areas \<noteq> [] then split_music es (butlast areas) (tracks @ [last areas] @ [entry]) True
         else split_music es areas (tracks @ [entry]) True)
      else split_music es (areas @ [entry]) tracks False)"

definition handle_SM :: "string list \<Rightarrow> ao_client \<Rightarrow> bool \<times> ao_client" where
  "handle_SM mus = when_connected (\<lambda>c.
     let (areas, tracks) = split_music mus [] [] False
     in add_message RD_packet (publish_event (MusicListEvent areas tracks False) c))"

definition handle_DONE :: "ao_client \<Rightarrow> bool \<times> ao_client" where
  "handle_DONE = when_connected (\<lambda>c. publish_event CharLoadingDone (c\<lparr>conn_state := JOINED\<rparr>))"

definition handle_ARUP :: "int \<Rightarrow> string list \<Rightarrow> ao_client \<Rightarrow> bool \<times> ao_client" where
  "handle_ARUP t vals c = (False, if t < 0 \<or> t > 3 then c else publish_event (AreaUpdateEvent t vals) c)"

definition handle_PV :: "int \<Rightarrow> ao_client \<Rightarrow> bool \<times> ao_client" where
  "handle_PV cid c =
     (let c1 = c\<lparr>cl_char_id := cid\<rparr>;
          nm = (if cid \<ge> 0 \<and> cid < int (length (cl_character_list c1)) then cl_character_list c1 ! nat cid else [])
      in (False, publish_event (EnteredCourtroom nm cid) c1))"

definition handle_FL :: "string list \<Rightarrow> ao_client \<Rightarrow> bool \<times> ao_client" where
  "handle_FL fts c = (False, publish_event (FeatureListEvent fts) (c\<lparr>cl_features := fts\<rparr>))"

definition evidence_of :: "string \<Rightarrow> evidence_item" where
  "evidence_of raw =
     (case find_sub ''&'' raw of
        None \<Rightarrow> \<lparr>ei_name = raw, ei_description = [], ei_image = []\<rparr>
      | Some p1 \<Rightarrow>
          (case find_sub ''&'' (drop (p1 + 1) raw) of
             None \<Rightarrow> \<lparr>ei_name = take p1 raw, ei_description = drop (p1 + 1) raw, ei_image = []\<rparr>
           | Some q \<Rightarrow> \<lparr>ei_name = take p1 raw, ei_description = take q (drop (p1 + 1) raw),
                        ei_image = drop (q + 1) (drop (p1 + 1) raw)\<rparr>))"

definition handle_LE :: "string list \<Rightarrow> ao_client \<Rightarrow> bool \<times> ao_client" where
  "handle_LE raws c = (False, publish_event (EvidenceListEvent (map evidence_of raws)) c)"

definition handle_PR :: "int \<Rightarrow> int \<Rightarrow> ao_client \<Rightarrow> bool \<times> ao_client" where
  "handle_PR pid ut c = (False, publish_event (PlayerListEvent (if ut = 0 then PL_Add else PL_Remove) pid []) c)"

definition handle_PU :: "int \<Rightarrow> int \<Rightarrow> string \<Rightarrow> ao_client \<Rightarrow> bool \<times> ao_client" where
  "handle_PU pid dt data c =
     (False,
      if dt = 0 then publish_event (PlayerListEvent PL_UpdateName pid data) c
      else if dt = 1 then publish_event (PlayerListEvent PL_UpdateCharacter pid data) c
      else if dt = 2 then publish_event (PlayerListEvent PL_UpdateCharname pid data) c
      else if dt = 3 then publish_event (PlayerListEvent PL_UpdateArea pid data) c
      else c)"

text \<open>
  The virtual call \<open>pkt.handle(*this)\<close>: classes without an override inherit the handler of
  \<open>AOPacket\<close>, which only logs.
\<close>

definition client_handle :: "client_env \<Rightarrow> ao_packet \<Rightarrow> ao_client \<Rightarrow> bool \<times> ao_client" where
  "client_handle env p c =
     (case body p of
        Decryptor d \<Rightarrow> handle_decryptor env d c
      | ID n sw ver \<Rightarrow> handle_ID env n sw ver c
      | PN cur mx desc \<Rightarrow> handle_PN cur mx desc c
      | ASS url \<Rightarrow> handle_ASS url c
      | SI chars evi mus \<Rightarrow> handle_SI chars evi mus c
      | SC chars \<Rightarrow> handle_SC chars c
      | SM mus \<Rightarrow> handle_SM mus c
      | CHECK \<Rightarrow> (False, c)
      | DONE \<Rightarrow> handle_DONE c
      | CharsCheck t \<Rightarrow> (False, publish_event (CharsCheckEvent t) c)
      | MS ms \<Rightarrow> (False, publish_event (ICMessageReceived ms) c)
      | BN bg pos \<Rightarrow> (False, publish_event (BackgroundEvent bg pos) c)
      | MC mc \<Rightarrow> (False, publish_event (MusicChangeEvent mc) c)
      | ARUP t vals \<Rightarrow> handle_ARUP t vals c
      | PV cid \<Rightarrow> handle_PV cid c
      | CT nm msg sys \<Rightarrow> (False, publish_event (ChatEvent nm msg sys) c)
      | FL fts \<Rightarrow> handle_FL fts c
      | FA areas \<Rightarrow> (False, publish_event (MusicListEvent areas [] True) c)
      | FM tracks \<Rightarrow> (False, publish_event (MusicListEvent [] tracks True) c)
      | HP sd v \<Rightarrow> (False, publish_event (HealthBarEvent sd v) c)
      | TI tid act ms \<Rightarrow> (False, publish_event (TimerEvent tid act ms) c)
      | LE raws \<Rightarrow> handle_LE raws c
      | PR pid ut \<Rightarrow> handle_PR pid ut c
      | PU pid dt data \<Rightarrow> handle_PU pid dt data c
      | _ \<Rightarrow> (False, c))"

section \<open>The connection\<close>

definition on_connect :: "int \<Rightarrow> ao_client \<Rightarrow> ao_client" where
  "on_connect now c = c\<lparr>conn_state := CONNECTED, last_keepalive := now\<rparr>"

text \<open>Memory that a short frame leaves uninitialised is \<open>gi\<close> and \<open>gb\<close>, as in \<open>AO_Packets\<close>.\<close>

definition client_dispatch :: "int \<Rightarrow> bool \<Rightarrow> client_env \<Rightarrow> string \<Rightarrow> ao_client \<Rightarrow> ao_client" where
  "client_dispatch gi gb env wire c =
     (case safe_dispatch (packet_creators gi gb) wire (client_handle env) c of (_, _, c') \<Rightarrow> c')"

definition on_message :: "int \<Rightarrow> bool \<Rightarrow> client_env \<Rightarrow> string \<Rightarrow> ao_client \<Rightarrow> ao_client" where
  "on_message gi gb env msg c =
     (case drain (client_dispatch gi gb env) (incomplete_buf c @ msg) c of
        (rest, c') \<Rightarrow> c'\<lparr>incomplete_buf := rest\<rparr>)"

definition ao_on_disconnect :: "ao_client \<Rightarrow> ao_client" where
  "ao_on_disconnect c = c\<lparr>conn_state := NOT_CONNECTED, cl_decryptor := [], cl_player_number := 0, cl_asset_url := [],
     cl_character_count := 0, cl_evidence_count := 0, cl_music_count := 0, cl_character_list := [],
     cl_music_list := [], cl_char_id := - 1, cl_features := [], incomplete_buf := [], buffered_messages := []\<rparr>"

text \<open>The outgoing event channels, each drained in turn.\<close>

record outgoing =
  out_chat :: "(string \<times> string) list"
  out_ic :: "ic_message_data list"
  out_music :: "(string \<times> string) list"
  out_char_select :: "int list"
  out_hp :: "(int \<times> int) list"

definition KEEPALIVE_INTERVAL_MS :: int where
  "KEEPALIVE_INTERVAL_MS = 45000"

definition flush_outgoing :: "int \<Rightarrow> bool \<Rightarrow> client_env \<Rightarrow> int \<Rightarrow> outgoing \<Rightarrow> ao_client \<Rightarrow> string list \<times> ao_client" where
  "flush_outgoing gi gb env now out c =
     (let c1 = fold (\<lambda>(nm, msg). add_message (CT_packet nm msg False)) (out_chat out) c;
          c2 = fold (\<lambda>d. add_message (MS_packet gi gb d)) (out_ic out) c1;
          c3 = fold (\<lambda>(nm, sn) c. add_message (MC_packet nm (cl_char_id c) sn) c) (out_music out) c2;
          c4 = fold (\<lambda>cid c. add_message (CC_packet (cl_player_number c) cid (hwid env)) (add_message (PW_packet []) c))
                 (out_char_select out) c3;
          c5 = fold (\<lambda>(sd, v). add_message (HP_of [show_int sd, show_int v])) (out_hp out) c4;
          c6 = (if conn_state c5 = JOINED \<and> cl_char_id c5 \<ge> 0
                   \<and> (now - last_keepalive c5) div 1000000 \<ge> KEEPALIVE_INTERVAL_MS
                then (add_message (CH_packet (cl_char_id c5)) c5)\<lparr>last_keepalive := now\<rparr>
                else c5)
      in (buffered_messages c6, c6\<lparr>buffered_messages := []\<rparr>))"

end
