(* ===== verification/AO_Client_Props.thy ===== *)
theory AO_Client_Props
  imports AO_Client
begin

text \<open>
  Facts about the client connection: the handlers neither read nor write the framing buffer, so
  a stream has the same effect however it is cut up; the handshake; and the refusal of packets
  that do not belong to the connection's state.
\<close>

section \<open>The buffer is private to the framing loop\<close>

definition with_buf :: "string \<Rightarrow> ao_client \<Rightarrow> ao_client" where
  "with_buf b c = c\<lparr>incomplete_buf := b\<rparr>"

lemmas handler_defs = when_connected_def handle_decryptor_def handle_ID_def handle_PN_def handle_ASS_def
  handle_SI_def handle_SC_def handle_SM_def handle_DONE_def handle_ARUP_def handle_PV_def handle_FL_def
  handle_LE_def handle_PR_def handle_PU_def add_message_def publish_event_def

lemma client_handle_buf:
  "client_handle env p (with_buf b c) = map_prod id (with_buf b) (client_handle env p c)"
  by (cases "body p") (simp_all add: client_handle_def handler_defs with_buf_def Let_def split: prod.splits)

lemma client_dispatch_buf: "client_dispatch gi gb env w (with_buf b c) = with_buf b (client_dispatch gi gb env w c)"
  by (auto simp: client_dispatch_def safe_dispatch_def client_handle_buf split: sum.splits prod.splits)

lemma drain_buf:
  "drain (client_dispatch gi gb env) s (with_buf b c) = map_prod id (with_buf b) (drain (client_dispatch gi gb env) s c)"
proof (induction "client_dispatch gi gb env" s c rule: drain.induct)
  case (1 s c)
  then show ?case
    by (cases "find_sub DELIMITER s") (simp_all add: drain_None drain_Some client_dispatch_buf)
qed

lemma on_message_drain:
  "on_message gi gb env m c =
     (case drain (client_dispatch gi gb env) (incomplete_buf c @ m) c of (r, c') \<Rightarrow> with_buf r c')"
  by (simp add: on_message_def with_buf_def)

lemma with_buf_simps [simp]:
  "incomplete_buf (with_buf b c) = b" "with_buf a (with_buf b c) = with_buf a c"
  "with_buf (incomplete_buf c) c = c"
  by (simp_all add: with_buf_def)

lemma on_message_append:
  "on_message gi gb env m2 (on_message gi gb env m1 c) = on_message gi gb env (m1 @ m2) c"
proof -
  let ?h = "client_dispatch gi gb env"
  obtain r c1 where 1: "drain ?h (incomplete_buf c @ m1) c = (r, c1)" by fastforce
  obtain r2 c2 where 2: "drain ?h (r @ m2) c1 = (r2, c2)" by fastforce
  have "on_message gi gb env m2 (on_message gi gb env m1 c) = with_buf r2 c2"
    by (simp add: on_message_drain 1 2 drain_buf)
  moreover have "on_message gi gb env (m1 @ m2) c = with_buf r2 c2"
    using drain_append [of ?h "incomplete_buf c @ m1" m2 c] by (simp add: on_message_drain 1 2)
  ultimately show ?thesis by simp
qed

lemma on_message_Nil: "find_sub DELIMITER (incomplete_buf c) = None \<Longrightarrow> on_message gi gb env [] c = c"
  by (simp add: on_message_drain drain_None)

lemma on_message_chunks:
  "find_sub DELIMITER (incomplete_buf c) = None \<Longrightarrow>
     fold (on_message gi gb env) ms c = on_message gi gb env (concat ms) c"
proof (induction ms rule: rev_induct)
  case (snoc m ms)
  then show ?case by (simp add: on_message_append)
qed (simp add: on_message_Nil)

section \<open>Dispatch of one frame\<close>

lemma client_dispatch_packet:
  assumes "CHR ''#'' \<notin> set h" "list_all (\<lambda>f. CHR ''#'' \<notin> set f) fs"
  shows "client_dispatch gi gb env (serialize (packet h fs)) c =
    snd (client_handle env (create_packet (packet_creators gi gb) h fs) c)"
proof -
  have "deserialize (packet_creators gi gb) (serialize (packet h fs)) = Inr (create_packet (packet_creators gi gb) h fs)"
    using assms split_join [of h fs] by (simp add: serialize_def packet_def deserialize_framed list_all_iff)
  moreover have "valid (create_packet (packet_creators gi gb) h fs)" using create_packet_frame by blast
  ultimately show ?thesis
    by (simp add: client_dispatch_def safe_dispatch_def split: prod.splits)
qed

definition wire_safe :: "string \<Rightarrow> bool" where
  "wire_safe s = (set s \<inter> {CHR ''#'', CHR ''%''} = {})"

lemma ao_encode_wire_safe: "wire_safe (ao_encode s)"
  using ao_encode_no_special [of s] by (auto simp: wire_safe_def wire_special_def)

lemma show_nat_wire_safe: "wire_safe (show_nat n)"
  using show_nat_digits [of n] by (force simp: wire_safe_def c_isdigit_def char_code_def)

lemma show_int_wire_safe: "wire_safe (show_int i)"
  using show_nat_wire_safe by (simp add: show_int_def wire_safe_def)

text \<open>A stream of printed packets, whole or in part.\<close>

lemma on_message_stream:
  assumes "incomplete_buf c = []"
    "list_all (\<lambda>(h, fs). wire_safe h \<and> list_all wire_safe fs) ps"
    "concat chunks = concat (map (\<lambda>(h, fs). serialize (packet h fs)) ps)"
  shows "fold (on_message gi gb env) chunks c =
    with_buf [] (fold (\<lambda>(h, fs) c. snd (client_handle env (create_packet (packet_creators gi gb) h fs) c)) ps c)"
proof -
  let ?h = "client_dispatch gi gb env"
  let ?qs = "map (\<lambda>(h, fs). packet h fs) ps"
  have safe: "list_all (\<lambda>p. CHR ''%'' \<notin> set (header p) \<and> list_all (\<lambda>f. CHR ''%'' \<notin> set f) (pfields p)) ?qs"
    using assms(2) by (auto simp: list_all_iff packet_def wire_safe_def)
  have str: "concat chunks = concat (map serialize ?qs)"
    using assms(3) by (simp add: comp_def case_prod_beta')
  have dr: "drain ?h (concat (map serialize qs)) s = ([], fold (\<lambda>p. ?h (serialize p)) qs s)"
    if "list_all (\<lambda>p. CHR ''%'' \<notin> set (header p) \<and> list_all (\<lambda>f. CHR ''%'' \<notin> set f) (pfields p)) qs" for qs s
  proof -
    have "list_all frame_body (map (\<lambda>p. join_tokens (header p) (pfields p)) qs)"
      using that join_tokens_set by (fastforce simp: list_all_iff intro!: frame_body_no_percent)
    from drain_frames [OF this, of ?h "[]" s] show ?thesis
      by (simp add: serialize_def [abs_def] fold_map comp_def drain_None DELIMITER_def)
  qed
  have step: "fold (\<lambda>p. ?h (serialize p)) ?qs s =
      fold (\<lambda>(h, fs) c. snd (client_handle env (create_packet (packet_creators gi gb) h fs) c)) ps s" for s
    using assms(2)
  proof (induction ps arbitrary: s)
    case (Cons p ps)
    obtain h fs where p: "p = (h, fs)" by fastforce
    with Cons.prems have "CHR ''#'' \<notin> set h" "list_all (\<lambda>f. CHR ''#'' \<notin> set f) fs"
      by (auto simp: wire_safe_def list_all_iff)
    with Cons p show ?case by (simp add: client_dispatch_packet)
  qed simp
  have "find_sub DELIMITER [] = None" by (simp add: DELIMITER_def)
  then have "fold (on_message gi gb env) chunks c = on_message gi gb env (concat chunks) c"
    using on_message_chunks assms(1) by simp
  also have "\<dots> = with_buf [] (fold (\<lambda>p. ?h (serialize p)) ?qs c)"
    unfolding on_message_drain assms(1) str append_Nil dr [OF safe] by simp
  finally show ?thesis by (simp only: step)
qed

section \<open>Properties\<close>

text \<open>The frames a server sends while a client joins, in order.\<close>

definition join_frames :: "string \<Rightarrow> int \<Rightarrow> string \<Rightarrow> string \<Rightarrow> int \<Rightarrow> int \<Rightarrow> string \<Rightarrow> string list \<Rightarrow> int \<Rightarrow> int \<Rightarrow> int
    \<Rightarrow> string list \<Rightarrow> string list \<Rightarrow> string list \<Rightarrow> (string \<times> string list) list" where
  "join_frames d n sw ver cur mx desc fts nc ne nm chars mus tk =
     [(''decryptor'', [d]), (''ID'', [show_int n, sw, ver]), (''PN'', [show_int cur, show_int mx, desc]),
      (''FL'', fts), (''SI'', [show_int nc, show_int ne, show_int nm]), (''SC'', chars), (''SM'', mus),
      (''CharsCheck'', tk), (''DONE'', [])]"

lemmas creator_lookup = create_packet_def packet_creators_simps

lemma create_packet_join [simp]:
  "create_packet (packet_creators gi gb) ''decryptor'' fs = decryptor_of fs"
  "create_packet (packet_creators gi gb) ''ID'' fs = ID_of fs"
  "create_packet (packet_creators gi gb) ''FL'' fs = FL_of fs"
  "create_packet (packet_creators gi gb) ''SC'' fs = SC_of fs"
  "create_packet (packet_creators gi gb) ''SM'' fs = SM_of fs"
  "create_packet (packet_creators gi gb) ''CharsCheck'' fs = CharsCheck_of fs"
  "create_packet (packet_creators gi gb) ''DONE'' fs = DONE_of fs"
  "create_packet (packet_creators gi gb) ''ASS'' fs = ASS_of fs"
  by (simp_all add: creator_lookup)

lemma message_fields [simp]:
  "conn_state (add_message p c) = conn_state c" "conn_state (publish_event ev c) = conn_state c"
  "buffered_messages (add_message p c) = buffered_messages c @ [serialize p]"
  "buffered_messages (publish_event ev c) = buffered_messages c"
  "cl_player_number (add_message p c) = cl_player_number c" "cl_player_number (publish_event ev c) = cl_player_number c"
  "cl_character_count (add_message p c) = cl_character_count c" "cl_character_count (publish_event ev c) = cl_character_count c"
  "cl_music_count (add_message p c) = cl_music_count c" "cl_music_count (publish_event ev c) = cl_music_count c"
  "cl_character_list (add_message p c) = cl_character_list c" "cl_character_list (publish_event ev c) = cl_character_list c"
  "cl_features (add_message p c) = cl_features c" "cl_features (publish_event ev c) = cl_features c"
  by (simp_all add: add_message_def publish_event_def)

lemma join_steps:
  "conn_state c = CONNECTED \<Longrightarrow> snd (client_handle env (decryptor_of [d]) c)
     = add_message (HI_packet (hwid env)) (c\<lparr>cl_decryptor := d\<rparr>)"
  "conn_state c = CONNECTED \<Longrightarrow> INT_MIN \<le> n \<Longrightarrow> n \<le> INT_MAX \<Longrightarrow> snd (client_handle env (ID_of [show_int n, sw, ver]) c)
     = add_message (IDServer_packet (''AO-SDL/'' @ version_string env) ''2.999.999'')
         (publish_event (ServerInfoEvent sw ver n) (c\<lparr>cl_player_number := n\<rparr>))"
  "conn_state c = CONNECTED \<Longrightarrow> \<exists>ev. snd (client_handle env (PN_of gi [a, b, desc]) c) = add_message askchaa_packet (publish_event ev c)"
  "snd (client_handle env (FL_of fts) c) = publish_event (FeatureListEvent fts) (c\<lparr>cl_features := fts\<rparr>)"
  "conn_state c = CONNECTED \<Longrightarrow> snd (client_handle env (SI_of gi [a, b, m]) c)
     = add_message RC_packet (c\<lparr>cl_character_count := safe_stoi a 0, cl_evidence_count := safe_stoi b 0, cl_music_count := safe_stoi m 0\<rparr>)"
  "conn_state c = CONNECTED \<Longrightarrow> \<exists>ev. snd (client_handle env (SC_of chars) c)
     = add_message RM_packet (publish_event ev (c\<lparr>cl_character_list := ao_decode_list chars\<rparr>))"
  "conn_state c = CONNECTED \<Longrightarrow> \<exists>ev. snd (client_handle env (SM_of mus) c) = add_message RD_packet (publish_event ev c)"
  "snd (client_handle env (CharsCheck_of tk) c) = publish_event (CharsCheckEvent (map (\<lambda>f. f = ''-1'') tk)) c"
  "conn_state c = CONNECTED \<Longrightarrow> snd (client_handle env (DONE_of fs) c) = publish_event CharLoadingDone (c\<lparr>conn_state := JOINED\<rparr>)"
  by (auto simp: packet_of_defs with_body_def packet_def client_handle_def when_connected_def handle_decryptor_def
      handle_ID_def handle_PN_def handle_SI_def handle_SC_def handle_SM_def handle_DONE_def handle_FL_def
      safe_stoi_show_int split: prod.splits)

lemma join_frames_effect:
  assumes c: "conn_state c = CONNECTED"
    and i: "list_all (\<lambda>i. INT_MIN \<le> i \<and> i \<le> INT_MAX) [n, nc, ne, nm]"
  shows "let c' = fold (\<lambda>(h, fs) c. snd (client_handle env (create_packet (packet_creators gi gb) h fs) c))
      (join_frames d n sw ver cur mx desc fts nc ne nm chars mus tk) c
    in conn_state c' = JOINED
       \<and> buffered_messages c' = buffered_messages c @ map serialize [HI_packet (hwid env),
            IDServer_packet (''AO-SDL/'' @ version_string env) ''2.999.999'', askchaa_packet,
            RC_packet, RM_packet, RD_packet]
       \<and> cl_player_number c' = n \<and> cl_character_count c' = nc \<and> cl_music_count c' = nm
       \<and> cl_character_list c' = ao_decode_list chars \<and> cl_features c' = fts"
proof -
  let ?H = "\<lambda>p c. snd (client_handle env p c)"
  define c1 where "c1 = ?H (decryptor_of [d]) c"
  define c2 where "c2 = ?H (ID_of [show_int n, sw, ver]) c1"
  define c3 where "c3 = ?H (PN_of gi [show_int cur, show_int mx, desc]) c2"
  define c4 where "c4 = ?H (FL_of fts) c3"
  define c5 where "c5 = ?H (SI_of gi [show_int nc, show_int ne, show_int nm]) c4"
  define c6 where "c6 = ?H (SC_of chars) c5"
  define c7 where "c7 = ?H (SM_of mus) c6"
  define c8 where "c8 = ?H (CharsCheck_of tk) c7"
  define c9 where "c9 = ?H (DONE_of []) c8"
  note j = join_steps
  have 1: "c1 = add_message (HI_packet (hwid env)) (c\<lparr>cl_decryptor := d\<rparr>)" unfolding c1_def by (rule j(1) [OF c])
  have s1: "conn_state c1 = CONNECTED" by (simp add: 1 c)
  have 2: "c2 = add_message (IDServer_packet (''AO-SDL/'' @ version_string env) ''2.999.999'')
         (publish_event (ServerInfoEvent sw ver n) (c1\<lparr>cl_player_number := n\<rparr>))"
    unfolding c2_def by (rule j(2) [OF s1]) (use i in simp_all)
  have s2: "conn_state c2 = CONNECTED" by (simp add: 2 s1)
  obtain e3 where 3: "c3 = add_message askchaa_packet (publish_event e3 c2)" unfolding c3_def using j(3) [OF s2] by blast
  have s3: "conn_state c3 = CONNECTED" by (simp add: 3 s2)
  have 4: "c4 = publish_event (FeatureListEvent fts) (c3\<lparr>cl_features := fts\<rparr>)" unfolding c4_def by (rule j(4))
  have s4: "conn_state c4 = CONNECTED" by (simp add: 4 s3)
  have 5: "c5 = add_message RC_packet (c4\<lparr>cl_character_count := nc, cl_evidence_count := ne, cl_music_count := nm\<rparr>)"
    unfolding c5_def j(5) [OF s4] using i by (simp add: safe_stoi_show_int)
  have s5: "conn_state c5 = CONNECTED" by (simp add: 5 s4)
  obtain e6 where 6: "c6 = add_message RM_packet (publish_event e6 (c5\<lparr>cl_character_list := ao_decode_list chars\<rparr>))"
    unfolding c6_def using j(6) [OF s5] by blast
  have s6: "conn_state c6 = CONNECTED" by (simp add: 6 s5)
  obtain e7 where 7: "c7 = add_message RD_packet (publish_event e7 c6)" unfolding c7_def using j(7) [OF s6] by blast
  have s7: "conn_state c7 = CONNECTED" by (simp add: 7 s6)
  have 8: "c8 = publish_event (CharsCheckEvent (map (\<lambda>f. f = ''-1'') tk)) c7" unfolding c8_def by (rule j(8))
  have s8: "conn_state c8 = CONNECTED" by (simp add: 8 s7)
  have 9: "c9 = publish_event CharLoadingDone (c8\<lparr>conn_state := JOINED\<rparr>)" unfolding c9_def by (rule j(9) [OF s8])
  have "fold (\<lambda>(h, fs) c. snd (client_handle env (create_packet (packet_creators gi gb) h fs) c))
      (join_frames d n sw ver cur mx desc fts nc ne nm chars mus tk) c = c9"
    by (simp add: join_frames_def create_packet_typed c1_def c2_def c3_def c4_def c5_def c6_def c7_def c8_def c9_def)
  moreover have "buffered_messages c9 = buffered_messages c @ map serialize [HI_packet (hwid env),
            IDServer_packet (''AO-SDL/'' @ version_string env) ''2.999.999'', askchaa_packet,
            RC_packet, RM_packet, RD_packet]"
    by (simp add: 1 2 3 4 5 6 7 8 9)
  moreover have "conn_state c9 = JOINED \<and> cl_player_number c9 = n \<and> cl_character_count c9 = nc \<and> cl_music_count c9 = nm
       \<and> cl_character_list c9 = ao_decode_list chars \<and> cl_features c9 = fts"
    by (simp add: 2 3 4 5 6 7 8 9)
  ultimately show ?thesis by (simp add: Let_def)
qed

text \<open>C39: However the network cuts the server's join sequence into messages, a connected client
ends up joined, with the server's data decoded and stored, nothing left in its buffer, and has
answered with exactly HI, ID, askchaa, RC, RM and RD, in this order.\<close>

theorem client_handshake:
  assumes "conn_state c = CONNECTED" "incomplete_buf c = []" "buffered_messages c = []"
    "list_all (\<lambda>i. INT_MIN \<le> i \<and> i \<le> INT_MAX) [n, nc, ne, nm]"
    "list_all wire_safe ([d, sw, ver, desc] @ fts @ chars @ mus @ tk)"
    "concat chunks = concat (map (\<lambda>(h, fs). serialize (packet h fs))
        (join_frames d n sw ver cur mx desc fts nc ne nm chars mus tk))"
  shows "let c' = fold (on_message gi gb env) chunks c
    in conn_state c' = JOINED \<and> incomplete_buf c' = []
       \<and> buffered_messages c' = map serialize [HI_packet (hwid env),
            IDServer_packet (''AO-SDL/'' @ version_string env) ''2.999.999'', askchaa_packet,
            RC_packet, RM_packet, RD_packet]
       \<and> cl_player_number c' = n \<and> cl_character_count c' = nc \<and> cl_music_count c' = nm
       \<and> cl_character_list c' = map ao_decode chars \<and> cl_features c' = fts"
proof -
  have "list_all (\<lambda>(h, fs). wire_safe h \<and> list_all wire_safe fs)
      (join_frames d n sw ver cur mx desc fts nc ne nm chars mus tk)"
    using assms(5) show_int_wire_safe by (auto simp: join_frames_def wire_safe_def list_all_iff)
  from on_message_stream [OF assms(2) this assms(6), of gi gb env]
    join_frames_effect [OF assms(1,4), of env gi gb d sw ver cur mx desc fts chars mus tk] assms(3)
  show ?thesis by (simp add: with_buf_def ao_decode_list_def Let_def)
qed

theorem client_handshake_witness:
  "conn_state (fold (on_message 0 False \<lparr>hwid = ''x'', version_string = ''1''\<rparr>)
     [''decr'', ''yptor#NOENCRYPT#%ID#3#kagami#1.0#%PN#1#100#hello#%FL#'', ''#%SI#1#0#1#%SC#Phoenix#%SM#Lobby#%CharsCheck#0#%DO'',
      ''NE#%'']
     (on_connect 0 client_new)) = JOINED"
proof -
  have n: "show_nat 0 = ''0''" "show_nat 1 = ''1''" "show_nat (Suc 0) = ''1''" "show_nat 3 = ''3''" "show_nat 100 = ''100''"
    by (code_simp)+
  show ?thesis
    using client_handshake [of "on_connect 0 client_new" 3 1 0 1 "''NOENCRYPT''" "''kagami''" "''1.0''" "''hello''"
        "[[]]" "[''Phoenix'']" "[''Lobby'']" "[''0'']"
        "[''decr'', ''yptor#NOENCRYPT#%ID#3#kagami#1.0#%PN#1#100#hello#%FL#'', ''#%SI#1#0#1#%SC#Phoenix#%SM#Lobby#%CharsCheck#0#%DO'', ''NE#%'']"
        1 100 0 False "\<lparr>hwid = ''x'', version_string = ''1''\<rparr>"]
    by (simp add: on_connect_def client_new_def join_frames_def packet_def serialize_def DELIMITER_def show_int_def n
        wire_safe_def INT_MIN_def INT_MAX_def Let_def)
qed

definition connected_headers :: "string list" where
  "connected_headers = [''decryptor'', ''ID'', ''PN'', ''ASS'', ''SI'', ''SC'', ''SM'', ''DONE'']"

definition needs_connection :: "packet_body \<Rightarrow> bool" where
  "needs_connection b = (case b of Decryptor _ \<Rightarrow> True | ID _ _ _ \<Rightarrow> True | PN _ _ _ \<Rightarrow> True | ASS _ \<Rightarrow> True
     | SI _ _ _ \<Rightarrow> True | SC _ \<Rightarrow> True | SM _ \<Rightarrow> True | DONE \<Rightarrow> True | _ \<Rightarrow> False)"

lemma client_handle_throws:
  "(fst (client_handle env p c) \<longleftrightarrow> needs_connection (body p) \<and> conn_state c \<noteq> CONNECTED)
   \<and> (fst (client_handle env p c) \<longrightarrow> snd (client_handle env p c) = c)"
  by (cases "body p") (simp_all add: client_handle_def handler_defs needs_connection_def Let_def)

lemma client_handle_conn_state:
  "conn_state (snd (client_handle env p c))
     = (if body p = DONE \<and> conn_state c = CONNECTED then JOINED else conn_state c)"
  by (cases "body p") (simp_all add: client_handle_def handler_defs Let_def split: prod.splits)

definition handled_well :: "client_env \<Rightarrow> ao_client \<Rightarrow> string \<times> creator \<Rightarrow> bool" where
  "handled_well env c = (\<lambda>(h, cr). \<forall>fs.
     (fst (client_handle env (cr fs) c) \<longleftrightarrow> h \<in> set connected_headers \<and> conn_state c \<noteq> CONNECTED)
     \<and> (fst (client_handle env (cr fs) c) \<longrightarrow> snd (client_handle env (cr fs) c) = c)
     \<and> conn_state (snd (client_handle env (cr fs) c))
         = (if h = ''DONE'' \<and> conn_state c = CONNECTED then JOINED else conn_state c))"

lemma registrars_body:
  "list_all (\<lambda>(h, cr). \<forall>fs. (needs_connection (body (cr fs)) \<longleftrightarrow> h \<in> set connected_headers)
     \<and> (body (cr fs) = DONE \<longleftrightarrow> h = ''DONE'')) (registrars gi gb)"
  by (simp add: registrars_def connected_headers_def packet_of_defs with_body_def packet_def needs_connection_def)

lemma registrars_handled: "list_all (handled_well env c) (registrars gi gb)"
  using registrars_body [of gi gb]
  by (auto simp: list_all_iff handled_well_def client_handle_throws client_handle_conn_state)

lemma plain_handled: "handled_well env c (h, packet h) \<longleftrightarrow> h \<notin> set connected_headers \<or> conn_state c = CONNECTED \<and> h \<noteq> ''DONE''"
  by (auto simp: handled_well_def packet_def client_handle_def connected_headers_def)

text \<open>A packet is refused exactly when it belongs to the handshake and the connection is not in
the state CONNECTED: then its handler throws before it has changed anything; no other packet makes
a handler throw, with any fields; and the connection's state moves only from CONNECTED to JOINED,
on DONE.\<close>

theorem client_refuses_out_of_state:
  "let r = client_handle env (create_packet (packet_creators gi gb) h fs) c
   in (fst r \<longleftrightarrow> h \<in> set connected_headers \<and> conn_state c \<noteq> CONNECTED)
      \<and> (fst r \<longrightarrow> snd r = c)
      \<and> conn_state (snd r) = (if h = ''DONE'' \<and> conn_state c = CONNECTED then JOINED else conn_state c)"
proof -
  have "handled_well env c (h, \<lambda>fs. create_packet (packet_creators gi gb) h fs)"
  proof (cases "packet_creators gi gb h")
    case None
    then have "h \<notin> set packet_headers" using has_packet_iff [of gi gb h] by (simp add: has_packet_def)
    then have "h \<notin> set connected_headers"
      by (auto simp: packet_headers_def registrars_def connected_headers_def)
    then show ?thesis using None plain_handled [of env c h] by (simp add: create_packet_def)
  next
    case (Some cr)
    then have "(h, cr) \<in> set (registrars gi gb)" by (simp add: packet_creators_map_of map_of_SomeD)
    then show ?thesis using registrars_handled [of env c gi gb] Some by (simp add: create_packet_def list_all_iff)
  qed
  then show ?thesis by (simp add: handled_well_def Let_def)
qed

text \<open>The handler of a packet that comes too late.\<close>

theorem client_refuses_out_of_state_witness:
  "snd (client_handle \<lparr>hwid = [], version_string = []\<rparr> (create_packet (packet_creators 0 False) ''PN'' []) client_new)
     = client_new"
  using client_refuses_out_of_state [of "\<lparr>hwid = [], version_string = []\<rparr>" 0 False "''PN''" "[]" client_new]
  by (simp add: connected_headers_def client_new_def Let_def)

lemma split_music_in: "split_music es areas tracks True = (areas, tracks @ es)"
  by (induction es arbitrary: tracks) auto

lemma split_music_none:
  "list_all (\<lambda>e. \<not> has_audio_extension e) es \<Longrightarrow> split_music es areas tracks False = (areas @ es, tracks)"
  by (induction es arbitrary: areas) auto

lemma split_music_some:
  "list_all (\<lambda>e. \<not> has_audio_extension e) pre \<Longrightarrow> has_audio_extension x \<Longrightarrow>
     split_music (pre @ x # post) areas [] False =
       (butlast (areas @ pre), (if areas @ pre = [] then [] else [last (areas @ pre)]) @ x # post)"
  by (induction pre arbitrary: areas) (auto simp: split_music_in)

text \<open>The combined list of the server is split into areas and music without losing or reordering
an entry: without an audio file everything is an area; otherwise the tracks begin at the first
audio file, together with the entry before it, which is its category.\<close>

theorem music_list_split:
  assumes "split_music es [] [] False = (areas, tracks)"
  shows "areas @ tracks = es
    \<and> (list_all (\<lambda>e. \<not> has_audio_extension e) es \<longrightarrow> tracks = [])
    \<and> (\<forall>pre x post. es = pre @ x # post \<and> list_all (\<lambda>e. \<not> has_audio_extension e) pre \<and> has_audio_extension x \<longrightarrow>
         areas = butlast pre \<and> tracks = (if pre = [] then [] else [last pre]) @ x # post)"
proof (cases "list_all (\<lambda>e. \<not> has_audio_extension e) es")
  case True
  then show ?thesis using assms split_music_none [OF True, of "[]" "[]"] by auto
next
  case False
  then have "\<exists>e\<in>set es. has_audio_extension e" by (auto simp: list_all_iff)
  from split_list_first_prop [OF this]
  obtain pre x post where e: "es = pre @ x # post" "has_audio_extension x" "\<forall>e\<in>set pre. \<not> has_audio_extension e"
    by blast
  have s: "split_music (pre @ x # post) [] [] False = (butlast pre, (if pre = [] then [] else [last pre]) @ x # post)"
    if "has_audio_extension x" "list_all (\<lambda>e. \<not> has_audio_extension e) pre" for pre x post
    using split_music_some [of pre x post "[]"] that by simp
  have "areas @ tracks = es" using s [of x pre post] e assms by (auto simp: list_all_iff)
  moreover have "areas = butlast pre \<and> tracks = (if pre = [] then [] else [last pre]) @ x # post"
    if "es = pre @ x # post" "list_all (\<lambda>e. \<not> has_audio_extension e) pre" "has_audio_extension x" for pre x post
    using s [OF that(3,2), of post] assms unfolding that(1) by (metis prod.inject)
  ultimately show ?thesis using False by blast
qed

theorem music_list_split_witness:
  "[''Lobby'', ''Court''] @ [''Music'', ''a.mp3'', ''b''] = [''Lobby'', ''Court'', ''Music'', ''a.mp3'', ''b'']"
proof -
  have "split_music [''Lobby'', ''Court'', ''Music'', ''a.mp3'', ''b''] [] [] False
      = ([''Lobby'', ''Court''], [''Music'', ''a.mp3'', ''b''])"
    by (simp add: has_audio_extension_def)
  from music_list_split [OF this] show ?thesis by (rule conjunct1)
qed

end
