(* ===== verification/AO_Server.thy ===== *)
theory AO_Server
  imports Game_Room ASN_Reputation User_Store Spam_Detector Crypto AO_Packets
begin

text \<open>
  The AO2 backend of the server: plugins/net/ao/AOServer.h and AOServer.cpp. The server owns the
  protocol state of its clients and works on the shared room; a session pointer is an index into
  the room's heap. What it sends, closes and asks of other components is the list \<open>sv_outs\<close>, in order.
  The content moderator and its state are parameters (\<open>'m\<close>, \<open>se_check\<close>, \<open>se_mute_info\<close>), as are the
  reputation caches, the addresses the web socket layer knows and the clocks, which are read once
  for each event. Behaviour that C++ leaves undefined (a ring buffer overrun, a character table
  shorter than the character list) sets \<open>sv_undef\<close> and ends the handler. Metrics and log lines are
  not modelled.
\<close>

section \<open>State\<close>

datatype protocol_phase = P_CONNECTED | P_IDENTIFIED | P_LOADING | P_JOINED

record protocol_state =
  incomplete_buf :: string
  ps_hardware_id :: string
  ps_state :: protocol_phase

definition protocol_state_new :: protocol_state where
  "protocol_state_new = \<lparr>incomplete_buf = [], ps_hardware_id = [], ps_state = P_CONNECTED\<rparr>"

datatype server_output =
    Sent u64 string
  | Closed u64
  | Close_deferred u64
  | Ban_Out ban_call
  | Spam_Out spam_call
  | Reputation_lookup string
  | Revoke_tokens string
  | Room_Out room_output

datatype moderation_action =
    MA_NONE | MA_LOG | MA_CENSOR | MA_DROP | MA_MUTE | MA_KICK | MA_BAN | MA_PERMA_BAN

record moderation_verdict =
  mv_action :: moderation_action
  mv_sanitized_message :: string
  mv_reason :: string

record 'm ao_server =
  sv_room :: room
  sv_proto :: "(u64 \<times> protocol_state) list"
  sv_bans :: "ban_manager option"
  sv_spam :: "detector option"
  sv_asn :: "asn_manager option"
  sv_moderator :: "'m option"
  sv_users :: "user_entry list option"
  sv_outs :: "server_output list"
  sv_undef :: bool

text \<open>
  What a handler finds around it: the send function and the web socket server (when they are set),
  the version, the hashes, the clocks (nanoseconds, seconds and the detector's milliseconds), the
  moderator, the reputation cache (the number of the network an address belongs to), fresh random
  bytes, and what the initialisers leave in memory. Commands that only talk to components outside
  this model (firewall, reputation service, moderator) answer with \<open>se_external\<close>; \<open>se_reload\<close> is the
  function that the application installs for a reload.
\<close>

record 'm server_env =
  se_has_send :: bool
  se_ws_addr :: "(u64 \<Rightarrow> string) option"
  se_version :: string
  se_token_hash :: "string \<Rightarrow> u64"
  se_spam_hash :: "string \<Rightarrow> u64"
  se_steady_ns :: int
  se_system_ns :: int
  se_spam_ms :: int
  se_check :: "string \<Rightarrow> string \<Rightarrow> string \<Rightarrow> string \<Rightarrow> 'm \<Rightarrow> moderation_verdict \<times> 'm"
  se_mute_info :: "string \<Rightarrow> 'm \<Rightarrow> int option"
  se_rep_cached :: "(string \<Rightarrow> u32 option) option"
  se_random :: "nat \<Rightarrow> bytes"
  se_external :: "session \<Rightarrow> string list \<Rightarrow> room \<Rightarrow> 'm option \<Rightarrow> string list \<times> 'm option"
  se_reload :: "(room \<Rightarrow> string \<times> room) option"
  se_gi :: int
  se_gb :: bool

definition emit :: "server_output list \<Rightarrow> 'm ao_server \<Rightarrow> 'm ao_server" where
  "emit outs s = s\<lparr>sv_outs := sv_outs s @ outs\<rparr>"

definition on_room :: "(room \<Rightarrow> room) \<Rightarrow> 'm ao_server \<Rightarrow> 'm ao_server" where
  "on_room f s = s\<lparr>sv_room := f (sv_room s)\<rparr>"

text \<open>A write through a session pointer.\<close>

definition update_session :: "nat \<Rightarrow> (session \<Rightarrow> session) \<Rightarrow> room \<Rightarrow> room" where
  "update_session p f g = g\<lparr>heap := (heap g)[p := f (heap g ! p)]\<rparr>"

definition on_session :: "nat \<Rightarrow> (session \<Rightarrow> session) \<Rightarrow> 'm ao_server \<Rightarrow> 'm ao_server" where
  "on_session p f s = on_room (update_session p f) s"

definition session_at :: "nat \<Rightarrow> 'm ao_server \<Rightarrow> session" where
  "session_at p s = heap (sv_room s) ! p"

text \<open>A write through the area pointer that \<open>find_area_by_name\<close> returned.\<close>

definition update_area :: "string \<Rightarrow> (area_state \<Rightarrow> area_state) \<Rightarrow> room \<Rightarrow> room" where
  "update_area name f g =
    (case area_name_to_id g name of
       None \<Rightarrow> g
     | Some i \<Rightarrow> (case area_states g i of
                    None \<Rightarrow> g
                  | Some a \<Rightarrow> g\<lparr>area_states := (area_states g)(i \<mapsto> f a)\<rparr>))"

definition on_area :: "string \<Rightarrow> (area_state \<Rightarrow> area_state) \<Rightarrow> 'm ao_server \<Rightarrow> 'm ao_server" where
  "on_area name f s = on_room (update_area name f) s"

definition get_protocol_state :: "u64 \<Rightarrow> 'm ao_server \<Rightarrow> protocol_state option" where
  "get_protocol_state c s = map_of (sv_proto s) c"

definition set_protocol_state :: "u64 \<Rightarrow> protocol_state \<Rightarrow> 'm ao_server \<Rightarrow> 'm ao_server" where
  "set_protocol_state c ps s = s\<lparr>sv_proto := AList.update c ps (sv_proto s)\<rparr>"

text \<open>\<open>ws_ ? ws_->get_client_addr(client_id) : ""\<close>.\<close>

definition client_addr :: "'m server_env \<Rightarrow> u64 \<Rightarrow> string" where
  "client_addr e c = (case se_ws_addr e of Some f \<Rightarrow> f c | None \<Rightarrow> [])"

text \<open>\<open>std::stoi\<close>: leading spaces, a sign, digits; what follows is ignored. \<open>None\<close> is an exception.\<close>

definition c_stoi :: "string \<Rightarrow> int option" where
  "c_stoi t =
    (let u = dropWhile c_isspace t;
         neg = (u \<noteq> [] \<and> hd u = CHR ''-'');
         v = (if u \<noteq> [] \<and> (hd u = CHR ''-'' \<or> hd u = CHR ''+'') then tl u else u);
         ds = takeWhile c_isdigit v;
         n = (if neg then - digits_value ds else digits_value ds)
     in if ds = [] \<or> n < INT_MIN \<or> INT_MAX < n then None else Some n)"

section \<open>Sending\<close>

definition count_sent :: "u64 \<Rightarrow> nat \<Rightarrow> room \<Rightarrow> room" where
  "count_sent c n g =
    (case get_session c g of
       None \<Rightarrow> g
     | Some p \<Rightarrow> update_session p (\<lambda>s. s\<lparr>s_bytes_sent := s_bytes_sent s + of_nat n,
                                         s_packets_sent := s_packets_sent s + 1\<rparr>) g)"

definition send :: "'m server_env \<Rightarrow> u64 \<Rightarrow> ao_packet \<Rightarrow> 'm ao_server \<Rightarrow> 'm ao_server" where
  "send e c pkt s =
    (if \<not> se_has_send e then s
     else let serialized = serialize pkt
          in emit [Sent c serialized] (on_room (count_sent c (length serialized)) s))"

definition send_to_area :: "'m server_env \<Rightarrow> string \<Rightarrow> ao_packet \<Rightarrow> 'm ao_server \<Rightarrow> 'm ao_server" where
  "send_to_area e area pkt s =
    (if \<not> se_has_send e then s
     else emit (map (\<lambda>p. Sent (s_client_id (session_at p s)) (serialize pkt))
                 (filter (\<lambda>p. s_protocol (session_at p s) = ''ao2'') (sessions_in_area area (sv_room s)))) s)"

definition send_to_all :: "'m server_env \<Rightarrow> ao_packet \<Rightarrow> 'm ao_server \<Rightarrow> 'm ao_server" where
  "send_to_all e pkt s =
    (if \<not> se_has_send e then s else emit (map (\<lambda>(c, _). Sent c (serialize pkt)) (sv_proto s)) s)"

definition system_message :: "string \<Rightarrow> ao_packet" where
  "system_message msg = packet ''CT'' [''Server'', msg, ''1'']"

section \<open>Broadcasts of the room's events\<close>

definition bit_field :: "bool \<Rightarrow> string" where
  "bit_field b = (if b then ''1'' else ''0'')"

text \<open>All 32 fields of the echo of an IC message; the paired character is a placeholder.\<close>

definition ms_echo :: "ic_action \<Rightarrow> ao_packet" where
  "ms_echo a = packet ''MS''
     [show_int (ic_desk_mod a), ic_pre_emote a, ic_character a, ic_emote a, ic_message a, ic_side a,
      ic_sfx_name a, show_int (ic_emote_mod a), show_int (ic_char_id a), show_int (ic_sfx_delay a),
      show_int (ic_objection_mod a), show_int (ic_evidence_id a), bit_field (ic_flip a),
      bit_field (ic_realization a), show_int (ic_text_color a), ic_showname a, show_int (ic_other_charid a),
      [], [], ic_self_offset a, [], ''0'', bit_field (ic_immediate a), bit_field (ic_sfx_looping a),
      bit_field (ic_screenshake a), ic_frame_screenshake a, ic_frame_realization a, ic_frame_sfx a,
      bit_field (ic_additive a), ic_effects a, ic_blipname a, bit_field (ic_slide a)]"

definition broadcast_ic :: "'m server_env \<Rightarrow> string \<Rightarrow> ic_event \<Rightarrow> 'm ao_server \<Rightarrow> 'm ao_server" where
  "broadcast_ic e area evt = send_to_area e area (ms_echo (ice_action evt))"

definition broadcast_ooc :: "'m server_env \<Rightarrow> string \<Rightarrow> ooc_event \<Rightarrow> 'm ao_server \<Rightarrow> 'm ao_server" where
  "broadcast_ooc e area evt =
     send_to_area e area (packet ''CT'' [ooc_name (ooce_action evt), ooc_message (ooce_action evt), ''0''])"

definition broadcast_music :: "'m server_env \<Rightarrow> string \<Rightarrow> music_event \<Rightarrow> 'm ao_server \<Rightarrow> 'm ao_server" where
  "broadcast_music e area evt s =
    (let a = mue_action evt;
         sender_char_id = (case get_session (mu_sender_id a) (sv_room s) of
                             Some p \<Rightarrow> s_character_id (session_at p s) | None \<Rightarrow> - 1)
     in send_to_area e area (packet ''MC''
          [mu_track a, show_int sender_char_id, mu_showname a, bit_field (mu_looping a), show_int (mu_channel a),
           ''0'']) s)"

definition broadcast_char_select :: "'m server_env \<Rightarrow> char_select_event \<Rightarrow> 'm ao_server \<Rightarrow> 'm ao_server" where
  "broadcast_char_select e evt s =
    (case get_session (cse_client_id evt) (sv_room s) of
       None \<Rightarrow> s
     | Some p \<Rightarrow> send e (cse_client_id evt) (packet ''PV''
         [show_nat (unat (s_session_id (session_at p s))), ''CID'', show_int (cse_character_id evt)]) s)"

definition taken_fields :: "int list \<Rightarrow> string list" where
  "taken_fields ts = map (\<lambda>t. if t \<noteq> 0 then ''-1'' else ''0'') ts"

definition broadcast_taken :: "'m server_env \<Rightarrow> int list \<Rightarrow> 'm ao_server \<Rightarrow> 'm ao_server" where
  "broadcast_taken e ts s =
     fold (\<lambda>(c, _). send e c (packet ''CharsCheck'' (taken_fields ts))) (sv_proto s) s"

text \<open>
  The constructor registers the five broadcasts above with the room; \<open>deliver\<close> is the room's call
  of a registered callback. Callbacks of other backends are outputs.
\<close>

definition AO_CALLBACK :: nat where
  "AO_CALLBACK = 0"

definition server_new :: "room \<Rightarrow> 'm ao_server" where
  "server_new g =
    \<lparr>sv_room = add_chars_taken_broadcast AO_CALLBACK (add_music_broadcast AO_CALLBACK
                 (add_char_select_broadcast AO_CALLBACK (add_ooc_broadcast AO_CALLBACK
                   (add_ic_broadcast AO_CALLBACK g)))),
     sv_proto = [], sv_bans = None, sv_spam = None, sv_asn = None, sv_moderator = None, sv_users = None, sv_outs = [],
     sv_undef = False\<rparr>"

definition deliver :: "'m server_env \<Rightarrow> room_output \<Rightarrow> 'm ao_server \<Rightarrow> 'm ao_server" where
  "deliver e out s =
    (case out of
       IC_Out cb area evt \<Rightarrow> if cb = AO_CALLBACK then broadcast_ic e area evt s else emit [Room_Out out] s
     | OOC_Out cb area evt \<Rightarrow> if cb = AO_CALLBACK then broadcast_ooc e area evt s else emit [Room_Out out] s
     | CharSelect_Out cb evt \<Rightarrow> if cb = AO_CALLBACK then broadcast_char_select e evt s else emit [Room_Out out] s
     | Music_Out cb area evt \<Rightarrow> if cb = AO_CALLBACK then broadcast_music e area evt s else emit [Room_Out out] s
     | CharsTaken_Out cb ts \<Rightarrow> if cb = AO_CALLBACK then broadcast_taken e ts s else emit [Room_Out out] s)"

section \<open>Area state, player list and ARUP\<close>

definition evidence_packet :: "evidence_item list \<Rightarrow> ao_packet" where
  "evidence_packet evs = packet ''LE'' (map (\<lambda>ev. ev_name ev @ ''&'' @ ev_description ev @ ''&'' @ ev_image ev) evs)"

definition send_area_join_info :: "'m server_env \<Rightarrow> u64 \<Rightarrow> string \<Rightarrow> 'm ao_server \<Rightarrow> 'm ao_server" where
  "send_area_join_info e c area_name s =
    (case find_area_by_name area_name (sv_room s) of
       None \<Rightarrow> s
     | Some a \<Rightarrow>
         (let s1 = send e c (packet ''BN''
                [(if bg_name (as_background a) = [] then ''gs4'' else bg_name (as_background a)),
                 (if bg_position (as_background a) = [] then ''def'' else bg_position (as_background a))]) s;
              s2 = send e c (packet ''HP'' [''1'', show_int (hp_defense (as_hp a))]) s1;
              s3 = send e c (packet ''HP'' [''2'', show_int (hp_prosecution (as_hp a))]) s2
          in if as_evidence a \<noteq> [] then send e c (evidence_packet (as_evidence a)) s3 else s3))"

definition char_name_at :: "int \<Rightarrow> room \<Rightarrow> string option" where
  "char_name_at c g = (if 0 \<le> c \<and> c < int (length (characters g)) then Some (characters g ! nat c) else None)"

definition player_packets :: "room \<Rightarrow> session \<Rightarrow> ao_packet list" where
  "player_packets g x =
    (let sid = show_nat (unat (s_session_id x));
         area_idx = area_index (s_area x) g
     in [packet ''PR'' [sid, ''0'']]
        @ (if s_display_name x \<noteq> [] then [packet ''PU'' [sid, ''0'', s_display_name x]] else [])
        @ (case char_name_at (s_character_id x) g of Some n \<Rightarrow> [packet ''PU'' [sid, ''1'', n]] | None \<Rightarrow> [])
        @ (if 0 \<le> area_idx then [packet ''PU'' [sid, ''3'', show_int area_idx]] else []))"

definition send_player_list_snapshot :: "'m server_env \<Rightarrow> u64 \<Rightarrow> 'm ao_server \<Rightarrow> 'm ao_server" where
  "send_player_list_snapshot e c s =
     fold (\<lambda>p t. if \<not> s_joined (session_at p t) then t
                 else fold (send e c) (player_packets (sv_room t) (session_at p t)) t)
       (for_each_session (sv_room s)) s"

definition broadcast_player_add :: "'m server_env \<Rightarrow> u64 \<Rightarrow> 'm ao_server \<Rightarrow> 'm ao_server" where
  "broadcast_player_add e sid = send_to_all e (packet ''PR'' [show_nat (unat sid), ''0''])"

definition broadcast_player_remove :: "'m server_env \<Rightarrow> u64 \<Rightarrow> 'm ao_server \<Rightarrow> 'm ao_server" where
  "broadcast_player_remove e sid = send_to_all e (packet ''PR'' [show_nat (unat sid), ''1''])"

definition broadcast_player_update ::
  "'m server_env \<Rightarrow> u64 \<Rightarrow> int \<Rightarrow> string \<Rightarrow> 'm ao_server \<Rightarrow> 'm ao_server" where
  "broadcast_player_update e sid data_type_code text =
     send_to_all e (packet ''PU'' [show_nat (unat sid), show_int data_type_code, text])"

datatype ArupType = ARUP_PLAYERS | ARUP_STATUS | ARUP_CM | ARUP_LOCKED

definition arup_code :: "ArupType \<Rightarrow> int" where
  "arup_code t = (case t of ARUP_PLAYERS \<Rightarrow> 0 | ARUP_STATUS \<Rightarrow> 1 | ARUP_CM \<Rightarrow> 2 | ARUP_LOCKED \<Rightarrow> 3)"

definition lock_mode_text :: "AreaLockMode \<Rightarrow> string" where
  "lock_mode_text m = (case m of LM_FREE \<Rightarrow> ''FREE'' | LM_LOCKED \<Rightarrow> ''LOCKED'' | LM_SPECTATABLE \<Rightarrow> ''SPECTATABLE'')"

definition cm_step :: "room \<Rightarrow> u64 \<Rightarrow> string \<Rightarrow> string" where
  "cm_step g owner_id cms =
    (case get_session owner_id g of
       None \<Rightarrow> cms
     | Some p \<Rightarrow>
         (let x = heap g ! p;
              char_name = (case char_name_at (s_character_id x) g of Some n \<Rightarrow> n | None \<Rightarrow> s_display_name x)
          in (if cms \<noteq> [] then cms @ '', '' else cms)
             @ ''['' @ show_nat (unat (s_session_id x)) @ ''] '' @ char_name))"

definition arup_field :: "ArupType \<Rightarrow> room \<Rightarrow> string \<Rightarrow> string" where
  "arup_field t g area_name =
    (let area = find_area_by_name area_name g in
     case t of
       ARUP_PLAYERS \<Rightarrow>
         show_nat (length (filter (\<lambda>p. s_joined (heap g ! p) \<and> s_area (heap g ! p) = area_name) (for_each_session g)))
     | ARUP_STATUS \<Rightarrow> (case area of Some a \<Rightarrow> as_status a | None \<Rightarrow> ''IDLE'')
     | ARUP_CM \<Rightarrow>
         (case area of
            Some a \<Rightarrow>
              if as_cm_owners a \<noteq> {} then
                (let cms = fold (cm_step g) (sorted_list_of_set (as_cm_owners a)) []
                 in if cms = [] then ''FREE'' else cms)
              else ''FREE''
          | None \<Rightarrow> ''FREE'')
     | ARUP_LOCKED \<Rightarrow> (case area of Some a \<Rightarrow> lock_mode_text (as_lock_mode a) | None \<Rightarrow> ''FREE''))"

definition build_arup_fields :: "ArupType \<Rightarrow> room \<Rightarrow> string list" where
  "build_arup_fields t g = show_int (arup_code t) # map (arup_field t g) (areas g)"

definition broadcast_arup :: "'m server_env \<Rightarrow> ArupType \<Rightarrow> 'm ao_server \<Rightarrow> 'm ao_server" where
  "broadcast_arup e t s = send_to_all e (packet ''ARUP'' (build_arup_fields t (sv_room s))) s"

definition send_full_arup :: "'m server_env \<Rightarrow> u64 \<Rightarrow> 'm ao_server \<Rightarrow> 'm ao_server" where
  "send_full_arup e c s =
     fold (\<lambda>t s'. send e c (packet ''ARUP'' (build_arup_fields t (sv_room s'))) s')
       [ARUP_PLAYERS, ARUP_STATUS, ARUP_CM, ARUP_LOCKED] s"

section \<open>Connections\<close>

definition server_connected :: "'m server_env \<Rightarrow> u64 \<Rightarrow> 'm ao_server \<Rightarrow> 'm ao_server" where
  "server_connected e c s =
    (case create_session (se_steady_ns e) c ''ao2'' (sv_room s) of
       (p, g) \<Rightarrow>
         (let s1 = s\<lparr>sv_room := g,
                     sv_proto := (if map_of (sv_proto s) c = None then sv_proto s @ [(c, protocol_state_new)]
                                  else sv_proto s)\<rparr>;
              addr = client_addr e c;
              s2 = (if addr \<noteq> [] then on_session p (\<lambda>x. x\<lparr>s_ip_address := addr\<rparr>) s1 else s1)
          in send e c (packet ''decryptor'' [''NOENCRYPT'']) s2))"

text \<open>The last case master to leave frees the area.\<close>

definition drop_cm :: "u64 \<Rightarrow> area_state \<Rightarrow> area_state" where
  "drop_cm c a =
    (if c \<in> as_cm_owners a then
       (let a1 = a\<lparr>as_cm_owners := as_cm_owners a - {c}\<rparr> in
        if as_cm_owners a1 = {} then
          (let a2 = a1\<lparr>as_cm := []\<rparr>
           in if as_lock_mode a2 \<noteq> LM_FREE then a2\<lparr>as_lock_mode := LM_FREE, as_invited := {}\<rparr> else a2)
        else a1)
     else a)"

definition drop_cm_everywhere :: "u64 \<Rightarrow> room \<Rightarrow> room" where
  "drop_cm_everywhere c g = g\<lparr>area_states := (\<lambda>i. map_option (drop_cm c) (area_states g i))\<rparr>"

text \<open>Every area state was made for a name of \<open>areas\<close>, so the search by name sees them all.\<close>

definition is_cm_anywhere :: "u64 \<Rightarrow> room \<Rightarrow> bool" where
  "is_cm_anywhere c g =
     list_ex (\<lambda>n. case find_area_by_name n g of Some a \<Rightarrow> c \<in> as_cm_owners a | None \<Rightarrow> False) (areas g)"

definition server_disconnected :: "'m server_env \<Rightarrow> u64 \<Rightarrow> 'm ao_server \<Rightarrow> 'm ao_server" where
  "server_disconnected e c s =
    (let was_joined = (case get_session c (sv_room s) of Some p \<Rightarrow> s_joined (session_at p s) | None \<Rightarrow> False);
         was_cm = was_joined \<and> is_cm_anywhere c (sv_room s);
         s1 = (case get_session c (sv_room s) of
                 Some p \<Rightarrow>
                   if was_joined
                   then on_room (drop_cm_everywhere c) (broadcast_player_remove e (s_session_id (session_at p s)) s)
                   else s
               | None \<Rightarrow> s);
         s2 = on_room (destroy_session (se_token_hash e) c) s1;
         s3 = s2\<lparr>sv_proto := AList.delete c (sv_proto s2)\<rparr>
     in if was_joined then
          (let s4 = broadcast_arup e ARUP_PLAYERS s3
           in if was_cm then broadcast_arup e ARUP_LOCKED (broadcast_arup e ARUP_CM s4) else s4)
        else s3)"

end
