(* ===== verification/AO_Commands.thy ===== *)
theory AO_Commands
  imports AO_Server "HOL-Library.List_Lexorder" "HOL-Library.Char_ord"
begin

text \<open>
  The slash commands of the OOC channel: engine/game/CommandRegistry.cpp with
  include/game/CommandContext.h and CommandHandler.h, and the handlers under
  plugins/net/ao/commands. The context's callbacks are those that the AO2 handler installs. A
  command gets the index of the caller's session and the arguments (the first is its own name);
  its result is the list of clients to disconnect afterwards and the state.
\<close>

type_synonym 'm command = "'m server_env \<Rightarrow> nat \<Rightarrow> string list \<Rightarrow> 'm ao_server \<Rightarrow> u64 list \<times> 'm ao_server"

section \<open>Shared by the commands\<close>

abbreviation nl :: string where "nl \<equiv> [CHR 0x0A]"
abbreviation sq :: string where "sq \<equiv> [CHR 0x27]"
abbreviation dq :: string where "dq \<equiv> [CHR 0x22]"
abbreviation em_dash :: string where "em_dash \<equiv> [CHR 0xE2, CHR 0x80, CHR 0x94]"

definition say :: "'m server_env \<Rightarrow> nat \<Rightarrow> string \<Rightarrow> 'm ao_server \<Rightarrow> 'm ao_server" where
  "say e p msg s = send e (s_client_id (session_at p s)) (system_message msg) s"

definition say_to :: "'m server_env \<Rightarrow> u64 \<Rightarrow> string \<Rightarrow> 'm ao_server \<Rightarrow> 'm ao_server" where
  "say_to e c msg s = send e c (system_message msg) s"

text \<open>The remaining arguments with a space between them.\<close>

definition join_args :: "string list \<Rightarrow> string" where
  "join_args as = foldl (\<lambda>t a. (if t \<noteq> [] then t @ '' '' else t) @ a) [] as"

definition reason_args :: "string \<Rightarrow> nat \<Rightarrow> string list \<Rightarrow> string" where
  "reason_args deflt n args = (if length args > n then join_args (drop n args) else deflt)"

definition session_area :: "nat \<Rightarrow> 'm ao_server \<Rightarrow> area_state option" where
  "session_area p s = find_area_by_name (s_area (session_at p s)) (sv_room s)"

definition cm_or_mod :: "nat \<Rightarrow> area_state \<Rightarrow> 'm ao_server \<Rightarrow> bool" where
  "cm_or_mod p a s = (is_cm a (s_client_id (session_at p s)) \<or> s_moderator (session_at p s))"

text \<open>The area of the caller, if it is there and the caller may manage it.\<close>

definition managed_area ::
  "'m server_env \<Rightarrow> string \<Rightarrow> (area_state \<Rightarrow> 'm ao_server \<Rightarrow> 'm ao_server) \<Rightarrow> nat \<Rightarrow> 'm ao_server \<Rightarrow> 'm ao_server" where
  "managed_area e refusal f p s =
    (case session_area p s of
       None \<Rightarrow> s
     | Some a \<Rightarrow> if \<not> cm_or_mod p a s then say e p refusal s else f a s)"

definition on_own_area :: "nat \<Rightarrow> (area_state \<Rightarrow> area_state) \<Rightarrow> 'm ao_server \<Rightarrow> 'm ao_server" where
  "on_own_area p f s = on_area (s_area (session_at p s)) f s"

definition resolve_ip :: "string \<Rightarrow> room \<Rightarrow> string" where
  "resolve_ip target g =
    (if CHR ''.'' \<in> set target \<or> CHR '':'' \<in> set target then target
     else fold (\<lambda>p ip. if s_ipid (heap g ! p) = target \<and> s_ip_address (heap g ! p) \<noteq> []
                       then s_ip_address (heap g ! p) else ip) (for_each_session g) [])"

text \<open>The sessions with an IPID, in the order of the session map.\<close>

definition ipid_sessions :: "string \<Rightarrow> room \<Rightarrow> nat list" where
  "ipid_sessions ipid g = filter (\<lambda>p. s_ipid (heap g ! p) = ipid) (for_each_session g)"

text \<open>Send a packet to each of them; the clients are disconnected after the command.\<close>

definition send_and_close ::
  "'m server_env \<Rightarrow> ao_packet \<Rightarrow> nat list \<Rightarrow> 'm ao_server \<Rightarrow> u64 list \<times> 'm ao_server" where
  "send_and_close e pkt ps s =
    (map (\<lambda>p. s_client_id (session_at p s)) ps,
     fold (\<lambda>p t. send e (s_client_id (session_at p t)) pkt t) ps s)"

definition plain :: "'m ao_server \<Rightarrow> u64 list \<times> 'm ao_server" where
  "plain s = ([], s)"

section \<open>Areas\<close>

definition match_area :: "string \<Rightarrow> string list \<Rightarrow> string" where
  "match_area target as =
    (let m1 = (case find (\<lambda>n. n = target) as of Some n \<Rightarrow> n | None \<Rightarrow> []);
         m2 = (if m1 = [] then
                 (case find (\<lambda>n. map c_tolower n = map c_tolower target) as of Some n \<Rightarrow> n | None \<Rightarrow> [])
               else m1)
     in if m2 = [] then
          (case c_stoi target of
             Some idx \<Rightarrow> if 0 \<le> idx \<and> idx < int (length as) then as ! nat idx else []
           | None \<Rightarrow> [])
        else m2)"

definition cmd_area :: "'m command" where
  "cmd_area e p args s = plain
    (let target = join_args (tl args);
         matched = match_area target (areas (sv_room s))
     in if matched = [] then say e p (''Area not found: '' @ target) s
        else if (case find_area_by_name matched (sv_room s) of
                   Some a \<Rightarrow> \<not> can_enter a (s_client_id (session_at p s)) | None \<Rightarrow> False)
        then say e p (''Area '' @ matched @ '' is locked. You need an invite.'') s
        else
          (let s1 = on_session p (\<lambda>x. x\<lparr>s_area := matched\<rparr>) s;
               s2 = send_area_join_info e (s_client_id (session_at p s1)) matched s1
           in say e p (''Moved to '' @ matched @ ''.'') s2))"

text \<open>Lock the area in a mode and invite everyone who is in it.\<close>

definition lock_area :: "AreaLockMode \<Rightarrow> nat \<Rightarrow> 'm ao_server \<Rightarrow> 'm ao_server" where
  "lock_area m p s =
     on_own_area p (\<lambda>a. a\<lparr>as_lock_mode := m,
       as_invited := as_invited a \<union>
         set (map (\<lambda>q. s_client_id (session_at q s)) (sessions_in_area (s_area (session_at p s)) (sv_room s)))\<rparr>) s"

definition cmd_area_lock :: "'m command" where
  "cmd_area_lock e p args s = plain
    (managed_area e ''You must be CM or moderator to lock the area.''
      (\<lambda>a s. say e p ''Area locked. Current players have been invited.''
               (broadcast_arup e ARUP_LOCKED (lock_area LM_LOCKED p s))) p s)"

definition cmd_area_unlock :: "'m command" where
  "cmd_area_unlock e p args s = plain
    (managed_area e ''You must be CM or moderator to unlock the area.''
      (\<lambda>a s. say e p ''Area unlocked.''
               (broadcast_arup e ARUP_LOCKED
                 (on_own_area p (\<lambda>a. a\<lparr>as_lock_mode := LM_FREE, as_invited := {}\<rparr>) s))) p s)"

definition cmd_area_spectate :: "'m command" where
  "cmd_area_spectate e p args s = plain
    (managed_area e ''You must be CM or moderator to set area to spectatable.''
      (\<lambda>a s. say e p ''Area set to spectatable. Current players can speak, newcomers can only watch.''
               (broadcast_arup e ARUP_LOCKED (lock_area LM_SPECTATABLE p s))) p s)"

text \<open>The caller's own area is read again for every session, so it moves when the caller is kicked.\<close>

definition area_kick_step ::
  "'m server_env \<Rightarrow> nat \<Rightarrow> string \<Rightarrow> string \<Rightarrow> string \<Rightarrow> nat \<Rightarrow> int \<times> 'm ao_server \<Rightarrow> int \<times> 'm ao_server" where
  "area_kick_step e p name lobby ipid q st =
    (case st of (kicked, s) \<Rightarrow>
      (let x = session_at q s in
       if s_ipid x = ipid \<and> s_area x = s_area (session_at p s) then
         (let s1 = on_session q (\<lambda>x. x\<lparr>s_area := lobby\<rparr>) s;
              s2 = on_area name (\<lambda>a. a\<lparr>as_invited := as_invited a - {s_client_id x}\<rparr>) s1
          in (kicked + 1, say_to e (s_client_id x) ''You have been kicked from the area.'' s2))
       else st))"

definition cmd_area_kick :: "'m command" where
  "cmd_area_kick e p args s = plain
    (managed_area e ''You must be CM or moderator to area-kick.''
      (\<lambda>a s.
        let ipid = args ! 1;
            lobby = (if areas (sv_room s) = [] then [] else areas (sv_room s) ! 0);
            (kicked, s1) = fold (area_kick_step e p (s_area (session_at p s)) lobby ipid)
                             (for_each_session (sv_room s)) (0, s)
        in if kicked > 0 then
             say e p (''Kicked '' @ show_int kicked @ '' player(s) from the area.'') (broadcast_arup e ARUP_PLAYERS s1)
           else say e p (''No players with IPID '' @ ipid @ '' found in this area.'') s1) p s)"

definition cmd_status :: "'m command" where
  "cmd_status e p args s = plain
    (case session_area p s of
       None \<Rightarrow> s
     | Some a \<Rightarrow>
         (let status = map c_toupper (args ! 1) in
          if status \<notin> {''IDLE'', ''CASING'', ''RECESS'', ''LOOKING-FOR-PLAYERS'', ''GAMING''} then
            say e p ''Invalid status. Use: IDLE, CASING, RECESS, LOOKING-FOR-PLAYERS, GAMING'' s
          else
            say e p (''Area status set to '' @ status @ ''.'')
              (broadcast_arup e ARUP_STATUS (on_own_area p (\<lambda>a. a\<lparr>as_status := status\<rparr>) s))))"

definition player_line :: "bool \<Rightarrow> session \<Rightarrow> string" where
  "player_line with_ipid x =
     nl @ ''  '' @ (if s_display_name x = [] then ''(spectator)'' else s_display_name x)
     @ (if with_ipid then '' ['' @ s_ipid x @ '']'' else []) @ (if s_moderator x then '' [M]'' else [])"

definition cmd_getarea :: "'m command" where
  "cmd_getarea e p args s = plain
    (let name = s_area (session_at p s);
         here = map (\<lambda>q. session_at q s) (sessions_in_area name (sv_room s));
         info = (case session_area p s of
                   None \<Rightarrow> []
                 | Some a \<Rightarrow>
                     nl @ ''Status: '' @ as_status a @ '' | Lock: '' @ lock_mode_text (as_lock_mode a)
                     @ (if as_cm a \<noteq> [] then '' | CM: '' @ as_cm a else [])
                     @ (if bg_name (as_background a) \<noteq> [] then nl @ ''Background: '' @ bg_name (as_background a) else []))
     in say e p (''=== '' @ name @ '' ==='' @ info @ nl @ ''Players ('' @ show_nat (length here) @ ''):''
                 @ concat (map (player_line True) here)) s)"

definition area_line :: "room \<Rightarrow> nat \<Rightarrow> string" where
  "area_line g i =
    (let name = areas g ! i in
     nl @ ''  ['' @ show_nat i @ ''] '' @ name @ '' ('' @ show_nat (length (sessions_in_area name g)) @ '' players)''
     @ (case find_area_by_name name g of
          None \<Rightarrow> []
        | Some a \<Rightarrow>
            (if as_status a \<noteq> ''IDLE'' then '' ['' @ as_status a @ '']'' else [])
            @ (case as_lock_mode a of
                 LM_LOCKED \<Rightarrow> '' [LOCKED]'' | LM_SPECTATABLE \<Rightarrow> '' [SPECTATABLE]'' | LM_FREE \<Rightarrow> [])
            @ (if as_cm a \<noteq> [] then '' CM: '' @ as_cm a else [])))"

definition cmd_getareas :: "'m command" where
  "cmd_getareas e p args s = plain
    (say e p (''Areas:'' @ concat (map (area_line (sv_room s)) [0..<length (areas (sv_room s))])) s)"

definition cmd_online :: "'m command" where
  "cmd_online e p args s = plain
    (let name = s_area (session_at p s);
         here = map (\<lambda>q. session_at q s) (sessions_in_area name (sv_room s))
     in say e p (''Players in '' @ name @ '' ('' @ show_nat (length here) @ ''):''
                 @ concat (map (player_line False) here)) s)"

definition cmd_motd :: "'m command" where
  "cmd_motd e p args s = plain
    (let desc = room.server_description (sv_room s)
     in say e p (if desc = [] then ''No message of the day set.'' else desc) s)"

definition cmd_background :: "'m command" where
  "cmd_background e p args s = plain
    (case session_area p s of
       None \<Rightarrow> s
     | Some a \<Rightarrow>
         if as_bg_locked a \<and> \<not> s_moderator (session_at p s) \<and> \<not> is_cm a (s_client_id (session_at p s)) then
           say e p ''The background is locked in this area.'' s
         else
           (let bg = join_args (tl args);
                s1 = on_own_area p (\<lambda>a. a\<lparr>as_background := (as_background a)\<lparr>bg_name := bg\<rparr>\<rparr>) s
            in say e p (''Background changed to '' @ bg @ ''.'')
                 (send_to_area e (s_area (session_at p s1)) (packet ''BN'' [bg, ''def'']) s1)))"

definition cmd_lock_background :: "'m command" where
  "cmd_lock_background e p args s = plain
    (managed_area e ''You must be CM or moderator to lock the background.''
      (\<lambda>a s. say e p ''Background locked.'' (on_own_area p (\<lambda>a. a\<lparr>as_bg_locked := True\<rparr>) s)) p s)"

definition cmd_unlock_background :: "'m command" where
  "cmd_unlock_background e p args s = plain
    (managed_area e ''You must be CM or moderator to unlock the background.''
      (\<lambda>a s. say e p ''Background unlocked.'' (on_own_area p (\<lambda>a. a\<lparr>as_bg_locked := False\<rparr>) s)) p s)"

section \<open>Case masters\<close>

text \<open>
  A loop over the sessions with an IPID that writes the caller's area for each of them and may
  tell them; \<open>found\<close> is whether there was one.
\<close>

definition each_ipid ::
  "'m server_env \<Rightarrow> nat \<Rightarrow> (u64 \<Rightarrow> area_state \<Rightarrow> area_state) \<Rightarrow> string option \<Rightarrow> nat list \<Rightarrow> 'm ao_server \<Rightarrow> 'm ao_server" where
  "each_ipid e p f notice qs s =
    fold (\<lambda>q t. let c = s_client_id (session_at q t);
                    t1 = on_own_area p (f c) t
                in case notice of Some msg \<Rightarrow> say_to e c msg t1 | None \<Rightarrow> t1) qs s"

definition cmd_cm :: "'m command" where
  "cmd_cm e p args s = plain
    (case session_area p s of
       None \<Rightarrow> s
     | Some a \<Rightarrow>
         if length args > 1 then
           (if \<not> cm_or_mod p a s then say e p ''You must be CM or moderator to add other CMs.'' s
            else
              (let ipid = args ! 1;
                   qs = filter (\<lambda>q. s_area (session_at q s) = s_area (session_at p s)) (ipid_sessions ipid (sv_room s));
                   s1 = each_ipid e p (\<lambda>c a. a\<lparr>as_cm_owners := insert c (as_cm_owners a)\<rparr>)
                          (Some ''You are now a case master.'') qs s
               in if qs \<noteq> [] then say e p (''Added CM for IPID '' @ ipid @ ''.'') (broadcast_arup e ARUP_CM s1)
                  else say e p (''No player with IPID '' @ ipid @ '' in this area.'') s1))
         else
           (let x = session_at p s;
                s1 = on_own_area p (\<lambda>a. a\<lparr>as_cm_owners := insert (s_client_id x) (as_cm_owners a),
                                          as_cm := s_display_name x,
                                          as_invited := insert (s_client_id x) (as_invited a)\<rparr>) s
            in say e p (''You are now a case master of '' @ s_area x @ ''.'') (broadcast_arup e ARUP_CM s1)))"

definition cmd_uncm :: "'m command" where
  "cmd_uncm e p args s = plain
    (case session_area p s of
       None \<Rightarrow> s
     | Some a \<Rightarrow>
         if length args > 1 then
           (if \<not> s_moderator (session_at p s) then say e p ''You must be a moderator to remove other CMs.'' s
            else
              (let ipid = args ! 1;
                   qs = ipid_sessions ipid (sv_room s);
                   s1 = each_ipid e p (\<lambda>c a. a\<lparr>as_cm_owners := as_cm_owners a - {c}\<rparr>) None qs s
               in if qs \<noteq> [] then say e p (''Removed CM for IPID '' @ ipid @ ''.'') (broadcast_arup e ARUP_CM s1)
                  else say e p (''No player with IPID '' @ ipid @ '' found.'') s1))
         else if \<not> is_cm a (s_client_id (session_at p s)) then say e p ''You are not a CM of this area.'' s
         else
           (let c = s_client_id (session_at p s);
                s1 = on_own_area p (\<lambda>a. let a1 = a\<lparr>as_cm_owners := as_cm_owners a - {c}\<rparr>
                                        in if as_cm_owners a1 = {} then a1\<lparr>as_cm := []\<rparr> else a1) s
            in say e p ''You are no longer a case master.'' (broadcast_arup e ARUP_CM s1)))"

definition cmd_invite :: "'m command" where
  "cmd_invite e p args s = plain
    (managed_area e ''You must be CM or moderator to invite.''
      (\<lambda>a s.
        let ipid = args ! 1;
            qs = ipid_sessions ipid (sv_room s);
            s1 = each_ipid e p (\<lambda>c a. a\<lparr>as_invited := insert c (as_invited a)\<rparr>)
                   (Some (''You have been invited to '' @ s_area (session_at p s) @ ''.'')) qs s
        in if qs \<noteq> [] then say e p (''Invited IPID '' @ ipid @ ''.'') s1
           else say e p (''No player with IPID '' @ ipid @ '' found.'') s1) p s)"

definition cmd_uninvite :: "'m command" where
  "cmd_uninvite e p args s = plain
    (managed_area e ''You must be CM or moderator to uninvite.''
      (\<lambda>a s.
        let ipid = args ! 1;
            qs = ipid_sessions ipid (sv_room s);
            s1 = each_ipid e p (\<lambda>c a. a\<lparr>as_invited := as_invited a - {c}\<rparr>) None qs s
        in if qs \<noteq> [] then say e p (''Uninvited IPID '' @ ipid @ ''.'') s1
           else say e p (''No player with IPID '' @ ipid @ '' found.'') s1) p s)"

section \<open>Testimony\<close>

definition get_area_or_fail ::
  "'m server_env \<Rightarrow> (area_state \<Rightarrow> 'm ao_server \<Rightarrow> 'm ao_server) \<Rightarrow> nat \<Rightarrow> 'm ao_server \<Rightarrow> 'm ao_server" where
  "get_area_or_fail e f p s =
    (case session_area p s of None \<Rightarrow> say e p ''Area not found.'' s | Some a \<Rightarrow> f a s)"

definition require_cm ::
  "'m server_env \<Rightarrow> (area_state \<Rightarrow> 'm ao_server \<Rightarrow> 'm ao_server) \<Rightarrow> nat \<Rightarrow> 'm ao_server \<Rightarrow> 'm ao_server" where
  "require_cm e f p s =
    get_area_or_fail e (\<lambda>a s. if cm_or_mod p a s then f a s else say e p ''You must be CM or moderator.'' s) p s"

definition on_testimony :: "nat \<Rightarrow> (testimony_data \<Rightarrow> testimony_data) \<Rightarrow> 'm ao_server \<Rightarrow> 'm ao_server" where
  "on_testimony p f s = on_own_area p (\<lambda>a. a\<lparr>as_testimony := f (as_testimony a)\<rparr>) s"

definition statement_selected :: "testimony_data \<Rightarrow> bool" where
  "statement_selected t = (\<not> (tst_current_index t < 0 \<or> tst_current_index t \<ge> int (length (tst_statements t))))"

definition delete_statement :: "testimony_data \<Rightarrow> testimony_data" where
  "delete_statement t =
    (let t1 = t\<lparr>tst_statements := erase_at (nat (tst_current_index t)) (tst_statements t)\<rparr>
     in if tst_current_index t1 \<ge> int (length (tst_statements t1))
        then t1\<lparr>tst_current_index := int (length (tst_statements t1)) - 1\<rparr> else t1)"

definition cmd_testify :: "'m command" where
  "cmd_testify e p args s = plain
    (require_cm e
      (\<lambda>a s. say e p ''Testimony recording started. Each IC message will be recorded as a statement.''
               (on_testimony p (\<lambda>t. (testimony_reset t)\<lparr>tst_state := T_RECORDING\<rparr>) s)) p s)"

definition testimony_state_text :: "TestimonyState \<Rightarrow> string" where
  "testimony_state_text st =
    (case st of T_IDLE \<Rightarrow> ''IDLE'' | T_RECORDING \<Rightarrow> ''RECORDING'' | T_PLAYBACK \<Rightarrow> ''PLAYBACK''
     | T_UPDATE \<Rightarrow> ''UPDATE'' | T_ADD \<Rightarrow> ''ADD'')"

definition statement_line :: "testimony_data \<Rightarrow> nat \<Rightarrow> string" where
  "statement_line t i =
    (let st = tst_statements t ! i in
     nl @ ''  '' @ show_nat (i + 1) @ ''. '' @ (if int i = tst_current_index t then ''>> '' else [])
     @ (if length st > 60 then take 60 st @ ''...'' else st))"

definition cmd_testimony :: "'m command" where
  "cmd_testimony e p args s = plain
    (get_area_or_fail e
      (\<lambda>a s.
        let t = as_testimony a in
        if tst_statements t = [] then say e p ''No testimony recorded.'' s
        else say e p (''Testimony ('' @ testimony_state_text (tst_state t) @ ''), ''
               @ show_nat (length (tst_statements t)) @ '' statement(s):''
               @ concat (map (statement_line t) [0..<length (tst_statements t)])) s) p s)"

definition cmd_examine :: "'m command" where
  "cmd_examine e p args s = plain
    (require_cm e
      (\<lambda>a s. if tst_statements (as_testimony a) = [] then say e p ''No testimony to examine.'' s
              else say e p ''Cross-examination started. Use > and < in IC to navigate statements.''
                     (on_testimony p (\<lambda>t. t\<lparr>tst_state := T_PLAYBACK, tst_current_index := 0\<rparr>) s)) p s)"

definition cmd_pause :: "'m command" where
  "cmd_pause e p args s = plain
    (require_cm e
      (\<lambda>a s. say e p ''Testimony paused.'' (on_testimony p (\<lambda>t. t\<lparr>tst_state := T_IDLE\<rparr>) s)) p s)"

definition cmd_delete :: "'m command" where
  "cmd_delete e p args s = plain
    (require_cm e
      (\<lambda>a s. if \<not> statement_selected (as_testimony a) then say e p ''No statement selected to delete.'' s
              else say e p (''Statement deleted. ''
                     @ show_nat (length (tst_statements (delete_statement (as_testimony a)))) @ '' remaining.'')
                     (on_testimony p delete_statement s)) p s)"

definition cmd_update :: "'m command" where
  "cmd_update e p args s = plain
    (require_cm e
      (\<lambda>a s. if \<not> statement_selected (as_testimony a) then say e p ''No statement selected to update.'' s
              else say e p (''Send your next IC message to replace statement ''
                     @ show_int (tst_current_index (as_testimony a) + 1) @ ''.'')
                     (on_testimony p (\<lambda>t. t\<lparr>tst_state := T_UPDATE\<rparr>) s)) p s)"

definition cmd_add :: "'m command" where
  "cmd_add e p args s = plain
    (require_cm e
      (\<lambda>a s. say e p ''Send your next IC message to add a new statement.''
               (on_testimony p (\<lambda>t. t\<lparr>tst_state := T_ADD\<rparr>) s)) p s)"

end
