(* ===== verification/AO_Staff_Commands.thy ===== *)
theory AO_Staff_Commands
  imports AO_Commands
begin

text \<open>
  The commands of the staff under plugins/net/ao/commands: kicks and bans, networks, log-in and
  log-out, accounts; and CommandRegistry::try_dispatch, which checks permissions and runs a command.
\<close>

section \<open>Kicks and bans\<close>

definition say_closing :: "'m server_env \<Rightarrow> nat \<Rightarrow> string \<Rightarrow> u64 list \<times> 'm ao_server \<Rightarrow> u64 list \<times> 'm ao_server" where
  "say_closing e p msg r = (case r of (closes, s) \<Rightarrow> (closes, say e p msg s))"

definition cmd_kick :: "'m command" where
  "cmd_kick e p args s =
    (let ipid = args ! 1;
         qs = ipid_sessions ipid (sv_room s)
     in if qs \<noteq> [] then
          say_closing e p (''Kicked '' @ show_nat (length qs) @ '' session(s) for IPID '' @ ipid @ ''.'')
            (send_and_close e (packet ''KK'' [reason_args ''Kicked'' 2 args]) qs s)
        else plain (say e p (''No sessions found with IPID '' @ ipid @ ''.'') s))"

text \<open>The hardware id and the address that the sessions of an IPID have, the last non-empty one.\<close>

definition last_known :: "(session \<Rightarrow> string) \<Rightarrow> string \<Rightarrow> room \<Rightarrow> string" where
  "last_known f ipid g =
     fold (\<lambda>q v. if f (heap g ! q) \<noteq> [] then f (heap g ! q) else v) (ipid_sessions ipid g) []"

definition system_seconds :: "'m server_env \<Rightarrow> int" where
  "system_seconds e = ns_to_s (se_system_ns e)"

definition ban_of :: "'m server_env \<Rightarrow> string \<Rightarrow> string \<Rightarrow> string \<Rightarrow> int \<Rightarrow> room \<Rightarrow> ban_entry" where
  "ban_of e ipid rsn who dur g =
     ban_entry_new\<lparr>be_ipid := ipid, be_hdid := last_known s_hardware_id ipid g,
       be_ip := last_known s_ip_address ipid g, be_reason := rsn, be_moderator := who,
       be_timestamp := system_seconds e, be_duration := dur\<rparr>"

definition record_ban :: "ban_entry \<Rightarrow> ban_manager \<Rightarrow> 'm ao_server \<Rightarrow> 'm ao_server" where
  "record_ban b bm s = (case add_ban b bm of (bm', calls) \<Rightarrow> emit (map Ban_Out calls) (s\<lparr>sv_bans := Some bm'\<rparr>))"

definition cmd_ban :: "'m command" where
  "cmd_ban e p args s =
    (case sv_bans s of
       None \<Rightarrow> plain (say e p ''Ban system is not configured.'' s)
     | Some bm \<Rightarrow>
         (let ipid = args ! 1; duration_str = args ! 2 in
          case parse_ban_duration duration_str of
            None \<Rightarrow> plain (s\<lparr>sv_undef := True\<rparr>)
          | Some dur \<Rightarrow>
              if dur = - 1 then
                plain (say e p (''Invalid duration: '' @ duration_str @ ''. Use '' @ sq @ ''perma'' @ sq @ '', '' @ sq
                  @ ''30m'' @ sq @ '', '' @ sq @ ''1h'' @ sq @ '', '' @ sq @ ''2h30m'' @ sq @ '', etc.'') s)
              else
                (let rsn = reason_args ''Banned'' 3 args;
                     b = ban_of e ipid rsn (s_display_name (session_at p s)) dur (sv_room s);
                     ban_msg = rsn @ (if \<not> is_permanent b then '' (duration: '' @ duration_str @ '')'' else '' (permanent)'');
                     qs = ipid_sessions ipid (sv_room s)
                 in say_closing e p (''Banned IPID '' @ ipid @ '' ('' @ duration_str @ ''), kicked ''
                      @ show_nat (length qs) @ '' session(s).'')
                      (send_and_close e (packet ''KB'' [ban_msg]) qs (record_ban b bm s)))))"

definition cmd_unban :: "'m command" where
  "cmd_unban e p args s = plain
    (case sv_bans s of
       None \<Rightarrow> say e p ''Ban system is not configured.'' s
     | Some bm \<Rightarrow>
         (case remove_ban (args ! 1) bm of
            (ok, bm', calls) \<Rightarrow>
              (let s1 = emit (map Ban_Out calls) (s\<lparr>sv_bans := Some bm'\<rparr>)
               in say e p (if ok then ''Unbanned IPID '' @ args ! 1 @ ''.''
                           else ''No ban found for IPID '' @ args ! 1 @ ''.'') s1)))"

definition cmd_editban :: "'m command" where
  "cmd_editban e p args s = plain
    (case sv_bans s of
       None \<Rightarrow> say e p ''Ban system is not configured.'' s
     | Some bm \<Rightarrow>
         (let ipid = args ! 1; field = args ! 2; val = join_args (drop 3 args) in
          if field \<noteq> ''reason'' \<and> field \<noteq> ''duration'' then
            say e p (''Field must be '' @ sq @ ''reason'' @ sq @ '' or '' @ sq @ ''duration'' @ sq
              @ ''. Usage: /editban <ipid> <reason|duration> <value>'') s
          else if field = ''duration'' \<and> parse_ban_duration val = Some (- 1) then
            say e p (''Invalid duration: '' @ val @ ''. Use '' @ sq @ ''perma'' @ sq @ '', '' @ sq @ ''30m'' @ sq
              @ '', '' @ sq @ ''1h'' @ sq @ '', etc.'') s
          else if field = ''duration'' \<and> parse_ban_duration val = None then s\<lparr>sv_undef := True\<rparr>
          else
            (case update_ban ipid field val bm of
               None \<Rightarrow> s\<lparr>sv_undef := True\<rparr>
             | Some (ok, bm', calls) \<Rightarrow>
                 (let s1 = emit (map Ban_Out calls) (s\<lparr>sv_bans := Some bm'\<rparr>)
                  in say e p (if ok then ''Updated ban '' @ ipid @ '': '' @ field @ '' = '' @ val
                              else ''No active ban found for IPID '' @ ipid @ '', or invalid field.'') s1))))"

definition ban_line :: "int \<Rightarrow> ban_entry \<Rightarrow> string" where
  "ban_line now b =
     ''  IPID: '' @ be_ipid b
     @ (if be_hdid b \<noteq> [] then '' | HDID: '' @ be_hdid b else [])
     @ '' | '' @ format_ban_duration (be_duration b)
     @ (if \<not> is_permanent b \<and> be_duration b > 0 then
          (let remaining = (be_timestamp b + be_duration b) - now
           in if remaining > 0 then '' ('' @ format_ban_duration remaining @ '' left)'' else '' (expired)'')
        else [])
     @ (if be_reason b \<noteq> [] then '' | '' @ be_reason b else [])
     @ (if be_moderator b \<noteq> [] then '' | by '' @ be_moderator b else [])"

definition cmd_searchbans :: "'m command" where
  "cmd_searchbans e p args s = plain
    (case sv_bans s of
       None \<Rightarrow> say e p ''Ban system is not configured.'' s
     | Some bm \<Rightarrow>
         (let query = join_args (tl args);
              results = search_bans query 10 bm
          in if results = [] then say e p (''No bans matching '' @ dq @ query @ dq @ ''.'') s
             else fold (\<lambda>b. say e p (ban_line (system_seconds e) b)) results
                    (say e p (''Found '' @ show_nat (length results) @ '' ban(s) matching '' @ dq @ query @ dq @ '':'') s)))"

section \<open>Networks\<close>

text \<open>\<open>std::stoul\<close> cut down to 32 bits; a minus sign negates modulo \<open>2 ^ 64\<close>.\<close>

definition c_stoul_u32 :: "string \<Rightarrow> u32 option" where
  "c_stoul_u32 t =
    (let u = dropWhile c_isspace t;
         neg = (u \<noteq> [] \<and> hd u = CHR ''-'');
         v = (if u \<noteq> [] \<and> (hd u = CHR ''-'' \<or> hd u = CHR ''+'') then tl u else u);
         ds = takeWhile c_isdigit v
     in if ds = [] \<or> digits_value ds > 2 ^ 64 - 1 then None
        else Some (of_int (if neg then - digits_value ds else digits_value ds)))"

definition external :: "'m command" where
  "external e p args s = plain
    (case se_external e (session_at p s) args (sv_room s) (sv_moderator s) of
       (replies, m) \<Rightarrow> fold (say e p) replies (s\<lparr>sv_moderator := m\<rparr>))"

definition show_asn :: "u32 \<Rightarrow> string" where
  "show_asn n = ''AS'' @ show_nat (unat n)"

definition asn_list :: "'m server_env \<Rightarrow> nat \<Rightarrow> 'm ao_server \<Rightarrow> 'm ao_server" where
  "asn_list e p s =
    (case sv_asn s of
       None \<Rightarrow> say e p ''ASN reputation manager is not configured.'' s
     | Some m \<Rightarrow>
         (let flagged = list_flagged m in
          if flagged = [] then say e p ''No ASNs currently flagged.'' s
          else say e p (show_nat (length flagged) @ '' flagged ASN(s):'' @ nl
            @ concat (map (\<lambda>en. ''  '' @ show_asn (ae_asn en) @ '' ('' @ ae_as_org en @ '') '' @ em_dash @ '' ''
                @ asn_status_to_string (ae_status en)
                @ (if ae_block_reason en \<noteq> [] then '' ['' @ ae_block_reason en @ '']'' else []) @ nl) flagged)) s))"

definition asn_status :: "'m server_env \<Rightarrow> nat \<Rightarrow> string list \<Rightarrow> 'm ao_server \<Rightarrow> 'm ao_server" where
  "asn_status e p args s =
    (case sv_asn s of
       None \<Rightarrow> say e p ''ASN reputation manager is not configured.'' s
     | Some m \<Rightarrow>
         (case c_stoul_u32 (args ! 2) of
            None \<Rightarrow> say e p (''Invalid ASN number: '' @ args ! 2) s
          | Some asn \<Rightarrow>
              (case get_status asn m of
                 None \<Rightarrow> say e p (show_asn asn @ '': no reputation data recorded.'') s
               | Some en \<Rightarrow>
                   say e p (show_asn asn @ '' ('' @ ae_as_org en @ '')'' @ nl
                     @ ''Status: '' @ asn_status_to_string (ae_status en) @ nl
                     @ ''Total abuse events: '' @ show_int (ae_total_abuse_events en) @ nl
                     @ ''Unique abusive IPs (window): '' @ show_nat (length (ae_abusive_ips en)) @ nl
                     @ (if ae_block_reason en \<noteq> [] then ''Block reason: '' @ ae_block_reason en @ nl else [])) s)))"

definition asn_block :: "'m server_env \<Rightarrow> nat \<Rightarrow> string list \<Rightarrow> 'm ao_server \<Rightarrow> 'm ao_server" where
  "asn_block e p args s =
    (case sv_asn s of
       None \<Rightarrow> say e p ''ASN reputation manager is not configured.'' s
     | Some m \<Rightarrow>
         (case c_stoul_u32 (args ! 2) of
            None \<Rightarrow> say e p (''Invalid ASN number: '' @ args ! 2) s
          | Some asn \<Rightarrow>
              (case parse_ban_duration (args ! 3) of
                 None \<Rightarrow> s\<lparr>sv_undef := True\<rparr>
               | Some dur \<Rightarrow>
                   if dur = - 1 then say e p (''Invalid duration: '' @ args ! 3) s
                   else
                     (let rsn = reason_args (''Manually blocked by '' @ s_display_name (session_at p s)) 4 args;
                          s1 = s\<lparr>sv_asn := Some (asn_save_async ''asn_reputation.json''
                                   (block_asn (system_seconds e) asn [] rsn dur m))\<rparr>
                      in say e p (''Blocked '' @ show_asn asn @ '' ('' @ args ! 3 @ ''): '' @ rsn) s1))))"

definition asn_unblock :: "'m server_env \<Rightarrow> nat \<Rightarrow> string list \<Rightarrow> 'm ao_server \<Rightarrow> 'm ao_server" where
  "asn_unblock e p args s =
    (case sv_asn s of
       None \<Rightarrow> say e p ''ASN reputation manager is not configured.'' s
     | Some m \<Rightarrow>
         (case c_stoul_u32 (args ! 2) of
            None \<Rightarrow> say e p (''Invalid ASN number: '' @ args ! 2) s
          | Some asn \<Rightarrow>
              (case unblock_asn (system_seconds e) asn m of
                 (ok, m') \<Rightarrow>
                   if ok then say e p (''Unblocked '' @ show_asn asn)
                                (s\<lparr>sv_asn := Some (asn_save_async ''asn_reputation.json'' m')\<rparr>)
                   else say e p (show_asn asn @ '' is not blocked.'') s)))"

definition cmd_asn :: "'m command" where
  "cmd_asn e p args s =
    (let sub = args ! 1 in
     if sub = ''list'' then plain (asn_list e p s)
     else if sub = ''status'' \<and> length args \<ge> 3 then plain (asn_status e p args s)
     else if sub = ''block'' \<and> length args \<ge> 4 then plain (asn_block e p args s)
     else if sub = ''unblock'' \<and> length args \<ge> 3 then plain (asn_unblock e p args s)
     else external e p args s)"

text \<open>The lines of a text that are not empty.\<close>

definition getlines :: "string \<Rightarrow> string list" where
  "getlines t =
     filter (\<lambda>l. l \<noteq> []) (foldr (\<lambda>c ls. if c = CHR 0x0A then [] # ls else (c # hd ls) # tl ls) t [[]])"

definition cmd_reload :: "'m command" where
  "cmd_reload e p args s = plain
    (case se_reload e of
       None \<Rightarrow> say e p ''Reload not available (not wired by server).'' s
     | Some f \<Rightarrow>
         (let s1 = say e p ''Reloading configuration...'' s in
          case f (sv_room s1) of
            (summary, g) \<Rightarrow> fold (say e p) (getlines summary) (s1\<lparr>sv_room := g\<rparr>)))"

section \<open>Logging in and out\<close>

text \<open>
  \<open>1 << failures\<close> in 32 bits, capped at a minute; a shift by 32 or more is undefined.
\<close>

definition login_cooldown_seconds :: "int \<Rightarrow> int option" where
  "login_cooldown_seconds failures =
    (if failures \<le> 0 then Some 0
     else if failures \<ge> 32 then None
     else let secs = sint (push_bit (nat failures) (1 :: 32 word))
          in Some (if secs > 60 then 60 else secs))"

definition login_failed :: "'m server_env \<Rightarrow> nat \<Rightarrow> 'm ao_server \<Rightarrow> 'm ao_server" where
  "login_failed e p s =
     say e p ''Invalid credentials.''
       (on_session p (\<lambda>x. x\<lparr>s_login_failures := s_login_failures x + 1,
                           s_last_login_failure := se_steady_ns e\<rparr>) s)"

definition count_moderators :: "int \<Rightarrow> room \<Rightarrow> room" where
  "count_moderators n g = g\<lparr>stats := (stats g)\<lparr>st_moderators := st_moderators (stats g) + n\<rparr>\<rparr>"

definition log_in :: "nat \<Rightarrow> string \<Rightarrow> string \<Rightarrow> 'm ao_server \<Rightarrow> 'm ao_server" where
  "log_in p role who s =
     on_room (count_moderators 1)
       (on_session p (\<lambda>x. x\<lparr>s_moderator := True, s_acl_role := role, s_moderator_name := who,
                           s_login_failures := 0\<rparr>) s)"

definition hash_prefix :: string where
  "hash_prefix = ''sha256:''"

definition simple_password_matches :: "string \<Rightarrow> string \<Rightarrow> bool" where
  "simple_password_matches configured attempt =
    (if length configured > length hash_prefix \<and> take (length hash_prefix) configured = hash_prefix
     then sha256 attempt = drop (length hash_prefix) configured
     else attempt = configured)"

definition login_simple :: "'m server_env \<Rightarrow> nat \<Rightarrow> string list \<Rightarrow> 'm ao_server \<Rightarrow> 'm ao_server" where
  "login_simple e p args s =
    (let configured = mod_password (sv_room s) in
     if configured = [] then say e p ''Authentication is not configured on this server.'' s
     else if \<not> simple_password_matches configured (args ! 1) then login_failed e p s
     else say e p ''Logged in as moderator.'' (log_in p ''SUPER'' [] s))"

definition login_advanced :: "'m server_env \<Rightarrow> nat \<Rightarrow> string list \<Rightarrow> 'm ao_server \<Rightarrow> 'm ao_server" where
  "login_advanced e p args s =
    (if int (length args) - 1 < 2 then say e p ''Usage: /login <username> <password>'' s
     else case sv_users s of
            None \<Rightarrow> say e p ''Database is not available.'' s
          | Some us \<Rightarrow>
              (case get_user (args ! 1) us of
                 None \<Rightarrow> login_failed e p s
               | Some u \<Rightarrow>
                   if \<not> verify_password (args ! 2) (us_salt u) (us_password u) then login_failed e p s
                   else say e p (''Logged in as '' @ us_username u @ '' ['' @ us_acl u @ ''].'')
                          (log_in p (us_acl u) (us_username u) s)))"

definition cmd_login :: "'m command" where
  "cmd_login e p args s = plain
    (let x = session_at p s in
     if s_moderator x then say e p ''You are already logged in.'' s
     else case login_cooldown_seconds (s_login_failures x) of
            None \<Rightarrow> s\<lparr>sv_undef := True\<rparr>
          | Some cooldown \<Rightarrow>
              (let elapsed = se_steady_ns e - s_last_login_failure x in
               if cooldown > 0 \<and> elapsed < cooldown * 1000000000 then
                 say e p (''Too many failed attempts. Try again in ''
                   @ show_int (ns_to_s (cooldown * 1000000000 - elapsed)) @ ''s.'') s
               else if auth_type (sv_room s) = ADVANCED then login_advanced e p args s
               else login_simple e p args s))"

definition log_out :: "nat \<Rightarrow> 'm ao_server \<Rightarrow> 'm ao_server" where
  "log_out p s =
     on_room (count_moderators (- 1))
       (on_session p (\<lambda>x. x\<lparr>s_moderator := False, s_acl_role := [], s_moderator_name := [],
                           s_change_auth_started := False\<rparr>) s)"

definition cmd_logout :: "'m command" where
  "cmd_logout e p args s = plain (say e p ''Logged out.'' (log_out p s))"

section \<open>Accounts\<close>

definition with_users ::
  "'m server_env \<Rightarrow> nat \<Rightarrow> (user_entry list \<Rightarrow> 'm ao_server \<Rightarrow> u64 list \<times> 'm ao_server) \<Rightarrow> 'm ao_server \<Rightarrow> u64 list \<times> 'm ao_server" where
  "with_users e p f s =
    (case sv_users s of None \<Rightarrow> plain (say e p ''Database is not available.'' s) | Some us \<Rightarrow> f us s)"

definition quoted_user :: "string \<Rightarrow> string \<Rightarrow> string" where
  "quoted_user name rest = ''User '' @ sq @ name @ sq @ rest"

definition cmd_changeauth :: "'m command" where
  "cmd_changeauth e p args s = plain
    (if auth_type (sv_room s) = ADVANCED then say e p ''Already using advanced authentication.'' s
     else say e p (''WARNING: You are about to change the authentication system.'' @ nl
            @ ''This will switch from a single shared password to per-user database auth.'' @ nl
            @ ''Use /rootpass <password> to set the root account password and complete the switch.'')
            (on_session p (\<lambda>x. x\<lparr>s_change_auth_started := True\<rparr>) s))"

definition cmd_rootpass :: "'m command" where
  "cmd_rootpass e p args s =
    (if \<not> s_change_auth_started (session_at p s) then plain (say e p ''You must run /changeauth first.'' s)
     else with_users e p (\<lambda>us s.
       if length (args ! 1) < 8 then plain (say e p ''Password must be at least 8 characters.'' s)
       else
         (let salt = randbytes_hex (se_random e) 16;
              hash = pbkdf2_sha256_hex (args ! 1) salt 100000;
              (created, us') = create_user ''root'' salt hash ''SUPER'' us
          in if \<not> created then plain (say e p ''Failed to create root user (may already exist).'' s)
             else plain (say e p (''Root account created. Authentication switched to ADVANCED mode.'' @ nl
                    @ ''You have been logged out. Use /login root <password> to log back in.'')
                    (log_out p (on_room (\<lambda>g. g\<lparr>auth_type := ADVANCED\<rparr>) (s\<lparr>sv_users := Some us'\<rparr>)))))) s)"

definition cmd_adduser :: "'m command" where
  "cmd_adduser e p args s = with_users e p (\<lambda>us s.
     if \<not> is_valid_username (args ! 1) then
       plain (say e p ''Invalid username. Use 1-32 characters: letters, numbers, _ or -.'' s)
     else if length (args ! 2) < 8 then plain (say e p ''Password must be at least 8 characters.'' s)
     else
       (let salt = randbytes_hex (se_random e) 16;
            hash = pbkdf2_sha256_hex (args ! 2) salt 100000;
            (created, us') = create_user (args ! 1) salt hash ''NONE'' us
        in if \<not> created then plain (say e p (quoted_user (args ! 1) '' already exists.'') s)
           else plain (say e p (quoted_user (args ! 1) '' created.'') (s\<lparr>sv_users := Some us'\<rparr>)))) s"

text \<open>Disconnect the sessions that an account opened with a token.\<close>

definition token_sessions :: "string \<Rightarrow> room \<Rightarrow> nat list" where
  "token_sessions name g =
     filter (\<lambda>q. s_moderator_name (heap g ! q) = name \<and> s_auth_token_id (heap g ! q) \<noteq> []) (for_each_session g)"

definition revoke ::
  "'m server_env \<Rightarrow> string \<Rightarrow> string \<Rightarrow> user_entry list \<Rightarrow> 'm ao_server \<Rightarrow> u64 list \<times> 'm ao_server" where
  "revoke e name why us s =
     send_and_close e (packet ''KK'' [why]) (token_sessions name (sv_room s))
       (emit [Revoke_tokens name] (s\<lparr>sv_users := Some us\<rparr>))"

definition cmd_removeuser :: "'m command" where
  "cmd_removeuser e p args s = with_users e p (\<lambda>us s.
     let name = args ! 1 in
     if name = ''root'' then plain (say e p ''Cannot delete the root user.'' s)
     else (case delete_user name us of
             (deleted, us') \<Rightarrow>
               if \<not> deleted then plain (say e p (quoted_user name '' not found.'') s)
               else say_closing e p (quoted_user name '' deleted.'')
                      (revoke e name ''Your account has been deleted.'' us' s))) s"

definition cmd_setperms :: "'m command" where
  "cmd_setperms e p args s = with_users e p (\<lambda>us s.
     let name = args ! 1;
         role = map c_toupper (args ! 2);
         caller_perms = acl_permissions_for_role (s_acl_role (session_at p s))
     in if role \<noteq> ''SUPER'' \<and> role \<noteq> ''NONE'' then
          plain (say e p (''Unknown role '' @ sq @ role @ sq @ ''. Known roles: SUPER, NONE.'') s)
        else if acl_permissions_for_role role = ACL_SUPER \<and> \<not> has_permission caller_perms ACL_SUPER then
          plain (say e p ''Only SUPER users can assign the SUPER role.'' s)
        else if name = ''root'' then plain (say e p (''Cannot change the root user'' @ sq @ ''s role.'') s)
        else (case update_acl name role us of
                (updated, us') \<Rightarrow>
                  if \<not> updated then plain (say e p (quoted_user name '' not found.'') s)
                  else say_closing e p (''Set '' @ name @ sq @ ''s role to '' @ role @ ''.'')
                         (revoke e name ''Your permissions were updated. Please log in again.'' us' s))) s"

definition cmd_removeperms :: "'m command" where
  "cmd_removeperms e p args s = with_users e p (\<lambda>us s.
     let name = args ! 1 in
     if name = ''root'' then plain (say e p (''Cannot remove the root user'' @ sq @ ''s permissions.'') s)
     else (case update_acl name ''NONE'' us of
             (updated, us') \<Rightarrow>
               if \<not> updated then plain (say e p (quoted_user name '' not found.'') s)
               else say_closing e p (''Removed permissions from '' @ name @ ''.'')
                      (revoke e name ''Your permissions were updated. Please log in again.'' us' s))) s"

definition cmd_listusers :: "'m command" where
  "cmd_listusers e p args s = with_users e p (\<lambda>us s.
     if list_users us = [] then plain (say e p ''No registered users.'' s)
     else plain (say e p (''Registered users ('' @ show_nat (length us) @ ''):''
            @ concat (map (\<lambda>u. nl @ ''  '' @ u) (list_users us))) s)) s"

definition format_permissions :: "acl \<Rightarrow> string" where
  "format_permissions perms =
    (if perms = ACL_SUPER then ''Permissions: ALL (SUPER)''
     else if perms = ACL_NONE then ''Permissions: NONE''
     else ''Permissions:'' @ concat (map (\<lambda>q. if has_permission perms q then nl @ ''  '' @ permission_name q else [])
       [ACL_KICK, ACL_BAN, ACL_BGLOCK, ACL_MODIFY_USERS, ACL_CM, ACL_GLOBAL_TIMER, ACL_EVI_MOD, ACL_MOTD,
        ACL_ANNOUNCE, ACL_MODCHAT, ACL_MUTE, ACL_UNCM, ACL_SAVETEST, ACL_FORCE_CHARSELECT, ACL_BYPASS_LOCKS,
        ACL_IGNORE_BGLIST, ACL_SEND_NOTICE, ACL_JUKEBOX]))"

definition cmd_listperms :: "'m command" where
  "cmd_listperms e p args s =
    (let x = session_at p s; caller_perms = acl_permissions_for_role (s_acl_role x) in
     if length args = 1 then
       plain (if \<not> s_moderator x then say e p ''You are not logged in.'' s
              else say e p (''Your role: '' @ s_acl_role x @ nl @ format_permissions caller_perms) s)
     else if \<not> s_moderator x \<or> \<not> has_permission caller_perms ACL_MODIFY_USERS then
       plain (say e p ''Permission denied. You need the MODIFY_USERS permission.'' s)
     else with_users e p (\<lambda>us s.
       case get_user (args ! 1) us of
         None \<Rightarrow> plain (say e p (quoted_user (args ! 1) '' not found.'') s)
       | Some u \<Rightarrow> plain (say e p (args ! 1 @ sq @ ''s role: '' @ us_acl u @ nl
                     @ format_permissions (acl_permissions_for_role (us_acl u))) s)) s)"

text \<open>Whose password is to change: an error message, or the account.\<close>

definition changepass_target :: "string list \<Rightarrow> session \<Rightarrow> user_entry list \<Rightarrow> string + string" where
  "changepass_target args x us =
    (let caller_perms = acl_permissions_for_role (s_acl_role x);
         arg_count = int (length args) - 1
     in if arg_count = 2 \<and> s_moderator_name x \<noteq> [] then
          (if get_user (args ! 1) us \<noteq> None \<and> args ! 1 \<noteq> s_moderator_name x \<and> has_permission caller_perms ACL_SUPER
           then Inr (args ! 1)
           else case get_user (s_moderator_name x) us of
                  None \<Rightarrow> Inl ''User account not found.''
                | Some u \<Rightarrow>
                    (let computed = (if length (us_salt u) \<ge> 32 then pbkdf2_sha256_hex (args ! 1) (us_salt u) 100000
                                     else hmac_sha256_hex (us_salt u) (args ! 1))
                     in if computed \<noteq> us_password u then Inl ''Current password is incorrect.''
                        else Inr (s_moderator_name x)))
        else if arg_count \<ge> 2 then
          (if \<not> has_permission caller_perms ACL_SUPER
           then Inl (''Permission denied. Changing another user'' @ sq @ ''s password requires SUPER.'')
           else Inr (args ! 1))
        else Inl (''Usage: /changepass <old_password> <new_password>  OR  /changepass <username> <new_password>''))"

definition cmd_changepass :: "'m command" where
  "cmd_changepass e p args s = with_users e p (\<lambda>us s.
     case changepass_target args (session_at p s) us of
       Inl msg \<Rightarrow> plain (say e p msg s)
     | Inr target \<Rightarrow>
         if length (args ! 2) < 8 then plain (say e p ''Password must be at least 8 characters.'' s)
         else
           (let salt = randbytes_hex (se_random e) 16;
                hash = pbkdf2_sha256_hex (args ! 2) salt 100000;
                (updated, us') = update_password target salt hash us;
                s1 = s\<lparr>sv_users := Some us'\<rparr>
            in if \<not> updated then plain (say e p (quoted_user target '' not found.'') s1)
               else plain (say e p (if target = s_moderator_name (session_at p s) then ''Your password has been changed.''
                                    else ''Password changed for '' @ target @ ''.'') s1))) s"

end
