(* ===== verification/AO_Command_Registry.thy ===== *)
theory AO_Command_Registry
  imports AO_Staff_Commands
begin

text \<open>
  The registry of commands: include/game/CommandRegistry.h, CommandHandler.h, the registrations of
  plugins/net/ao/commands, and CommandRegistry::try_dispatch.
\<close>

record command_spec =
  cs_name :: string
  cs_required_permission :: acl
  cs_requires_moderator :: bool
  cs_min_args :: int
  cs_usage :: string

text \<open>By default a command needs a moderator when it needs a permission, and no arguments.\<close>

definition spec :: "string \<Rightarrow> acl \<Rightarrow> int \<Rightarrow> string \<Rightarrow> command_spec" where
  "spec n perm k u = \<lparr>cs_name = n, cs_required_permission = perm, cs_requires_moderator = (perm \<noteq> ACL_NONE),
     cs_min_args = k, cs_usage = u\<rparr>"

definition moderator_spec :: "string \<Rightarrow> int \<Rightarrow> string \<Rightarrow> command_spec" where
  "moderator_spec n k u = (spec n ACL_NONE k u)\<lparr>cs_requires_moderator := True\<rparr>"

text \<open>The declarations of the commands: name, permission, least number of arguments, usage.\<close>

definition spec_area :: command_spec where
  "spec_area = spec ''area'' ACL_NONE 1 ''/area <name>''"

definition spec_area_lock :: command_spec where
  "spec_area_lock = spec ''area_lock'' ACL_NONE 0 ''/area_lock''"

definition spec_area_unlock :: command_spec where
  "spec_area_unlock = spec ''area_unlock'' ACL_NONE 0 ''/area_unlock''"

definition spec_area_spectate :: command_spec where
  "spec_area_spectate = spec ''area_spectate'' ACL_NONE 0 ''/area_spectate''"

definition spec_area_kick :: command_spec where
  "spec_area_kick = spec ''area_kick'' ACL_NONE 1 ''/area_kick <ipid>''"

definition spec_background :: command_spec where
  "spec_background = spec ''background'' ACL_BGLOCK 1 ''/background <name>''"

definition spec_lock_background :: command_spec where
  "spec_lock_background = spec ''lock_background'' ACL_NONE 0 ''/lock_background''"

definition spec_unlock_background :: command_spec where
  "spec_unlock_background = spec ''unlock_background'' ACL_NONE 0 ''/unlock_background''"

definition spec_status :: command_spec where
  "spec_status = spec ''status'' ACL_NONE 1 ''/status <IDLE|CASING|RECESS|LOOKING-FOR-PLAYERS|GAMING>''"

definition spec_getarea :: command_spec where
  "spec_getarea = spec ''getarea'' ACL_NONE 0 ''/getarea''"

definition spec_getareas :: command_spec where
  "spec_getareas = spec ''getareas'' ACL_NONE 0 ''/getareas''"

definition spec_online :: command_spec where
  "spec_online = spec ''online'' ACL_NONE 0 ''/online''"

definition spec_motd :: command_spec where
  "spec_motd = spec ''motd'' ACL_NONE 0 ''/motd''"

definition spec_help :: command_spec where
  "spec_help = spec ''help'' ACL_NONE 0 ''/help''"

definition spec_cm :: command_spec where
  "spec_cm = spec ''cm'' ACL_NONE 0 ''/cm [ipid]''"

definition spec_uncm :: command_spec where
  "spec_uncm = spec ''uncm'' ACL_NONE 0 ''/uncm [ipid]''"

definition spec_invite :: command_spec where
  "spec_invite = spec ''invite'' ACL_NONE 1 ''/invite <ipid>''"

definition spec_uninvite :: command_spec where
  "spec_uninvite = spec ''uninvite'' ACL_NONE 1 ''/uninvite <ipid>''"

definition spec_testify :: command_spec where
  "spec_testify = spec ''testify'' ACL_NONE 0 ''/testify''"

definition spec_testimony :: command_spec where
  "spec_testimony = spec ''testimony'' ACL_NONE 0 ''/testimony''"

definition spec_examine :: command_spec where
  "spec_examine = spec ''examine'' ACL_NONE 0 ''/examine''"

definition spec_pause :: command_spec where
  "spec_pause = spec ''pause'' ACL_NONE 0 ''/pause''"

definition spec_delete :: command_spec where
  "spec_delete = spec ''delete'' ACL_NONE 0 ''/delete''"

definition spec_update :: command_spec where
  "spec_update = spec ''update'' ACL_NONE 0 ''/update''"

definition spec_add :: command_spec where
  "spec_add = spec ''add'' ACL_NONE 0 ''/add''"

definition spec_login :: command_spec where
  "spec_login = spec ''login'' ACL_NONE 1 ''/login <password>  OR  /login <username> <password>''"

definition spec_logout :: command_spec where
  "spec_logout = moderator_spec ''logout'' 0 ''/logout''"

definition spec_kick :: command_spec where
  "spec_kick = spec ''kick'' ACL_KICK 1 ''/kick <ipid> [reason]''"

definition spec_ban :: command_spec where
  "spec_ban = spec ''ban'' ACL_BAN 2 ''/ban <ipid> <duration> [reason]''"

definition spec_unban :: command_spec where
  "spec_unban = spec ''unban'' ACL_BAN 1 ''/unban <ipid>''"

definition spec_editban :: command_spec where
  "spec_editban = spec ''editban'' ACL_BAN 3 ''/editban <ipid> <reason|duration> <value>''"

definition spec_searchbans :: command_spec where
  "spec_searchbans = spec ''searchbans'' ACL_BAN 1
     (''/searchbans <query> '' @ em_dash
       @ '' search active bans by IPID, HDID, reason, ''
       @ ''or moderator (expired/invalidated bans are in the database only)'')"

definition spec_asn :: command_spec where
  "spec_asn = spec ''asn'' ACL_BAN 1
     (''/asn <ip_or_ipid> | /asn status <asn> | /asn block <asn> <duration> [reason] | ''
       @ ''/asn unblock <asn> | /asn list'')"

definition spec_firewall :: command_spec where
  "spec_firewall = spec ''firewall'' ACL_BAN 1
     ''/firewall list | /firewall add <ip> <duration> | /firewall remove <ip> | /firewall flush''"

definition spec_reputation :: command_spec where
  "spec_reputation = spec ''reputation'' ACL_BAN 1 ''/reputation <ip_or_ipid> | /reputation refresh <ip>''"

definition spec_modheat :: command_spec where
  "spec_modheat = spec ''modheat'' ACL_MUTE 1 ''/modheat <ipid> [reset]''"

definition spec_noheat :: command_spec where
  "spec_noheat = spec ''noheat'' ACL_MUTE 0 ''/noheat [ipid|off]''"

definition spec_reload :: command_spec where
  "spec_reload = spec ''reload'' ACL_SUPER 0 ''/reload''"

definition spec_changeauth :: command_spec where
  "spec_changeauth = spec ''changeauth'' ACL_SUPER 0 ''/changeauth''"

definition spec_rootpass :: command_spec where
  "spec_rootpass = spec ''rootpass'' ACL_SUPER 1 ''/rootpass <password>''"

definition spec_adduser :: command_spec where
  "spec_adduser = spec ''adduser'' ACL_MODIFY_USERS 2 ''/adduser <username> <password>''"

definition spec_removeuser :: command_spec where
  "spec_removeuser = spec ''removeuser'' ACL_MODIFY_USERS 1 ''/removeuser <username>''"

definition spec_setperms :: command_spec where
  "spec_setperms = spec ''setperms'' ACL_MODIFY_USERS 2 ''/setperms <username> <role>''"

definition spec_removeperms :: command_spec where
  "spec_removeperms = spec ''removeperms'' ACL_MODIFY_USERS 1 ''/removeperms <username>''"

definition spec_listusers :: command_spec where
  "spec_listusers = spec ''listusers'' ACL_MODIFY_USERS 0 ''/listusers''"

definition spec_listperms :: command_spec where
  "spec_listperms = spec ''listperms'' ACL_NONE 0 ''/listperms [username]''"

definition spec_changepass :: command_spec where
  "spec_changepass = moderator_spec ''changepass'' 2
     ''/changepass <old_password> <new_password>  OR  /changepass <username> <new_password>''"

definition area_command_specs :: "command_spec list" where
  "area_command_specs =
    [spec_area, spec_area_lock, spec_area_unlock, spec_area_spectate, spec_area_kick, spec_background,
     spec_lock_background, spec_unlock_background, spec_status, spec_getarea, spec_getareas, spec_online,
     spec_motd, spec_help, spec_cm, spec_uncm, spec_invite, spec_uninvite, spec_testify, spec_testimony,
     spec_examine, spec_pause, spec_delete, spec_update, spec_add]"

definition staff_command_specs :: "command_spec list" where
  "staff_command_specs =
    [spec_login, spec_logout, spec_kick, spec_ban, spec_unban, spec_editban, spec_searchbans, spec_asn,
     spec_firewall, spec_reputation, spec_modheat, spec_noheat, spec_reload, spec_changeauth, spec_rootpass,
     spec_adduser, spec_removeuser, spec_setperms, spec_removeperms, spec_listusers, spec_listperms,
     spec_changepass]"

lemmas command_spec_defs =
  spec_area_def spec_area_lock_def spec_area_unlock_def spec_area_spectate_def spec_area_kick_def
  spec_background_def spec_lock_background_def spec_unlock_background_def spec_status_def spec_getarea_def
  spec_getareas_def spec_online_def spec_motd_def spec_help_def spec_cm_def spec_uncm_def spec_invite_def
  spec_uninvite_def spec_testify_def spec_testimony_def spec_examine_def spec_pause_def spec_delete_def
  spec_update_def spec_add_def spec_login_def spec_logout_def spec_kick_def spec_ban_def spec_unban_def
  spec_editban_def spec_searchbans_def spec_asn_def spec_firewall_def spec_reputation_def spec_modheat_def
  spec_noheat_def spec_reload_def spec_changeauth_def spec_rootpass_def spec_adduser_def
  spec_removeuser_def spec_setperms_def spec_removeperms_def spec_listusers_def spec_listperms_def
  spec_changepass_def

definition command_specs :: "command_spec list" where
  "command_specs = area_command_specs @ staff_command_specs"

definition find_command :: "string \<Rightarrow> command_spec option" where
  "find_command n = find (\<lambda>c. cs_name c = n) command_specs"

definition all_commands :: "command_spec list" where
  "all_commands = sort_key cs_name command_specs"

definition cmd_help :: "'m command" where
  "cmd_help e p args s = plain
    (say e p (''Available commands:'' @ concat (map (\<lambda>c. nl @ ''  '' @ cs_usage c
        @ (if cs_requires_moderator c then '' [MOD]'' else [])) all_commands)) s)"

text \<open>The handlers of the area commands and of the staff commands, by name.\<close>

definition area_handlers :: "(string \<times> 'm command) list" where
  "area_handlers =
    [(''area'', cmd_area), (''area_lock'', cmd_area_lock), (''area_unlock'', cmd_area_unlock),
     (''area_spectate'', cmd_area_spectate), (''area_kick'', cmd_area_kick), (''background'', cmd_background),
     (''lock_background'', cmd_lock_background), (''unlock_background'', cmd_unlock_background),
     (''status'', cmd_status), (''getarea'', cmd_getarea), (''getareas'', cmd_getareas), (''online'', cmd_online),
     (''motd'', cmd_motd), (''help'', cmd_help), (''cm'', cmd_cm), (''uncm'', cmd_uncm), (''invite'', cmd_invite),
     (''uninvite'', cmd_uninvite), (''testify'', cmd_testify), (''testimony'', cmd_testimony),
     (''examine'', cmd_examine), (''pause'', cmd_pause), (''delete'', cmd_delete), (''update'', cmd_update),
     (''add'', cmd_add)]"

definition staff_handlers :: "(string \<times> 'm command) list" where
  "staff_handlers =
    [(''login'', cmd_login), (''logout'', cmd_logout), (''kick'', cmd_kick), (''ban'', cmd_ban),
     (''unban'', cmd_unban), (''editban'', cmd_editban), (''searchbans'', cmd_searchbans), (''asn'', cmd_asn),
     (''firewall'', external), (''reputation'', external), (''modheat'', external), (''noheat'', external),
     (''reload'', cmd_reload), (''changeauth'', cmd_changeauth), (''rootpass'', cmd_rootpass),
     (''adduser'', cmd_adduser), (''removeuser'', cmd_removeuser), (''setperms'', cmd_setperms),
     (''removeperms'', cmd_removeperms), (''listusers'', cmd_listusers), (''listperms'', cmd_listperms),
     (''changepass'', cmd_changepass)]"

definition execute :: "string \<Rightarrow> 'm command" where
  "execute n e p args s =
    (case map_of (area_handlers @ staff_handlers) n of Some f \<Rightarrow> f e p args s | None \<Rightarrow> plain s)"

section \<open>Dispatch\<close>

text \<open>The words that \<open>stream >> token\<close> reads.\<close>

function tokens :: "string \<Rightarrow> string list" where
  "tokens t =
    (let u = dropWhile c_isspace t in
     if u = [] then [] else takeWhile (\<lambda>c. \<not> c_isspace c) u # tokens (dropWhile (\<lambda>c. \<not> c_isspace c) u))"
  by auto
termination
proof (relation "measure length")
  fix t :: string and u
  assume u: "u = dropWhile c_isspace t" "u \<noteq> []"
  from u have "\<not> c_isspace (hd u)" by (metis hd_dropWhile)
  with u(2) have "length (dropWhile (\<lambda>c. \<not> c_isspace c) u) < length u"
    by (cases u) (simp_all add: le_imp_less_Suc length_dropWhile_le)
  moreover have "length u \<le> length t" by (simp add: u(1) length_dropWhile_le)
  ultimately show "(dropWhile (\<lambda>c. \<not> c_isspace c) u, t) \<in> measure length" by simp
qed simp

declare tokens.simps [simp del]

text \<open>What stands between a session and a command: the refusal, or none.\<close>

definition permission_refusal :: "command_spec \<Rightarrow> session \<Rightarrow> string option" where
  "permission_refusal c x =
    (if cs_required_permission c \<noteq> ACL_NONE then
       (if \<not> s_moderator x then Some ''Permission denied. You must be logged in.''
        else if \<not> has_permission (acl_permissions_for_role (s_acl_role x)) (cs_required_permission c) then
          Some (''Permission denied. You need the '' @ permission_name (cs_required_permission c) @ '' permission.'')
        else None)
     else if cs_requires_moderator c \<and> \<not> s_moderator x then
       Some ''Permission denied. You must be logged in as a moderator.''
     else None)"

definition command_args :: "string \<Rightarrow> string list" where
  "command_args msg =
    (case tokens (tl msg) of [] \<Rightarrow> [] | n # rest \<Rightarrow> map c_tolower n # rest)"

text \<open>The first component is whether the message was a command; then the clients to disconnect.\<close>

definition try_dispatch ::
  "'m server_env \<Rightarrow> nat \<Rightarrow> string \<Rightarrow> 'm ao_server \<Rightarrow> bool \<times> u64 list \<times> 'm ao_server" where
  "try_dispatch e p msg s =
    (if msg = [] \<or> hd msg \<noteq> CHR ''/'' then (False, [], s)
     else
       let args = command_args msg in
       if args = [] then (False, [], s)
       else
         (True,
          (case find_command (hd args) of
             None \<Rightarrow> plain (say e p (''Unknown command: /'' @ hd args @ ''. Type /help for a list.'') s)
           | Some c \<Rightarrow>
               (case permission_refusal c (session_at p s) of
                  Some refusal \<Rightarrow> plain (say e p refusal s)
                | None \<Rightarrow>
                    if int (length args) - 1 < cs_min_args c then plain (say e p (''Usage: '' @ cs_usage c) s)
                    else execute (hd args) e p args s))))"

end
