(* ===== verification/AO_Handlers.thy ===== *)
theory AO_Handlers
  imports AO_Command_Registry
begin

text \<open>
  What the server does with a packet: plugins/net/ao/ServerPacketBehavior.cpp, one handler for each
  packet class, and the dispatch and framing of AOServer.cpp (\<open>dispatch\<close>, \<open>on_client_message\<close>). A
  handler gets the index of the session of the sender.
\<close>

section \<open>Handshake and loading\<close>

definition server_error :: "string \<Rightarrow> ao_packet" where
  "server_error msg = system_message (''[ERROR] '' @ msg)"

definition set_phase :: "u64 \<Rightarrow> protocol_phase \<Rightarrow> 'm ao_server \<Rightarrow> 'm ao_server" where
  "set_phase c ph s =
    (case get_protocol_state c s of Some ps \<Rightarrow> set_protocol_state c (ps\<lparr>ps_state := ph\<rparr>) s | None \<Rightarrow> s)"

definition in_phase :: "u64 \<Rightarrow> protocol_phase \<Rightarrow> 'm ao_server \<Rightarrow> bool" where
  "in_phase c ph s = (case get_protocol_state c s of Some ps \<Rightarrow> ps_state ps = ph | None \<Rightarrow> False)"

definition close_now :: "'m server_env \<Rightarrow> u64 \<Rightarrow> 'm ao_server \<Rightarrow> 'm ao_server" where
  "close_now e c s = (if se_ws_addr e \<noteq> None then emit [Closed c] s else s)"

definition close_deferred :: "'m server_env \<Rightarrow> u64 list \<Rightarrow> 'm ao_server \<Rightarrow> 'm ao_server" where
  "close_deferred e cs s = (if se_ws_addr e \<noteq> None then emit (map Close_deferred cs) s else s)"

definition register_hardware :: "'m server_env \<Rightarrow> nat \<Rightarrow> string \<Rightarrow> 'm ao_server \<Rightarrow> 'm ao_server" where
  "register_hardware e p hdid s =
    (let c = s_client_id (session_at p s);
         ip = client_addr e c;
         s1 = (case get_protocol_state c s of
                 Some ps \<Rightarrow> set_protocol_state c (ps\<lparr>ps_hardware_id := hdid\<rparr>) s | None \<Rightarrow> s);
         s2 = on_session p (\<lambda>x. x\<lparr>s_hardware_id := hdid\<rparr>) s1
     in if ip \<noteq> [] then on_session p (\<lambda>x. x\<lparr>s_ip_address := ip, s_ipid := take 8 (sha256 ip)\<rparr>) s2 else s2)"

text \<open>The ban that keeps a session out, if there is one.\<close>

definition ban_for :: "'m server_env \<Rightarrow> nat \<Rightarrow> 'm ao_server \<Rightarrow> ban_entry option" where
  "ban_for e p s =
    (case sv_bans s of
       None \<Rightarrow> None
     | Some bm \<Rightarrow> check_ban (se_system_ns e) (s_ipid (session_at p s)) (s_hardware_id (session_at p s)) bm)"

definition asn_is_blocked :: "'m server_env \<Rightarrow> u32 \<Rightarrow> 'm ao_server \<Rightarrow> bool" where
  "asn_is_blocked e asn s =
    (case sv_asn s of None \<Rightarrow> False | Some m \<Rightarrow> check_blocked (system_seconds e) asn m \<noteq> None)"

definition cached_asn :: "'m server_env \<Rightarrow> string \<Rightarrow> u32 option" where
  "cached_asn e ip = (case se_rep_cached e of None \<Rightarrow> None | Some f \<Rightarrow> f ip)"

text \<open>The reputation service's late answer, on its own thread.\<close>

definition reputation_answer :: "'m server_env \<Rightarrow> u64 \<Rightarrow> u32 \<Rightarrow> 'm ao_server \<Rightarrow> 'm ao_server" where
  "reputation_answer e c asn s = (if asn_is_blocked e asn s then close_deferred e [c] s else s)"

text \<open>Tell the spam detector; \<open>None\<close> is the overrun of one of its rings.\<close>

definition register_connection :: "'m server_env \<Rightarrow> nat \<Rightarrow> string \<Rightarrow> u32 \<Rightarrow> 'm ao_server \<Rightarrow> 'm ao_server option" where
  "register_connection e p ip asn s =
    (let x = session_at p s in
     case sv_spam s of
       None \<Rightarrow> Some s
     | Some sd \<Rightarrow>
         (case on_connection (se_spam_ms e) (s_ipid x) ip asn (s_hardware_id x) [] sd of
            None \<Rightarrow> None
          | Some (_, sd1, calls) \<Rightarrow>
              Some (emit (map Spam_Out calls)
                (s\<lparr>sv_spam := Some (record_join_time (se_spam_ms e) (s_ipid x) sd1)\<rparr>))))"

definition accept_client :: "'m server_env \<Rightarrow> nat \<Rightarrow> 'm ao_server \<Rightarrow> 'm ao_server" where
  "accept_client e p s =
    (let c = s_client_id (session_at p s);
         s1 = send e c (packet ''ID'' [show_nat (unat (s_session_id (session_at p s))), ''kagami'', se_version e]) s;
         url = room.asset_url (sv_room s1);
         s2 = (if url \<noteq> [] then send e c (packet ''ASS'' [url]) s1 else s1)
     in set_phase c P_IDENTIFIED s2)"

definition handle_HI :: "'m server_env \<Rightarrow> nat \<Rightarrow> string \<Rightarrow> 'm ao_server \<Rightarrow> 'm ao_server" where
  "handle_HI e p hdid s =
    (let c = s_client_id (session_at p s) in
     if \<not> in_phase c P_CONNECTED s then
       send e c (server_error (''Unexpected packet '' @ dq @ ''HI'' @ dq @ '' in current state'')) s
     else
       let s1 = register_hardware e p hdid s in
       case ban_for e p s1 of
         Some b \<Rightarrow> close_now e c (send e c (packet ''KB'' [be_reason b]) s1)
       | None \<Rightarrow>
           (let ip = client_addr e c;
                s2 = (if se_rep_cached e \<noteq> None then emit [Reputation_lookup ip] s1 else s1);
                asn = (case cached_asn e ip of Some n \<Rightarrow> n | None \<Rightarrow> 0)
            in if cached_asn e ip \<noteq> None \<and> asn_is_blocked e asn s2 then
                 close_now e c (send e c (packet ''KB'' [''Connection blocked (network reputation)'']) s2)
               else
                 (case register_connection e p ip asn s2 of
                    None \<Rightarrow> s2\<lparr>sv_undef := True\<rparr>
                  | Some s3 \<Rightarrow> accept_client e p s3)))"

definition server_features :: "string list" where
  "server_features =
    [''noencryption'', ''yellowtext'', ''flipping'', ''customobjections'', ''fastloading'', ''deskmod'',
     ''evidence'', ''cccc_ic_support'', ''arup'', ''looping_sfx'', ''additive'', ''effects'', ''expanded_desk_mods'']"

definition handle_ID_client :: "'m server_env \<Rightarrow> nat \<Rightarrow> string \<Rightarrow> string \<Rightarrow> 'm ao_server \<Rightarrow> 'm ao_server" where
  "handle_ID_client e p sw ver s =
    (let c = s_client_id (session_at p s) in
     if \<not> in_phase c P_IDENTIFIED s then
       send e c (server_error (''Unexpected packet '' @ dq @ ''ID'' @ dq @ '' in current state'')) s
     else
       (let s1 = on_session p (\<lambda>x. x\<lparr>s_client_software := sw @ '' '' @ ver\<rparr>) s;
            g = sv_room s1;
            s2 = send e c (packet ''PN'' [show_nat (unat (session_count g)), show_int (room.max_players g),
                   room.server_description g]) s1;
            s3 = send e c (packet ''FL'' server_features) s2
        in set_phase c P_LOADING s3))"

definition handle_askchaa :: "'m server_env \<Rightarrow> nat \<Rightarrow> 'm ao_server \<Rightarrow> 'm ao_server" where
  "handle_askchaa e p s =
    (let g = sv_room s in
     send e (s_client_id (session_at p s))
       (packet ''SI'' [show_nat (length (characters g)), ''0'', show_nat (length (areas g) + length (music g))]) s)"

definition handle_RC :: "'m server_env \<Rightarrow> nat \<Rightarrow> 'm ao_server \<Rightarrow> 'm ao_server" where
  "handle_RC e p s = send e (s_client_id (session_at p s)) (packet ''SC'' (characters (sv_room s))) s"

definition handle_RM :: "'m server_env \<Rightarrow> nat \<Rightarrow> 'm ao_server \<Rightarrow> 'm ao_server" where
  "handle_RM e p s =
     send e (s_client_id (session_at p s)) (packet ''SM'' (areas (sv_room s) @ music (sv_room s))) s"

definition count_joined :: "room \<Rightarrow> room" where
  "count_joined g = g\<lparr>stats := (stats g)\<lparr>st_joined := st_joined (stats g) + 1\<rparr>\<rparr>"

definition handle_RD :: "'m server_env \<Rightarrow> nat \<Rightarrow> 'm ao_server \<Rightarrow> 'm ao_server" where
  "handle_RD e p s =
    (let c = s_client_id (session_at p s) in
     if get_protocol_state c s = None then s
     else
       (let s1 = on_room count_joined (on_session p (\<lambda>x. x\<lparr>s_joined := True\<rparr>) (set_phase c P_JOINED s));
            x = session_at p s1;
            s2 = send e c (packet ''CharsCheck'' (taken_fields (char_taken (sv_room s1)))) s1;
            s3 = send e c (packet ''DONE'' []) s2;
            s4 = send_area_join_info e c (s_area x) s3;
            s5 = broadcast_player_add e (s_session_id x) (send_player_list_snapshot e c s4);
            area_idx = area_index (s_area x) (sv_room s5);
            s6 = (if 0 \<le> area_idx then broadcast_player_update e (s_session_id x) 3 (show_int area_idx) s5 else s5);
            s7 = broadcast_arup e ARUP_PLAYERS (send_full_arup e c s6);
            g = sv_room s7
        in if room.server_description g \<noteq> [] then
             send e c (packet ''CT'' [server_name g, room.server_description g, ''1'']) s7
           else s7))"

section \<open>Characters\<close>

definition deliver_all :: "'m server_env \<Rightarrow> room_output list \<Rightarrow> 'm ao_server \<Rightarrow> 'm ao_server" where
  "deliver_all e outs s = fold (deliver e) outs s"

definition handle_CC :: "'m server_env \<Rightarrow> nat \<Rightarrow> string list \<Rightarrow> 'm ao_server \<Rightarrow> 'm ao_server" where
  "handle_CC e p fs s =
    (let x = session_at p s in
     if \<not> s_joined x then s
     else
       case (if length fs \<ge> 2 then c_stoi (fs ! 1) else Some (- 1)) of
         None \<Rightarrow> s
       | Some requested \<Rightarrow>
           (case handle_char_select \<lparr>cs_sender_id = s_client_id x, cs_character_id = requested\<rparr> (sv_room s) of
              None \<Rightarrow> s\<lparr>sv_undef := True\<rparr>
            | Some (ok, g, outs) \<Rightarrow>
                (let s1 = deliver_all e outs (s\<lparr>sv_room := g\<rparr>);
                     char_name = (case char_name_at requested (sv_room s1) of Some n \<Rightarrow> n | None \<Rightarrow> [])
                 in if ok then broadcast_player_update e (s_session_id x) 1 char_name s1 else s1)))"

section \<open>Moderation verdicts\<close>

datatype content_outcome = Pass | Censor | Stop

definition mute_suffix :: "int option \<Rightarrow> string" where
  "mute_suffix info =
    (case info of
       None \<Rightarrow> []
     | Some n \<Rightarrow> if n > 0 then '' ('' @ show_int n @ ''s remaining)'' else if n < 0 then '' (permanent)'' else [])"

definition send_mod_notice :: "'m server_env \<Rightarrow> nat \<Rightarrow> 'm \<Rightarrow> moderation_verdict \<Rightarrow> 'm ao_server \<Rightarrow> 'm ao_server" where
  "send_mod_notice e p m v s =
    (let x = session_at p s;
         what = (case mv_action v of
                   MA_CENSOR \<Rightarrow> Some ''your message was filtered''
                 | MA_DROP \<Rightarrow> Some ''your message was blocked''
                 | MA_MUTE \<Rightarrow> Some ''you have been muted''
                 | _ \<Rightarrow> None)
     in case what of
          None \<Rightarrow> s
        | Some w \<Rightarrow>
            send e (s_client_id x) (system_message (''[Content moderation] '' @ w
              @ (if mv_reason v \<noteq> [] then '': '' @ mv_reason v else [])
              @ (if mv_action v = MA_MUTE then mute_suffix (se_mute_info e (s_ipid x) m) else []))) s)"

definition content_ban :: "'m server_env \<Rightarrow> session \<Rightarrow> moderation_verdict \<Rightarrow> ban_entry" where
  "content_ban e x v =
     ban_entry_new\<lparr>be_ipid := s_ipid x, be_ip := s_ip_address x, be_hdid := s_hardware_id x,
       be_reason := ''[auto] content: '' @ mv_reason v, be_moderator := ''ContentModerator'',
       be_timestamp := system_seconds e, be_duration := (if mv_action v = MA_PERMA_BAN then - 2 else 24 * 60 * 60)\<rparr>"

definition apply_content_verdict ::
  "'m server_env \<Rightarrow> nat \<Rightarrow> 'm \<Rightarrow> moderation_verdict \<Rightarrow> 'm ao_server \<Rightarrow> content_outcome \<times> 'm ao_server" where
  "apply_content_verdict e p m v s =
    (let x = session_at p s; c = s_client_id x;
         notice = ''Content moderation: '' @ mv_reason v in
     case mv_action v of
       MA_NONE \<Rightarrow> (Pass, s)
     | MA_LOG \<Rightarrow> (Pass, s)
     | MA_CENSOR \<Rightarrow> (Censor, send_mod_notice e p m v s)
     | MA_DROP \<Rightarrow> (Stop, send_mod_notice e p m v s)
     | MA_MUTE \<Rightarrow> (Stop, send_mod_notice e p m v s)
     | MA_KICK \<Rightarrow> (Stop, close_deferred e [c] (send e c (packet ''KK'' [notice]) s))
     | _ \<Rightarrow>
         (let s1 = (case sv_bans s of Some bm \<Rightarrow> record_ban (content_ban e x v) bm s | None \<Rightarrow> s)
          in (Stop, close_deferred e [c] (send e c (packet ''KB'' [notice]) s1))))"

text \<open>Ask the moderator, if there is one, and apply its verdict.\<close>

definition moderate ::
  "'m server_env \<Rightarrow> nat \<Rightarrow> string \<Rightarrow> string \<Rightarrow> 'm ao_server \<Rightarrow> content_outcome \<times> 'm ao_server" where
  "moderate e p channel msg s =
    (case sv_moderator s of
       None \<Rightarrow> (Pass, s)
     | Some m \<Rightarrow>
         (let x = session_at p s in
          case se_check e (s_ipid x) channel msg (s_area x) m of
            (v, m') \<Rightarrow> apply_content_verdict e p m' v (s\<lparr>sv_moderator := Some m'\<rparr>)))"

section \<open>In-character messages\<close>

text \<open>The raw fields at the client's positions; the typed members of the packet are not used.\<close>

definition field_at :: "string list \<Rightarrow> nat \<Rightarrow> string" where
  "field_at fs i = (if i < length fs then fs ! i else [])"

definition int_at :: "string list \<Rightarrow> nat \<Rightarrow> int \<Rightarrow> int" where
  "int_at fs i deflt =
    (if length fs \<le> i \<or> fs ! i = [] then deflt else case c_stoi (fs ! i) of Some v \<Rightarrow> v | None \<Rightarrow> deflt)"

definition bit_at :: "string list \<Rightarrow> nat \<Rightarrow> bool" where
  "bit_at fs i = (i < length fs \<and> fs ! i = ''1'')"

definition ms_action :: "u64 \<Rightarrow> string list \<Rightarrow> ic_action" where
  "ms_action c fs =
    \<lparr>ic_sender_id = c, ic_character = field_at fs 2, ic_emote = field_at fs 3, ic_message = field_at fs 4,
     ic_side = field_at fs 5, ic_showname = field_at fs 15, ic_pre_emote = field_at fs 1,
     ic_emote_mod = int_at fs 7 0, ic_char_id = int_at fs 8 0,
     ic_desk_mod = (if field_at fs 0 = ''chat'' then - 1 else int_at fs 0 0), ic_flip = bit_at fs 12,
     ic_text_color = int_at fs 14 0, ic_objection_mod = int_at fs 10 0, ic_evidence_id = int_at fs 11 0,
     ic_realization = bit_at fs 13, ic_screenshake = bit_at fs 20, ic_additive = bit_at fs 24,
     ic_immediate = bit_at fs 18, ic_sfx_name = field_at fs 6, ic_sfx_delay = int_at fs 9 0,
     ic_sfx_looping = bit_at fs 19, ic_frame_screenshake = field_at fs 21, ic_frame_realization = field_at fs 22,
     ic_frame_sfx = field_at fs 23, ic_effects = field_at fs 25, ic_other_charid = int_at fs 16 (- 1),
     ic_self_offset = field_at fs 17, ic_blipname = field_at fs 26, ic_slide = bit_at fs 27\<rparr>"

definition too_long :: "int \<Rightarrow> string \<Rightarrow> bool" where
  "too_long limit msg = (limit > 0 \<and> int (length msg) > limit)"

definition handle_MS :: "'m server_env \<Rightarrow> nat \<Rightarrow> string list \<Rightarrow> 'm ao_server \<Rightarrow> 'm ao_server" where
  "handle_MS e p fs s =
    (let x = session_at p s; action = ms_action (s_client_id x) fs in
     if \<not> s_joined x then s
     else if too_long (max_ic_message_length (sv_room s)) (ic_message action) then s
     else
       (case moderate e p ''ic'' (ic_message action) s of
          (outcome, s1) \<Rightarrow>
            if outcome = Stop then s1
            else
              (let action1 = (if outcome = Censor then action\<lparr>ic_message := ''[filtered]''\<rparr> else action);
                   y = session_at p s1;
                   s2 = (if ic_showname action1 \<noteq> [] \<and> s_display_name y \<noteq> ic_showname action1
                         then broadcast_player_update e (s_session_id y) 2 (ic_showname action1) s1 else s1)
               in deliver_all e (handle_ic action1 (sv_room s2)) s2)))"

section \<open>Out-of-character messages\<close>

text \<open>The spam detector's verdict; \<open>None\<close> is the overrun of its ring.\<close>

definition spam_check :: "'m server_env \<Rightarrow> nat \<Rightarrow> string \<Rightarrow> 'm ao_server \<Rightarrow> (bool \<times> 'm ao_server) option" where
  "spam_check e p msg s =
    (case sv_spam s of
       None \<Rightarrow> Some (False, s)
     | Some sd \<Rightarrow>
         (let x = session_at p s;
              ip = client_addr e (s_client_id x);
              asn = (case cached_asn e ip of Some n \<Rightarrow> n | None \<Rightarrow> 0)
          in map_option
               (\<lambda>(v, sd', calls). (v_is_spam v, emit (map Spam_Out calls) (s\<lparr>sv_spam := Some sd'\<rparr>)))
               (check_message (se_spam_hash e) (se_spam_ms e) (s_ipid x) ip asn msg sd)))"

text \<open>A message that is no command: spam check, length, moderation, the new name, the broadcast.\<close>

definition chat_message :: "'m server_env \<Rightarrow> nat \<Rightarrow> string \<Rightarrow> string \<Rightarrow> 'm ao_server \<Rightarrow> 'm ao_server" where
  "chat_message e p sender msg s =
    (case spam_check e p msg s of
       None \<Rightarrow> s\<lparr>sv_undef := True\<rparr>
     | Some (is_spam, s1) \<Rightarrow>
         if is_spam then s1
         else if too_long (max_ooc_message_length (sv_room s1)) msg then s1
         else
           (case moderate e p ''ooc'' msg s1 of
              (outcome, s2) \<Rightarrow>
                if outcome = Stop then s2
                else
                  (let forwarded = (if outcome = Censor then ''[filtered]'' else msg);
                       x = session_at p s2;
                       s3 = (if s_display_name x \<noteq> sender
                             then broadcast_player_update e (s_session_id x) 0 sender
                                    (on_session p (\<lambda>y. y\<lparr>s_display_name := sender\<rparr>) s2)
                             else s2)
                   in deliver_all e (handle_ooc \<lparr>ooc_sender_id = s_client_id x, ooc_name = sender,
                                                 ooc_message = forwarded\<rparr> (sv_room s3)) s3)))"

definition handle_CT :: "'m server_env \<Rightarrow> nat \<Rightarrow> string \<Rightarrow> string \<Rightarrow> 'm ao_server \<Rightarrow> 'm ao_server" where
  "handle_CT e p sender msg s =
    (if \<not> s_joined (session_at p s) then s
     else
       (case try_dispatch e p msg s of
          (was_command, closes, s1) \<Rightarrow>
            if was_command then close_deferred e closes s1 else chat_message e p sender msg s1))"

section \<open>Area state\<close>

definition handle_HP :: "'m server_env \<Rightarrow> nat \<Rightarrow> int \<Rightarrow> int \<Rightarrow> 'm ao_server \<Rightarrow> 'm ao_server" where
  "handle_HP e p which val s =
    (let x = session_at p s in
     if \<not> s_joined x then s
     else if which < 1 \<or> which > 2 \<or> val < 0 \<or> val > 10 then s
     else
       send_to_area e (s_area x) (packet ''HP'' [show_int which, show_int val])
         (on_area (s_area x)
           (\<lambda>a. a\<lparr>as_hp := (if which = 1 then (as_hp a)\<lparr>hp_defense := val\<rparr>
                            else (as_hp a)\<lparr>hp_prosecution := val\<rparr>)\<rparr>) s))"

definition handle_MC :: "'m server_env \<Rightarrow> nat \<Rightarrow> mc_packet \<Rightarrow> 'm ao_server \<Rightarrow> 'm ao_server" where
  "handle_MC e p mc s =
    (let x = session_at p s; name = mc_name mc in
     if \<not> s_joined x then s
     else if name \<in> set (areas (sv_room s)) then
       (if (case find_area_by_name name (sv_room s) of
              Some a \<Rightarrow> \<not> can_enter a (s_client_id x) | None \<Rightarrow> False)
        then send e (s_client_id x) (system_message (''Area '' @ name @ '' is locked.'')) s
        else
          (let s1 = send_area_join_info e (s_client_id x) name (on_session p (\<lambda>y. y\<lparr>s_area := name\<rparr>) s);
               area_idx = area_index name (sv_room s1);
               s2 = (if 0 \<le> area_idx then broadcast_player_update e (s_session_id x) 3 (show_int area_idx) s1 else s1)
           in broadcast_arup e ARUP_PLAYERS s2))
     else
       deliver_all e (handle_music \<lparr>mu_sender_id = s_client_id x, mu_track = name, mu_showname = mc_showname mc,
           mu_channel = mc_channel mc, mu_looping = (mc_looping mc = 1)\<rparr> (sv_room s)) s)"

definition handle_RT :: "'m server_env \<Rightarrow> nat \<Rightarrow> string \<Rightarrow> 'm ao_server \<Rightarrow> 'm ao_server" where
  "handle_RT e p anim s =
    (let x = session_at p s in
     if \<not> s_joined x \<or> is_spectator x then s else send_to_area e (s_area x) (packet ''RT'' [anim]) s)"

text \<open>Change the evidence of the sender's area and send the new list to the area.\<close>

definition edit_evidence ::
  "'m server_env \<Rightarrow> nat \<Rightarrow> (evidence_item list \<Rightarrow> evidence_item list option) \<Rightarrow> 'm ao_server \<Rightarrow> 'm ao_server" where
  "edit_evidence e p f s =
    (let x = session_at p s in
     if \<not> s_joined x then s
     else case find_area_by_name (s_area x) (sv_room s) of
            None \<Rightarrow> s
          | Some a \<Rightarrow>
              (case f (as_evidence a) of
                 None \<Rightarrow> s
               | Some evs \<Rightarrow>
                   send_to_area e (s_area x) (evidence_packet evs)
                     (on_area (s_area x) (\<lambda>a. a\<lparr>as_evidence := evs\<rparr>) s)))"

definition in_evidence :: "int \<Rightarrow> evidence_item list \<Rightarrow> bool" where
  "in_evidence i evs = (\<not> (i < 0 \<or> i \<ge> int (length evs)))"

definition handle_PE :: "'m server_env \<Rightarrow> nat \<Rightarrow> evidence_item \<Rightarrow> 'm ao_server \<Rightarrow> 'm ao_server" where
  "handle_PE e p ev = edit_evidence e p (\<lambda>evs. Some (evs @ [ev]))"

definition handle_EE :: "'m server_env \<Rightarrow> nat \<Rightarrow> int \<Rightarrow> evidence_item \<Rightarrow> 'm ao_server \<Rightarrow> 'm ao_server" where
  "handle_EE e p i ev = edit_evidence e p (\<lambda>evs. if in_evidence i evs then Some (evs[nat i := ev]) else None)"

definition handle_DE :: "'m server_env \<Rightarrow> nat \<Rightarrow> int \<Rightarrow> 'm ao_server \<Rightarrow> 'm ao_server" where
  "handle_DE e p i = edit_evidence e p (\<lambda>evs. if in_evidence i evs then Some (erase_at (nat i) evs) else None)"

section \<open>Moderators\<close>

definition handle_ZZ :: "'m server_env \<Rightarrow> nat \<Rightarrow> string \<Rightarrow> 'm ao_server \<Rightarrow> 'm ao_server" where
  "handle_ZZ e p why s =
    (let x = session_at p s in
     if \<not> s_joined x then s
     else
       (let msg = ''MOD CALL from '' @ (if s_display_name x = [] then ''(spectator)'' else s_display_name x)
                  @ '' ['' @ s_ipid x @ '']'' @ (if why \<noteq> [] then '': '' @ why else []) @ '' (area: '' @ s_area x @ '')''
        in fold (\<lambda>q t. if s_moderator (session_at q t) then say_to e (s_client_id (session_at q t)) msg t else t)
             (for_each_session (sv_room s)) s))"

definition handle_PW :: "nat \<Rightarrow> string \<Rightarrow> 'm ao_server \<Rightarrow> 'm ao_server" where
  "handle_PW p pw s = on_session p (\<lambda>x. x\<lparr>s_password := pw\<rparr>) s"

definition handle_MA :: "'m server_env \<Rightarrow> nat \<Rightarrow> string \<Rightarrow> int \<Rightarrow> string \<Rightarrow> 'm ao_server \<Rightarrow> 'm ao_server" where
  "handle_MA e p ipid dur rsn s =
    (let x = session_at p s; qs = ipid_sessions ipid (sv_room s) in
     if \<not> s_joined x \<or> \<not> s_moderator x then s
     else if dur = 0 then
       (case send_and_close e (packet ''KK'' [rsn]) qs s of (closes, s1) \<Rightarrow> close_deferred e closes s1)
     else
       (case sv_bans s of
          None \<Rightarrow> s
        | Some bm \<Rightarrow>
            (let b = ban_of e ipid rsn (s_display_name x) (if dur = - 1 then - 2 else dur) (sv_room s)
             in case send_and_close e (packet ''KB'' [rsn]) qs (record_ban b bm s) of
                  (closes, s1) \<Rightarrow> close_deferred e closes s1)))"

definition handle_CASEA ::
  "'m server_env \<Rightarrow> nat \<Rightarrow> string \<Rightarrow> bool list \<Rightarrow> 'm ao_server \<Rightarrow> 'm ao_server" where
  "handle_CASEA e p title needs s =
    (let x = session_at p s in
     if \<not> s_joined x \<or> is_spectator x then s
     else
       fold (\<lambda>q t. let y = session_at q t; prefs = s_casing_preferences y in
                   if \<not> s_joined y \<or> length prefs < 5 then t
                   else if list_ex (\<lambda>i. needs ! i \<and> prefs ! i) [0..<5]
                   then send e (s_client_id y) (packet ''CASEA'' (title # map bit_field needs @ [[]])) t
                   else t)
         (for_each_session (sv_room s)) s)"

definition handle_SETCASE :: "nat \<Rightarrow> bool list \<Rightarrow> 'm ao_server \<Rightarrow> 'm ao_server" where
  "handle_SETCASE p prefs s =
    (if \<not> s_joined (session_at p s) then s else on_session p (\<lambda>x. x\<lparr>s_casing_preferences := prefs\<rparr>) s)"

definition handle_CH :: "'m server_env \<Rightarrow> nat \<Rightarrow> 'm ao_server \<Rightarrow> 'm ao_server" where
  "handle_CH e p s = send e (s_client_id (session_at p s)) (packet ''CHECK'' []) s"

section \<open>Dispatch and framing\<close>

definition server_handle :: "'m server_env \<Rightarrow> nat \<Rightarrow> ao_packet \<Rightarrow> 'm ao_server \<Rightarrow> 'm ao_server" where
  "server_handle e p pkt s =
    (case body pkt of
       HI h \<Rightarrow> handle_HI e p h s
     | ID _ sw ver \<Rightarrow> handle_ID_client e p sw ver s
     | AskChaa \<Rightarrow> handle_askchaa e p s
     | RC \<Rightarrow> handle_RC e p s
     | RM \<Rightarrow> handle_RM e p s
     | RD \<Rightarrow> handle_RD e p s
     | CC \<Rightarrow> handle_CC e p (pfields pkt) s
     | MS _ \<Rightarrow> handle_MS e p (pfields pkt) s
     | CT n msg _ \<Rightarrow> handle_CT e p n msg s
     | HP which val \<Rightarrow> handle_HP e p which val s
     | MC mc \<Rightarrow> handle_MC e p mc s
     | ZZ why \<Rightarrow> handle_ZZ e p why s
     | PW pw \<Rightarrow> handle_PW p pw s
     | MA ipid dur rsn \<Rightarrow> handle_MA e p ipid dur rsn s
     | RT anim \<Rightarrow> handle_RT e p anim s
     | PE n d i \<Rightarrow> handle_PE e p \<lparr>ev_name = n, ev_description = d, ev_image = i\<rparr> s
     | EE k n d i \<Rightarrow> handle_EE e p k \<lparr>ev_name = n, ev_description = d, ev_image = i\<rparr> s
     | DE k \<Rightarrow> handle_DE e p k s
     | CASEA title a b c d f \<Rightarrow> handle_CASEA e p title [a, b, c, d, f] s
     | SETCASE _ prefs \<Rightarrow> handle_SETCASE p prefs s
     | CH \<Rightarrow> handle_CH e p s
     | _ \<Rightarrow> s)"

definition server_dispatch :: "'m server_env \<Rightarrow> u64 \<Rightarrow> ao_packet \<Rightarrow> 'm ao_server \<Rightarrow> 'm ao_server" where
  "server_dispatch e c pkt s =
    (case get_session c (sv_room s) of
       None \<Rightarrow> s
     | Some p \<Rightarrow>
         if \<not> has_packet (packet_creators (se_gi e) (se_gb e)) (header pkt) then
           send e c (server_error (''Unknown packet '' @ dq @ take 16 (header pkt) @ dq)) s
         else server_handle e p pkt s)"

text \<open>One frame. No handler throws.\<close>

definition server_frame :: "'m server_env \<Rightarrow> u64 \<Rightarrow> string \<Rightarrow> 'm ao_server \<Rightarrow> 'm ao_server" where
  "server_frame e c wire s =
    (case safe_dispatch (packet_creators (se_gi e) (se_gb e)) wire (\<lambda>pkt s. (False, server_dispatch e c pkt s)) s of
       (result, _, s') \<Rightarrow>
         (case result of
            Ok \<Rightarrow> s'
          | HandlerFailed \<Rightarrow> send e c (server_error ''Internal error handling packet'') s'
          | _ \<Rightarrow> send e c (server_error (''Malformed packet '' @ em_dash @ '' could not parse'')) s'))"

definition MAX_INCOMPLETE_BUF :: nat where
  "MAX_INCOMPLETE_BUF = 65536"

definition count_received :: "u64 \<Rightarrow> nat \<Rightarrow> room \<Rightarrow> room" where
  "count_received c n g =
    (case get_session c g of
       None \<Rightarrow> g
     | Some p \<Rightarrow> update_session p (\<lambda>s. s\<lparr>s_bytes_received := s_bytes_received s + of_nat n,
                                         s_packets_received := s_packets_received s + 1\<rparr>) g)"

definition set_buffer :: "u64 \<Rightarrow> string \<Rightarrow> 'm ao_server \<Rightarrow> 'm ao_server" where
  "set_buffer c buf s =
    (case get_protocol_state c s of
       Some ps \<Rightarrow> set_protocol_state c (ps\<lparr>incomplete_buf := buf\<rparr>) s | None \<Rightarrow> s)"

definition on_client_message :: "'m server_env \<Rightarrow> u64 \<Rightarrow> string \<Rightarrow> 'm ao_server \<Rightarrow> 'm ao_server" where
  "on_client_message e c raw s =
    (case get_protocol_state c s of
       None \<Rightarrow> s
     | Some ps \<Rightarrow>
         (let s1 = on_room (count_received c (length raw)) s;
              buf = incomplete_buf ps @ raw
          in if length buf > MAX_INCOMPLETE_BUF then
               set_buffer c [] (send e c (server_error ''Message too large'') s1)
             else (case drain (server_frame e c) buf s1 of (rest, s2) \<Rightarrow> set_buffer c rest s2)))"

end
