(* ===== verification/AO_Observers.thy ===== *)
theory AO_Observers
  imports AO_Handlers
begin

text \<open>
  What the operations of the server leave alone. An observation is a function of the state; the
  locale \<open>observer\<close> is the contract of one that does not see the output and the traffic counters,
  and has, for every operation that only sends, that the observation does not change.
  \<open>client_observer\<close> adds observations that see of a session only what its client cannot write by
  itself, and neither area states nor protocol phases: no unprivileged handler changes them;
  \<open>moving_observer\<close> does not see the area a session is in either, and \<open>staff_observer\<close> not the
  bans, the networks and the accounts; \<open>any_observer\<close> does not see the authority of a session, so
  that no packet changes it.
\<close>

section \<open>Sending\<close>

lemma fold_keeps: "(\<And>x s. x \<in> set xs \<Longrightarrow> obs (f x s) = obs s) \<Longrightarrow> obs (fold f xs s) = obs s"
  by (induction xs arbitrary: s) simp_all

lemma drain_invariant:
  assumes "\<And>w s. P s \<Longrightarrow> P (h w s)" and "P s"
  shows "P (snd (drain h b s))"
  using assms(2)
proof (induction "length b" arbitrary: b s rule: less_induct)
  case less
  show ?case
  proof (cases "find_sub DELIMITER b")
    case None
    then show ?thesis using less(2) by (subst drain.simps) simp
  next
    case (Some pos)
    then have "pos + length DELIMITER \<le> length b" using find_sub_Some by blast
    then have "length (drop (pos + length DELIMITER) b) < length b" by (simp add: DELIMITER_def)
    from less(1) [OF this assms(1) [OF less(2)]] Some show ?thesis by (subst drain.simps) simp
  qed
qed

lemma drain_keeps: "(\<And>w s. obs (h w s) = obs s) \<Longrightarrow> obs (snd (drain h b s)) = obs s"
  using drain_invariant [of "\<lambda>t. obs t = obs s" h s b] by simp

locale observer =
  fixes obs :: "'m ao_server \<Rightarrow> 'o"
  assumes emit: "obs (emit os s) = obs s"
    and traffic: "obs (on_room (count_sent c n) s) = obs s"
begin

lemma send [simp]: "obs (send e c pkt s) = obs s"
  by (simp add: send_def Let_def emit traffic)

lemma send_to_area [simp]: "obs (send_to_area e a pkt s) = obs s"
  by (simp add: send_to_area_def emit)

lemma send_to_all [simp]: "obs (send_to_all e pkt s) = obs s"
  by (simp add: send_to_all_def emit)

lemma broadcasts [simp]:
  "obs (broadcast_ic e a i s) = obs s" "obs (broadcast_ooc e a oe s) = obs s"
  "obs (broadcast_music e a mu s) = obs s" "obs (broadcast_char_select e ce s) = obs s"
  by (simp_all add: broadcast_ic_def broadcast_ooc_def broadcast_music_def Let_def broadcast_char_select_def
      split: option.split)

lemma broadcast_taken [simp]: "obs (broadcast_taken e ts s) = obs s"
  unfolding broadcast_taken_def by (rule fold_keeps) (simp split: prod.split)

lemma deliver [simp]: "obs (deliver e out s) = obs s"
  by (simp add: deliver_def emit split: room_output.split)

lemma deliver_all [simp]: "obs (deliver_all e outs s) = obs s"
  unfolding deliver_all_def by (rule fold_keeps) simp

lemma area_join [simp]: "obs (send_area_join_info e c n s) = obs s"
  by (simp add: send_area_join_info_def Let_def split: option.split)

lemma snapshot [simp]: "obs (send_player_list_snapshot e c s) = obs s"
  unfolding send_player_list_snapshot_def by (rule fold_keeps) (simp add: fold_keeps)

lemma players [simp]:
  "obs (broadcast_player_add e i s) = obs s" "obs (broadcast_player_remove e i s) = obs s"
  "obs (broadcast_player_update e i k t s) = obs s"
  by (simp_all add: broadcast_player_add_def broadcast_player_remove_def broadcast_player_update_def)

lemma arup [simp]: "obs (broadcast_arup e t s) = obs s" "obs (send_full_arup e c s) = obs s"
  by (simp_all add: broadcast_arup_def send_full_arup_def)

lemma say [simp]: "obs (say e p msg s) = obs s" "obs (say_to e c msg s) = obs s"
  by (simp_all add: say_def say_to_def)

lemma say_all [simp]: "obs (fold (say e p) msgs s) = obs s"
  by (rule fold_keeps) simp

lemma closing [simp]: "obs (snd (say_closing e p msg r)) = obs (snd r)"
  by (simp add: say_closing_def split: prod.split)

lemma send_and_close [simp]: "obs (snd (send_and_close e pkt ps s)) = obs s"
  unfolding send_and_close_def snd_conv by (rule fold_keeps) simp

lemma closes [simp]: "obs (close_now e c s) = obs s" "obs (close_deferred e cs s) = obs s"
  by (simp_all add: close_now_def close_deferred_def emit)

lemma send_mod_notice [simp]: "obs (send_mod_notice e p m v s) = obs s"
  by (simp add: send_mod_notice_def Let_def split: option.split moderation_action.split)

lemma reading_handlers [simp]:
  "obs (handle_askchaa e p s) = obs s" "obs (handle_RC e p s) = obs s" "obs (handle_RM e p s) = obs s"
  "obs (handle_CH e p s) = obs s" "obs (handle_RT e p an s) = obs s"
  by (simp_all add: handle_askchaa_def handle_RC_def handle_RM_def handle_CH_def handle_RT_def Let_def)

lemma handle_ZZ [simp]: "obs (handle_ZZ e p w s) = obs s"
  unfolding handle_ZZ_def Let_def by (auto intro!: fold_keeps)

lemma handle_CASEA [simp]: "obs (handle_CASEA e p ti ns s) = obs s"
  unfolding handle_CASEA_def Let_def by (auto intro!: fold_keeps)

lemma plain_snd [simp]: "snd (plain s) = (s :: 'm ao_server)"
  by (simp add: plain_def)

lemma reading_commands [simp]:
  "obs (snd (cmd_getarea e p args s)) = obs s" "obs (snd (cmd_getareas e p args s)) = obs s"
  "obs (snd (cmd_online e p args s)) = obs s" "obs (snd (cmd_motd e p args s)) = obs s"
  "obs (snd (cmd_help e p args s)) = obs s" "obs (snd (cmd_testimony e p args s)) = obs s"
  "obs (snd (cmd_searchbans e p args s)) = obs s" "obs (snd (cmd_listusers e p args s)) = obs s"
  "obs (snd (cmd_kick e p args s)) = obs s"
  by (simp_all add: cmd_getarea_def cmd_getareas_def cmd_online_def cmd_motd_def cmd_help_def
      cmd_testimony_def get_area_or_fail_def cmd_searchbans_def cmd_listusers_def with_users_def cmd_kick_def
      Let_def fold_keeps split: option.split)

lemma cmd_listperms [simp]: "obs (snd (cmd_listperms e p args s)) = obs s"
  by (simp add: cmd_listperms_def with_users_def Let_def split: option.split)

end

section \<open>What a client may change\<close>

locale client_observer = observer +
  fixes seen :: "session \<Rightarrow> 'b"
  assumes own_session: "(\<And>x. seen (g x) = seen x) \<Longrightarrow> obs (on_session p g s) = obs s"
    and seen: "seen (x\<lparr>s_hardware_id := h\<rparr>) = seen x" "seen (x\<lparr>s_ip_address := i\<rparr>) = seen x" "seen (x\<lparr>s_ipid := j\<rparr>) = seen x"
      "seen (x\<lparr>s_client_software := w\<rparr>) = seen x" "seen (x\<lparr>s_joined := True\<rparr>) = seen x"
      "seen (x\<lparr>s_password := pw\<rparr>) = seen x" "seen (x\<lparr>s_casing_preferences := prefs\<rparr>) = seen x"
      "seen (x\<lparr>s_display_name := n\<rparr>) = seen x"
    and area: "obs (on_area n f s) = obs s"
    and protocol: "get_protocol_state c s = Some ps \<Longrightarrow> incomplete_buf ps' = incomplete_buf ps \<Longrightarrow>
      obs (set_protocol_state c ps' s) = obs s"
    and spam: "obs (s\<lparr>sv_spam := sd\<rparr>) = obs s"
    and moderator: "obs (s\<lparr>sv_moderator := m\<rparr>) = obs s"
    and undef: "obs (s\<lparr>sv_undef := True\<rparr>) = obs s"
    and joined: "obs (on_room count_joined s) = obs s"
    and char_select: "handle_char_select a (sv_room s) = Some (b, r, outs) \<Longrightarrow> obs (s\<lparr>sv_room := r\<rparr>) = obs s"
begin

lemma own_area [simp]: "obs (on_own_area p f s) = obs s" "obs (on_testimony p h s) = obs s"
  by (simp_all add: on_own_area_def on_testimony_def area)

lemma lock_area [simp]: "obs (lock_area m p s) = obs s"
  by (simp add: lock_area_def)

lemma each_ipid [simp]: "obs (each_ipid e p f notice qs s) = obs s"
  unfolding each_ipid_def by (rule fold_keeps) (simp add: Let_def split: option.split)

lemma managed [simp]:
  "(\<And>a s. obs (f a s) = obs s) \<Longrightarrow> obs (managed_area e w f p s) = obs s"
  "(\<And>a s. obs (f a s) = obs s) \<Longrightarrow> obs (require_cm e f p s) = obs s"
  by (simp_all add: managed_area_def require_cm_def get_area_or_fail_def split: option.split)

lemma area_commands [simp]:
  "obs (snd (cmd_area_lock e p args s)) = obs s" "obs (snd (cmd_area_unlock e p args s)) = obs s"
  "obs (snd (cmd_area_spectate e p args s)) = obs s" "obs (snd (cmd_status e p args s)) = obs s"
  "obs (snd (cmd_background e p args s)) = obs s" "obs (snd (cmd_lock_background e p args s)) = obs s"
  "obs (snd (cmd_unlock_background e p args s)) = obs s"
  by (simp_all add: cmd_area_lock_def cmd_area_unlock_def cmd_area_spectate_def cmd_status_def
      cmd_background_def cmd_lock_background_def cmd_unlock_background_def Let_def split: option.split)

lemma cm_commands [simp]:
  "obs (snd (cmd_cm e p args s)) = obs s" "obs (snd (cmd_uncm e p args s)) = obs s"
  "obs (snd (cmd_invite e p args s)) = obs s" "obs (snd (cmd_uninvite e p args s)) = obs s"
  by (simp_all add: cmd_cm_def cmd_uncm_def cmd_invite_def cmd_uninvite_def Let_def split: option.split)

lemma testimony_commands [simp]:
  "obs (snd (cmd_testify e p args s)) = obs s" "obs (snd (cmd_examine e p args s)) = obs s"
  "obs (snd (cmd_pause e p args s)) = obs s" "obs (snd (cmd_delete e p args s)) = obs s"
  "obs (snd (cmd_update e p args s)) = obs s" "obs (snd (cmd_add e p args s)) = obs s"
  by (simp_all add: cmd_testify_def cmd_examine_def cmd_pause_def cmd_delete_def cmd_update_def cmd_add_def)

text \<open>Every command of the area group but those that move sessions.\<close>

lemma still_area_handlers:
  "map_of area_handlers n = Some f \<Longrightarrow> n \<noteq> ''area'' \<Longrightarrow> n \<noteq> ''area_kick'' \<Longrightarrow> obs (snd (f e p args s)) = obs s"
  by (auto simp: area_handlers_def split: if_splits)

lemma external [simp]: "obs (snd (external e p args s)) = obs s"
  by (simp add: external_def moderator split: prod.split)

lemma set_phase [simp]: "obs (set_phase c ph s) = obs s"
  by (simp add: set_phase_def protocol split: option.split)

lemma register_hardware [simp]: "obs (register_hardware e p h s) = obs s"
  by (simp add: register_hardware_def Let_def own_session seen protocol split: option.split)

lemma register_connection: "register_connection e p ip asn s = Some s' \<Longrightarrow> obs s' = obs s"
  by (auto simp: register_connection_def Let_def emit spam split: option.splits)

lemma accept_client [simp]: "obs (accept_client e p s) = obs s"
  by (simp add: accept_client_def Let_def)

lemma registered:
  "obs (case register_connection e p ip asn s of None \<Rightarrow> s\<lparr>sv_undef := True\<rparr> | Some s' \<Rightarrow> accept_client e p s') = obs s"
  by (simp add: undef register_connection split: option.split)

lemma handle_HI [simp]: "obs (handle_HI e p h s) = obs s"
  by (simp add: handle_HI_def Let_def emit registered split: option.split)

lemma handle_ID_client [simp]: "obs (handle_ID_client e p sw ver s) = obs s"
  by (simp add: handle_ID_client_def Let_def own_session seen)

lemma handle_RD [simp]: "obs (handle_RD e p s) = obs s"
  by (simp add: handle_RD_def Let_def joined own_session seen)

lemma handle_CC [simp]: "obs (handle_CC e p fs s) = obs s"
  by (auto simp: handle_CC_def Let_def undef char_select split: option.split prod.split)

lemma own_handlers [simp]:
  "obs (handle_HP e p w v s) = obs s" "obs (handle_PW p pw s) = obs s"
  "obs (handle_SETCASE p prefs s) = obs s" "obs (edit_evidence e p ed s) = obs s"
  by (simp_all add: handle_HP_def handle_PW_def handle_SETCASE_def edit_evidence_def area own_session
      seen Let_def split: option.split)

lemma evidence_handlers [simp]:
  "obs (handle_PE e p ev s) = obs s" "obs (handle_EE e p i ev s) = obs s" "obs (handle_DE e p i s) = obs s"
  by (simp_all add: handle_PE_def handle_EE_def handle_DE_def)

lemma spam_check: "spam_check e p msg s = Some (b, s') \<Longrightarrow> obs s' = obs s"
  by (auto simp: spam_check_def Let_def emit spam split: option.splits)

lemma rename [simp]: "obs (on_session p (\<lambda>x. x\<lparr>s_display_name := n\<rparr>) s) = obs s"
  by (rule own_session) (simp add: seen)

text \<open>The handlers that ask the moderator, when its verdict is not observed.\<close>

lemma moderated:
  assumes "\<And>ch msg s. P s \<Longrightarrow> obs (snd (moderate e p ch msg s)) = obs s"
    and "P s" and "\<And>b s'. spam_check e p msg s = Some (b, s') \<Longrightarrow> P s'"
  shows "obs (handle_MS e p fs s) = obs s" and "obs (chat_message e p sn msg s) = obs s"
  using assms
  by (auto simp: handle_MS_def chat_message_def Let_def split_beta undef split: option.split
      dest: spam_check)

lemma spam_check_moderator: "spam_check e p msg s = Some (b, s') \<Longrightarrow> sv_moderator s' = sv_moderator s"
  by (auto simp: spam_check_def Let_def emit_def split: option.splits)

lemma unmoderated:
  assumes "sv_moderator s = None"
  shows "obs (handle_MS e p fs s) = obs s" and "obs (chat_message e p sn msg s) = obs s"
  using assms
  by (auto simp: handle_MS_def chat_message_def moderate_def Let_def undef split: option.split
      dest: spam_check spam_check_moderator)

end

locale moving_observer = client_observer +
  assumes seen_area: "seen (x\<lparr>s_area := a\<rparr>) = seen x"
begin

lemma move [simp]: "obs (on_session p (\<lambda>x. x\<lparr>s_area := a\<rparr>) s) = obs s"
  by (rule own_session) (simp add: seen_area)

lemma cmd_area [simp]: "obs (snd (cmd_area e p args s)) = obs s"
  by (simp add: cmd_area_def Let_def)

lemma area_kick [simp]: "obs (snd (area_kick_step e p n l i q st)) = obs (snd st)"
  by (simp add: area_kick_step_def Let_def area split: prod.split)

lemma area_kicks [simp]: "obs (snd (fold (area_kick_step e p n l i) qs st)) = obs (snd st)"
  by (induction qs arbitrary: st) simp_all

lemma cmd_area_kick [simp]: "obs (snd (cmd_area_kick e p args s)) = obs s"
  unfolding cmd_area_kick_def plain_snd by (rule managed) (simp add: Let_def split_beta)

lemma area_handlers: "map_of area_handlers n = Some f \<Longrightarrow> obs (snd (f e p args s)) = obs s"
  by (cases "n = ''area'' \<or> n = ''area_kick''") (auto simp: area_handlers_def split: if_splits intro: still_area_handlers)

lemma handle_MC [simp]: "obs (handle_MC e p mc s) = obs s"
  by (simp add: handle_MC_def Let_def split: option.split)

end

section \<open>What the staff may change\<close>

locale staff_observer = client_observer +
  assumes bans: "obs (s\<lparr>sv_bans := bm\<rparr>) = obs s"
    and networks: "obs (s\<lparr>sv_asn := am\<rparr>) = obs s"
    and accounts: "obs (s\<lparr>sv_users := us\<rparr>) = obs s"
    and auth_type: "obs (on_room (\<lambda>g. g\<lparr>auth_type := t\<rparr>) s) = obs s"
    and seen_attempts: "seen (x\<lparr>s_login_failures := lf\<rparr>) = seen x" "seen (x\<lparr>s_last_login_failure := tm\<rparr>) = seen x"
      "seen (x\<lparr>s_change_auth_started := ca\<rparr>) = seen x"
begin

lemma record_ban [simp]: "obs (record_ban b bm s) = obs s"
  by (simp add: record_ban_def emit bans split: prod.split)

lemma ban_commands [simp]:
  "obs (snd (cmd_ban e p args s)) = obs s" "obs (snd (cmd_unban e p args s)) = obs s"
  "obs (snd (cmd_editban e p args s)) = obs s"
  by (simp_all add: cmd_ban_def cmd_unban_def cmd_editban_def Let_def emit bans undef
      split: option.split prod.split)

lemma cmd_asn [simp]: "obs (snd (cmd_asn e p args s)) = obs s"
  by (simp add: cmd_asn_def asn_list_def asn_status_def asn_block_def asn_unblock_def Let_def networks undef
      split: option.split prod.split)

lemma login_failed [simp]: "obs (login_failed e p s) = obs s"
  by (simp add: login_failed_def own_session seen_attempts)

lemma cmd_changeauth [simp]: "obs (snd (cmd_changeauth e p args s)) = obs s"
  by (simp add: cmd_changeauth_def own_session seen_attempts)

lemma revoke [simp]: "obs (snd (revoke e n w us s)) = obs s"
  by (simp add: revoke_def emit accounts)

lemma account_commands [simp]:
  "obs (snd (cmd_adduser e p args s)) = obs s" "obs (snd (cmd_removeuser e p args s)) = obs s"
  "obs (snd (cmd_setperms e p args s)) = obs s" "obs (snd (cmd_removeperms e p args s)) = obs s"
  "obs (snd (cmd_changepass e p args s)) = obs s"
  by (simp_all add: cmd_adduser_def cmd_removeuser_def cmd_setperms_def cmd_removeperms_def cmd_changepass_def
      with_users_def Let_def accounts split: option.split prod.split sum.split)

lemma cmd_reload: "se_reload e = None \<Longrightarrow> obs (snd (cmd_reload e p args s)) = obs s"
  by (simp add: cmd_reload_def)

text \<open>
  Every command of the staff but those that log in or out, when no reload function is installed.
\<close>

lemma steady_staff_handlers:
  "map_of staff_handlers n = Some f \<Longrightarrow> se_reload e = None \<Longrightarrow>
   n \<noteq> ''login'' \<Longrightarrow> n \<noteq> ''logout'' \<Longrightarrow> n \<noteq> ''rootpass'' \<Longrightarrow> obs (snd (f e p args s)) = obs s"
  by (auto simp: staff_handlers_def cmd_reload split: if_splits)

lemma verdict [simp]: "obs (snd (apply_content_verdict e p m v s)) = obs s"
  by (simp add: apply_content_verdict_def Let_def split: moderation_action.split option.split)

lemma moderate [simp]: "obs (snd (moderate e p ch msg s)) = obs s"
  by (simp add: moderate_def Let_def moderator split: option.split prod.split)

lemma messages [simp]: "obs (handle_MS e p fs s) = obs s" "obs (chat_message e p sn msg s) = obs s"
  by (rule moderated [of "\<lambda>_. True"]; simp)+

lemma handle_MA [simp]: "obs (handle_MA e p i d r s) = obs s"
  by (auto simp: handle_MA_def Let_def split_beta split: option.split)

end

locale steady_observer = moving_observer + staff_observer
begin

text \<open>A command that neither logs in nor out, and every packet that is no OOC message.\<close>

lemma steady_execute:
  "se_reload e = None \<Longrightarrow> n \<notin> {''login'', ''logout'', ''rootpass''} \<Longrightarrow> obs (snd (execute n e p args s)) = obs s"
  by (auto simp: execute_def map_add_def area_handlers steady_staff_handlers split: option.split)

lemma packets:
  "(\<And>n msg b. body pkt \<noteq> CT n msg b) \<Longrightarrow> obs (server_handle e p pkt s) = obs s"
  by (auto simp: server_handle_def split: packet_body.split)

end

lemma execute_log_in_out [simp]:
  "execute ''login'' = cmd_login" "execute ''logout'' = cmd_logout" "execute ''rootpass'' = cmd_rootpass"
  by (intro ext; simp add: execute_def area_handlers_def staff_handlers_def)+

locale authority_observer = staff_observer +
  assumes moderators: "obs (on_room (count_moderators k) s) = obs s"
    and seen_authority: "seen (x\<lparr>s_moderator := md\<rparr>) = seen x" "seen (x\<lparr>s_acl_role := ro\<rparr>) = seen x"
      "seen (x\<lparr>s_moderator_name := mn\<rparr>) = seen x"
begin

lemma log_in_out [simp]: "obs (log_in p r w s) = obs s" "obs (log_out p s) = obs s"
  by (simp_all add: log_in_def log_out_def moderators own_session seen_authority seen_attempts)

lemma authority_commands [simp]:
  "obs (snd (cmd_login e p args s)) = obs s" "obs (snd (cmd_logout e p args s)) = obs s"
  "obs (snd (cmd_rootpass e p args s)) = obs s"
  by (simp_all add: cmd_login_def login_simple_def login_advanced_def cmd_logout_def
      cmd_rootpass_def with_users_def Let_def undef auth_type accounts split: option.split prod.split)

lemma staff_handlers: "map_of staff_handlers n = Some f \<Longrightarrow> se_reload e = None \<Longrightarrow> obs (snd (f e p args s)) = obs s"
  using steady_staff_handlers [of n f e p args s]
  by (cases "n \<in> {''login'', ''logout'', ''rootpass''}") (auto simp: staff_handlers_def)

lemma still_execute:
  "se_reload e = None \<Longrightarrow> n \<noteq> ''area'' \<Longrightarrow> n \<noteq> ''area_kick'' \<Longrightarrow> obs (snd (execute n e p args s)) = obs s"
  by (auto simp: execute_def map_add_def still_area_handlers staff_handlers split: option.split)

end

locale any_observer = steady_observer + authority_observer
begin

lemma execute [simp]: "se_reload e = None \<Longrightarrow> obs (snd (execute n e p args s)) = obs s"
  using steady_execute [of e n p args s] by (cases "n \<in> {''login'', ''logout'', ''rootpass''}") auto

lemma try_dispatch [simp]: "se_reload e = None \<Longrightarrow> obs (snd (snd (try_dispatch e p msg s))) = obs s"
  by (simp add: try_dispatch_def Let_def split: option.split)

lemma handle_CT [simp]: "se_reload e = None \<Longrightarrow> obs (handle_CT e p sn msg s) = obs s"
  using try_dispatch [of e p msg s] by (simp add: handle_CT_def split_beta)

text \<open>A packet does not change the observation, whoever sends it.\<close>

lemma server_handle: "se_reload e = None \<Longrightarrow> obs (server_handle e p pkt s) = obs s"
  by (cases "body pkt") (simp_all add: server_handle_def)

lemma server_dispatch: "se_reload e = None \<Longrightarrow> obs (server_dispatch e c pkt s) = obs s"
  by (simp add: server_dispatch_def server_handle split: option.split)

lemma server_frame: "se_reload e = None \<Longrightarrow> obs (server_frame e c w s) = obs s"
  by (simp add: server_frame_def safe_dispatch_def server_dispatch split: sum.split prod.split dispatch_result.split)

lemma drain: "se_reload e = None \<Longrightarrow> obs (snd (drain (server_frame e c) buf s)) = obs s"
  by (rule drain_keeps) (rule server_frame)

end

end
