(* ===== verification/AO_Server_Props.thy ===== *)
theory AO_Server_Props
  imports AO_Observers Game_Room_Props AO_Packet_Props
begin

text \<open>
  The observations of the server's state that its operations leave alone, as interpretations of the
  locales of \<open>AO_Observers\<close>, and what follows for every packet a client may send.
\<close>

section \<open>Fields that an update leaves alone\<close>

lemma map_update_same: "(\<And>x. f (g x) = f x) \<Longrightarrow> map f (xs[p := g (xs ! p)]) = map f xs"
  by (rule nth_equalityI) (simp_all, metis nth_list_update_eq nth_list_update_neq)

lemma AList_update_map_fst: "map_of xs c \<noteq> None \<Longrightarrow> map fst (AList.update c v xs) = map fst xs"
  by (induction xs) (auto split: if_splits)

lemma AList_update_map:
  "map_of xs c = Some v \<Longrightarrow> f v' = f v \<Longrightarrow> map (\<lambda>(k, w). (k, f w)) (AList.update c v' xs) = map (\<lambda>(k, w). (k, f w)) xs"
  by (induction xs) (auto split: if_splits)

lemma update_session_fields [simp]:
  "heap (update_session p f g) = (heap g)[p := f (heap g ! p)]" "sessions (update_session p f g) = sessions g"
  "token_index (update_session p f g) = token_index g" "next_session_id (update_session p f g) = next_session_id g"
  "stats (update_session p f g) = stats g" "characters (update_session p f g) = characters g"
  "char_taken (update_session p f g) = char_taken g" "areas (update_session p f g) = areas g"
  "auth_type (update_session p f g) = auth_type g" "mod_password (update_session p f g) = mod_password g"
  "area_states (update_session p f g) = area_states g" "area_name_to_id (update_session p f g) = area_name_to_id g"
  "get_session c (update_session p f g) = get_session c g"
  by (simp_all add: update_session_def get_session_def)

lemma update_area_fields [simp]:
  "heap (update_area n f g) = heap g" "sessions (update_area n f g) = sessions g"
  "token_index (update_area n f g) = token_index g" "next_session_id (update_area n f g) = next_session_id g"
  "stats (update_area n f g) = stats g" "characters (update_area n f g) = characters g"
  "char_taken (update_area n f g) = char_taken g" "areas (update_area n f g) = areas g"
  "auth_type (update_area n f g) = auth_type g" "mod_password (update_area n f g) = mod_password g"
  "area_name_to_id (update_area n f g) = area_name_to_id g"
  by (simp_all add: update_area_def split: option.split)

lemma char_select_fields:
  assumes "handle_char_select a g = Some (b, r, outs)"
  shows "sessions r = sessions g" "token_index r = token_index g" "next_session_id r = next_session_id g"
    "characters r = characters g" "length (char_taken r) = length (char_taken g)" "areas r = areas g"
    "auth_type r = auth_type g" "mod_password r = mod_password g"
    "st_sessions_ao (stats r) = st_sessions_ao (stats g)" "st_sessions_nx (stats r) = st_sessions_nx (stats g)"
    "st_joined (stats r) = st_joined (stats g)" "st_moderators (stats r) = st_moderators (stats g)"
    "(\<And>x k. f (x\<lparr>s_character_id := k\<rparr>) = f x) \<Longrightarrow> (\<And>x k. f (x\<lparr>s_display_name := k\<rparr>) = f x) \<Longrightarrow>
      map f (heap r) = map f (heap g)"
  using assms
  by (auto simp: handle_char_select_def free_char_def Let_def map_update_same [where g = "\<lambda>_. _"]
      intro!: map_update_same split: option.splits if_splits)

section \<open>Observations\<close>

definition no_traffic :: "session \<Rightarrow> session" where
  "no_traffic x = x\<lparr>s_bytes_sent := 0, s_bytes_received := 0, s_packets_sent := 0, s_packets_received := 0\<rparr>"

text \<open>Everything but the output and the traffic counters.\<close>

definition calm :: "'m ao_server \<Rightarrow> 'm ao_server" where
  "calm s = s\<lparr>sv_outs := [], sv_room := (sv_room s)\<lparr>heap := map no_traffic (heap (sv_room s))\<rparr>\<rparr>"

text \<open>The buffers of incomplete frames.\<close>

definition buffers :: "'m ao_server \<Rightarrow> (u64 \<times> string) list" where
  "buffers s = map (\<lambda>(c, ps). (c, incomplete_buf ps)) (sv_proto s)"

text \<open>Who is registered: the registry, the identities of the sessions and the tables beside them.\<close>

definition ident :: "session \<Rightarrow> u64 \<times> u64 \<times> string \<times> string" where
  "ident x = (s_client_id x, s_session_id x, s_session_token x, s_protocol x)"

definition registry :: "'m ao_server \<Rightarrow>
    (session_map \<times> token_map \<times> u64 \<times> int \<times> int) \<times> (string list \<times> nat \<times> string list) \<times>
    u64 list \<times> (u64 \<times> u64 \<times> string \<times> string) list" where
  "registry s =
    (let g = sv_room s in
     ((sessions g, token_index g, next_session_id g, st_sessions_ao (stats g), st_sessions_nx (stats g)),
      (characters g, length (char_taken g), areas g), map fst (sv_proto s), map ident (heap g)))"

text \<open>Who may do what, and what the staff has decided.\<close>

definition authority :: "session \<Rightarrow> bool \<times> string \<times> string \<times> string \<times> bool" where
  "authority x = (s_moderator x, s_acl_role x, s_auth_token_id x, s_moderator_name x, s_change_auth_started x)"

definition powers :: "'m ao_server \<Rightarrow>
    (ban_manager option \<times> asn_manager option \<times> user_entry list option) \<times> (AuthType \<times> string \<times> int) \<times>
    (bool \<times> string \<times> string \<times> string \<times> bool) list" where
  "powers s =
    (let g = sv_room s in
     ((sv_bans s, sv_asn s, sv_users s), (auth_type g, mod_password g, st_moderators (stats g)),
      map authority (heap g)))"

definition whereabouts :: "'m ao_server \<Rightarrow> string list" where
  "whereabouts s = map s_area (heap (sv_room s))"

lemmas observations = buffers_def registry_def powers_def whereabouts_def Let_def

lemma sv_fields [simp]:
  "sv_room (emit os s) = sv_room s" "sv_proto (emit os s) = sv_proto s" "sv_bans (emit os s) = sv_bans s"
  "sv_asn (emit os s) = sv_asn s" "sv_users (emit os s) = sv_users s"
  "sv_room (on_room f s) = f (sv_room s)" "sv_proto (on_room f s) = sv_proto s" "sv_bans (on_room f s) = sv_bans s"
  "sv_asn (on_room f s) = sv_asn s" "sv_users (on_room f s) = sv_users s"
  by (simp_all add: emit_def on_room_def)

lemma count_sent_case:
  "count_sent c n g = g \<or> (\<exists>p f. count_sent c n g = update_session p f g \<and> (\<forall>x. no_traffic (f x) = no_traffic x))"
proof (cases "get_session c g")
  case (Some p)
  show ?thesis unfolding count_sent_def Some option.case
    by (intro disjI2 exI conjI allI, rule refl) (simp add: no_traffic_def)
qed (simp add: count_sent_def)

lemma no_traffic_ident: "no_traffic x = no_traffic y \<Longrightarrow> ident x = ident y"
  and no_traffic_authority: "no_traffic x = no_traffic y \<Longrightarrow> authority x = authority y"
  and no_traffic_area: "no_traffic x = no_traffic y \<Longrightarrow> s_area x = s_area y"
  by (cases x; cases y; simp add: no_traffic_def ident_def authority_def)+

interpretation calm: observer calm
proof
  fix os c n and s :: "'a ao_server"
  show "calm (emit os s) = calm s" by (simp add: calm_def emit_def)
  show "calm (on_room (count_sent c n) s) = calm s"
    using count_sent_case [of c n "sv_room s"]
    by (auto simp: calm_def on_room_def map_update_same update_session_def)
qed

lemma calm_observation:
  assumes "\<And>s. obs (calm s) = obs s"
  shows "observer obs"
  by unfold_locales (metis assms calm.emit, metis assms calm.traffic)

lemma observe_calm [simp]:
  "buffers (calm s) = buffers s" "registry (calm s) = registry s" "powers (calm s) = powers s"
  "whereabouts (calm s) = whereabouts s"
  by (simp_all add: observations calm_def ident_def authority_def no_traffic_def)

lemmas obs_laws = on_session_def on_area_def set_protocol_state_def get_protocol_state_def count_joined_def
  count_moderators_def observations

text \<open>Who is a moderator.\<close>

definition ranks :: "'m ao_server \<Rightarrow> session_map \<times> int \<times> bool list" where
  "ranks s = (sessions (sv_room s), st_moderators (stats (sv_room s)), map s_moderator (heap (sv_room s)))"

lemma observe_ranks [simp]: "ranks (calm s) = ranks s"
  by (simp add: ranks_def calm_def no_traffic_def)

lemmas observer_intros = any_observer.intro authority_observer.intro steady_observer.intro moving_observer.intro staff_observer.intro
  client_observer.intro authority_observer_axioms.intro staff_observer_axioms.intro
  client_observer_axioms.intro moving_observer_axioms.intro calm_observation observe_calm observe_ranks

interpretation bufs: any_observer buffers "\<lambda>_. ()"
  by (intro observer_intros) (simp_all add: obs_laws AList_update_map)

interpretation reg: any_observer registry ident
  by (intro observer_intros) (auto simp: obs_laws AList_update_map_fst map_update_same char_select_fields ident_def)

interpretation rank: steady_observer ranks s_moderator
  by (intro observer_intros) (auto simp: obs_laws ranks_def map_update_same char_select_fields)

interpretation pow: moving_observer powers authority
  by (intro observer_intros) (auto simp: obs_laws map_update_same char_select_fields authority_def)

interpretation place: authority_observer whereabouts s_area
  by (intro observer_intros) (auto simp: obs_laws map_update_same char_select_fields)

end
