(* ===== verification/AO_Server_Reach.thy ===== *)
theory AO_Server_Reach
  imports AO_Server_Props
begin

text \<open>
  The server as a transition system: connections, disconnections, messages and late answers of the
  reputation service, in any order and with any environment, and the invariant of the states it
  reaches. Client ids are fresh when a client connects, as the web socket layer guarantees. No
  reload function is installed: it replaces the room's configuration, which is another program part.
\<close>

section \<open>Steps\<close>

datatype server_event = Connected u64 | Disconnected u64 | Message u64 string | Answered u64 u32

fun server_step :: "'m server_env \<Rightarrow> server_event \<Rightarrow> 'm ao_server \<Rightarrow> 'm ao_server" where
  "server_step e (Connected c) s = server_connected e c s"
| "server_step e (Disconnected c) s = server_disconnected e c s"
| "server_step e (Message c raw) s = on_client_message e c raw s"
| "server_step e (Answered c asn) s = reputation_answer e c asn s"

text \<open>A room without sessions, in any configuration.\<close>

definition empty_room :: "room \<Rightarrow> bool" where
  "empty_room g = (sessions g = pm_empty \<and> token_index g = pm_empty \<and> heap g = [] \<and>
     st_sessions_ao (stats g) = 0 \<and> st_sessions_nx (stats g) = 0 \<and> st_moderators (stats g) = 0 \<and>
     length (char_taken g) = length (characters g))"

inductive server_reach :: "'m ao_server \<Rightarrow> bool" where
  start: "empty_room g \<Longrightarrow> server_reach ((server_new g)\<lparr>sv_bans := bm, sv_spam := sd, sv_asn := am,
      sv_moderator := m, sv_users := us\<rparr>)"
| step: "server_reach s \<Longrightarrow> se_reload e = None \<Longrightarrow>
    (\<And>c. ev = Connected c \<Longrightarrow> get_session c (sv_room s) = None) \<Longrightarrow> server_reach (server_step e ev s)"

section \<open>The invariant\<close>

definition lookup :: "session_map \<Rightarrow> u64 \<rightharpoonup> nat" where
  "lookup sm c = pm_find std_hash_u64 c sm"

definition registry_ok :: "'m ao_server \<Rightarrow> bool" where
  "registry_ok s =
    (case registry s of ((sm, tm, _, ao, nx), (chars, taken_size, _), ids, idents) \<Rightarrow>
       pm_inv std_hash_u64 UNIV sm \<and> tm = pm_empty \<and>
       (\<forall>c p. lookup sm c = Some p \<longrightarrow> p < length idents \<and> (\<exists>i. idents ! p = (c, i, [], ''ao2''))) \<and>
       ao = int (card (dom (lookup sm))) \<and> nx = 0 \<and> taken_size = length chars \<and>
       distinct ids \<and> (\<forall>c. c \<in> set ids \<longleftrightarrow> lookup sm c \<noteq> None))"

definition holders :: "session_map \<Rightarrow> bool list \<Rightarrow> u64 set" where
  "holders sm bs = {c. \<exists>p. lookup sm c = Some p \<and> bs ! p}"

definition ranks_ok :: "'m ao_server \<Rightarrow> bool" where
  "ranks_ok s = (case ranks s of (sm, n, bs) \<Rightarrow> n = int (card (holders sm bs)))"

definition buffer_ok :: "string \<Rightarrow> bool" where
  "buffer_ok b = (length b \<le> MAX_INCOMPLETE_BUF \<and> find_sub DELIMITER b = None)"

definition buffers_ok :: "'m ao_server \<Rightarrow> bool" where
  "buffers_ok s = (\<forall>(c, b)\<in>set (buffers s). buffer_ok b)"

definition server_ok :: "'m ao_server \<Rightarrow> bool" where
  "server_ok s = (registry_ok s \<and> ranks_ok s \<and> buffers_ok s)"

lemma get_session_lookup: "get_session c g = lookup (sessions g) c"
  by (simp add: get_session_def lookup_def)

lemma finite_lookup: "pm_inv std_hash_u64 UNIV sm \<Longrightarrow> finite (dom (lookup sm))"
  using session_map.finite_dom_kmap [of sm] by (simp add: session_map.kmap_def [abs_def] lookup_def [abs_def])

lemma registry_okD:
  assumes "registry_ok s"
  shows "pm_inv std_hash_u64 UNIV (sessions (sv_room s))" and "token_index (sv_room s) = pm_empty"
    and "get_session c (sv_room s) = Some p \<Longrightarrow> p < length (heap (sv_room s)) \<and>
      s_client_id (session_at p s) = c \<and> s_session_token (session_at p s) = [] \<and> s_protocol (session_at p s) = ''ao2''"
    and "length (char_taken (sv_room s)) = length (characters (sv_room s))"
    and "get_protocol_state c s \<noteq> None \<longleftrightarrow> get_session c (sv_room s) \<noteq> None"
proof -
  note r = assms [unfolded registry_ok_def registry_def Let_def prod.case]
  show "pm_inv std_hash_u64 UNIV (sessions (sv_room s))" "token_index (sv_room s) = pm_empty"
    "length (char_taken (sv_room s)) = length (characters (sv_room s))"
    using r by simp_all
  show "get_protocol_state c s \<noteq> None \<longleftrightarrow> get_session c (sv_room s) \<noteq> None"
    using r by (simp add: get_protocol_state_def get_session_lookup map_of_eq_None_iff)
  assume "get_session c (sv_room s) = Some p"
  with r have "p < length (heap (sv_room s)) \<and> (\<exists>i. map ident (heap (sv_room s)) ! p = (c, i, [], ''ao2''))"
    by (simp add: get_session_lookup del: nth_map)
  then show "p < length (heap (sv_room s)) \<and>
      s_client_id (session_at p s) = c \<and> s_session_token (session_at p s) = [] \<and> s_protocol (session_at p s) = ''ao2''"
    by (auto simp: ident_def session_at_def)
qed

lemma registry_ok_cong: "registry s = registry t \<Longrightarrow> registry_ok s = registry_ok t"
  by (simp add: registry_ok_def)

lemma buffers_ok_cong: "buffers s = buffers t \<Longrightarrow> buffers_ok s = buffers_ok t"
  by (simp add: buffers_ok_def)

text \<open>The invariant and its part on the moderators are observations themselves.\<close>

interpretation ok: observer server_ok
  by (rule calm_observation) (simp add: server_ok_def registry_ok_def ranks_ok_def buffers_ok_def)

interpretation mods: steady_observer ranks_ok s_moderator
proof -
  have calm: "ranks_ok (calm s) = ranks_ok s" for s :: "'a ao_server" by (simp add: ranks_ok_def)
  show "steady_observer (ranks_ok :: 'a ao_server \<Rightarrow> bool) s_moderator"
    by (intro observer_intros calm)
       (auto simp: obs_laws ranks_ok_def ranks_def map_update_same char_select_fields)
qed

section \<open>Logging in and out\<close>

lemma registry_inj:
  assumes "registry_ok s" and "lookup (sessions (sv_room s)) c = Some p" and "lookup (sessions (sv_room s)) d = Some p"
  shows "c = d"
  using registry_okD(3) [OF assms(1), of c p] registry_okD(3) [OF assms(1), of d p] assms(2,3)
  by (simp add: get_session_lookup)

lemma ranks_change:
  assumes r: "registry_ok s" and g: "get_session c (sv_room s) = Some p" and k: "ranks_ok s"
    and m: "ranks s = (sm, n, bs)" and t: "ranks t = (sm, n + (if b then 1 else - 1), bs[p := b])" and b: "bs ! p \<noteq> b"
  shows "ranks_ok t"
proof -
  have sm: "sm = sessions (sv_room s)" and bs: "bs = map s_moderator (heap (sv_room s))"
    using m by (simp_all add: ranks_def)
  have p: "p < length bs" "lookup sm c = Some p"
    using registry_okD(3) [OF r g] g by (simp_all add: bs sm get_session_lookup)
  have other: "q \<noteq> p" if "lookup sm d = Some q" "d \<noteq> c" for d q
    using registry_inj [OF r, of c p d] that p(2) sm by auto
  have "finite (holders sm bs)"
    by (rule finite_subset [OF _ finite_lookup [OF registry_okD(1) [OF r]]]) (auto simp: holders_def sm)
  moreover have "holders sm (bs[p := b]) = (if b then insert c (holders sm bs) else holders sm bs - {c})"
  proof (rule set_eqI)
    fix d
    show "d \<in> holders sm (bs[p := b]) \<longleftrightarrow> d \<in> (if b then insert c (holders sm bs) else holders sm bs - {c})"
      using p other [of d] by (cases "d = c"; cases "lookup sm d") (auto simp: holders_def)
  qed
  moreover have "c \<in> holders sm bs \<longleftrightarrow> \<not> b" using p b by (auto simp: holders_def)
  moreover have "n = int (card (holders sm bs))" using k m by (simp add: ranks_ok_def)
  moreover have "card (holders sm bs) > 0" if "\<not> b"
    using that calculation by (auto simp: card_gt_0_iff)
  ultimately show ?thesis using t by (cases b) (simp_all add: ranks_ok_def of_nat_diff Suc_leI)
qed

lemma ranks_log_in: "ranks (log_in p r w s) = (case ranks s of (sm, n, bs) \<Rightarrow> (sm, n + 1, bs[p := True]))"
  by (simp add: ranks_def log_in_def on_session_def count_moderators_def map_update)

lemma ranks_log_out: "ranks (log_out p s) = (case ranks s of (sm, n, bs) \<Rightarrow> (sm, n - 1, bs[p := False]))"
  by (simp add: ranks_def log_out_def on_session_def count_moderators_def map_update)

lemma login_ranks:
  "ranks (snd (cmd_login e p args s)) = ranks s \<or>
   \<not> s_moderator (session_at p s) \<and> (\<exists>r w. ranks (snd (cmd_login e p args s)) = ranks (log_in p r w s))"
  by (auto simp: cmd_login_def login_simple_def login_advanced_def Let_def rank.undef split: option.split)

lemma rootpass_ranks:
  "ranks (snd (cmd_rootpass e p args s)) = ranks s \<or> ranks (snd (cmd_rootpass e p args s)) = ranks (log_out p s)"
  by (auto simp: cmd_rootpass_def with_users_def Let_def ranks_log_out rank.auth_type rank.accounts
      split: option.split prod.split)

lemma log_in_out_ranks_ok:
  assumes "server_ok s" and "get_session c (sv_room s) = Some p"
  shows "\<not> s_moderator (session_at p s) \<Longrightarrow> ranks_ok (log_in p ro w s)"
    and "s_moderator (session_at p s) \<Longrightarrow> ranks_ok (log_out p s)"
proof -
  have r: "registry_ok s" "ranks_ok s" using assms(1) by (simp_all add: server_ok_def)
  obtain sm n bs where m: "ranks s = (sm, n, bs)" by (cases "ranks s")
  have p: "bs ! p = s_moderator (session_at p s)"
    using m registry_okD(3) [OF r(1) assms(2)] by (auto simp: ranks_def session_at_def)
  show "\<not> s_moderator (session_at p s) \<Longrightarrow> ranks_ok (log_in p ro w s)"
    using ranks_change [OF r(1) assms(2) r(2) m, where t = "log_in p ro w s" and b = True] m p by (simp add: ranks_log_in)
  show "s_moderator (session_at p s) \<Longrightarrow> ranks_ok (log_out p s)"
    using ranks_change [OF r(1) assms(2) r(2) m, where t = "log_out p s" and b = False] m p by (simp add: ranks_log_out)
qed

lemma refusal_log_out:
  "find_command ''logout'' = Some c \<Longrightarrow> permission_refusal c x = None \<Longrightarrow> s_moderator x"
  "find_command ''rootpass'' = Some c \<Longrightarrow> permission_refusal c x = None \<Longrightarrow> s_moderator x"
  by (auto simp: find_command_def command_specs_def area_command_specs_def staff_command_specs_def command_spec_defs spec_def
      moderator_spec_def permission_refusal_def ACL_NONE_def ACL_SUPER_def split: if_splits)

section \<open>Preservation\<close>

lemma server_ok_parts:
  assumes "registry t = registry s" and "buffers t = buffers s" and "ranks_ok t" and "server_ok s"
  shows "server_ok t"
  using assms registry_ok_cong [OF assms(1)] buffers_ok_cong [OF assms(2)] by (simp add: server_ok_def)

lemma ranks_okI: "ranks t = ranks s \<Longrightarrow> ranks_ok s \<Longrightarrow> ranks_ok t"
  by (simp add: ranks_ok_def)

lemma execute_ranks_ok:
  assumes ok: "server_ok s" and g: "get_session c (sv_room s) = Some p" and e: "se_reload e = None"
    and f: "find_command n = Some k" and r: "permission_refusal k (session_at p s) = None"
  shows "ranks_ok (snd (execute n e p args s))"
proof -
  have k: "ranks_ok s" using ok by (simp add: server_ok_def)
  consider "n \<notin> {''login'', ''logout'', ''rootpass''}" | "n = ''login''" | "n = ''logout''" | "n = ''rootpass''" by blast
  then show ?thesis
  proof cases
    case 1
    then show ?thesis using mods.steady_execute [OF e 1] k by simp
  next
    case 2
    from login_ranks [of e p args s] show ?thesis
      using 2 ranks_okI [OF _ k] ranks_okI [OF _ log_in_out_ranks_ok(1) [OF ok g]] by auto
  next
    case 3
    then have "s_moderator (session_at p s)" using refusal_log_out(1) f r by blast
    then show ?thesis using 3 log_in_out_ranks_ok(2) [OF ok g] by (simp add: cmd_logout_def)
  next
    case 4
    then have "s_moderator (session_at p s)" using refusal_log_out(2) f r by blast
    from rootpass_ranks [of e p args s] this show ?thesis
      using 4 ranks_okI [OF _ k] ranks_okI [OF _ log_in_out_ranks_ok(2) [OF ok g]] by auto
  qed
qed

lemma try_dispatch_ranks_ok:
  assumes "server_ok s" and "get_session c (sv_room s) = Some p" and "se_reload e = None"
  shows "ranks_ok (snd (snd (try_dispatch e p msg s)))"
  using execute_ranks_ok [OF assms] assms(1)
  by (simp add: try_dispatch_def Let_def server_ok_def split: option.split)

lemma server_dispatch_ok:
  assumes ok: "server_ok s" and e: "se_reload e = None"
  shows "server_ok (server_dispatch e c pkt s)"
proof (rule server_ok_parts [OF reg.server_dispatch bufs.server_dispatch _ ok])
  have k: "ranks_ok s" using ok by (simp add: server_ok_def)
  show "ranks_ok (server_dispatch e c pkt s)"
  proof (cases "get_session c (sv_room s)")
    case (Some p)
    have CT: "ranks_ok (handle_CT e p n msg s)" for n msg
      using try_dispatch_ranks_ok [OF ok Some e, of msg] k by (simp add: handle_CT_def split_beta)
    have "ranks_ok (server_handle e p pkt s)"
    proof (cases "\<exists>n msg b. body pkt = CT n msg b")
      case True
      then show ?thesis using CT by (auto simp: server_handle_def)
    next
      case False
      then show ?thesis using k mods.packets [of pkt e p s] by blast
    qed
    then show ?thesis using Some k by (simp add: server_dispatch_def)
  qed (simp add: server_dispatch_def k)
qed (use e in simp_all)

lemma server_frame_ok: "server_ok s \<Longrightarrow> se_reload e = None \<Longrightarrow> server_ok (server_frame e c w s)"
  using server_dispatch_ok [of s e c]
  by (simp add: server_frame_def safe_dispatch_def split: sum.split dispatch_result.split prod.split)

lemma buffers_set: "buffers (set_buffer c b s) = map (\<lambda>(d, x). (d, if d = c then b else x)) (buffers s)" if "distinct (map fst (sv_proto s))"
proof -
  have *: "map (\<lambda>(c, ps). (c, incomplete_buf ps)) (AList.update c (ps\<lparr>incomplete_buf := b\<rparr>) xs) =
      map (\<lambda>(d, x). (d, if d = c then b else x)) (map (\<lambda>(c, ps). (c, incomplete_buf ps)) xs)"
    if "distinct (map fst xs)" "map_of xs c = Some ps" for xs :: "(u64 \<times> protocol_state) list" and ps
    using that by (induction xs) (auto split: if_splits simp: rev_image_eqI)
  have "map (\<lambda>(d, x). (d, if d = c then b else x)) (map (\<lambda>(c, ps). (c, incomplete_buf ps)) xs) =
      map (\<lambda>(c, ps). (c, incomplete_buf ps)) xs" if "map_of xs c = None" for xs :: "(u64 \<times> protocol_state) list"
    using that by (induction xs) (auto split: if_splits)
  with * [OF that] show ?thesis
    by (auto simp: buffers_def set_buffer_def get_protocol_state_def set_protocol_state_def split: option.split)
qed

lemma set_buffer_ok:
  assumes ok: "server_ok s" and b: "buffer_ok b"
  shows "server_ok (set_buffer c b s)"
proof -
  have d: "distinct (map fst (sv_proto s))"
    using ok by (simp add: server_ok_def registry_ok_def registry_def Let_def)
  have "registry (set_buffer c b s) = registry s" "ranks (set_buffer c b s) = ranks s"
    by (auto simp: set_buffer_def set_protocol_state_def get_protocol_state_def registry_def ranks_def Let_def
        AList_update_map_fst split: option.split)
  moreover have "buffers_ok (set_buffer c b s)"
    using ok b by (auto simp: buffers_ok_def server_ok_def buffers_set [OF d] split: if_splits)
  ultimately show ?thesis
    using ok by (simp add: server_ok_def registry_ok_def ranks_ok_def)
qed

lemma calm_update: "(\<And>x. no_traffic (f x) = no_traffic x) \<Longrightarrow> calm (on_room (update_session p f) s) = calm s"
  by (simp add: calm_def on_room_def update_session_def map_update_same)

lemma calm_received: "calm (on_room (count_received c n) s) = calm s"
proof (cases "get_session c (sv_room s)")
  case (Some p)
  then have "on_room (count_received c n) s = on_room (update_session p
      (\<lambda>x. x\<lparr>s_bytes_received := s_bytes_received x + of_nat n, s_packets_received := s_packets_received x + 1\<rparr>)) s"
    by (simp add: on_room_def count_received_def)
  then show ?thesis by (simp only:) (rule calm_update, simp add: no_traffic_def)
qed (simp add: calm_def on_room_def count_received_def)

lemma server_ok_received: "server_ok (on_room (count_received c n) s) = server_ok s"
proof -
  have "server_ok (calm t) = server_ok t" for t :: "'a ao_server"
    by (simp add: server_ok_def registry_ok_def ranks_ok_def buffers_ok_def)
  then show ?thesis by (metis calm_received)
qed

lemma drain_length: "length (fst (drain h b s)) \<le> length b"
proof (induction "length b" arbitrary: b s rule: less_induct)
  case less
  show ?case
  proof (cases "find_sub DELIMITER b")
    case None
    then show ?thesis by (simp add: drain_None)
  next
    case (Some pos)
    then have "pos + length DELIMITER \<le> length b" using find_sub_Some by blast
    then have l: "length (drop (pos + length DELIMITER) b) < length b" by (simp add: DELIMITER_def)
    have "drain h b s = drain h (drop (pos + length DELIMITER) b) (h (take (pos + length DELIMITER) b) s)"
      using Some by (subst drain.simps) simp
    with less [OF l] l show ?thesis by (metis order_trans less_imp_le)
  qed
qed

lemma message_ok:
  assumes ok: "server_ok s" and e: "se_reload e = None"
  shows "server_ok (on_client_message e c raw s)"
proof (cases "get_protocol_state c s")
  case (Some ps)
  let ?s1 = "on_room (count_received c (length raw)) s" and ?buf = "incomplete_buf ps @ raw"
  have ok1: "server_ok ?s1" using ok by (simp add: server_ok_received)
  show ?thesis
  proof (cases "length ?buf > MAX_INCOMPLETE_BUF")
    case True
    have "buffer_ok []" by (simp add: buffer_ok_def DELIMITER_def)
    then show ?thesis using Some True ok1 by (simp add: on_client_message_def Let_def set_buffer_ok)
  next
    case False
    obtain rest s2 where d: "drain (server_frame e c) ?buf ?s1 = (rest, s2)"
      by (cases "drain (server_frame e c) ?buf ?s1")
    have "server_ok s2"
      using drain_invariant [of server_ok "server_frame e c" ?s1 ?buf, OF server_frame_ok [OF _ e] ok1] d by simp
    moreover have "buffer_ok rest"
      using drain_length [of "server_frame e c" ?buf ?s1] drain_done [OF d] d False by (simp add: buffer_ok_def)
    ultimately show ?thesis using Some False d by (simp add: on_client_message_def Let_def set_buffer_ok)
  qed
qed (simp add: on_client_message_def ok)

lemma connected_ok:
  assumes ok: "server_ok s" and new: "get_session c (sv_room s) = None"
  shows "server_ok (server_connected e c s)"
proof -
  let ?g = "sv_room s" and ?p = "length (heap (sv_room s))"
  have r: "registry_ok s" "ranks_ok s" "buffers_ok s" using ok by (simp_all add: server_ok_def)
  have absent: "map_of (sv_proto s) c = None" using registry_okD(5) [OF r(1), of c] new by (simp add: get_protocol_state_def)
  obtain p g where cr: "create_session (se_steady_ns e) c ''ao2'' ?g = (p, g)"
    by (cases "create_session (se_steady_ns e) c ''ao2'' ?g")
  note g = create_eq [OF cr]
  let ?s1 = "s\<lparr>sv_room := g, sv_proto := sv_proto s @ [(c, protocol_state_new)]\<rparr>"
  note reg = r(1) [unfolded registry_ok_def registry_def Let_def prod.case]
  have find: "lookup (pm_set std_hash_u64 c ?p (sessions ?g)) = (lookup (sessions ?g))(c \<mapsto> ?p)"
    using reg by (auto simp: lookup_def session_map.find_set fun_eq_iff)
  have notin: "c \<notin> dom (lookup (sessions ?g))" using new by (auto simp: get_session_lookup)
  have idents: "map ident (heap g) = map ident (heap ?g) @ [(c, next_session_id ?g, [], ''ao2'')]"
    using g by (simp add: ident_def fresh_session_def session_new_def)
  have lt: "p < length (heap ?g)" if "lookup (sessions ?g) d = Some p" for d p
    using registry_okD(3) [OF r(1)] that by (simp add: get_session_lookup)
  have idents_ok: "q < length (map ident (heap g)) \<and> (\<exists>i. map ident (heap g) ! q = (d, i, [], ''ao2''))"
    if "lookup (sessions g) d = Some q" for d q
  proof (cases "d = c")
    case True
    then show ?thesis using that g by (simp add: find idents nth_append ident_def del: map_append)
  next
    case False
    then have "lookup (sessions ?g) d = Some q" using that g by (simp add: find)
    then have "q < length (map ident (heap ?g)) \<and> (\<exists>i. map ident (heap ?g) ! q = (d, i, [], ''ao2''))"
      using reg by blast
    then show ?thesis unfolding idents by (auto simp: nth_append)
  qed
  have "card (dom (lookup (sessions g))) = Suc (card (dom (lookup (sessions ?g))))"
    using g notin finite_lookup [OF registry_okD(1) [OF r(1)]] by (simp add: find)
  then have "registry_ok ?s1"
    using reg g absent idents_ok unfolding registry_ok_def registry_def Let_def prod.case
    by (auto simp: find session_map.inv_set count_session_def map_of_eq_None_iff simp del: length_map nth_map)
  moreover have "holders (sessions g) (map s_moderator (heap g)) = holders (sessions ?g) (map s_moderator (heap ?g))"
    using g lt new by (auto simp: holders_def find nth_append get_session_lookup fresh_session_facts split: if_splits)
  then have "ranks_ok ?s1"
    using r(2) g by (simp add: ranks_ok_def ranks_def count_session_def)
  moreover have "buffers_ok ?s1"
    using r(3) by (auto simp: buffers_ok_def buffers_def protocol_state_new_def buffer_ok_def DELIMITER_def)
  ultimately have ok1: "server_ok ?s1" by (simp add: server_ok_def)
  have "server_ok (on_session p (\<lambda>x. x\<lparr>s_ip_address := a\<rparr>) ?s1)" for a
    by (rule server_ok_parts [OF _ _ _ ok1])
       (use ok1 in \<open>simp_all add: reg.own_session bufs.own_session mods.own_session ident_def server_ok_def\<close>)
  then show ?thesis using cr absent ok1 by (simp add: server_connected_def Let_def)
qed

lemma drop_cm_observed:
  "registry (on_room (drop_cm_everywhere c) s) = registry s" "ranks (on_room (drop_cm_everywhere c) s) = ranks s"
  "buffers (on_room (drop_cm_everywhere c) s) = buffers s"
  by (simp_all add: registry_def ranks_def buffers_def drop_cm_everywhere_def Let_def)

lemma destroy_ok:
  assumes ok: "server_ok s"
  shows "server_ok ((on_room (destroy_session h c) s)\<lparr>sv_proto := AList.delete c (sv_proto s)\<rparr>)" (is "server_ok ?t")
proof (cases "get_session c (sv_room s)")
  case None
  have "c \<notin> fst ` set (sv_proto s)"
    using None registry_okD(5) [of s c] ok by (simp add: server_ok_def get_protocol_state_def map_of_eq_None_iff)
  then have "?t = s" using None by (simp add: on_room_def destroy_session_def delete_id)
  then show ?thesis using ok by simp
next
  case (Some p)
  let ?g = "sv_room s" and ?h = "destroy_session h c (sv_room s)"
  have r: "registry_ok s" "ranks_ok s" "buffers_ok s" using ok by (simp_all add: server_ok_def)
  note x = registry_okD(3) [OF r(1) Some] and fin = finite_lookup [OF registry_okD(1) [OF r(1)]]
  note reg = r(1) [unfolded registry_ok_def registry_def Let_def prod.case]
  have h: "sessions ?h = pm_erase std_hash_u64 c (sessions ?g)" "token_index ?h = token_index ?g"
    "heap ?h = heap ?g" "length (char_taken ?h) = length (char_taken ?g)" "characters ?h = characters ?g"
    "st_sessions_ao (stats ?h) = st_sessions_ao (stats ?g) - 1" "st_sessions_nx (stats ?h) = st_sessions_nx (stats ?g)"
    "st_moderators (stats ?h) = st_moderators (stats ?g) - (if s_moderator (heap ?g ! p) then 1 else 0)"
    using Some x by (auto simp: destroy_session_def Let_def free_char_def count_session_def session_at_def)
  have find: "lookup (pm_erase std_hash_u64 c (sessions ?g)) = (lookup (sessions ?g))(c := None)"
    using reg by (auto simp: lookup_def session_map.find_erase fun_eq_iff)
  have here: "lookup (sessions ?g) c = Some p" using Some by (simp add: get_session_lookup)
  then have c: "c \<in> dom (lookup (sessions ?g))" by auto
  have "card (dom (lookup (sessions ?h))) = card (dom (lookup (sessions ?g))) - 1"
    using fin c by (simp add: h(1) find card_Diff_singleton)
  moreover have "card (dom (lookup (sessions ?g))) > 0" using fin c by (auto simp: card_gt_0_iff)
  ultimately have "registry_ok ?t"
    using reg unfolding registry_ok_def registry_def Let_def prod.case
    by (auto simp: h find session_map.inv_erase of_nat_diff Suc_leI delete_keys
        distinct_removeAll split: if_splits simp del: length_map nth_map)
  moreover have "ranks_ok ?t"
  proof -
    have H: "holders (pm_erase std_hash_u64 c (sessions ?g)) bs = holders (sessions ?g) bs - {c}" for bs
      by (auto simp: holders_def find)
    have "finite (holders (sessions ?g) bs)" for bs
      by (rule finite_subset [OF _ fin]) (auto simp: holders_def)
    moreover have "c \<in> holders (sessions ?g) (map s_moderator (heap ?g)) \<longleftrightarrow> s_moderator (heap ?g ! p)"
      using here x by (simp add: holders_def)
    moreover have "card (holders (sessions ?g) (map s_moderator (heap ?g))) > 0" if "s_moderator (heap ?g ! p)"
      using that calculation by (auto simp: card_gt_0_iff)
    ultimately show ?thesis
      using r(2) by (cases "s_moderator (heap ?g ! p)")
        (simp_all add: ranks_ok_def ranks_def h(3,8) H h(1) card_Diff_singleton_if of_nat_diff Suc_leI)
  qed
  moreover have "buffers_ok ?t"
    using r(3) by (fastforce simp: buffers_ok_def buffers_def AList.delete_eq)
  ultimately show ?thesis by (simp add: server_ok_def)
qed

lemma disconnected_ok:
  assumes "server_ok s"
  shows "server_ok (server_disconnected e c s)"
proof -
  have dropped: "server_ok (on_room (drop_cm_everywhere c) (broadcast_player_remove e i s))" for i
    using assms drop_cm_observed [of c "broadcast_player_remove e i s"] ok.players(2) [of e i s]
    by (simp add: server_ok_def registry_ok_def ranks_ok_def buffers_ok_def)
  show ?thesis
    using destroy_ok [OF assms] destroy_ok [OF dropped]
    by (auto simp: server_disconnected_def Let_def split: option.split)
qed

lemma start_ok:
  assumes "empty_room g"
  shows "server_ok ((server_new g)\<lparr>sv_bans := bm, sv_spam := sd, sv_asn := am, sv_moderator := m, sv_users := us\<rparr>)"
proof -
  have "lookup pm_empty = Map.empty" by (simp add: lookup_def pm_find_empty fun_eq_iff)
  then show ?thesis
    using assms
    by (simp add: server_ok_def registry_ok_def registry_def ranks_ok_def ranks_def buffers_ok_def buffers_def
        server_new_def empty_room_def Let_def add_ic_broadcast_def add_ooc_broadcast_def add_char_select_broadcast_def
        add_music_broadcast_def add_chars_taken_broadcast_def session_map.inv_empty holders_def)
qed

lemma server_reach_ok: "server_reach s \<Longrightarrow> server_ok s"
proof (induction rule: server_reach.induct)
  case (step s e ev)
  then show ?case
    by (cases ev) (simp_all add: connected_ok disconnected_ok message_ok reputation_answer_def)
qed (rule start_ok)

end
