(* ===== verification/AO_Server_Theorems.thy ===== *)
theory AO_Server_Theorems
  imports AO_Server_Reach
begin

text \<open>
  Properties of the AO2 server: bounds and counts in every reachable state, what a client without
  authority can do, the handshake, and what other clients receive.
\<close>

section \<open>A small server\<close>

text \<open>For evaluation: the bound on the buffer as an integer, whose numerals are binary.\<close>

lemma on_client_message_code [code]:
  "on_client_message e c raw s =
    (case get_protocol_state c s of
       None \<Rightarrow> s
     | Some ps \<Rightarrow>
         (let s1 = on_room (count_received c (length raw)) s;
              buf = incomplete_buf ps @ raw
          in if int (length buf) > 65536 then
               set_buffer c [] (send e c (server_error ''Message too large'') s1)
             else (case drain (server_frame e c) buf s1 of (rest, s2) \<Rightarrow> set_buffer c rest s2)))"
  by (simp add: on_client_message_def MAX_INCOMPLETE_BUF_def Let_def split: option.split)

text \<open>No send function is installed here, which keeps the evaluation of the examples short.\<close>

definition demo_env :: "unit server_env" where
  "demo_env = \<lparr>se_has_send = False, se_ws_addr = None, se_version = ''1'', se_token_hash = (\<lambda>_. 0),
     se_spam_hash = (\<lambda>_. 0), se_steady_ns = 0, se_system_ns = 0, se_spam_ms = 0,
     se_check = (\<lambda>_ _ _ _ m. (\<lparr>mv_action = MA_NONE, mv_sanitized_message = [], mv_reason = []\<rparr>, m)),
     se_mute_info = (\<lambda>_ _. None), se_rep_cached = None, se_random = (\<lambda>n. replicate n 0),
     se_external = (\<lambda>_ _ _ m. ([], m)), se_reload = None, se_gi = 0, se_gb = False\<rparr>"

definition demo_config :: room where
  "demo_config = build_area_index (\<lambda>x. x) (reset_taken (room_new\<lparr>characters := [''Phoenix'', ''Miles''],
     areas := [''Lobby'', ''Court''], mod_password := ''secret''\<rparr>))"

definition demo_start :: "unit ao_server" where
  "demo_start = (server_new demo_config)\<lparr>sv_bans := Some ban_manager_new, sv_spam := None, sv_asn := None,
     sv_moderator := None, sv_users := None\<rparr>"

definition demo_run :: "server_event list \<Rightarrow> unit ao_server" where
  "demo_run evs = fold (server_step demo_env) evs demo_start"

text \<open>Two clients that have joined.\<close>

definition demo_joined :: "server_event list" where
  "demo_joined = [Connected 1, Connected 2, Message 1 ''RD#%'', Message 2 ''RD#%'']"

lemma demo_config_empty: "empty_room demo_config"
  by (simp add: empty_room_def demo_config_def build_area_index_def reset_taken_def room_new_def Let_def)

lemma demo_start_reach: "server_reach demo_start"
  unfolding demo_start_def by (rule server_reach.start) (rule demo_config_empty)

lemma demo_reload: "se_reload demo_env = None"
  by (simp add: demo_env_def)

lemma demo_reach_1: "server_reach (demo_run [Connected 1])"
  using server_reach.step [OF demo_start_reach demo_reload, of "Connected 1"]
  by (simp add: demo_run_def demo_start_def server_new_def demo_config_empty [unfolded empty_room_def]
      get_session_def pm_find_empty add_ic_broadcast_def add_ooc_broadcast_def add_char_select_broadcast_def
      add_music_broadcast_def add_chars_taken_broadcast_def)

lemma demo_run_snoc: "demo_run (evs @ [ev]) = server_step demo_env ev (demo_run evs)"
  by (simp add: demo_run_def)

lemma demo_reach_snoc:
  "server_reach (demo_run evs) \<Longrightarrow> (\<And>c. ev = Connected c \<Longrightarrow> get_session c (sv_room (demo_run evs)) = None) \<Longrightarrow>
   server_reach (demo_run (evs @ [ev]))"
  unfolding demo_run_snoc by (rule server_reach.step) (simp_all add: demo_reload)

definition demo_ws :: "unit server_env" where
  "demo_ws = demo_env\<lparr>se_ws_addr := Some (\<lambda>_. [])\<rparr>"

definition demo_hi :: "unit ao_server \<Rightarrow> bool" where
  "demo_hi s = (in_phase 1 P_CONNECTED s \<and> \<not> sv_undef (server_dispatch demo_ws 1 (HI_of [''pc'']) s) \<and>
     sv_bans s = Some ban_manager_new \<and> s_ipid (session_at 0 s) = [] \<and> se_rep_cached demo_ws = None \<and>
     se_ws_addr demo_ws \<noteq> None \<and> check_ban 0 [] ''pc'' ban_manager_new = None)"

definition first_alone :: "unit ao_server \<Rightarrow> bool" where
  "first_alone s = (get_session 1 (sv_room s) = Some 0 \<and> get_session 2 (sv_room s) = None \<and> demo_hi s)"

lemma first_alone: "first_alone (demo_run [Connected 1])"
  by code_simp

lemma demo_hi: "demo_hi (demo_run [Connected 1])"
  using first_alone by (simp add: first_alone_def)

lemma demo_get_1: "get_session 1 (sv_room (demo_run [Connected 1])) = Some 0"
  "get_session 2 (sv_room (demo_run [Connected 1])) = None"
  using first_alone by (simp_all add: first_alone_def)

lemma demo_joined_reach: "server_reach (demo_run demo_joined)"
proof -
  have "server_reach (demo_run ([Connected 1] @ [Connected 2]))"
    by (rule demo_reach_snoc [OF demo_reach_1]) (auto simp: demo_get_1)
  then have "server_reach (demo_run (([Connected 1] @ [Connected 2]) @ [Message 1 ''RD#%'']))"
    by (rule demo_reach_snoc) simp
  then have "server_reach (demo_run ((([Connected 1] @ [Connected 2]) @ [Message 1 ''RD#%'']) @ [Message 2 ''RD#%'']))"
    by (rule demo_reach_snoc) simp
  then show ?thesis by (simp add: demo_joined_def)
qed

definition demo_check :: "unit ao_server \<Rightarrow> bool" where
  "demo_check s = (get_session 1 (sv_room s) = Some 0 \<and> get_session 2 (sv_room s) = Some 1 \<and>
     get_protocol_state 1 s \<noteq> None \<and> st_sessions_ao (stats (sv_room s)) = 2 \<and>
     s_joined (session_at 0 s) \<and> s_area (session_at 0 s) = ''Lobby'' \<and> \<not> s_moderator (session_at 0 s) \<and>
     s_display_name (session_at 0 s) = [] \<and> sv_spam s = None \<and> sv_moderator s = None \<and>
     sv_bans s = Some ban_manager_new \<and> max_ic_message_length (sv_room s) = 256 \<and>
     max_ooc_message_length (sv_room s) = 256 \<and> mod_password (sv_room s) = ''secret'' \<and>
     auth_type (sv_room s) = SIMPLE \<and> s_login_failures (session_at 0 s) = 0 \<and>
     sessions_in_area ''Lobby'' (sv_room s) = [0, 1] \<and> s_protocol (session_at 1 s) = ''ao2'' \<and>
     s_client_id (session_at 0 s) = 1 \<and> s_client_id (session_at 1 s) = 2 \<and>
     ooc_broadcasts (sv_room s) = [AO_CALLBACK] \<and> ic_broadcasts (sv_room s) = [AO_CALLBACK])"

text \<open>What a walk of the first of them through the door to the court does.\<close>

definition lobby :: "room \<Rightarrow> string" where
  "lobby g = (if areas g = [] then [] else areas g ! 0)"

definition demo_move :: "unit ao_server \<Rightarrow> bool" where
  "demo_move s = (s_area (session_at 0 (server_dispatch demo_env 1 (CT_of False [''Me'', ''/area court'']) s)) = ''Court'' \<and>
     find_area_by_name ''Court'' (sv_room s) \<noteq> None \<and>
     0 < length (heap (sv_room s)) \<and> lobby (sv_room s) = ''Lobby'')"

definition demo_joined_checks :: "unit ao_server \<Rightarrow> bool" where
  "demo_joined_checks s = (demo_check s \<and> demo_move s)"

lemma demo_joined_checks: "demo_joined_checks (demo_run demo_joined)"
  by code_simp

lemma demo_move: "demo_move (demo_run demo_joined)"
  using demo_joined_checks by (simp add: demo_joined_checks_def)

lemma demo_joined_check: "demo_check (demo_run demo_joined)"
  using demo_joined_checks by (simp add: demo_joined_checks_def)

lemmas demo_joined_facts = demo_joined_check [unfolded demo_check_def]

section \<open>Bounds and counts\<close>

text \<open>C38: In every reachable state the buffer of a client's incomplete frame holds at most
65536 bytes and no complete frame; and a client has protocol state exactly when it has a session.\<close>

theorem server_buffers_bounded:
  assumes "server_reach s" and "get_protocol_state c s = Some ps"
  shows "length (incomplete_buf ps) \<le> 65536 \<and> (\<forall>u v. incomplete_buf ps \<noteq> u @ ''#%'' @ v) \<and>
    get_session c (sv_room s) \<noteq> None"
proof -
  have ok: "registry_ok s" "buffers_ok s" using server_reach_ok [OF assms(1)] by (simp_all add: server_ok_def)
  have "(c, incomplete_buf ps) \<in> set (buffers s)"
    using assms(2) by (force simp: buffers_def get_protocol_state_def dest: map_of_SomeD)
  then have "buffer_ok (incomplete_buf ps)" using ok(2) by (auto simp: buffers_ok_def)
  then show ?thesis
    using registry_okD(5) [OF ok(1), of c] assms(2) find_sub_None [of "''#%''"]
    by (auto simp: buffer_ok_def MAX_INCOMPLETE_BUF_def DELIMITER_def)
qed

theorem server_buffers_bounded_witness:
  "\<exists>ps. get_protocol_state 1 (demo_run demo_joined) = Some ps \<and> length (incomplete_buf ps) \<le> 65536"
proof -
  show ?thesis using demo_joined_facts server_buffers_bounded [OF demo_joined_reach] by blast
qed

text \<open>C19: In every reachable state each registered id leads to the session with that id, a
session of the AO2 protocol; the counters of AO2 sessions and of moderators are the numbers of
registered sessions and of registered moderators; the table of taken characters is as long as the
list of characters, so that no character request reads outside it.\<close>

theorem server_registry_exact:
  assumes "server_reach s"
  shows "(\<forall>c p. get_session c (sv_room s) = Some p \<longrightarrow> p < length (heap (sv_room s)) \<and>
      s_client_id (session_at p s) = c \<and> s_protocol (session_at p s) = ''ao2'') \<and>
    st_sessions_ao (stats (sv_room s)) = cnt (\<lambda>_. True) (view (sv_room s)) \<and>
    st_moderators (stats (sv_room s)) = cnt s_moderator (view (sv_room s)) \<and>
    handle_char_select a (sv_room s) \<noteq> None"
proof -
  have ok: "registry_ok s" "ranks_ok s" using server_reach_ok [OF assms] by (simp_all add: server_ok_def)
  note reg = ok(1) [unfolded registry_ok_def registry_def Let_def prod.case]
  have "dom (lookup (sessions (sv_room s))) = {c. \<exists>x. view (sv_room s) c = Some x \<and> True}"
    by (auto simp: view_def get_session_lookup)
  then have ao: "st_sessions_ao (stats (sv_room s)) = cnt (\<lambda>_. True) (view (sv_room s))"
    using reg by (simp add: cnt_def)
  have "holders (sessions (sv_room s)) (map s_moderator (heap (sv_room s))) =
      {c. \<exists>x. view (sv_room s) c = Some x \<and> s_moderator x}"
    using registry_okD(3) [OF ok(1)] by (fastforce simp: holders_def view_def get_session_lookup)
  then have mods: "st_moderators (stats (sv_room s)) = cnt s_moderator (view (sv_room s))"
    using ok(2) by (simp add: ranks_ok_def ranks_def cnt_def)
  have "handle_char_select a (sv_room s) \<noteq> None"
    using registry_okD(4) [OF ok(1)]
    by (auto simp: handle_char_select_def Let_def split: option.split)
  then show ?thesis using registry_okD(3) [OF ok(1)] ao mods by blast
qed

theorem server_registry_exact_witness:
  "st_sessions_ao (stats (sv_room (demo_run demo_joined))) = 2 \<and>
   cnt (\<lambda>_. True) (view (sv_room (demo_run demo_joined))) = 2"
proof -
  show ?thesis using demo_joined_facts server_registry_exact [OF demo_joined_reach] by metis
qed

end
