(* ===== verification/AO_Server_Safety.thy ===== *)
theory AO_Server_Safety
  imports AO_Server_Theorems
begin

text \<open>
  What a client may and may not do to the server: authority is gained by the right password only,
  a locked area is not entered, a banned client does not pass the handshake.
\<close>

section \<open>Authority\<close>

text \<open>The arguments of a log-in that a packet asks for.\<close>

definition login_args :: "ao_packet \<Rightarrow> string list option" where
  "login_args pkt =
    (case body pkt of
       CT _ msg _ \<Rightarrow>
         if msg \<noteq> [] \<and> hd msg = CHR ''/'' \<and> command_args msg \<noteq> [] \<and> hd (command_args msg) = ''login''
         then Some (tl (command_args msg)) else None
     | _ \<Rightarrow> None)"

text \<open>The role and the account name that a log-in with these arguments deserves.\<close>

definition granted :: "string list \<Rightarrow> 'm ao_server \<Rightarrow> (string \<times> string) option" where
  "granted as s =
    (if auth_type (sv_room s) = ADVANCED then
       (case sv_users s of
          Some us \<Rightarrow>
            if length as < 2 then None
            else (case get_user (as ! 0) us of
                    Some u \<Rightarrow> if verify_password (as ! 1) (us_salt u) (us_password u)
                              then Some (us_acl u, us_username u) else None
                  | None \<Rightarrow> None)
        | None \<Rightarrow> None)
     else if as \<noteq> [] \<and> mod_password (sv_room s) \<noteq> [] \<and> simple_password_matches (mod_password (sv_room s)) (as ! 0)
     then Some (''SUPER'', []) else None)"

lemma area_names: "map fst area_handlers = map cs_name area_command_specs"
  by (simp add: area_handlers_def area_command_specs_def command_spec_defs spec_def)

lemma open_commands:
  "list_all (\<lambda>k. cs_required_permission k = ACL_NONE \<and> \<not> cs_requires_moderator k \<longrightarrow>
     cs_name k \<in> set (''login'' # ''listperms'' # map cs_name area_command_specs)) command_specs"
  by code_simp

lemma open_command:
  assumes "find_command n = Some k" and "permission_refusal k x = None" and "\<not> s_moderator x"
  shows "n = ''login'' \<or> n = ''listperms'' \<or> n \<in> set (map cs_name area_command_specs)"
proof -
  have k: "k \<in> set command_specs" "cs_name k = n"
    using assms(1) by (auto simp: find_command_def find_Some_iff)
  have "cs_required_permission k = ACL_NONE \<and> \<not> cs_requires_moderator k"
    using assms(2,3) by (auto simp: permission_refusal_def split: if_splits)
  with open_commands k show ?thesis by (auto simp: list_all_iff)
qed

lemma area_handler_known:
  "n \<in> set (map cs_name area_command_specs) \<longleftrightarrow> (\<exists>f. map_of (area_handlers :: (string \<times> 'm command) list) n = Some f)"
proof -
  have "(\<exists>f. map_of (area_handlers :: (string \<times> 'm command) list) n = Some f) \<longleftrightarrow>
      n \<in> set (map fst (area_handlers :: (string \<times> 'm command) list))"
    by (simp add: map_of_eq_None_iff flip: not_None_eq)
  then show ?thesis unfolding area_names by blast
qed

lemma login_powers:
  assumes "1 < length args"
  shows "powers (snd (cmd_login e p args s)) = powers s \<or>
    (\<exists>r w. granted (tl args) s = Some (r, w) \<and> powers (snd (cmd_login e p args s)) = powers (log_in p r w s))"
proof -
  have nth: "tl args ! 0 = args ! 1" "length args \<ge> 3 \<Longrightarrow> tl args ! 1 = args ! 2" "tl args \<noteq> []"
    using assms by (cases args; simp add: nth_tl numeral_2_eq_2)+
  have failed: "powers (login_failed e p t) = powers t" for t :: "'a ao_server"
    by (simp add: login_failed_def pow.own_session authority_def)
  show ?thesis
    using nth assms
    by (auto simp: cmd_login_def login_simple_def login_advanced_def Let_def pow.undef failed granted_def
        split: option.split)
qed

lemma execute_listperms: "execute ''listperms'' = cmd_listperms"
  by (intro ext) (simp add: execute_def area_handlers_def staff_handlers_def)

lemma find_login: "find_command ''login'' = Some k \<Longrightarrow> cs_min_args k = 1"
  by (auto simp: find_command_def command_specs_def area_command_specs_def staff_command_specs_def command_spec_defs spec_def
      moderator_spec_def split: if_splits)

lemma try_dispatch_powers:
  fixes s :: "'m ao_server"
  assumes "\<not> s_moderator (session_at p s)"
  shows "powers (snd (snd (try_dispatch e p msg s))) = powers s \<or>
    (\<exists>as r w. msg \<noteq> [] \<and> hd msg = CHR ''/'' \<and> command_args msg = ''login'' # as \<and> granted as s = Some (r, w) \<and>
       powers (snd (snd (try_dispatch e p msg s))) = powers (log_in p r w s))"
proof (cases "msg = [] \<or> hd msg \<noteq> CHR ''/'' \<or> command_args msg = []")
  case False
  let ?args = "command_args msg"
  show ?thesis
  proof (cases "find_command (hd ?args)")
    case (Some k)
    show ?thesis
    proof (cases "permission_refusal k (session_at p s) = None \<and> \<not> int (length ?args) - 1 < cs_min_args k")
      case True
      then have run: "snd (snd (try_dispatch e p msg s)) = snd (execute (hd ?args) e p ?args s)"
        using False Some by (simp add: try_dispatch_def Let_def)
      consider "hd ?args = ''login''" | "hd ?args = ''listperms''" | f :: "'m command" where "map_of area_handlers (hd ?args) = Some f"
        using open_command [OF Some True [THEN conjunct1] assms]
          area_handler_known [where ?'m = 'm and n = "hd ?args"] by blast
      then show ?thesis
      proof cases
        case 1
        then have "1 < length ?args" using True Some find_login by fastforce
        from login_powers [OF this, of e p s] show ?thesis
          unfolding run 1 execute_log_in_out using False 1 by (metis list.collapse)
      next
        case 2
        then show ?thesis unfolding run 2 execute_listperms by simp
      next
        case 3
        then have "execute (hd ?args) e p ?args s = f e p ?args s" by (simp add: execute_def map_of_append)
        then show ?thesis unfolding run using pow.area_handlers [OF 3, of e p ?args s] by simp
      qed
    next
      case refused: False
      then show ?thesis using False Some by (auto simp: try_dispatch_def Let_def split: option.split)
    qed
  qed (use False in \<open>simp add: try_dispatch_def Let_def\<close>)
qed (auto simp: try_dispatch_def Let_def)



section \<open>Locked areas\<close>

definition may_enter :: "u64 \<Rightarrow> string \<Rightarrow> room \<Rightarrow> bool" where
  "may_enter c n g = (case find_area_by_name n g of Some a \<Rightarrow> can_enter a c | None \<Rightarrow> True)"

lemma whereabouts_move: "whereabouts (on_session p (\<lambda>x. x\<lparr>s_area := n\<rparr>) s) = (whereabouts s)[p := n]"
  by (simp add: whereabouts_def on_session_def map_update)

lemma whereabouts_nth: "q < length (heap (sv_room s)) \<Longrightarrow> whereabouts s ! q = s_area (session_at q s)"
  by (simp add: whereabouts_def session_at_def)

text \<open>The two ways in which a client moves itself.\<close>

lemma own_moves:
  "whereabouts (snd (cmd_area e p args s)) = whereabouts s \<or>
   (\<exists>n. may_enter (s_client_id (session_at p s)) n (sv_room s) \<and>
      whereabouts (snd (cmd_area e p args s)) = (whereabouts s)[p := n])"
  "whereabouts (handle_MC e p mc s) = whereabouts s \<or>
   (\<exists>n. may_enter (s_client_id (session_at p s)) n (sv_room s) \<and> s_joined (session_at p s) \<and>
      whereabouts (handle_MC e p mc s) = (whereabouts s)[p := n])"
  by (auto simp: cmd_area_def handle_MC_def Let_def whereabouts_move may_enter_def split: option.splits)

definition herded :: "string \<Rightarrow> nat \<Rightarrow> string list \<Rightarrow> string list \<Rightarrow> bool" where
  "herded l p ws vs \<longleftrightarrow> length vs = length ws \<and>
     (\<forall>q<length ws. vs ! q = ws ! q \<or> vs ! q = l \<and> ws ! q = ws ! p)"

lemma herded_step:
  assumes "herded l p ws vs" and "p < length ws" and "r < length ws \<Longrightarrow> vs ! r = vs ! p"
  shows "herded l p ws (vs[r := l])"
proof -
  have "vs ! p = ws ! p \<or> vs ! p = l" using assms(1,2) by (auto simp: herded_def)
  moreover have "vs[r := l] ! q = (if q = r then l else vs ! q)" if "q < length vs" for q
    using that by (cases "r = q") auto
  ultimately show ?thesis using assms by (auto simp: herded_def)
qed

lemma area_kick_moves:
  assumes "p < length (whereabouts s)"
  shows "herded l p (whereabouts s) (whereabouts (snd (fold (area_kick_step e p nm l i) qs (k, s))))"
proof (induction qs rule: rev_induct)
  case (snoc r qs)
  obtain k1 s1 where f: "fold (area_kick_step e p nm l i) qs (k, s) = (k1, s1)"
    by (cases "fold (area_kick_step e p nm l i) qs (k, s)")
  let ?moved = "s_ipid (session_at r s1) = i \<and> s_area (session_at r s1) = s_area (session_at p s1)"
  have step: "whereabouts (snd (area_kick_step e p nm l i r (k1, s1))) =
      (if ?moved then (whereabouts s1)[r := l] else whereabouts s1)"
    by (simp add: area_kick_step_def Let_def whereabouts_move place.area)
  have ih: "herded l p (whereabouts s) (whereabouts s1)" using snoc f by simp
  then have len: "length (heap (sv_room s1)) = length (whereabouts s)" by (simp add: herded_def whereabouts_def)
  have "?moved \<Longrightarrow> r < length (whereabouts s) \<Longrightarrow> whereabouts s1 ! r = whereabouts s1 ! p"
    using assms by (simp add: whereabouts_nth len)
  with herded_step [OF ih assms, of r] have "herded l p (whereabouts s) (if ?moved then (whereabouts s1)[r := l] else whereabouts s1)"
    using ih by auto
  then show ?case by (simp add: f step)
qed (simp add: herded_def)

lemma area_kick_whereabouts:
  assumes "p < length (heap (sv_room s))"
  shows "whereabouts (snd (cmd_area_kick e p args s)) = whereabouts s \<or>
    (\<exists>a. session_area p s = Some a \<and> cm_or_mod p a s) \<and>
      herded (lobby (sv_room s)) p (whereabouts s) (whereabouts (snd (cmd_area_kick e p args s)))"
proof -
  have "p < length (whereabouts s)" using assms by (simp add: whereabouts_def)
  from area_kick_moves [OF this, where e = e and k = 0 and nm = "s_area (session_at p s)"
      and l = "lobby (sv_room s)" and i = "args ! 1" and qs = "for_each_session (sv_room s)"]
  show ?thesis
    by (auto simp: cmd_area_kick_def managed_area_def get_area_or_fail_def Let_def split_beta lobby_def [symmetric]
        split: option.split)
qed

text \<open>What the sender of a packet may do to where the sessions are.\<close>

definition moved :: "nat \<Rightarrow> 'm ao_server \<Rightarrow> string list \<Rightarrow> bool" where
  "moved p s ws \<longleftrightarrow> ws = whereabouts s \<or>
     (\<exists>n. may_enter (s_client_id (session_at p s)) n (sv_room s) \<and> ws = (whereabouts s)[p := n]) \<or>
     (\<exists>a. session_area p s = Some a \<and> cm_or_mod p a s) \<and> herded (lobby (sv_room s)) p (whereabouts s) ws"

lemma moved_refl [simp]: "moved p s (whereabouts s)"
  by (simp add: moved_def)

lemma moved_execute:
  assumes "p < length (heap (sv_room s))" and "se_reload e = None"
  shows "moved p s (whereabouts (snd (execute n e p args s)))"
proof -
  consider "n = ''area''" | "n = ''area_kick''" | "n \<noteq> ''area''" "n \<noteq> ''area_kick''" by blast
  then show ?thesis
  proof cases
    case 1
    have "(execute ''area'' :: 'a command) = cmd_area" by (intro ext) (simp add: execute_def area_handlers_def staff_handlers_def)
    with 1 own_moves(1) [of e p args s] show ?thesis by (auto simp: moved_def)
  next
    case 2
    have "(execute ''area_kick'' :: 'a command) = cmd_area_kick" by (intro ext) (simp add: execute_def area_handlers_def staff_handlers_def)
    with 2 area_kick_whereabouts [OF assms(1), of e args] show ?thesis by (auto simp: moved_def)
  next
    case 3
    with place.still_execute [OF assms(2) 3, of p args s] show ?thesis by simp
  qed
qed

lemma moved_packet:
  assumes "p < length (heap (sv_room s))" and "se_reload e = None"
  shows "moved p s (whereabouts (server_handle e p pkt s))"
proof -
  have "moved p s (whereabouts (snd (snd (try_dispatch e p msg s))))" for msg
    by (simp add: try_dispatch_def Let_def moved_execute [OF assms] split: option.split)
  moreover have "snd (snd (try_dispatch e p msg s)) = s" if "\<not> fst (try_dispatch e p msg s)" for msg
    using that by (auto simp: try_dispatch_def Let_def split: if_splits)
  ultimately have "moved p s (whereabouts (handle_CT e p n msg s))" for n msg
    by (simp add: handle_CT_def split_beta)
  moreover have "moved p s (whereabouts (handle_MC e p mc s))" for mc
    using own_moves(2) [of e p mc s] by (auto simp: moved_def)
  ultimately show ?thesis by (cases "body pkt") (simp_all add: server_handle_def)
qed



section \<open>Accounts\<close>

lemma cooldowns:
  "list_all (\<lambda>f. login_cooldown_seconds f =
     Some (if f < 6 then 2 ^ nat f else if f < 31 then 60 else - (2 ^ 31))) [1..31]"
  by code_simp

text \<open>The pause between log-ins doubles with every failure up to a minute, but not for ever: after
31 failures in a row the computed pause is negative, so that the next attempt is made at once
whatever the clock says, and from 32 on the shift has no defined result.\<close>

theorem login_throttle_ends:
  "login_cooldown_seconds f =
     (if f \<le> 0 then Some 0 else if f < 6 then Some (2 ^ nat f) else if f < 31 then Some 60
      else if f = 31 then Some (- (2 ^ 31)) else None) \<and>
   (s_login_failures (session_at p s) = 31 \<and> \<not> s_moderator (session_at p s) \<longrightarrow>
     snd (cmd_login e p args s) =
       (if auth_type (sv_room s) = ADVANCED then login_advanced e p args s else login_simple e p args s))"
proof -
  have small: "login_cooldown_seconds f = Some (if f < 6 then 2 ^ nat f else if f < 31 then 60 else - (2 ^ 31))"
    if "1 \<le> f" "f \<le> 31" for f
    using cooldowns that by (auto simp: list_all_iff)
  have "login_cooldown_seconds f = None" if "32 \<le> f" using that by (simp add: login_cooldown_seconds_def)
  moreover have "login_cooldown_seconds f = Some 0" if "f \<le> 0" using that by (simp add: login_cooldown_seconds_def)
  moreover have "f \<le> 0 \<or> (1 \<le> f \<and> f \<le> 31) \<or> 32 \<le> f" by linarith
  ultimately have "login_cooldown_seconds f =
     (if f \<le> 0 then Some 0 else if f < 6 then Some (2 ^ nat f) else if f < 31 then Some 60
      else if f = 31 then Some (- (2 ^ 31)) else None)" using small [of f] by auto
  moreover have "login_cooldown_seconds 31 = Some (- (2 ^ 31))" using small [of 31] by simp
  ultimately show ?thesis by (simp add: cmd_login_def Let_def)
qed

theorem login_throttle_ends_witness:
  "login_cooldown_seconds 31 = Some (- 2147483648) \<and>
   snd (cmd_login demo_env 0 [''login'', ''secret''] (on_session 0 (\<lambda>x. x\<lparr>s_login_failures := 31\<rparr>) (demo_run demo_joined))) =
   login_simple demo_env 0 [''login'', ''secret''] (on_session 0 (\<lambda>x. x\<lparr>s_login_failures := 31\<rparr>) (demo_run demo_joined))"
proof -
  let ?s = "on_session 0 (\<lambda>x. x\<lparr>s_login_failures := 31\<rparr>) (demo_run demo_joined)"
  have "0 < length (heap (sv_room (demo_run demo_joined)))" using demo_move by (simp add: demo_move_def)
  then have "s_login_failures (session_at 0 ?s) = 31" "\<not> s_moderator (session_at 0 ?s)" "auth_type (sv_room ?s) = SIMPLE"
    using demo_joined_facts by (simp_all add: session_at_def on_session_def)
  then show ?thesis using login_throttle_ends [of 31 0 ?s demo_env "[''login'', ''secret'']"] by simp
qed

interpretation accounts: observer sv_users
  by (rule calm_observation) (simp add: calm_def)

lemma nul_char: "char_code c = 0 \<longleftrightarrow> c = CHR 0x00"
proof
  assume "char_code c = 0"
  then have "c = char_of (0 :: nat)" by (metis char_code_def char_of_char)
  then show "c = CHR 0x00" by (simp add: char_of_def)
qed (simp add: char_code_def)

lemma get_user_deleted: "get_user n (snd (delete_user m us)) = (if c_str n = c_str m then None else get_user n us)"
  unfolding get_user_def delete_user_def snd_conv by (induction us) auto

text \<open>The command that deletes accounts keeps its hands off the root account as long as the name it
is given ends where the database thinks it ends: a name without a NUL character never changes what
is stored for root; but the name root followed by a NUL and anything else passes the check, is cut
at the NUL when the statement is executed, and deletes the root account.\<close>

theorem root_protection_ends_at_nul:
  assumes "sv_users s = Some us" and "sv_users (snd (cmd_removeuser e p [''removeuser'', name] s)) = Some us'"
  shows "(CHR 0x00 \<notin> set name \<longrightarrow> get_user ''root'' us' = get_user ''root'' us) \<and>
    (name = ''root'' @ CHR 0x00 # rest \<longrightarrow> get_user ''root'' us' = None)"
proof -
  have root: "c_str ''root'' = ''root''" "c_str (''root'' @ CHR 0x00 # rest) = ''root''"
    by (simp_all add: c_str_def char_code_def)
  have "sv_users (snd (cmd_removeuser e p [''removeuser'', name] s)) =
      Some (if name = ''root'' then us else snd (delete_user name us))"
  proof (cases "name = ''root'' \<or> fst (delete_user name us)")
    case True
    then show ?thesis using assms(1)
      by (auto simp: cmd_removeuser_def with_users_def Let_def revoke_def emit_def plain_def split: prod.split)
  next
    case False
    then have "snd (delete_user name us) = us" by (auto simp: delete_user_def list_ex_iff intro: filter_True)
    with False show ?thesis using assms(1)
      by (auto simp: cmd_removeuser_def with_users_def Let_def plain_def split: prod.split)
  qed
  then have us': "us' = (if name = ''root'' then us else snd (delete_user name us))" using assms(2) by simp
  have "c_str name = name" if "CHR 0x00 \<notin> set name"
    using that unfolding c_str_def by (auto simp: takeWhile_eq_all_conv nul_char)
  then show ?thesis using root unfolding us' by (auto simp: get_user_deleted)
qed

definition demo_users :: "user_entry list" where
  "demo_users = [\<lparr>us_username = ''root'', us_salt = [], us_password = [], us_acl = ''SUPER''\<rparr>]"

theorem root_protection_ends_at_nul_witness:
  "\<exists>us'. sv_users (snd (cmd_removeuser demo_env 0 [''removeuser'', ''root'' @ [CHR 0x00]]
      (demo_start\<lparr>sv_users := Some demo_users\<rparr>))) = Some us' \<and>
    get_user ''root'' demo_users \<noteq> None \<and> get_user ''root'' us' = None"
proof -
  let ?s = "demo_start\<lparr>sv_users := Some demo_users\<rparr>"
  have "sv_users (snd (cmd_removeuser demo_env 0 [''removeuser'', ''root'' @ [CHR 0x00]] ?s)) \<noteq> None"
    "get_user ''root'' demo_users \<noteq> None" by code_simp+
  moreover have "sv_users ?s = Some demo_users" by simp
  ultimately show ?thesis using root_protection_ends_at_nul [of ?s demo_users demo_env 0 "''root'' @ [CHR 0x00]" _ "[]"] by auto
qed

end
