(* ===== verification/AO_Relay.thy ===== *)
theory AO_Relay
  imports AO_Client_Props AO_Server_Theorems
begin

text \<open>
  What the clients of an area receive when one of them speaks: the way of a message from the
  composing client over the server to the parsing client.
\<close>

section \<open>Delivery\<close>

text \<open>The outputs of one registered callback for a message of an area.\<close>

definition receivers :: "string \<Rightarrow> 'm ao_server \<Rightarrow> nat list" where
  "receivers a s = filter (\<lambda>q. s_protocol (session_at q s) = ''ao2'') (sessions_in_area a (sv_room s))"

lemma send_to_area_emit:
  "se_has_send e \<Longrightarrow> send_to_area e a pkt s =
     emit (map (\<lambda>q. Sent (s_client_id (session_at q s)) (serialize pkt)) (receivers a s)) s"
  by (simp add: send_to_area_def receivers_def)

lemma emit_room [simp]: "sv_room (emit os s) = sv_room s" "sv_outs (emit os s) = sv_outs s @ os"
  by (simp_all add: emit_def)

lemma send_to_all_room [simp]: "sv_room (send_to_all e pkt s) = sv_room s"
  by (simp add: send_to_all_def)

text \<open>An event that only adds outputs, and the same ones wherever it stands in a list of events.\<close>

lemma deliver_all_sends:
  assumes "\<And>out t. out \<in> set outs \<Longrightarrow> sv_room (deliver e out t) = sv_room t"
    and "\<And>out t. out \<in> set outs \<Longrightarrow> \<exists>os. sv_outs (deliver e out t) = sv_outs t @ os"
    and "out \<in> set outs" and "\<And>t. sv_room t = sv_room s \<Longrightarrow> x \<in> set (sv_outs (deliver e out t))"
  shows "x \<in> set (sv_outs (deliver_all e outs s))"
proof -
  have more: "set (sv_outs t) \<subseteq> set (sv_outs (fold (deliver e) outs' t))"
    if "set outs' \<subseteq> set outs" for outs' t
    using that
  proof (induction outs' arbitrary: t)
    case (Cons o1 os')
    obtain os where "sv_outs (deliver e o1 t) = sv_outs t @ os" using assms(2) [of o1 t] Cons.prems by auto
    then have "set (sv_outs t) \<subseteq> set (sv_outs (deliver e o1 t))" by simp
    also have "\<dots> \<subseteq> set (sv_outs (fold (deliver e) os' (deliver e o1 t)))" using Cons by simp
    finally show ?case by simp
  qed simp
  have room: "sv_room (fold (deliver e) outs' t) = sv_room t" if "set outs' \<subseteq> set outs" for outs' t
    using that assms(1) by (induction outs' arbitrary: t) simp_all
  obtain us vs where split: "outs = us @ out # vs" using split_list [OF assms(3)] by blast
  let ?t = "fold (deliver e) us s"
  have "sv_room ?t = sv_room s" by (rule room) (auto simp: split)
  then have "x \<in> set (sv_outs (deliver e out ?t))" by (rule assms(4))
  then show ?thesis using more [of vs "deliver e out ?t"] by (auto simp: deliver_all_def split)
qed

lemma area_event_only_sends:
  assumes "out = IC_Out cb a ie \<or> out = OOC_Out cb a oe"
  shows "sv_room (deliver e out t) = sv_room t" and "\<exists>os. sv_outs (deliver e out t) = sv_outs t @ os"
  using assms by (auto simp: deliver_def broadcast_ic_def broadcast_ooc_def send_to_area_def)

lemma relayed_ic:
  assumes "se_has_send e" and "AO_CALLBACK \<in> set (ic_broadcasts (sv_room s))"
    and "joined_session (ic_sender_id a) (sv_room s) = Some x" and "q \<in> set (receivers (s_area x) s)"
  shows "Sent (s_client_id (session_at q s)) (serialize (ms_echo a)) \<in> set (sv_outs (deliver_all e (handle_ic a (sv_room s)) s))"
proof (rule deliver_all_sends)
  let ?out = "IC_Out AO_CALLBACK (s_area x) \<lparr>ice_area = s_area x, ice_action = a\<rparr>"
  show "?out \<in> set (handle_ic a (sv_room s))" using assms(2,3) by (simp add: handle_ic_def)
  show "Sent (s_client_id (session_at q s)) (serialize (ms_echo a)) \<in> set (sv_outs (deliver e ?out t))"
    if "sv_room t = sv_room s" for t
    using assms(1,4) that by (auto simp: deliver_def broadcast_ic_def send_to_area_emit receivers_def session_at_def)
qed (use assms(3) in \<open>auto simp: handle_ic_def intro: area_event_only_sends\<close>)

lemma relayed_ooc:
  assumes "se_has_send e" and "AO_CALLBACK \<in> set (ooc_broadcasts (sv_room s))"
    and "joined_session (ooc_sender_id a) (sv_room s) = Some x" and "q \<in> set (receivers (s_area x) s)"
  shows "Sent (s_client_id (session_at q s)) (serialize (packet ''CT'' [ooc_name a, ooc_message a, ''0'']))
    \<in> set (sv_outs (deliver_all e (handle_ooc a (sv_room s)) s))"
proof (rule deliver_all_sends)
  let ?out = "OOC_Out AO_CALLBACK (s_area x) \<lparr>ooce_area = s_area x, ooce_action = a\<rparr>"
  show "?out \<in> set (handle_ooc a (sv_room s))" using assms(2,3) by (simp add: handle_ooc_def)
  show "Sent (s_client_id (session_at q s)) (serialize (packet ''CT'' [ooc_name a, ooc_message a, ''0'']))
      \<in> set (sv_outs (deliver e ?out t))"
    if "sv_room t = sv_room s" for t
    using assms(1,4) that by (auto simp: deliver_def broadcast_ooc_def send_to_area_emit receivers_def session_at_def)
qed (use assms(3) in \<open>auto simp: handle_ooc_def intro: area_event_only_sends\<close>)

text \<open>A frame that parses is dispatched.\<close>

lemma server_frame_packet:
  assumes "CHR ''#'' \<notin> set h" "list_all (\<lambda>f. CHR ''#'' \<notin> set f) fs" and "h \<in> set packet_headers"
    and "get_session c (sv_room s) = Some p"
  shows "server_frame e c (serialize (packet h fs)) s =
    server_handle e p (create_packet (packet_creators (se_gi e) (se_gb e)) h fs) s"
proof -
  let ?cs = "packet_creators (se_gi e) (se_gb e)"
  have "deserialize ?cs (serialize (packet h fs)) = Inr (create_packet ?cs h fs)"
    using assms(1,2) split_join [of h fs] by (simp add: serialize_def packet_def deserialize_framed list_all_iff)
  moreover have "valid (create_packet ?cs h fs)" "header (create_packet ?cs h fs) = h"
    using create_packet_frame by blast+
  moreover have "has_packet ?cs h" using assms(3) by (simp add: has_packet_iff)
  ultimately show ?thesis using assms(4) by (simp add: server_frame_def safe_dispatch_def server_dispatch_def)
qed

lemma chat_headers: "''MS'' \<in> set packet_headers" "''CT'' \<in> set packet_headers" "''HI'' \<in> set packet_headers"
  "''RD'' \<in> set packet_headers"
  by (simp_all add: packet_headers_def registrars_def)

section \<open>In-character messages\<close>

text \<open>What a client makes of a message that another client composed.\<close>

definition heard :: "ic_message_data \<Rightarrow> ms_packet" where
  "heard d =
     \<lparr>desk_mod = d_desk_mod d, pre_emote = ao_decode (d_pre_emote d), character = ao_decode (d_character d),
      emote = ao_decode (d_emote d), message = ao_decode (d_message d), side = ao_decode (d_side d),
      showname = ao_decode (d_showname d), emote_mod = remap_emote_mod (d_emote_mod d), char_id = d_char_id d,
      flip = (d_flip d = 1), text_color = d_text_color d, objection_mod = d_objection_mod d,
      screenshake = (d_screenshake d = 1), realization = (d_realization d = 1), additive = (d_additive d = 1),
      frame_screenshake = ao_decode (d_frame_screenshake d), sfx_name = ao_decode (d_sfx_name d),
      sfx_delay = d_sfx_delay d, sfx_looping = (d_looping_sfx d = 1), frame_sfx = ao_decode (d_frame_sfx d),
      immediate = (d_immediate d = 1), slide = (d_slide d = ''1'')\<rparr>"

definition in_int :: "int \<Rightarrow> bool" where
  "in_int n \<longleftrightarrow> INT_MIN \<le> n \<and> n \<le> INT_MAX"

lemma not_space_digit: "c_isdigit c \<Longrightarrow> \<not> c_isspace c"
  by (auto simp: c_isdigit_def c_isspace_def char_code_def)

lemma show_nat_not_space: "dropWhile c_isspace (show_nat n @ r) = show_nat n @ r"
proof (cases "show_nat n")
  case (Cons c u)
  then have "c_isdigit c" using show_nat_digits [of n] by simp
  then show ?thesis by (simp add: Cons not_space_digit)
qed simp

lemma c_stoi_show_int: "in_int n \<Longrightarrow> c_stoi (show_int n) = Some n"
proof (cases "n < 0")
  case True
  have "dropWhile c_isspace (show_int n) = show_int n"
    using True by (simp add: show_int_def c_isspace_def char_code_def)
  then show "in_int n \<Longrightarrow> ?thesis" using True
    by (simp add: c_stoi_def show_int_def show_nat_run digits_value_show_nat Let_def in_int_def)
next
  case False
  obtain c u where cu: "show_nat (nat n) = c # u" "c_isdigit c"
    using show_nat_digits [of "nat n"] show_nat_not_Nil [of "nat n"] by (cases "show_nat (nat n)") auto
  then have "c \<noteq> CHR ''-''" "c \<noteq> CHR ''+''" by (auto simp: c_isdigit_def char_code_def)
  then show "in_int n \<Longrightarrow> ?thesis"
    using False cu show_nat_not_space [of "nat n" "[]"] show_nat_run [of "nat n"] digits_value_show_nat [of "nat n"]
    by (simp add: c_stoi_def show_int_def Let_def in_int_def not_space_digit takeWhile_eq_all_conv [THEN iffD2])
qed

lemma show_int_not_Nil [simp]: "show_int n \<noteq> []"
  by (simp add: show_int_def)

lemma show_int_not_chat: "show_int n \<noteq> ''chat''"
  using show_nat_digits [of "nat n"] by (auto simp: show_int_def c_isdigit_def char_code_def)

lemma show_int_one: "show_int n = ''1'' \<longleftrightarrow> n = 1"
proof
  assume "show_int n = ''1''"
  then have n: "\<not> n < 0" "show_nat (nat n) = ''1''" by (auto simp: show_int_def split: if_splits)
  then have "digits_value ''1'' = n" using digits_value_show_nat [of "nat n"] by simp
  then show "n = 1" by (simp add: digits_value_def char_code_def)
next
  assume "n = 1"
  moreover have "show_int 1 = ''1''" by code_simp
  ultimately show "show_int n = ''1''" by simp
qed

lemma echo_heard:
  assumes "list_all in_int [d_desk_mod d, d_emote_mod d, d_char_id d, d_sfx_delay d, d_objection_mod d, d_text_color d]"
  shows "ms_parse (pfields (ms_echo (ms_action c (pfields (MS_packet gi gb d))))) = heard d"
  using assms
  by (simp add: ms_parse_def ms_echo_def ms_action_def MS_packet_def packet_def with_body_def heard_def field_at_def
      int_at_def bit_at_def bit_field_def c_stoi_show_int show_int_not_chat safe_stoi_show_int [folded in_int_def]
      show_int_one ao_decode_encode in_int_def)

text \<open>The echo is as safe for the wire as the frame it answers, and parses to what was composed.\<close>

lemma field_at_safe: "list_all wire_safe fs \<Longrightarrow> wire_safe (field_at fs i)"
  by (simp add: field_at_def list_all_length) (simp add: wire_safe_def)

lemma echo_wire_safe: "list_all wire_safe fs \<Longrightarrow> list_all wire_safe (pfields (ms_echo (ms_action c fs)))"
  by (simp add: ms_echo_def ms_action_def packet_def field_at_safe show_int_wire_safe)
    (simp add: bit_field_def wire_safe_def)

lemma echo_parses:
  assumes "list_all wire_safe fs"
  shows "deserialize (packet_creators gi gb) (serialize (ms_echo (ms_action c fs))) =
    Inr (MS_of gi gb (pfields (ms_echo (ms_action c fs))))"
proof -
  have "header (ms_echo (ms_action c fs)) = ''MS''" by (simp add: ms_echo_def packet_def)
  then show ?thesis
    using echo_wire_safe [OF assms, of c] split_join [of "''MS''" "pfields (ms_echo (ms_action c fs))"]
    by (auto simp: serialize_def deserialize_framed create_packet_MS list_all_iff wire_safe_def)
qed

lemma handle_MS_unmoderated:
  assumes "s_joined (session_at p s)" and "sv_moderator s = None"
    and "\<not> too_long (max_ic_message_length (sv_room s)) (ic_message (ms_action (s_client_id (session_at p s)) fs))"
  obtains t where "sv_room t = sv_room s"
    and "handle_MS e p fs s = deliver_all e (handle_ic (ms_action (s_client_id (session_at p s)) fs) (sv_room t)) t"
proof (rule that)
  let ?a = "ms_action (s_client_id (session_at p s)) fs"
  let ?t = "if ic_showname ?a \<noteq> [] \<and> s_display_name (session_at p s) \<noteq> ic_showname ?a
    then broadcast_player_update e (s_session_id (session_at p s)) 2 (ic_showname ?a) s else s"
  show "sv_room ?t = sv_room s" by (simp add: broadcast_player_update_def)
  show "handle_MS e p fs s = deliver_all e (handle_ic ?a (sv_room ?t)) ?t"
    using assms by (simp add: handle_MS_def moderate_def Let_def)
qed

text \<open>C7: An in-character message arrives as it was composed. When a joined client of a reachable
server without a content moderator sends the frame that the repository's client makes of a message
(not too long, its numbers 32-bit integers), every AO2 client in the sender's area is sent a frame
that parses as an IC packet with the message's own decoded texts, numbers and switches, the
emote modifier remapped and nothing else changed, although the server re-orders the 28 fields
into 32 without decoding them.\<close>

theorem ic_message_arrives:
  assumes "server_reach s" and "se_has_send e" and "sv_moderator s = None"
    and "get_session c (sv_room s) = Some p" and "s_joined (session_at p s)"
    and "AO_CALLBACK \<in> set (ic_broadcasts (sv_room s))"
    and "\<not> too_long (max_ic_message_length (sv_room s)) (ao_encode (d_message d))"
    and "list_all in_int [d_desk_mod d, d_emote_mod d, d_char_id d, d_sfx_delay d, d_objection_mod d, d_text_color d]"
    and "wire_safe (d_slide d)"
    and "q \<in> set (receivers (s_area (session_at p s)) s)"
  shows "\<exists>w m. Sent (s_client_id (session_at q s)) w \<in> set (sv_outs (server_frame e c (serialize (MS_packet gi gb d)) s)) \<and>
    deserialize (packet_creators gi' gb') w = Inr m \<and> body m = MS (heard d)"
proof -
  let ?fs = "pfields (MS_packet gi gb d)"
  let ?a = "ms_action c ?fs"
  have id: "s_client_id (session_at p s) = c"
    using registry_okD(3) [of s c p] server_reach_ok [OF assms(1)] assms(4) by (simp add: server_ok_def)
  have safe: "list_all wire_safe ?fs"
    using assms(9) by (simp add: MS_packet_def with_body_def packet_def ao_encode_wire_safe show_int_wire_safe)
  have wire: "serialize (MS_packet gi gb d) = serialize (packet ''MS'' ?fs)"
    by (simp add: serialize_def MS_packet_def with_body_def packet_def)
  have frame: "server_frame e c (serialize (MS_packet gi gb d)) s = handle_MS e p ?fs s"
    unfolding wire using safe assms(4)
    by (subst server_frame_packet)
      (auto simp: list_all_iff wire_safe_def chat_headers server_handle_def create_packet_MS MS_of_def with_body_def packet_def)
  have "ic_message ?a = ao_encode (d_message d)"
    by (simp add: ms_action_def field_at_def MS_packet_def with_body_def packet_def)
  then obtain t where t: "sv_room t = sv_room s" "handle_MS e p ?fs s = deliver_all e (handle_ic ?a (sv_room t)) t"
    using handle_MS_unmoderated [of p s ?fs e] assms(3,5,7) id by auto
  have x: "joined_session (ic_sender_id ?a) (sv_room t) = Some (session_at p s)"
    using assms(4,5) t(1) by (simp add: joined_session_def ms_action_def session_at_def)
  have "q \<in> set (receivers (s_area (session_at p s)) t)" using assms(10) t(1) by (simp add: receivers_def session_at_def)
  from relayed_ic [OF assms(2) _ x this] assms(6) t(1)
  have "Sent (s_client_id (session_at q t)) (serialize (ms_echo ?a)) \<in> set (sv_outs (handle_MS e p ?fs s))"
    using t(2) by simp
  moreover have "session_at q t = session_at q s" using t(1) by (simp add: session_at_def)
  moreover note echo_parses [OF safe, of gi' gb' c]
  moreover have "body (MS_of gi' gb' (pfields (ms_echo ?a))) = MS (heard d)"
    using echo_heard [OF assms(8), of c gi gb] by (simp add: MS_of_def with_body_def packet_def ms_echo_def)
  ultimately show ?thesis using frame by auto
qed

definition demo_ic :: ic_message_data where
  "demo_ic = \<lparr>d_desk_mod = 1, d_pre_emote = ''-'', d_character = ''Phoenix'', d_emote = ''normal'',
     d_message = ''100% sure #1'', d_side = ''def'', d_sfx_name = ''0'', d_emote_mod = 0, d_char_id = 0, d_sfx_delay = 0,
     d_objection_mod = 0, d_evidence_id = 0, d_flip = 0, d_realization = 0, d_text_color = 0, d_showname = ''Nick'',
     d_other_charid = - 1, d_other_name = [], d_other_emote = [], d_self_offset = ''0'', d_other_offset = ''0'',
     d_other_flip = 0, d_immediate = 0, d_looping_sfx = 0, d_screenshake = 0, d_frame_screenshake = [],
     d_frame_realization = [], d_frame_sfx = [], d_additive = 0, d_effects = [], d_blipname = [], d_slide = ''0''\<rparr>"

lemma demo_reads [simp]: "AO_CALLBACK = 0" "receivers ''Lobby'' (demo_run demo_joined) = filter (\<lambda>q. s_protocol (session_at q (demo_run demo_joined)) = ''ao2'') [0, 1]"
  using demo_joined_facts by (simp_all add: AO_CALLBACK_def receivers_def)

theorem ic_message_arrives_witness:
  "\<exists>w m. Sent 2 w \<in> set (sv_outs (server_frame (demo_env\<lparr>se_has_send := True\<rparr>) 1
       (serialize (MS_packet 0 False demo_ic)) (demo_run demo_joined))) \<and>
     deserialize (packet_creators 0 False) w = Inr m \<and> body m = MS (heard demo_ic)"
proof -
  have "length (ao_encode (d_message demo_ic)) = 26" by code_simp
  then show ?thesis
    using ic_message_arrives [OF demo_joined_reach, of "demo_env\<lparr>se_has_send := True\<rparr>" 1 0 demo_ic 1 0 False 0 False]
      demo_joined_facts by (simp add: too_long_def demo_ic_def in_int_def INT_MIN_def INT_MAX_def wire_safe_def)
qed

section \<open>Out-of-character messages\<close>

lemma chat_unmoderated:
  assumes "sv_moderator s = None" and "sv_spam s = None"
    and "\<not> too_long (max_ooc_message_length (sv_room s)) msg" and "p < length (heap (sv_room s))"
  obtains t where "sv_room t = (if s_display_name (session_at p s) \<noteq> n
      then update_session p (\<lambda>y. y\<lparr>s_display_name := n\<rparr>) (sv_room s) else sv_room s)"
    and "chat_message e p n msg s = deliver_all e (handle_ooc \<lparr>ooc_sender_id = s_client_id (session_at p s),
      ooc_name = n, ooc_message = msg\<rparr> (sv_room t)) t"
proof (rule that)
  let ?t = "if s_display_name (session_at p s) \<noteq> n then broadcast_player_update e (s_session_id (session_at p s)) 0 n
    (on_session p (\<lambda>y. y\<lparr>s_display_name := n\<rparr>) s) else s"
  show "sv_room ?t = (if s_display_name (session_at p s) \<noteq> n
      then update_session p (\<lambda>y. y\<lparr>s_display_name := n\<rparr>) (sv_room s) else sv_room s)"
    by (simp add: broadcast_player_update_def on_session_def on_room_def)
  show "chat_message e p n msg s = deliver_all e (handle_ooc \<lparr>ooc_sender_id = s_client_id (session_at p s),
      ooc_name = n, ooc_message = msg\<rparr> (sv_room ?t)) ?t"
    using assms by (simp add: chat_message_def spam_check_def moderate_def Let_def)
qed

text \<open>A name change is not seen by what chooses the receivers.\<close>

lemma renamed_session:
  assumes "p < length (heap g)"
  shows "heap (update_session p (\<lambda>y. y\<lparr>s_display_name := n\<rparr>) g) ! q =
    (if q = p then (heap g ! p)\<lparr>s_display_name := n\<rparr> else heap g ! q)"
  using assms by (simp add: update_session_def nth_list_update)

lemma renamed_room:
  assumes "p < length (heap g)" and "h = g \<or> h = update_session p (\<lambda>y. y\<lparr>s_display_name := n\<rparr>) g"
  shows "s_area (heap h ! q) = s_area (heap g ! q)" "s_protocol (heap h ! q) = s_protocol (heap g ! q)"
    "s_client_id (heap h ! q) = s_client_id (heap g ! q)" "s_joined (heap h ! q) = s_joined (heap g ! q)"
    "get_session c h = get_session c g" "sessions h = sessions g" "ooc_broadcasts h = ooc_broadcasts g"
proof -
  show "s_area (heap h ! q) = s_area (heap g ! q)" "s_protocol (heap h ! q) = s_protocol (heap g ! q)"
    "s_client_id (heap h ! q) = s_client_id (heap g ! q)" "s_joined (heap h ! q) = s_joined (heap g ! q)"
    using assms(2) renamed_session [OF assms(1), of n q] by (auto split: if_splits)
  show "get_session c h = get_session c g" "sessions h = sessions g" "ooc_broadcasts h = ooc_broadcasts g"
    using assms(2) by (auto simp: get_session_def update_session_def)
qed

lemma CT_frame:
  assumes "get_session c (sv_room s) = Some p"
  shows "server_frame e c (serialize (CT_packet n msg False)) s = handle_CT e p (ao_decode n) (ao_decode msg) s"
proof -
  have "serialize (CT_packet n msg False) = serialize (packet ''CT'' [ao_encode n, ao_encode msg, ''0''])"
    by (simp add: serialize_def CT_packet_def with_body_def packet_def)
  moreover have "server_frame e c (serialize (packet ''CT'' [ao_encode n, ao_encode msg, ''0''])) s =
      handle_CT e p (ao_decode n) (ao_decode msg) s"
    using assms ao_encode_wire_safe [of n] ao_encode_wire_safe [of msg]
    by (subst server_frame_packet)
      (auto simp: chat_headers wire_safe_def create_packet_CT CT_of_def with_body_def packet_def server_handle_def
        ao_decode_encode)
  ultimately show ?thesis by simp
qed

lemma drain_two:
  assumes "frame_body u" and "frame_body v"
  shows "drain (\<lambda>w ws. ws @ [w]) (u @ ''#%'' @ v @ ''#%'') [] = ([], [u @ ''#%'', v @ ''#%''])"
proof -
  have "list_all frame_body [u, v]" using assms by simp
  from drain_frames [OF this, of "\<lambda>w ws. ws @ [w]" "[]" "[]"] show ?thesis by (simp add: drain_None DELIMITER_def)
qed

text \<open>C16: An out-of-character message can smuggle a packet of the sender's choice to every client of
the area. The server decodes the message and puts it into the frame it sends as it is; so when the
text contains \<open>#%\<close>, which the sender's client escapes and the server unescapes, each AO2 client in
the area is sent a text that framing cuts into two frames: the part before, and the part after as
a frame of its own, whatever its header.\<close>

theorem ooc_message_smuggles_frames:
  assumes "server_reach s" and "se_has_send e" and "sv_moderator s = None" and "sv_spam s = None"
    and "get_session c (sv_room s) = Some p" and "s_joined (session_at p s)"
    and "AO_CALLBACK \<in> set (ooc_broadcasts (sv_room s))"
    and "\<not> too_long (max_ooc_message_length (sv_room s)) (u @ ''#%'' @ v)"
    and "ao_decode n = n" and "ao_decode (u @ ''#%'' @ v) = u @ ''#%'' @ v"
    and "u \<noteq> [] \<Longrightarrow> hd u \<noteq> CHR ''/''" and "CHR ''%'' \<notin> set (n @ u @ v)"
    and "q \<in> set (receivers (s_area (session_at p s)) s)"
  shows "\<exists>w. Sent (s_client_id (session_at q s)) w
      \<in> set (sv_outs (server_frame e c (serialize (CT_packet n (u @ ''#%'' @ v) False)) s)) \<and>
    drain (\<lambda>w ws. ws @ [w]) w [] = ([], [''CT#'' @ n @ ''#'' @ u @ ''#%'', v @ ''#0#%''])"
proof -
  let ?msg = "u @ ''#%'' @ v" and ?x = "session_at p s"
  let ?a = "\<lparr>ooc_sender_id = c, ooc_name = n, ooc_message = ?msg\<rparr>"
  have p: "p < length (heap (sv_room s))" "s_client_id ?x = c"
    using registry_okD(3) [of s c p] server_reach_ok [OF assms(1)] assms(5) by (simp_all add: server_ok_def)
  have frame: "server_frame e c (serialize (CT_packet n ?msg False)) s = chat_message e p n ?msg s"
    using CT_frame [OF assms(5), of e n ?msg] assms(6,9,10,11)
    by (cases u) (simp_all add: handle_CT_def try_dispatch_def)
  obtain t where t: "sv_room t = (if s_display_name ?x \<noteq> n then update_session p (\<lambda>y. y\<lparr>s_display_name := n\<rparr>) (sv_room s) else sv_room s)"
    "chat_message e p n ?msg s = deliver_all e (handle_ooc ?a (sv_room t)) t"
    using chat_unmoderated [OF assms(3,4,8) p(1)] p(2) by metis
  then have "sv_room t = sv_room s \<or> sv_room t = update_session p (\<lambda>y. y\<lparr>s_display_name := n\<rparr>) (sv_room s)"
    by simp
  note same = renamed_room [OF p(1) this]
  have "joined_session (ooc_sender_id ?a) (sv_room t) = Some (session_at p t)"
    "q \<in> set (receivers (s_area (session_at p t)) t)" "AO_CALLBACK \<in> set (ooc_broadcasts (sv_room t))"
    "s_client_id (session_at q t) = s_client_id (session_at q s)"
    using assms(5,6,7,13) by (simp_all add: joined_session_def same session_at_def receivers_def sessions_in_area_def)
  with relayed_ooc [OF assms(2), of t ?a "session_at p t" q] have
    "Sent (s_client_id (session_at q s)) (serialize (packet ''CT'' [n, ?msg, ''0'']))
      \<in> set (sv_outs (server_frame e c (serialize (CT_packet n ?msg False)) s))"
    unfolding frame t(2) by simp
  moreover have "serialize (packet ''CT'' [n, ?msg, ''0'']) = (''CT#'' @ n @ ''#'' @ u) @ ''#%'' @ (v @ ''#0'') @ ''#%''"
    by (simp add: serialize_def packet_def DELIMITER_def)
  moreover have "frame_body (''CT#'' @ n @ ''#'' @ u)" "frame_body (v @ ''#0'')"
    using assms(12) by (auto intro: frame_body_no_percent)
  from drain_two [OF this] have "drain (\<lambda>w ws. ws @ [w]) ((''CT#'' @ n @ ''#'' @ u) @ ''#%'' @ (v @ ''#0'') @ ''#%'') [] =
      ([], [''CT#'' @ n @ ''#'' @ u @ ''#%'', v @ ''#0#%''])" by simp
  ultimately show ?thesis by metis
qed

theorem ooc_message_smuggles_frames_witness:
  "\<exists>w. Sent 2 w \<in> set (sv_outs (server_frame (demo_env\<lparr>se_has_send := True\<rparr>) 1
       (serialize (CT_packet ''Me'' ''hi#%KB#bye'' False)) (demo_run demo_joined))) \<and>
     drain (\<lambda>w ws. ws @ [w]) w [] = ([], [''CT#Me#hi#%'', ''KB#bye#0#%''])"
proof -
  have "ao_decode ''Me'' = ''Me''" "ao_decode ''hi#%KB#bye'' = ''hi#%KB#bye''" by code_simp+
  then show ?thesis
    using ooc_message_smuggles_frames [OF demo_joined_reach, of "demo_env\<lparr>se_has_send := True\<rparr>" 1 0 "''hi''" "''KB#bye''" "''Me''" 1]
      demo_joined_facts by (simp add: too_long_def)
qed

end
