(* ===== verification/AO_Handshake.thy ===== *)
theory AO_Handshake
  imports AO_Relay
begin

text \<open>
  How a connection becomes a player: what the handshake checks, and that it can be left out.
\<close>

section \<open>What sending does not change\<close>

text \<open>Who has joined, how many were counted, in which phase everyone is, and the bans.\<close>

definition standing :: "'m ao_server \<Rightarrow> bool list \<times> int \<times> (u64 \<times> protocol_state) list \<times> ban_manager option \<times> bool" where
  "standing s = (map s_joined (heap (sv_room s)), st_joined (stats (sv_room s)), sv_proto s, sv_bans s, sv_undef s)"

interpretation standing: observer standing
  by (rule calm_observation) (simp add: standing_def calm_def no_traffic_def)

lemma standingD:
  assumes "standing s = standing t"
  shows "in_phase c ph s = in_phase c ph t" "sv_bans s = sv_bans t" "sv_undef s = sv_undef t"
    "st_joined (stats (sv_room s)) = st_joined (stats (sv_room t))"
    "p < length (heap (sv_room s)) \<Longrightarrow> s_joined (session_at p s) = s_joined (session_at p t)"
proof -
  show "in_phase c ph s = in_phase c ph t" "sv_bans s = sv_bans t" "sv_undef s = sv_undef t"
    "st_joined (stats (sv_room s)) = st_joined (stats (sv_room t))"
    using assms by (simp_all add: standing_def in_phase_def get_protocol_state_def)
  assume p: "p < length (heap (sv_room s))"
  have "map s_joined (heap (sv_room s)) = map s_joined (heap (sv_room t))" using assms by (simp add: standing_def)
  moreover from this have "length (heap (sv_room s)) = length (heap (sv_room t))" by (metis length_map)
  ultimately show "s_joined (session_at p s) = s_joined (session_at p t)" using p by (metis nth_map session_at_def)
qed

lemma in_phase_set:
  "get_protocol_state c s \<noteq> None \<Longrightarrow> in_phase c ph (set_phase c ph' s) \<longleftrightarrow> ph = ph'"
  by (cases "get_protocol_state c s")
    (auto simp: in_phase_def set_phase_def get_protocol_state_def set_protocol_state_def update_conv)

lemma same_registry:
  assumes "registry t = registry s"
  shows "get_session c (sv_room t) = get_session c (sv_room s)" "length (heap (sv_room t)) = length (heap (sv_room s))"
    "get_protocol_state c t = None \<longleftrightarrow> get_protocol_state c s = None"
    "p < length (heap (sv_room s)) \<Longrightarrow> s_client_id (session_at p t) = s_client_id (session_at p s)"
proof -
  have r: "sessions (sv_room t) = sessions (sv_room s)" "map ident (heap (sv_room t)) = map ident (heap (sv_room s))"
    "map fst (sv_proto t) = map fst (sv_proto s)"
    using assms by (simp_all add: registry_def Let_def)
  show "get_session c (sv_room t) = get_session c (sv_room s)" using r(1) by (simp add: get_session_def)
  show len: "length (heap (sv_room t)) = length (heap (sv_room s))" using r(2) by (metis length_map)
  show "get_protocol_state c t = None \<longleftrightarrow> get_protocol_state c s = None"
    using r(3) by (metis get_protocol_state_def map_of_eq_None_iff list.set_map)
  assume "p < length (heap (sv_room s))"
  moreover from this have "map ident (heap (sv_room t)) ! p = map ident (heap (sv_room s)) ! p" using r(2) by simp
  ultimately show "s_client_id (session_at p t) = s_client_id (session_at p s)"
    using len by (simp add: ident_def session_at_def)
qed

section \<open>Joining\<close>

lemma RD_standing:
  assumes "get_session c (sv_room s) = Some p" and "p < length (heap (sv_room s))" and "s_client_id (session_at p s) = c"
    and "get_protocol_state c s \<noteq> None"
  shows "standing (handle_RD e p s) =
    standing (on_room count_joined (on_session p (\<lambda>x. x\<lparr>s_joined := True\<rparr>) (set_phase c P_JOINED s)))"
proof -
  obtain ps where "get_protocol_state c s = Some ps" using assms(4) by blast
  then show ?thesis using assms by (simp add: handle_RD_def Let_def)
qed

text \<open>C17: The packet RD makes a client join in whatever phase of the handshake it is: in every
reachable state, whatever the bans, the sender of RD has joined afterwards and is in the last phase;
it is counted once more as joined, also when it had joined before; and from then on the packet HI,
whose handler is the only place where bans and network blocks are looked up, does nothing but send
an error.\<close>

theorem rd_skips_handshake:
  assumes "server_reach s" and "get_session c (sv_room s) = Some p"
    and "t = server_dispatch e c (RD_of fs) s"
  shows "s_joined (session_at p t) \<and> in_phase c P_JOINED t \<and> sv_bans t = sv_bans s \<and>
    st_joined (stats (sv_room t)) = st_joined (stats (sv_room s)) + 1 \<and>
    server_dispatch e c (HI_of hs) t =
      send e c (system_message (''[ERROR] Unexpected packet '' @ dq @ ''HI'' @ dq @ '' in current state'')) t"
proof -
  have ok: "registry_ok s" using server_reach_ok [OF assms(1)] by (simp add: server_ok_def)
  have p: "p < length (heap (sv_room s))" "s_client_id (session_at p s) = c" "get_protocol_state c s \<noteq> None"
    using registry_okD(3,5) [OF ok] assms(2) by blast+
  have t: "t = handle_RD e p s"
    using assms(2,3) by (simp add: server_dispatch_def RD_of_def with_body_def packet_def has_packet_iff chat_headers server_handle_def)
  let ?j = "on_room count_joined (on_session p (\<lambda>x. x\<lparr>s_joined := True\<rparr>) (set_phase c P_JOINED s))"
  have st: "standing t = standing ?j" unfolding t by (rule RD_standing [OF assms(2) p])
  have reg: "registry t = registry s" unfolding t by (rule reg.handle_RD)
  note same = same_registry [OF reg]
  have phase: "sv_room (set_phase c P_JOINED s) = sv_room s" "sv_bans (set_phase c P_JOINED s) = sv_bans s"
    by (simp_all add: set_phase_def set_protocol_state_def split: option.split)
  have j: "s_joined (session_at p ?j)" "sv_bans ?j = sv_bans s" "st_joined (stats (sv_room ?j)) = st_joined (stats (sv_room s)) + 1"
    using p(1) phase by (simp_all add: session_at_def on_session_def count_joined_def)
  have "in_phase c P_JOINED ?j \<longleftrightarrow> in_phase c P_JOINED (set_phase c P_JOINED s)"
    by (simp add: in_phase_def get_protocol_state_def on_session_def)
  with in_phase_set [OF p(3)] have "in_phase c P_JOINED ?j" by simp
  with standingD(1-4) [OF st] standingD(5) [OF st, of p] same(2) p(1) j
  have facts: "s_joined (session_at p t)" "in_phase c P_JOINED t" "sv_bans t = sv_bans s"
    "st_joined (stats (sv_room t)) = st_joined (stats (sv_room s)) + 1" by auto
  have "\<not> in_phase c P_CONNECTED t" using facts(2) by (auto simp: in_phase_def split: option.splits)
  then have "server_dispatch e c (HI_of hs) t = send e c (server_error (''Unexpected packet '' @ dq @ ''HI'' @ dq @ '' in current state'')) t"
    using same(1,4) assms(2) p
    by (simp add: server_dispatch_def HI_of_def with_body_def packet_def has_packet_iff chat_headers server_handle_def handle_HI_def)
  with facts show ?thesis by (simp add: server_error_def)
qed

theorem rd_skips_handshake_witness:
  "s_joined (session_at 0 (server_dispatch demo_env 1 (RD_of []) (demo_run [Connected 1])))"
  using rd_skips_handshake [OF demo_reach_1 demo_get_1(1) refl] by blast

section \<open>Identification\<close>

text \<open>What HI knows of the client once it has registered the hardware id.\<close>

definition hi_ipid :: "'m server_env \<Rightarrow> nat \<Rightarrow> 'm ao_server \<Rightarrow> string" where
  "hi_ipid e p s =
    (let ip = client_addr e (s_client_id (session_at p s)) in if ip = [] then s_ipid (session_at p s) else take 8 (sha256 ip))"

definition banned :: "'m server_env \<Rightarrow> nat \<Rightarrow> string \<Rightarrow> 'm ao_server \<Rightarrow> bool" where
  "banned e p h s \<longleftrightarrow> (\<exists>bm. sv_bans s = Some bm \<and> check_ban (se_system_ns e) (hi_ipid e p s) h bm \<noteq> None)"

definition network_blocked :: "'m server_env \<Rightarrow> nat \<Rightarrow> 'm ao_server \<Rightarrow> bool" where
  "network_blocked e p s \<longleftrightarrow>
    (\<exists>f asn am. se_rep_cached e = Some f \<and> f (client_addr e (s_client_id (session_at p s))) = Some asn \<and> sv_asn s = Some am \<and>
      check_blocked (system_seconds e) asn am \<noteq> None)"

lemma register_hardware_reads:
  assumes "p < length (heap (sv_room s))"
  shows "sv_bans (register_hardware e p h s) = sv_bans s" "sv_asn (register_hardware e p h s) = sv_asn s"
    "sv_spam (register_hardware e p h s) = sv_spam s" "sv_undef (register_hardware e p h s) = sv_undef s"
    "s_client_id (session_at p (register_hardware e p h s)) = s_client_id (session_at p s)"
    "s_ipid (session_at p (register_hardware e p h s)) = hi_ipid e p s"
    "s_hardware_id (session_at p (register_hardware e p h s)) = h"
    "in_phase c ph (register_hardware e p h s) = in_phase c ph s"
    "sv_outs (register_hardware e p h s) = sv_outs s"
  using assms
  by (auto simp: register_hardware_def Let_def on_session_def on_room_def set_protocol_state_def hi_ipid_def session_at_def
      in_phase_def get_protocol_state_def update_conv' split: option.split)

lemma register_connection_reads:
  assumes "register_connection e p ip asn s = Some s'"
  shows "sv_proto s' = sv_proto s" "sv_undef s' = sv_undef s" "sv_room s' = sv_room s"
  using assms by (auto simp: register_connection_def Let_def emit_def split: option.splits)

lemma get_protocol_send: "get_protocol_state c (send e d pkt s) = get_protocol_state c s"
  using standing.send [of e d pkt s] by (simp add: standing_def get_protocol_state_def)

lemma closes_client: "se_ws_addr e \<noteq> None \<Longrightarrow> Closed c \<in> set (sv_outs (close_now e c s))"
  by (simp add: close_now_def)

text \<open>The state in which HI looks the network up, and what it finds.\<close>

definition looked_up :: "'m server_env \<Rightarrow> nat \<Rightarrow> string \<Rightarrow> 'm ao_server \<Rightarrow> 'm ao_server" where
  "looked_up e p h s =
    (let s1 = register_hardware e p h s
     in if se_rep_cached e \<noteq> None then emit [Reputation_lookup (client_addr e (s_client_id (session_at p s)))] s1 else s1)"

lemma hi_lookups:
  assumes "p < length (heap (sv_room s))"
  shows "ban_for e p (register_hardware e p h s) \<noteq> None \<longleftrightarrow> banned e p h s"
    "cached_asn e (client_addr e (s_client_id (session_at p s))) \<noteq> None \<and>
     asn_is_blocked e (the (cached_asn e (client_addr e (s_client_id (session_at p s))))) (looked_up e p h s) \<longleftrightarrow>
     network_blocked e p s"
    "in_phase c ph (looked_up e p h s) = in_phase c ph s"
    "s_client_id (session_at p (looked_up e p h s)) = s_client_id (session_at p s)"
proof -
  note reads = register_hardware_reads [OF assms, where e = e and h = h]
  show "ban_for e p (register_hardware e p h s) \<noteq> None \<longleftrightarrow> banned e p h s"
    using reads by (auto simp: ban_for_def banned_def split: option.split)
  show "cached_asn e (client_addr e (s_client_id (session_at p s))) \<noteq> None \<and>
     asn_is_blocked e (the (cached_asn e (client_addr e (s_client_id (session_at p s))))) (looked_up e p h s) \<longleftrightarrow>
     network_blocked e p s"
    using reads
    by (auto simp: looked_up_def Let_def cached_asn_def asn_is_blocked_def network_blocked_def emit_def split: option.splits)
  show "in_phase c ph (looked_up e p h s) = in_phase c ph s" 
    "s_client_id (session_at p (looked_up e p h s)) = s_client_id (session_at p s)"
    using reads by (auto simp: looked_up_def Let_def in_phase_def get_protocol_state_def emit_def session_at_def)
qed

lemma refused_stays:
  "in_phase c ph u \<Longrightarrow> in_phase c ph (close_now e c (send e c pkt u))"
  using standingD(1) [OF standing.send] standingD(1) [OF standing.closes(1)] by blast

lemma hi_refuses:
  assumes "p < length (heap (sv_room s))" "s_client_id (session_at p s) = c" "in_phase c P_CONNECTED s" "se_ws_addr e \<noteq> None"
    and "banned e p h s \<or> network_blocked e p s"
  shows "in_phase c P_CONNECTED (handle_HI e p h s) \<and> Closed c \<in> set (sv_outs (handle_HI e p h s))"
proof -
  note looks = hi_lookups [OF assms(1), where e = e and h = h]
  have s1: "in_phase c P_CONNECTED (register_hardware e p h s)" "in_phase c P_CONNECTED (looked_up e p h s)"
    using assms(3) looks(3) register_hardware_reads(8) [OF assms(1)] by blast+
  have "\<exists>pkt u. handle_HI e p h s = close_now e c (send e c pkt u) \<and> in_phase c P_CONNECTED u"
  proof (cases "ban_for e p (register_hardware e p h s)")
    case (Some b)
    then have "handle_HI e p h s = close_now e c (send e c (packet ''KB'' [be_reason b]) (register_hardware e p h s))"
      using assms(2,3) by (simp add: handle_HI_def Let_def)
    then show ?thesis using s1(1) by blast
  next
    case None
    then have "network_blocked e p s" using looks(1) assms(5) by simp
    then have "handle_HI e p h s =
        close_now e c (send e c (packet ''KB'' [''Connection blocked (network reputation)'']) (looked_up e p h s))"
      using None looks(2) assms(2,3) by (auto simp: handle_HI_def Let_def looked_up_def)
    then show ?thesis using s1(2) by blast
  qed
  then show ?thesis using refused_stays closes_client [OF assms(4)] by metis
qed

lemma hi_accepts:
  assumes "p < length (heap (sv_room s))" "s_client_id (session_at p s) = c" "in_phase c P_CONNECTED s"
    and "\<not> banned e p h s" "\<not> network_blocked e p s" "\<not> sv_undef (handle_HI e p h s)"
  shows "in_phase c P_IDENTIFIED (handle_HI e p h s)"
proof -
  note looks = hi_lookups [OF assms(1), where e = e and h = h]
  let ?asn = "case cached_asn e (client_addr e c) of Some n \<Rightarrow> n | None \<Rightarrow> 0"
  have none: "ban_for e p (register_hardware e p h s) = None" using looks(1) assms(4) by simp
  have "\<not> (cached_asn e (client_addr e c) \<noteq> None \<and> asn_is_blocked e ?asn (looked_up e p h s))"
    using looks(2) assms(2,5) by (cases "cached_asn e (client_addr e c)") simp_all
  note unblocked = this [unfolded looked_up_def Let_def assms(2)]
  have "handle_HI e p h s = (case register_connection e p (client_addr e c) ?asn (looked_up e p h s) of
      None \<Rightarrow> (looked_up e p h s)\<lparr>sv_undef := True\<rparr> | Some s3 \<Rightarrow> accept_client e p s3)"
    unfolding handle_HI_def looked_up_def Let_def assms(2) none option.case if_not_P [OF unblocked] using assms(3) by simp
  then obtain s3 where s3: "register_connection e p (client_addr e c) ?asn (looked_up e p h s) = Some s3"
      "handle_HI e p h s = accept_client e p s3"
    using assms(6) by (auto split: option.splits)
  note r3 = register_connection_reads [OF s3(1)]
  have c3: "s_client_id (session_at p s3) = c" using r3(3) looks(4) assms(2) by (simp add: session_at_def)
  have "get_protocol_state c s3 \<noteq> None"
    using looks(3) [of c P_CONNECTED] assms(3) r3(1) by (auto simp: in_phase_def get_protocol_state_def split: option.splits)
  then have "in_phase c P_IDENTIFIED (accept_client e p s3)"
    using in_phase_set [of c _ P_IDENTIFIED P_IDENTIFIED] c3
    by (auto simp: accept_client_def Let_def in_phase_set get_protocol_send)
  then show ?thesis using s3(2) by simp
qed

text \<open>C10: The handshake lets exactly those in who are not banned and whose network is not known as
blocked: when a client that has just connected sends HI (and the spam detector's ring is not
overrun), it is identified afterwards if and only if no ban in force names its address hash or its
hardware id and the network that the reputation cache has for its address is not blocked; otherwise it stays
where it was and its connection is closed.\<close>

theorem hi_admits_exactly:
  assumes "server_reach s" and "get_session c (sv_room s) = Some p" and "in_phase c P_CONNECTED s"
    and "t = server_dispatch e c (HI_of [h]) s" and "\<not> sv_undef t" and "se_ws_addr e \<noteq> None"
  shows "if banned e p h s \<or> network_blocked e p s then in_phase c P_CONNECTED t \<and> Closed c \<in> set (sv_outs t)
    else in_phase c P_IDENTIFIED t"
proof -
  have ok: "registry_ok s" using server_reach_ok [OF assms(1)] by (simp add: server_ok_def)
  have p: "p < length (heap (sv_room s))" "s_client_id (session_at p s) = c"
    using registry_okD(3) [OF ok] assms(2) by blast+
  have t: "t = handle_HI e p h s"
    using assms(2,4) by (simp add: server_dispatch_def HI_of_def with_body_def packet_def has_packet_iff chat_headers server_handle_def)
  show ?thesis
    using hi_refuses [OF p assms(3,6)] hi_accepts [OF p assms(3)] assms(5) by (simp add: t)
qed

theorem hi_admits_exactly_witness:
  "in_phase 1 P_IDENTIFIED (server_dispatch demo_ws 1 (HI_of [''pc'']) (demo_run [Connected 1]))"
proof -
  note facts = demo_hi [unfolded demo_hi_def]
  have "\<not> banned demo_ws 0 ''pc'' (demo_run [Connected 1])" "\<not> network_blocked demo_ws 0 (demo_run [Connected 1])"
    using facts by (simp_all add: banned_def network_blocked_def hi_ipid_def client_addr_def demo_ws_def demo_env_def)
  then show ?thesis
    using hi_admits_exactly [OF demo_reach_1 demo_get_1(1), of _ demo_ws "''pc''"] facts by simp
qed

end
