(* ===== verification/Base64.thy ===== *)
theory Base64
  imports Crypto
begin

text \<open>
  engine/utils/Base64.cpp. \<open>encode\<close> walks over the bytes in groups of three; \<open>decode\<close> throws when the
  length is not a multiple of four or a character is not in the table. The span that \<open>decode\<close> returns
  refers to a local vector, which is gone when the caller reads it; \<open>b64_decode\<close> is the content
  that this vector had.
\<close>

definition encoding_table :: string where
  "encoding_table = ''ABCDEFGHIJKLMNOPQRSTUVWXYZabcdefghijklmnopqrstuvwxyz0123456789+/''"

definition b64_char :: "u32 \<Rightarrow> char" where
  "b64_char w = encoding_table ! unat (w AND 0x3F)"

fun b64_encode :: "bytes \<Rightarrow> string" where
  "b64_encode (a # b # c # rest) =
     (let triple = push_bit 16 (ucast a) + push_bit 8 (ucast b) + ucast c
      in [b64_char (drop_bit 18 triple), b64_char (drop_bit 12 triple),
          b64_char (drop_bit 6 triple), b64_char triple] @ b64_encode rest)"
| "b64_encode [a, b] =
     (let triple = push_bit 16 (ucast a) + push_bit 8 (ucast b)
      in [b64_char (drop_bit 18 triple), b64_char (drop_bit 12 triple), b64_char (drop_bit 6 triple), CHR ''=''])"
| "b64_encode [a] =
     (let triple = push_bit 16 (ucast a)
      in [b64_char (drop_bit 18 triple), b64_char (drop_bit 12 triple), CHR ''='', CHR ''=''])"
| "b64_encode [] = []"

datatype b64_error = Invalid_length | Out_of_range

definition base64_map :: "char \<rightharpoonup> u32" where
  "base64_map = map_of (zip encoding_table (map of_nat [0..<64]))"

definition sextet :: "char \<Rightarrow> u32 option" where
  "sextet c = (if c = CHR ''='' then Some 0 else base64_map c)"

fun decode_groups :: "string \<Rightarrow> b64_error + bytes" where
  "decode_groups (a # b # c # d # rest) =
     (case (sextet a, sextet b, sextet c, sextet d) of
        (Some sa, Some sb, Some sc, Some sd) \<Rightarrow>
          (let triple = push_bit 18 sa OR push_bit 12 sb OR push_bit 6 sc OR sd;
               out = (if c \<noteq> CHR ''='' then [ucast (drop_bit 16 triple AND 0xFF)] else [])
                   @ (if d \<noteq> CHR ''='' then [ucast (drop_bit 8 triple AND 0xFF)] else [])
                   @ (if d \<noteq> CHR ''='' then [ucast (triple AND 0xFF)] else [])
           in case decode_groups rest of Inl e \<Rightarrow> Inl e | Inr bs \<Rightarrow> Inr (out @ bs))
      | _ \<Rightarrow> Inl Out_of_range)"
| "decode_groups _ = Inr []"

definition b64_decode :: "string \<Rightarrow> b64_error + bytes" where
  "b64_decode s = (if length s mod 4 \<noteq> 0 then Inl Invalid_length else decode_groups s)"

section \<open>Encoding and decoding\<close>

lemma table_entries:
  "list_all (\<lambda>i. sextet (encoding_table ! i) = Some (of_nat i) \<and> encoding_table ! i \<noteq> CHR ''='') [0..<64]"
  by code_simp

lemma and_3F: "(w::u32) AND 0x3F = take_bit 6 w"
  by (simp add: take_bit_eq_mask mask_eq_exp_minus_1)

lemma and_FF: "(w::u32) AND 0xFF = take_bit 8 w"
  by (simp add: take_bit_eq_mask mask_eq_exp_minus_1)

lemma and_3F_less: "unat ((w::u32) AND 0x3F) < 64"
  using take_bit_nat_less_exp [of 6 "unat w"] unfolding and_3F by (simp add: unsigned_take_bit_eq)

lemma b64_char_sextet: "sextet (b64_char w) = Some (w AND 0x3F)" "b64_char w \<noteq> CHR ''=''"
  using table_entries and_3F_less [of w] by (auto simp: b64_char_def list_all_iff)

lemma sextet_pad: "sextet (CHR ''='') = Some 0"
  by (simp add: sextet_def)

lemma triple_or:
  fixes a b c :: u8
  shows "push_bit 16 (ucast a) + push_bit 8 (ucast b) + ucast c =
    (push_bit 16 (ucast a) OR push_bit 8 (ucast b) OR ucast c :: u32)"
proof -
  have ab: "push_bit 16 (ucast a) + push_bit 8 (ucast b) = (push_bit 16 (ucast a) OR push_bit 8 (ucast b) :: u32)"
    by (rule disjunctive_add_eq_or) (rule bit_word_eqI, auto simp: bit_simps dest: bit_imp_le_length)
  show ?thesis unfolding ab or.assoc [symmetric]
    by (rule disjunctive_add_eq_or) (rule bit_word_eqI, auto simp: bit_simps dest: bit_imp_le_length)
qed

lemma triple_join:
  fixes t :: u32
  assumes "\<And>n. 24 \<le> n \<Longrightarrow> \<not> bit t n"
  shows "push_bit 18 (drop_bit 18 t AND 0x3F) OR push_bit 12 (drop_bit 12 t AND 0x3F) OR
         push_bit 6 (drop_bit 6 t AND 0x3F) OR (t AND 0x3F) = t"
  unfolding and_3F
proof (rule bit_word_eqI)
  fix n assume "n < LENGTH(32)"
  consider "n < 6" | "6 \<le> n" "n < 12" | "12 \<le> n" "n < 18" | "18 \<le> n" "n < 24" | "24 \<le> n" by linarith
  then show "bit (push_bit 18 (take_bit 6 (drop_bit 18 t)) OR push_bit 12 (take_bit 6 (drop_bit 12 t)) OR
         push_bit 6 (take_bit 6 (drop_bit 6 t)) OR take_bit 6 t) n = bit t n"
    using assms by cases (auto simp: bit_or_iff bit_push_bit_iff bit_take_bit_iff bit_drop_bit_eq)
qed

lemma triple_bytes:
  fixes a b c :: u8
  defines "t \<equiv> (push_bit 16 (ucast a) OR push_bit 8 (ucast b) OR ucast c :: u32)"
  shows "ucast (drop_bit 16 t AND 0xFF) = a" "ucast (drop_bit 8 t AND 0xFF) = b" "ucast (t AND 0xFF) = c"
    "\<And>n. 24 \<le> n \<Longrightarrow> \<not> bit t n"
proof -
  show "ucast (drop_bit 16 t AND 0xFF) = a"
    unfolding t_def and_FF by (rule bit_word_eqI) (auto simp: bit_simps dest: bit_imp_le_length)
  show "ucast (drop_bit 8 t AND 0xFF) = b"
    unfolding t_def and_FF by (rule bit_word_eqI) (auto simp: bit_simps dest: bit_imp_le_length)
  show "ucast (t AND 0xFF) = c"
    unfolding t_def and_FF by (rule bit_word_eqI) (auto simp: bit_simps dest: bit_imp_le_length)
  show "\<And>n. 24 \<le> n \<Longrightarrow> \<not> bit t n" unfolding t_def by (auto simp: bit_simps dest: bit_imp_le_length)
qed

lemma triple_join_top:
  fixes t :: u32
  assumes "\<And>n. 24 \<le> n \<Longrightarrow> \<not> bit t n"
  shows "drop_bit 16 (push_bit 18 (take_bit 6 (drop_bit 18 t)) OR push_bit 12 (take_bit 6 (drop_bit 12 t)) OR
         push_bit 6 (take_bit 6 (drop_bit 6 t)) OR 0) = drop_bit 16 t"
proof -
  have "drop_bit 16 (take_bit 6 t) = 0" by (rule bit_word_eqI) (simp add: bit_simps)
  then show ?thesis
    using arg_cong [OF triple_join [OF assms], of "drop_bit 16"] by (simp add: and_3F drop_bit_or)
qed

lemma sextets_of:
  "sextet (b64_char w) = Some (take_bit 6 w)" "b64_char w \<noteq> CHR ''=''"
  using b64_char_sextet [of w] by (simp_all add: and_3F)

lemma decode_two:
  assumes "\<And>n. 24 \<le> n \<Longrightarrow> \<not> bit t n"
  shows "decode_groups [b64_char (drop_bit 18 t), b64_char (drop_bit 12 t), b64_char (drop_bit 6 t), CHR ''='']
    = Inr [ucast (drop_bit 16 t AND 0xFF)]"
  using triple_join_top [OF assms] by (simp add: sextets_of sextet_pad Let_def)

lemma length_b64_encode: "length (b64_encode bs) = 4 * ((length bs + 2) div 3)"
proof (induction bs rule: b64_encode.induct)
  case (1 a b c rest)
  have "(length rest + 2 + 3) div 3 = (length rest + 2) div 3 + 1" by (rule div_add_self2) simp
  with 1 show ?case by (simp add: Let_def)
qed (simp_all add: Let_def)

text \<open>Whole groups survive the round trip; of a last incomplete group the last byte is lost.\<close>

definition lost_tail :: "bytes \<Rightarrow> bytes" where
  "lost_tail bs = (if length bs mod 3 = 0 then bs else butlast bs)"

lemma lost_tail_group: "lost_tail (a # b # c # rest) = a # b # c # lost_tail rest"
proof -
  have "length (a # b # c # rest) mod 3 = length rest mod 3" by simp
  then show ?thesis by (auto simp: lost_tail_def)
qed

lemma decode_encode: "decode_groups (b64_encode bs) = Inr (lost_tail bs)"
proof (induction bs rule: b64_encode.induct)
  case (1 a b c rest)
  let ?t = "push_bit 16 (ucast a) OR push_bit 8 (ucast b) OR ucast c :: u32"
  show ?case
    using 1 triple_join [OF triple_bytes(4) [of _ a b c]] triple_bytes(1-3) [of a b c]
    by (simp add: Let_def triple_or sextets_of and_3F lost_tail_group)
next
  case (2 a b)
  have t: "push_bit 16 (ucast a) + push_bit 8 (ucast b) = (push_bit 16 (ucast a) OR push_bit 8 (ucast b) OR ucast (0::u8) :: u32)"
    using triple_or [of a b 0] by simp
  let ?t = "push_bit 16 (ucast a) OR push_bit 8 (ucast b) OR ucast (0::u8) :: u32"
  have "b64_encode [a, b] = [b64_char (drop_bit 18 ?t), b64_char (drop_bit 12 ?t), b64_char (drop_bit 6 ?t), CHR ''='']"
    by (simp only: b64_encode.simps Let_def t)
  moreover have "decode_groups [b64_char (drop_bit 18 ?t), b64_char (drop_bit 12 ?t), b64_char (drop_bit 6 ?t), CHR ''='']
      = Inr [ucast (drop_bit 16 ?t AND 0xFF)]"
    by (rule decode_two) (rule triple_bytes(4))
  ultimately show ?case by (simp only: triple_bytes(1)) (simp add: lost_tail_def)
qed (simp_all add: Let_def sextets_of sextet_pad lost_tail_def)

text \<open>Decoding what was encoded never fails, but only the whole groups of three bytes come back: of a last
group of one or two bytes the last byte is lost.\<close>

theorem base64_loses_last_byte:
  "b64_decode (b64_encode bs) = Inr (if length bs mod 3 = 0 then bs else butlast bs)"
  by (simp add: b64_decode_def length_b64_encode decode_encode lost_tail_def)

end
