(* ===== verification/WS_Frame.thy ===== *)
theory WS_Frame
  imports Crypto_Props
begin

text \<open>
  WebSocket frames: include/net/WebSocketFrame.h, engine/net/WebSocketFrame.cpp, and the part of
  \<open>WebSocketServer::read_client_frames\<close> that cuts one frame off the received bytes. An opcode is
  any four-bit value, as the enum has a fixed underlying type. \<open>htons\<close>, \<open>htonl\<close> and the 64-bit swap
  followed by \<open>memcpy\<close> are the big-endian bytes of the value. Where the code copies a range that is
  not inside the received bytes, the result is \<open>Bad_range\<close>.
\<close>

section \<open>Frames\<close>

definition CONTINUATION :: u8 where "CONTINUATION = 0"
definition TEXT :: u8 where "TEXT = 1"
definition BINARY :: u8 where "BINARY = 2"
definition CLOSE :: u8 where "CLOSE = 8"
definition PING :: u8 where "PING = 9"
definition PONG :: u8 where "PONG = 10"

lemmas opcode_defs = CONTINUATION_def TEXT_def BINARY_def CLOSE_def PING_def PONG_def

record ws_frame =
  f_complete :: bool
  f_bytes :: bytes
  f_fin :: bool
  f_rsv :: u8
  f_opcode :: u8
  f_mask :: bool
  f_len_code :: u8
  f_len :: u64
  f_mask_key :: u32
  f_data :: bytes

definition ws_frame_new :: ws_frame where
  "ws_frame_new = \<lparr>f_complete = False, f_bytes = [], f_fin = False, f_rsv = 0, f_opcode = TEXT,
     f_mask = False, f_len_code = 0, f_len = 0, f_mask_key = 0, f_data = []\<rparr>"

definition be16 :: "u16 \<Rightarrow> bytes" where
  "be16 v = [ucast (drop_bit 8 v), ucast v]"

definition read_be16 :: "bytes \<Rightarrow> u16" where
  "read_be16 p = push_bit 8 (ucast (p ! 0)) OR ucast (p ! 1)"

definition read_be64 :: "bytes \<Rightarrow> u64" where
  "read_be64 p = push_bit 32 (ucast (read_be32 p)) OR ucast (read_be32 (drop 4 p))"

definition key_bytes :: "u32 \<Rightarrow> bytes" where
  "key_bytes mask_key =
     [ucast (drop_bit 24 mask_key AND 0xFF), ucast (drop_bit 16 mask_key AND 0xFF),
      ucast (drop_bit 8 mask_key AND 0xFF), ucast (mask_key AND 0xFF)]"

definition apply_mask :: "u32 \<Rightarrow> bytes \<Rightarrow> bytes" where
  "apply_mask mask_key data =
     map2 (\<lambda>i c. c XOR key_bytes mask_key ! (i mod 4)) [0..<length data] data"

text \<open>The masking of \<open>serialize\<close> shifts the key instead of taking it apart.\<close>

definition mask_shifted :: "u32 \<Rightarrow> bytes \<Rightarrow> bytes" where
  "mask_shifted key data =
     map2 (\<lambda>idx c. c XOR ucast (drop_bit (24 - (idx mod 4) * 8) key AND 0xFF)) [0..<length data] data"

definition ws_serialize :: "ws_frame \<Rightarrow> bytes" where
  "ws_serialize f =
     [(if f_fin f then 0x80 else 0) OR push_bit 4 (f_rsv f AND 0x07) OR (f_opcode f AND 0x0F)] @
     [f_len_code f OR (if f_mask f then 0x80 else 0)] @
     (if f_len_code f = 126 then be16 (ucast (f_len f AND 0xFFFF))
      else if f_len_code f = 127 then be64 (f_len f) else []) @
     (if f_mask f then be32 (f_mask_key f) else []) @
     (if f_mask f then mask_shifted (f_mask_key f) (f_data f) else f_data f)"

definition length_code :: "u64 \<Rightarrow> u8" where
  "length_code len = (if len \<le> 125 then ucast (len AND 0xFF) else if len \<le> 0xFFFF then 126 else 127)"

text \<open>The frames the server sends: a text, or the bytes of a close code and at most 123 of its reason.\<close>

definition text_frame :: "bytes \<Rightarrow> ws_frame" where
  "text_frame data = ws_frame_new\<lparr>f_fin := True, f_opcode := TEXT, f_len := of_nat (length data),
     f_len_code := length_code (of_nat (length data)), f_data := data\<rparr>"

definition close_frame :: "u16 \<Rightarrow> string \<Rightarrow> ws_frame" where
  "close_frame code reason =
    (let data = be16 code @ take 123 (bytes_of reason)
     in ws_frame_new\<lparr>f_fin := True, f_opcode := CLOSE, f_data := data, f_len := of_nat (length data),
          f_len_code := of_nat (length data)\<rparr>)"

section \<open>Cutting one frame off\<close>

datatype parse_result = Incomplete | Parsed ws_frame nat | Bad_range

text \<open>The size of the header before the mask and the announced length of the payload.\<close>

definition payload_length :: "bytes \<Rightarrow> (nat \<times> u64) option" where
  "payload_length b =
    (let code = b ! 1 AND 0x7F
     in if code = 126 then (if length b < 4 then None else Some (4, ucast (read_be16 (drop 2 b))))
        else if code = 127 then (if length b < 10 then None else Some (10, read_be64 (drop 2 b)))
        else Some (2, ucast code))"

definition parse_frame :: "bytes \<Rightarrow> parse_result" where
  "parse_frame b =
    (if length b < 2 then Incomplete
     else case payload_length b of
       None \<Rightarrow> Incomplete
     | Some (h, pl_len) \<Rightarrow>
         (let masked = (b ! 1 AND 0x80 \<noteq> 0);
              header_size = (if masked then h + 4 else h);
              total_needed = of_nat header_size + pl_len
          in if length b < unat total_needed then Incomplete
             else if length b < header_size + unat pl_len then Bad_range
             else
               (let mask_key = (if masked then read_be32 (drop (header_size - 4) b) else 0);
                    payload = take (unat pl_len) (drop header_size b)
                in Parsed
                     \<lparr>f_complete = True, f_bytes = [], f_fin = (b ! 0 AND 0x80 \<noteq> 0),
                      f_rsv = drop_bit 4 (b ! 0 AND 0x70), f_opcode = b ! 0 AND 0x0F, f_mask = masked,
                      f_len_code = b ! 1 AND 0x7F, f_len = pl_len, f_mask_key = mask_key,
                      f_data = (if masked \<and> payload \<noteq> [] then apply_mask mask_key payload else payload)\<rparr>
                     (header_size + unat pl_len))))"

section \<open>Masking\<close>

lemma length_apply_mask [simp]: "length (apply_mask k d) = length d"
  by (simp add: apply_mask_def)

lemma mask_shifted_eq: "mask_shifted k d = apply_mask k d"
proof (rule nth_equalityI)
  fix i assume "i < length (mask_shifted k d)"
  moreover have "ucast (drop_bit (24 - (i mod 4) * 8) k AND 0xFF) = key_bytes k ! (i mod 4)"
  proof -
    consider "i mod 4 = 0" | "i mod 4 = 1" | "i mod 4 = 2" | "i mod 4 = 3" by linarith
    then show ?thesis by cases (simp_all add: key_bytes_def)
  qed
  ultimately show "mask_shifted k d ! i = apply_mask k d ! i"
    by (simp add: mask_shifted_def apply_mask_def)
qed (simp add: mask_shifted_def apply_mask_def)

lemma apply_mask_twice: "apply_mask k (apply_mask k d) = d"
  by (rule nth_equalityI) (simp_all add: apply_mask_def xor.assoc)

end
