(* ===== verification/WS_Frame_Props.thy ===== *)
theory WS_Frame_Props
  imports WS_Frame
begin

text \<open>
  The frame codec: what \<open>serialize\<close> writes is cut off again as the same frame, for every frame
  whose length code fits its length; a frame that is still incomplete is left alone; cutting is not
  affected by what follows. The announced length is added to the header size in 64 bits, and the last
  lengths below 2^64 wrap around.
\<close>

section \<open>The header bytes\<close>

lemma first_byte_table:
  "list_all (\<lambda>fin. list_all (\<lambda>r. list_all (\<lambda>c.
     let b = ((if fin then 0x80 else 0) OR push_bit 4 (of_nat r AND 0x07) OR (of_nat c AND 0x0F) :: u8)
     in (b AND 0x80 \<noteq> 0) = fin \<and> drop_bit 4 (b AND 0x70) = of_nat r \<and> b AND 0x0F = of_nat c)
   [0..<16]) [0..<8]) [True, False]"
  by code_simp

lemma first_byte:
  fixes r c :: u8 and fin :: bool
  assumes "r < 8" "c < 16"
  defines "b \<equiv> (if fin then 0x80 else 0) OR push_bit 4 (r AND 0x07) OR (c AND 0x0F)"
  shows "(b AND 0x80 \<noteq> 0) = fin" "drop_bit 4 (b AND 0x70) = r" "b AND 0x0F = c"
proof -
  have "fin \<in> set [True, False]" "unat r \<in> set [0..<8]" "unat c \<in> set [0..<16]"
    using assms(1,2) by (auto simp: word_less_nat_alt)
  from first_byte_table [unfolded list_all_iff, rule_format, OF this]
  show "(b AND 0x80 \<noteq> 0) = fin" "drop_bit 4 (b AND 0x70) = r" "b AND 0x0F = c"
    unfolding b_def Let_def of_nat_unat ucast_id by blast+
qed

lemma second_byte_table:
  "list_all (\<lambda>m. list_all (\<lambda>c. let b = (of_nat c OR (if m then 0x80 else 0) :: u8)
     in (b AND 0x80 \<noteq> 0) = m \<and> b AND 0x7F = of_nat c) [0..<128]) [True, False]"
  by code_simp

lemma second_byte:
  fixes c :: u8
  assumes "c < 128"
  shows "((c OR (if m then 0x80 else 0)) AND 0x80 \<noteq> 0) = m" "(c OR (if m then 0x80 else 0)) AND 0x7F = c"
proof -
  have "m \<in> set [True, False]" "unat c \<in> set [0..<128]" using assms by (auto simp: word_less_nat_alt)
  from second_byte_table [unfolded list_all_iff, rule_format, OF this]
  show "((c OR (if m then 0x80 else 0)) AND 0x80 \<noteq> 0) = m" "(c OR (if m then 0x80 else 0)) AND 0x7F = c"
    unfolding Let_def of_nat_unat ucast_id by blast+
qed

lemma read_be16_be16: "read_be16 (be16 v @ xs) = v"
  by (rule bit_word_eqI) (auto simp: read_be16_def be16_def bit_simps)

lemma read_be64_be64: "read_be64 (be64 v @ xs) = v"
proof -
  have "read_be64 (be64 v @ xs) = push_bit 32 (ucast (ucast (drop_bit 32 v) :: u32)) OR ucast (ucast v :: u32)"
    by (simp add: read_be64_def be64_def read_be32_be32)
  then show ?thesis by (simp) (rule bit_word_eqI, auto simp: bit_simps)
qed


section \<open>Encoding and decoding\<close>

text \<open>The frames whose length code says what their length is.\<close>

definition frame_ok :: "ws_frame \<Rightarrow> bool" where
  "frame_ok f \<longleftrightarrow> f_rsv f < 8 \<and> f_opcode f < 16 \<and> unat (f_len f) = length (f_data f) \<and>
     length (f_data f) < 2 ^ 63 \<and>
     (if f_len_code f = 126 then length (f_data f) < 65536
      else f_len_code f = 127 \<or> f_len_code f < 126 \<and> unat (f_len_code f) = length (f_data f))"

text \<open>What the receiver makes of it: complete, with the key only where there is a mask.\<close>

definition received :: "ws_frame \<Rightarrow> ws_frame" where
  "received f = f\<lparr>f_complete := True, f_bytes := [], f_mask_key := (if f_mask f then f_mask_key f else 0)\<rparr>"

definition length_bytes :: "ws_frame \<Rightarrow> bytes" where
  "length_bytes f = (if f_len_code f = 126 then be16 (ucast (f_len f AND 0xFFFF))
      else if f_len_code f = 127 then be64 (f_len f) else [])"

definition mask_part :: "ws_frame \<Rightarrow> bytes" where
  "mask_part f = (if f_mask f then be32 (f_mask_key f) else [])"

definition wire_data :: "ws_frame \<Rightarrow> bytes" where
  "wire_data f = (if f_mask f then apply_mask (f_mask_key f) (f_data f) else f_data f)"

lemma serialize_parts:
  "ws_serialize f =
     ((if f_fin f then 0x80 else 0) OR push_bit 4 (f_rsv f AND 0x07) OR (f_opcode f AND 0x0F)) #
     (f_len_code f OR (if f_mask f then 0x80 else 0)) # length_bytes f @ mask_part f @ wire_data f"
  by (simp add: ws_serialize_def length_bytes_def mask_part_def wire_data_def mask_shifted_eq)

lemma code_small: "frame_ok f \<Longrightarrow> f_len_code f < 128"
  by (auto simp: frame_ok_def word_less_nat_alt split: if_splits)

lemma length_be16 [simp]: "length (be16 v) = 2"
  by (simp add: be16_def)

lemma low_16: "unat (v :: u64) < 65536 \<Longrightarrow> ucast (ucast (v AND 0xFFFF) :: u16) = v"
proof -
  assume "unat v < 65536"
  then have "unat (take_bit 16 v) = unat v"
    by (simp add: unsigned_take_bit_eq take_bit_nat_eq_self_iff)
  then have "take_bit 16 v = v" by (simp only: word_unat_eq_iff)
  moreover have "v AND 0xFFFF = take_bit 16 v" by (simp add: take_bit_eq_mask mask_eq_exp_minus_1)
  moreover have "ucast (ucast v :: u16) = take_bit 16 v" by (rule bit_word_eqI) (auto simp: bit_simps)
  ultimately show ?thesis by simp
qed

lemma payload_length_serialize:
  assumes "frame_ok f" "b = b0 # (f_len_code f OR (if f_mask f then 0x80 else 0)) # length_bytes f @ xs"
  shows "payload_length b = Some (2 + length (length_bytes f), f_len f)"
proof -
  have code: "b ! 1 AND 0x7F = f_len_code f" using second_byte(2) [OF code_small [OF assms(1)]] by (simp add: assms(2))
  consider "f_len_code f = 126" | "f_len_code f = 127" | "f_len_code f < 126" using assms(1) by (auto simp: frame_ok_def split: if_splits)
  then show ?thesis
  proof cases
    case 1
    then have "unat (f_len f) < 65536" using assms(1) by (simp add: frame_ok_def)
    then show ?thesis using 1 code
      by (simp add: payload_length_def Let_def assms(2) length_bytes_def read_be16_be16 low_16)
  next
    case 2
    then show ?thesis using code by (simp add: payload_length_def Let_def assms(2) length_bytes_def read_be64_be64)
  next
    case 3
    then have "f_len_code f \<noteq> 126" "f_len_code f \<noteq> 127" by auto
    moreover from this have "ucast (f_len_code f) = f_len f"
      using assms(1) by (auto simp: frame_ok_def word_unat_eq_iff unsigned_ucast_eq take_bit_nat_eq_self_iff split: if_splits)
    ultimately show ?thesis using code by (simp add: payload_length_def Let_def length_bytes_def)
  qed
qed


lemma parse_serialize:
  assumes "frame_ok f"
  shows "parse_frame (ws_serialize f @ xs) = Parsed (received f) (length (ws_serialize f))"
proof -
  define b0 where "b0 = (if f_fin f then 0x80 else 0) OR push_bit 4 (f_rsv f AND 0x07) OR (f_opcode f AND 0x0F)"
  define b1 where "b1 = f_len_code f OR (if f_mask f then 0x80 else 0)"
  let ?L = "length_bytes f" and ?M = "mask_part f" and ?D = "wire_data f"
  have wire: "ws_serialize f = b0 # b1 # ?L @ ?M @ ?D" by (simp add: serialize_parts b0_def b1_def)
  define b where "b = ws_serialize f @ xs"
  have b: "b = b0 # b1 # ?L @ ?M @ ?D @ xs" by (simp add: b_def wire)
  have size: "length ?D = length (f_data f)" "unat (f_len f) = length (f_data f)" "length (f_data f) < 2 ^ 63"
    using assms by (simp_all add: wire_data_def frame_ok_def)
  have h: "payload_length b = Some (2 + length ?L, f_len f)"
    using payload_length_serialize [OF assms, of b b0 "?M @ ?D @ xs"] by (simp add: b b1_def)
  have m: "(b ! 1 AND 0x80 \<noteq> 0) = f_mask f" "b ! 1 AND 0x7F = f_len_code f"
    using second_byte [OF code_small [OF assms]] by (simp_all add: b b1_def)
  have o: "(b ! 0 AND 0x80 \<noteq> 0) = f_fin f" "drop_bit 4 (b ! 0 AND 0x70) = f_rsv f" "b ! 0 AND 0x0F = f_opcode f"
    using first_byte [of "f_rsv f" "f_opcode f" "f_fin f"] assms by (simp_all add: b b0_def frame_ok_def)
  define hs where "hs = 2 + length ?L + length ?M"
  have hs: "hs = (if f_mask f then 2 + length ?L + 4 else 2 + length ?L)" by (simp add: hs_def mask_part_def)
  have small: "hs \<le> 14" by (auto simp: hs_def length_bytes_def mask_part_def)
  have total: "unat (of_nat hs + f_len f :: u64) = hs + length (f_data f)"
    using small size by (simp add: unat_word_ariths unat_of_nat)
  have long: "hs + length (f_data f) \<le> length b" by (simp add: b hs_def size)
  have payload: "take (unat (f_len f)) (drop hs b) = ?D"
    using size by (simp add: b hs_def)
  have key: "f_mask f \<Longrightarrow> read_be32 (drop (hs - 4) b) = f_mask_key f"
    by (simp add: b hs_def mask_part_def read_be32_be32)
  have data: "(if f_mask f \<and> ?D \<noteq> [] then apply_mask (if f_mask f then read_be32 (drop (hs - 4) b) else 0) ?D else ?D) = f_data f"
    using key by (auto simp: wire_data_def apply_mask_twice) (metis apply_mask_twice length_0_conv length_apply_mask)
  have n: "length (ws_serialize f) = hs + length (f_data f)" by (simp add: wire hs_def size)
  have "\<not> length b < 2" by (simp add: b)
  then have "parse_frame b = Parsed (received f) (length (ws_serialize f))"
    unfolding parse_frame_def h n option.case prod.case Let_def m o hs [symmetric] total payload data
    using long key by (simp add: size received_def)
  then show ?thesis by (simp add: b_def)
qed

section \<open>Cutting\<close>

lemma payload_length_append:
  "payload_length b = Some x \<Longrightarrow> 2 \<le> length b \<Longrightarrow> payload_length (b @ ys) = Some x"
  by (auto simp: payload_length_def Let_def nth_append read_be16_def read_be64_def read_be32_def
      split: if_splits)

lemma payload_length_header: "payload_length b = Some (h, v) \<Longrightarrow> 2 \<le> h \<and> h \<le> 10 \<and> (2 \<le> length b \<longrightarrow> h \<le> length b)"
  by (auto simp: payload_length_def Let_def split: if_splits)

lemma read_be32_append: "4 \<le> length b \<Longrightarrow> read_be32 (b @ ys) = read_be32 b"
  by (auto simp: read_be32_def nth_append)

lemma parse_frame_append:
  assumes "parse_frame b = Parsed f n"
  shows "parse_frame (b @ ys) = Parsed f n" "2 \<le> n" "n \<le> length b"
proof -
  have len: "2 \<le> length b" using assms by (auto simp: parse_frame_def split: if_splits)
  obtain h v where h: "payload_length b = Some (h, v)"
    using assms by (auto simp: parse_frame_def split: if_splits option.splits)
  define hs where "hs = (if b ! 1 AND 0x80 \<noteq> 0 then h + 4 else h)"
  have p: "unat (of_nat hs + v) \<le> length b" "hs + unat v \<le> length b" "n = hs + unat v"
    using assms len h by (auto simp: parse_frame_def hs_def Let_def split: if_splits)
  have "2 \<le> hs" using payload_length_header [OF h] by (simp add: hs_def)
  then show "2 \<le> n" "n \<le> length b" using p by simp_all
  have same: "(b @ ys) ! 0 = b ! 0" "(b @ ys) ! 1 = b ! 1" using len by (auto simp: nth_append)
  have pay: "take (unat v) (drop hs (b @ ys)) = take (unat v) (drop hs b)" using p by simp
  have key: "hs = h + 4 \<Longrightarrow> read_be32 (drop (hs - 4) (b @ ys)) = read_be32 (drop (hs - 4) b)"
    using p by (simp add: read_be32_append)
  show "parse_frame (b @ ys) = Parsed f n"
    using assms len h payload_length_append [OF h len, of ys] p key pay
    unfolding parse_frame_def same by (auto simp: hs_def Let_def split: if_splits)
qed


lemma parse_frame_size: "parse_frame b = Parsed f n \<Longrightarrow> 2 \<le> n \<and> n \<le> length b"
  using parse_frame_append(2,3) by blast

section \<open>Lengths that wrap around\<close>

text \<open>What the header announces: its own size with the mask, and the length of the payload.\<close>

definition announced :: "bytes \<Rightarrow> (nat \<times> u64) option" where
  "announced b = (if length b < 2 then None else
     case payload_length b of None \<Rightarrow> None
     | Some (h, v) \<Rightarrow> Some (if b ! 1 AND 0x80 \<noteq> 0 then h + 4 else h, v))"

lemma announced_size: "announced b = Some (h, v) \<Longrightarrow> 2 \<le> h \<and> h \<le> 14"
  by (auto simp: announced_def split: if_splits option.splits dest: payload_length_header)

lemma parse_frame_announced:
  assumes "announced b = Some (h, v)"
  shows "parse_frame b = Incomplete \<longleftrightarrow> length b < (h + unat v) mod 2 ^ 64"
    "parse_frame b = Bad_range \<longleftrightarrow> (h + unat v) mod 2 ^ 64 \<le> length b \<and> length b < h + unat v"
proof -
  have "unat (of_nat h + v) = (h + unat v) mod 2 ^ 64"
    using announced_size [OF assms] by (simp add: unat_word_ariths unat_of_nat)
  then show "parse_frame b = Incomplete \<longleftrightarrow> length b < (h + unat v) mod 2 ^ 64"
    "parse_frame b = Bad_range \<longleftrightarrow> (h + unat v) mod 2 ^ 64 \<le> length b \<and> length b < h + unat v"
    using assms by (auto simp: announced_def parse_frame_def Let_def split: if_splits option.splits)
qed

lemma parse_frame_length:
  "announced b = Some (h, v) \<Longrightarrow> parse_frame b = Parsed f n \<Longrightarrow> n = h + unat v"
  by (auto simp: announced_def parse_frame_def Let_def split: if_splits option.splits)

lemma parse_frame_not_announced: "announced b = None \<Longrightarrow> parse_frame b = Incomplete"
  by (auto simp: announced_def parse_frame_def split: if_splits option.splits)

lemma bad_range_iff:
  assumes "length b < 2 ^ 64"
  shows "parse_frame b = Bad_range \<longleftrightarrow>
    (\<exists>h v. announced b = Some (h, v) \<and> 2 ^ 64 \<le> h + unat v \<and> h + unat v - 2 ^ 64 \<le> length b)"
proof (cases "announced b")
  case None
  then show ?thesis by (simp add: parse_frame_not_announced)
next
  case (Some x)
  obtain h v where x: "x = (h, v)" by (cases x)
  have "unat v < 2 ^ 64" using unsigned_less [of v] by simp
  moreover have "h \<le> 14" using announced_size Some x by blast
  ultimately have "(h + unat v) mod 2 ^ 64 = (if h + unat v < 2 ^ 64 then h + unat v else h + unat v - 2 ^ 64)"
    by (simp add: mod_if)
  then show ?thesis using parse_frame_announced(2) [of b h v] Some x assms by auto
qed

end
