(* ===== verification/WS_Reader.thy ===== *)
theory WS_Reader
  imports WS_Frame_Props
begin

text \<open>
  The connections of engine/net/WebSocketServer.cpp and the reading of their frames:
  \<open>drain_client\<close> and \<open>read_client_frames\<close>. What the socket of a connection will deliver is the list
  \<open>wc_incoming\<close>; whether a send succeeds is the argument \<open>ok\<close>, and what was sent is the first result.
  An exception ends the reading of a connection, and the frames read before it are lost with it.
\<close>

datatype recv_result = Chunk bytes bool | Recv_error

record ws_conn =
  wc_id :: u64
  wc_fd :: int
  wc_incoming :: "recv_result list"
  wc_remote_addr :: string
  wc_proxy_parsed :: bool
  wc_proxy_resolved :: bool
  wc_connected_at :: int
  wc_last_data_at :: int
  wc_handshake :: bool
  wc_extra :: bytes
  wc_fragment_buf :: bytes
  wc_recv_buf :: bytes
  wc_closed :: bool
  wc_fragment_opcode :: u8
  wc_in_fragment :: bool
  wc_subprotocol :: string

definition ws_conn_new :: ws_conn where
  "ws_conn_new = \<lparr>wc_id = 0, wc_fd = -1, wc_incoming = [], wc_remote_addr = [], wc_proxy_parsed = False,
     wc_proxy_resolved = False, wc_connected_at = 0, wc_last_data_at = 0, wc_handshake = False, wc_extra = [],
     wc_fragment_buf = [], wc_recv_buf = [], wc_closed = False, wc_fragment_opcode = TEXT, wc_in_fragment = False,
     wc_subprotocol = []\<rparr>"

datatype ws_error =
    Socket_error
  | Client_closed
  | Continuation_without_start
  | Data_inside_fragments
  | Fragment_inside_fragments
  | Undefined_range
  | Bad_handshake string

section \<open>Draining the socket\<close>

text \<open>
  \<open>Chunk bs again\<close>: \<open>recv\<close> returns \<open>bs\<close>, and \<open>bytes_available\<close> answers \<open>again\<close> after it. A socket with
  nothing to deliver returns an empty chunk.
\<close>

fun drain_socket :: "recv_result list \<Rightarrow> bytes \<Rightarrow> bytes \<times> bool \<times> recv_result list" where
  "drain_socket [] acc = (acc, False, [])"
| "drain_socket (Recv_error # rest) acc = (acc, True, rest)"
| "drain_socket (Chunk bs again # rest) acc =
     (if bs = [] then (acc, False, rest)
      else if again then drain_socket rest (acc @ bs) else (acc @ bs, False, rest))"

definition drain_client :: "int \<Rightarrow> ws_conn \<Rightarrow> ws_error + bytes \<times> ws_conn" where
  "drain_client now c =
    (if wc_recv_buf c \<noteq> [] then Inr (wc_recv_buf c, c\<lparr>wc_recv_buf := [], wc_last_data_at := now\<rparr>)
     else
       (case drain_socket (wc_incoming c) [] of
          (bs, threw, rest) \<Rightarrow>
            if threw \<and> bs = [] then Inl Socket_error
            else if bs = [] then Inr (bs, c\<lparr>wc_incoming := rest\<rparr>)
            else Inr (bs, c\<lparr>wc_incoming := rest, wc_last_data_at := now\<rparr>)))"

section \<open>One frame\<close>

definition close_reply :: "ws_frame \<Rightarrow> ws_frame" where
  "close_reply f =
    (let data = (if 2 \<le> length (f_data f) then take 2 (f_data f) else be16 1000)
     in ws_frame_new\<lparr>f_fin := True, f_opcode := CLOSE, f_data := data, f_len := of_nat (length data),
          f_len_code := of_nat (length data)\<rparr>)"

definition pong_reply :: "ws_frame \<Rightarrow> ws_frame" where
  "pong_reply f =
    (let len = of_nat (length (f_data f))
     in ws_frame_new\<lparr>f_fin := True, f_opcode := PONG, f_data := f_data f, f_len := len,
          f_len_code := (if len \<le> 125 then ucast len else 126)\<rparr>)"

definition assembled :: "u8 \<Rightarrow> bytes \<Rightarrow> ws_frame" where
  "assembled opcode data = ws_frame_new\<lparr>f_complete := True, f_fin := True, f_opcode := opcode,
     f_len := of_nat (length data), f_data := data\<rparr>"

text \<open>Continuations, and texts or binaries (every opcode that is not another one).\<close>

definition data_frame :: "ws_frame \<Rightarrow> ws_conn \<Rightarrow> ws_error + ws_frame list \<times> ws_conn" where
  "data_frame f c =
    (if f_opcode f = CONTINUATION then
       (if \<not> wc_in_fragment c then Inl Continuation_without_start
        else let buf = wc_fragment_buf c @ f_data f
             in if f_fin f then
                  Inr ([assembled (wc_fragment_opcode c) buf], c\<lparr>wc_fragment_buf := [], wc_in_fragment := False\<rparr>)
                else Inr ([], c\<lparr>wc_fragment_buf := buf\<rparr>))
     else if f_fin f then
       (if wc_in_fragment c then Inl Data_inside_fragments else Inr ([f], c))
     else
       (if wc_in_fragment c then Inl Fragment_inside_fragments
        else Inr ([], c\<lparr>wc_in_fragment := True, wc_fragment_opcode := f_opcode f, wc_fragment_buf := f_data f\<rparr>)))"

definition handle_ws_frame ::
  "(bytes \<Rightarrow> bool) \<Rightarrow> ws_frame \<Rightarrow> ws_conn \<Rightarrow> bytes list \<times> (ws_error + ws_frame list \<times> ws_conn)" where
  "handle_ws_frame ok f c =
    (if f_opcode f = CLOSE then
       (let wire = ws_serialize (close_reply f) in (if ok wire then [wire] else [], Inl Client_closed))
     else if f_opcode f = PING then
       (let wire = ws_serialize (pong_reply f)
        in if ok wire then ([wire], Inr ([], c)) else ([], Inl Socket_error))
     else if f_opcode f = PONG then ([], Inr ([], c))
     else ([], data_frame f c))"

section \<open>Reading\<close>

function read_loop ::
  "(bytes \<Rightarrow> bool) \<Rightarrow> bytes \<Rightarrow> ws_conn \<Rightarrow> ws_frame list \<Rightarrow> bytes list \<times> (ws_error + ws_frame list \<times> ws_conn)" where
  "read_loop ok b c msgs =
    (if b = [] then ([], Inr (msgs, c))
     else case parse_frame b of
       Incomplete \<Rightarrow> ([], Inr (msgs, c\<lparr>wc_extra := b\<rparr>))
     | Bad_range \<Rightarrow> ([], Inl Undefined_range)
     | Parsed f n \<Rightarrow>
         (case handle_ws_frame ok f c of
            (outs, Inl e) \<Rightarrow> (outs, Inl e)
          | (outs, Inr (ms, c')) \<Rightarrow>
              (case read_loop ok (drop n b) c' (msgs @ ms) of (outs', r) \<Rightarrow> (outs @ outs', r))))"
  by pat_completeness auto
termination
  by (relation "measure (\<lambda>(ok, b, c, msgs). length b)") (auto dest!: parse_frame_size)

declare read_loop.simps [simp del]

definition read_client_frames ::
  "(bytes \<Rightarrow> bool) \<Rightarrow> int \<Rightarrow> ws_conn \<Rightarrow> bytes list \<times> (ws_error + ws_frame list \<times> ws_conn)" where
  "read_client_frames ok now c =
    (case drain_client now c of
       Inl e \<Rightarrow> ([], Inl e)
     | Inr (bs, c1) \<Rightarrow> read_loop ok (wc_extra c1 @ bs) (c1\<lparr>wc_extra := []\<rparr>) [])"

end
