(* ===== verification/WS_Reader_Props.thy ===== *)
theory WS_Reader_Props
  imports WS_Reader
begin

text \<open>
  What the reader of a connection delivers. The bytes are cut into frames in the same way however
  they arrive, so that a stream of frames gives its messages, put together from their fragments and
  with the pings between them answered, for every way the network cuts it up. The exceptions of the
  reader are the other half: a close frame takes the messages read with it along, and an announced
  length near 2^64 leaves the bytes.
\<close>

section \<open>The frames in a buffer\<close>

function cut :: "bytes \<Rightarrow> ws_frame list \<times> bytes" where
  "cut b = (case parse_frame b of Parsed f n \<Rightarrow> (case cut (drop n b) of (fs, r) \<Rightarrow> (f # fs, r)) | _ \<Rightarrow> ([], b))"
  by pat_completeness auto
termination by (relation "measure length") (auto dest!: parse_frame_size)

declare cut.simps [simp del]

lemma parse_frame_Nil: "parse_frame [] = Incomplete"
  by (simp add: parse_frame_def)

lemma cut_parsed: "parse_frame b = Parsed f n \<Longrightarrow> cut b = (f # fst (cut (drop n b)), snd (cut (drop n b)))"
  by (subst cut.simps) (simp split: prod.splits)

lemma cut_stuck: "(\<And>f n. parse_frame b \<noteq> Parsed f n) \<Longrightarrow> cut b = ([], b)"
  by (subst cut.simps) (simp split: parse_result.splits)

lemma cut_rest_stuck: "parse_frame (snd (cut b)) \<noteq> Parsed f n"
proof (induction b rule: cut.induct)
  case (1 b)
  show ?case
  proof (cases "parse_frame b")
    case (Parsed g m)
    with 1 [OF Parsed] show ?thesis by (simp add: cut_parsed)
  qed (simp_all add: cut_stuck)
qed

lemma cut_append: "cut (b @ x) = (fst (cut b) @ fst (cut (snd (cut b) @ x)), snd (cut (snd (cut b) @ x)))"
proof (induction b rule: cut.induct)
  case (1 b)
  show ?case
  proof (cases "parse_frame b")
    case (Parsed f n)
    note p = parse_frame_append [OF Parsed]
    have "drop n (b @ x) = drop n b @ x" using p(3) by simp
    with 1 [OF Parsed] show ?thesis by (simp add: cut_parsed [OF Parsed] cut_parsed [OF p(1)])
  qed (simp_all add: cut_stuck)
qed

lemma serialize_not_Nil: "ws_serialize f \<noteq> []"
  by (simp add: serialize_parts)

lemma cut_frames:
  "\<forall>f\<in>set fs. frame_ok f \<Longrightarrow> cut (concat (map ws_serialize fs)) = (map received fs, [])"
proof (induction fs)
  case Nil
  show ?case by (simp add: cut_stuck parse_frame_Nil)
next
  case (Cons f fs)
  have "parse_frame (ws_serialize f @ concat (map ws_serialize fs)) = Parsed (received f) (length (ws_serialize f))"
    using Cons.prems by (intro parse_serialize) simp
  from cut_parsed [OF this] show ?case using Cons by simp
qed

text \<open>A beginning of a buffer that holds a frame is never mistaken for a broken one.\<close>

lemma announced_append: "announced b = Some x \<Longrightarrow> announced (b @ ys) = Some x"
proof -
  assume a: "announced b = Some x"
  then have "2 \<le> length b" by (auto simp: announced_def split: if_splits)
  moreover from this have "(b @ ys) ! 1 = b ! 1" by (auto simp: nth_append)
  ultimately show ?thesis using a
    by (auto simp: announced_def payload_length_append split: option.splits)
qed

lemma no_bad_prefix:
  assumes "parse_frame (b @ ys) = Parsed f n" "n < 2 ^ 64"
  shows "parse_frame b \<noteq> Bad_range"
proof
  assume bad: "parse_frame b = Bad_range"
  then obtain h v where a: "announced b = Some (h, v)"
    using parse_frame_not_announced by (cases "announced b") auto
  have "n = h + unat v"
    using parse_frame_length announced_append [OF a, of ys] assms(1) by blast
  then show False using parse_frame_announced(2) [OF a] bad assms(2) by auto
qed

section \<open>Handling the frames\<close>

fun handle_all ::
  "(bytes \<Rightarrow> bool) \<Rightarrow> ws_frame list \<Rightarrow> ws_conn \<Rightarrow> bytes list \<times> (ws_error + ws_frame list \<times> ws_conn)" where
  "handle_all ok [] c = ([], Inr ([], c))"
| "handle_all ok (f # fs) c =
    (case handle_ws_frame ok f c of
       (outs, Inl e) \<Rightarrow> (outs, Inl e)
     | (outs, Inr (ms, c1)) \<Rightarrow>
         (case handle_all ok fs c1 of
            (outs', Inl e) \<Rightarrow> (outs @ outs', Inl e)
          | (outs', Inr (ms', c2)) \<Rightarrow> (outs @ outs', Inr (ms @ ms', c2))))"

lemma data_frame_extra: "data_frame f c = Inr (ms, c1) \<Longrightarrow> wc_extra c1 = wc_extra c"
  by (auto simp: data_frame_def Let_def split: if_splits)

lemma handle_ws_frame_extra: "handle_ws_frame ok f c = (outs, Inr (ms, c1)) \<Longrightarrow> wc_extra c1 = wc_extra c"
  by (auto simp: handle_ws_frame_def Let_def data_frame_extra split: if_splits)

lemma read_loop_cut:
  assumes "wc_extra c = []"
  shows "read_loop ok b c msgs =
    (case handle_all ok (fst (cut b)) c of
       (outs, Inl e) \<Rightarrow> (outs, Inl e)
     | (outs, Inr (ms, c1)) \<Rightarrow>
         (outs, if parse_frame (snd (cut b)) = Bad_range then Inl Undefined_range
                else Inr (msgs @ ms, c1\<lparr>wc_extra := snd (cut b)\<rparr>)))"
  using assms
proof (induction b arbitrary: c msgs rule: cut.induct)
  case (1 b)
  show ?case
  proof (cases "parse_frame b")
    case Incomplete
    with 1 show ?thesis by (subst read_loop.simps) (auto simp: cut_stuck)
  next
    case Bad_range
    then show ?thesis by (subst read_loop.simps) (auto simp: cut_stuck parse_frame_Nil)
  next
    case (Parsed f n)
    then have "b \<noteq> []" using parse_frame_append(2,3) [OF Parsed] by auto
    moreover obtain outs r where h: "handle_ws_frame ok f c = (outs, r)" by fastforce
    ultimately show ?thesis
    proof (cases r)
      case (Inr y)
      obtain ms c1 where y: "y = (ms, c1)" by fastforce
      have "wc_extra c1 = []" using handle_ws_frame_extra h 1(2) Inr y by auto
      from 1(1) [OF Parsed this, of "msgs @ ms"] show ?thesis
        using \<open>b \<noteq> []\<close> Parsed h Inr y
        by (subst read_loop.simps) (auto simp: cut_parsed split: prod.splits sum.splits)
    qed (subst read_loop.simps, simp add: Parsed cut_parsed h)
  qed
qed


text \<open>What handling a frame looks at: the fragments. The rest of the connection passes through.\<close>

definition same_fragments :: "ws_conn \<Rightarrow> ws_conn \<Rightarrow> bool" where
  "same_fragments c d \<longleftrightarrow> wc_in_fragment c = wc_in_fragment d \<and> wc_fragment_opcode c = wc_fragment_opcode d \<and>
     wc_fragment_buf c = wc_fragment_buf d"

lemma data_frame_same:
  "same_fragments c d \<Longrightarrow>
   (case data_frame f c of Inl e \<Rightarrow> data_frame f d = Inl e
    | Inr (ms, c1) \<Rightarrow> \<exists>d1. data_frame f d = Inr (ms, d1) \<and> same_fragments c1 d1)"
  by (auto simp: same_fragments_def data_frame_def Let_def)

lemma handle_ws_frame_same:
  assumes "same_fragments c d" "handle_ws_frame ok f c = (outs, Inr (ms, c1))"
  shows "\<exists>d1. handle_ws_frame ok f d = (outs, Inr (ms, d1)) \<and> same_fragments c1 d1"
  using assms data_frame_same [OF assms(1), of f]
  by (auto simp: handle_ws_frame_def Let_def split: if_splits)

lemma handle_all_same:
  assumes "same_fragments c d" "handle_all ok fs c = (outs, Inr (ms, c1))"
  shows "\<exists>d1. handle_all ok fs d = (outs, Inr (ms, d1)) \<and> same_fragments c1 d1"
  using assms
proof (induction fs arbitrary: c d outs ms c1)
  case (Cons f fs)
  from Cons.prems(2) obtain o1 m1 c2 o2 m2 where s: "handle_ws_frame ok f c = (o1, Inr (m1, c2))"
    "handle_all ok fs c2 = (o2, Inr (m2, c1))" "outs = o1 @ o2" "ms = m1 @ m2"
    by (auto split: prod.splits sum.splits)
  from handle_ws_frame_same [OF Cons.prems(1) s(1)] obtain d2 where d2:
    "handle_ws_frame ok f d = (o1, Inr (m1, d2))" "same_fragments c2 d2" by blast
  from Cons.IH [OF d2(2) s(2)] show ?case using d2 s by auto
qed simp

lemma handle_all_append:
  "handle_all ok (fs @ gs) c =
    (case handle_all ok fs c of
       (outs, Inl e) \<Rightarrow> (outs, Inl e)
     | (outs, Inr (ms, c1)) \<Rightarrow>
         (case handle_all ok gs c1 of
            (outs', Inl e) \<Rightarrow> (outs @ outs', Inl e)
          | (outs', Inr (ms', c2)) \<Rightarrow> (outs @ outs', Inr (ms @ ms', c2))))"
  by (induction fs arbitrary: c) (auto split: prod.splits sum.splits)

section \<open>Reading chunk by chunk\<close>

text \<open>The poller delivers a chunk into the receive buffer, and the connection is read.\<close>

fun read_chunks ::
  "(bytes \<Rightarrow> bool) \<Rightarrow> int \<Rightarrow> bytes list \<Rightarrow> ws_conn \<Rightarrow> bytes list \<times> (ws_error + ws_frame list \<times> ws_conn)" where
  "read_chunks ok now [] c = ([], Inr ([], c))"
| "read_chunks ok now (ch # chs) c =
    (case read_client_frames ok now (c\<lparr>wc_recv_buf := wc_recv_buf c @ ch\<rparr>) of
       (outs, Inl e) \<Rightarrow> (outs, Inl e)
     | (outs, Inr (ms, c1)) \<Rightarrow>
         (case read_chunks ok now chs c1 of
            (outs', Inl e) \<Rightarrow> (outs @ outs', Inl e)
          | (outs', Inr (ms', c2)) \<Rightarrow> (outs @ outs', Inr (ms @ ms', c2))))"

lemma read_client_frames_chunk:
  assumes "wc_recv_buf c = []" "wc_incoming c = []"
  obtains d where "same_fragments c d" "wc_recv_buf d = []" "wc_incoming d = []" "wc_extra d = []"
    "read_client_frames ok now (c\<lparr>wc_recv_buf := wc_recv_buf c @ ch\<rparr>) = read_loop ok (wc_extra c @ ch) d []"
proof (cases "ch = []")
  case True
  with assms show ?thesis
    by (intro that [of "c\<lparr>wc_recv_buf := [], wc_incoming := [], wc_extra := []\<rparr>"])
      (simp_all add: same_fragments_def read_client_frames_def drain_client_def)
next
  case False
  with assms show ?thesis
    by (intro that [of "c\<lparr>wc_recv_buf := [], wc_last_data_at := now, wc_extra := []\<rparr>"])
      (simp_all add: same_fragments_def read_client_frames_def drain_client_def)
qed

lemma data_frame_io:
  "data_frame f c = Inr (ms, c1) \<Longrightarrow> wc_recv_buf c1 = wc_recv_buf c \<and> wc_incoming c1 = wc_incoming c"
  by (auto simp: data_frame_def Let_def split: if_splits)

lemma handle_all_io:
  "handle_all ok fs c = (outs, Inr (ms, c1)) \<Longrightarrow> wc_recv_buf c1 = wc_recv_buf c \<and> wc_incoming c1 = wc_incoming c"
proof (induction fs arbitrary: c outs ms)
  case (Cons f fs)
  then show ?case
    by (auto split: prod.splits sum.splits if_splits simp: handle_ws_frame_def Let_def dest!: Cons.IH data_frame_io)
qed simp

lemma length_serialize_bound: "frame_ok f \<Longrightarrow> length (ws_serialize f) < 2 ^ 64"
  by (simp add: serialize_parts length_bytes_def mask_part_def wire_data_def frame_ok_def)

lemma cut_stream:
  assumes "b @ y = concat (map ws_serialize fs)" "\<forall>f\<in>set fs. frame_ok f"
  shows "\<exists>fs1 fs2. fs = fs1 @ fs2 \<and> fst (cut b) = map received fs1 \<and>
    snd (cut b) @ y = concat (map ws_serialize fs2) \<and> parse_frame (snd (cut b)) \<noteq> Bad_range"
  using assms
proof (induction fs arbitrary: b)
  case Nil
  then show ?case by (simp add: cut_stuck parse_frame_Nil)
next
  case (Cons f fs)
  have f: "frame_ok f" using Cons.prems(2) by simp
  show ?case
  proof (cases "length (ws_serialize f) \<le> length b")
    case True
    let ?n = "length (ws_serialize f)"
    define b' where "b' = drop ?n b"
    have "take ?n (b @ y) = ws_serialize f" "drop ?n (b @ y) = concat (map ws_serialize fs)"
      using Cons.prems(1) by simp_all
    then have b: "b = ws_serialize f @ b'" "b' @ y = concat (map ws_serialize fs)"
      using True append_take_drop_id [of ?n b] by (simp_all add: b'_def)
    have "cut b = (received f # fst (cut b'), snd (cut b'))"
      using cut_parsed [OF parse_serialize [OF f, of b']] by (simp add: b)
    moreover obtain fs1 fs2 where "fs = fs1 @ fs2" "fst (cut b') = map received fs1"
      "snd (cut b') @ y = concat (map ws_serialize fs2)" "parse_frame (snd (cut b')) \<noteq> Bad_range"
      using Cons.IH [OF b(2)] Cons.prems(2) by auto
    ultimately show ?thesis by (intro exI [of _ "f # fs1"] exI [of _ fs2]) simp
  next
    case False
    have p: "parse_frame (b @ y) = Parsed (received f) (length (ws_serialize f))"
      using Cons.prems(1) parse_serialize [OF f] by simp
    have "parse_frame b \<noteq> Bad_range" using no_bad_prefix [OF p length_serialize_bound [OF f]] .
    moreover from p False have "parse_frame b \<noteq> Parsed g n" for g n
      using parse_frame_append(1) [of b g n y] parse_frame_size [of b g n] by auto
    ultimately show ?thesis using Cons.prems(1)
      by (intro exI [of _ "[]"] exI [of _ "f # fs"]) (simp add: cut_stuck)
  qed
qed

text \<open>
  The stream is the bytes of \<open>fs\<close>; some of them are in the buffer, the chunks bring the rest.
\<close>

lemma same_fragments_trans: "same_fragments a b \<Longrightarrow> same_fragments b c \<Longrightarrow> same_fragments a c"
  by (simp add: same_fragments_def)

lemma read_chunks_stream:
  assumes "wc_recv_buf c = []" "wc_incoming c = []"
    "wc_extra c @ concat chs = concat (map ws_serialize fs)" "\<forall>f\<in>set fs. frame_ok f"
    "same_fragments c0 c" "handle_all ok (map received fs) c0 = (outs, Inr (ms, c1))"
    "chs = [] \<longrightarrow> wc_extra c = []"
  shows "\<exists>d. read_chunks ok now chs c = (outs, Inr (ms, d)) \<and> same_fragments c1 d \<and> wc_extra d = []"
  using assms
proof (induction chs arbitrary: c c0 fs outs ms)
  case Nil
  have "fs = []" using Nil.prems(3,7) serialize_not_Nil by (cases fs) simp_all
  with Nil.prems show ?case by simp
next
  case (Cons ch chs)
  obtain d where d: "same_fragments c d" "wc_recv_buf d = []" "wc_incoming d = []" "wc_extra d = []"
    "read_client_frames ok now (c\<lparr>wc_recv_buf := wc_recv_buf c @ ch\<rparr>) = read_loop ok (wc_extra c @ ch) d []"
    using read_client_frames_chunk Cons.prems(1,2) by blast
  obtain fs1 fs2 where fs: "fs = fs1 @ fs2" "fst (cut (wc_extra c @ ch)) = map received fs1"
    "snd (cut (wc_extra c @ ch)) @ concat chs = concat (map ws_serialize fs2)"
    "parse_frame (snd (cut (wc_extra c @ ch))) \<noteq> Bad_range"
    using cut_stream [of "wc_extra c @ ch" "concat chs" fs] Cons.prems(3,4) by auto
  obtain o1 m1 e o2 m2 where h: "handle_all ok (map received fs1) c0 = (o1, Inr (m1, e))"
    "handle_all ok (map received fs2) e = (o2, Inr (m2, c1))" "outs = o1 @ o2" "ms = m1 @ m2"
    using Cons.prems(6) unfolding fs(1) by (auto simp: handle_all_append split: prod.splits sum.splits)
  obtain d1 where d1: "handle_all ok (map received fs1) d = (o1, Inr (m1, d1))" "same_fragments e d1"
    using handle_all_same [OF same_fragments_trans [OF Cons.prems(5) d(1)] h(1)] by blast
  define c2 where "c2 = d1\<lparr>wc_extra := snd (cut (wc_extra c @ ch))\<rparr>"
  have read: "read_client_frames ok now (c\<lparr>wc_recv_buf := wc_recv_buf c @ ch\<rparr>) = (o1, Inr (m1, c2))"
    using d(5) fs(4) by (simp add: read_loop_cut [OF d(4)] fs(2) d1(1) c2_def)
  have io: "wc_recv_buf c2 = []" "wc_incoming c2 = []"
    using handle_all_io [OF d1(1)] d by (simp_all add: c2_def)
  have last: "chs = [] \<longrightarrow> wc_extra c2 = []"
  proof
    assume "chs = []"
    then have "wc_extra c @ ch = concat (map ws_serialize fs)" using Cons.prems(3) by simp
    then show "wc_extra c2 = []" using cut_frames [OF Cons.prems(4)] by (simp add: c2_def)
  qed
  have "\<exists>x. read_chunks ok now chs c2 = (o2, Inr (m2, x)) \<and> same_fragments c1 x \<and> wc_extra x = []"
    using d1(2) fs(1,3) Cons.prems(4) last
    by (intro Cons.IH [OF io _ _ _ h(2)]) (simp_all add: c2_def same_fragments_def)
  then show ?case using read h by auto
qed


section \<open>Messages\<close>

text \<open>
  A message is an opcode and its parts: the first frame has the opcode, the others are continuations,
  the last one is final. What counts of a frame is its core; the masks are anything.
\<close>

definition core :: "ws_frame \<Rightarrow> bool \<times> u8 \<times> bytes" where
  "core f = (f_fin f, f_opcode f, f_data f)"

fun continuation :: "bytes list \<Rightarrow> (bool \<times> u8 \<times> bytes) list" where
  "continuation [] = []"
| "continuation [p] = [(True, CONTINUATION, p)]"
| "continuation (p # ps) = (False, CONTINUATION, p) # continuation ps"

fun message_cores :: "u8 \<times> bytes list \<Rightarrow> (bool \<times> u8 \<times> bytes) list" where
  "message_cores (opc, []) = []"
| "message_cores (opc, [p]) = [(True, opc, p)]"
| "message_cores (opc, p # ps) = (False, opc, p) # continuation ps"

definition is_control :: "ws_frame \<Rightarrow> bool" where
  "is_control f \<longleftrightarrow> f_opcode f = PING \<or> f_opcode f = PONG"

definition message_ok :: "u8 \<times> bytes list \<Rightarrow> bool" where
  "message_ok m \<longleftrightarrow> fst m \<notin> {CONTINUATION, CLOSE, PING, PONG} \<and> snd m \<noteq> []"

lemma continuation_Cons: "continuation (p # ps) = (ps = [], CONTINUATION, p) # continuation ps"
  by (cases ps) simp_all

lemma message_cores_Cons: "message_cores (opc, p # ps) = (ps = [], opc, p) # continuation ps"
  by (cases ps) simp_all

text \<open>In the middle of a message \<open>ps\<close> are the parts that are still to come.\<close>

definition awaited :: "ws_conn \<Rightarrow> bytes list \<Rightarrow> (u8 \<times> bytes list) list \<Rightarrow> (u8 \<times> bytes) list" where
  "awaited c ps ms = (if wc_in_fragment c then [(wc_fragment_opcode c, wc_fragment_buf c @ concat ps)] else []) @
     map (\<lambda>(opc, qs). (opc, concat qs)) ms"

text \<open>One data frame takes the next part of what is awaited.\<close>

lemma data_step:
  assumes "core f # cs = continuation ps @ concat (map message_cores ms)"
    "\<forall>m\<in>set ms. message_ok m" "wc_in_fragment c \<longleftrightarrow> ps \<noteq> []" "\<not> is_control f"
  shows "\<exists>ms1 d qs ns. handle_ws_frame ok f c = ([], Inr (ms1, d)) \<and>
    cs = continuation qs @ concat (map message_cores ns) \<and> set ns \<subseteq> set ms \<and>
    (wc_in_fragment d \<longleftrightarrow> qs \<noteq> []) \<and>
    map (\<lambda>m. (f_opcode m, f_data m)) ms1 @ awaited d qs ns = awaited c ps ms"
proof (cases ps)
  case (Cons p qs)
  then have f: "f_fin f \<longleftrightarrow> qs = []" "f_opcode f = CONTINUATION" "f_data f = p" "cs = continuation qs @ concat (map message_cores ms)"
    using assms(1) by (auto simp: core_def continuation_Cons)
  have "handle_ws_frame ok f c = ([], data_frame f c)" using f(2) by (simp add: handle_ws_frame_def opcode_defs)
  then show ?thesis using f Cons assms(3)
    by (intro exI [of _ "if qs = [] then [assembled (wc_fragment_opcode c) (wc_fragment_buf c @ p)] else []"]
      exI [of _ "if qs = [] then c\<lparr>wc_fragment_buf := [], wc_in_fragment := False\<rparr> else c\<lparr>wc_fragment_buf := wc_fragment_buf c @ p\<rparr>"]
      exI [of _ qs] exI [of _ ms]) (simp add: data_frame_def awaited_def assembled_def Let_def)
next
  case Nil
  then obtain m ns where ms: "ms = m # ns" using assms(1) by (cases ms) auto
  then have mok: "message_ok m" using assms(2) by simp
  then obtain opc p qs where m: "m = (opc, p # qs)" by (cases m; cases "snd m") (auto simp: message_ok_def)
  then have f: "f_fin f \<longleftrightarrow> qs = []" "f_opcode f = opc" "f_data f = p" "cs = continuation qs @ concat (map message_cores ns)"
    using assms(1) Nil ms by (auto simp: core_def message_cores_Cons)
  have opc: "opc \<noteq> CONTINUATION" "opc \<noteq> CLOSE" "opc \<noteq> PING" "opc \<noteq> PONG" using mok m by (auto simp: message_ok_def)
  then have "handle_ws_frame ok f c = ([], data_frame f c)" using f(2) by (simp add: handle_ws_frame_def)
  then show ?thesis using f opc Nil ms m assms(3)
    by (intro exI [of _ "if qs = [] then [f] else []"]
      exI [of _ "if qs = [] then c else c\<lparr>wc_in_fragment := True, wc_fragment_opcode := opc, wc_fragment_buf := p\<rparr>"]
      exI [of _ qs] exI [of _ ns]) (auto simp: data_frame_def awaited_def)
qed

lemma handle_messages:
  assumes "map core (filter (\<lambda>f. \<not> is_control f) fs) = continuation ps @ concat (map message_cores ms)"
    "\<forall>m\<in>set ms. message_ok m" "wc_in_fragment c \<longleftrightarrow> ps \<noteq> []"
  shows "\<exists>msgs d. handle_all (\<lambda>_. True) fs c =
      (map (\<lambda>f. ws_serialize (pong_reply f)) (filter (\<lambda>f. f_opcode f = PING) fs), Inr (msgs, d)) \<and>
    map (\<lambda>m. (f_opcode m, f_data m)) msgs = awaited c ps ms \<and> \<not> wc_in_fragment d"
  using assms
proof (induction fs arbitrary: ps ms c)
  case Nil
  then have "ps = []" by (cases ps) (auto simp: continuation_Cons)
  moreover from this have "ms = []"
  proof (cases ms)
    case (Cons m ms')
    then obtain opc p qs where "m = (opc, p # qs)" using Nil by (cases m; cases "snd m") (auto simp: message_ok_def)
    then show ?thesis using Nil Cons by (simp add: message_cores_Cons)
  qed
  ultimately show ?case using Nil by (simp add: awaited_def)
next
  case (Cons f fs)
  show ?case
  proof (cases "is_control f")
    case True
    then obtain msgs d where "handle_all (\<lambda>_. True) fs c =
        (map (\<lambda>f. ws_serialize (pong_reply f)) (filter (\<lambda>f. f_opcode f = PING) fs), Inr (msgs, d))"
      "map (\<lambda>m. (f_opcode m, f_data m)) msgs = awaited c ps ms" "\<not> wc_in_fragment d"
      using Cons.IH [OF _ Cons.prems(2,3)] Cons.prems(1) True by auto
    then show ?thesis using True
      by (auto simp: is_control_def handle_ws_frame_def Let_def opcode_defs)
  next
    case False
    then have "core f # map core (filter (\<lambda>f. \<not> is_control f) fs) = continuation ps @ concat (map message_cores ms)"
      using Cons.prems(1) by simp
    from data_step [OF this Cons.prems(2,3) False, of "\<lambda>_. True"] obtain ms1 d qs ns where step:
      "handle_ws_frame (\<lambda>_. True) f c = ([], Inr (ms1, d))"
      "map core (filter (\<lambda>f. \<not> is_control f) fs) = continuation qs @ concat (map message_cores ns)"
      "set ns \<subseteq> set ms" "wc_in_fragment d \<longleftrightarrow> qs \<noteq> []"
      "map (\<lambda>m. (f_opcode m, f_data m)) ms1 @ awaited d qs ns = awaited c ps ms" by blast
    obtain msgs e where "handle_all (\<lambda>_. True) fs d =
        (map (\<lambda>f. ws_serialize (pong_reply f)) (filter (\<lambda>f. f_opcode f = PING) fs), Inr (msgs, e))"
      "map (\<lambda>m. (f_opcode m, f_data m)) msgs = awaited d qs ns" "\<not> wc_in_fragment e"
      using Cons.IH [OF step(2) _ step(4)] step(3) Cons.prems(2) by auto
    then show ?thesis using step(1,5) False by (auto simp: is_control_def)
  qed
qed


lemma received_simps [simp]: "f_opcode (received f) = f_opcode f" "core (received f) = core f"
  "f_data (received f) = f_data f" "is_control (received f) = is_control f"
  by (simp_all add: received_def core_def is_control_def)

lemma received_filter:
  "map core (filter (\<lambda>f. \<not> is_control f) (map received fs)) = map core (filter (\<lambda>f. \<not> is_control f) fs)"
  "map (\<lambda>f. ws_serialize (pong_reply f)) (filter (\<lambda>f. f_opcode f = PING) (map received fs)) =
   map (\<lambda>f. ws_serialize (pong_reply f)) (filter (\<lambda>f. f_opcode f = PING) fs)"
  by (induction fs) (simp_all add: pong_reply_def)

text \<open>C6: Whatever way the network cuts up the bytes of a connection, the server delivers exactly the
messages that were sent, in their order, each put together from its fragments and unmasked, and
answers every ping between and inside them, in order, with its payload; nothing stays in the buffers.\<close>

theorem ws_messages_arrive:
  assumes "concat chs = concat (map ws_serialize fs)" "\<forall>f\<in>set fs. frame_ok f"
    "map core (filter (\<lambda>f. \<not> is_control f) fs) = concat (map message_cores ms)" "\<forall>m\<in>set ms. message_ok m"
    "wc_recv_buf c = []" "wc_incoming c = []" "wc_extra c = []" "\<not> wc_in_fragment c" "\<forall>w. ok w"
  shows "\<exists>msgs d. read_chunks ok now chs c =
      (map (\<lambda>f. ws_serialize (pong_reply f)) (filter (\<lambda>f. f_opcode f = PING) fs), Inr (msgs, d)) \<and>
    map (\<lambda>m. (f_opcode m, f_data m)) msgs = map (\<lambda>(opc, parts). (opc, concat parts)) ms \<and>
    wc_extra d = [] \<and> \<not> wc_in_fragment d"
proof -
  have ok: "ok = (\<lambda>_. True)" using assms(9) by auto
  obtain msgs d where h: "handle_all ok (map received fs) c =
      (map (\<lambda>f. ws_serialize (pong_reply f)) (filter (\<lambda>f. f_opcode f = PING) fs), Inr (msgs, d))"
    "map (\<lambda>m. (f_opcode m, f_data m)) msgs = awaited c [] ms" "\<not> wc_in_fragment d"
    using handle_messages [of "map received fs" "[]" ms c] assms(3,4,8) unfolding received_filter ok by auto
  have "same_fragments c c" by (simp add: same_fragments_def)
  from read_chunks_stream [OF assms(5,6) _ assms(2) this h(1)] assms(1,7) obtain e where
    "read_chunks ok now chs c = (map (\<lambda>f. ws_serialize (pong_reply f)) (filter (\<lambda>f. f_opcode f = PING) fs), Inr (msgs, e))"
    "same_fragments d e" "wc_extra e = []" by auto
  then show ?thesis using h(2,3) assms(8) by (auto simp: awaited_def same_fragments_def)
qed

definition demo_frames :: "ws_frame list" where
  "demo_frames =
    [ws_frame_new\<lparr>f_mask := True, f_mask_key := 0x01020304, f_len := 2, f_len_code := 2, f_data := [72, 101]\<rparr>,
     ws_frame_new\<lparr>f_fin := True, f_opcode := PING, f_len := 1, f_len_code := 1, f_data := [7]\<rparr>,
     ws_frame_new\<lparr>f_fin := True, f_opcode := CONTINUATION, f_mask := True, f_mask_key := 9, f_len := 1,
       f_len_code := 1, f_data := [108]\<rparr>]"

theorem ws_messages_arrive_witness:
  "\<exists>msgs d. read_chunks (\<lambda>_. True) 0 (map (\<lambda>b. [b]) (concat (map ws_serialize demo_frames))) ws_conn_new =
      ([[0x8A, 1, 7]], Inr (msgs, d)) \<and>
    map (\<lambda>m. (f_opcode m, f_data m)) msgs = [(TEXT, [72, 101, 108])]"
proof -
  have data: "filter (\<lambda>f. \<not> is_control f) demo_frames = [demo_frames ! 0, demo_frames ! 2]"
    "filter (\<lambda>f. f_opcode f = PING) demo_frames = [demo_frames ! 1]"
    by (simp_all add: demo_frames_def is_control_def opcode_defs ws_frame_new_def)
  have pong: "ws_serialize (pong_reply (demo_frames ! 1)) = [0x8A, 1, 7]" by code_simp
  have "concat (map (\<lambda>b. [b]) x) = x" for x :: bytes by (induction x) simp_all
  moreover have "\<forall>f\<in>set demo_frames. frame_ok f"
    by (simp add: demo_frames_def frame_ok_def ws_frame_new_def opcode_defs)
  moreover have "map core (filter (\<lambda>f. \<not> is_control f) demo_frames) = concat (map message_cores [(TEXT, [[72, 101], [108]])])"
    unfolding data by (simp add: demo_frames_def core_def ws_frame_new_def)
  ultimately show ?thesis
    using ws_messages_arrive [of "map (\<lambda>b. [b]) (concat (map ws_serialize demo_frames))" demo_frames
        "[(TEXT, [[72, 101], [108]])]" ws_conn_new "\<lambda>_. True" 0] pong data
    by (auto simp: message_ok_def opcode_defs ws_conn_new_def)
qed

section \<open>Exceptions\<close>

lemma read_one_chunk:
  assumes "wc_recv_buf c = b" "wc_extra c = []" "b \<noteq> []"
  shows "\<exists>d. same_fragments c d \<and> read_client_frames ok now c =
    (case handle_all ok (fst (cut b)) d of
       (outs, Inl e) \<Rightarrow> (outs, Inl e)
     | (outs, Inr (ms, c1)) \<Rightarrow>
         (outs, if parse_frame (snd (cut b)) = Bad_range then Inl Undefined_range
                else Inr (ms, c1\<lparr>wc_extra := snd (cut b)\<rparr>)))"
proof -
  let ?d = "c\<lparr>wc_recv_buf := [], wc_last_data_at := now, wc_extra := []\<rparr>"
  have "read_client_frames ok now c = read_loop ok b ?d []"
    using assms by (simp add: read_client_frames_def drain_client_def)
  then show ?thesis
    by (intro exI [of _ ?d]) (simp add: read_loop_cut same_fragments_def split: prod.splits sum.splits)
qed

lemma cut_frames_append:
  assumes "\<forall>f\<in>set fs. frame_ok f"
  shows "cut (concat (map ws_serialize fs) @ x) = (map received fs @ fst (cut x), snd (cut x))"
  by (simp add: cut_append [of "concat (map ws_serialize fs)" x] cut_frames [OF assms])

text \<open>A close frame takes everything that was read together with it along: messages that would have
been delivered had the close come in a later read are lost, although they were sent before it.\<close>

theorem ws_close_discards_messages:
  assumes "\<forall>f\<in>set fs. frame_ok f" "fs \<noteq> []" "frame_ok q" "f_opcode q = CLOSE"
    "wc_extra c = []" "handle_all ok (map received fs) c = (outs, Inr (ms, c1))"
  shows "(\<exists>d. read_client_frames ok now (c\<lparr>wc_recv_buf := concat (map ws_serialize fs)\<rparr>) = (outs, Inr (ms, d))) \<and>
    (\<exists>outs'. read_client_frames ok now (c\<lparr>wc_recv_buf := concat (map ws_serialize fs) @ ws_serialize q @ x\<rparr>) =
      (outs', Inl Client_closed))"
proof
  let ?b = "concat (map ws_serialize fs)"
  have "?b \<noteq> []" using assms(2) serialize_not_Nil by (cases fs) auto
  then obtain d where d: "same_fragments (c\<lparr>wc_recv_buf := ?b\<rparr>) d"
    "read_client_frames ok now (c\<lparr>wc_recv_buf := ?b\<rparr>) = (case handle_all ok (map received fs) d of
       (outs, Inl e) \<Rightarrow> (outs, Inl e) | (outs, Inr (ms, c1)) \<Rightarrow> (outs, Inr (ms, c1\<lparr>wc_extra := []\<rparr>)))"
    using read_one_chunk [of "c\<lparr>wc_recv_buf := ?b\<rparr>" ?b ok now] assms(5) cut_frames [OF assms(1)]
    by (auto simp: parse_frame_Nil)
  have "same_fragments c d" using d(1) by (simp add: same_fragments_def)
  from handle_all_same [OF this assms(6)] d(2)
  show "\<exists>d. read_client_frames ok now (c\<lparr>wc_recv_buf := ?b\<rparr>) = (outs, Inr (ms, d))" by auto
next
  let ?b = "concat (map ws_serialize fs) @ ws_serialize q @ x"
  have "?b \<noteq> []" using serialize_not_Nil by auto
  moreover have "fst (cut ?b) = map received fs @ received q # fst (cut x)"
    using assms(1,3) cut_frames_append [of "fs @ [q]" x] by simp
  ultimately obtain d where d: "same_fragments (c\<lparr>wc_recv_buf := ?b\<rparr>) d"
    "read_client_frames ok now (c\<lparr>wc_recv_buf := ?b\<rparr>) =
      (case handle_all ok (map received fs @ received q # fst (cut x)) d of
       (outs, Inl e) \<Rightarrow> (outs, Inl e)
     | (outs, Inr (ms, c1)) \<Rightarrow> (outs, if parse_frame (snd (cut ?b)) = Bad_range then Inl Undefined_range
                else Inr (ms, c1\<lparr>wc_extra := snd (cut ?b)\<rparr>)))"
    using read_one_chunk [of "c\<lparr>wc_recv_buf := ?b\<rparr>" ?b ok now] assms(5) by auto
  have "same_fragments c d" using d(1) by (simp add: same_fragments_def)
  from handle_all_same [OF this assms(6)] obtain d1 where "handle_all ok (map received fs) d = (outs, Inr (ms, d1))" by blast
  then show "\<exists>outs'. read_client_frames ok now (c\<lparr>wc_recv_buf := ?b\<rparr>) = (outs', Inl Client_closed)"
    using d(2) assms(4) by (auto simp: handle_all_append handle_ws_frame_def Let_def)
qed


definition demo_text :: ws_frame where
  "demo_text = text_frame [72, 105]"

theorem ws_close_discards_messages_witness:
  "(\<exists>d. read_client_frames (\<lambda>_. True) 0 (ws_conn_new\<lparr>wc_recv_buf := ws_serialize demo_text\<rparr>) =
      ([], Inr ([received demo_text], d))) \<and>
   (\<exists>outs'. read_client_frames (\<lambda>_. True) 0
      (ws_conn_new\<lparr>wc_recv_buf := ws_serialize demo_text @ ws_serialize (close_frame 1000 [])\<rparr>) =
      (outs', Inl Client_closed))"
proof -
  have ok: "frame_ok demo_text" "frame_ok (close_frame 1000 [])" "f_opcode (close_frame 1000 []) = CLOSE"
    by (simp_all add: demo_text_def text_frame_def close_frame_def frame_ok_def ws_frame_new_def length_code_def
        opcode_defs be16_def bytes_of_def)
  have "handle_all (\<lambda>_. True) (map received [demo_text]) ws_conn_new = ([], Inr ([received demo_text], ws_conn_new))"
    by (simp add: demo_text_def text_frame_def handle_ws_frame_def data_frame_def received_def ws_frame_new_def
        opcode_defs ws_conn_new_def)
  from ws_close_discards_messages [OF _ _ ok(2,3) _ this, of 0 "[]"] ok(1) show ?thesis
    by (simp add: ws_conn_new_def)
qed

text \<open>The announced length is added to the header size in 64 bits. The lengths for which the sum
wraps around pass the check that the frame has arrived, so that a payload outside the buffer is
copied; for every other length, however large, the reader keeps the bytes and waits for the rest.\<close>

theorem ws_length_wraps:
  assumes "wc_recv_buf c = b" "wc_extra c = []" "length b < 2 ^ 64" "announced b = Some (h, v)"
    "length b < h + unat v"
  shows "if 2 ^ 64 \<le> h + unat v \<and> h + unat v - 2 ^ 64 \<le> length b
    then read_client_frames ok now c = ([], Inl Undefined_range)
    else \<exists>d. read_client_frames ok now c = ([], Inr ([], d)) \<and> wc_extra d = b"
proof -
  have "b \<noteq> []" using assms(4) by (auto simp: announced_def)
  then obtain d where d: "read_client_frames ok now c =
      (case handle_all ok (fst (cut b)) d of
       (outs, Inl e) \<Rightarrow> (outs, Inl e)
     | (outs, Inr (ms, c1)) \<Rightarrow>
         (outs, if parse_frame (snd (cut b)) = Bad_range then Inl Undefined_range
                else Inr (ms, c1\<lparr>wc_extra := snd (cut b)\<rparr>)))"
    using read_one_chunk [OF assms(1,2)] by blast
  have "parse_frame b \<noteq> Parsed f n" for f n
    using parse_frame_length [OF assms(4)] parse_frame_size [of b f n] assms(5) by auto
  then have "cut b = ([], b)" by (rule cut_stuck)
  then show ?thesis using d bad_range_iff [OF assms(3)] assms(4) by auto
qed

definition demo_huge :: bytes where
  "demo_huge = [0x82, 0x7F, 0xFF, 0xFF, 0xFF, 0xFF, 0xFF, 0xFF, 0xFF, 0xFF]"

theorem ws_length_wraps_witness:
  "read_client_frames (\<lambda>_. True) 0 (ws_conn_new\<lparr>wc_recv_buf := demo_huge\<rparr>) = ([], Inl Undefined_range)"
proof -
  have "announced demo_huge = Some (10, - 1)" "length demo_huge = 10" by code_simp+
  then show ?thesis
    using ws_length_wraps [of "ws_conn_new\<lparr>wc_recv_buf := demo_huge\<rparr>" demo_huge 10 "- 1" "\<lambda>_. True" 0]
    by (simp add: ws_conn_new_def unsigned_minus_1_eq_mask mask_eq_exp_minus_1)
qed

text \<open>A ping is answered with its own payload, but the length of the answer has sixteen bits: of a longer
ping the receiver takes only the length modulo 65536 for the answer and reads the rest as frames.\<close>

theorem ws_pong_length_modulo:
  assumes "126 \<le> length (f_data f)" "length (f_data f) < 2 ^ 63"
  shows "\<exists>g. parse_frame (ws_serialize (pong_reply f)) = Parsed g (4 + length (f_data f) mod 65536) \<and>
    f_opcode g = PONG \<and> f_data g = take (length (f_data f) mod 65536) (f_data f)"
proof -
  let ?n = "length (f_data f)"
  have big: "\<not> (of_nat ?n :: u64) \<le> 125" using assms by (simp add: word_le_nat_alt unat_of_nat)
  define b where "b = ws_serialize (pong_reply f)"
  have b: "b = 0x8A # 126 # be16 (ucast (of_nat ?n AND 0xFFFF :: u64)) @ f_data f"
    using big by (simp add: b_def pong_reply_def Let_def ws_serialize_def ws_frame_new_def opcode_defs)
  have w: "ucast (ucast (of_nat ?n AND 0xFFFF :: u64) :: u16) = (of_nat (?n mod 65536) :: u64)"
  proof -
    have "(of_nat ?n AND 0xFFFF :: u64) = take_bit 16 (of_nat ?n)" by (simp add: take_bit_eq_mask mask_eq_exp_minus_1)
    moreover have "ucast (ucast x :: u16) = take_bit 16 x" for x :: u64 by (rule bit_word_eqI) (auto simp: bit_simps)
    moreover have "take_bit 16 (of_nat ?n :: u64) = of_nat (take_bit 16 ?n)" by (simp only: take_bit_of_nat)
    moreover have "take_bit 16 ?n = ?n mod 65536" using take_bit_eq_mod [of 16 ?n] by simp
    ultimately show ?thesis by (metis take_bit_take_bit min.idem)
  qed
  have "payload_length b = Some (4, of_nat (?n mod 65536))"
    by (simp add: payload_length_def b Let_def read_be16_be16 w)
  moreover have "unat (of_nat (?n mod 65536) :: u64) = ?n mod 65536" by (simp add: unat_of_nat mod_mod_cancel)
  moreover have "?n mod 65536 \<le> ?n" by simp
  moreover have "b ! 1 AND 0x80 = 0" "b ! 0 AND 0x0F = 10" "\<not> length b < 2" by (simp_all add: b)
  ultimately have "\<exists>g. parse_frame b = Parsed g (4 + ?n mod 65536) \<and> f_opcode g = PONG \<and> f_data g = take (?n mod 65536) (f_data f)"
    by (simp add: parse_frame_def Let_def opcode_defs unat_word_ariths) (simp add: b)
  then show ?thesis by (simp add: b_def)
qed

theorem ws_pong_length_modulo_witness:
  "\<exists>g. parse_frame (ws_serialize (pong_reply (ws_frame_new\<lparr>f_data := replicate 65540 1\<rparr>))) = Parsed g 8 \<and>
    f_opcode g = PONG \<and> f_data g = replicate 4 1"
  using ws_pong_length_modulo [of "ws_frame_new\<lparr>f_data := replicate 65540 1\<rparr>"] by simp

end
