(* ===== verification/Trusted_Proxy.thy ===== *)
theory Trusted_Proxy
  imports AO_Server
begin

text \<open>
  The list of trusted reverse proxies and the extraction of the client's address from a forwarding
  header: engine/net/TrustedProxyList.cpp. The address functions of the operating system are the
  record \<open>inet\<close>: \<open>inet_pton\<close> for the two families (an IPv4 address in host byte order, an IPv6
  address as its bytes) and \<open>inet_ntop\<close>; they see a string up to its first NUL.
\<close>

record inet =
  pton4 :: "string \<Rightarrow> u32 option"
  pton6 :: "string \<Rightarrow> bytes option"
  ntop4 :: "bytes \<Rightarrow> string"
  ntop6 :: "bytes \<Rightarrow> string"

definition parse_ipv4 :: "inet \<Rightarrow> string \<Rightarrow> u32 option" where
  "parse_ipv4 os ip = pton4 os (c_str ip)"

definition parse_ipv6 :: "inet \<Rightarrow> string \<Rightarrow> bytes option" where
  "parse_ipv6 os ip = pton6 os (c_str ip)"

definition ipv4_mask :: "int \<Rightarrow> u32" where
  "ipv4_mask prefix =
    (if prefix \<le> 0 then 0 else if 32 \<le> prefix then 0xFFFFFFFF
     else NOT (push_bit (nat (32 - prefix)) 1 - 1))"

definition ipv6_matches :: "bytes \<Rightarrow> bytes \<Rightarrow> nat \<Rightarrow> bool" where
  "ipv6_matches addr network prefix_len =
    (let full_bytes = prefix_len div 8; remaining_bits = prefix_len mod 8
     in if 0 < full_bytes \<and> take full_bytes addr \<noteq> take full_bytes network then False
        else if 0 < remaining_bits then
          (let mask = push_bit (8 - remaining_bits) 0xFF
           in addr ! full_bytes AND mask = network ! full_bytes AND mask)
        else True)"

section \<open>Configuration\<close>

record trusted_list =
  tl_ipv4 :: "(u32 \<times> u32) list"
  tl_ipv6 :: "(bytes \<times> nat) list"

definition add_ipv4 :: "u32 \<times> u32 \<Rightarrow> trusted_list \<Rightarrow> trusted_list" where
  "add_ipv4 x l = l\<lparr>tl_ipv4 := tl_ipv4 l @ [x]\<rparr>"

definition add_ipv6 :: "bytes \<times> nat \<Rightarrow> trusted_list \<Rightarrow> trusted_list" where
  "add_ipv6 x l = l\<lparr>tl_ipv6 := tl_ipv6 l @ [x]\<rparr>"

definition configure_entry :: "inet \<Rightarrow> string \<Rightarrow> trusted_list \<Rightarrow> trusted_list" where
  "configure_entry os entry l =
    (let ip_part = takeWhile (\<lambda>c. c \<noteq> CHR ''/'') entry
     in case dropWhile (\<lambda>c. c \<noteq> CHR ''/'') entry of
          slash # rest \<Rightarrow>
            (case c_stoi rest of
               None \<Rightarrow> l
             | Some prefix \<Rightarrow>
                 if CHR '':'' \<in> set ip_part then
                   (if prefix < 0 \<or> 128 < prefix then l
                    else case parse_ipv6 os ip_part of Some a \<Rightarrow> add_ipv6 (a, nat prefix) l | None \<Rightarrow> l)
                 else
                   (if prefix < 0 \<or> 32 < prefix then l
                    else case parse_ipv4 os ip_part of
                      Some a \<Rightarrow> add_ipv4 (a AND ipv4_mask prefix, ipv4_mask prefix) l | None \<Rightarrow> l))
        | [] \<Rightarrow>
            if CHR '':'' \<in> set entry then
              (case parse_ipv6 os entry of Some a \<Rightarrow> add_ipv6 (a, 128) l | None \<Rightarrow> l)
            else
              (case parse_ipv4 os entry of Some a \<Rightarrow> add_ipv4 (a, 0xFFFFFFFF) l | None \<Rightarrow> l))"

definition configure_proxies :: "inet \<Rightarrow> string list \<Rightarrow> trusted_list" where
  "configure_proxies os lines =
    fold (\<lambda>entry l. if entry = [] then l else configure_entry os entry l) lines \<lparr>tl_ipv4 = [], tl_ipv6 = []\<rparr>"

section \<open>Matching\<close>

definition ipv4_trusted :: "u32 \<Rightarrow> trusted_list \<Rightarrow> bool" where
  "ipv4_trusted addr l = list_ex (\<lambda>(a, mask). addr AND mask = a) (tl_ipv4 l)"

definition v4mapped_prefix :: string where
  "v4mapped_prefix = ''::ffff:''"

definition is_trusted :: "inet \<Rightarrow> string \<Rightarrow> trusted_list \<Rightarrow> bool" where
  "is_trusted os ip l =
    (if ip = [] then False
     else if CHR '':'' \<in> set ip then
       (case parse_ipv6 os ip of
          None \<Rightarrow> False
        | Some addr \<Rightarrow>
            if list_ex (\<lambda>(network, n). ipv6_matches addr network n) (tl_ipv6 l) then True
            else if starts_with v4mapped_prefix ip then
              (case parse_ipv4 os (drop (length v4mapped_prefix) ip) of
                 Some v4 \<Rightarrow> ipv4_trusted v4 l | None \<Rightarrow> False)
            else False)
     else (case parse_ipv4 os ip of None \<Rightarrow> False | Some addr \<Rightarrow> ipv4_trusted addr l))"

section \<open>Forwarding headers\<close>

definition is_blank :: "char \<Rightarrow> bool" where
  "is_blank c = (c = CHR '' '' \<or> char_code c = 9)"

definition trim_blanks :: "string \<Rightarrow> string" where
  "trim_blanks s = rev (dropWhile is_blank (rev (dropWhile is_blank s)))"

definition valid_address :: "inet \<Rightarrow> string \<Rightarrow> bool" where
  "valid_address os ip = (pton4 os (c_str ip) \<noteq> None \<or> pton6 os (c_str ip) \<noteq> None)"

text \<open>The loop ends at the end of the value, so that a comma at the end adds no empty address.\<close>

function split_addresses :: "string \<Rightarrow> string list" where
  "split_addresses s =
    (if s = [] then []
     else let first = takeWhile (\<lambda>c. c \<noteq> CHR '','') s
          in case dropWhile (\<lambda>c. c \<noteq> CHR '','') s of
               [] \<Rightarrow> [trim_blanks s]
             | comma # rest \<Rightarrow> trim_blanks first # split_addresses rest)"
  by pat_completeness auto
termination
proof (relation "measure length", goal_cases)
  case (2 s first comma rest)
  then have "length (comma # rest) \<le> length s" using length_dropWhile_le [of "\<lambda>c. c \<noteq> CHR '',''" s] by simp
  then show ?case by simp
qed simp

declare split_addresses.simps [simp del]

definition extract_forwarded_ip :: "inet \<Rightarrow> trusted_list option \<Rightarrow> string \<Rightarrow> string" where
  "extract_forwarded_ip os trusted header_value =
    (if header_value = [] then []
     else
       (let ips = split_addresses header_value;
            first = (if valid_address os (hd ips) then hd ips else [])
        in if ips = [] then []
           else if length ips = 1 then first
           else case trusted of
             None \<Rightarrow> first
           | Some l \<Rightarrow>
               (case find (\<lambda>ip. ip \<noteq> [] \<and> valid_address os ip \<and> \<not> is_trusted os ip l) (rev ips) of
                  Some ip \<Rightarrow> ip | None \<Rightarrow> first)))"

section \<open>Prefixes of addresses\<close>

lemma ipv4_mask_bit: "bit (ipv4_mask p) i \<longleftrightarrow> i < 32 \<and> 32 - p \<le> int i"
proof -
  have full: "(0xFFFFFFFF :: u32) = mask 32" by (simp add: mask_eq_exp_minus_1)
  consider "p \<le> 0" | "32 \<le> p" | "0 < p" "p < 32" by linarith
  then show ?thesis
  proof cases
    case 3
    have "(push_bit (nat (32 - p)) 1 - 1 :: u32) = mask (nat (32 - p))"
      by (simp add: mask_eq_exp_minus_1 push_bit_eq_mult)
    with 3 show ?thesis by (auto simp: ipv4_mask_def bit_simps nat_le_iff not_less)
  next
    case 2
    then show ?thesis unfolding ipv4_mask_def full by (auto simp only: bit_mask_iff) (auto simp: bit_simps)
  qed (auto simp: ipv4_mask_def)
qed

lemma ipv4_match_iff:
  "(addr :: u32) AND ipv4_mask p = net AND ipv4_mask p \<longleftrightarrow>
   (\<forall>i<32. 32 - p \<le> int i \<longrightarrow> bit addr i = bit net i)"
  by (auto simp: bit_eq_iff bit_and_iff ipv4_mask_bit dest: bit_imp_le_length)


text \<open>The bits of an address in the order of the network, the first is number 0.\<close>

definition addr_bit :: "bytes \<Rightarrow> nat \<Rightarrow> bool" where
  "addr_bit a i = bit (a ! (i div 8)) (7 - i mod 8)"

lemma mask_high_bits:
  fixes a b :: u8
  assumes "0 < r" "r < 8"
  shows "a AND push_bit (8 - r) 0xFF = b AND push_bit (8 - r) 0xFF \<longleftrightarrow> (\<forall>j<r. bit a (7 - j) = bit b (7 - j))"
proof -
  have m: "bit (push_bit (8 - r) (0xFF :: u8)) i \<longleftrightarrow> i < 8 \<and> 8 - r \<le> i" for i
  proof -
    have "(0xFF :: u8) = mask 8" by (simp add: mask_eq_exp_minus_1)
    then show ?thesis by (auto simp only: bit_push_bit_iff bit_mask_iff) (auto simp: bit_simps)
  qed
  have "a AND push_bit (8 - r) 0xFF = b AND push_bit (8 - r) 0xFF \<longleftrightarrow>
      (\<forall>i<8. 8 - r \<le> i \<longrightarrow> bit a i = bit b i)"
    by (auto simp: bit_eq_iff bit_and_iff m dest: bit_imp_le_length)
  also have "\<dots> \<longleftrightarrow> (\<forall>j<r. bit a (7 - j) = bit b (7 - j))"
  proof
    assume h: "\<forall>j<r. bit a (7 - j) = bit b (7 - j)"
    show "\<forall>i<8. 8 - r \<le> i \<longrightarrow> bit a i = bit b i"
    proof (intro allI impI)
      fix i assume "i < 8" "8 - r \<le> i"
      then have "7 - i < r" "7 - (7 - i) = i" by simp_all
      with h show "bit a i = bit b i" by metis
    qed
  qed (use assms in auto)
  finally show ?thesis .
qed

lemma byte_eq_bits: "(a :: u8) = b \<longleftrightarrow> (\<forall>j<8. bit a (7 - j) = bit b (7 - j))"
proof
  assume h: "\<forall>j<8. bit a (7 - j) = bit b (7 - j)"
  show "a = b"
  proof (rule bit_word_eqI)
    fix n assume "n < LENGTH(8)"
    then have "7 - n < 8" "7 - (7 - n) = n" by simp_all
    with h show "bit a n = bit b n" by metis
  qed
qed simp

lemma ipv6_matches_iff:
  assumes "length a = 16" "length b = 16" "p \<le> 128"
  shows "ipv6_matches a b p \<longleftrightarrow> (\<forall>i<p. addr_bit a i = addr_bit b i)"
proof -
  let ?q = "p div 8" and ?r = "p mod 8"
  have q: "?q \<le> 16" using assms(3) by simp
  have whole: "take ?q a = take ?q b \<longleftrightarrow> (\<forall>i<8 * ?q. addr_bit a i = addr_bit b i)"
  proof -
    have "take ?q a = take ?q b \<longleftrightarrow> (\<forall>k<?q. a ! k = b ! k)"
      using q assms(1,2) by (auto simp: list_eq_iff_nth_eq)
    also have "\<dots> \<longleftrightarrow> (\<forall>k<?q. \<forall>j<8. bit (a ! k) (7 - j) = bit (b ! k) (7 - j))" by (simp add: byte_eq_bits)
    also have "\<dots> \<longleftrightarrow> (\<forall>i<8 * ?q. addr_bit a i = addr_bit b i)"
    proof
      assume h: "\<forall>i<8 * ?q. addr_bit a i = addr_bit b i"
      show "\<forall>k<?q. \<forall>j<8. bit (a ! k) (7 - j) = bit (b ! k) (7 - j)"
      proof (intro allI impI)
        fix k j :: nat assume "k < ?q" "j < 8"
        then show "bit (a ! k) (7 - j) = bit (b ! k) (7 - j)"
          using h [rule_format, of "8 * k + j"] by (simp add: addr_bit_def)
      qed
    qed (auto simp: addr_bit_def)
    finally show ?thesis .
  qed
  have split: "(\<forall>i<p. P i) \<longleftrightarrow> (\<forall>i<8 * ?q. P i) \<and> (\<forall>j<?r. P (8 * ?q + j))" for P
  proof
    assume h: "(\<forall>i<8 * ?q. P i) \<and> (\<forall>j<?r. P (8 * ?q + j))"
    show "\<forall>i<p. P i"
    proof (intro allI impI)
      fix i assume "i < p"
      show "P i"
      proof (cases "i < 8 * ?q")
        case False
        then have "i - 8 * ?q < ?r" "8 * ?q + (i - 8 * ?q) = i" using \<open>i < p\<close> by presburger+
        with h show ?thesis by metis
      qed (use h in simp)
    qed
  next
    assume h: "\<forall>i<p. P i"
    have "8 * ?q + j < p" if "j < ?r" for j using that by presburger
    with h show "(\<forall>i<8 * ?q. P i) \<and> (\<forall>j<?r. P (8 * ?q + j))" by auto
  qed
  have low: "addr_bit x (8 * ?q + j) = bit (x ! ?q) (7 - j)" if "j < ?r" for x j
  proof -
    have "j < 8" using that by (meson less_trans mod_less_divisor zero_less_numeral)
    then show ?thesis by (simp add: addr_bit_def)
  qed
  show ?thesis
  proof (cases "?r = 0")
    case True
    then show ?thesis using whole split [of "\<lambda>i. addr_bit a i = addr_bit b i"] by (auto simp: ipv6_matches_def Let_def)
  next
    case False
    then have "ipv6_matches a b p \<longleftrightarrow> take ?q a = take ?q b \<and> (\<forall>j<?r. bit (a ! ?q) (7 - j) = bit (b ! ?q) (7 - j))"
      using mask_high_bits [of ?r "a ! ?q" "b ! ?q"] by (auto simp: ipv6_matches_def Let_def)
    then show ?thesis using whole split [of "\<lambda>i. addr_bit a i = addr_bit b i"] low by auto
  qed
qed


section \<open>Which addresses are trusted\<close>

lemma trusted_ipv4_range:
  assumes "CHR '':'' \<notin> set ip" "ip \<noteq> []" "parse_ipv4 os ip = Some x" "p \<le> 32"
  shows "is_trusted os ip \<lparr>tl_ipv4 = [(a AND ipv4_mask (int p), ipv4_mask (int p))], tl_ipv6 = []\<rparr> \<longleftrightarrow>
    (\<forall>i<32. 32 - p \<le> i \<longrightarrow> bit x i = bit a i)"
  using assms ipv4_match_iff [of x "int p" a] by (auto simp: is_trusted_def ipv4_trusted_def)

lemma trusted_ipv6_range:
  assumes "CHR '':'' \<in> set ip" "parse_ipv6 os ip = Some y" "length y = 16" "length b = 16" "p \<le> 128"
  shows "is_trusted os ip \<lparr>tl_ipv4 = [], tl_ipv6 = [(b, p)]\<rparr> \<longleftrightarrow> (\<forall>i<p. addr_bit y i = addr_bit b i)"
proof -
  have "ip \<noteq> []" using assms(1) by auto
  moreover have "\<not> ipv4_trusted v \<lparr>tl_ipv4 = [], tl_ipv6 = [(b, p)]\<rparr>" for v by (simp add: ipv4_trusted_def)
  ultimately show ?thesis
    using assms ipv6_matches_iff [OF assms(3,4,5)] by (simp add: is_trusted_def split: option.splits)
qed

text \<open>An entry of the list with a prefix length trusts exactly the addresses that agree with it in that
many leading bits, for both families.\<close>

theorem trusted_range_exact:
  assumes "dropWhile (\<lambda>c. c \<noteq> CHR ''/'') entry = CHR ''/'' # n" "c_stoi n = Some (int p)"
    "takeWhile (\<lambda>c. c \<noteq> CHR ''/'') entry = net" "\<And>t x. pton6 os t = Some x \<Longrightarrow> length x = 16"
  shows "(CHR '':'' \<notin> set net \<and> p \<le> 32 \<and> parse_ipv4 os net = Some a \<and>
      CHR '':'' \<notin> set ip \<and> ip \<noteq> [] \<and> parse_ipv4 os ip = Some x \<longrightarrow>
        is_trusted os ip (configure_proxies os [entry]) = (\<forall>i<32. 32 - p \<le> i \<longrightarrow> bit x i = bit a i)) \<and>
    (CHR '':'' \<in> set net \<and> p \<le> 128 \<and> parse_ipv6 os net = Some b \<and>
      CHR '':'' \<in> set ip \<and> parse_ipv6 os ip = Some y \<longrightarrow>
        is_trusted os ip (configure_proxies os [entry]) = (\<forall>i<p. addr_bit y i = addr_bit b i))"
proof -
  have "entry \<noteq> []" using assms(1) by auto
  then have conf: "configure_proxies os [entry] = configure_entry os entry \<lparr>tl_ipv4 = [], tl_ipv6 = []\<rparr>"
    by (simp add: configure_proxies_def)
  have v4: "configure_entry os entry \<lparr>tl_ipv4 = [], tl_ipv6 = []\<rparr> =
      \<lparr>tl_ipv4 = [(a AND ipv4_mask (int p), ipv4_mask (int p))], tl_ipv6 = []\<rparr>"
    if "CHR '':'' \<notin> set net" "p \<le> 32" "parse_ipv4 os net = Some a"
    using that assms(1-3) by (simp add: configure_entry_def add_ipv4_def)
  have v6: "configure_entry os entry \<lparr>tl_ipv4 = [], tl_ipv6 = []\<rparr> = \<lparr>tl_ipv4 = [], tl_ipv6 = [(b, p)]\<rparr>"
    if "CHR '':'' \<in> set net" "p \<le> 128" "parse_ipv6 os net = Some b"
    using that assms(1-3) by (simp add: configure_entry_def add_ipv6_def)
  show ?thesis unfolding conf
  proof (intro conjI impI; elim conjE)
    assume "CHR '':'' \<notin> set net" "p \<le> 32" "parse_ipv4 os net = Some a"
      "CHR '':'' \<notin> set ip" "ip \<noteq> []" "parse_ipv4 os ip = Some x"
    then show "is_trusted os ip (configure_entry os entry \<lparr>tl_ipv4 = [], tl_ipv6 = []\<rparr>) =
        (\<forall>i<32. 32 - p \<le> i \<longrightarrow> bit x i = bit a i)"
      using trusted_ipv4_range by (simp add: v4)
  next
    assume a: "CHR '':'' \<in> set net" "p \<le> 128" "parse_ipv6 os net = Some b" "CHR '':'' \<in> set ip" "parse_ipv6 os ip = Some y"
    then have "length y = 16" "length b = 16" using assms(4) by (auto simp: parse_ipv6_def)
    with a show "is_trusted os ip (configure_entry os entry \<lparr>tl_ipv4 = [], tl_ipv6 = []\<rparr>) = (\<forall>i<p. addr_bit y i = addr_bit b i)"
      using trusted_ipv6_range by (simp add: v6)
  qed
qed

section \<open>Which address is taken\<close>

lemma split_addresses_last:
  "CHR '','' \<notin> set a \<Longrightarrow> a \<noteq> [] \<Longrightarrow> split_addresses a = [trim_blanks a]"
proof -
  assume "CHR '','' \<notin> set a" "a \<noteq> []"
  then have d: "dropWhile (\<lambda>c. c \<noteq> CHR '','') a = []" by auto
  show ?thesis using \<open>a \<noteq> []\<close> by (subst split_addresses.simps) (simp only: Let_def d list.case if_False)
qed

lemma split_addresses_append:
  "\<exists>zs. zs \<noteq> [] \<and> split_addresses (x @ CHR '','' # y) = zs @ split_addresses y"
proof (induction "length x" arbitrary: x rule: less_induct)
  case less
  let ?P = "\<lambda>c. c \<noteq> CHR '',''"
  show ?case
  proof (cases "CHR '','' \<in> set x")
    case False
    then have "takeWhile ?P (x @ CHR '','' # y) = x" "dropWhile ?P (x @ CHR '','' # y) = CHR '','' # y"
      by (auto simp: takeWhile_append dropWhile_append)
    then show ?thesis by (subst split_addresses.simps) (auto simp: Let_def)
  next
    case True
    then obtain u v where x: "x = u @ CHR '','' # v" "CHR '','' \<notin> set u" by (metis split_list_first)
    then have "takeWhile ?P (x @ CHR '','' # y) = u" "dropWhile ?P (x @ CHR '','' # y) = CHR '','' # v @ CHR '','' # y"
      by (auto simp: takeWhile_append dropWhile_append)
    then have "split_addresses (x @ CHR '','' # y) = trim_blanks u # split_addresses (v @ CHR '','' # y)"
      using x by (subst split_addresses.simps) (auto simp: Let_def)
    moreover obtain zs where "split_addresses (v @ CHR '','' # y) = zs @ split_addresses y"
      using less [of v] x by auto
    ultimately show ?thesis by (intro exI [of _ "trim_blanks u # zs"]) simp
  qed
qed


text \<open>An address as a proxy appends it: behind a comma and a space.\<close>

definition appended :: "string \<Rightarrow> string" where
  "appended a = '', '' @ a"

definition address_text :: "string \<Rightarrow> bool" where
  "address_text a \<longleftrightarrow> CHR '','' \<notin> set a \<and> a \<noteq> [] \<and> trim_blanks a = a"

lemma trim_leading_space: "trim_blanks (CHR '' '' # a) = trim_blanks a"
  by (simp add: trim_blanks_def is_blank_def)

lemma split_first:
  assumes "CHR '','' \<notin> set b"
  shows "split_addresses (b @ CHR '','' # y) = trim_blanks b # split_addresses y"
proof -
  let ?P = "\<lambda>c. c \<noteq> CHR '',''"
  have "takeWhile ?P (b @ CHR '','' # y) = b" "dropWhile ?P (b @ CHR '','' # y) = CHR '','' # y"
    using assms by (auto simp: takeWhile_append dropWhile_append)
  then show ?thesis by (subst split_addresses.simps) (simp add: Let_def)
qed

lemma split_all:
  "\<forall>a\<in>set (b # bs). address_text a \<Longrightarrow>
   split_addresses (CHR '' '' # b @ concat (map appended bs)) = b # bs"
proof (induction bs arbitrary: b)
  case Nil
  then have "CHR '','' \<notin> set (CHR '' '' # b)" "trim_blanks (CHR '' '' # b) = b"
    by (auto simp: address_text_def trim_leading_space)
  from split_addresses_last [OF this(1)] this(2) show ?case by simp
next
  case (Cons a bs)
  have "CHR '','' \<notin> set (CHR '' '' # b)" "trim_blanks (CHR '' '' # b) = b"
    using Cons.prems by (auto simp: address_text_def trim_leading_space)
  then show ?case using Cons.IH [of a] Cons.prems split_first [of "CHR '' '' # b"] by (simp add: appended_def [of a])
qed

lemma split_appended:
  assumes "\<forall>a\<in>set (b # bs). address_text a"
  shows "\<exists>zs. zs \<noteq> [] \<and> split_addresses (x @ concat (map appended (b # bs))) = zs @ b # bs"
  using split_addresses_append [of x "CHR '' '' # b @ concat (map appended bs)"] split_all [OF assms]
  by (simp add: appended_def)

definition skipped :: "inet \<Rightarrow> trusted_list \<Rightarrow> string \<Rightarrow> bool" where
  "skipped os l a \<longleftrightarrow> \<not> valid_address os a \<or> is_trusted os a l"

text \<open>C30: When trusted proxies append the addresses they saw, the first of which is that of the client, the
address taken is the client's, whatever the client wrote into the header. But an appended text that is
no address, such as one with a port, is skipped, and the address the client wrote is taken.\<close>

theorem forwarded_address_not_spoofable:
  assumes "\<forall>a\<in>set (ip # proxies). address_text a" "\<forall>a\<in>set proxies. skipped os l a" "x \<noteq> []"
  shows "(valid_address os ip \<and> \<not> is_trusted os ip l \<longrightarrow>
      extract_forwarded_ip os (Some l) (x @ concat (map appended (ip # proxies))) = ip) \<and>
    (\<not> valid_address os ip \<and> address_text x \<and> valid_address os x \<and> \<not> is_trusted os x l \<longrightarrow>
      extract_forwarded_ip os (Some l) (x @ concat (map appended (ip # proxies))) = x)"
proof (intro conjI impI; elim conjE)
  define h where "h = x @ concat (map appended (ip # proxies))"
  let ?P = "\<lambda>a. a \<noteq> [] \<and> valid_address os a \<and> \<not> is_trusted os a l"
  have skip: "find ?P (rev proxies @ as) = find ?P as" for as
  proof -
    have "\<forall>a\<in>set ps. \<not> ?P a \<Longrightarrow> find ?P (ps @ as) = find ?P as" for ps by (induction ps) auto
    then show ?thesis using assms(2) by (auto simp: skipped_def)
  qed
  have h: "h \<noteq> []" using assms(3) by (simp add: h_def)
  {
    assume ip: "valid_address os ip" "\<not> is_trusted os ip l"
    obtain zs where zs: "zs \<noteq> []" "split_addresses h = zs @ ip # proxies"
      using split_appended [OF assms(1)] unfolding h_def by blast
    have "ip \<noteq> []" using assms(1) by (simp add: address_text_def)
    then have "find ?P (rev (split_addresses h)) = Some ip" using ip by (simp add: zs skip)
    then show "extract_forwarded_ip os (Some l) (x @ concat (map appended (ip # proxies))) = ip"
      unfolding h_def [symmetric] using zs h by (cases zs) (simp_all add: extract_forwarded_ip_def)
  }
  {
    assume x: "\<not> valid_address os ip" "address_text x" "valid_address os x" "\<not> is_trusted os x l"
    have "CHR '','' \<notin> set x" "trim_blanks x = x" using x(2) by (simp_all add: address_text_def)
    then have "split_addresses h = x # ip # proxies"
      using split_first [of x "CHR '' '' # ip @ concat (map appended proxies)"] split_all [OF assms(1)]
      by (simp add: appended_def [of ip] h_def)
    then show "extract_forwarded_ip os (Some l) (x @ concat (map appended (ip # proxies))) = x"
      unfolding h_def [symmetric] using x assms(3) h skip by (simp add: extract_forwarded_ip_def)
  }
qed

text \<open>Witnesses: three dotted addresses, the first of them a proxy.\<close>

definition demo_inet :: inet where
  "demo_inet = \<lparr>pton4 = map_of [(''10.0.0.1'', 0x0A000001), (''10.0.0.0'', 0x0A000000), (''6.6.6.6'', 0x06060606), (''8.8.8.8'', 0x08080808)],
     pton6 = (\<lambda>_. None), ntop4 = (\<lambda>_. []), ntop6 = (\<lambda>_. [])\<rparr>"

definition demo_proxies :: trusted_list where
  "demo_proxies = configure_proxies demo_inet [''10.0.0.0/8'']"

lemma demo_proxies:
  "is_trusted demo_inet ''10.0.0.1'' demo_proxies" "\<not> is_trusted demo_inet ''8.8.8.8'' demo_proxies"
  "valid_address demo_inet ''8.8.8.8''" "trim_blanks ''8.8.8.8'' = ''8.8.8.8''" "trim_blanks ''10.0.0.1'' = ''10.0.0.1''"
  by code_simp+

theorem forwarded_address_not_spoofable_witness:
  "extract_forwarded_ip demo_inet (Some demo_proxies) ''6.6.6.6, 8.8.8.8, 10.0.0.1'' = ''8.8.8.8''"
proof -
  have a: "\<forall>a\<in>set [''8.8.8.8'', ''10.0.0.1'']. address_text a" "\<forall>a\<in>set [''10.0.0.1'']. skipped demo_inet demo_proxies a"
    using demo_proxies by (simp_all add: address_text_def skipped_def)
  show ?thesis
    using forwarded_address_not_spoofable [OF a, of "''6.6.6.6''"] demo_proxies by (simp add: appended_def)
qed

theorem trusted_range_exact_witness:
  "is_trusted demo_inet ''10.0.0.1'' (configure_proxies demo_inet [''10.0.0.0/8'']) =
   (\<forall>i<32. 24 \<le> i \<longrightarrow> bit (0x0A000001 :: u32) i = bit (0x0A000000 :: u32) i)"
proof -
  have "c_stoi ''8'' = Some (int 8)" "parse_ipv4 demo_inet ''10.0.0.0'' = Some 0x0A000000"
    "parse_ipv4 demo_inet ''10.0.0.1'' = Some 0x0A000001" by code_simp+
  then show ?thesis
    using trusted_range_exact [of "''10.0.0.0/8''" "''8''" 8 "''10.0.0.0''" demo_inet "0x0A000000" "''10.0.0.1''" "0x0A000001"]
    by (simp add: demo_inet_def)
qed

end
