(* ===== verification/Proxy_Protocol.thy ===== *)
theory Proxy_Protocol
  imports FW_Helper WS_Frame Trusted_Proxy
begin

text \<open>
  The PROXY protocol header that a reverse proxy puts before a connection: engine/net/ProxyProtocol.cpp.
  A pointer and a length are the list of the bytes. What a port outside its type becomes in \<open>sscanf\<close>
  is the argument \<open>ovf\<close>, as in the firewall helper.
\<close>

record proxy_result =
  pp_valid :: bool
  pp_need_more_data :: bool
  pp_client_addr :: string
  pp_client_port :: u16
  pp_server_addr :: string
  pp_server_port :: u16
  pp_header_length :: nat

definition proxy_result_new :: proxy_result where
  "proxy_result_new = \<lparr>pp_valid = False, pp_need_more_data = False, pp_client_addr = [], pp_client_port = 0,
     pp_server_addr = [], pp_server_port = 0, pp_header_length = 0\<rparr>"

definition text_of :: "bytes \<Rightarrow> string" where
  "text_of bs = map (\<lambda>b. char_of (unat b)) bs"

section \<open>Version 1\<close>

text \<open>The conversions of \<open>"%7s %63s %63s %u %u"\<close>.\<close>

definition scan_word :: "nat \<Rightarrow> string \<Rightarrow> (string \<times> string) option" where
  "scan_word n s =
    (let t = dropWhile c_isspace s; w = take n (takeWhile (\<lambda>c. \<not> c_isspace c) t)
     in if w = [] then None else Some (w, drop (length w) t))"

definition scan_unsigned :: "(int \<Rightarrow> int) \<Rightarrow> string \<Rightarrow> (int \<times> string) option" where
  "scan_unsigned ovf s =
    (case scan_int s of
       None \<Rightarrow> None
     | Some (v, r) \<Rightarrow> Some (if 0 \<le> v \<and> v < 2 ^ 32 then v else ovf v, r))"

definition scan_addresses :: "(int \<Rightarrow> int) \<Rightarrow> string \<Rightarrow> (string \<times> string \<times> string \<times> int \<times> int) option" where
  "scan_addresses ovf rest =
    (case scan_word 7 rest of None \<Rightarrow> None | Some (proto, r1) \<Rightarrow>
     case scan_word 63 r1 of None \<Rightarrow> None | Some (src, r2) \<Rightarrow>
     case scan_word 63 r2 of None \<Rightarrow> None | Some (dst, r3) \<Rightarrow>
     case scan_unsigned ovf r3 of None \<Rightarrow> None | Some (sport, r4) \<Rightarrow>
     case scan_unsigned ovf r4 of None \<Rightarrow> None | Some (dport, r5) \<Rightarrow> Some (proto, src, dst, sport, dport))"

definition crlf_at :: "bytes \<Rightarrow> nat \<Rightarrow> bool" where
  "crlf_at data i = (data ! i = 13 \<and> data ! (i + 1) = 10)"

definition parse_v1 :: "inet \<Rightarrow> (int \<Rightarrow> int) \<Rightarrow> bytes \<Rightarrow> proxy_result" where
  "parse_v1 os ovf data =
    (let max_line = (if length data < 108 then length data else 108)
     in case find (crlf_at data) [0..<max_line - 1] of
          None \<Rightarrow> proxy_result_new\<lparr>pp_need_more_data := length data < 108\<rparr>
        | Some line_end \<Rightarrow>
            (let line = text_of (take line_end data);
                 result = proxy_result_new\<lparr>pp_header_length := line_end + 2\<rparr>;
                 rest = drop 6 line
             in if length line < 7 then result
                else if starts_with ''UNKNOWN'' rest then result\<lparr>pp_valid := True\<rparr>
                else case scan_addresses ovf (c_str rest) of
                  None \<Rightarrow> result
                | Some (proto, src, dst, sport, dport) \<Rightarrow>
                    if proto \<noteq> ''TCP4'' \<and> proto \<noteq> ''TCP6'' then result
                    else if (if proto = ''TCP4'' then pton4 os src = None else pton6 os src = None) then result
                    else result\<lparr>pp_valid := True, pp_client_addr := src, pp_client_port := word_of_int sport,
                           pp_server_addr := dst, pp_server_port := word_of_int dport\<rparr>))"

section \<open>Version 2\<close>

definition PP2_SIGNATURE :: bytes where
  "PP2_SIGNATURE = [0x0D, 0x0A, 0x0D, 0x0A, 0x00, 0x0D, 0x0A, 0x51, 0x55, 0x49, 0x54, 0x0A]"

definition parse_v2 :: "inet \<Rightarrow> bytes \<Rightarrow> proxy_result" where
  "parse_v2 os data =
    (if length data < 16 then proxy_result_new\<lparr>pp_need_more_data := True\<rparr>
     else
       (let ver_cmd = data ! 12;
            version = drop_bit 4 ver_cmd AND 0x0F;
            command = ver_cmd AND 0x0F;
            family = drop_bit 4 (data ! 13) AND 0x0F;
            addr_len = unat (read_be16 (drop 14 data));
            total_len = 16 + addr_len;
            result = proxy_result_new\<lparr>pp_header_length := total_len\<rparr>;
            addr_data = drop 16 data
        in if version \<noteq> 2 then proxy_result_new
           else if length data < total_len then proxy_result_new\<lparr>pp_need_more_data := True\<rparr>
           else if command = 0 then result\<lparr>pp_valid := True\<rparr>
           else if command \<noteq> 1 then result
           else if family = 1 \<and> 12 \<le> addr_len then
             result\<lparr>pp_client_addr := ntop4 os (take 4 addr_data), pp_server_addr := ntop4 os (take 4 (drop 4 addr_data)),
                    pp_client_port := read_be16 (drop 8 addr_data), pp_server_port := read_be16 (drop 10 addr_data),
                    pp_valid := True\<rparr>
           else if family = 2 \<and> 36 \<le> addr_len then
             result\<lparr>pp_client_addr := ntop6 os (take 16 addr_data), pp_server_addr := ntop6 os (take 16 (drop 16 addr_data)),
                    pp_client_port := read_be16 (drop 32 addr_data), pp_server_port := read_be16 (drop 34 addr_data),
                    pp_valid := True\<rparr>
           else if family = 0 then result\<lparr>pp_valid := True\<rparr>
           else result))"

definition PP1_PREFIX :: bytes where
  "PP1_PREFIX = bytes_of ''PROXY ''"

definition parse_proxy_protocol :: "inet \<Rightarrow> (int \<Rightarrow> int) \<Rightarrow> bytes \<Rightarrow> proxy_result" where
  "parse_proxy_protocol os ovf data =
    (if length data = 0 then proxy_result_new\<lparr>pp_need_more_data := True\<rparr>
     else if 6 \<le> length data \<and> take 6 data = PP1_PREFIX then parse_v1 os ovf data
     else if 12 \<le> length data \<and> take 12 data = PP2_SIGNATURE then parse_v2 os data
     else if length data < 12 \<and>
         (length data < 6 \<and> data = take (length data) PP1_PREFIX \<or> data = take (length data) PP2_SIGNATURE)
     then proxy_result_new\<lparr>pp_need_more_data := True\<rparr>
     else proxy_result_new)"

section \<open>Stability\<close>

lemma find_prefix:
  assumes "find P xs = Some x" "\<forall>y\<in>set xs. P y = Q y"
  shows "find Q (xs @ ys) = Some x"
  using assms by (induction xs) (auto split: if_splits)

lemma crlf_range: "find (crlf_at d) [0..<m - 1] = Some e \<Longrightarrow> e + 2 \<le> m"
  by (auto simp: find_Some_iff)

lemma crlf_append:
  assumes "find (crlf_at d) [0..<m - 1] = Some e" "m \<le> length d" "m \<le> k"
  shows "find (crlf_at (d @ x)) [0..<k - 1] = Some e"
proof -
  have "[0..<k - 1] = [0..<m - 1] @ [m - 1..<k - 1]"
    using assms(3) by (metis diff_le_mono le_add1 le_add_same_cancel1 upt_add_eq_append ordered_cancel_comm_monoid_diff_class.add_diff_inverse)
  then show ?thesis
    using assms by (simp only:) (rule find_prefix, auto simp: crlf_at_def nth_append)
qed


text \<open>What is made of the line of a version 1 header.\<close>

definition v1_line :: "inet \<Rightarrow> (int \<Rightarrow> int) \<Rightarrow> string \<Rightarrow> proxy_result" where
  "v1_line os ovf line =
    (let result = proxy_result_new\<lparr>pp_header_length := length line + 2\<rparr>; rest = drop 6 line
     in if length line < 7 then result
        else if starts_with ''UNKNOWN'' rest then result\<lparr>pp_valid := True\<rparr>
        else case scan_addresses ovf (c_str rest) of
          None \<Rightarrow> result
        | Some (proto, src, dst, sport, dport) \<Rightarrow>
            if proto \<noteq> ''TCP4'' \<and> proto \<noteq> ''TCP6'' then result
            else if (if proto = ''TCP4'' then pton4 os src = None else pton6 os src = None) then result
            else result\<lparr>pp_valid := True, pp_client_addr := src, pp_client_port := word_of_int sport,
                   pp_server_addr := dst, pp_server_port := word_of_int dport\<rparr>)"

lemma parse_v1_line:
  "find (crlf_at d) [0..<(if length d < 108 then length d else 108) - 1] = Some e \<Longrightarrow>
   parse_v1 os ovf d = v1_line os ovf (text_of (take e d))"
  using crlf_range [of d "if length d < 108 then length d else 108" e]
  by (auto simp: parse_v1_def v1_line_def Let_def text_of_def min_def split: if_splits)

lemma v1_line_facts:
  "pp_header_length (v1_line os ovf l) = length l + 2" "\<not> pp_need_more_data (v1_line os ovf l)"
  by (simp_all add: v1_line_def Let_def proxy_result_new_def split: option.splits prod.splits)

definition settled :: "bytes \<Rightarrow> bytes \<Rightarrow> (bytes \<Rightarrow> proxy_result) \<Rightarrow> bool" where
  "settled d x p \<longleftrightarrow> pp_header_length (p d) \<le> length d \<and>
     (if pp_need_more_data (p d) then \<not> pp_valid (p d) \<and> pp_header_length (p d) = 0 else p (d @ x) = p d)"

lemma parse_v1_settled: "settled d x (parse_v1 os ovf)"
proof -
  let ?m = "if length d < 108 then length d else 108"
  let ?k = "if length (d @ x) < 108 then length (d @ x) else 108"
  show ?thesis
  proof (cases "find (crlf_at d) [0..<?m - 1]")
    case (Some e)
    have le: "e + 2 \<le> ?m" using crlf_range [OF Some] .
    have d: "parse_v1 os ovf d = v1_line os ovf (text_of (take e d))" by (rule parse_v1_line [OF Some])
    have "find (crlf_at (d @ x)) [0..<?k - 1] = Some e" by (rule crlf_append [OF Some]) auto
    from parse_v1_line [OF this, of os ovf] have "parse_v1 os ovf (d @ x) = parse_v1 os ovf d"
      using le by (simp add: d split: if_splits)
    then show ?thesis using le v1_line_facts by (simp add: settled_def d text_of_def split: if_splits)
  next
    case None
    show ?thesis
    proof (cases "length d < 108")
      case False
      then have "find (crlf_at (d @ x)) [0..<?k - 1] = None"
        using None by (auto simp: find_None_iff crlf_at_def nth_append)
      then show ?thesis using None False by (simp add: settled_def parse_v1_def proxy_result_new_def)
    qed (use None in \<open>simp add: settled_def parse_v1_def proxy_result_new_def\<close>)
  qed
qed

lemma take_append_le: "n \<le> length d \<Longrightarrow> take n (d @ x) = take n d" "n \<le> length d \<Longrightarrow> drop n (d @ x) = drop n d @ x"
  by simp_all

lemma v4_fields:
  "28 \<le> length d \<Longrightarrow> take 4 (drop 16 (d @ x)) = take 4 (drop 16 d) \<and>
    take 4 (drop 4 (drop 16 (d @ x))) = take 4 (drop 4 (drop 16 d)) \<and>
    read_be16 (drop 8 (drop 16 (d @ x))) = read_be16 (drop 8 (drop 16 d)) \<and>
    read_be16 (drop 10 (drop 16 (d @ x))) = read_be16 (drop 10 (drop 16 d))"
  by (auto simp: nth_append read_be16_def)

lemma v6_fields:
  "52 \<le> length d \<Longrightarrow> take 16 (drop 16 (d @ x)) = take 16 (drop 16 d) \<and>
    take 16 (drop 16 (drop 16 (d @ x))) = take 16 (drop 16 (drop 16 d)) \<and>
    read_be16 (drop 32 (drop 16 (d @ x))) = read_be16 (drop 32 (drop 16 d)) \<and>
    read_be16 (drop 34 (drop 16 (d @ x))) = read_be16 (drop 34 (drop 16 d))"
  by (auto simp: nth_append read_be16_def)

lemma parse_v2_complete:
  assumes "\<not> drop_bit 4 (d ! 12) AND 0x0F \<noteq> 2" "16 + unat (read_be16 (drop 14 d)) \<le> length d"
  shows "settled d x (parse_v2 os)"
proof -
  let ?n = "unat (read_be16 (drop 14 d))"
  note n = assms(2)
  have hd: "(d @ x) ! 12 = d ! 12" "(d @ x) ! 13 = d ! 13" "read_be16 (drop 14 (d @ x)) = read_be16 (drop 14 d)"
    using n by (auto simp: nth_append read_be16_def)
  have small: "12 \<le> ?n \<Longrightarrow> take 4 (drop 16 (d @ x)) = take 4 (drop 16 d) \<and>
      take 4 (drop 4 (drop 16 (d @ x))) = take 4 (drop 4 (drop 16 d)) \<and>
      read_be16 (drop 8 (drop 16 (d @ x))) = read_be16 (drop 8 (drop 16 d)) \<and>
      read_be16 (drop 10 (drop 16 (d @ x))) = read_be16 (drop 10 (drop 16 d))"
    using n by (intro v4_fields) simp
  have large: "36 \<le> ?n \<Longrightarrow> take 16 (drop 16 (d @ x)) = take 16 (drop 16 d) \<and>
      take 16 (drop 16 (drop 16 (d @ x))) = take 16 (drop 16 (drop 16 d)) \<and>
      read_be16 (drop 32 (drop 16 (d @ x))) = read_be16 (drop 32 (drop 16 d)) \<and>
      read_be16 (drop 34 (drop 16 (d @ x))) = read_be16 (drop 34 (drop 16 d))"
    using n by (intro v6_fields) simp
  have "parse_v2 os (d @ x) = parse_v2 os d"
    using n small large unfolding parse_v2_def hd Let_def by (simp del: drop_drop drop_append take_append)
  moreover have "pp_header_length (parse_v2 os d) \<le> length d \<and> \<not> pp_need_more_data (parse_v2 os d)"
    using n assms(1) by (simp add: parse_v2_def Let_def proxy_result_new_def)
  ultimately show ?thesis by (simp add: settled_def)
qed

lemma parse_v2_settled: "settled d x (parse_v2 os)"
proof -
  let ?n = "unat (read_be16 (drop 14 d))" and ?old = "drop_bit 4 (d ! 12) AND 0x0F \<noteq> 2"
  consider "length d < 16" | "16 \<le> length d" ?old | "16 \<le> length d" "\<not> ?old" "length d < 16 + ?n"
    | "\<not> ?old" "16 + ?n \<le> length d" by linarith
  then show ?thesis
  proof cases
    case 1
    then show ?thesis by (simp add: settled_def parse_v2_def proxy_result_new_def)
  next
    case 2
    then have "(d @ x) ! 12 = d ! 12" by (simp add: nth_append)
    with 2 show ?thesis by (simp add: settled_def parse_v2_def proxy_result_new_def)
  next
    case 3
    then show ?thesis by (simp add: settled_def parse_v2_def proxy_result_new_def)
  next
    case n: 4
    then show ?thesis by (rule parse_v2_complete)
  qed
qed


section \<open>The whole parser\<close>

text \<open>The parser of the PROXY header never takes more bytes than it was given, takes and decides nothing
while it asks for more, and a decision is final: bytes that come later do not change it.\<close>

theorem proxy_header_decision_final:
  "settled d x (parse_proxy_protocol os ovf)"
proof -
  let ?p = "parse_proxy_protocol os ovf"
  consider (v1) "6 \<le> length d" "take 6 d = PP1_PREFIX"
    | (v2) "12 \<le> length d" "take 6 d \<noteq> PP1_PREFIX" "take 12 d = PP2_SIGNATURE"
    | (more) "d = [] \<or> length d < 12 \<and>
        (length d < 6 \<and> d = take (length d) PP1_PREFIX \<or> d = take (length d) PP2_SIGNATURE)"
        "\<not> (6 \<le> length d \<and> take 6 d = PP1_PREFIX)"
    | (direct) "d \<noteq> []" "6 \<le> length d \<longrightarrow> take 6 d \<noteq> PP1_PREFIX" "12 \<le> length d \<longrightarrow> take 12 d \<noteq> PP2_SIGNATURE"
        "length d < 12 \<longrightarrow> \<not> (length d < 6 \<and> d = take (length d) PP1_PREFIX \<or> d = take (length d) PP2_SIGNATURE)"
    by fastforce
  then show ?thesis
  proof cases
    case v1
    then have "?p d = parse_v1 os ovf d" "?p (d @ x) = parse_v1 os ovf (d @ x)"
      by (auto simp: parse_proxy_protocol_def)
    then show ?thesis using parse_v1_settled [of d x os ovf] by (simp add: settled_def)
  next
    case v2
    then have "?p d = parse_v2 os d" "?p (d @ x) = parse_v2 os (d @ x)"
      by (auto simp: parse_proxy_protocol_def)
    then show ?thesis using parse_v2_settled [of d x os] by (simp add: settled_def)
  next
    case more
    then have "?p d = proxy_result_new\<lparr>pp_need_more_data := True\<rparr>" by (auto simp: parse_proxy_protocol_def)
    then show ?thesis by (simp add: settled_def proxy_result_new_def)
  next
    case direct
    have d: "?p d = proxy_result_new" using direct by (auto simp: parse_proxy_protocol_def)
    have pre: "take (length d) (take n (d @ x)) = take n d" if "n \<ge> length d" for n using that by simp
    have "take 6 (d @ x) \<noteq> PP1_PREFIX"
    proof
      assume e: "take 6 (d @ x) = PP1_PREFIX"
      show False
      proof (cases "6 \<le> length d")
        case False
        then have "take (length d) PP1_PREFIX = d" using pre [of 6] by (simp flip: e)
        with False direct show False by auto
      qed (use e direct in simp)
    qed
    moreover have "take n (d @ x) \<noteq> take n PP2_SIGNATURE" if "length d \<le> n" "n \<le> 12" for n
    proof
      assume e: "take n (d @ x) = take n PP2_SIGNATURE"
      have "take (length d) (take n (d @ x)) = take (length d) (take n PP2_SIGNATURE)" by (simp only: e)
      then have "d = take (length d) PP2_SIGNATURE" using that by (simp add: min_absorb1)
      moreover have "length PP2_SIGNATURE = 12" by (simp add: PP2_SIGNATURE_def)
      ultimately show False using direct that by (cases "length d < 12") auto
    qed
    note sig = this
    have "\<not> (12 \<le> length (d @ x) \<and> take 12 (d @ x) = PP2_SIGNATURE)"
    proof (cases "12 \<le> length d")
      case False
      then show ?thesis using sig [of 12] by (simp add: PP2_SIGNATURE_def)
    qed (use direct in simp)
    moreover have "\<not> (length (d @ x) < 12 \<and> d @ x = take (length (d @ x)) PP2_SIGNATURE)"
      using sig [of "length (d @ x)"] by auto
    moreover have "\<not> (length (d @ x) < 6 \<and> d @ x = take (length (d @ x)) PP1_PREFIX)"
    proof
      assume e: "length (d @ x) < 6 \<and> d @ x = take (length (d @ x)) PP1_PREFIX"
      then have "take (length d) (d @ x) = take (length d) (take (length (d @ x)) PP1_PREFIX)" by (rule arg_cong [OF conjunct2])
      then have "d = take (length d) PP1_PREFIX" by simp
      then show False using direct e by auto
    qed
    ultimately have "?p (d @ x) = proxy_result_new"
      using direct(1) by (auto simp: parse_proxy_protocol_def)
    then show ?thesis using d by (simp add: settled_def proxy_result_new_def)
  qed
qed

end
