(* ===== verification/WS_Http.thy ===== *)
theory WS_Http
  imports Base64 Proxy_Protocol
begin

text \<open>
  The HTTP lines of the WebSocket handshake: include/net/WebSocketCommon.h and
  engine/net/WebSocketCommon.cpp. A header map with its case-insensitive order is the list of its
  pairs, in which no two names agree; \<open>emplace\<close> keeps the first value of a name.
\<close>

section \<open>Text\<close>

definition trim :: "string \<Rightarrow> string" where
  "trim s = rev (dropWhile c_isspace (rev (dropWhile c_isspace s)))"

fun collapse_from :: "bool \<Rightarrow> string \<Rightarrow> string" where
  "collapse_from w [] = []"
| "collapse_from w (c # s) =
     (if c_isspace c then collapse_from True s
      else (if w then [CHR '' ''] else []) @ c # collapse_from False s)"

definition collapse_lws :: "string \<Rightarrow> string" where
  "collapse_lws s = collapse_from False s"

definition case_insensitive_equal :: "string \<Rightarrow> string \<Rightarrow> bool" where
  "case_insensitive_equal a b = (map c_tolower a = map c_tolower b)"

section \<open>Headers\<close>

type_synonym http_headers = "(string \<times> string) list"

definition header_find :: "string \<Rightarrow> http_headers \<Rightarrow> string option" where
  "header_find name hs = map_option snd (find (\<lambda>(k, v). case_insensitive_equal k name) hs)"

definition header_emplace :: "string \<times> string \<Rightarrow> http_headers \<Rightarrow> http_headers" where
  "header_emplace kv hs = (if header_find (fst kv) hs = None then hs @ [kv] else hs)"

text \<open>\<open>get_header\<close> and \<open>operator[]\<close>: a missing header reads as the empty text.\<close>

definition get_header :: "string \<Rightarrow> http_headers \<Rightarrow> string" where
  "get_header name hs = (case header_find name hs of Some v \<Rightarrow> v | None \<Rightarrow> [])"

definition parse_http_header :: "string \<Rightarrow> string \<times> string" where
  "parse_http_header h =
    (case dropWhile (\<lambda>c. c \<noteq> CHR '':'') h of
       [] \<Rightarrow> (trim h, [])
     | colon # v \<Rightarrow> (trim (takeWhile (\<lambda>c. c \<noteq> CHR '':'') h), collapse_lws (trim v)))"

section \<open>First lines\<close>

definition before_space :: "string \<Rightarrow> string" where
  "before_space s = takeWhile (\<lambda>c. c \<noteq> CHR '' '') s"

definition after_space :: "string \<Rightarrow> string option" where
  "after_space s = (case dropWhile (\<lambda>c. c \<noteq> CHR '' '') s of [] \<Rightarrow> None | sp # r \<Rightarrow> Some r)"

record request_line =
  rl_method :: string
  rl_uri :: string
  rl_http_version :: string

definition parse_request_line :: "string \<Rightarrow> request_line option" where
  "parse_request_line line =
    (case after_space line of
       None \<Rightarrow> None
     | Some r \<Rightarrow>
         (case after_space r of
            None \<Rightarrow> None
          | Some v \<Rightarrow> Some \<lparr>rl_method = before_space line, rl_uri = before_space r, rl_http_version = v\<rparr>))"

record status_line =
  sl_http_version :: string
  sl_status_code :: int
  sl_status_reason :: string

definition parse_status_line :: "string \<Rightarrow> status_line option" where
  "parse_status_line line =
    (case after_space line of
       None \<Rightarrow> None
     | Some r \<Rightarrow>
         (case after_space r of
            None \<Rightarrow> None
          | Some phrase \<Rightarrow>
              if \<not> starts_with ''HTTP/'' (before_space line) then None
              else (case c_stoi (before_space r) of
                      None \<Rightarrow> None
                    | Some code \<Rightarrow>
                        if code < 100 \<or> 599 < code then None
                        else if phrase = [] then None
                        else Some \<lparr>sl_http_version = before_space line, sl_status_code = code,
                                   sl_status_reason = phrase\<rparr>)))"

section \<open>Lines\<close>

text \<open>The position of the first CRLF.\<close>

fun find_crlf :: "bytes \<Rightarrow> nat option" where
  "find_crlf (a # b # r) = (if a = 13 \<and> b = 10 then Some 0 else map_option Suc (find_crlf (b # r)))"
| "find_crlf _ = None"

function line_loop :: "bytes \<Rightarrow> string list \<times> bytes" where
  "line_loop buf =
    (if buf = [] then ([], [])
     else case find_crlf buf of
       None \<Rightarrow> ([], buf)
     | Some k \<Rightarrow> (case line_loop (drop (k + 2) buf) of (ls, r) \<Rightarrow> (text_of (take k buf) # ls, r)))"
  by pat_completeness auto
termination by (relation "measure length") auto

declare line_loop.simps [simp del]

definition get_lines :: "bytes \<Rightarrow> bytes \<Rightarrow> string list \<times> bytes" where
  "get_lines input remainder = line_loop (remainder @ input)"

text \<open>\<open>std::getline(stream, token, ',')\<close> until the stream ends.\<close>

function getline_commas :: "string \<Rightarrow> string list" where
  "getline_commas s =
    (if s = [] then []
     else case dropWhile (\<lambda>c. c \<noteq> CHR '','') s of
       [] \<Rightarrow> [s]
     | comma # r \<Rightarrow> takeWhile (\<lambda>c. c \<noteq> CHR '','') s # getline_commas r)"
  by pat_completeness auto
termination
proof (relation "measure length", goal_cases)
  case (2 s comma r)
  then have "length (comma # r) \<le> length s" using length_dropWhile_le [of "\<lambda>c. c \<noteq> CHR '',''" s] by simp
  then show ?case by simp
qed simp

declare getline_commas.simps [simp del]

section \<open>The accept key\<close>

definition MAGIC_GUID :: string where
  "MAGIC_GUID = ''258EAFA5-E914-47DA-95CA-C5AB0DC85B11''"

definition compute_accept_key :: "string \<Rightarrow> string" where
  "compute_accept_key client_key_b64 = b64_encode (sha1_raw (client_key_b64 @ MAGIC_GUID))"

section \<open>Lemmas\<close>

lemma find_crlf_None_append: "find_crlf a = None \<Longrightarrow> (a = [] \<or> last a \<noteq> 13) \<Longrightarrow> find_crlf (a @ 13 # 10 # r) = Some (length a)"
proof (induction a rule: find_crlf.induct)
  case (1 a b r')
  then show ?case by (auto split: if_splits)
qed auto

definition plain_line :: "string \<Rightarrow> bool" where
  "plain_line l \<longleftrightarrow> CHR 0x0D \<notin> set l"

lemma bytes_of_Cons: "bytes_of (c # s) = of_nat (char_code c) # bytes_of s"
  by (simp add: bytes_of_def)

lemma bytes_of_append: "bytes_of (a @ b) = bytes_of a @ bytes_of b"
  by (simp add: bytes_of_def)

lemma text_of_bytes_of: "text_of (bytes_of s) = s"
  by (induction s) (simp_all add: text_of_def bytes_of_def char_code_def unat_of_nat nat_of_char_less_256)

lemma byte_13: "(of_nat (char_code c) :: u8) = 13 \<longleftrightarrow> c = CHR 0x0D"
proof
  assume "(of_nat (char_code c) :: u8) = 13"
  then have "unat (of_nat (char_code c) :: u8) = 13" by simp
  then have "char_code c = 13" using char_code_less_256 [of c] by (simp add: unat_of_nat)
  then have "char_of (char_code c) = (char_of (13 :: nat) :: char)" by simp
  moreover have "char_of (13 :: nat) = CHR 0x0D" by code_simp
  ultimately show "c = CHR 0x0D" by (simp add: char_code_def)
qed (simp add: char_code_def)

lemma plain_no_crlf: "plain_line l \<Longrightarrow> find_crlf (bytes_of l) = None \<and> (bytes_of l = [] \<or> last (bytes_of l) \<noteq> 13)"
proof (induction l rule: induct_list012)
  case (3 a b l)
  then have "find_crlf (bytes_of (b # l)) = None" "last (bytes_of (b # l)) \<noteq> 13" by (simp_all add: plain_line_def bytes_of_def)
  moreover have "(of_nat (char_code a) :: u8) \<noteq> 13" using 3 byte_13 by (auto simp: plain_line_def)
  ultimately show ?case by (simp add: bytes_of_Cons)
qed (auto simp: plain_line_def bytes_of_def byte_13)

text \<open>Lines joined with CRLF are taken apart again.\<close>

definition CRLF :: string where
  "CRLF = [CHR 0x0D, CHR 0x0A]"

definition lines_text :: "string list \<Rightarrow> string" where
  "lines_text ls = concat (map (\<lambda>l. l @ CRLF) ls)"

lemma line_loop_lines:
  "\<forall>l\<in>set ls. plain_line l \<Longrightarrow> plain_line r \<Longrightarrow>
   line_loop (bytes_of (lines_text ls @ r)) = (ls, bytes_of r)"
proof (induction ls)
  case Nil
  then show ?case using plain_no_crlf [of r] by (subst line_loop.simps) (auto simp: lines_text_def bytes_of_def)
next
  case (Cons l ls)
  let ?rest = "bytes_of (lines_text ls @ r)"
  have b: "bytes_of (lines_text (l # ls) @ r) = bytes_of l @ 13 # 10 # ?rest"
    by (simp add: lines_text_def CRLF_def bytes_of_append bytes_of_Cons char_code_def)
  have "find_crlf (bytes_of l @ 13 # 10 # ?rest) = Some (length (bytes_of l))"
    using plain_no_crlf [of l] Cons.prems(1) by (intro find_crlf_None_append) simp_all
  then show ?case using Cons by (subst line_loop.simps) (simp add: b text_of_bytes_of)
qed

end
