(* ===== verification/WS_Handshake.thy ===== *)
theory WS_Handshake
  imports WS_Http WS_Reader
begin

text \<open>
  The opening handshake of the server: \<open>perform_server_handshake\<close> and \<open>set_cors_origins\<close> of
  engine/net/WebSocketServer.cpp. The result is an exception, or whether the handshake is complete
  with the connection and what was sent; metrics and log lines are left out.
\<close>

record ws_config =
  cfg_subprotocols :: "string list"
  cfg_cors_origins :: "string list"
  cfg_cors_wildcard :: bool
  cfg_rp_enabled :: bool
  cfg_rp_header_priority :: "string list"
  cfg_rp_proxy_protocol :: bool
  cfg_trusted :: trusted_list
  cfg_handshake_sec :: int
  cfg_idle_sec :: int
  cfg_partial_frame_sec :: int

fun cors_loop :: "string list \<Rightarrow> string list \<Rightarrow> ws_config \<Rightarrow> ws_config" where
  "cors_loop acc [] cfg = cfg\<lparr>cfg_cors_origins := acc\<rparr>"
| "cors_loop acc (o1 # os) cfg =
     (if o1 = ''*'' then cfg\<lparr>cfg_cors_wildcard := True, cfg_cors_origins := []\<rparr>
      else cors_loop (acc @ [o1]) os cfg)"

definition set_cors_origins :: "string list \<Rightarrow> ws_config \<Rightarrow> ws_config" where
  "set_cors_origins origins cfg = cors_loop [] origins (cfg\<lparr>cfg_cors_wildcard := False\<rparr>)"

definition set_reverse_proxy_config ::
  "inet \<Rightarrow> bool \<Rightarrow> string list \<Rightarrow> string list \<Rightarrow> bool \<Rightarrow> ws_config \<Rightarrow> ws_config" where
  "set_reverse_proxy_config os enabled proxies priority proxy_protocol cfg =
    cfg\<lparr>cfg_rp_enabled := enabled, cfg_rp_header_priority := priority,
        cfg_rp_proxy_protocol := proxy_protocol, cfg_trusted := configure_proxies os proxies\<rparr>"

section \<open>The parts of the request\<close>

definition header_lines :: "string list \<Rightarrow> http_headers" where
  "header_lines ls = fold (\<lambda>l. header_emplace (parse_http_header l)) (takeWhile (\<lambda>l. l \<noteq> []) ls) []"

fun forwarded_address :: "inet \<Rightarrow> trusted_list \<Rightarrow> http_headers \<Rightarrow> string list \<Rightarrow> string option" where
  "forwarded_address os l hs [] = None"
| "forwarded_address os l hs (name # names) =
     (let v = get_header name hs; ip = extract_forwarded_ip os (Some l) v
      in if v \<noteq> [] \<and> ip \<noteq> [] then Some ip else forwarded_address os l hs names)"

definition real_address :: "inet \<Rightarrow> ws_config \<Rightarrow> http_headers \<Rightarrow> ws_conn \<Rightarrow> ws_conn" where
  "real_address os cfg hs c =
    (if cfg_rp_enabled cfg \<and> \<not> wc_proxy_resolved c \<and> is_trusted os (wc_remote_addr c) (cfg_trusted cfg) then
       (case forwarded_address os (cfg_trusted cfg) hs (cfg_rp_header_priority cfg) of
          Some ip \<Rightarrow> c\<lparr>wc_remote_addr := ip\<rparr> | None \<Rightarrow> c)
     else c)"

definition has_upgrade_token :: "string \<Rightarrow> bool" where
  "has_upgrade_token v = list_ex (\<lambda>t. case_insensitive_equal (trim t) ''Upgrade'') (getline_commas v)"

definition select_protocol :: "ws_config \<Rightarrow> http_headers \<Rightarrow> string" where
  "select_protocol cfg hs =
    (case header_find ''Sec-WebSocket-Protocol'' hs of
       None \<Rightarrow> []
     | Some v \<Rightarrow>
         if cfg_subprotocols cfg = [] then []
         else (case find (\<lambda>p. p \<in> set (cfg_subprotocols cfg)) (map trim (getline_commas v)) of
                 Some p \<Rightarrow> p | None \<Rightarrow> []))"

definition cors_lines :: "ws_config \<Rightarrow> http_headers \<Rightarrow> string list" where
  "cors_lines cfg hs =
    (if cfg_cors_wildcard cfg then [''Access-Control-Allow-Origin: *'']
     else if cfg_cors_origins cfg \<noteq> [] then
       (case header_find ''Origin'' hs of
          Some orig \<Rightarrow> if orig \<in> set (cfg_cors_origins cfg) then [''Access-Control-Allow-Origin: '' @ orig] else []
        | None \<Rightarrow> [])
     else [])"

definition upgrade_response :: "string \<Rightarrow> string \<Rightarrow> string list \<Rightarrow> string" where
  "upgrade_response accept protocol cors =
    lines_text
      ([''HTTP/1.1 101 Switching Protocols'', ''Upgrade: websocket'', ''Connection: Upgrade'',
        ''Sec-WebSocket-Accept: '' @ accept] @
       (if protocol \<noteq> [] then [''Sec-WebSocket-Protocol: '' @ protocol] else []) @ cors @ [[]])"

section \<open>The handshake\<close>

definition perform_server_handshake ::
  "inet \<Rightarrow> ws_config \<Rightarrow> (bytes \<Rightarrow> bool) \<Rightarrow> int \<Rightarrow> ws_conn \<Rightarrow> ws_error + bool \<times> ws_conn \<times> bytes list" where
  "perform_server_handshake os cfg ok now c =
    (case drain_client now c of
       Inl e \<Rightarrow> Inl e
     | Inr (bs, c1) \<Rightarrow>
         if bs = [] \<and> wc_extra c1 = [] then Inr (False, c1, [])
         else
           (case get_lines bs (wc_extra c1) of
              (ls, r) \<Rightarrow>
                (let c2 = c1\<lparr>wc_extra := r\<rparr>
                 in if [] \<notin> set ls then Inr (False, c2, [])
                    else case parse_request_line (hd ls) of
                      None \<Rightarrow> Inl (Bad_handshake ''Invalid request line'')
                    | Some rl \<Rightarrow>
                        if rl_method rl \<noteq> ''GET'' then Inl (Bad_handshake (''Expected GET, got '' @ rl_method rl))
                        else
                          (let hs = header_lines (tl ls);
                               c3 = real_address os cfg hs c2;
                               key = get_header ''Sec-WebSocket-Key'' hs;
                               protocol = select_protocol cfg hs;
                               response = bytes_of (upgrade_response (compute_accept_key key) protocol (cors_lines cfg hs))
                           in if \<not> case_insensitive_equal (get_header ''Upgrade'' hs) ''websocket''
                              then Inl (Bad_handshake ''Missing or invalid Upgrade header'')
                              else if \<not> has_upgrade_token (get_header ''Connection'' hs)
                              then Inl (Bad_handshake ''Missing or invalid Connection header'')
                              else if key = [] then Inl (Bad_handshake ''Missing Sec-WebSocket-Key'')
                              else if \<not> ok response then Inl Socket_error
                              else Inr (True, c3\<lparr>wc_subprotocol := protocol, wc_handshake := True\<rparr>, [response])))))"

section \<open>Requests that arrive in pieces\<close>

lemma find_crlf_append_lines:
  "line_loop (bytes_of (lines_text ls @ r)) = (ls, bytes_of r)"
  if "\<forall>l\<in>set ls. plain_line l" "plain_line r"
  using line_loop_lines that by blast

text \<open>What has arrived of a request before its empty line is forgotten except for the unfinished last
line: the connection keeps no trace of the lines, so that a request which comes in two reads, cut behind
a line, is judged by its second part alone.\<close>

theorem ws_handshake_forgets_lines:
  assumes "wc_recv_buf c = bytes_of (lines_text ls @ r)" "wc_extra c = []" "lines_text ls @ r \<noteq> []"
    "\<forall>l\<in>set ls. plain_line l \<and> l \<noteq> []" "plain_line r"
  shows "perform_server_handshake os cfg ok now c =
    Inr (False, c\<lparr>wc_recv_buf := [], wc_last_data_at := now, wc_extra := bytes_of r\<rparr>, [])"
proof -
  have "bytes_of (lines_text ls @ r) \<noteq> []" using assms(3) by (simp add: bytes_of_def)
  moreover have "get_lines (bytes_of (lines_text ls @ r)) [] = (ls, bytes_of r)"
    using line_loop_lines assms(4,5) by (simp add: get_lines_def)
  ultimately show ?thesis
    using assms by (auto simp: perform_server_handshake_def drain_client_def Let_def)
qed

definition demo_request :: "string list" where
  "demo_request = [''GET / HTTP/1.1'', ''Host: a'', ''Upgrade: websocket'', ''Connection: Upgrade'', ''Sec-WebSocket-Key: k'']"

definition demo_ws_config :: ws_config where
  "demo_ws_config = \<lparr>cfg_subprotocols = [], cfg_cors_origins = [], cfg_cors_wildcard = False, cfg_rp_enabled = False,
     cfg_rp_header_priority = [], cfg_rp_proxy_protocol = False, cfg_trusted = \<lparr>tl_ipv4 = [], tl_ipv6 = []\<rparr>,
     cfg_handshake_sec = 10, cfg_idle_sec = 120, cfg_partial_frame_sec = 30\<rparr>"

lemma plain_line_code: "plain_line l \<longleftrightarrow> list_all (\<lambda>c. char_code c \<noteq> 13) l"
proof -
  have "char_code c = 13 \<longleftrightarrow> c = CHR 0x0D" for c
  proof
    assume "char_code c = 13"
    then show "c = CHR 0x0D" using byte_13 [of c] by simp
  qed (simp add: char_code_def)
  then show ?thesis by (auto simp: plain_line_def list_all_iff)
qed

theorem ws_handshake_forgets_lines_witness:
  "perform_server_handshake demo_inet demo_ws_config (\<lambda>_. True) 1
     (ws_conn_new\<lparr>wc_recv_buf := bytes_of (lines_text demo_request)\<rparr>) =
   Inr (False, ws_conn_new\<lparr>wc_recv_buf := [], wc_last_data_at := 1, wc_extra := []\<rparr>, [])"
proof -
  have "list_all (\<lambda>l. list_all (\<lambda>c. char_code c \<noteq> 13) l \<and> l \<noteq> []) demo_request" "lines_text demo_request \<noteq> []"
    by code_simp+
  then show ?thesis
    using ws_handshake_forgets_lines [of "ws_conn_new\<lparr>wc_recv_buf := bytes_of (lines_text demo_request)\<rparr>" demo_request "[]"]
    by (simp add: plain_line_code list_all_iff ws_conn_new_def) (simp add: bytes_of_def)
qed

end
