(* ===== verification/WS_Client.thy ===== *)
theory WS_Client
  imports WS_Handshake
begin

text \<open>
  The client's end of a WebSocket: engine/net/WebSocket.h and WebSocket.cpp, and \<open>parse_ws_url\<close> of
  engine/net/WSClientThread.cpp. What the socket will deliver is the list \<open>wk_incoming\<close>, what was sent
  is \<open>wk_sent\<close>; the random bytes of a mask, of the handshake key and the version text are arguments.
  A header map is kept in the order of its names, in lower case.
\<close>

record ws_client =
  wk_http_headers :: http_headers
  wk_sec_ws_key :: bytes
  wk_extra :: bytes
  wk_ready :: bool
  wk_connecting :: bool
  wk_fragment_buf :: bytes
  wk_fragment_opcode :: u8
  wk_in_fragment :: bool
  wk_incoming :: "recv_result list"
  wk_sent :: "bytes list"

datatype ws_client_error =
    Not_ready
  | In_progress
  | Recv_failed
  | Masked_frame
  | Closed_by_server
  | Bad_fragment
  | Bad_copy
  | Bad_response string

section \<open>Addresses\<close>

record parsed_ws_url =
  pu_ssl :: bool
  pu_host :: string
  pu_port :: u16

text \<open>The position of the last colon, as a split of the text.\<close>

definition split_last_colon :: "string \<Rightarrow> (string \<times> string) option" where
  "split_last_colon s =
    (case dropWhile (\<lambda>c. c \<noteq> CHR '':'') (rev s) of
       [] \<Rightarrow> None
     | colon # h \<Rightarrow> Some (rev h, rev (takeWhile (\<lambda>c. c \<noteq> CHR '':'') (rev s))))"

definition strip_scheme :: "string \<Rightarrow> u16 \<Rightarrow> bool \<times> string \<times> u16" where
  "strip_scheme h p =
    (if starts_with ''wss://'' h then (True, drop 6 h, if p \<noteq> 0 then p else 443)
     else if starts_with ''ws://'' h then (False, drop 5 h, if p \<noteq> 0 then p else 80)
     else (False, h, p))"

text \<open>\<open>rest.find(']') < colon\<close>: a missing bracket is at \<open>npos\<close>, which is not before the colon.\<close>

definition parse_ws_url :: "string \<Rightarrow> u16 \<Rightarrow> parsed_ws_url" where
  "parse_ws_url host_in port_in =
    (case strip_scheme host_in port_in of
       (ssl, r, p) \<Rightarrow>
         let rest = takeWhile (\<lambda>c. c \<noteq> CHR ''/'') r
         in case split_last_colon rest of
              Some (h, t) \<Rightarrow>
                if h \<noteq> [] then
                  (if hd rest \<noteq> CHR ''['' \<or> CHR '']'' \<in> set h then
                     (case c_stoi t of
                        Some n \<Rightarrow> \<lparr>pu_ssl = ssl, pu_host = h, pu_port = word_of_int n\<rparr>
                      | None \<Rightarrow> \<lparr>pu_ssl = ssl, pu_host = h, pu_port = p\<rparr>)
                   else \<lparr>pu_ssl = ssl, pu_host = rest, pu_port = p\<rparr>)
                else \<lparr>pu_ssl = ssl, pu_host = rest, pu_port = p\<rparr>
            | None \<Rightarrow> \<lparr>pu_ssl = ssl, pu_host = rest, pu_port = p\<rparr>)"

section \<open>Headers of the request\<close>

fun lex_less :: "nat list \<Rightarrow> nat list \<Rightarrow> bool" where
  "lex_less _ [] = False"
| "lex_less [] (b # bs) = True"
| "lex_less (a # as) (b # bs) = (a < b \<or> a = b \<and> lex_less as bs)"

definition header_less :: "string \<Rightarrow> string \<Rightarrow> bool" where
  "header_less a b = lex_less (map (\<lambda>c. char_code (c_tolower c)) a) (map (\<lambda>c. char_code (c_tolower c)) b)"

text \<open>\<open>http_headers[name] = value\<close>; an existing name keeps its spelling.\<close>

fun set_header :: "string \<Rightarrow> string \<Rightarrow> http_headers \<Rightarrow> http_headers" where
  "set_header name v [] = [(name, v)]"
| "set_header name v ((k, w) # hs) =
     (if header_less name k then (name, v) # (k, w) # hs
      else if header_less k name then (k, w) # set_header name v hs
      else (k, v) # hs)"

definition ws_client_new :: "string \<Rightarrow> u16 \<Rightarrow> string \<Rightarrow> ws_client" where
  "ws_client_new host p ver =
    \<lparr>wk_http_headers = fold (\<lambda>(k, v) hs. set_header k v hs)
        [(''Host'', host @ '':'' @ show_nat (unat p)), (''Upgrade'', ''websocket''), (''Connection'', ''Upgrade''),
         (''Sec-WebSocket-Version'', ''13''), (''User-Agent'', ''AO-SDL/'' @ ver)] [],
      wk_sec_ws_key = replicate 16 0, wk_extra = [], wk_ready = False, wk_connecting = False,
      wk_fragment_buf = [], wk_fragment_opcode = TEXT, wk_in_fragment = False, wk_incoming = [], wk_sent = []\<rparr>"

section \<open>Raw input and output\<close>

definition write_raw :: "bytes \<Rightarrow> ws_client \<Rightarrow> ws_client" where
  "write_raw bs k = k\<lparr>wk_sent := wk_sent k @ [bs]\<rparr>"

fun recv_all :: "recv_result list \<Rightarrow> bytes \<Rightarrow> (bytes \<times> recv_result list) option" where
  "recv_all [] acc = Some (acc, [])"
| "recv_all (Recv_error # rest) acc = None"
| "recv_all (Chunk bs again # rest) acc = (if again then recv_all rest (acc @ bs) else Some (acc @ bs, rest))"

definition read_raw :: "ws_client \<Rightarrow> (bytes \<times> ws_client) option" where
  "read_raw k =
    (case recv_all (wk_incoming k) (wk_extra k) of
       None \<Rightarrow> None
     | Some (bs, rest) \<Rightarrow> Some (bs, k\<lparr>wk_extra := [], wk_incoming := rest\<rparr>))"

section \<open>Writing\<close>

definition client_frame :: "u8 \<Rightarrow> u32 \<Rightarrow> u8 \<Rightarrow> bytes \<Rightarrow> ws_frame" where
  "client_frame opcode key len_code data = ws_frame_new\<lparr>f_fin := True, f_opcode := opcode, f_mask := True,
     f_len := of_nat (length data), f_len_code := len_code, f_mask_key := key, f_data := data\<rparr>"

definition client_write :: "u32 \<Rightarrow> bytes \<Rightarrow> ws_client \<Rightarrow> ws_client_error + ws_client" where
  "client_write key data k =
    (if \<not> wk_ready k then Inl Not_ready
     else Inr (write_raw (ws_serialize (client_frame TEXT key (length_code (of_nat (length data))) data)) k))"

definition client_send_close :: "u32 \<Rightarrow> u16 \<Rightarrow> string \<Rightarrow> ws_client \<Rightarrow> ws_client" where
  "client_send_close key code msg k =
    (let data = be16 code @ take 123 (bytes_of msg)
     in write_raw (ws_serialize (client_frame CLOSE key (of_nat (length data)) data)) k)"

definition client_close :: "u32 \<Rightarrow> u16 \<Rightarrow> string \<Rightarrow> ws_client \<Rightarrow> ws_client" where
  "client_close key code msg k =
    (if \<not> wk_ready k then k else (client_send_close key code msg k)\<lparr>wk_ready := False\<rparr>)"

section \<open>Reading\<close>

definition client_pong :: "u32 \<Rightarrow> ws_frame \<Rightarrow> ws_frame" where
  "client_pong key f = client_frame PONG key (if f_len f \<le> 125 then ucast (f_len f) else 126) (f_data f)"

text \<open>Continuations, texts and binaries: the messages they complete, and the client after them.\<close>

definition client_data :: "ws_frame \<Rightarrow> ws_client \<Rightarrow> ws_client_error + ws_frame list \<times> ws_client" where
  "client_data f k =
    (if f_opcode f = CONTINUATION then
       (if \<not> wk_in_fragment k then Inl Bad_fragment
        else let buf = wk_fragment_buf k @ f_data f
             in if f_fin f then
                  Inr ([assembled (wk_fragment_opcode k) buf], k\<lparr>wk_fragment_buf := [], wk_in_fragment := False\<rparr>)
                else Inr ([], k\<lparr>wk_fragment_buf := buf\<rparr>))
     else if f_fin f then (if wk_in_fragment k then Inl Bad_fragment else Inr ([f], k))
     else (if wk_in_fragment k then Inl Bad_fragment
           else Inr ([], k\<lparr>wk_in_fragment := True, wk_fragment_opcode := f_opcode f, wk_fragment_buf := f_data f\<rparr>)))"

definition client_handle_frame :: "u32 \<Rightarrow> ws_frame \<Rightarrow> ws_client \<Rightarrow> ws_client_error + ws_frame list \<times> ws_client" where
  "client_handle_frame key f k =
    (if f_opcode f = CLOSE then Inl Closed_by_server
     else if f_opcode f = PING then Inr ([], write_raw (ws_serialize (client_pong key f)) k)
     else if f_opcode f = PONG then Inr ([], k)
     else client_data f k)"

text \<open>The client after an exception: a close frame is answered, and the socket is closed.\<close>

definition client_failed :: "u32 \<Rightarrow> ws_frame \<Rightarrow> ws_client \<Rightarrow> ws_client" where
  "client_failed key f k =
    (if f_opcode f = CLOSE \<and> wk_ready k then
       (client_send_close key (if 2 \<le> length (f_data f) then read_be16 (f_data f) else 1000) [] k)\<lparr>wk_ready := False\<rparr>
     else k)"

text \<open>
  One round of the loop of \<open>read\<close>: \<open>Inl\<close> ends it, with an exception or with nothing more to do; a
  masked frame is refused as soon as its second byte is there. The header of a frame is taken apart
  as in the server (\<open>parse_frame\<close>).
\<close>

datatype client_step = Stop "ws_client_error option" ws_client | More "ws_frame list" ws_client

definition client_round :: "u32 \<Rightarrow> ws_client \<Rightarrow> client_step" where
  "client_round key k =
    (case read_raw k of
       None \<Rightarrow> Stop (Some Recv_failed) (k\<lparr>wk_extra := []\<rparr>)
     | Some (bs, k1) \<Rightarrow>
         if length bs < 2 then Stop None (k1\<lparr>wk_extra := bs\<rparr>)
         else if bs ! 1 AND 0x80 \<noteq> 0 then Stop (Some Masked_frame) k1
         else case parse_frame bs of
           Incomplete \<Rightarrow> Stop None (k1\<lparr>wk_extra := bs\<rparr>)
         | Bad_range \<Rightarrow> Stop (Some Bad_copy) k1
         | Parsed f n \<Rightarrow>
             (let k2 = k1\<lparr>wk_extra := drop n bs\<rparr>
              in case client_handle_frame key f k2 of
                   Inl e \<Rightarrow> Stop (Some e) (client_failed key f k2)
                 | Inr (ms, k3) \<Rightarrow> More ms k3))"

definition pending_input :: "ws_client \<Rightarrow> nat" where
  "pending_input k = length (wk_extra k) +
     sum_list (map (\<lambda>r. case r of Chunk bs again \<Rightarrow> length bs | Recv_error \<Rightarrow> 0) (wk_incoming k))"

lemma recv_all_size:
  "recv_all ins acc = Some (bs, rest) \<Longrightarrow>
   length bs + sum_list (map (\<lambda>r. case r of Chunk bs again \<Rightarrow> length bs | Recv_error \<Rightarrow> 0) rest) =
   length acc + sum_list (map (\<lambda>r. case r of Chunk bs again \<Rightarrow> length bs | Recv_error \<Rightarrow> 0) ins)"
  by (induction ins acc rule: recv_all.induct) (auto split: if_splits)

lemma client_handle_io:
  "client_handle_frame key f k = Inr (ms, k1) \<Longrightarrow> wk_extra k1 = wk_extra k \<and> wk_incoming k1 = wk_incoming k"
  by (auto simp: client_handle_frame_def client_data_def write_raw_def Let_def split: if_splits)

lemma client_round_less: "client_round key k = More ms k1 \<Longrightarrow> pending_input k1 < pending_input k"
  by (auto simp: client_round_def read_raw_def pending_input_def Let_def split: option.splits if_splits parse_result.splits sum.splits
      dest!: client_handle_io parse_frame_size recv_all_size)

text \<open>The messages of all rounds are returned, or lost with an exception.\<close>

function client_read_loop :: "u32 \<Rightarrow> ws_frame list \<Rightarrow> ws_client \<Rightarrow> (ws_client_error + ws_frame list) \<times> ws_client" where
  "client_read_loop key msgs k =
    (case client_round key k of
       Stop (Some e) k1 \<Rightarrow> (Inl e, k1)
     | Stop None k1 \<Rightarrow> (Inr msgs, k1)
     | More ms k1 \<Rightarrow> if wk_extra k1 = [] then (Inr (msgs @ ms), k1) else client_read_loop key (msgs @ ms) k1)"
  by pat_completeness auto
termination by (relation "measure (\<lambda>(key, msgs, k). pending_input k)") (auto dest: client_round_less)

declare client_read_loop.simps [simp del]

definition client_read :: "u32 \<Rightarrow> ws_client \<Rightarrow> (ws_client_error + ws_frame list) \<times> ws_client" where
  "client_read key k = (if \<not> wk_ready k then (Inl Not_ready, k) else client_read_loop key [] k)"


section \<open>The opening handshake\<close>

definition client_request :: "string \<Rightarrow> http_headers \<Rightarrow> string" where
  "client_request endpoint hs =
    lines_text ((''GET /'' @ endpoint @ '' HTTP/1.1'') # map (\<lambda>(k, v). k @ '': '' @ v) hs @ [[]])"

text \<open>
  \<open>read_handshake\<close> reads until there is an empty line; \<open>None\<close> stands for a server that sends nothing more
  before that. All lines behind the first are headers, those behind the empty line too.
\<close>

function read_lines :: "string list \<Rightarrow> ws_client \<Rightarrow> (ws_client_error + string list \<times> ws_client) option" where
  "read_lines ls k =
    (if [] \<in> set ls then Some (Inr (ls, k))
     else if wk_incoming k = [] then None
     else case read_raw k of
       None \<Rightarrow> Some (Inl Recv_failed)
     | Some (bs, k1) \<Rightarrow>
         (case get_lines bs (wk_extra k1) of (new, r) \<Rightarrow> read_lines (ls @ new) (k1\<lparr>wk_extra := r\<rparr>)))"
  by pat_completeness auto
termination
proof (relation "measure (\<lambda>(ls, k). length (wk_incoming k))", goal_cases)
  case (2 ls k x bs k1 new r)
  have "recv_all ins acc = Some (b, rest) \<Longrightarrow> length rest \<le> length ins \<and> (ins \<noteq> [] \<longrightarrow> length rest < length ins)"
    for ins acc b rest
    by (induction ins acc rule: recv_all.induct) (auto split: if_splits)
  with 2 show ?case by (auto simp: read_raw_def split: option.splits)
qed simp

declare read_lines.simps [simp del]

definition response_headers :: "string list \<Rightarrow> http_headers" where
  "response_headers ls = fold (\<lambda>l. header_emplace (parse_http_header l)) ls []"

definition validate_handshake :: "bytes \<Rightarrow> status_line \<Rightarrow> http_headers \<Rightarrow> string option" where
  "validate_handshake sec_key sl hs =
    (let got = get_header ''Sec-WebSocket-Accept'' hs
     in if sl_status_code sl \<noteq> 101 then Some ''Response status code was not 101''
        else if \<not> case_insensitive_equal (get_header ''Upgrade'' hs) ''websocket''
        then Some ''Upgrade header not present or malformed''
        else if \<not> case_insensitive_equal (get_header ''Connection'' hs) ''Upgrade''
        then Some ''Connection header not present or malformed''
        else if got = [] then Some ''Sec-WebSocket-Accept not present''
        else if compute_accept_key (b64_encode sec_key) \<noteq> got
        then Some ''Sec-WebSocket-Accept from response was invalid''
        else if get_header ''Sec-WebSocket-Extensions'' hs \<noteq> [] then Some ''Server requested WebSocket Extensions''
        else if get_header ''Sec-WebSocket-Protocol'' hs \<noteq> [] then Some ''Server requested WebSocket Subprotocols''
        else None)"

text \<open>An exception of the reading or of the status line leaves \<open>connecting\<close> set.\<close>

definition client_connect ::
  "bytes \<Rightarrow> string \<Rightarrow> ws_client \<Rightarrow> ((ws_client_error + unit) \<times> ws_client) option" where
  "client_connect random_key endpoint k =
    (if wk_ready k \<or> wk_connecting k then Some (Inl In_progress, k)
     else
       (let k1 = k\<lparr>wk_connecting := True, wk_sec_ws_key := random_key,
                   wk_http_headers := set_header ''Sec-WebSocket-Key'' (b64_encode random_key) (wk_http_headers k)\<rparr>;
            k2 = write_raw (bytes_of (client_request endpoint (wk_http_headers k1))) k1
        in case read_lines [] k2 of
             None \<Rightarrow> None
           | Some (Inl e) \<Rightarrow> Some (Inl e, k2)
           | Some (Inr (ls, k3)) \<Rightarrow>
               (case parse_status_line (hd ls) of
                  None \<Rightarrow> Some (Inl (Bad_response ''Invalid status line''), k3)
                | Some sl \<Rightarrow>
                    (case validate_handshake (wk_sec_ws_key k3) sl (response_headers (tl ls)) of
                       Some msg \<Rightarrow> Some (Inl (Bad_response msg), k3\<lparr>wk_connecting := False\<rparr>)
                     | None \<Rightarrow> Some (Inr (), k3\<lparr>wk_ready := True, wk_connecting := False\<rparr>)))))"

definition is_connected :: "ws_client \<Rightarrow> bool" where
  "is_connected k = (wk_ready k \<or> wk_connecting k)"

end
