(* ===== verification/WS_Opening.thy ===== *)
theory WS_Opening
  imports WS_Client WS_Reader_Props
begin

text \<open>
  The two ends of a WebSocket together: the request of the client is accepted by the server and the
  server's answer by the client, however it is cut up, and what one end writes the other reads.
\<close>

section \<open>Header lines\<close>

definition token_text :: "string \<Rightarrow> bool" where
  "token_text s \<longleftrightarrow> (\<forall>c\<in>set s. \<not> c_isspace c)"

lemma dropWhile_token: "token_text s \<Longrightarrow> dropWhile c_isspace s = s"
  by (cases s) (simp_all add: token_text_def)

lemma trim_token: "token_text s \<Longrightarrow> trim s = s"
  using dropWhile_token [of "rev s"] dropWhile_token [of s] by (simp add: trim_def token_text_def)

lemma collapse_token: "token_text s \<Longrightarrow> collapse_lws s = s"
proof -
  have "token_text s \<Longrightarrow> collapse_from False s = s" by (induction s) (simp_all add: token_text_def)
  then show "token_text s \<Longrightarrow> collapse_lws s = s" by (simp add: collapse_lws_def)
qed

lemma space_is_space: "c_isspace (CHR '' '')"
  by (simp add: c_isspace_def char_code_def)

lemma trim_space_token: "token_text s \<Longrightarrow> trim (CHR '' '' # s) = s"
  using trim_token [of s] space_is_space by (simp add: trim_def)

definition header_line :: "string \<times> string \<Rightarrow> string" where
  "header_line kv = fst kv @ '': '' @ snd kv"

definition header_ok :: "string \<times> string \<Rightarrow> bool" where
  "header_ok kv \<longleftrightarrow> fst kv \<noteq> [] \<and> token_text (fst kv) \<and> CHR '':'' \<notin> set (fst kv) \<and> token_text (snd kv)"

lemma parse_header_line: "header_ok kv \<Longrightarrow> parse_http_header (header_line kv) = kv"
proof -
  assume h: "header_ok kv"
  let ?P = "\<lambda>c. c \<noteq> CHR '':''"
  have "takeWhile ?P (fst kv @ '': '' @ snd kv) = fst kv" "dropWhile ?P (fst kv @ '': '' @ snd kv) = '': '' @ snd kv"
    using h by (auto simp: header_ok_def takeWhile_append dropWhile_append)
  then show ?thesis using h
    by (simp add: parse_http_header_def header_line_def header_ok_def trim_token trim_space_token collapse_token)
qed

fun apart :: "http_headers \<Rightarrow> bool" where
  "apart [] = True"
| "apart ((k, v) # hs) = (list_all (\<lambda>(k', v'). \<not> case_insensitive_equal k k') hs \<and> apart hs)"

lemma fold_emplace:
  "apart (acc @ hs) \<Longrightarrow> fold header_emplace hs acc = acc @ hs"
proof (induction hs arbitrary: acc)
  case (Cons kv hs)
  obtain k v where kv: "kv = (k, v)" by fastforce
  have "find (\<lambda>(k', v). case_insensitive_equal k' k) acc = None"
    using Cons.prems unfolding kv by (induction acc) auto
  then have "header_emplace kv acc = acc @ [kv]" by (simp add: header_emplace_def header_find_def kv)
  with Cons show ?case by simp
qed simp

lemma header_lines_parse:
  assumes "\<forall>kv\<in>set hs. header_ok kv" "apart hs"
  shows "header_lines (map header_line hs @ [[]]) = hs"
    "response_headers (map header_line hs @ [[]]) = hs @ [([], [])]"
proof -
  have ne: "header_line kv \<noteq> []" for kv by (simp add: header_line_def)
  have parse: "fold (\<lambda>l. header_emplace (parse_http_header l)) (map header_line hs) acc = fold header_emplace hs acc" for acc
    using assms(1) by (induction hs arbitrary: acc) (simp_all add: parse_header_line)
  have "takeWhile (\<lambda>l. l \<noteq> []) (map header_line hs @ [[]]) = map header_line hs"
    using ne by (induction hs) auto
  then show "header_lines (map header_line hs @ [[]]) = hs"
    using parse fold_emplace [of "[]" hs] assms(2) by (simp add: header_lines_def)
  have "header_find [] hs = None"
    using assms(1) by (induction hs) (auto simp: header_find_def header_ok_def case_insensitive_equal_def)
  then show "response_headers (map header_line hs @ [[]]) = hs @ [([], [])]"
    using parse fold_emplace [of "[]" hs] assms(2)
    by (simp add: response_headers_def header_emplace_def parse_http_header_def trim_def)
qed

section \<open>Base64 texts\<close>

lemma table_tokens: "list_all (\<lambda>c. \<not> c_isspace c) (CHR ''='' # encoding_table)"
  by code_simp

lemma b64_char_token: "\<not> c_isspace (b64_char w)"
proof -
  have "unat (w AND 0x3F) < length encoding_table"
    using and_3F_less [of w] by (simp add: encoding_table_def)
  then show ?thesis using table_tokens by (auto simp: b64_char_def list_all_iff)
qed

lemma b64_encode_token: "token_text (b64_encode bs)"
proof -
  have "\<not> c_isspace (CHR ''='')" using table_tokens by simp
  then show ?thesis
    by (induction bs rule: b64_encode.induct) (simp_all add: token_text_def Let_def b64_char_token)
qed

section \<open>The headers of both sides\<close>

lemmas ci_eval = case_insensitive_equal_def c_tolower_def c_isupper_def char_code_def

lemma client_headers:
  "set_header ''Sec-WebSocket-Key'' key (wk_http_headers (ws_client_new host p ver)) =
    [(''Connection'', ''Upgrade''), (''Host'', host @ '':'' @ show_nat (unat p)), (''Sec-WebSocket-Key'', key),
     (''Sec-WebSocket-Version'', ''13''), (''Upgrade'', ''websocket''), (''User-Agent'', ''AO-SDL/'' @ ver)]"
  by (simp add: ws_client_new_def header_less_def c_tolower_def c_isupper_def char_code_def)


section \<open>Reading lines chunk by chunk\<close>

lemma find_crlf_append: "find_crlf b = Some k \<Longrightarrow> find_crlf (b @ x) = Some k"
  by (induction b arbitrary: k rule: find_crlf.induct) (auto split: if_splits)

lemma find_crlf_bound: "find_crlf b = Some k \<Longrightarrow> k + 2 \<le> length b"
  by (induction b arbitrary: k rule: find_crlf.induct) (auto split: if_splits)

lemma line_loop_none: "find_crlf b = None \<Longrightarrow> line_loop b = ([], b)"
  by (subst line_loop.simps) simp

lemma line_loop_some:
  "find_crlf b = Some k \<Longrightarrow> line_loop b = (text_of (take k b) # fst (line_loop (drop (k + 2) b)), snd (line_loop (drop (k + 2) b)))"
  using find_crlf_bound [of b k] by (subst line_loop.simps) (auto split: prod.splits)

lemma line_loop_rest: "find_crlf (snd (line_loop b)) = None"
proof (induction b rule: line_loop.induct)
  case (1 b)
  then show ?case
  proof (cases "find_crlf b")
    case (Some k)
    then have "b \<noteq> []" by auto
    from 1 [OF this Some] show ?thesis by (simp add: line_loop_some [OF Some])
  qed (simp add: line_loop_none)
qed

lemma line_loop_append:
  "line_loop (b @ x) = (fst (line_loop b) @ fst (line_loop (snd (line_loop b) @ x)), snd (line_loop (snd (line_loop b) @ x)))"
proof (induction b rule: line_loop.induct)
  case (1 b)
  show ?case
  proof (cases "find_crlf b")
    case (Some k)
    have k: "k + 2 \<le> length b" using find_crlf_bound [OF Some] .
    then have "b \<noteq> []" by auto
    from 1 [OF this Some] k show ?thesis
      by (simp add: line_loop_some [OF Some] line_loop_some [OF find_crlf_append [OF Some]])
  qed (simp add: line_loop_none)
qed

lemma line_loop_Nil: "line_loop b = ([], []) \<Longrightarrow> b = []"
  by (cases "find_crlf b") (auto simp: line_loop_none line_loop_some)

definition chunks_of :: "bytes list \<Rightarrow> recv_result list" where
  "chunks_of chs = map (\<lambda>b. Chunk b False) chs"

lemma read_lines_chunks:
  assumes "[] \<notin> set acc" "wk_incoming k = chunks_of chs" "find_crlf (wk_extra k) = None"
    "line_loop (wk_extra k @ concat chs) = (ls @ [[]], [])" "[] \<notin> set ls"
  shows "\<exists>i. read_lines acc k = Some (Inr (acc @ ls @ [[]], k\<lparr>wk_extra := [], wk_incoming := i\<rparr>))"
  using assms
proof (induction chs arbitrary: acc k ls)
  case Nil
  then show ?case by (simp add: line_loop_none)
next
  case (Cons b chs)
  let ?x = "wk_extra k @ b"
  obtain l1 r where l1: "line_loop ?x = (l1, r)" by fastforce
  have both: "l1 @ fst (line_loop (r @ concat chs)) = ls @ [[]]" "snd (line_loop (r @ concat chs)) = []"
    using Cons.prems(4) line_loop_append [of ?x "concat chs"] by (simp_all add: l1)
  define k1 where "k1 = k\<lparr>wk_incoming := chunks_of chs, wk_extra := r\<rparr>"
  have round: "read_lines acc k = read_lines (acc @ l1) k1"
    using Cons.prems(1,2) l1 by (subst read_lines.simps) (simp add: chunks_of_def read_raw_def get_lines_def k1_def)
  show ?case
  proof (cases "fst (line_loop (r @ concat chs))" rule: rev_cases)
    case Nil
    then have "line_loop (r @ concat chs) = ([], [])" using both(2) by (simp add: prod_eq_iff)
    then have "r @ concat chs = []" by (rule line_loop_Nil)
    then have "r = []" by simp
    moreover have "l1 = ls @ [[]]" using both(1) Nil by simp
    ultimately have "wk_extra k1 = []" "read_lines (acc @ l1) k1 = Some (Inr (acc @ ls @ [[]], k1))"
      by (simp add: k1_def) (simp add: \<open>l1 = ls @ [[]]\<close> read_lines.simps)
    then show ?thesis unfolding round by (intro exI [of _ "chunks_of chs"]) (simp add: k1_def)
  next
    case (snoc l2 y)
    then have ls: "ls = l1 @ l2" "y = []" using both(1) by auto
    have "\<exists>i. read_lines (acc @ l1) k1 = Some (Inr ((acc @ l1) @ l2 @ [[]], k1\<lparr>wk_extra := [], wk_incoming := i\<rparr>))"
      using Cons.prems(1,5) ls line_loop_rest [of ?x] l1 both(2) snoc
      by (intro Cons.IH) (auto simp: k1_def intro: prod_eqI)
    then show ?thesis unfolding round by (auto simp: ls k1_def)
  qed
qed


section \<open>The accept key\<close>

lemma length_sha1_compute: "length (sha1_compute sha1_init d) = 5"
proof -
  have step: "length (fst (sha1_transform h (load_block b))) = 5" if "length h = 5" for h b
    using sha1_transform_fips [OF that, of "load_block b"] by (simp add: fips_compress_def split: prod.splits)
  have "length h = 5 \<Longrightarrow> length (foldl (\<lambda>h b. fst (sha1_transform h (load_block b))) h bs) = 5" for h bs
    by (induction bs arbitrary: h) (simp_all add: step)
  then show ?thesis by (simp add: sha1_driver.compute_padded sha1_driver.compress_def sha1_init_def)
qed

lemma length_accept_key: "length (compute_accept_key key) = 28"
  by (simp add: compute_accept_key_def length_b64_encode sha1_raw_def length_to_bytes length_sha1_compute)

section \<open>Request and response\<close>

lemma token_plain: "token_text s \<Longrightarrow> plain_line s"
  by (auto simp: token_text_def plain_line_def c_isspace_def char_code_def)

lemma show_nat_token: "token_text (show_nat n)"
  using show_nat_digits [of n] by (auto simp: token_text_def c_isdigit_def c_isspace_def)

lemma plain_append: "plain_line (a @ b) \<longleftrightarrow> plain_line a \<and> plain_line b"
  by (auto simp: plain_line_def)

lemma header_line_plain: "header_ok kv \<Longrightarrow> plain_line (header_line kv)"
proof -
  assume "header_ok kv"
  then have "plain_line (fst kv)" "plain_line (snd kv)" by (simp_all add: header_ok_def token_plain)
  then show ?thesis by (simp add: header_line_def plain_line_def)
qed

lemma lines_of_text: "\<forall>l\<in>set ls. plain_line l \<Longrightarrow> line_loop (bytes_of (lines_text ls)) = (ls, [])"
  using line_loop_lines [of ls "[]"] by (simp add: plain_line_def bytes_of_def)

definition request_headers :: "string \<Rightarrow> u16 \<Rightarrow> string \<Rightarrow> string \<Rightarrow> http_headers" where
  "request_headers host p ver key =
    [(''Connection'', ''Upgrade''), (''Host'', host @ '':'' @ show_nat (unat p)), (''Sec-WebSocket-Key'', key),
     (''Sec-WebSocket-Version'', ''13''), (''Upgrade'', ''websocket''), (''User-Agent'', ''AO-SDL/'' @ ver)]"

lemma token_append: "token_text (a @ b) \<longleftrightarrow> token_text a \<and> token_text b"
  by (auto simp: token_text_def)

lemma request_headers_ok:
  assumes "token_text host" "token_text ver" "token_text key"
  shows "\<forall>kv\<in>set (request_headers host p ver key). header_ok kv" "apart (request_headers host p ver key)"
proof -
  have "header_ok (''Connection'', ''Upgrade'')" "header_ok (''Sec-WebSocket-Version'', ''13'')"
    "header_ok (''Upgrade'', ''websocket'')" by (simp_all add: header_ok_def token_text_def c_isspace_def char_code_def)
  moreover have "header_ok (''Host'', host @ '':'' @ show_nat (unat p))" "header_ok (''Sec-WebSocket-Key'', key)"
    "header_ok (''User-Agent'', ''AO-SDL/'' @ ver)"
    using assms show_nat_token by (simp_all add: header_ok_def token_append) (simp_all add: token_text_def c_isspace_def char_code_def)
  ultimately show "\<forall>kv\<in>set (request_headers host p ver key). header_ok kv" by (simp add: request_headers_def)
  show "apart (request_headers host p ver key)" by (simp add: request_headers_def ci_eval)
qed

lemma request_headers_get:
  "get_header ''Upgrade'' (request_headers host p ver key) = ''websocket''"
  "get_header ''Connection'' (request_headers host p ver key) = ''Upgrade''"
  "get_header ''Sec-WebSocket-Key'' (request_headers host p ver key) = key"
  "header_find ''Sec-WebSocket-Protocol'' (request_headers host p ver key) = None"
  "header_find ''Origin'' (request_headers host p ver key) = None"
  by (simp_all add: get_header_def header_find_def request_headers_def ci_eval)

definition response_pairs :: "ws_config \<Rightarrow> string \<Rightarrow> http_headers" where
  "response_pairs cfg accept =
    [(''Upgrade'', ''websocket''), (''Connection'', ''Upgrade''), (''Sec-WebSocket-Accept'', accept)] @
    (if cfg_cors_wildcard cfg then [(''Access-Control-Allow-Origin'', ''*'')] else [])"

lemma response_pairs_ok:
  assumes "token_text accept"
  shows "\<forall>kv\<in>set (response_pairs cfg accept). header_ok kv" "apart (response_pairs cfg accept)"
proof -
  have "header_ok (''Upgrade'', ''websocket'')" "header_ok (''Connection'', ''Upgrade'')"
    "header_ok (''Access-Control-Allow-Origin'', ''*'')" by (simp_all add: header_ok_def token_text_def c_isspace_def char_code_def)
  moreover have "header_ok (''Sec-WebSocket-Accept'', accept)"
    using assms by (simp add: header_ok_def) (simp add: token_text_def c_isspace_def char_code_def)
  ultimately show "\<forall>kv\<in>set (response_pairs cfg accept). header_ok kv" by (simp add: response_pairs_def)
  show "apart (response_pairs cfg accept)" by (simp add: response_pairs_def ci_eval)
qed

lemma upgrade_response_lines:
  "upgrade_response accept [] (cors_lines cfg (request_headers host p ver key)) =
   lines_text (''HTTP/1.1 101 Switching Protocols'' # map header_line (response_pairs cfg accept) @ [[]])"
  by (simp add: upgrade_response_def cors_lines_def request_headers_get response_pairs_def header_line_def)


text \<open>The two texts by lines.\<close>

definition request_text :: "string \<Rightarrow> http_headers \<Rightarrow> string list" where
  "request_text endpoint hs = (''GET /'' @ endpoint @ '' HTTP/1.1'') # map header_line hs @ [[]]"

definition response_text :: "ws_config \<Rightarrow> string \<Rightarrow> string list" where
  "response_text cfg acc = ''HTTP/1.1 101 Switching Protocols'' # map header_line (response_pairs cfg acc)"

lemma request_text_lines: "client_request endpoint hs = lines_text (request_text endpoint hs)"
proof -
  have "header_line = (\<lambda>(k, v). k @ '': '' @ v)" by (auto simp: header_line_def)
  then show ?thesis by (simp only: client_request_def request_text_def)
qed

lemma request_text_plain:
  "token_text endpoint \<Longrightarrow> \<forall>kv\<in>set hs. header_ok kv \<Longrightarrow> \<forall>l\<in>set (request_text endpoint hs). plain_line l"
proof -
  assume "token_text endpoint" "\<forall>kv\<in>set hs. header_ok kv"
  moreover from this(1) have "plain_line (''GET /'' @ endpoint @ '' HTTP/1.1'')" using token_plain by (auto simp: plain_line_def)
  ultimately show ?thesis
    using header_line_plain by (auto simp: request_text_def) (simp add: plain_line_def)
qed

lemma response_text_plain:
  "\<forall>kv\<in>set (response_pairs cfg acc). header_ok kv \<Longrightarrow> \<forall>l\<in>set (response_text cfg acc @ [[]]). plain_line l"
  using header_line_plain by (auto simp: response_text_def) (simp_all add: plain_line_def)

lemma response_text_no_blank: "[] \<notin> set (response_text cfg acc)"
  by (auto simp: response_text_def header_line_def)

lemma get_line:
  "token_text endpoint \<Longrightarrow> parse_request_line (''GET /'' @ endpoint @ '' HTTP/1.1'') =
    Some \<lparr>rl_method = ''GET'', rl_uri = CHR ''/'' # endpoint, rl_http_version = ''HTTP/1.1''\<rparr>"
proof -
  assume "token_text endpoint"
  then have "CHR '' '' \<notin> set endpoint" using space_is_space by (auto simp: token_text_def)
  then show ?thesis
    by (auto simp: parse_request_line_def after_space_def before_space_def takeWhile_append dropWhile_append)
qed

lemma b64_key:
  assumes "key \<noteq> []"
  shows "b64_encode key \<noteq> []" "token_text (b64_encode key)" "token_text (compute_accept_key (b64_encode key))"
    "compute_accept_key (b64_encode key) \<noteq> []"
proof -
  show "b64_encode key \<noteq> []" using assms by (cases key rule: b64_encode.cases) (simp_all add: Let_def)
  show "token_text (b64_encode key)" "token_text (compute_accept_key (b64_encode key))"
    by (simp_all add: b64_encode_token compute_accept_key_def)
  show "compute_accept_key (b64_encode key) \<noteq> []"
    using length_accept_key [of "b64_encode key"] by (auto simp flip: length_0_conv)
qed

text \<open>The server on the client's request.\<close>

lemma server_accepts_request:
  assumes "token_text host" "token_text ver" "token_text endpoint" "token_text key" "key \<noteq> []"
    "wc_recv_buf c = bytes_of (client_request endpoint (request_headers host p ver key))" "wc_extra c = []"
  shows "perform_server_handshake os cfg (\<lambda>_. True) now c =
    Inr (True, (real_address os cfg (request_headers host p ver key) (c\<lparr>wc_recv_buf := [], wc_last_data_at := now, wc_extra := []\<rparr>))
      \<lparr>wc_subprotocol := [], wc_handshake := True\<rparr>, [bytes_of (lines_text (response_text cfg (compute_accept_key key) @ [[]]))])"
proof -
  let ?hs = "request_headers host p ver key"
  let ?ls = "request_text endpoint ?hs"
  note ok = request_headers_ok [OF assms(1,2,4), of p]
  have split: "get_lines (wc_recv_buf c) [] = (?ls, [])"
    using lines_of_text [OF request_text_plain [OF assms(3) ok(1)]] assms(6) by (simp add: get_lines_def request_text_lines)
  have ne: "wc_recv_buf c \<noteq> []" using assms(6) by (simp add: request_text_lines request_text_def lines_text_def bytes_of_def)
  have hl: "header_lines (tl ?ls) = ?hs" "hd ?ls = ''GET /'' @ endpoint @ '' HTTP/1.1''" "[] \<in> set ?ls"
    using header_lines_parse(1) [OF ok] by (simp_all add: request_text_def)
  have tok: "has_upgrade_token ''Upgrade''" "case_insensitive_equal ''websocket'' ''websocket''" by code_simp+
  have proto: "select_protocol cfg ?hs = []" by (simp add: select_protocol_def request_headers_get)
  have r: "bytes_of (upgrade_response (compute_accept_key key) [] (cors_lines cfg ?hs)) =
      bytes_of (lines_text (response_text cfg (compute_accept_key key) @ [[]]))"
    by (simp only: upgrade_response_lines response_text_def append_Cons)
  show ?thesis
    using ne assms(5,7) split get_line [OF assms(3)]
    by (simp add: perform_server_handshake_def drain_client_def hl Let_def request_headers_get tok proto r)
qed

text \<open>The client on the server's answer.\<close>

lemma connect_reads:
  assumes "\<not> wk_ready k" "\<not> wk_connecting k" "set_header ''Sec-WebSocket-Key'' (b64_encode key) (wk_http_headers k) = hs"
    "k2 = write_raw (bytes_of (client_request endpoint hs))
      (k\<lparr>wk_connecting := True, wk_sec_ws_key := key, wk_http_headers := hs\<rparr>)"
    "read_lines [] k2 = Some (Inr (ls, k3))" "parse_status_line (hd ls) = Some sl"
    "validate_handshake (wk_sec_ws_key k3) sl (response_headers (tl ls)) = None"
  shows "client_connect key endpoint k = Some (Inr (), k3\<lparr>wk_ready := True, wk_connecting := False\<rparr>)"
proof -
  have h: "wk_http_headers (k\<lparr>wk_connecting := True, wk_sec_ws_key := key, wk_http_headers := hs\<rparr>) = hs" by simp
  show ?thesis
    by (simp only: client_connect_def Let_def assms(1-3) simp_thms if_False h assms(4) [symmetric] assms(5-7)
        option.case sum.case prod.case)
qed

lemma client_accepts_response:
  assumes "key \<noteq> []" "concat chs = bytes_of (lines_text (response_text cfg (compute_accept_key (b64_encode key)) @ [[]]))"
  shows "\<exists>k. client_connect key endpoint ((ws_client_new host p ver)\<lparr>wk_incoming := chunks_of chs\<rparr>) = Some (Inr (), k) \<and>
    wk_ready k \<and> wk_extra k = []"
proof -
  let ?acc = "compute_accept_key (b64_encode key)" and ?k = "(ws_client_new host p ver)\<lparr>wk_incoming := chunks_of chs\<rparr>"
  let ?hs = "request_headers host p ver (b64_encode key)" and ?rs = "response_text cfg (compute_accept_key (b64_encode key))"
  define k2 where "k2 = write_raw (bytes_of (client_request endpoint ?hs))
    (?k\<lparr>wk_connecting := True, wk_sec_ws_key := key, wk_http_headers := ?hs\<rparr>)"
  have k2: "wk_incoming k2 = chunks_of chs" "wk_extra k2 = []" "wk_sec_ws_key k2 = key"
    by (simp_all add: k2_def write_raw_def ws_client_new_def)
  note rok = response_pairs_ok [OF b64_key(3) [OF assms(1)], of cfg]
  obtain i where lines: "read_lines [] k2 = Some (Inr (?rs @ [[]], k2\<lparr>wk_extra := [], wk_incoming := i\<rparr>))"
    using read_lines_chunks [of "[]" k2 chs ?rs] k2 lines_of_text [OF response_text_plain [OF rok(1)]] assms(2)
      response_text_no_blank by auto
  have sl: "parse_status_line (hd (?rs @ [[]])) =
      Some \<lparr>sl_http_version = ''HTTP/1.1'', sl_status_code = 101, sl_status_reason = ''Switching Protocols''\<rparr>"
    unfolding response_text_def by (simp only: append_Cons list.sel) code_simp
  have "response_headers (tl (?rs @ [[]])) = response_pairs cfg ?acc @ [([], [])]"
    using header_lines_parse(2) [OF rok] by (simp add: response_text_def)
  moreover have "validate_handshake key sl' (response_pairs cfg ?acc @ [([], [])]) = None" if "sl_status_code sl' = 101" for sl'
    using that b64_key(4) [OF assms(1)]
    by (simp add: validate_handshake_def get_header_def header_find_def response_pairs_def ci_eval Let_def)
  ultimately have valid: "validate_handshake (wk_sec_ws_key (k2\<lparr>wk_extra := [], wk_incoming := i\<rparr>))
      \<lparr>sl_http_version = ''HTTP/1.1'', sl_status_code = 101, sl_status_reason = ''Switching Protocols''\<rparr>
      (response_headers (tl (?rs @ [[]]))) = None"
    using k2(3) by (simp del: list.sel)
  have idle: "\<not> wk_ready ?k" "\<not> wk_connecting ?k" by (simp_all add: ws_client_new_def)
  have "wk_http_headers ?k = wk_http_headers (ws_client_new host p ver)" by simp
  then have hs: "set_header ''Sec-WebSocket-Key'' (b64_encode key) (wk_http_headers ?k) = ?hs"
    by (simp only: client_headers request_headers_def)
  have "client_connect key endpoint ?k =
      Some (Inr (), k2\<lparr>wk_extra := [], wk_incoming := i, wk_ready := True, wk_connecting := False\<rparr>)"
    using connect_reads [OF idle hs k2_def lines sl valid] by simp
  then show ?thesis by auto
qed

text \<open>C9: The opening handshake works: the server accepts what a client sends, whatever its host, version,
end point and random key, and the client accepts the server's answer, whatever way it is cut up; no
byte of either text is left over.\<close>

theorem ws_opening_handshake:
  assumes "token_text host" "token_text ver" "token_text endpoint"
    "wc_recv_buf c = bytes_of (client_request endpoint
       (set_header ''Sec-WebSocket-Key'' (b64_encode key) (wk_http_headers (ws_client_new host p ver))))"
    "wc_extra c = []" "key \<noteq> []"
  shows "\<exists>resp d. perform_server_handshake os cfg (\<lambda>_. True) now c = Inr (True, d, [resp]) \<and>
    wc_handshake d \<and> wc_subprotocol d = [] \<and> wc_extra d = [] \<and>
    (\<forall>chs. concat chs = resp \<longrightarrow>
      (\<exists>k. client_connect key endpoint ((ws_client_new host p ver)\<lparr>wk_incoming := chunks_of chs\<rparr>) = Some (Inr (), k) \<and>
        wk_ready k \<and> wk_extra k = []))"
proof -
  have hs: "set_header ''Sec-WebSocket-Key'' (b64_encode key) (wk_http_headers (ws_client_new host p ver)) =
      request_headers host p ver (b64_encode key)"
    by (simp only: client_headers request_headers_def)
  let ?d = "real_address os cfg (request_headers host p ver (b64_encode key))
    (c\<lparr>wc_recv_buf := [], wc_last_data_at := now, wc_extra := []\<rparr>)"
  let ?resp = "bytes_of (lines_text (response_text cfg (compute_accept_key (b64_encode key)) @ [[]]))"
  have "perform_server_handshake os cfg (\<lambda>_. True) now c =
      Inr (True, ?d\<lparr>wc_subprotocol := [], wc_handshake := True\<rparr>, [?resp])"
    using server_accepts_request [OF assms(1-3) b64_key(2,1) [OF assms(6)]] assms(4,5) by (simp add: hs)
  moreover have "wc_extra ?d = []" by (simp add: real_address_def split: option.splits)
  moreover note client_accepts_response [OF assms(6)]
  ultimately show ?thesis by (intro exI [of _ ?resp] exI [of _ "?d\<lparr>wc_subprotocol := [], wc_handshake := True\<rparr>"]) simp
qed

definition demo_upgrade :: ws_conn where
  "demo_upgrade = ws_conn_new\<lparr>wc_recv_buf := bytes_of (client_request ''ws'' (set_header ''Sec-WebSocket-Key''
     (b64_encode [1]) (wk_http_headers (ws_client_new ''localhost'' 8080 ''1''))))\<rparr>"

theorem ws_opening_handshake_witness:
  "\<exists>resp d. perform_server_handshake demo_inet demo_ws_config (\<lambda>_. True) 0 demo_upgrade = Inr (True, d, [resp]) \<and>
    (\<exists>k. client_connect [1] ''ws'' ((ws_client_new ''localhost'' 8080 ''1'')\<lparr>wk_incoming := chunks_of [resp]\<rparr>) = Some (Inr (), k) \<and> wk_ready k)"
proof -
  have t: "token_text ''localhost''" "token_text ''1''" "token_text ''ws''"
    by (simp_all add: token_text_def c_isspace_def char_code_def)
  have c: "wc_recv_buf demo_upgrade = bytes_of (client_request ''ws'' (set_header ''Sec-WebSocket-Key''
     (b64_encode [1]) (wk_http_headers (ws_client_new ''localhost'' 8080 ''1''))))" "wc_extra demo_upgrade = []"
    by (simp_all only: demo_upgrade_def ws_conn.simps ws_conn_new_def)
  obtain resp d where r: "perform_server_handshake demo_inet demo_ws_config (\<lambda>_. True) 0 demo_upgrade = Inr (True, d, [resp])"
    and k: "\<forall>chs. concat chs = resp \<longrightarrow> (\<exists>k. client_connect [1] ''ws''
        ((ws_client_new ''localhost'' 8080 ''1'')\<lparr>wk_incoming := chunks_of chs\<rparr>) = Some (Inr (), k) \<and> wk_ready k \<and> wk_extra k = [])"
    using ws_opening_handshake [OF t c, of demo_inet demo_ws_config 0] by blast
  from k [rule_format, of "[resp]"] r show ?thesis by auto
qed

section \<open>What the client reads\<close>

lemma small_length_code:
  assumes "n \<le> 125"
  shows "unat (ucast ((of_nat n :: u64) AND 0xFF) :: u8) = n"
proof -
  have "take_bit 8 n = n" using assms by (simp add: take_bit_nat_eq_self_iff)
  moreover have "(of_nat n :: u64) AND 0xFF = take_bit 8 (of_nat n)" by (simp add: take_bit_eq_mask mask_eq_exp_minus_1)
  moreover have "take_bit 8 (of_nat n :: u64) = of_nat (take_bit 8 n)" by (simp only: take_bit_of_nat)
  moreover have "unat (of_nat n :: u64) = n" using assms by (simp add: unat_of_nat)
  ultimately show ?thesis by (simp add: unsigned_ucast_eq)
qed

lemma text_frame_ok: "length d < 2 ^ 63 \<Longrightarrow> frame_ok (text_frame d)"
proof -
  assume d: "length d < 2 ^ 63"
  then have len: "unat (of_nat (length d) :: u64) = length d" by (simp add: unat_of_nat)
  have small: "(of_nat (length d) :: u64) \<le> 125 \<longleftrightarrow> length d \<le> 125"
    "(of_nat (length d) :: u64) \<le> 0xFFFF \<longleftrightarrow> length d \<le> 65535" using len by (simp_all add: word_le_nat_alt)
  show ?thesis
  proof (cases "length d \<le> 125")
    case True
    let ?c = "ucast ((of_nat (length d) :: u64) AND 0xFF) :: u8"
    have c: "unat ?c = length d" using small_length_code [OF True] .
    then have "?c \<noteq> 126" "?c \<noteq> 127" "?c < 126" using True by (auto simp: word_less_nat_alt)
    then show ?thesis using True c d len small
      by (simp add: text_frame_def frame_ok_def ws_frame_new_def opcode_defs length_code_def)
  qed (use d len small in \<open>auto simp: text_frame_def frame_ok_def ws_frame_new_def opcode_defs length_code_def\<close>)
qed

lemma text_frame_unmasked: "ws_serialize (text_frame d) ! 1 AND 0x80 = 0" if "length d < 2 ^ 63"
  using second_byte(1) [OF code_small [OF text_frame_ok [OF that]], of False]
  by (simp add: serialize_parts text_frame_def ws_frame_new_def)

lemma client_round_text:
  assumes "wk_incoming k = []" "wk_extra k = ws_serialize (text_frame d) @ x" "\<not> wk_in_fragment k" "length d < 2 ^ 63"
  shows "client_round key k = More [received (text_frame d)] (k\<lparr>wk_extra := x, wk_incoming := []\<rparr>)"
proof -
  let ?w = "ws_serialize (text_frame d)"
  have p: "parse_frame (?w @ x) = Parsed (received (text_frame d)) (length ?w)"
    by (rule parse_serialize [OF text_frame_ok [OF assms(4)]])
  have two: "2 \<le> length ?w" by (simp add: serialize_parts)
  then have "(?w @ x) ! 1 = ?w ! 1" by (auto simp: nth_append)
  then have "\<not> (?w @ x) ! 1 AND 0x80 \<noteq> 0" using text_frame_unmasked [OF assms(4)] by simp
  then show ?thesis using assms p two
    by (simp add: client_round_def read_raw_def Let_def client_handle_frame_def client_data_def received_def
        text_frame_def ws_frame_new_def opcode_defs)
qed

lemma client_loop_more:
  "client_round key k = More ms k1 \<Longrightarrow> wk_extra k1 \<noteq> [] \<Longrightarrow>
   client_read_loop key msgs k = client_read_loop key (msgs @ ms) k1"
  "client_round key k = More ms k1 \<Longrightarrow> wk_extra k1 = [] \<Longrightarrow> client_read_loop key msgs k = (Inr (msgs @ ms), k1)"
  by (simp_all add: client_read_loop.simps [of key msgs k])

lemma client_loop_texts:
  assumes "wk_incoming k = []" "wk_extra k = concat (map (\<lambda>d. ws_serialize (text_frame d)) ds) @ x"
    "\<not> wk_in_fragment k" "\<forall>d\<in>set ds. length d < 2 ^ 63" "ds \<noteq> []"
  shows "client_read_loop key msgs k =
    (let k1 = k\<lparr>wk_extra := x, wk_incoming := []\<rparr>; ms = msgs @ map (\<lambda>d. received (text_frame d)) ds
     in if x = [] then (Inr ms, k1) else client_read_loop key ms k1)"
  using assms
proof (induction ds arbitrary: k msgs)
  case (Cons d ds)
  let ?rest = "concat (map (\<lambda>d. ws_serialize (text_frame d)) ds) @ x"
  let ?k1 = "k\<lparr>wk_extra := ?rest, wk_incoming := []\<rparr>"
  have r: "client_round key k = More [received (text_frame d)] ?k1"
    using Cons.prems by (intro client_round_text) simp_all
  show ?case
  proof (cases "ds = []")
    case True
    then show ?thesis by (subst client_read_loop.simps) (simp add: r Let_def)
  next
    case False
    then obtain e es where "ds = e # es" by (cases ds) auto
    then have "?rest \<noteq> []" using serialize_not_Nil by simp
    then have "client_read_loop key msgs k = client_read_loop key (msgs @ [received (text_frame d)]) ?k1"
      using client_loop_more(1) [OF r] by simp
    also have "\<dots> = (let k1 = ?k1\<lparr>wk_extra := x, wk_incoming := []\<rparr>;
        ms = (msgs @ [received (text_frame d)]) @ map (\<lambda>d. received (text_frame d)) ds
       in if x = [] then (Inr ms, k1) else client_read_loop key ms k1)"
      using Cons.prems False by (intro Cons.IH) simp_all
    finally show ?thesis by (simp add: Let_def)
  qed
qed simp

lemma client_read_load:
  assumes "wk_incoming k = [Chunk b False]" "wk_extra k = []" "wk_ready k"
  shows "client_read key k = client_read_loop key [] (k\<lparr>wk_extra := b, wk_incoming := []\<rparr>)"
proof -
  have "read_raw k = read_raw (k\<lparr>wk_extra := b, wk_incoming := []\<rparr>)"
    using assms(1,2) by (simp add: read_raw_def)
  moreover have "recv_all (wk_incoming k) (wk_extra k) \<noteq> None" using assms(1) by simp
  ultimately have "client_round key k = client_round key (k\<lparr>wk_extra := b, wk_incoming := []\<rparr>)"
    by (auto simp: client_round_def read_raw_def split: option.splits)
  then show ?thesis using assms(3) by (simp add: client_read_def client_read_loop.simps)
qed

lemma close_frame_ok: "frame_ok (close_frame code msg)"
proof -
  have n: "2 + min (length msg) 123 \<le> 125" by simp
  then show ?thesis
    by (auto simp: close_frame_def frame_ok_def ws_frame_new_def opcode_defs Let_def be16_def bytes_of_def unat_of_nat
        word_less_nat_alt unat_word_ariths min_def word_unat_eq_iff)
qed

lemma close_frame_unmasked: "ws_serialize (close_frame code msg) ! 1 AND 0x80 = 0"
  using second_byte(1) [OF code_small [OF close_frame_ok], where m = False, of code msg]
  by (simp add: serialize_parts close_frame_def ws_frame_new_def Let_def)

lemma client_round_close:
  assumes "wk_incoming k = []" "wk_extra k = ws_serialize (close_frame code msg)"
  shows "\<exists>k1. client_round key k = Stop (Some Closed_by_server) k1"
proof -
  let ?w = "ws_serialize (close_frame code msg)"
  have p: "parse_frame ?w = Parsed (received (close_frame code msg)) (length ?w)"
    using parse_serialize [OF close_frame_ok, of code msg "[]"] by simp
  have "f_opcode (received (close_frame code msg)) = CLOSE" by (simp add: close_frame_def Let_def)
  then show ?thesis using assms p close_frame_unmasked [of code msg] parse_frame_size [OF p]
    by (simp add: client_round_def read_raw_def Let_def client_handle_frame_def)
qed

text \<open>The client reads exactly the texts that the server sent, in order, when they arrive together; but when a
close frame arrives with them, all of them are lost, the reason of a kick or a ban for one.\<close>

theorem ws_client_reads_texts:
  assumes "wk_ready k" "wk_extra k = []" "\<not> wk_in_fragment k" "\<forall>d\<in>set ds. length d < 2 ^ 63" "ds \<noteq> []"
  shows "(\<exists>ms k'. client_read key (k\<lparr>wk_incoming := [Chunk (concat (map (\<lambda>d. ws_serialize (text_frame d)) ds)) False]\<rparr>) = (Inr ms, k') \<and>
      map f_data ms = ds \<and> wk_extra k' = [] \<and> wk_ready k') \<and>
    (\<exists>k'. client_read key (k\<lparr>wk_incoming := [Chunk (concat (map (\<lambda>d. ws_serialize (text_frame d)) ds) @
        ws_serialize (close_frame code msg)) False]\<rparr>) = (Inl Closed_by_server, k'))"
proof -
  let ?b = "concat (map (\<lambda>d. ws_serialize (text_frame d)) ds)" and ?c = "ws_serialize (close_frame code msg)"
  let ?k = "\<lambda>b. k\<lparr>wk_incoming := [Chunk b False]\<rparr>" and ?l = "\<lambda>b. k\<lparr>wk_extra := b, wk_incoming := []\<rparr>"
  have load: "client_read key (?k b) = client_read_loop key [] (?l b)" for b
  proof -
    have "(?k b)\<lparr>wk_extra := b, wk_incoming := []\<rparr> = ?l b" by simp
    then show ?thesis using client_read_load [of "?k b" b key] assms(1,2) by simp
  qed
  have texts: "client_read_loop key [] (?l (?b @ x)) =
    (let k1 = (?l (?b @ x))\<lparr>wk_extra := x, wk_incoming := []\<rparr>; ms = map (\<lambda>d. received (text_frame d)) ds
     in if x = [] then (Inr ms, k1) else client_read_loop key ms k1)" for x
    using client_loop_texts [of "?l (?b @ x)" ds x key "[]"] assms(3-5) by simp
  have data: "f_data (text_frame d) = d" for d by (simp add: text_frame_def)
  have one: "client_read key (?k ?b) = (Inr (map (\<lambda>d. received (text_frame d)) ds), (?l ?b)\<lparr>wk_extra := [], wk_incoming := []\<rparr>)"
    using load [of ?b] texts [of "[]"] by simp
  obtain k1 where "client_round key ((?l (?b @ ?c))\<lparr>wk_extra := ?c, wk_incoming := []\<rparr>) = Stop (Some Closed_by_server) k1"
    using client_round_close [of "(?l (?b @ ?c))\<lparr>wk_extra := ?c, wk_incoming := []\<rparr>" code msg key] by auto
  then have "client_read key (?k (?b @ ?c)) = (Inl Closed_by_server, k1)"
    unfolding load texts using serialize_not_Nil by (simp add: Let_def client_read_loop.simps)
  then show ?thesis using one assms(1) by (auto simp: data comp_def)
qed

theorem ws_client_reads_texts_witness:
  "\<exists>k'. client_read 0 ((ws_client_new ''h'' 1 ''1'')\<lparr>wk_ready := True,
      wk_incoming := [Chunk (ws_serialize (text_frame (bytes_of ''KB#no#%'')) @ ws_serialize (close_frame 1000 [])) False]\<rparr>) =
    (Inl Closed_by_server, k')"
  using ws_client_reads_texts [of "(ws_client_new ''h'' 1 ''1'')\<lparr>wk_ready := True\<rparr>" "[bytes_of ''KB#no#%'']" 0 1000 "[]"]
  by (simp add: ws_client_new_def bytes_of_def)

end
