(* ===== verification/WS_Server.thy ===== *)
theory WS_Server
  imports WS_Handshake
begin

text \<open>
  The server's end of the WebSockets: include/net/WebSocketServer.h and engine/net/WebSocketServer.cpp.
  The map of the clients is the list of its pairs; new ids grow, so that the list has the order of the
  map. The sockets that \<open>accept\<close> hands out, the events of the poller, the clock (read once for each
  call) and whether a send succeeds are arguments. What is written to the sockets and the callbacks
  are the log \<open>ws_log\<close>, in order; metrics and log lines are not modelled.
\<close>

section \<open>State\<close>

datatype ws_event =
    Wire u64 bytes
  | Connected u64
  | Disconnected u64

record pending_close =
  pc_client :: u64
  pc_code :: u16
  pc_reason :: string

record ws_server =
  ws_clients :: "(u64 \<times> ws_conn) list"
  ws_fds :: "(int \<times> u64) list"
  ws_next_id :: u64
  ws_running :: bool
  ws_handshaked :: int
  ws_send_queue :: "(u64 \<times> bytes) list"
  ws_close_queue :: "pending_close list"
  ws_cfg :: ws_config
  ws_log :: "ws_event list"

record ws_env =
  we_inet :: inet
  we_ovf :: "int \<Rightarrow> int"
  we_now :: int
  we_sends :: "u64 \<Rightarrow> bytes \<Rightarrow> bool"

definition ws_server_new :: "ws_config \<Rightarrow> ws_server" where
  "ws_server_new cfg = \<lparr>ws_clients = [], ws_fds = [], ws_next_id = 1, ws_running = False, ws_handshaked = 0,
     ws_send_queue = [], ws_close_queue = [], ws_cfg = cfg, ws_log = []\<rparr>"

definition log_events :: "ws_event list \<Rightarrow> ws_server \<Rightarrow> ws_server" where
  "log_events es s = s\<lparr>ws_log := ws_log s @ es\<rparr>"

definition find_client :: "u64 \<Rightarrow> ws_server \<Rightarrow> ws_conn option" where
  "find_client c s = map_of (ws_clients s) c"

definition set_client :: "u64 \<Rightarrow> ws_conn \<Rightarrow> ws_server \<Rightarrow> ws_server" where
  "set_client c x s = s\<lparr>ws_clients := map (\<lambda>(d, y). (d, if d = c then x else y)) (ws_clients s)\<rparr>"

section \<open>Removing and closing\<close>

definition remove_client :: "u64 \<Rightarrow> ws_server \<Rightarrow> ws_server" where
  "remove_client c s =
    (case find_client c s of
       None \<Rightarrow> s
     | Some x \<Rightarrow>
         s\<lparr>ws_fds := (if 0 \<le> wc_fd x then AList.delete (wc_fd x) (ws_fds s) else ws_fds s),
           ws_clients := AList.delete c (ws_clients s),
           ws_handshaked := (if wc_handshake x then ws_handshaked s - 1 else ws_handshaked s)\<rparr>)"

definition remove_clients :: "u64 list \<Rightarrow> ws_server \<Rightarrow> ws_server" where
  "remove_clients dead s = log_events (map Disconnected dead) (fold remove_client dead s)"

definition wire_if_ok :: "ws_env \<Rightarrow> u64 \<Rightarrow> bytes \<Rightarrow> ws_event list" where
  "wire_if_ok e c bs = (if we_sends e c bs then [Wire c bs] else [])"

definition ws_send :: "ws_env \<Rightarrow> u64 \<Rightarrow> bytes \<Rightarrow> ws_server \<Rightarrow> ws_server" where
  "ws_send e c data s =
    (case find_client c s of
       None \<Rightarrow> s
     | Some x \<Rightarrow>
         if \<not> wc_handshake x then s
         else (let wire = ws_serialize (text_frame data)
               in if we_sends e c wire then log_events [Wire c wire] s else remove_clients [c] s))"

definition broadcast :: "ws_env \<Rightarrow> bytes \<Rightarrow> ws_server \<Rightarrow> ws_server" where
  "broadcast e data s =
    (let wire = ws_serialize (text_frame data);
         ids = map fst (filter (\<lambda>(c, x). wc_handshake x) (ws_clients s))
     in remove_clients (filter (\<lambda>c. \<not> we_sends e c wire) ids)
          (log_events (concat (map (\<lambda>c. wire_if_ok e c wire) ids)) s))"

definition close_client :: "ws_env \<Rightarrow> u64 \<Rightarrow> u16 \<Rightarrow> string \<Rightarrow> ws_server \<Rightarrow> ws_server" where
  "close_client e c code msg s =
    (case find_client c s of
       None \<Rightarrow> s
     | Some x \<Rightarrow> remove_clients [c] (log_events (wire_if_ok e c (ws_serialize (close_frame code msg))) s))"

section \<open>The queues\<close>

definition queue_send :: "u64 \<Rightarrow> bytes \<Rightarrow> ws_server \<Rightarrow> ws_server" where
  "queue_send c data s = s\<lparr>ws_send_queue := ws_send_queue s @ [(c, data)]\<rparr>"

definition close_client_deferred :: "u64 \<Rightarrow> u16 \<Rightarrow> string \<Rightarrow> ws_server \<Rightarrow> ws_server" where
  "close_client_deferred c code msg s =
    s\<lparr>ws_close_queue := ws_close_queue s @ [\<lparr>pc_client = c, pc_code = code, pc_reason = msg\<rparr>]\<rparr>"

definition can_receive :: "ws_server \<Rightarrow> u64 \<Rightarrow> bool" where
  "can_receive s c = (case find_client c s of Some x \<Rightarrow> wc_handshake x | None \<Rightarrow> False)"

text \<open>The closes first; a client whose send fails stays in the map until all sends are done.\<close>

definition flush_sends :: "ws_env \<Rightarrow> ws_server \<Rightarrow> ws_server" where
  "flush_sends e s =
    (let to_send = ws_send_queue s; to_close = ws_close_queue s;
         s1 = fold (\<lambda>p. close_client e (pc_client p) (pc_code p) (pc_reason p)) to_close
                (s\<lparr>ws_send_queue := [], ws_close_queue := []\<rparr>);
         sends = filter (\<lambda>(c, data). can_receive s1 c) to_send
     in if to_send = [] then s1
        else remove_clients (map fst (filter (\<lambda>(c, data). \<not> we_sends e c data) sends))
               (log_events (concat (map (\<lambda>(c, data). wire_if_ok e c data) sends)) s1))"

section \<open>Polling\<close>

record accepted =
  ac_fd :: int
  ac_addr :: string
  ac_incoming :: "recv_result list"

definition accept_client_socket :: "int \<Rightarrow> accepted \<Rightarrow> ws_server \<Rightarrow> ws_server" where
  "accept_client_socket now a s =
    (let c = ws_next_id s
     in s\<lparr>ws_next_id := c + 1,
          ws_fds := (if 0 \<le> ac_fd a then AList.update (ac_fd a) c (ws_fds s) else ws_fds s),
          ws_clients := ws_clients s @ [(c, ws_conn_new\<lparr>wc_id := c, wc_fd := ac_fd a, wc_incoming := ac_incoming a,
            wc_remote_addr := ac_addr a, wc_connected_at := now, wc_last_data_at := now\<rparr>)]\<rparr>)"

text \<open>An event of the poller: the descriptor, received bytes, and whether it reports a hang-up or an error.\<close>

record poll_event =
  pe_fd :: int
  pe_data :: bytes
  pe_hangup :: bool

definition dispatch_event :: "poll_event \<Rightarrow> ws_server \<Rightarrow> ws_server" where
  "dispatch_event ev s =
    (case map_of (ws_fds s) (pe_fd ev) of
       None \<Rightarrow> s
     | Some c \<Rightarrow>
         (case find_client c s of
            None \<Rightarrow> s
          | Some x \<Rightarrow> set_client c (x\<lparr>wc_recv_buf := wc_recv_buf x @ pe_data ev, wc_closed := wc_closed x \<or> pe_hangup ev\<rparr>) s))"

definition seconds :: "int \<Rightarrow> int" where
  "seconds n = n * 1000000000"

definition timed_out :: "ws_config \<Rightarrow> int \<Rightarrow> ws_conn \<Rightarrow> bool" where
  "timed_out cfg now x =
    (if \<not> wc_handshake x \<and> seconds (cfg_handshake_sec cfg) < now - wc_connected_at x then True
     else if wc_handshake x \<and> seconds (cfg_idle_sec cfg) < now - wc_last_data_at x then True
     else wc_extra x \<noteq> [] \<and> seconds (cfg_partial_frame_sec cfg) < now - wc_last_data_at x)"

text \<open>\<open>None\<close>: the header is not complete, and the client is left alone.\<close>

definition proxy_step :: "ws_env \<Rightarrow> ws_config \<Rightarrow> ws_conn \<Rightarrow> ws_conn option" where
  "proxy_step e cfg x =
    (if cfg_rp_proxy_protocol cfg \<and> \<not> wc_proxy_parsed x \<and> is_trusted (we_inet e) (wc_remote_addr x) (cfg_trusted cfg) then
       (let in_extra = wc_extra x \<noteq> []; buf = (if in_extra then wc_extra x else wc_recv_buf x)
        in if buf = [] then Some x
           else
             (let pp = parse_proxy_protocol (we_inet e) (we_ovf e) buf;
                  x1 = (if pp_valid pp \<and> pp_client_addr pp \<noteq> []
                        then x\<lparr>wc_remote_addr := pp_client_addr pp, wc_proxy_resolved := True\<rparr> else x);
                  rest = drop (pp_header_length pp) buf;
                  x2 = (if in_extra then x1\<lparr>wc_extra := rest\<rparr> else x1\<lparr>wc_recv_buf := rest\<rparr>)
              in if pp_need_more_data pp then None else Some (x2\<lparr>wc_proxy_parsed := True\<rparr>)))
     else Some (x\<lparr>wc_proxy_parsed := True\<rparr>))"

text \<open>One client of one poll: dead or not, newly connected or not, its messages, its writes and its state.\<close>

record poll_result =
  pr_dead :: bool
  pr_connected :: bool
  pr_frames :: "ws_frame list"
  pr_wires :: "bytes list"
  pr_conn :: ws_conn

definition read_client :: "ws_env \<Rightarrow> bool \<Rightarrow> bytes list \<Rightarrow> ws_conn \<Rightarrow> poll_result" where
  "read_client e connected wires x =
    (case read_client_frames (we_sends e (wc_id x)) (we_now e) x of
       (outs, Inl err) \<Rightarrow>
         \<lparr>pr_dead = True, pr_connected = connected, pr_frames = [], pr_wires = wires @ outs, pr_conn = x\<rparr>
     | (outs, Inr (ms, y)) \<Rightarrow>
         \<lparr>pr_dead = False, pr_connected = connected, pr_frames = ms, pr_wires = wires @ outs, pr_conn = y\<rparr>)"

definition poll_client :: "ws_env \<Rightarrow> ws_config \<Rightarrow> ws_conn \<Rightarrow> poll_result" where
  "poll_client e cfg x =
    (let none = \<lparr>pr_dead = False, pr_connected = False, pr_frames = [], pr_wires = [], pr_conn = x\<rparr>
     in if wc_closed x \<or> timed_out cfg (we_now e) x then none\<lparr>pr_dead := True\<rparr>
        else if wc_handshake x then read_client e False [] x
        else
          (case proxy_step e cfg x of
             None \<Rightarrow> none
           | Some x1 \<Rightarrow>
               (case perform_server_handshake (we_inet e) cfg (we_sends e (wc_id x1)) (we_now e) x1 of
                  Inl err \<Rightarrow> none\<lparr>pr_dead := True, pr_conn := x1\<rparr>
                | Inr (False, x2, wires) \<Rightarrow> none\<lparr>pr_conn := x2\<rparr>
                | Inr (True, x2, wires) \<Rightarrow> read_client e True wires x2)))"

definition poll_clients :: "ws_env \<Rightarrow> ws_server \<Rightarrow> (u64 \<times> poll_result) list" where
  "poll_clients e s = map (\<lambda>(c, x). (c, poll_client e (ws_cfg s) x)) (ws_clients s)"

definition poll :: "ws_env \<Rightarrow> accepted list \<Rightarrow> poll_event list \<Rightarrow> ws_server \<Rightarrow> (u64 \<times> ws_frame) list \<times> ws_server" where
  "poll e accepts events s =
    (if \<not> ws_running s then ([], s)
     else
       (let s1 = fold dispatch_event events (fold (accept_client_socket (we_now e)) accepts s);
            rs = poll_clients e s1;
            fresh = map fst (filter (\<lambda>(c, r). pr_connected r) rs);
            dead = map fst (filter (\<lambda>(c, r). pr_dead r) rs);
            s2 = log_events (concat (map (\<lambda>(c, r). map (Wire c) (pr_wires r)) rs))
                  (s1\<lparr>ws_clients := map (\<lambda>(c, r). (c, pr_conn r)) rs,
                      ws_handshaked := ws_handshaked s1 + int (length fresh)\<rparr>);
            s3 = log_events (map Connected fresh) (fold remove_client dead s2)
        in (concat (map (\<lambda>(c, r). map (Pair c) (pr_frames r)) rs), log_events (map Disconnected dead) s3)))"

section \<open>Starting, stopping and queries\<close>

definition start :: "ws_server \<Rightarrow> ws_server" where
  "start s = s\<lparr>ws_running := True\<rparr>"

text \<open>The clients are told to go away and forgotten; the descriptors and the count stay as they are.\<close>

definition stop :: "ws_env \<Rightarrow> ws_server \<Rightarrow> ws_server" where
  "stop e s =
    (if \<not> ws_running s then s
     else
       (let ids = map fst (filter (\<lambda>(c, x). wc_handshake x) (ws_clients s));
            wires = concat (map (\<lambda>(c, x). wire_if_ok e c (ws_serialize (close_frame 1001 []))) (ws_clients s))
        in log_events (wires @ map Disconnected ids) (s\<lparr>ws_running := False, ws_clients := []\<rparr>)))"

definition client_count :: "ws_server \<Rightarrow> nat" where
  "client_count s = length (ws_clients s)"

definition get_client_addr :: "u64 \<Rightarrow> ws_server \<Rightarrow> string" where
  "get_client_addr c s = (case find_client c s of Some x \<Rightarrow> wc_remote_addr x | None \<Rightarrow> [])"

definition get_client_subprotocol :: "u64 \<Rightarrow> ws_server \<Rightarrow> string" where
  "get_client_subprotocol c s = (case find_client c s of Some x \<Rightarrow> wc_subprotocol x | None \<Rightarrow> [])"

end
