(* ===== verification/WS_Server_Props.thy ===== *)
theory WS_Server_Props
  imports WS_Server
begin

text \<open>
  The clients of the WebSocket server: their ids are distinct and below the next one, the handshake
  flag of a client only ever goes up, and it goes up exactly when the connection is reported. What
  the flush of the queues writes to a client that is about to be closed.
\<close>

section \<open>Removing\<close>

lemma find_client_delete:
  "map_of (AList.delete c xs) d = (if d = c then None else map_of xs d)"
  by (simp add: AList.delete_conv')

lemma remove_client_clients: "ws_clients (remove_client c s) = AList.delete c (ws_clients s)"
proof (cases "find_client c s")
  case None
  then have "c \<notin> fst ` set (ws_clients s)" by (simp add: find_client_def map_of_eq_None_iff)
  then show ?thesis using None by (simp add: remove_client_def delete_id)
qed (simp add: remove_client_def)

lemma remove_client_simps [simp]:
  "ws_next_id (remove_client c s) = ws_next_id s" "ws_log (remove_client c s) = ws_log s"
  "ws_running (remove_client c s) = ws_running s" "ws_cfg (remove_client c s) = ws_cfg s"
  "ws_send_queue (remove_client c s) = ws_send_queue s" "ws_close_queue (remove_client c s) = ws_close_queue s"
  by (simp_all add: remove_client_def split: option.split)

lemma fold_remove_simps [simp]:
  "ws_next_id (fold remove_client cs s) = ws_next_id s" "ws_log (fold remove_client cs s) = ws_log s"
  "ws_running (fold remove_client cs s) = ws_running s" "ws_cfg (fold remove_client cs s) = ws_cfg s"
  "ws_send_queue (fold remove_client cs s) = ws_send_queue s" "ws_close_queue (fold remove_client cs s) = ws_close_queue s"
  by (induction cs arbitrary: s) simp_all

lemma fold_remove_clients:
  "ws_clients (fold remove_client cs s) = filter (\<lambda>(c, x). c \<notin> set cs) (ws_clients s)"
  by (induction cs arbitrary: s)
    (auto simp: remove_client_clients AList.delete_eq intro!: filter_cong)

lemma log_events_simps [simp]:
  "ws_log (log_events es s) = ws_log s @ es" "ws_clients (log_events es s) = ws_clients s"
  "ws_next_id (log_events es s) = ws_next_id s" "ws_running (log_events es s) = ws_running s"
  "ws_cfg (log_events es s) = ws_cfg s" "ws_handshaked (log_events es s) = ws_handshaked s"
  "ws_send_queue (log_events es s) = ws_send_queue s" "ws_close_queue (log_events es s) = ws_close_queue s"
  "ws_fds (log_events es s) = ws_fds s" "find_client c (log_events es s) = find_client c s"
  by (simp_all add: log_events_def find_client_def)

lemma remove_clients_simps [simp]:
  "ws_clients (remove_clients cs s) = filter (\<lambda>(c, x). c \<notin> set cs) (ws_clients s)"
  "ws_log (remove_clients cs s) = ws_log s @ map Disconnected cs"
  "ws_next_id (remove_clients cs s) = ws_next_id s" "ws_running (remove_clients cs s) = ws_running s"
  by (simp_all add: remove_clients_def fold_remove_clients)

section \<open>The count of the completed handshakes\<close>

definition shaken :: "ws_server \<Rightarrow> int" where
  "shaken s = int (length (filter (\<lambda>(c, x). wc_handshake x) (ws_clients s)))"

definition ids_ok :: "ws_server \<Rightarrow> bool" where
  "ids_ok s \<longleftrightarrow> distinct (map fst (ws_clients s)) \<and> (\<forall>(c, x)\<in>set (ws_clients s). unat c < unat (ws_next_id s))"

definition ws_ok :: "ws_server \<Rightarrow> bool" where
  "ws_ok s \<longleftrightarrow> ids_ok s \<and> ws_handshaked s = shaken s"

lemma distinct_map_filter_fst: "distinct (map fst xs) \<Longrightarrow> distinct (map fst (filter P xs))"
  by (induction xs) auto

lemma length_filter_delete:
  assumes "distinct (map fst xs)" "map_of xs c = Some x"
  shows "length (filter (\<lambda>(d, y). P y) xs) = length (filter (\<lambda>(d, y). P y) (AList.delete c xs)) + (if P x then 1 else 0)"
  using assms
proof (induction xs)
  case (Cons a xs)
  show ?case
  proof (cases "fst a = c")
    case True
    then have "AList.delete c xs = xs" using Cons.prems(1) by (simp add: delete_id)
    then show ?thesis using True Cons.prems(2) by (cases a) (auto simp: AList.delete_eq)
  next
    case False
    then have "map_of xs c = Some x" using Cons.prems(2) by (cases a) simp
    with Cons False show ?thesis by (cases a) (auto simp: AList.delete_eq)
  qed
qed simp

lemma remove_client_ok: "ws_ok s \<Longrightarrow> ws_ok (remove_client c s)"
proof (cases "find_client c s")
  case (Some x)
  assume ok: "ws_ok s"
  then have d: "distinct (map fst (ws_clients s))" by (simp add: ws_ok_def ids_ok_def)
  have "ids_ok (remove_client c s)"
    using ok by (auto simp: ws_ok_def ids_ok_def remove_client_clients AList.delete_eq intro: distinct_map_filter_fst)
  moreover have "ws_handshaked (remove_client c s) = shaken (remove_client c s)"
    using ok length_filter_delete [OF d, of c x wc_handshake] Some
    by (auto simp: ws_ok_def shaken_def remove_client_clients) (auto simp: remove_client_def find_client_def)
  ultimately show ?thesis by (simp add: ws_ok_def)
qed (simp add: remove_client_def)

lemma fold_remove_ok: "ws_ok s \<Longrightarrow> ws_ok (fold remove_client cs s)"
  by (induction cs arbitrary: s) (simp_all add: remove_client_ok)

lemma log_ok [simp]: "ws_ok (log_events es s) = ws_ok s"
  by (simp add: ws_ok_def ids_ok_def shaken_def)

lemma remove_clients_ok: "ws_ok s \<Longrightarrow> ws_ok (remove_clients cs s)"
  by (simp add: remove_clients_def fold_remove_ok)

section \<open>The handshake flag\<close>

lemma drain_client_keeps: "drain_client now c = Inr (bs, d) \<Longrightarrow> wc_handshake d = wc_handshake c"
  by (auto simp: drain_client_def split: if_splits prod.splits)

lemma real_address_keeps [simp]: "wc_handshake (real_address os cfg hs c) = wc_handshake c"
  by (simp add: real_address_def split: option.split)

lemma handshake_sets:
  assumes "perform_server_handshake os cfg ok now c = Inr (b, d, ws)"
  shows "wc_handshake d = (b \<or> wc_handshake c)"
proof -
  obtain bs c1 where dr: "drain_client now c = Inr (bs, c1)"
    using assms by (cases "drain_client now c") (auto simp: perform_server_handshake_def)
  obtain ls r where gl: "get_lines bs (wc_extra c1) = (ls, r)" by force
  show ?thesis
    using assms drain_client_keeps [OF dr]
    by (auto simp: perform_server_handshake_def dr gl Let_def split: if_splits option.splits)
qed

lemma handle_frame_keeps: "handle_ws_frame ok f c = (outs, Inr (ms, d)) \<Longrightarrow> wc_handshake d = wc_handshake c"
  by (auto simp: handle_ws_frame_def data_frame_def Let_def split: if_splits)

lemma read_loop_keeps: "read_loop ok b c msgs = (outs, Inr (ms, d)) \<Longrightarrow> wc_handshake d = wc_handshake c"
proof (induction ok b c msgs arbitrary: outs rule: read_loop.induct)
  case (1 ok b c msgs)
  show ?case
  proof (cases "b = []")
    case True
    then show ?thesis using "1.prems" by (simp add: read_loop.simps)
  next
    case b: False
    show ?thesis
    proof (cases "parse_frame b")
      case (Parsed f n)
      obtain o1 h where h: "handle_ws_frame ok f c = (o1, h)" by force
      show ?thesis
      proof (cases h)
        case (Inl e)
        then show ?thesis using "1.prems" b Parsed h by (simp add: read_loop.simps)
      next
        case (Inr mc)
        obtain ms1 c1 where mc: "mc = (ms1, c1)" by force
        obtain o2 r where r: "read_loop ok (drop n b) c1 (msgs @ ms1) = (o2, r)" by force
        then have "read_loop ok (drop n b) c1 (msgs @ ms1) = (o2, Inr (ms, d))"
          using "1.prems" b Parsed h Inr mc by (simp add: read_loop.simps)
        from "1.IH" [OF b Parsed h [symmetric] Inr mc [symmetric] this] have "wc_handshake d = wc_handshake c1" .
        moreover have "wc_handshake c1 = wc_handshake c" using handle_frame_keeps h Inr mc by blast
        ultimately show ?thesis by simp
      qed
    qed (use "1.prems" b in \<open>auto simp: read_loop.simps\<close>)
  qed
qed

lemma read_frames_keeps:
  assumes "read_client_frames ok now c = (outs, Inr (ms, d))"
  shows "wc_handshake d = wc_handshake c"
proof -
  obtain bs c1 where dr: "drain_client now c = Inr (bs, c1)"
    using assms by (cases "drain_client now c") (auto simp: read_client_frames_def)
  then have "read_loop ok (wc_extra c1 @ bs) (c1\<lparr>wc_extra := []\<rparr>) [] = (outs, Inr (ms, d))"
    using assms by (simp add: read_client_frames_def)
  from read_loop_keeps [OF this] drain_client_keeps [OF dr] show ?thesis by simp
qed

lemma read_client_keeps:
  "wc_handshake (pr_conn (read_client e b ws x)) = wc_handshake x \<and> pr_connected (read_client e b ws x) = b"
  using read_frames_keeps [of "we_sends e (wc_id x)" "we_now e" x]
  by (auto simp: read_client_def split: prod.split sum.split)

lemma proxy_step_keeps: "proxy_step e cfg x = Some y \<Longrightarrow> wc_handshake y = wc_handshake x"
  by (auto simp: proxy_step_def Let_def split: if_splits)

text \<open>The flag goes up exactly when the connection is reported.\<close>

lemma poll_client_flag:
  "wc_handshake (pr_conn (poll_client e cfg x)) = (wc_handshake x \<or> pr_connected (poll_client e cfg x)) \<and>
   (pr_connected (poll_client e cfg x) \<longrightarrow> \<not> wc_handshake x)"
proof (cases "wc_closed x \<or> timed_out cfg (we_now e) x \<or> wc_handshake x")
  case True
  then show ?thesis using read_client_keeps [of e False "[]" x] by (auto simp: poll_client_def Let_def)
next
  case False
  show ?thesis
  proof (cases "proxy_step e cfg x")
    case None
    then show ?thesis using False by (simp add: poll_client_def Let_def)
  next
    case (Some x1)
    show ?thesis
    proof (cases "perform_server_handshake (we_inet e) cfg (we_sends e (wc_id x1)) (we_now e) x1")
      case (Inl err)
      then show ?thesis using False Some proxy_step_keeps [OF Some] by (simp add: poll_client_def Let_def)
    next
      case (Inr r)
      obtain b x2 w where r: "r = (b, x2, w)" by (cases r)
      show ?thesis
        using False Some Inr r proxy_step_keeps [OF Some] handshake_sets [of _ _ _ _ x1 b x2 w]
          read_client_keeps [of e True w x2]
        by (cases b) (auto simp: poll_client_def Let_def)
    qed
  qed
qed

section \<open>Polling keeps the ids and the count\<close>

lemma accept_ok:
  assumes "ws_ok s" "unat (ws_next_id s) + 1 < 2 ^ 64"
  shows "ws_ok (accept_client_socket now a s)"
    and "unat (ws_next_id (accept_client_socket now a s)) = unat (ws_next_id s) + 1"
proof -
  show n: "unat (ws_next_id (accept_client_socket now a s)) = unat (ws_next_id s) + 1"
    using assms(2) by (simp add: accept_client_socket_def Let_def unat_word_ariths)
  have "ws_next_id s \<notin> fst ` set (ws_clients s)"
    using assms(1) by (auto simp: ws_ok_def ids_ok_def)
  with assms(1) n show "ws_ok (accept_client_socket now a s)"
    by (auto simp: ws_ok_def ids_ok_def shaken_def accept_client_socket_def Let_def ws_conn_new_def)
qed

lemma accepts_ok:
  assumes "ws_ok s" "unat (ws_next_id s) + length as < 2 ^ 64"
  shows "ws_ok (fold (accept_client_socket now) as s) \<and>
    unat (ws_next_id (fold (accept_client_socket now) as s)) = unat (ws_next_id s) + length as"
  using assms
proof (induction as arbitrary: s)
  case (Cons a as)
  from accept_ok [of s now a] Cons.prems
  have "ws_ok (accept_client_socket now a s)"
    "unat (ws_next_id (accept_client_socket now a s)) = unat (ws_next_id s) + 1" by simp_all
  with Cons.IH [of "accept_client_socket now a s"] Cons.prems(2) show ?case by simp
qed simp

lemma set_client_ok:
  assumes "ws_ok s" "find_client c s = Some x" "wc_handshake y = wc_handshake x"
  shows "ws_ok (set_client c y s)"
proof -
  let ?f = "\<lambda>(d, z). (d, if d = c then y else z)"
  have fst_f: "fst \<circ> ?f = fst" by auto
  have "length (filter (\<lambda>(d, z). wc_handshake z) (map ?f xs)) = length (filter (\<lambda>(d, z). wc_handshake z) xs)"
    if "distinct (map fst xs)" "map_of xs c = Some x \<or> c \<notin> fst ` set xs" for xs
    using that assms(3)
  proof (induction xs)
    case (Cons a xs)
    then have "map_of xs c = Some x \<or> c \<notin> fst ` set xs" by (cases a) (auto split: if_splits)
    with Cons show ?case by (cases a) auto
  qed simp
  from this [of "ws_clients s"] assms show ?thesis
    by (auto simp: ws_ok_def ids_ok_def shaken_def set_client_def find_client_def fst_f)
qed

lemma dispatch_event_ok: "ws_ok s \<Longrightarrow> ws_ok (dispatch_event ev s)"
  by (auto simp: dispatch_event_def split: option.split intro: set_client_ok)

lemma dispatch_event_simps [simp]:
  "ws_next_id (dispatch_event ev s) = ws_next_id s" "ws_log (dispatch_event ev s) = ws_log s"
  "ws_cfg (dispatch_event ev s) = ws_cfg s"
  by (simp_all add: dispatch_event_def set_client_def split: option.split)

lemma dispatch_events_ok: "ws_ok s \<Longrightarrow> ws_ok (fold dispatch_event evs s)"
  by (induction evs arbitrary: s) (simp_all add: dispatch_event_ok)

lemma polled_ids: "map fst (map (\<lambda>(c, x). (c, f c x)) xs) = map fst xs"
  by (induction xs) auto

lemma polled_flags:
  assumes "\<And>x. wc_handshake (pr_conn (g x)) = (wc_handshake x \<or> pr_connected (g x)) \<and> (pr_connected (g x) \<longrightarrow> \<not> wc_handshake x)"
  shows "length (filter (\<lambda>(c, x). wc_handshake x) (map (\<lambda>(c, r). (c, pr_conn r)) (map (\<lambda>(c, x). (c, g x)) xs))) =
    length (filter (\<lambda>(c, x). wc_handshake x) xs) + length (filter (\<lambda>(c, r). pr_connected r) (map (\<lambda>(c, x). (c, g x)) xs))"
proof (induction xs)
  case (Cons a xs)
  then show ?case using assms [of "snd a"] by (cases a) auto
qed simp

text \<open>The server when the results of a poll have been written back, and what the poll reports.\<close>

definition arrived :: "ws_env \<Rightarrow> accepted list \<Rightarrow> poll_event list \<Rightarrow> ws_server \<Rightarrow> ws_server" where
  "arrived e as evs s = fold dispatch_event evs (fold (accept_client_socket (we_now e)) as s)"

definition fresh_ids :: "ws_env \<Rightarrow> ws_server \<Rightarrow> u64 list" where
  "fresh_ids e s1 = map fst (filter (\<lambda>(c, r). pr_connected r) (poll_clients e s1))"

definition dead_ids :: "ws_env \<Rightarrow> ws_server \<Rightarrow> u64 list" where
  "dead_ids e s1 = map fst (filter (\<lambda>(c, r). pr_dead r) (poll_clients e s1))"

lemma poll_eq:
  assumes "ws_running s" "s1 = arrived e as evs s"
    "t = s1\<lparr>ws_clients := map (\<lambda>(c, r). (c, pr_conn r)) (poll_clients e s1),
           ws_handshaked := ws_handshaked s1 + int (length (fresh_ids e s1))\<rparr>"
  shows "snd (poll e as evs s) =
    log_events (map Disconnected (dead_ids e s1)) (log_events (map Connected (fresh_ids e s1))
      (fold remove_client (dead_ids e s1)
        (log_events (concat (map (\<lambda>(c, r). map (Wire c) (pr_wires r)) (poll_clients e s1))) t)))"
  using assms by (simp add: poll_def Let_def arrived_def fresh_ids_def dead_ids_def)

lemma arrived_ok:
  assumes "ws_ok s" "unat (ws_next_id s) + length as < 2 ^ 64"
  shows "ws_ok (arrived e as evs s)" "unat (ws_next_id (arrived e as evs s)) = unat (ws_next_id s) + length as"
proof -
  note a = accepts_ok [OF assms, of "we_now e"]
  have next_id: "ws_next_id (fold dispatch_event evs t) = ws_next_id t" for t by (induction evs arbitrary: t) simp_all
  show "ws_ok (arrived e as evs s)" using a by (simp add: arrived_def dispatch_events_ok)
  show "unat (ws_next_id (arrived e as evs s)) = unat (ws_next_id s) + length as" using a by (simp add: arrived_def next_id)
qed

lemma written_back_ok:
  assumes "ws_ok s1"
  shows "ws_ok (s1\<lparr>ws_clients := map (\<lambda>(c, r). (c, pr_conn r)) (poll_clients e s1),
           ws_handshaked := ws_handshaked s1 + int (length (fresh_ids e s1))\<rparr>)"
proof -
  have ids: "map fst (map (\<lambda>(c, r). (c, pr_conn r)) (poll_clients e s1)) = map fst (ws_clients s1)"
    by (simp add: poll_clients_def polled_ids [of "\<lambda>c r. pr_conn r"] polled_ids del: map_map)
  then have "fst ` set (map (\<lambda>(c, r). (c, pr_conn r)) (poll_clients e s1)) = fst ` set (ws_clients s1)"
    by (metis set_map)
  with ids assms polled_flags [of "poll_client e (ws_cfg s1)" "ws_clients s1", OF poll_client_flag]
  show ?thesis
    by (auto simp: ws_ok_def ids_ok_def shaken_def fresh_ids_def poll_clients_def simp del: map_map)
qed

lemma poll_ok:
  assumes "ws_ok s" "unat (ws_next_id s) + length as < 2 ^ 64"
  shows "ws_ok (snd (poll e as evs s))"
proof (cases "ws_running s")
  case True
  show ?thesis unfolding poll_eq [OF True refl refl]
    using written_back_ok [OF arrived_ok(1) [OF assms, of e evs]] by (simp add: fold_remove_ok)
qed (simp add: poll_def assms(1))

section \<open>Every operation\<close>

lemma close_client_ok: "ws_ok s \<Longrightarrow> ws_ok (close_client e c code msg s)"
  by (simp add: close_client_def remove_clients_ok split: option.split)

lemma fold_close_ok: "ws_ok s \<Longrightarrow> ws_ok (fold (\<lambda>p. close_client e (pc_client p) (pc_code p) (pc_reason p)) ps s)"
  by (induction ps arbitrary: s) (simp_all add: close_client_ok)

lemma queues_ok [simp]:
  "ws_ok (s\<lparr>ws_send_queue := q\<rparr>) = ws_ok s" "ws_ok (s\<lparr>ws_close_queue := k\<rparr>) = ws_ok s"
  "ws_ok (s\<lparr>ws_running := b\<rparr>) = ws_ok s"
  by (simp_all add: ws_ok_def ids_ok_def shaken_def)

lemma flush_ok: "ws_ok s \<Longrightarrow> ws_ok (flush_sends e s)"
  by (simp add: flush_sends_def Let_def remove_clients_ok fold_close_ok)

text \<open>A server that was started once; the ids of fewer than \<open>2 ^ 64\<close> clients do not wrap.\<close>

inductive ws_reach :: "ws_server \<Rightarrow> bool" where
  start: "ws_reach (start (ws_server_new cfg))"
| poll: "ws_reach s \<Longrightarrow> unat (ws_next_id s) + length as < 2 ^ 64 \<Longrightarrow> ws_reach (snd (poll e as evs s))"
| send: "ws_reach s \<Longrightarrow> ws_reach (ws_send e c d s)"
| broadcast: "ws_reach s \<Longrightarrow> ws_reach (broadcast e d s)"
| close: "ws_reach s \<Longrightarrow> ws_reach (close_client e c code msg s)"
| queue: "ws_reach s \<Longrightarrow> ws_reach (queue_send c d s)"
| deferred: "ws_reach s \<Longrightarrow> ws_reach (close_client_deferred c code msg s)"
| flush: "ws_reach s \<Longrightarrow> ws_reach (flush_sends e s)"

text \<open>C26: As long as the server is not stopped, no two clients have the same id, new ids are larger than all
that are in use, and the count of completed handshakes is the number of clients that have completed theirs.\<close>

theorem ws_clients_counted:
  assumes "ws_reach s"
  shows "distinct (map fst (ws_clients s)) \<and> (\<forall>c x. find_client c s = Some x \<longrightarrow> unat c < unat (ws_next_id s)) \<and>
    ws_handshaked s = int (length (filter (\<lambda>(c, x). wc_handshake x) (ws_clients s)))"
proof -
  from assms have "ws_ok s"
  proof (induction rule: ws_reach.induct)
    case (start cfg)
    then show ?case by (simp add: start_def ws_server_new_def ws_ok_def ids_ok_def shaken_def)
  next
    case (poll s as e evs)
    then show ?case by (simp add: poll_ok)
  next
    case (send s e c d)
    then show ?case by (simp add: ws_send_def Let_def remove_clients_ok split: option.split)
  next
    case (broadcast s e d)
    then show ?case by (simp add: broadcast_def Let_def remove_clients_ok)
  qed (simp_all add: close_client_ok flush_ok queue_send_def close_client_deferred_def)
  then show ?thesis by (auto simp: ws_ok_def ids_ok_def shaken_def find_client_def dest: map_of_SomeD)
qed

definition demo_ws_env :: ws_env where
  "demo_ws_env = \<lparr>we_inet = demo_inet, we_ovf = (\<lambda>n. n), we_now = 0, we_sends = (\<lambda>_ _. True)\<rparr>"

definition demo_accepted :: accepted where
  "demo_accepted = \<lparr>ac_fd = 5, ac_addr = ''1.2.3.4'', ac_incoming = []\<rparr>"

definition demo_one_client :: ws_server where
  "demo_one_client = snd (poll demo_ws_env [demo_accepted] [] (start (ws_server_new demo_ws_config)))"

lemma demo_one_client_reach: "ws_reach demo_one_client"
  unfolding demo_one_client_def by (intro ws_reach.poll ws_reach.start) (simp add: start_def ws_server_new_def)

theorem ws_clients_counted_witness:
  "ws_handshaked demo_one_client = int (length (filter (\<lambda>(c, x). wc_handshake x) (ws_clients demo_one_client)))"
  using ws_clients_counted [OF demo_one_client_reach] by blast

section \<open>Flushing\<close>

definition about :: "u64 \<Rightarrow> ws_event \<Rightarrow> bool" where
  "about c ev = (case ev of Wire d bs \<Rightarrow> d = c | Connected d \<Rightarrow> d = c | Disconnected d \<Rightarrow> d = c)"

lemma about_simps [simp]: "about c (Wire d bs) = (d = c)" "about c (Connected d) = (d = c)"
  "about c (Disconnected d) = (d = c)"
  by (simp_all add: about_def)

lemma about_wire [simp]: "filter (about c) (wire_if_ok e d bs) = (if d = c then wire_if_ok e d bs else [])"
  by (simp add: wire_if_ok_def)

lemma about_closed [simp]: "filter (about c) (map Disconnected cs) = map Disconnected (filter (\<lambda>d. d = c) cs)"
  by (induction cs) auto

text \<open>The first pending close of a client is carried out; it ends the client.\<close>

definition close_all :: "ws_env \<Rightarrow> pending_close list \<Rightarrow> ws_server \<Rightarrow> ws_server" where
  "close_all e ps = fold (\<lambda>p. close_client e (pc_client p) (pc_code p) (pc_reason p)) ps"

lemma close_client_find: "find_client d (close_client e c code msg s) = (if d = c then None else find_client d s)"
  by (auto simp: close_client_def find_client_def find_client_delete remove_clients_def remove_client_clients
      split: option.split)

lemma close_client_log:
  "\<exists>new. ws_log (close_client e d code msg s) = ws_log s @ new \<and>
     filter (about c) new = (if d = c \<and> find_client c s \<noteq> None
       then wire_if_ok e c (ws_serialize (close_frame code msg)) @ [Disconnected c] else [])"
  by (auto simp: close_client_def split: option.split)

lemma close_all_log:
  "\<exists>new. ws_log (close_all e ps s) = ws_log s @ new \<and>
     filter (about c) new =
       (case find (\<lambda>p. pc_client p = c) ps of
          Some p \<Rightarrow> if find_client c s \<noteq> None
            then wire_if_ok e c (ws_serialize (close_frame (pc_code p) (pc_reason p))) @ [Disconnected c] else []
        | None \<Rightarrow> []) \<and>
     find_client c (close_all e ps s) = (if find (\<lambda>p. pc_client p = c) ps = None then find_client c s else None)"
proof (induction ps arbitrary: s)
  case (Cons p ps)
  let ?s = "close_client e (pc_client p) (pc_code p) (pc_reason p) s"
  obtain n1 where n1: "ws_log ?s = ws_log s @ n1" "filter (about c) n1 = (if pc_client p = c \<and> find_client c s \<noteq> None
       then wire_if_ok e c (ws_serialize (close_frame (pc_code p) (pc_reason p))) @ [Disconnected c] else [])"
    using close_client_log [of e "pc_client p" "pc_code p" "pc_reason p" s c] by blast
  from Cons.IH [of ?s] obtain n2 where n2: "ws_log (close_all e ps ?s) = ws_log ?s @ n2"
     "filter (about c) n2 =
       (case find (\<lambda>p. pc_client p = c) ps of
          Some p \<Rightarrow> if find_client c ?s \<noteq> None
            then wire_if_ok e c (ws_serialize (close_frame (pc_code p) (pc_reason p))) @ [Disconnected c] else []
        | None \<Rightarrow> [])"
     "find_client c (close_all e ps ?s) = (if find (\<lambda>p. pc_client p = c) ps = None then find_client c ?s else None)"
    by blast
  have "close_all e (p # ps) s = close_all e ps ?s" by (simp add: close_all_def)
  then show ?case
    using n1 n2 by (intro exI [of _ "n1 @ n2"]) (auto simp: close_client_find split: option.split)
qed (simp add: close_all_def)

lemma about_sends:
  "filter (about c) (concat (map (\<lambda>(d, data). wire_if_ok e d data) xs)) =
   map (Wire c) (filter (we_sends e c) (map snd (filter (\<lambda>(d, data). d = c) xs)))"
proof (induction xs)
  case (Cons a xs)
  then show ?case by (cases a) (auto simp: wire_if_ok_def)
qed simp

lemma receiving_sends:
  "filter (\<lambda>(d, data). d = c) (filter (\<lambda>(d, data). can_receive s d) xs) =
   (if can_receive s c then filter (\<lambda>(d, data). d = c) xs else [])"
  by (induction xs) auto

lemma failed_sends:
  "filter (\<lambda>d. d = c) (map fst (filter (\<lambda>(d, data). \<not> we_sends e d data) xs)) =
   replicate (length (filter (\<lambda>data. \<not> we_sends e c data) (map snd (filter (\<lambda>(d, data). d = c) xs)))) c"
proof (induction xs)
  case (Cons a xs)
  then show ?case by (cases a) auto
qed simp

definition queued_for :: "u64 \<Rightarrow> ws_server \<Rightarrow> bytes list" where
  "queued_for c s = map snd (filter (\<lambda>(d, data). d = c) (ws_send_queue s))"

text \<open>C22: A flush writes to a client, in order, all that was queued for it, and reports the client as gone
once for every text that could not be sent, not once; but if a close of the client is pending, nothing
that was queued before or after it is written: the client gets the close frame alone.\<close>

theorem flush_writes_or_closes:
  assumes "find_client c s = Some x" "wc_handshake x"
  shows "\<exists>new. ws_log (flush_sends e s) = ws_log s @ new \<and>
    filter (about c) new =
      (case find (\<lambda>p. pc_client p = c) (ws_close_queue s) of
         Some p \<Rightarrow> wire_if_ok e c (ws_serialize (close_frame (pc_code p) (pc_reason p))) @ [Disconnected c]
       | None \<Rightarrow> map (Wire c) (filter (we_sends e c) (queued_for c s)) @
           replicate (length (filter (\<lambda>d. \<not> we_sends e c d) (queued_for c s))) (Disconnected c))"
proof -
  let ?t = "s\<lparr>ws_send_queue := [], ws_close_queue := []\<rparr>" and ?ps = "ws_close_queue s"
  let ?s1 = "close_all e ?ps ?t"
  let ?sends = "filter (\<lambda>(c, data). can_receive ?s1 c) (ws_send_queue s)"
  have t: "find_client c ?t = Some x" using assms(1) by (simp add: find_client_def)
  from close_all_log [of e ?ps ?t c] obtain n1 where n1: "ws_log ?s1 = ws_log s @ n1"
     "filter (about c) n1 =
       (case find (\<lambda>p. pc_client p = c) ?ps of
          Some p \<Rightarrow> wire_if_ok e c (ws_serialize (close_frame (pc_code p) (pc_reason p))) @ [Disconnected c] | None \<Rightarrow> [])"
     "find_client c ?s1 = (if find (\<lambda>p. pc_client p = c) ?ps = None then Some x else None)"
    unfolding t by (auto split: option.splits)
  define n2 where "n2 = concat (map (\<lambda>(c, data). wire_if_ok e c data) ?sends) @
    map Disconnected (map fst (filter (\<lambda>(c, data). \<not> we_sends e c data) ?sends))"
  have log: "ws_log (flush_sends e s) = ws_log s @ n1 @ n2"
    using n1(1) by (simp add: flush_sends_def Let_def n2_def close_all_def)
  have can: "can_receive ?s1 c \<longleftrightarrow> find (\<lambda>p. pc_client p = c) ?ps = None"
    using n1(3) assms(2) by (simp add: can_receive_def)
  have "filter (about c) n2 = (if can_receive ?s1 c
      then map (Wire c) (filter (we_sends e c) (queued_for c s)) @
        replicate (length (filter (\<lambda>d. \<not> we_sends e c d) (queued_for c s))) (Disconnected c) else [])"
    unfolding n2_def filter_append about_sends about_closed failed_sends receiving_sends
    by (simp add: queued_for_def)
  then show ?thesis
    using n1(2) can by (intro exI [of _ "n1 @ n2"]) (auto simp: log split: option.split)
qed

definition demo_kicked :: ws_server where
  "demo_kicked = close_client_deferred 1 1000 [] (queue_send 1 [0x6B] ((ws_server_new demo_ws_config)\<lparr>
     ws_clients := [(1, ws_conn_new\<lparr>wc_handshake := True\<rparr>)]\<rparr>))"

theorem flush_writes_or_closes_witness:
  "\<exists>new. ws_log (flush_sends demo_ws_env demo_kicked) = new \<and>
     filter (about 1) new = [Wire 1 (ws_serialize (close_frame 1000 [])), Disconnected 1]"
  using flush_writes_or_closes [of 1 demo_kicked "ws_conn_new\<lparr>wc_handshake := True\<rparr>" demo_ws_env]
  by (simp add: demo_kicked_def find_client_def close_client_deferred_def queue_send_def ws_server_new_def
      demo_ws_env_def wire_if_ok_def)

end
