(* ===== verification/WS_Pool.thy ===== *)
theory WS_Pool
  imports WS_Server_Props AO_Handshake
begin

text \<open>
  apps/kagami/WsWorkerPool.h and WsWorkerPool.cpp: the threads between the WebSocket server and the
  AO2 server. The poll thread reads the connections, reports connections and disconnections (the
  callbacks that main.cpp installs), puts the messages into the queue of the slot \<open>client_id % slot_count\<close>
  and flushes what is to be sent; every slot has one worker, which takes a message and hands it to the
  AO2 server under the dispatch lock. The state holds what each thread is about to do, and a step of
  the pool is a step of one thread: all interleavings of the threads are sequences of steps.

  The rate limiters are answers (\<open>allowed\<close>); the clock and the service answers are the environment
  of each call. \<open>pl_in\<close> and \<open>pl_done\<close> record what was put into the queues and what was finished.
\<close>

section \<open>State\<close>

datatype poll_task =
    T_callback ws_event
  | T_frame u64 ws_frame
  | T_flush

type_synonym work_item = "u64 \<times> string"

record 'm pool =
  pl_ws :: ws_server
  pl_ao :: "'m ao_server"
  pl_slots :: "work_item list list"
  pl_held :: "work_item option list"
  pl_todo :: "poll_task list"
  pl_stuck :: bool
  pl_in :: "work_item list"
  pl_done :: "work_item list"

definition pool_new :: "nat \<Rightarrow> ws_server \<Rightarrow> 'm ao_server \<Rightarrow> 'm pool" where
  "pool_new hardware_concurrency ws ao =
    (let slot_count = max 1 hardware_concurrency
     in \<lparr>pl_ws = ws, pl_ao = ao, pl_slots = replicate slot_count [], pl_held = replicate slot_count None,
         pl_todo = [], pl_stuck = False, pl_in = [], pl_done = []\<rparr>)"

section \<open>Calls of the AO2 server\<close>

text \<open>The function installed by \<open>set_send_func\<close>, and the closes. A close of a connected client calls the
disconnection callback, which takes the dispatch lock.\<close>

definition pool_send :: "u64 \<Rightarrow> string \<Rightarrow> ws_server \<Rightarrow> ws_server" where
  "pool_send c data = queue_send c (ws_serialize (text_frame (bytes_of data)))"

fun pool_output :: "server_output \<Rightarrow> ws_server \<Rightarrow> ws_server" where
  "pool_output (Sent c data) ws = pool_send c data ws"
| "pool_output (Close_deferred c) ws = close_client_deferred c 1000 [] ws"
| "pool_output _ ws = ws"

definition closes_connected :: "ws_server \<Rightarrow> server_output \<Rightarrow> bool" where
  "closes_connected ws out = (case out of Closed c \<Rightarrow> find_client c ws \<noteq> None | _ \<Rightarrow> False)"

definition pool_env :: "ws_server \<Rightarrow> 'm server_env \<Rightarrow> 'm server_env" where
  "pool_env ws e = e\<lparr>se_has_send := True, se_ws_addr := Some (\<lambda>c. get_client_addr c ws)\<rparr>"

text \<open>The thread holds the lock during the call: if it needs the lock again, it does not go on.\<close>

definition with_lock ::
  "'m server_env \<Rightarrow> ('m server_env \<Rightarrow> 'm ao_server \<Rightarrow> 'm ao_server) \<Rightarrow> 'm pool \<Rightarrow> 'm pool" where
  "with_lock e f p =
    (let ao = f (pool_env (pl_ws p) e) (pl_ao p);
         outs = drop (length (sv_outs (pl_ao p))) (sv_outs ao)
     in if list_ex (closes_connected (pl_ws p)) outs then p\<lparr>pl_stuck := True\<rparr>
        else p\<lparr>pl_ao := ao, pl_ws := fold pool_output outs (pl_ws p)\<rparr>)"

section \<open>The poll thread\<close>

definition callbacks :: "ws_event list \<Rightarrow> poll_task list" where
  "callbacks es = map T_callback (filter (\<lambda>ev. case ev of Wire c bs \<Rightarrow> False | _ \<Rightarrow> True) es)"

definition poll_round :: "ws_env \<Rightarrow> accepted list \<Rightarrow> poll_event list \<Rightarrow> 'm pool \<Rightarrow> 'm pool" where
  "poll_round e accepts events p =
    (case poll e accepts events (pl_ws p) of
       (frames, ws) \<Rightarrow> p\<lparr>pl_ws := ws, pl_todo :=
         callbacks (drop (length (ws_log (pl_ws p))) (ws_log ws)) @ map (\<lambda>(c, f). T_frame c f) frames @ [T_flush]\<rparr>)"

definition slot_of :: "u64 \<Rightarrow> 'm pool \<Rightarrow> nat" where
  "slot_of c p = unat c mod length (pl_slots p)"

definition enqueue_frame :: "bool \<Rightarrow> u64 \<Rightarrow> ws_frame \<Rightarrow> 'm pool \<Rightarrow> 'm pool" where
  "enqueue_frame allowed c f p =
    (if \<not> allowed then p
     else
       (let i = slot_of c p; item = (c, text_of (f_data f))
        in p\<lparr>pl_slots := (pl_slots p)[i := pl_slots p ! i @ [item]], pl_in := pl_in p @ [item]\<rparr>))"

definition flush_round :: "ws_env \<Rightarrow> 'm pool \<Rightarrow> 'm pool" where
  "flush_round e p =
    (let ws = flush_sends e (pl_ws p)
     in p\<lparr>pl_ws := ws, pl_todo := pl_todo p @ callbacks (drop (length (ws_log (pl_ws p))) (ws_log ws))\<rparr>)"

definition callback_event :: "ws_event \<Rightarrow> 'm server_env \<Rightarrow> 'm ao_server \<Rightarrow> 'm ao_server" where
  "callback_event ev e s =
    (case ev of
       ws_event.Connected c \<Rightarrow> server_connected e c s
     | ws_event.Disconnected c \<Rightarrow> server_disconnected e c s
     | Wire c bs \<Rightarrow> s)"

definition do_task :: "'m server_env \<Rightarrow> ws_env \<Rightarrow> bool \<Rightarrow> 'm pool \<Rightarrow> 'm pool" where
  "do_task e we allowed p =
    (case pl_todo p of
       [] \<Rightarrow> p
     | t # ts \<Rightarrow>
         (let q = p\<lparr>pl_todo := ts\<rparr>
          in case t of
               T_callback ev \<Rightarrow> with_lock e (callback_event ev) q
             | T_frame c f \<Rightarrow> enqueue_frame allowed c f q
             | T_flush \<Rightarrow> flush_round we q))"

section \<open>The workers\<close>

definition take_item :: "nat \<Rightarrow> 'm pool \<Rightarrow> 'm pool" where
  "take_item i p =
    (case pl_slots p ! i of
       [] \<Rightarrow> p
     | item # rest \<Rightarrow> p\<lparr>pl_slots := (pl_slots p)[i := rest], pl_held := (pl_held p)[i := Some item]\<rparr>)"

text \<open>A message without the field separator is not asked about at the rate limiter.\<close>

definition handle_item :: "'m server_env \<Rightarrow> bool \<Rightarrow> nat \<Rightarrow> 'm pool \<Rightarrow> 'm pool" where
  "handle_item e allowed i p =
    (case pl_held p ! i of
       None \<Rightarrow> p
     | Some (c, data) \<Rightarrow>
         (let q = p\<lparr>pl_held := (pl_held p)[i := None], pl_done := pl_done p @ [(c, data)]\<rparr>
          in if CHR ''#'' \<in> set data \<and> \<not> allowed then q
             else with_lock e (\<lambda>e s. on_client_message e c data s) q))"

definition total_queued :: "'m pool \<Rightarrow> nat" where
  "total_queued p = sum_list (map length (pl_slots p))"

section \<open>Steps\<close>

text \<open>Between two polls: the tasks of the poll thread and the steps of the workers.\<close>

inductive pool_work :: "'m pool \<Rightarrow> 'm pool \<Rightarrow> bool" where
  task: "\<not> pl_stuck p \<Longrightarrow> pl_todo p \<noteq> [] \<Longrightarrow> se_reload e = None \<Longrightarrow> pool_work p (do_task e we allowed p)"
| take: "\<not> pl_stuck p \<Longrightarrow> i < length (pl_slots p) \<Longrightarrow> pl_held p ! i = None \<Longrightarrow> pl_slots p ! i \<noteq> [] \<Longrightarrow>
    pool_work p (take_item i p)"
| handle: "\<not> pl_stuck p \<Longrightarrow> i < length (pl_slots p) \<Longrightarrow> pl_held p ! i \<noteq> None \<Longrightarrow> se_reload e = None \<Longrightarrow>
    pool_work p (handle_item e allowed i p)"

text \<open>The poll thread polls again when its tasks are done. A poll that ran out of client ids is not considered.\<close>

inductive pool_reach :: "'m pool \<Rightarrow> bool" where
  start: "server_reach ao \<Longrightarrow> sv_proto ao = [] \<Longrightarrow> pool_reach (pool_new n (WS_Server.start (ws_server_new cfg)) ao)"
| work: "pool_reach p \<Longrightarrow> pool_work p q \<Longrightarrow> pool_reach q"
| poll: "pool_reach p \<Longrightarrow> \<not> pl_stuck p \<Longrightarrow> pl_todo p = [] \<Longrightarrow>
    unat (ws_next_id (pl_ws p)) + length accepts < 2 ^ 64 \<Longrightarrow> pool_reach (poll_round we accepts events p)"

inductive_cases pool_workE: "pool_work p q"

section \<open>Expired sessions\<close>

text \<open>The sweep of the poll thread: the expired sessions are collected under the shared lock and destroyed
later, in batches, under the exclusive lock, without another look at their age.\<close>

fun expire_batches :: "(string \<Rightarrow> u64) \<Rightarrow> u64 list \<Rightarrow> room \<Rightarrow> room \<times> room_output list" where
  "expire_batches h [] g = (g, [])"
| "expire_batches h (c # cs) g =
    (let g1 = fold (destroy_session h) (take 64 (c # cs)) g; outs = broadcast_chars_taken g1
     in case expire_batches h (drop 64 (c # cs)) g1 of (g2, outs2) \<Rightarrow> (g2, outs @ outs2))"

end
