(* ===== verification/WS_Pool_Props.thy ===== *)
theory WS_Pool_Props
  imports WS_Pool
begin

text \<open>
  What holds in every state that the threads can reach together: the AO2 server only ever sees
  whole calls, one after the other, so that it is in a state of its own step relation; the messages
  of a client are handled in the order in which they arrived; the work between two polls ends.
\<close>

section \<open>The clients that the AO2 server knows\<close>

definition known :: "'m ao_server \<Rightarrow> u64 list" where
  "known s = map fst (sv_proto s)"

interpretation kn: any_observer known "\<lambda>_. ()"
  by (intro observer_intros) (simp_all add: obs_laws known_def AList_update_map_fst calm_def)

lemma known_connected: "set (known (server_connected e c s)) \<subseteq> insert c (set (known s))"
  by (auto simp: server_connected_def Let_def kn.send kn.own_session split: prod.split)
    (auto simp: known_def)

lemma known_room [simp]: "known (on_room f s) = known s"
  by (simp add: known_def on_room_def)

lemma known_disconnected: "set (known (server_disconnected e c s)) \<subseteq> set (known s)"
proof -
  have del: "set (known (t\<lparr>sv_proto := AList.delete c (sv_proto t)\<rparr>)) \<subseteq> set (known t)" for t :: "'a ao_server"
    by (auto simp: known_def delete_keys)
  let ?d = "\<lambda>t. (on_room (destroy_session (se_token_hash e) c) t)\<lparr>sv_proto :=
    AList.delete c (sv_proto (on_room (destroy_session (se_token_hash e) c) t))\<rparr>"
  have "set (known (?d s)) \<subseteq> set (known s)" using del [of "on_room (destroy_session (se_token_hash e) c) s"] by simp
  moreover have "set (known (?d (on_room (drop_cm_everywhere c) (broadcast_player_remove e i s)))) \<subseteq> set (known s)" for i
    using del [of "on_room (destroy_session (se_token_hash e) c) (on_room (drop_cm_everywhere c) (broadcast_player_remove e i s))"]
    by simp
  ultimately show ?thesis
    by (simp add: server_disconnected_def Let_def split: option.split)
qed

lemma known_frame: "se_reload e = None \<Longrightarrow> known (server_frame e c w s) = known s"
  using kn.server_dispatch [of e c]
  by (simp add: server_frame_def safe_dispatch_def split: sum.split dispatch_result.split prod.split)

lemma known_message: "se_reload e = None \<Longrightarrow> known (on_client_message e c raw s) = known s"
proof (cases "get_protocol_state c s")
  case (Some ps)
  assume e: "se_reload e = None"
  have buf: "known (set_buffer d b t) = known t" for d b and t :: "'a ao_server"
    by (auto simp: set_buffer_def set_protocol_state_def get_protocol_state_def known_def AList_update_map_fst split: option.split)
  obtain rest s2 where d: "drain (server_frame e c) (protocol_state.incomplete_buf ps @ raw) (on_room (count_received c (length raw)) s) = (rest, s2)"
    by force
  have "known s2 = known s"
    using drain_invariant [of "\<lambda>t. known t = known s" "server_frame e c" "on_room (count_received c (length raw)) s"
        "protocol_state.incomplete_buf ps @ raw"] known_frame [OF e] d by simp
  then show ?thesis using Some d by (simp add: on_client_message_def Let_def buf)
qed (simp add: on_client_message_def)

lemma known_sessions:
  assumes "server_reach s"
  shows "c \<in> set (known s) \<longleftrightarrow> get_session c (sv_room s) \<noteq> None"
proof -
  have "registry_ok s" using server_reach_ok [OF assms] by (simp add: server_ok_def)
  from registry_okD(5) [OF this, of c] show ?thesis
    by (auto simp: known_def get_protocol_state_def map_of_eq_None_iff)
qed

section \<open>Queued outputs leave the connections alone\<close>

lemma pool_output_keeps [simp]:
  "ws_clients (pool_output out ws) = ws_clients ws" "ws_next_id (pool_output out ws) = ws_next_id ws"
  "ws_log (pool_output out ws) = ws_log ws" "ws_ok (pool_output out ws) = ws_ok ws"
  by (cases out; simp add: pool_send_def queue_send_def close_client_deferred_def)+

lemma pool_outputs_keep [simp]:
  "ws_clients (fold pool_output outs ws) = ws_clients ws" "ws_next_id (fold pool_output outs ws) = ws_next_id ws"
  "ws_log (fold pool_output outs ws) = ws_log ws" "ws_ok (fold pool_output outs ws) = ws_ok ws"
  by (induction outs arbitrary: ws) simp_all

lemma with_lock_cases:
  obtains (stuck) "with_lock e f p = p\<lparr>pl_stuck := True\<rparr>"
  | (call) outs where "with_lock e f p = p\<lparr>pl_ao := f (pool_env (pl_ws p) e) (pl_ao p), pl_ws := fold pool_output outs (pl_ws p)\<rparr>"
proof (cases "list_ex (closes_connected (pl_ws p))
    (drop (length (sv_outs (pl_ao p))) (sv_outs (f (pool_env (pl_ws p) e) (pl_ao p))))")
  case True
  then show ?thesis by (intro stuck) (simp add: with_lock_def Let_def)
next
  case False
  then show ?thesis by (intro call) (simp add: with_lock_def Let_def)
qed

lemma pool_env_reload [simp]: "se_reload (pool_env ws e) = se_reload e"
  by (simp add: pool_env_def)

section \<open>The invariant\<close>

definition fresh_in :: "poll_task list \<Rightarrow> u64 list" where
  "fresh_in ts = List.map_filter (\<lambda>t. case t of T_callback (ws_event.Connected c) \<Rightarrow> Some c | _ \<Rightarrow> None) ts"

lemma fresh_in_simps [simp]:
  "fresh_in [] = []" "fresh_in (T_callback (ws_event.Connected c) # ts) = c # fresh_in ts"
  "fresh_in (T_callback (ws_event.Disconnected c) # ts) = fresh_in ts" "fresh_in (T_callback (Wire c bs) # ts) = fresh_in ts"
  "fresh_in (T_frame c f # ts) = fresh_in ts" "fresh_in (T_flush # ts) = fresh_in ts"
  "fresh_in (ts @ us) = fresh_in ts @ fresh_in us"
  by (simp_all add: fresh_in_def List.map_filter_def)

definition pool_ok :: "'m pool \<Rightarrow> bool" where
  "pool_ok p \<longleftrightarrow> server_reach (pl_ao p) \<and> ws_ok (pl_ws p) \<and>
     (\<forall>c\<in>set (known (pl_ao p)). unat c < unat (ws_next_id (pl_ws p))) \<and>
     distinct (fresh_in (pl_todo p)) \<and>
     (\<forall>c\<in>set (fresh_in (pl_todo p)). c \<notin> set (known (pl_ao p)) \<and> unat c < unat (ws_next_id (pl_ws p))) \<and>
     (\<forall>(c, x)\<in>set (ws_clients (pl_ws p)). \<not> wc_handshake x \<longrightarrow>
        c \<notin> set (known (pl_ao p)) \<and> c \<notin> set (fresh_in (pl_todo p)))"

lemma pool_ok_simps [simp]:
  "pool_ok (p\<lparr>pl_slots := x\<rparr>) = pool_ok p" "pool_ok (p\<lparr>pl_held := h\<rparr>) = pool_ok p" "pool_ok (p\<lparr>pl_in := i\<rparr>) = pool_ok p"
  "pool_ok (p\<lparr>pl_done := i\<rparr>) = pool_ok p" "pool_ok (p\<lparr>pl_stuck := b\<rparr>) = pool_ok p"
  by (simp_all add: pool_ok_def)

lemma pool_ok_pop:
  assumes "pool_ok p" "pl_todo p = t # ts"
  shows "pool_ok (p\<lparr>pl_todo := ts\<rparr>)"
proof -
  have "fresh_in (t # ts) = fresh_in [t] @ fresh_in ts" using fresh_in_simps(7) [of "[t]" ts] by simp
  then have "set (fresh_in ts) \<subseteq> set (fresh_in (t # ts))" "distinct (fresh_in (t # ts)) \<Longrightarrow> distinct (fresh_in ts)"
    by auto
  then show ?thesis using assms by (auto simp: pool_ok_def)
qed

lemma pool_ok_call:
  assumes "pool_ok p" "server_reach ao" "set (known ao) \<subseteq> set (known (pl_ao p))"
  shows "pool_ok (p\<lparr>pl_ao := ao, pl_ws := fold pool_output outs (pl_ws p)\<rparr>)"
  using assms by (auto simp: pool_ok_def)

lemma callback_ok:
  assumes ok: "pool_ok p" and todo: "pl_todo p = T_callback ev # ts" and e: "se_reload e = None"
  shows "pool_ok (with_lock e (callback_event ev) (p\<lparr>pl_todo := ts\<rparr>))"
proof (cases rule: with_lock_cases [of e "callback_event ev" "p\<lparr>pl_todo := ts\<rparr>"])
  case stuck
  then show ?thesis using pool_ok_pop [OF ok todo] by simp
next
  case (call outs)
  let ?q = "p\<lparr>pl_todo := ts\<rparr>" and ?e = "pool_env (pl_ws p) e"
  note q = pool_ok_pop [OF ok todo]
  have reach: "server_reach (pl_ao p)" using ok by (simp add: pool_ok_def)
  show ?thesis
  proof (cases ev)
    case (Wire c bs)
    then show ?thesis using call q by (simp add: callback_event_def pool_ok_def)
  next
    case (Disconnected c)
    have "server_reach (server_step ?e (server_event.Disconnected c) (pl_ao p))"
      by (rule server_reach.step [OF reach]) (simp_all add: e)
    then show ?thesis
      unfolding call using pool_ok_call [OF q, of "server_disconnected ?e c (pl_ao p)" outs] known_disconnected [of ?e c "pl_ao p"]
      by (simp add: Disconnected callback_event_def)
  next
    case (Connected c)
    have c: "c \<notin> set (known (pl_ao p))" "unat c < unat (ws_next_id (pl_ws p))" "c \<notin> set (fresh_in ts)"
      "\<forall>(d, x)\<in>set (ws_clients (pl_ws p)). \<not> wc_handshake x \<longrightarrow> d \<noteq> c"
      using ok todo Connected by (auto simp: pool_ok_def)
    have "get_session c (sv_room (pl_ao p)) = None" using known_sessions [OF reach] c(1) by blast
    then have "server_reach (server_step ?e (server_event.Connected c) (pl_ao p))"
      by (intro server_reach.step [OF reach]) (simp_all add: e)
    with q c known_connected [of ?e c "pl_ao p"] show ?thesis
      unfolding call by (auto simp: Connected callback_event_def pool_ok_def)
  qed
qed

lemma handle_item_ok:
  assumes "pool_ok p" "se_reload e = None"
  shows "pool_ok (handle_item e allowed i p)"
proof (cases "pl_held p ! i")
  case (Some item)
  obtain c data where item: "item = (c, data)" by force
  let ?q = "p\<lparr>pl_held := (pl_held p)[i := None], pl_done := pl_done p @ [(c, data)]\<rparr>"
  let ?f = "\<lambda>e s. on_client_message e c data s"
  have q: "pool_ok ?q" using assms(1) by simp
  have "pool_ok (with_lock e ?f ?q)"
  proof (cases rule: with_lock_cases [of e ?f ?q])
    case stuck
    then show ?thesis using q by simp
  next
    case (call outs)
    let ?e = "pool_env (pl_ws p) e"
    have "server_reach (server_step ?e (server_event.Message c data) (pl_ao p))"
      using assms by (intro server_reach.step) (simp_all add: pool_ok_def)
    then show ?thesis
      unfolding call using pool_ok_call [OF q, of "on_client_message ?e c data (pl_ao p)" outs] assms(2) by (simp add: known_message)
  qed
  then show ?thesis using q Some item by (simp add: handle_item_def Let_def)
qed (simp add: handle_item_def assms(1))

section \<open>Flushing and polling\<close>

definition no_news :: "ws_event list \<Rightarrow> bool" where
  "no_news es \<longleftrightarrow> (\<forall>c. ws_event.Connected c \<notin> set es)"

lemma fresh_in_callbacks: "fresh_in (callbacks es) = List.map_filter (\<lambda>ev. case ev of ws_event.Connected c \<Rightarrow> Some c | _ \<Rightarrow> None) es"
  by (induction es) (auto simp: callbacks_def List.map_filter_def fresh_in_def split: ws_event.split)

lemma no_news_fresh: "no_news es \<Longrightarrow> fresh_in (callbacks es) = []"
  unfolding fresh_in_callbacks by (induction es) (auto simp: no_news_def List.map_filter_def split: ws_event.split)

lemma close_all_quiet:
  "\<exists>new. ws_log (close_all e ps s) = ws_log s @ new \<and> no_news new \<and>
     set (ws_clients (close_all e ps s)) \<subseteq> set (ws_clients s) \<and> ws_next_id (close_all e ps s) = ws_next_id s"
proof (induction ps arbitrary: s)
  case (Cons p ps)
  let ?s = "close_client e (pc_client p) (pc_code p) (pc_reason p) s"
  have "\<exists>new. ws_log ?s = ws_log s @ new \<and> no_news new" "set (ws_clients ?s) \<subseteq> set (ws_clients s)" "ws_next_id ?s = ws_next_id s"
    by (auto simp: close_client_def no_news_def wire_if_ok_def split: option.split)
  moreover obtain n2 where "ws_log (close_all e ps ?s) = ws_log ?s @ n2" "no_news n2"
    "set (ws_clients (close_all e ps ?s)) \<subseteq> set (ws_clients ?s)" "ws_next_id (close_all e ps ?s) = ws_next_id ?s"
    using Cons.IH by blast
  moreover have "close_all e (p # ps) s = close_all e ps ?s" by (simp add: close_all_def)
  ultimately show ?case by (fastforce simp: no_news_def)
qed (simp add: close_all_def no_news_def)

lemma flush_quiet:
  "\<exists>new. ws_log (flush_sends e s) = ws_log s @ new \<and> no_news new \<and>
     set (ws_clients (flush_sends e s)) \<subseteq> set (ws_clients s) \<and> ws_next_id (flush_sends e s) = ws_next_id s"
proof -
  let ?s1 = "close_all e (ws_close_queue s) (s\<lparr>ws_send_queue := [], ws_close_queue := []\<rparr>)"
  obtain n1 where n1: "ws_log ?s1 = ws_log s @ n1" "no_news n1" "set (ws_clients ?s1) \<subseteq> set (ws_clients s)"
    "ws_next_id ?s1 = ws_next_id s"
    using close_all_quiet [of e "ws_close_queue s" "s\<lparr>ws_send_queue := [], ws_close_queue := []\<rparr>"] by auto
  have f: "flush_sends e s = (if ws_send_queue s = [] then ?s1 else
      remove_clients (map fst (filter (\<lambda>(c, data). \<not> we_sends e c data)
          (filter (\<lambda>(c, data). can_receive ?s1 c) (ws_send_queue s))))
        (log_events (concat (map (\<lambda>(c, data). wire_if_ok e c data)
          (filter (\<lambda>(c, data). can_receive ?s1 c) (ws_send_queue s)))) ?s1))"
    by (simp add: flush_sends_def Let_def close_all_def)
  show ?thesis
  proof (cases "ws_send_queue s = []")
    case True
    then show ?thesis using n1 f by auto
  next
    case False
    show ?thesis using n1 False unfolding f by (auto simp: no_news_def wire_if_ok_def split: if_splits)
  qed
qed

lemma flush_round_ok:
  assumes ok: "pool_ok p"
  shows "pool_ok (flush_round we p)"
proof -
  obtain new where new: "ws_log (flush_sends we (pl_ws p)) = ws_log (pl_ws p) @ new" "no_news new"
    "set (ws_clients (flush_sends we (pl_ws p))) \<subseteq> set (ws_clients (pl_ws p))"
    "ws_next_id (flush_sends we (pl_ws p)) = ws_next_id (pl_ws p)"
    using flush_quiet by blast
  have "fresh_in (pl_todo p @ callbacks new) = fresh_in (pl_todo p)" using no_news_fresh [OF new(2)] by simp
  with ok new flush_ok [of "pl_ws p" we] show ?thesis
    by (auto simp: flush_round_def Let_def pool_ok_def)
qed

lemma arrived_log [simp]: "ws_log (arrived e as evs s) = ws_log s"
proof -
  have "ws_log (fold (accept_client_socket now) as t) = ws_log t" for now t
    by (induction as arbitrary: t) (simp_all add: accept_client_socket_def Let_def)
  moreover have "ws_log (fold dispatch_event evs t) = ws_log t" for t
    by (induction evs arbitrary: t) simp_all
  ultimately show ?thesis by (simp add: arrived_def)
qed

text \<open>A client whose handshake is not complete was there before, or has a new id.\<close>

definition newcomers :: "ws_server \<Rightarrow> u64 set" where
  "newcomers s = {c. \<exists>x. (c, x) \<in> set (ws_clients s) \<and> \<not> wc_handshake x}"

lemma newcomers_accept: "newcomers (accept_client_socket now a s) \<subseteq> insert (ws_next_id s) (newcomers s)"
  by (auto simp: newcomers_def accept_client_socket_def Let_def)

lemma newcomers_accepts:
  "unat (ws_next_id s) + length as < 2 ^ 64 \<Longrightarrow> c \<in> newcomers (fold (accept_client_socket now) as s) \<Longrightarrow>
   c \<in> newcomers s \<or> unat (ws_next_id s) \<le> unat c"
proof (induction as arbitrary: s)
  case (Cons a as)
  have n: "unat (ws_next_id (accept_client_socket now a s)) = unat (ws_next_id s) + 1"
    using Cons.prems(1) by (simp add: accept_client_socket_def Let_def unat_word_ariths)
  with Cons.IH [of "accept_client_socket now a s"] Cons.prems newcomers_accept [of now a s] show ?case by fastforce
qed simp

lemma newcomers_dispatch: "newcomers (dispatch_event ev s) \<subseteq> newcomers s"
proof -
  have "newcomers (set_client c y s) \<subseteq> newcomers s" if "find_client c s = Some x" "wc_handshake y = wc_handshake x" for c x y
    using that map_of_SomeD [of "ws_clients s" c x]
    by (auto simp: newcomers_def set_client_def find_client_def split: if_splits)
  then show ?thesis by (auto simp: dispatch_event_def split: option.split dest: subsetD)
qed

lemma newcomers_arrived:
  assumes "unat (ws_next_id s) + length as < 2 ^ 64" "c \<in> newcomers (arrived e as evs s)"
  shows "c \<in> newcomers s \<or> unat (ws_next_id s) \<le> unat c"
proof -
  have "newcomers (fold dispatch_event evs t) \<subseteq> newcomers t" for t
    using newcomers_dispatch by (induction evs arbitrary: t) (simp_all, blast)
  with assms newcomers_accepts [of s as c "we_now e"] show ?thesis by (auto simp: arrived_def)
qed

lemma poll_quiet:
  assumes run: "ws_running s" and s1: "s1 = arrived e as evs s"
  shows "\<exists>new. ws_log (snd (poll e as evs s)) = ws_log s @ new \<and> fresh_in (callbacks new) = fresh_ids e s1"
    and "newcomers (snd (poll e as evs s)) \<subseteq> newcomers s1 - set (fresh_ids e s1) \<or> \<not> distinct (map fst (ws_clients s1))"
    and "ws_next_id (snd (poll e as evs s)) = ws_next_id s1"
    and "set (fresh_ids e s1) \<subseteq> newcomers s1"
proof -
  let ?rs = "poll_clients e s1"
  have con: "List.map_filter (\<lambda>ev. case ev of ws_event.Connected c \<Rightarrow> Some c | _ \<Rightarrow> None) (map ws_event.Connected cs) = cs"
    "List.map_filter (\<lambda>ev. case ev of ws_event.Connected c \<Rightarrow> Some c | _ \<Rightarrow> None) (map ws_event.Disconnected ds) = []"
    "List.map_filter (\<lambda>ev. case ev of ws_event.Connected c \<Rightarrow> Some c | _ \<Rightarrow> None) (concat (map (\<lambda>(c, r). map (Wire c) (w r)) rs)) = []"
    for cs ds w and rs :: "(u64 \<times> poll_result) list"
    by (induction cs, simp_all add: List.map_filter_def comp_def) (induction rs, auto)
  have app: "List.map_filter f (xs @ ys) = List.map_filter f xs @ List.map_filter f ys" for f :: "ws_event \<Rightarrow> u64 option" and xs ys
    by (simp add: List.map_filter_def)
  show "\<exists>new. ws_log (snd (poll e as evs s)) = ws_log s @ new \<and> fresh_in (callbacks new) = fresh_ids e s1"
    unfolding poll_eq [OF run s1 refl] fresh_in_callbacks by (simp add: s1 app con)
  show "ws_next_id (snd (poll e as evs s)) = ws_next_id s1"
    unfolding poll_eq [OF run s1 refl] by simp
  have res: "(c, r) \<in> set ?rs \<longleftrightarrow> (\<exists>x. (c, x) \<in> set (ws_clients s1) \<and> r = poll_client e (ws_cfg s1) x)" for c r
    by (auto simp: poll_clients_def)
  show "set (fresh_ids e s1) \<subseteq> newcomers s1"
    by (auto simp: fresh_ids_def res newcomers_def) (metis poll_client_flag)
  have "newcomers (snd (poll e as evs s)) \<subseteq> {c. \<exists>r. (c, r) \<in> set ?rs \<and> \<not> wc_handshake (pr_conn r)}"
    unfolding poll_eq [OF run s1 refl] by (auto simp: newcomers_def fold_remove_clients)
  moreover have "c \<in> newcomers s1 \<and> c \<notin> set (fresh_ids e s1)"
    if d: "distinct (map fst (ws_clients s1))" and r: "(c, r) \<in> set ?rs" "\<not> wc_handshake (pr_conn r)" for c r
  proof -
    obtain x where x: "(c, x) \<in> set (ws_clients s1)" "r = poll_client e (ws_cfg s1) x" using r(1) res by blast
    have flag: "\<not> wc_handshake x" "\<not> pr_connected r" using poll_client_flag [of e "ws_cfg s1" x] r(2) x(2) by auto
    have "y = x" if "(c, y) \<in> set (ws_clients s1)" for y by (rule eq_key_imp_eq_value [OF d that x(1)])
    then have "\<not> pr_connected q" if "(c, q) \<in> set ?rs" for q using that flag(2) x(2) unfolding res by blast
    then have "c \<notin> set (fresh_ids e s1)" by (auto simp: fresh_ids_def)
    moreover have "c \<in> newcomers s1" using x(1) flag(1) by (auto simp: newcomers_def)
    ultimately show ?thesis by blast
  qed
  ultimately show "newcomers (snd (poll e as evs s)) \<subseteq> newcomers s1 - set (fresh_ids e s1) \<or> \<not> distinct (map fst (ws_clients s1))"
    by blast
qed

lemma poll_round_ok:
  assumes ok: "pool_ok p" and todo: "pl_todo p = []" and room: "unat (ws_next_id (pl_ws p)) + length accepts < 2 ^ 64"
  shows "pool_ok (poll_round we accepts events p)"
proof (cases "ws_running (pl_ws p)")
  case False
  then show ?thesis using ok todo by (auto simp: poll_round_def poll_def callbacks_def pool_ok_def)
next
  case run: True
  define s s1 t where "s = pl_ws p" and "s1 = arrived we accepts events s" and "t = snd (poll we accepts events s)"
  note q = poll_quiet [OF run [folded s_def] s1_def]
  obtain new where new: "ws_log t = ws_log s @ new" "fresh_in (callbacks new) = fresh_ids we s1" using q(1) unfolding t_def by blast
  have s: "ws_ok s" using ok by (simp add: pool_ok_def s_def)
  note arr = arrived_ok [OF s room [folded s_def], of we events]
  have frames: "fresh_in (map (\<lambda>(c, f). T_frame c f) frames) = []" for frames by (induction frames) auto
  have step: "pl_ws (poll_round we accepts events p) = t" "pl_ao (poll_round we accepts events p) = pl_ao p"
    "fresh_in (pl_todo (poll_round we accepts events p)) = fresh_ids we s1"
    using new frames by (auto simp: poll_round_def t_def s_def split: prod.split)
  have old: "c \<notin> set (known (pl_ao p))" if "c \<in> newcomers s1" for c
  proof -
    have "c \<in> newcomers s \<or> unat (ws_next_id s) \<le> unat c" using newcomers_arrived room that s1_def s_def by blast
    then show ?thesis using ok by (fastforce simp: pool_ok_def s_def newcomers_def)
  qed
  have dist: "distinct (map fst (ws_clients s1))" using arr by (simp add: ws_ok_def ids_ok_def s1_def)
  have fresh: "distinct (fresh_ids we s1)"
    using dist by (auto simp: fresh_ids_def poll_clients_def polled_ids intro!: distinct_map_filter_fst simp del: map_map)
  have below: "unat c < unat (ws_next_id t)" if "c \<in> newcomers s1" for c
    using that arr q(3) by (auto simp: newcomers_def ws_ok_def ids_ok_def s1_def t_def)
  have grow: "unat (ws_next_id s) \<le> unat (ws_next_id t)" using q(3) arr(2) by (simp add: t_def s1_def)
  have new_t: "newcomers t \<subseteq> newcomers s1 - set (fresh_ids we s1)" using q(2) dist by (simp add: t_def)
  have ws: "ws_ok t" using poll_ok [OF s] room by (simp add: t_def s_def)
  have reach: "server_reach (pl_ao p)" "\<forall>c\<in>set (known (pl_ao p)). unat c < unat (ws_next_id t)"
    using ok grow by (fastforce simp: pool_ok_def s_def)+
  show ?thesis
    unfolding pool_ok_def step using reach ws fresh q(4) old below new_t by (fastforce simp: newcomers_def)
qed

lemma do_task_ok:
  assumes ok: "pool_ok p" and e: "se_reload e = None"
  shows "pool_ok (do_task e we allowed p)"
proof (cases "pl_todo p")
  case (Cons t ts)
  then show ?thesis
    using pool_ok_pop [OF ok Cons] flush_round_ok [of "p\<lparr>pl_todo := ts\<rparr>" we] callback_ok [OF ok _ e]
    by (cases t) (auto simp: do_task_def Let_def enqueue_frame_def)
qed (simp add: do_task_def ok)

lemma pool_work_ok: "pool_work p q \<Longrightarrow> pool_ok p \<Longrightarrow> pool_ok q"
  by (induction rule: pool_work.induct) (auto simp: do_task_ok handle_item_ok take_item_def split: list.split)

lemma pool_reach_ok: "pool_reach p \<Longrightarrow> pool_ok p"
proof (induction rule: pool_reach.induct)
  case (start ao n cfg)
  then show ?case
    by (simp add: pool_ok_def pool_new_def Let_def known_def WS_Server.start_def ws_server_new_def ws_ok_def ids_ok_def shaken_def)
qed (simp_all add: pool_work_ok poll_round_ok)

end
