(* ===== verification/WS_Pool_Theorems.thy ===== *)
theory WS_Pool_Theorems
  imports WS_Pool_Props Game_Room_Theorems
begin

text \<open>
  The worker pool as a whole: the AO2 server under all interleavings of the threads, the order of the
  messages of a client, the end of the work between two polls, the call that waits for a lock its own
  thread holds, and the sweep of the expired sessions.
\<close>

section \<open>The AO2 server\<close>

text \<open>C2: Whatever way the poll thread and the workers interleave, with any answers of the rate limiters and
clocks, the AO2 server goes through states of its own step relation only, so that all that holds in every
state of that relation holds in the running program; and no id that will be given to a connection has a session.\<close>

theorem pool_refines_server:
  assumes "pool_reach p"
  shows "server_reach (pl_ao p) \<and>
    (\<forall>c. get_session c (sv_room (pl_ao p)) \<noteq> None \<longrightarrow> unat c < unat (ws_next_id (pl_ws p)))"
  using pool_reach_ok [OF assms] known_sessions [of "pl_ao p"] by (auto simp: pool_ok_def)

definition demo_pool :: "unit pool" where
  "demo_pool = poll_round demo_ws_env [demo_accepted] [] (pool_new 2 (WS_Server.start (ws_server_new demo_ws_config)) demo_start)"

lemma demo_start_proto: "sv_proto demo_start = []"
  by (simp add: demo_start_def server_new_def)

lemma demo_pool_reach: "pool_reach demo_pool"
  unfolding demo_pool_def
  by (intro pool_reach.poll pool_reach.start demo_start_reach demo_start_proto)
    (simp_all add: pool_new_def WS_Server.start_def ws_server_new_def Let_def)

theorem pool_refines_server_witness: "server_reach (pl_ao demo_pool)"
  using pool_refines_server [OF demo_pool_reach] by blast

section \<open>The order of messages\<close>

definition held_items :: "'m pool \<Rightarrow> nat \<Rightarrow> work_item list" where
  "held_items p i = (case pl_held p ! i of None \<Rightarrow> [] | Some item \<Rightarrow> [item])"

definition pending :: "'m pool \<Rightarrow> nat \<Rightarrow> work_item list" where
  "pending p i = held_items p i @ pl_slots p ! i"

definition of_client :: "u64 \<Rightarrow> work_item list \<Rightarrow> work_item list" where
  "of_client c = filter (\<lambda>item. fst item = c)"

lemma of_client_simps [simp]:
  "of_client c [] = []" "of_client c (x # xs) = (if fst x = c then x # of_client c xs else of_client c xs)"
  "of_client c (xs @ ys) = of_client c xs @ of_client c ys"
  by (simp_all add: of_client_def)

definition order_ok :: "'m pool \<Rightarrow> bool" where
  "order_ok p \<longleftrightarrow> length (pl_held p) = length (pl_slots p) \<and> pl_slots p \<noteq> [] \<and>
     (\<forall>i<length (pl_slots p). \<forall>item\<in>set (pending p i). slot_of (fst item) p = i) \<and>
     (\<forall>c. of_client c (pl_in p) = of_client c (pl_done p) @ of_client c (pending p (slot_of c p)))"

lemma order_ok_cong:
  assumes "pl_slots q = pl_slots p" "pl_held q = pl_held p" "pl_in q = pl_in p" "pl_done q = pl_done p"
  shows "order_ok q = order_ok p"
  using assms by (simp add: order_ok_def pending_def held_items_def slot_of_def)

lemma with_lock_queues [simp]:
  "pl_slots (with_lock e f p) = pl_slots p" "pl_held (with_lock e f p) = pl_held p"
  "pl_in (with_lock e f p) = pl_in p" "pl_done (with_lock e f p) = pl_done p" "pl_todo (with_lock e f p) = pl_todo p"
  by (simp_all add: with_lock_def Let_def)

lemma slot_of_less: "order_ok p \<Longrightarrow> slot_of c p < length (pl_slots p)"
  by (simp add: order_ok_def slot_of_def)

lemma enqueue_order:
  assumes ok: "order_ok p"
  shows "order_ok (enqueue_frame allowed c f p)"
proof (cases allowed)
  case True
  let ?i = "slot_of c p" and ?item = "(c, text_of (f_data f))" and ?q = "enqueue_frame allowed c f p"
  have q: "?q = p\<lparr>pl_slots := (pl_slots p)[?i := pl_slots p ! ?i @ [?item]], pl_in := pl_in p @ [?item]\<rparr>"
    using True by (simp add: enqueue_frame_def Let_def)
  have slot: "slot_of d ?q = slot_of d p" for d by (simp add: q slot_of_def)
  have pend: "pending ?q i = pending p i @ (if i = ?i then [?item] else [])" if "i < length (pl_slots p)" for i
    using that by (auto simp: pending_def held_items_def q nth_list_update)
  show ?thesis
    using ok slot_of_less [OF ok] pend unfolding order_ok_def slot by (auto simp: q)
qed (simp add: enqueue_frame_def ok)

lemma take_order:
  assumes ok: "order_ok p" and i: "i < length (pl_slots p)" "pl_held p ! i = None" "pl_slots p ! i \<noteq> []"
  shows "order_ok (take_item i p)"
proof -
  obtain item rest where s: "pl_slots p ! i = item # rest" using i(3) by (cases "pl_slots p ! i") auto
  have q: "take_item i p = p\<lparr>pl_slots := (pl_slots p)[i := rest], pl_held := (pl_held p)[i := Some item]\<rparr>"
    using s by (simp add: take_item_def)
  have "pending (take_item i p) j = pending p j" if "j < length (pl_slots p)" for j
    using that i s ok by (auto simp: pending_def held_items_def q nth_list_update order_ok_def)
  then show ?thesis using ok slot_of_less [OF ok] unfolding order_ok_def by (simp add: q slot_of_def)
qed

lemma handle_order:
  assumes ok: "order_ok p" and i: "i < length (pl_slots p)"
  shows "order_ok (handle_item e allowed i p)"
proof (cases "pl_held p ! i")
  case (Some item)
  obtain c data where item: "item = (c, data)" by force
  let ?q = "p\<lparr>pl_held := (pl_held p)[i := None], pl_done := pl_done p @ [(c, data)]\<rparr>"
  have slot: "slot_of d ?q = slot_of d p" for d by (simp add: slot_of_def)
  have pend: "pending p j = (if j = i then (c, data) # pending ?q j else pending ?q j)" if "j < length (pl_slots p)" for j
    using that i ok Some item by (auto simp: pending_def held_items_def order_ok_def nth_list_update)
  have c: "slot_of c p = i" using ok pend [OF i] i by (auto simp: order_ok_def)
  have "order_ok ?q"
    using ok slot_of_less [OF ok] pend c unfolding order_ok_def slot by (auto split: if_splits)
  then show ?thesis using Some item by (auto simp: handle_item_def Let_def intro: order_ok_cong [THEN iffD2, rotated -1])
qed (simp add: handle_item_def ok)

lemma task_order:
  assumes ok: "order_ok p"
  shows "order_ok (do_task e we allowed p)"
proof (cases "pl_todo p")
  case (Cons t ts)
  have q: "order_ok (p\<lparr>pl_todo := ts\<rparr>)" using ok by (simp add: order_ok_cong [of "p\<lparr>pl_todo := ts\<rparr>" p])
  show ?thesis
  proof (cases t)
    case (T_frame c f)
    then show ?thesis using Cons enqueue_order [OF q] by (simp add: do_task_def Let_def)
  qed (use Cons q in \<open>auto simp: do_task_def Let_def flush_round_def intro: order_ok_cong [THEN iffD2, rotated -1]\<close>)
qed (simp add: do_task_def ok)

lemma work_order: "pool_work p q \<Longrightarrow> order_ok p \<Longrightarrow> order_ok q"
  by (induction rule: pool_work.induct) (simp_all add: task_order take_order handle_order)

lemma pool_order: "pool_reach p \<Longrightarrow> order_ok p"
proof (induction rule: pool_reach.induct)
  case (start ao n cfg)
  have "pending (pool_new n (WS_Server.start (ws_server_new cfg)) ao) i = []" if "i < max 1 n" for i
    using that by (simp add: pending_def held_items_def pool_new_def Let_def)
  moreover have "x mod max 1 n < max 1 n" for x by (rule mod_less_divisor) simp
  ultimately show ?case by (simp add: order_ok_def pool_new_def Let_def slot_of_def)
next
  case (poll p accepts we events)
  then show ?case by (auto simp: poll_round_def split: prod.split intro: order_ok_cong [THEN iffD2, rotated -1])
qed (simp add: work_order)



section \<open>The work between two polls\<close>

text \<open>A message in the list of the poll thread needs three more steps until it is handled, one in a slot two,
and one that is held a single one; the callbacks that a flush adds do not add messages.\<close>

definition is_callback :: "poll_task \<Rightarrow> bool" where
  "is_callback t = (case t of T_callback ev \<Rightarrow> True | _ \<Rightarrow> False)"

lemma is_callback_simps [simp]: "is_callback (T_callback ev)" "\<not> is_callback (T_frame c f)" "\<not> is_callback T_flush"
  by (simp_all add: is_callback_def)

definition messages_left :: "'m pool \<Rightarrow> nat" where
  "messages_left p = sum_list (map (\<lambda>t. if is_callback t then 0 else 3) (pl_todo p)) + 2 * total_queued p +
     length (filter (\<lambda>h. h \<noteq> None) (pl_held p))"

lemma sum_list_update_nat:
  fixes xs :: "nat list"
  shows "i < length xs \<Longrightarrow> sum_list (xs[i := v]) + xs ! i = sum_list xs + v"
proof (induction xs arbitrary: i)
  case (Cons x xs)
  then show ?case by (cases i) (auto simp: add_ac)
qed simp

lemma queued_update: "i < length (pl_slots p) \<Longrightarrow>
  total_queued (p\<lparr>pl_slots := (pl_slots p)[i := q]\<rparr>) + length (pl_slots p ! i) = total_queued p + length q"
  using sum_list_update_nat [of i "map length (pl_slots p)" "length q"] by (simp add: total_queued_def map_update)

lemma held_update:
  "i < length hs \<Longrightarrow> length (filter P (hs[i := h])) + (if P (hs ! i) then 1 else 0) = length (filter P hs) + (if P h then 1 else 0)"
proof (induction hs arbitrary: i)
  case (Cons x hs)
  then show ?case by (cases i) auto
qed simp

lemma callbacks_are_callbacks: "list_all is_callback (callbacks es)"
  by (induction es) (auto simp: callbacks_def is_callback_def)

lemma callbacks_no_messages: "sum_list (map (\<lambda>t. if is_callback t then 0 else 3 :: nat) (callbacks es)) = 0"
  using callbacks_are_callbacks [of es] by (auto simp: list_all_iff)

definition less_work :: "('m pool \<times> 'm pool) set" where
  "less_work = messages_left <*mlex*> (\<lambda>p. length (pl_todo p)) <*mlex*> {}"

lemma less_work_wf: "wf less_work"
  by (simp add: less_work_def wf_mlex)

lemma task_less:
  assumes "order_ok p" "pl_todo p = t # ts"
  shows "(do_task e we allowed p, p) \<in> less_work"
proof (cases t)
  case (T_callback ev)
  have "messages_left (do_task e we allowed p) = messages_left p" "length (pl_todo (do_task e we allowed p)) < length (pl_todo p)"
    using assms(2) T_callback by (simp_all add: do_task_def Let_def messages_left_def total_queued_def)
  then show ?thesis by (simp add: less_work_def mlex_prod_def)
next
  case (T_frame c f)
  have "messages_left (do_task e we allowed p) < messages_left p"
    using assms(2) T_frame queued_update [OF slot_of_less [OF assms(1)], of c "pl_slots p ! slot_of c p @ [(c, text_of (f_data f))]"]
    by (auto simp: do_task_def Let_def messages_left_def enqueue_frame_def slot_of_def total_queued_def)
  then show ?thesis by (simp add: less_work_def mlex_prod_def)
next
  case T_flush
  have "messages_left (do_task e we allowed p) < messages_left p"
    using assms(2) T_flush
    by (simp add: do_task_def Let_def messages_left_def flush_round_def total_queued_def callbacks_no_messages)
  then show ?thesis by (simp add: less_work_def mlex_prod_def)
qed

lemma work_less: "pool_work p q \<Longrightarrow> order_ok p \<Longrightarrow> (q, p) \<in> less_work"
proof (induction rule: pool_work.induct)
  case (task p e we allowed)
  then show ?case by (cases "pl_todo p") (simp_all add: task_less)
next
  case (take p i)
  then obtain item rest where s: "pl_slots p ! i = item # rest" by (cases "pl_slots p ! i") auto
  have "i < length (pl_held p)" using take by (simp add: order_ok_def)
  then have "messages_left (take_item i p) < messages_left p"
    using take s queued_update [OF take(2), of rest] held_update [of i "pl_held p" "\<lambda>h. h \<noteq> None" "Some item"]
    by (auto simp: take_item_def messages_left_def total_queued_def)
  then show ?case by (simp add: less_work_def mlex_prod_def)
next
  case (handle p i e allowed)
  then obtain c data where h: "pl_held p ! i = Some (c, data)" by force
  have "i < length (pl_held p)" using handle by (simp add: order_ok_def)
  then have "messages_left (handle_item e allowed i p) < messages_left p"
    using h held_update [of i "pl_held p" "\<lambda>h. h \<noteq> None" None]
    by (auto simp: handle_item_def Let_def messages_left_def total_queued_def)
  then show ?case by (simp add: less_work_def mlex_prod_def)
qed



section \<open>A refused client\<close>

lemma hi_banned:
  assumes p: "p < length (heap (sv_room s))" "s_client_id (session_at p s) = c"
    and "in_phase c P_CONNECTED s" "banned e p h s" "se_has_send e" "se_ws_addr e \<noteq> None"
  shows "\<exists>msg. sv_outs (handle_HI e p h s) = sv_outs s @ [Sent c (serialize (packet ''KB'' [msg])), Closed c]"
proof -
  note reads = register_hardware_reads [OF p(1), where e = e and h = h]
  have "ban_for e p (register_hardware e p h s) \<noteq> None"
    using reads assms(4) p(2) by (auto simp: ban_for_def banned_def split: option.split)
  then obtain b where b: "ban_for e p (register_hardware e p h s) = Some b" by blast
  then have "handle_HI e p h s = close_now e c (send e c (packet ''KB'' [be_reason b]) (register_hardware e p h s))"
    using assms(3) p(2) by (simp add: handle_HI_def Let_def)
  then show ?thesis using assms(5,6) reads(9)
    by (intro exI [of _ "be_reason b"]) (auto simp: close_now_def send_def emit_def on_room_def Let_def)
qed

lemma received_same:
  assumes "registry_ok s" "get_session c (sv_room s) = Some p"
  shows "sv_outs (on_room (count_received c n) s) = sv_outs s" "sv_proto (on_room (count_received c n) s) = sv_proto s"
    "sv_bans (on_room (count_received c n) s) = sv_bans s"
    "get_session c (sv_room (on_room (count_received c n) s)) = Some p"
    "p < length (heap (sv_room (on_room (count_received c n) s)))"
    "s_client_id (session_at p (on_room (count_received c n) s)) = c"
    "s_ipid (session_at p (on_room (count_received c n) s)) = s_ipid (session_at p s)"
  using registry_okD(3) [OF assms] assms(2)
  by (simp_all add: on_room_def count_received_def session_at_def)

lemma hi_frame:
  assumes "CHR ''#'' \<notin> set h" "get_session c (sv_room s) = Some p"
  shows "server_frame e c (serialize (packet ''HI'' [h])) s = handle_HI e p h s"
  using assms by (subst server_frame_packet)
    (auto simp: chat_headers create_packet_def packet_creators_simps HI_of_def with_body_def packet_def server_handle_def)

lemma hi_message:
  assumes reach: "server_reach s" and p: "get_session c (sv_room s) = Some p"
    and ps: "get_protocol_state c s = Some ps" "protocol_state.incomplete_buf ps = []"
    and h: "CHR ''#'' \<notin> set h" "CHR ''%'' \<notin> set h" "length h < 1000"
  shows "sv_outs (on_client_message e c (serialize (packet ''HI'' [h])) s) =
    sv_outs (handle_HI e p h (on_room (count_received c (length (serialize (packet ''HI'' [h])))) s))"
proof -
  let ?raw = "serialize (packet ''HI'' [h])" and ?s1 = "on_room (count_received c (length (serialize (packet ''HI'' [h])))) s"
  have "registry_ok s" using server_reach_ok [OF reach] by (simp add: server_ok_def)
  note same = received_same [OF this p, of "length ?raw"]
  have raw: "?raw = (''HI#'' @ h) @ DELIMITER" by (simp add: serialize_def packet_def DELIMITER_def)
  have body: "frame_body (''HI#'' @ h)"
  proof (rule frame_body_no_percent)
    show "CHR ''%'' \<notin> set (''HI#'' @ h)" using h(2) by simp
  qed
  have d: "drain (server_frame e c) ?raw ?s1 = ([], server_frame e c ?raw ?s1)"
    using drain_frames [of "[''HI#'' @ h]" "server_frame e c" "[]" ?s1] body raw by (simp add: drain_None DELIMITER_def)
  have outs: "sv_outs (set_buffer c b t) = sv_outs t" for b t
    by (simp add: set_buffer_def set_protocol_state_def split: option.split)
  have "length ?raw \<le> MAX_INCOMPLETE_BUF" using h(3) raw by (simp add: DELIMITER_def MAX_INCOMPLETE_BUF_def)
  then show ?thesis
    using ps d hi_frame [OF h(1) same(4), of e] by (simp add: on_client_message_def Let_def outs)
qed


definition demo_bans :: ban_manager where
  "demo_bans = ban_manager_new\<lparr>bm_bans := [(''x'', ban_entry_new\<lparr>be_ipid := ''x'', be_hdid := ''pc'', be_duration := - 2\<rparr>)]\<rparr>"

lemma connected_bans:
  "server_connected e c (s\<lparr>sv_bans := b\<rparr>) = (server_connected e c s)\<lparr>sv_bans := b\<rparr>"
  by (simp add: server_connected_def Let_def send_def on_session_def on_room_def emit_def session_at_def split: prod.split)

lemma connected_protocol:
  "map_of (sv_proto s) c = None \<Longrightarrow> get_protocol_state c (server_connected e c s) = Some protocol_state_new"
  by (simp add: server_connected_def Let_def get_protocol_send split: prod.split)
    (simp add: get_protocol_state_def on_session_def on_room_def map_add_Some_iff)

definition demo_banned :: "unit ao_server" where
  "demo_banned = (demo_run [server_event.Connected 1])\<lparr>sv_bans := Some demo_bans\<rparr>"

lemma demo_banned_reach: "server_reach demo_banned"
proof -
  have "demo_start\<lparr>sv_bans := Some demo_bans\<rparr> = (server_new demo_config)\<lparr>sv_bans := Some demo_bans, sv_spam := None,
      sv_asn := None, sv_moderator := None, sv_users := None\<rparr>"
    by (rule ao_server.equality) (simp_all add: demo_start_def)
  then have "server_reach (demo_start\<lparr>sv_bans := Some demo_bans\<rparr>)"
    using server_reach.start [OF demo_config_empty, where bm = "Some demo_bans" and sd = None and am = None and m = None and us = None]
    by simp
  moreover have "get_session 1 (sv_room demo_start) = None"
    by (simp add: demo_start_def server_new_def demo_config_empty [unfolded empty_room_def] get_session_def pm_find_empty
        add_ic_broadcast_def add_ooc_broadcast_def add_char_select_broadcast_def add_music_broadcast_def add_chars_taken_broadcast_def)
  ultimately show ?thesis
    using server_reach.step [OF _ demo_reload, of "demo_start\<lparr>sv_bans := Some demo_bans\<rparr>" "server_event.Connected 1"]
    by (simp add: demo_banned_def demo_run_def connected_bans)
qed

lemma demo_banned_facts:
  "get_session 1 (sv_room demo_banned) = Some 0" "in_phase 1 P_CONNECTED demo_banned"
  "get_protocol_state 1 demo_banned = Some protocol_state_new" "banned e 0 ''pc'' demo_banned"
  using demo_get_1(1) demo_hi connected_protocol [of demo_start 1 demo_env] demo_start_proto
  by (auto simp: demo_banned_def demo_hi_def in_phase_def get_protocol_state_def demo_run_def banned_def demo_bans_def
      check_ban_def ban_manager_new_def hdid_matches_def ban_entry_new_def is_expired_def is_permanent_def Let_def)

definition demo_banned_pool :: "unit pool" where
  "demo_banned_pool = (pool_new 1 ((ws_server_new demo_ws_config)\<lparr>ws_clients := [(1, ws_conn_new)]\<rparr>) demo_banned)
     \<lparr>pl_held := [Some (1, serialize (packet ''HI'' [''pc'']))]\<rparr>"


section \<open>The sweep\<close>

lemma destroy_all:
  assumes "store_ok h U g" "inj_on h U"
  shows "store_ok h U (fold (destroy_session h) cs g) \<and> view (fold (destroy_session h) cs g) = (\<lambda>c. if c \<in> set cs then None else view g c)"
  using assms
proof (induction cs arbitrary: g)
  case (Cons c cs)
  from view_destroy [OF Cons.prems] Cons.IH [of "destroy_session h c g"] Cons.prems(2) show ?case by (auto simp: fun_eq_iff)
qed simp

lemma expire_batches_view:
  assumes "store_ok h U g" "inj_on h U"
  shows "view (fst (expire_batches h ids g)) = (\<lambda>c. if c \<in> set ids then None else view g c)"
  using assms
proof (induction h ids g rule: expire_batches.induct)
  case (2 h c cs g)
  let ?g1 = "fold (destroy_session h) (take 64 (c # cs)) g"
  note d = destroy_all [OF 2(2,3), of "take 64 (c # cs)"]
  have "set (c # cs) = set (take 64 (c # cs)) \<union> set (drop 64 (c # cs))" by (metis append_take_drop_id set_append)
  with 2(1) [OF refl refl] d 2(3) show ?case
    by (auto simp: Let_def fun_eq_iff split: prod.split)
qed simp

text \<open>The sweep destroys exactly the sessions that were found expired, each of them, whatever has become of them
since: a session whose client renewed it between the search and the destruction is destroyed all the same.\<close>

theorem sweep_destroys_renewed:
  assumes "store_ok h U g" and "inj_on h U"
  shows "view (fst (expire_batches h (find_expired_sessions now ttl g0) g)) c =
    (if c \<in> set (find_expired_sessions now ttl g0) then None else view g c)"
  using expire_batches_view [OF assms] by simp

theorem sweep_destroys_renewed_witness:
  "view (fst (expire_batches test_hash (find_expired_sessions 61000000001 60 demo_room) demo_room)) 3 = None"
proof -
  have "store_ok test_hash {''tok''} demo_room" using room_reach_ok [OF demo_reach demo_inj] by (simp add: room_ok_def)
  moreover have "3 \<in> set (find_expired_sessions 61000000001 60 demo_room)" by code_simp
  ultimately show ?thesis using sweep_destroys_renewed [OF _ demo_inj, of demo_room 61000000001 60 demo_room 3] by simp
qed

end
