(* ===== verification/Firewall_Manager.thy ===== *)
theory Firewall_Manager
  imports FW_Helper Ban_Manager User_Store
begin

text \<open>
  Kernel-level blocking: include/game/FirewallManager.h, engine/game/FirewallManager.cpp, and the
  \<open>/firewall\<close> command. The manager keeps the rules and a queue of commands; its thread takes them
  one by one and starts the helper of \<open>FW_Helper\<close> for each. \<open>rules_\<close> is an \<open>unordered_map\<close>, here
  the list of its entries in the order in which it enumerates them. The clock (seconds) is an
  argument, and times are unbounded integers. Files are JSON arrays written and parsed by a
  library: a document is the list of its items. What nft does to the kernel is a parameter.
\<close>

section \<open>Data\<close>

record firewall_rule =
  fr_target :: string
  fr_reason :: string
  fr_installed_at :: int
  fr_expires_at :: int

record firewall_config =
  fg_enabled :: bool
  fg_helper_path :: string
  fg_cleanup_on_shutdown :: bool

type_synonym helper_command = "string \<times> string"

record firewall_manager =
  fm_config :: firewall_config
  fm_enabled :: bool
  fm_rules :: "(string \<times> firewall_rule) list"
  fm_exec_queue :: "helper_command list"

definition firewall_manager_new :: firewall_manager where
  "firewall_manager_new = \<lparr>fm_config = \<lparr>fg_enabled = False, fg_helper_path = [], fg_cleanup_on_shutdown = True\<rparr>,
     fm_enabled = False, fm_rules = [], fm_exec_queue = []\<rparr>"

section \<open>Validation\<close>

definition manager_valid_ipv4 :: "(int \<Rightarrow> int) \<Rightarrow> string \<Rightarrow> bool" where
  "manager_valid_ipv4 ovf ip =
    (case sscanf ovf ipv4_format (c_str ip) of
       ([a, b, c, d], n) \<Rightarrow>
         n = 4 \<and> a \<ge> 0 \<and> a \<le> 255 \<and> b \<ge> 0 \<and> b \<le> 255 \<and> c \<ge> 0 \<and> c \<le> 255 \<and> d \<ge> 0 \<and> d \<le> 255
     | _ \<Rightarrow> False)"

definition manager_v6_char :: "char \<Rightarrow> v6_state \<Rightarrow> v6_state option" where
  "manager_v6_char c st =
    (if c = CHR '':'' then
       (let st1 = st\<lparr>has_colon := True, consecutive_colons := consecutive_colons st + 1\<rparr>;
            st2 = (if consecutive_colons st1 = 2 then st1\<lparr>double_colon_count := double_colon_count st1 + 1\<rparr> else st1)
        in if consecutive_colons st2 > 2 \<or> double_colon_count st2 > 1 then None else Some st2)
     else if c_isxdigit c then
       Some ((if consecutive_colons st > 0 then st\<lparr>groups := groups st + 1\<rparr> else st)\<lparr>consecutive_colons := 0\<rparr>)
     else None)"

fun manager_v6_loop :: "string \<Rightarrow> v6_state \<Rightarrow> v6_state option" where
  "manager_v6_loop [] st = Some st"
| "manager_v6_loop (c # s) st = (case manager_v6_char c st of None \<Rightarrow> None | Some st' \<Rightarrow> manager_v6_loop s st')"

definition manager_valid_ip :: "(int \<Rightarrow> int) \<Rightarrow> string \<Rightarrow> bool" where
  "manager_valid_ip ovf ip =
    (if ip = [] \<or> length ip > 45 then False
     else if CHR ''.'' \<in> set ip then manager_valid_ipv4 ovf ip
     else if length ip > 39 then False
     else case manager_v6_loop ip v6_init of
            None \<Rightarrow> False
          | Some st \<Rightarrow>
              if \<not> has_colon st then False
              else
                (let n = (if last ip \<noteq> CHR '':'' then groups st + 1 else groups st)
                 in if double_colon_count st = 0 \<and> n \<noteq> 8 then False
                    else if n > 8 then False
                    else True))"

text \<open>\<open>std::stoi\<close>, which stops at the first character that is no digit; \<open>None\<close> when it throws.\<close>

definition prefix_stoi :: "string \<Rightarrow> int option" where
  "prefix_stoi s =
    (case scan_int (c_str s) of
       None \<Rightarrow> None
     | Some (v, _) \<Rightarrow> if - (2 ^ 31) \<le> v \<and> v < 2 ^ 31 then Some v else None)"

definition manager_valid_cidr :: "(int \<Rightarrow> int) \<Rightarrow> string \<Rightarrow> bool" where
  "manager_valid_cidr ovf cidr =
    (let ip_part = takeWhile (\<lambda>c. c \<noteq> CHR ''/'') cidr in
     case dropWhile (\<lambda>c. c \<noteq> CHR ''/'') cidr of
       [] \<Rightarrow> False
     | slash # prefix_str \<Rightarrow>
         if ip_part = [] \<or> prefix_str = [] then False
         else if \<not> manager_valid_ip ovf ip_part then False
         else (case prefix_stoi prefix_str of
                 None \<Rightarrow> False
               | Some pr \<Rightarrow> pr \<ge> 0 \<and> pr \<le> (if CHR '':'' \<in> set ip_part then 128 else 32)))"

section \<open>Configuration\<close>

text \<open>What the file system says of the helper's path.\<close>

datatype helper_file = Status_Throws | Not_Found | Not_Executable | Executable

definition enqueue_command :: "helper_command \<Rightarrow> firewall_manager \<Rightarrow> firewall_manager" where
  "enqueue_command cmd m = m\<lparr>fm_exec_queue := fm_exec_queue m @ [cmd]\<rparr>"

definition firewall_configure :: "helper_file \<Rightarrow> firewall_config \<Rightarrow> firewall_manager \<Rightarrow> firewall_manager" where
  "firewall_configure file cfg m =
    (let m1 = m\<lparr>fm_config := cfg\<rparr> in
     if \<not> fg_enabled cfg \<or> fg_helper_path cfg = [] then m1\<lparr>fm_enabled := False\<rparr>
     else case file of
            Status_Throws \<Rightarrow> m1\<lparr>fm_enabled := False\<rparr>
          | Not_Found \<Rightarrow> m1\<lparr>fm_enabled := False\<rparr>
          | Not_Executable \<Rightarrow> m1\<lparr>fm_enabled := False\<rparr>
          | Executable \<Rightarrow> enqueue_command (''init'', []) (m1\<lparr>fm_enabled := True\<rparr>))"

section \<open>Rules\<close>

definition new_rule :: "int \<Rightarrow> string \<Rightarrow> string \<Rightarrow> int \<Rightarrow> firewall_rule" where
  "new_rule now target reason duration_sec =
     \<lparr>fr_target = target, fr_reason = reason, fr_installed_at = now,
      fr_expires_at = (if duration_sec = DURATION_PERMANENT then 0 else now + duration_sec)\<rparr>"

definition store_rule :: "firewall_rule \<Rightarrow> firewall_manager \<Rightarrow> firewall_manager" where
  "store_rule r m = m\<lparr>fm_rules := AList.update (fr_target r) r (fm_rules m)\<rparr>"

definition block_ip :: "(int \<Rightarrow> int) \<Rightarrow> int \<Rightarrow> string \<Rightarrow> string \<Rightarrow> int \<Rightarrow> firewall_manager \<Rightarrow> bool \<times> firewall_manager" where
  "block_ip ovf now ip reason duration_sec m =
    (if \<not> fm_enabled m then (False, m)
     else if \<not> manager_valid_ip ovf ip then (False, m)
     else (True, enqueue_command (''add'', ip) (store_rule (new_rule now ip reason duration_sec) m)))"

definition unblock_ip :: "string \<Rightarrow> firewall_manager \<Rightarrow> bool \<times> firewall_manager" where
  "unblock_ip ip m =
    (if \<not> fm_enabled m then (False, m)
     else if map_of (fm_rules m) ip = None then (False, m)
     else (True, enqueue_command (''remove'', ip) (m\<lparr>fm_rules := AList.delete ip (fm_rules m)\<rparr>)))"

definition block_range :: "(int \<Rightarrow> int) \<Rightarrow> int \<Rightarrow> string \<Rightarrow> string \<Rightarrow> int \<Rightarrow> firewall_manager \<Rightarrow> bool \<times> firewall_manager" where
  "block_range ovf now cidr reason duration_sec m =
    (if \<not> fm_enabled m then (False, m)
     else if \<not> manager_valid_cidr ovf cidr then (False, m)
     else (True, enqueue_command (''add-range'', cidr) (store_rule (new_rule now cidr reason duration_sec) m)))"

definition unblock_range :: "string \<Rightarrow> firewall_manager \<Rightarrow> bool \<times> firewall_manager" where
  "unblock_range cidr m =
    (if \<not> fm_enabled m then (False, m)
     else if map_of (fm_rules m) cidr = None then (False, m)
     else (True, enqueue_command (''remove-range'', cidr) (m\<lparr>fm_rules := AList.delete cidr (fm_rules m)\<rparr>)))"

definition rule_expired :: "int \<Rightarrow> firewall_rule \<Rightarrow> bool" where
  "rule_expired now r = (fr_expires_at r > 0 \<and> fr_expires_at r \<le> now)"

definition is_range :: "string \<Rightarrow> bool" where
  "is_range target = (CHR ''/'' \<in> set target)"

definition sweep_rules :: "int \<Rightarrow> firewall_manager \<Rightarrow> nat \<times> firewall_manager" where
  "sweep_rules now m =
    (if \<not> fm_enabled m then (0, m)
     else
       let to_remove = map fst (filter (\<lambda>(_, r). rule_expired now r) (fm_rules m));
           m1 = m\<lparr>fm_rules := fold AList.delete to_remove (fm_rules m)\<rparr>
       in (length to_remove,
           fold (\<lambda>t. enqueue_command (if is_range t then ''remove-range'' else ''remove'', t)) to_remove m1))"

definition list_rules :: "firewall_manager \<Rightarrow> firewall_rule list" where
  "list_rules m = map snd (fm_rules m)"

definition flush_rules :: "firewall_manager \<Rightarrow> firewall_manager" where
  "flush_rules m = enqueue_command (''flush'', []) (m\<lparr>fm_rules := []\<rparr>)"

section \<open>Persistence\<close>

text \<open>The document is \<open>None\<close> when the file does not open, does not parse or is not an array.\<close>

definition load_rules :: "int \<Rightarrow> firewall_rule list option \<Rightarrow> firewall_manager \<Rightarrow> firewall_manager" where
  "load_rules now doc m =
    (case doc of
       None \<Rightarrow> m
     | Some items \<Rightarrow>
         fold (\<lambda>r m'. if fr_target r = [] \<or> rule_expired now r then m'
                      else enqueue_command (if is_range (fr_target r) then ''add-range'' else ''add'', fr_target r)
                             (store_rule r m')) items m)"

definition save_rules :: "firewall_manager \<Rightarrow> firewall_rule list" where
  "save_rules m = map snd (fm_rules m)"

section \<open>The thread that runs the helper\<close>

text \<open>The operating system: whether a fork of the server succeeds, the helper's environment, and
the effect of the programs that the helper starts, in each state of the kernel.\<close>

record 'k system =
  sy_fork_ok :: bool
  sy_host :: "'k \<Rightarrow> host"
  sy_run :: "string list \<Rightarrow> 'k \<Rightarrow> 'k"
  sy_script :: "string \<Rightarrow> 'k \<Rightarrow> 'k"

fun apply_effect :: "'k system \<Rightarrow> fw_effect \<Rightarrow> 'k \<Rightarrow> 'k" where
  "apply_effect sys (Stderr s) k = k"
| "apply_effect sys (Exec argv) k = sy_run sys argv k"
| "apply_effect sys (Exec_Stdin argv s) k = sy_script sys s k"

definition exec_helper :: "'k system \<Rightarrow> (int \<Rightarrow> int) \<Rightarrow> firewall_config \<Rightarrow> helper_command \<Rightarrow> 'k \<Rightarrow> bool \<times> 'k" where
  "exec_helper sys ovf cfg cmd k =
    (case cmd of (action, target) \<Rightarrow>
       if fg_helper_path cfg = [] then (False, k)
       else if \<not> sy_fork_ok sys then (False, k)
       else
         let argv = [c_str (fg_helper_path cfg), c_str action] @ (if target = [] then [] else [c_str target]);
             (es, status) = fw_main (sy_host sys k) ovf argv
         in (status mod 256 = 0, fold (apply_effect sys) es k))"

text \<open>One turn of \<open>exec_loop\<close>, and what it does with the commands that are left at the stop.\<close>

definition exec_turn :: "'k system \<Rightarrow> (int \<Rightarrow> int) \<Rightarrow> firewall_manager \<times> 'k \<Rightarrow> firewall_manager \<times> 'k" where
  "exec_turn sys ovf mk =
    (case mk of (m, k) \<Rightarrow>
       case fm_exec_queue m of
         [] \<Rightarrow> (m, k)
       | cmd # cmds \<Rightarrow> (m\<lparr>fm_exec_queue := cmds\<rparr>, snd (exec_helper sys ovf (fm_config m) cmd k)))"

definition drain_commands :: "'k system \<Rightarrow> (int \<Rightarrow> int) \<Rightarrow> firewall_config \<Rightarrow> helper_command list \<Rightarrow> 'k \<Rightarrow> 'k" where
  "drain_commands sys ovf cfg cmds k = fold (\<lambda>cmd k. snd (exec_helper sys ovf cfg cmd k)) cmds k"

definition firewall_destroy :: "'k system \<Rightarrow> (int \<Rightarrow> int) \<Rightarrow> firewall_manager \<times> 'k \<Rightarrow> 'k" where
  "firewall_destroy sys ovf mk =
    (case mk of (m, k) \<Rightarrow>
       drain_commands sys ovf (fm_config m) (fm_exec_queue m)
         (if fm_enabled m \<and> fg_cleanup_on_shutdown (fm_config m)
          then snd (exec_helper sys ovf (fm_config m) (''flush'', []) k) else k))"

text \<open>The operations of the manager and the turns of its thread, in any order.\<close>

datatype firewall_op =
    Fw_Configure helper_file firewall_config
  | Fw_Block_Ip int string string int
  | Fw_Unblock_Ip string
  | Fw_Block_Range int string string int
  | Fw_Unblock_Range string
  | Fw_Sweep int
  | Fw_Flush
  | Fw_Load int "firewall_rule list option"
  | Fw_Turn

fun firewall_op_run :: "(int \<Rightarrow> int) \<Rightarrow> firewall_op \<Rightarrow> firewall_manager \<Rightarrow> firewall_manager" where
  "firewall_op_run ovf (Fw_Configure file cfg) m = firewall_configure file cfg m"
| "firewall_op_run ovf (Fw_Block_Ip now ip reason d) m = snd (block_ip ovf now ip reason d m)"
| "firewall_op_run ovf (Fw_Unblock_Ip ip) m = snd (unblock_ip ip m)"
| "firewall_op_run ovf (Fw_Block_Range now cidr reason d) m = snd (block_range ovf now cidr reason d m)"
| "firewall_op_run ovf (Fw_Unblock_Range cidr) m = snd (unblock_range cidr m)"
| "firewall_op_run ovf (Fw_Sweep now) m = snd (sweep_rules now m)"
| "firewall_op_run ovf Fw_Flush m = flush_rules m"
| "firewall_op_run ovf (Fw_Load now doc) m = load_rules now doc m"
| "firewall_op_run ovf Fw_Turn m = m"

definition firewall_step :: "'k system \<Rightarrow> (int \<Rightarrow> int) \<Rightarrow> firewall_op \<Rightarrow> firewall_manager \<times> 'k \<Rightarrow> firewall_manager \<times> 'k" where
  "firewall_step sys ovf op mk =
    (case mk of (m, k) \<Rightarrow>
       if op = Fw_Turn then exec_turn sys ovf (m, k) else (firewall_op_run ovf op m, k))"

section \<open>The command and the bans\<close>

definition utf8_dash :: string where
  "utf8_dash = [CHR 0xE2, CHR 0x80, CHR 0x94]"

definition firewall_usage :: string where
  "firewall_usage = ''/firewall list | /firewall add <ip> <duration> | /firewall remove <ip> | /firewall flush''"

definition rule_line :: "firewall_rule \<Rightarrow> string" where
  "rule_line r =
     ''  '' @ fr_target r @ '' '' @ utf8_dash @ '' '' @ fr_reason r @
     (if fr_expires_at r > 0 then '' (expires)'' else '' (permanent)'') @ nl"

text \<open>
  The command's arguments start with its name and have passed the registry's check of their number.
  The results: the manager, the document it saved, and the answer to the client. \<open>None\<close> when the
  duration overflows the parser's integers.
\<close>

definition firewall_command ::
  "(int \<Rightarrow> int) \<Rightarrow> int \<Rightarrow> string \<Rightarrow> string list \<Rightarrow> firewall_manager \<Rightarrow>
     (firewall_manager \<times> firewall_rule list option \<times> string) option" where
  "firewall_command ovf now display_name args m =
    (if \<not> fm_enabled m then Some (m, None, ''Firewall manager is not configured or helper binary not found.'')
     else
       let subcmd = args ! 1 in
       if subcmd = ''list'' then
         (let rules = list_rules m in
          if rules = [] then Some (m, None, ''No active firewall rules.'')
          else Some (m, None, show_nat (length rules) @ '' active rule(s):'' @ nl @ concat (map rule_line rules)))
       else if subcmd = ''add'' \<and> length args \<ge> 4 then
         (let target = args ! 2; duration_str = args ! 3 in
          case parse_ban_duration duration_str of
            None \<Rightarrow> None
          | Some duration \<Rightarrow>
              if duration = - 1 then Some (m, None, ''Invalid duration: '' @ duration_str)
              else
                (let (ok, m') = block_ip ovf now target (''Manual firewall block by '' @ display_name) duration m
                 in if ok then
                      Some (m', Some (save_rules m'), ''Firewall: blocked '' @ target @ '' ('' @ duration_str @ '')'')
                    else Some (m', None, ''Failed to block '' @ target @ '' '' @ utf8_dash @ '' invalid IP?'')))
       else if subcmd = ''remove'' \<and> length args \<ge> 3 then
         (let target = args ! 2; (ok, m') = unblock_ip target m
          in if ok then Some (m', Some (save_rules m'), ''Firewall: unblocked '' @ target)
             else Some (m', None, ''No firewall rule for '' @ target))
       else if subcmd = ''flush'' then
         (let m' = flush_rules m in Some (m', Some (save_rules m'), ''Firewall: all rules flushed.''))
       else Some (m, None, ''Usage: '' @ firewall_usage))"

text \<open>The calls that the ban manager makes, carried out.\<close>

fun ban_firewall_call :: "(int \<Rightarrow> int) \<Rightarrow> int \<Rightarrow> ban_call \<Rightarrow> firewall_manager \<Rightarrow> firewall_manager" where
  "ban_firewall_call ovf now (Fw_Block ip reason d) m = snd (block_ip ovf now ip reason d m)"
| "ban_firewall_call ovf now (Fw_Unblock ip) m = snd (unblock_ip ip m)"
| "ban_firewall_call ovf now _ m = m"

end
