(* ===== verification/Firewall_Manager_Props.thy ===== *)
theory Firewall_Manager_Props
  imports Firewall_Manager
begin

text \<open>
  The firewall manager together with its helper and the kernel: which targets both accept, that
  the kernel blocks what the rules say once the queue is empty, what a flush does to later blocks,
  and what survives a crash. The documented behaviour of nft is the predicate \<open>nft_laws\<close>.
\<close>

section \<open>The two address checks agree\<close>

lemma v6_char_eq: "double_colon_count st \<le> 1 \<Longrightarrow> manager_v6_char c st = v6_char c st"
  by (auto simp: manager_v6_char_def v6_char_def Let_def)

lemma v6_char_count: "v6_char c st = Some st' \<Longrightarrow> double_colon_count st \<le> 1 \<Longrightarrow> double_colon_count st' \<le> 1"
  by (auto simp: v6_char_def Let_def split: if_splits)

lemma v6_loop_eq: "double_colon_count st \<le> 1 \<Longrightarrow> manager_v6_loop s st = v6_loop s st"
  by (induction s arbitrary: st) (auto simp: v6_char_eq split: option.split dest: v6_char_count)

lemma sscanf_ipv4_all:
  assumes "snd (sscanf ovf ipv4_format s) = 4"
  shows "length (fst (sscanf ovf ipv4_format s)) = 4"
  using assms by (auto simp: ipv4_format_def split: option.splits prod.splits list.splits if_splits)

lemma manager_valid_ipv4_eq: "manager_valid_ipv4 ovf s = is_valid_ipv4 ovf (c_str s)"
proof (cases "sscanf ovf ipv4_format (c_str s)")
  case (Pair vs n)
  then show ?thesis
    using sscanf_ipv4_all [of ovf "c_str s"]
    by (auto simp: manager_valid_ipv4_def is_valid_ipv4_def numeral_eq_Suc length_Suc_conv split: list.splits)
qed

lemma valid_ipv4_dot: "is_valid_ipv4 ovf s \<Longrightarrow> CHR ''.'' \<in> set s"
proof -
  assume "is_valid_ipv4 ovf s"
  then have "snd (sscanf ovf ipv4_format s) = Suc (Suc (Suc (Suc 0)))"
    by (simp add: is_valid_ipv4_def split: prod.splits)
  then show ?thesis
    unfolding ipv4_format_def by (elim sscanf_int_Suc) (auto split: list.splits if_splits prod.splits)
qed

lemma valid_ipv6_chars: "is_valid_ipv6 s \<Longrightarrow> \<forall>c\<in>set s. c = CHR '':'' \<or> c_isxdigit c"
  using v6_loop_chars [of s v6_init] by (auto simp: is_valid_ipv6_def split: option.splits if_splits)

lemma dot_not_v6: "CHR ''.'' \<in> set s \<Longrightarrow> \<not> is_valid_ipv6 s"
  using valid_ipv6_chars [of s] by (fastforce simp: c_isxdigit_def c_isdigit_def char_code_def)

lemma manager_v6_eq:
  assumes "s \<noteq> []" "length s \<le> 39"
  shows "(case manager_v6_loop s v6_init of
            None \<Rightarrow> False
          | Some st \<Rightarrow>
              if \<not> has_colon st then False
              else (let n = (if last s \<noteq> CHR '':'' then groups st + 1 else groups st)
                    in if double_colon_count st = 0 \<and> n \<noteq> 8 then False else if n > 8 then False else True))
    = is_valid_ipv6 s"
proof -
  have "manager_v6_loop s v6_init = v6_loop s v6_init" by (rule v6_loop_eq) (simp add: v6_init_def)
  moreover have "double_colon_count st = 0 \<and> groups st = 0" if "v6_loop s v6_init = Some st" "length s < 2" for st
    using that assms(1)
    by (cases s) (auto simp: v6_char_def v6_init_def Let_def split: if_splits)
  ultimately show ?thesis
    using assms by (auto simp: is_valid_ipv6_def Let_def split: option.split)
qed

definition nul_free :: "string \<Rightarrow> bool" where
  "nul_free s = (\<forall>c\<in>set s. char_code c \<noteq> 0)"

lemma c_str_nul_free: "nul_free s \<Longrightarrow> c_str s = s"
  by (simp add: c_str_def nul_free_def)

text \<open>For texts without NUL the manager accepts exactly the addresses of at most 45 characters that
the helper accepts.\<close>

lemma manager_valid_ip_iff:
  assumes "nul_free s"
  shows "manager_valid_ip ovf s \<longleftrightarrow> is_valid_ip ovf s \<and> length s \<le> 45"
proof (cases "CHR ''.'' \<in> set s")
  case True
  then show ?thesis
    by (auto simp: manager_valid_ip_def manager_valid_ipv4_eq c_str_nul_free [OF assms] is_valid_ip_def dot_not_v6)
next
  case False
  have "is_valid_ipv6 s \<Longrightarrow> length s \<le> 39 \<and> s \<noteq> []" by (auto simp: is_valid_ipv6_def split: if_splits)
  then show ?thesis
    using False manager_v6_eq [of s] valid_ipv4_dot [of ovf s]
    by (auto simp: manager_valid_ip_def is_valid_ip_def)
qed


section \<open>Addresses and ranges are told apart by their slash\<close>

lemma scan_int_slash: "scan_int s = Some (v, r) \<Longrightarrow> is_range s \<Longrightarrow> is_range r"
proof -
  assume a: "scan_int s = Some (v, r)" "is_range s"
  let ?t = "dropWhile c_isspace s"
  obtain sg q where q: "scan_sign ?t = (sg, q)" by (metis surj_pair)
  obtain u where u: "?t = u @ q" "set u \<subseteq> {CHR ''+'', CHR ''-''}" using scan_sign_split [OF q] by blast
  have r: "r = dropWhile c_isdigit q" using a q by (auto simp: scan_int_def Let_def split: if_splits)
  have "s = takeWhile c_isspace s @ u @ takeWhile c_isdigit q @ r" unfolding r by (simp flip: u(1))
  moreover have "\<not> c_isspace CHR ''/''" "\<not> c_isdigit CHR ''/''"
    by (simp_all add: c_isspace_def c_isdigit_def char_code_def)
  moreover have "CHR ''/'' \<notin> set (takeWhile c_isspace s)" "CHR ''/'' \<notin> set (takeWhile c_isdigit q)"
    using calculation(2,3) by (auto dest: set_takeWhileD)
  moreover have "CHR ''/'' \<notin> set u" using u(2) by auto
  ultimately show "is_range r" using a(2) unfolding is_range_def by (metis Un_iff set_append)
qed

lemma sscanf_int_slash:
  assumes "snd (sscanf ovf (CInt # fs) s) = Suc n" "is_range s"
  obtains r where "snd (sscanf ovf fs r) = n" "is_range r"
proof (cases "scan_int s")
  case (Some p)
  then show ?thesis
    using assms scan_int_slash [of s "fst p" "snd p"] that [of "snd p"] by (cases p) (auto split: prod.splits)
qed (use assms in simp)

lemma sscanf_lit_slash:
  assumes "snd (sscanf ovf (CLit CHR ''.'' # fs) s) = Suc n" "is_range s"
  obtains r where "snd (sscanf ovf fs r) = Suc n" "is_range r"
  using assms by (auto simp: is_range_def split: list.splits if_splits)

lemma valid_ipv4_no_slash: "is_valid_ipv4 ovf s \<Longrightarrow> \<not> is_range s"
proof
  assume "is_valid_ipv4 ovf s" "is_range s"
  then have "snd (sscanf ovf ipv4_format s) = Suc (Suc (Suc (Suc 0)))" "is_range s"
    by (simp_all add: is_valid_ipv4_def split: prod.splits)
  then obtain r where "snd (sscanf ovf [CChr] r) = 0" "is_range r"
    unfolding ipv4_format_def by (elim sscanf_int_slash sscanf_lit_slash)
  then show False using sscanf_chr_0 [of ovf r] by (simp add: is_range_def)
qed

lemma valid_ip_no_slash: "is_valid_ip ovf s \<Longrightarrow> \<not> is_range s"
  using valid_ipv4_no_slash [of ovf s] valid_ipv6_chars [of s]
  by (fastforce simp: is_valid_ip_def is_range_def c_isxdigit_def c_isdigit_def char_code_def)

lemma manager_cidr_slash: "manager_valid_cidr ovf s \<Longrightarrow> is_range s"
proof -
  assume v: "manager_valid_cidr ovf s"
  show ?thesis
  proof (rule ccontr)
    assume "\<not> is_range s"
    then have d: "dropWhile (\<lambda>c. c \<noteq> CHR ''/'') s = []" unfolding is_range_def dropWhile_eq_Nil_conv by blast
    show False using v unfolding manager_valid_cidr_def d Let_def list.case .
  qed
qed

section \<open>What nft promises\<close>

text \<open>
  \<open>blk k\<close> is the table of the kernel in state \<open>k\<close>: \<open>None\<close> when there is no table kagami, else the
  elements of its two sets. The init script creates what is missing. In a table without
  overlapping elements, adding and deleting the elements of the targets \<open>T\<close> works; without the
  table both fail. The helper runs unprivileged, and its forks, pipes and writes succeed.
\<close>

type_synonym table = "(string \<times> string) set option"

definition element :: "string \<Rightarrow> string \<times> string" where
  "element t = (set_of t, elem_of t)"

definition nft_element :: "string \<Rightarrow> string \<times> string \<Rightarrow> string list" where
  "nft_element verb e = [''nft'', verb, ''element'', ''inet'', NFT_TABLE, fst e, snd e]"

definition helper_runs :: "'k system \<Rightarrow> bool" where
  "helper_runs sys = (sy_fork_ok sys \<and> (\<forall>k. fork_ok (sy_host sys k) \<and> pipe_ok (sy_host sys k) \<and>
     uid (sy_host sys k) \<noteq> 0 \<and> (\<forall>s. pipe_write (sy_host sys k) s = int (length s))))"

definition nft_laws :: "'k system \<Rightarrow> ('k \<Rightarrow> table) \<Rightarrow> string set \<Rightarrow> bool" where
  "nft_laws sys blk T =
    ((\<forall>k. blk (sy_script sys init_script k) = Some (case blk k of None \<Rightarrow> {} | Some S \<Rightarrow> S)) \<and>
     (\<forall>k S t. blk k = Some S \<longrightarrow> S \<subseteq> element ` T \<longrightarrow> t \<in> T \<longrightarrow>
        blk (sy_run sys (nft_element ''add'' (element t)) k) = Some (insert (element t) S) \<and>
        blk (sy_run sys (nft_element ''delete'' (element t)) k) = Some (S - {element t})) \<and>
     (\<forall>k e. blk k = None \<longrightarrow> blk (sy_run sys (nft_element ''add'' e) k) = None \<and>
        blk (sy_run sys (nft_element ''delete'' e) k) = None) \<and>
     (\<forall>k. blk (sy_run sys [''nft'', ''delete'', ''table'', ''inet'', NFT_TABLE] k) = None))"

text \<open>Targets that the helper accepts too and whose element fits its buffer.\<close>

definition plain_target :: "(int \<Rightarrow> int) \<Rightarrow> string \<Rightarrow> bool" where
  "plain_target ovf t = (t \<noteq> [] \<and> nul_free t \<and> length t \<le> 75 \<and>
     (if is_range t then is_valid_cidr ovf t else is_valid_ip ovf t))"

lemma element_inj: "length t \<le> 75 \<Longrightarrow> length u \<le> 75 \<Longrightarrow> element t = element u \<Longrightarrow> t = u"
  by (simp add: element_def elem_of_def snprintf_def)

section \<open>One command\<close>

definition add_command :: "string \<Rightarrow> helper_command" where
  "add_command t = (if is_range t then ''add-range'' else ''add'', t)"

definition remove_command :: "string \<Rightarrow> helper_command" where
  "remove_command t = (if is_range t then ''remove-range'' else ''remove'', t)"

definition command_result :: "'k system \<Rightarrow> (int \<Rightarrow> int) \<Rightarrow> firewall_config \<Rightarrow> helper_command \<Rightarrow> 'k \<Rightarrow> 'k" where
  "command_result sys ovf cfg cmd k = snd (exec_helper sys ovf cfg cmd k)"

lemma nul_free_actions:
  "c_str ''init'' = ''init''" "c_str ''flush'' = ''flush''" "c_str ''add'' = ''add''" "c_str ''remove'' = ''remove''"
  "c_str ''add-range'' = ''add-range''" "c_str ''remove-range'' = ''remove-range''"
  by (simp_all add: c_str_def char_code_def)

lemma helper_runs_simps:
  assumes "helper_runs sys"
  shows "sy_fork_ok sys" "fork_ok (sy_host sys k)" "pipe_ok (sy_host sys k)" "(uid (sy_host sys k) = 0) = False"
    "pipe_write (sy_host sys k) s = int (length s)"
  using assms by (simp_all add: helper_runs_def)

lemma exec_helper_main:
  assumes "helper_runs sys" "fg_helper_path cfg \<noteq> []"
  shows "command_result sys ovf cfg (action, target) k =
    fold (apply_effect sys) (fst (fw_main (sy_host sys k) ovf
      ([c_str (fg_helper_path cfg), c_str action] @ (if target = [] then [] else [c_str target])))) k"
  using assms by (simp add: command_result_def exec_helper_def helper_runs_simps Let_def split_beta)

lemma helper_adds:
  assumes "helper_runs sys" "plain_target ovf t" "fg_helper_path cfg \<noteq> []"
  shows "command_result sys ovf cfg (add_command t) k = sy_run sys (nft_element ''add'' (element t)) k"
  using assms(2) unfolding add_command_def exec_helper_main [OF assms(1,3)]
  by (auto simp: plain_target_def fw_main_def helper_runs_simps [OF assms(1)] nul_free_actions c_str_nul_free
      nft_add_def run_cmd_def Let_def nft_element_def element_def)

lemma helper_removes:
  assumes "helper_runs sys" "plain_target ovf t" "fg_helper_path cfg \<noteq> []"
  shows "command_result sys ovf cfg (remove_command t) k = sy_run sys (nft_element ''delete'' (element t)) k"
  using assms(2) unfolding remove_command_def exec_helper_main [OF assms(1,3)]
  by (auto simp: plain_target_def fw_main_def helper_runs_simps [OF assms(1)] nul_free_actions c_str_nul_free
      nft_remove_def run_cmd_def Let_def nft_element_def element_def)

lemma helper_inits:
  assumes "helper_runs sys" "fg_helper_path cfg \<noteq> []"
  shows "command_result sys ovf cfg (''init'', []) k = sy_script sys init_script k"
  unfolding exec_helper_main [OF assms]
  by (simp add: fw_main_def helper_runs_simps [OF assms(1)] nul_free_actions nft_init_def run_nft_stdin_def Let_def
      split_beta)

lemma helper_flushes:
  assumes "helper_runs sys" "fg_helper_path cfg \<noteq> []"
  shows "command_result sys ovf cfg (''flush'', []) k = sy_run sys [''nft'', ''delete'', ''table'', ''inet'', NFT_TABLE] k"
  unfolding exec_helper_main [OF assms]
  by (simp add: fw_main_def helper_runs_simps [OF assms(1)] nul_free_actions nft_flush_def run_cmd_def Let_def)

section \<open>Rules and commands go together\<close>

definition remember_rule :: "firewall_rule \<Rightarrow> firewall_manager \<Rightarrow> firewall_manager" where
  "remember_rule r m = enqueue_command (add_command (fr_target r)) (store_rule r m)"

definition forget_rule :: "string \<Rightarrow> firewall_manager \<Rightarrow> firewall_manager" where
  "forget_rule t m = enqueue_command (remove_command t) (m\<lparr>fm_rules := AList.delete t (fm_rules m)\<rparr>)"

lemma rule_fields [simp]:
  "fm_rules (remember_rule r m) = AList.update (fr_target r) r (fm_rules m)"
  "fm_exec_queue (remember_rule r m) = fm_exec_queue m @ [add_command (fr_target r)]"
  "fm_config (remember_rule r m) = fm_config m" "fm_enabled (remember_rule r m) = fm_enabled m"
  "fm_rules (forget_rule t m) = AList.delete t (fm_rules m)"
  "fm_exec_queue (forget_rule t m) = fm_exec_queue m @ [remove_command t]"
  "fm_config (forget_rule t m) = fm_config m" "fm_enabled (forget_rule t m) = fm_enabled m"
  by (simp_all add: remember_rule_def forget_rule_def enqueue_command_def store_rule_def)

lemma manager_ip_plain: "nul_free t \<Longrightarrow> manager_valid_ip ovf t \<Longrightarrow> \<not> is_range t"
  using manager_valid_ip_iff [of t ovf] valid_ip_no_slash [of ovf t] by simp

lemma block_ip_remembers:
  assumes "nul_free ip"
  shows "snd (block_ip ovf now ip reason d m) =
    (if fm_enabled m \<and> manager_valid_ip ovf ip then remember_rule (new_rule now ip reason d) m else m)"
  using manager_ip_plain [OF assms, of ovf]
  by (simp add: block_ip_def remember_rule_def add_command_def new_rule_def)

lemma block_range_remembers:
  "snd (block_range ovf now cidr reason d m) =
    (if fm_enabled m \<and> manager_valid_cidr ovf cidr then remember_rule (new_rule now cidr reason d) m else m)"
  using manager_cidr_slash [of ovf cidr]
  by (simp add: block_range_def remember_rule_def add_command_def new_rule_def)

lemma unblock_ip_forgets:
  "\<not> is_range ip \<Longrightarrow> snd (unblock_ip ip m) =
     (if fm_enabled m \<and> map_of (fm_rules m) ip \<noteq> None then forget_rule ip m else m)"
  by (simp add: unblock_ip_def forget_rule_def remove_command_def)

lemma unblock_range_forgets:
  "is_range cidr \<Longrightarrow> snd (unblock_range cidr m) =
     (if fm_enabled m \<and> map_of (fm_rules m) cidr \<noteq> None then forget_rule cidr m else m)"
  by (simp add: unblock_range_def forget_rule_def remove_command_def)

lemma fold_forget:
  "fold (\<lambda>t. enqueue_command (remove_command t)) ts (m\<lparr>fm_rules := fold AList.delete ts (fm_rules m)\<rparr>) =
   fold forget_rule ts m"
proof (induction ts arbitrary: m)
  case (Cons t ts)
  have "enqueue_command (remove_command t) (m\<lparr>fm_rules := R\<rparr>) = (forget_rule t m)\<lparr>fm_rules := R\<rparr>" for R
    by (simp add: enqueue_command_def forget_rule_def)
  then show ?case using Cons.IH [of "forget_rule t m"] by simp
qed simp

lemma sweep_forgets:
  "fm_enabled m \<Longrightarrow> snd (sweep_rules now m) =
     fold forget_rule (map fst (filter (\<lambda>(_, r). rule_expired now r) (fm_rules m))) m"
  using fold_forget [of "map fst (filter (\<lambda>(_, r). rule_expired now r) (fm_rules m))" m]
  by (simp add: sweep_rules_def Let_def remove_command_def)

lemma load_remembers:
  "load_rules now (Some items) m =
     fold (\<lambda>r m'. if fr_target r = [] \<or> rule_expired now r then m' else remember_rule r m') items m"
  unfolding load_rules_def remember_rule_def add_command_def by (simp cong: if_cong)

section \<open>The invariant\<close>

text \<open>What the kernel will block when the queue is empty is what the rules say.\<close>

definition settled :: "'k system \<Rightarrow> (int \<Rightarrow> int) \<Rightarrow> firewall_manager \<Rightarrow> 'k \<Rightarrow> 'k" where
  "settled sys ovf m k = drain_commands sys ovf (fm_config m) (fm_exec_queue m) k"

definition firewall_ok ::
  "'k system \<Rightarrow> (int \<Rightarrow> int) \<Rightarrow> ('k \<Rightarrow> table) \<Rightarrow> string set \<Rightarrow> firewall_manager \<Rightarrow> 'k \<Rightarrow> bool" where
  "firewall_ok sys ovf blk T m k =
    (fm_enabled m \<and> fg_helper_path (fm_config m) \<noteq> [] \<and> fst ` set (fm_rules m) \<subseteq> T \<and>
     (\<forall>(t, r)\<in>set (fm_rules m). fr_target r = t) \<and>
     blk (settled sys ovf m k) = Some (element ` fst ` set (fm_rules m)))"

lemma drain_queue_append:
  "drain_commands sys ovf cfg (qs @ [c]) k = command_result sys ovf cfg c (drain_commands sys ovf cfg qs k)"
  by (simp add: drain_commands_def command_result_def)

lemma drain_Cons:
  "drain_commands sys ovf cfg (c # qs) k = drain_commands sys ovf cfg qs (command_result sys ovf cfg c k)"
  by (simp add: drain_commands_def command_result_def)

lemma settled_enqueued:
  "fm_config m' = fm_config m \<Longrightarrow> fm_exec_queue m' = fm_exec_queue m @ [c] \<Longrightarrow>
   settled sys ovf m' k = command_result sys ovf (fm_config m) c (settled sys ovf m k)"
  by (simp add: settled_def drain_queue_append)

lemma settled_turn: "exec_turn sys ovf (m, k) = (m', k') \<Longrightarrow> settled sys ovf m' k' = settled sys ovf m k"
  by (auto simp: exec_turn_def settled_def drain_Cons command_result_def split: list.splits)

lemma set_update: "set (AList.update k v al) \<subseteq> insert (k, v) (set al)"
  by (induction al) auto

lemma set_delete: "set (AList.delete k al) \<subseteq> set al"
  by (auto simp: AList.delete_eq)

lemma keys_delete: "fst ` set (AList.delete k al) = fst ` set al - {k}"
  using AList.delete_keys [of k al] by (metis list.set_map set_removeAll)

lemma settled_remember:
  assumes "helper_runs sys" "nft_laws sys blk T" "\<forall>t\<in>T. plain_target ovf t" "fg_helper_path (fm_config m) \<noteq> []"
    and "blk (settled sys ovf m k) = Some S" "S \<subseteq> element ` T" "fr_target r \<in> T"
  shows "blk (settled sys ovf (remember_rule r m) k) = Some (insert (element (fr_target r)) S)"
proof -
  have "settled sys ovf (remember_rule r m) k =
      sy_run sys (nft_element ''add'' (element (fr_target r))) (settled sys ovf m k)"
    using assms by (simp add: settled_enqueued [of _ m] helper_adds)
  then show ?thesis using assms(2,5-7) by (simp add: nft_laws_def)
qed

lemma ok_remember:
  assumes env: "helper_runs sys" "nft_laws sys blk T" "\<forall>t\<in>T. plain_target ovf t"
    and ok: "firewall_ok sys ovf blk T m k" and t: "fr_target r \<in> T"
  shows "firewall_ok sys ovf blk T (remember_rule r m) k"
proof -
  let ?S = "element ` fst ` set (fm_rules m)"
  have "blk (settled sys ovf (remember_rule r m) k) = Some (insert (element (fr_target r)) ?S)"
    using ok t by (intro settled_remember [OF env]) (auto simp: firewall_ok_def)
  then show ?thesis
    using ok t set_update [of "fr_target r" r "fm_rules m"]
    by (auto simp: firewall_ok_def dom_update)
qed

lemma ok_forget:
  assumes env: "helper_runs sys" "nft_laws sys blk T" "\<forall>t\<in>T. plain_target ovf t"
    and ok: "firewall_ok sys ovf blk T m k" and t: "t \<in> T"
  shows "firewall_ok sys ovf blk T (forget_rule t m) k"
proof -
  let ?S = "element ` fst ` set (fm_rules m)"
  have "settled sys ovf (forget_rule t m) k =
      sy_run sys (nft_element ''delete'' (element t)) (settled sys ovf m k)"
    using env(1,3) ok t by (simp add: settled_enqueued [of _ m] helper_removes firewall_ok_def)
  moreover have S: "blk (settled sys ovf m k) = Some ?S" "?S \<subseteq> element ` T" using ok by (auto simp: firewall_ok_def)
  ultimately have "blk (settled sys ovf (forget_rule t m) k) = Some (?S - {element t})"
    using env(2) t by (simp add: nft_laws_def)
  moreover have "inj_on element T"
    using env(3) by (auto intro!: inj_onI element_inj simp: plain_target_def)
  then have "?S - {element t} = element ` (fst ` set (fm_rules m) - {t})"
    using ok t inj_on_image_set_diff [of element T "fst ` set (fm_rules m)" "{t}"] by (auto simp: firewall_ok_def)
  ultimately show ?thesis
    using ok set_delete [of t "fm_rules m"] by (auto simp: firewall_ok_def keys_delete)
qed

lemma ok_fold_forget:
  assumes "helper_runs sys" "nft_laws sys blk T" "\<forall>t\<in>T. plain_target ovf t"
  shows "firewall_ok sys ovf blk T m k \<Longrightarrow> set ts \<subseteq> T \<Longrightarrow> firewall_ok sys ovf blk T (fold forget_rule ts m) k"
  by (induction ts arbitrary: m) (auto intro: ok_forget [OF assms])

lemma ok_load:
  assumes "helper_runs sys" "nft_laws sys blk T" "\<forall>t\<in>T. plain_target ovf t"
  shows "firewall_ok sys ovf blk T m k \<Longrightarrow> fr_target ` set items \<subseteq> T \<Longrightarrow>
    firewall_ok sys ovf blk T (load_rules now (Some items) m) k"
  unfolding load_remembers by (induction items arbitrary: m) (auto intro: ok_remember [OF assms])

section \<open>The kernel follows the rules\<close>

text \<open>The operations of normal service, on targets of \<open>T\<close>; a rule is lifted by the operation of its kind.\<close>

fun service_op :: "string set \<Rightarrow> firewall_op \<Rightarrow> bool" where
  "service_op T (Fw_Configure file cfg) = False"
| "service_op T (Fw_Block_Ip now ip reason d) = (ip \<in> T)"
| "service_op T (Fw_Unblock_Ip ip) = (\<not> is_range ip)"
| "service_op T (Fw_Block_Range now cidr reason d) = (cidr \<in> T)"
| "service_op T (Fw_Unblock_Range cidr) = is_range cidr"
| "service_op T (Fw_Sweep now) = True"
| "service_op T Fw_Flush = False"
| "service_op T (Fw_Load now doc) = (case doc of None \<Rightarrow> True | Some items \<Rightarrow> fr_target ` set items \<subseteq> T)"
| "service_op T Fw_Turn = True"

lemma map_of_target: "firewall_ok sys ovf blk T m k \<Longrightarrow> map_of (fm_rules m) t = Some r \<Longrightarrow> t \<in> T"
  by (auto simp: firewall_ok_def dest!: map_of_SomeD)

lemma ok_step:
  assumes env: "helper_runs sys" "nft_laws sys blk T" "\<forall>t\<in>T. plain_target ovf t"
    and ok: "firewall_ok sys ovf blk T m k" and op: "service_op T op"
    and st: "firewall_step sys ovf op (m, k) = (m', k')"
  shows "firewall_ok sys ovf blk T m' k'"
proof (cases op)
  case Fw_Turn
  then have "exec_turn sys ovf (m, k) = (m', k')" using st by (simp add: firewall_step_def)
  moreover from this have "fm_enabled m' = fm_enabled m \<and> fm_config m' = fm_config m \<and> fm_rules m' = fm_rules m"
    by (auto simp: exec_turn_def split: list.splits)
  ultimately show ?thesis using ok settled_turn [of sys ovf m k m' k'] by (simp add: firewall_ok_def)
next
  case (Fw_Sweep now)
  let ?ts = "map fst (filter (\<lambda>(_, r). rule_expired now r) (fm_rules m))"
  have "set ?ts \<subseteq> T" "fm_enabled m" using ok by (auto simp: firewall_ok_def)
  moreover from this have "m' = fold forget_rule ?ts m" "k' = k"
    using Fw_Sweep st by (simp_all add: firewall_step_def sweep_forgets)
  ultimately show ?thesis using ok_fold_forget [OF env ok, of ?ts] by simp
next
  case (Fw_Load now doc)
  then show ?thesis
    using st op ok ok_load [OF env ok] by (cases doc) (auto simp: firewall_step_def load_rules_def)
next
  case (Fw_Block_Ip now ip reason d)
  then have "ip \<in> T" "nul_free ip" using op env(3) by (auto simp: plain_target_def)
  then show ?thesis
    using Fw_Block_Ip st ok ok_remember [OF env ok, of "new_rule now ip reason d"]
    by (auto simp: firewall_step_def block_ip_remembers new_rule_def split: if_splits)
next
  case (Fw_Block_Range now cidr reason d)
  then show ?thesis
    using op st ok ok_remember [OF env ok, of "new_rule now cidr reason d"]
    by (auto simp: firewall_step_def block_range_remembers new_rule_def split: if_splits)
next
  case (Fw_Unblock_Ip ip)
  then show ?thesis
    using op st ok ok_forget [OF env ok, of ip] map_of_target [OF ok, of ip]
    by (auto simp: firewall_step_def unblock_ip_forgets split: if_splits)
next
  case (Fw_Unblock_Range cidr)
  then show ?thesis
    using op st ok ok_forget [OF env ok, of cidr] map_of_target [OF ok, of cidr]
    by (auto simp: firewall_step_def unblock_range_forgets split: if_splits)
qed (use op in auto)

lemma ok_run:
  assumes "helper_runs sys" "nft_laws sys blk T" "\<forall>t\<in>T. plain_target ovf t"
  shows "list_all (service_op T) ops \<Longrightarrow> firewall_ok sys ovf blk T (fst mk) (snd mk) \<Longrightarrow>
    firewall_ok sys ovf blk T (fst (fold (firewall_step sys ovf) ops mk)) (snd (fold (firewall_step sys ovf) ops mk))"
proof (induction ops arbitrary: mk)
  case (Cons op ops)
  obtain m k m' k' where mk: "mk = (m, k)" "firewall_step sys ovf op mk = (m', k')" by (metis surj_pair)
  then have "firewall_ok sys ovf blk T m' k'" using Cons.prems ok_step [OF assms, of m k op m' k'] by simp
  then show ?case using Cons.IH [of "(m', k')"] Cons.prems(1) mk by simp
qed simp

lemma turns_drain:
  "(exec_turn sys ovf ^^ length (fm_exec_queue m)) (m, k) = (m\<lparr>fm_exec_queue := []\<rparr>, settled sys ovf m k)"
proof (induction "fm_exec_queue m" arbitrary: m k)
  case Nil
  then show ?case by (cases m) (simp add: settled_def drain_commands_def)
next
  case (Cons c qs)
  let ?m = "m\<lparr>fm_exec_queue := qs\<rparr>" and ?k = "snd (exec_helper sys ovf (fm_config m) c k)"
  have "exec_turn sys ovf (m, k) = (?m, ?k)" by (simp add: exec_turn_def flip: Cons(2))
  moreover have "settled sys ovf m k = settled sys ovf ?m ?k"
    by (simp add: settled_def drain_Cons command_result_def flip: Cons(2))
  ultimately show ?case
    using Cons(1) [of ?m ?k] by (simp add: funpow_swap1 flip: Cons(2))
qed

lemma ok_configured:
  assumes "helper_runs sys" "nft_laws sys blk T" "blk k \<in> {None, Some {}}"
    "fg_enabled cfg" "fg_helper_path cfg \<noteq> []"
  shows "firewall_ok sys ovf blk T (firewall_configure Executable cfg firewall_manager_new) k"
proof -
  have "settled sys ovf (firewall_configure Executable cfg firewall_manager_new) k = sy_script sys init_script k"
    using assms helper_inits [of sys cfg ovf k]
    by (simp add: settled_def firewall_configure_def enqueue_command_def firewall_manager_new_def drain_commands_def
        command_result_def)
  moreover have "blk (sy_script sys init_script k) = Some {}" using assms(2,3) by (auto simp: nft_laws_def)
  ultimately show ?thesis
    using assms(4,5)
    by (simp add: firewall_ok_def firewall_configure_def enqueue_command_def firewall_manager_new_def)
qed


text \<open>A kernel with one table, and a nft that does what the laws say.\<close>

type_synonym demo_kernel = "(string \<times> string) list option"

definition demo_nft :: "string list \<Rightarrow> demo_kernel \<Rightarrow> demo_kernel" where
  "demo_nft argv k =
    (case k of
       None \<Rightarrow> None
     | Some es \<Rightarrow>
         if argv ! 2 = ''table'' then None
         else if argv ! 1 = ''add'' then Some (List.insert (argv ! 5, argv ! 6) es)
         else Some (filter (\<lambda>e. e \<noteq> (argv ! 5, argv ! 6)) es))"

definition demo_system :: "demo_kernel system" where
  "demo_system = \<lparr>sy_fork_ok = True, sy_host = (\<lambda>_. fw_test_host), sy_run = demo_nft,
     sy_script = (\<lambda>_ k. Some (case k of None \<Rightarrow> [] | Some es \<Rightarrow> es))\<rparr>"

definition demo_blk :: "demo_kernel \<Rightarrow> table" where
  "demo_blk k = map_option set k"

definition demo_cfg :: firewall_config where
  "demo_cfg = \<lparr>fg_enabled = True, fg_helper_path = ''fw'', fg_cleanup_on_shutdown = True\<rparr>"

definition demo_targets :: "string list" where
  "demo_targets = [''10.0.0.1'', ''192.168.1.0/24'']"

lemma demo_runs: "helper_runs demo_system"
  by (simp add: helper_runs_def demo_system_def fw_test_host_def)

lemma demo_laws: "nft_laws demo_system demo_blk T"
  by (auto simp: nft_laws_def demo_system_def demo_blk_def demo_nft_def nft_element_def element_def
      split: option.splits)

lemma demo_plain: "\<forall>t\<in>set demo_targets. plain_target id t"
proof -
  have "list_all (plain_target id) demo_targets"
    unfolding plain_target_def nul_free_def list_all_iff demo_targets_def by code_simp
  then show ?thesis by (simp add: list_all_iff)
qed

definition demo_ops :: "firewall_op list" where
  "demo_ops = [Fw_Turn, Fw_Block_Ip 100 ''10.0.0.1'' ''spam'' 60, Fw_Turn,
     Fw_Block_Range 100 ''192.168.1.0/24'' ''bots'' (- 2), Fw_Sweep 160]"

definition demo_manager :: firewall_manager where
  "demo_manager = \<lparr>fm_config = demo_cfg, fm_enabled = True,
     fm_rules = [(''192.168.1.0/24'', \<lparr>fr_target = ''192.168.1.0/24'', fr_reason = ''bots'', fr_installed_at = 100,
       fr_expires_at = 0\<rparr>)],
     fm_exec_queue = [(''add-range'', ''192.168.1.0/24''), (''remove'', ''10.0.0.1'')]\<rparr>"

lemma demo_run:
  "fold (firewall_step demo_system id) demo_ops (firewall_configure Executable demo_cfg firewall_manager_new, None) =
     (demo_manager, Some [(''blocked4'', ''{ 10.0.0.1 }'')])"
  by code_simp


section \<open>After a flush\<close>

text \<open>What the commands of the later operations do, whatever their targets.\<close>

definition rule_command :: "helper_command \<Rightarrow> bool" where
  "rule_command c = (fst c \<in> {''add'', ''remove'', ''add-range'', ''remove-range'', ''flush''})"

lemma command_no_table:
  assumes "helper_runs sys" "nft_laws sys blk T" "fg_helper_path cfg \<noteq> []" "rule_command c" "blk k = None"
  shows "blk (command_result sys ovf cfg c k) = None"
proof -
  have n: "blk (sy_run sys [''nft'', v, ''element'', ''inet'', NFT_TABLE, s, e] k) = None"
    if "v = ''add'' \<or> v = ''delete''" for v s e
  proof -
    have "\<forall>k e. blk k = None \<longrightarrow> blk (sy_run sys (nft_element ''add'' e) k) = None \<and>
        blk (sy_run sys (nft_element ''delete'' e) k) = None"
      using assms(2) by (simp add: nft_laws_def)
    from this [rule_format, of k "(s, e)"] show ?thesis using assms(5) that by (auto simp: nft_element_def)
  qed
  have f: "blk (sy_run sys [''nft'', ''delete'', ''table'', ''inet'', NFT_TABLE] k) = None"
    using assms(2) by (simp add: nft_laws_def)
  obtain a t where c: "c = (a, t)" by (cases c)
  have "a = ''add'' \<or> a = ''remove'' \<or> a = ''add-range'' \<or> a = ''remove-range'' \<or> a = ''flush''"
    using assms(4) by (simp add: c rule_command_def)
  then show ?thesis
    using assms(5) unfolding c exec_helper_main [OF assms(1,3)]
    by (elim disjE) (simp_all add: fw_main_def helper_runs_simps [OF assms(1)] nul_free_actions n f
        nft_add_def nft_remove_def nft_flush_def run_cmd_def Let_def)
qed

lemma drain_no_table:
  assumes "helper_runs sys" "nft_laws sys blk T" "fg_helper_path cfg \<noteq> []"
  shows "list_all rule_command cs \<Longrightarrow> blk k = None \<Longrightarrow> blk (drain_commands sys ovf cfg cs k) = None"
proof (induction cs arbitrary: k)
  case Nil
  then show ?case by (simp add: drain_commands_def)
next
  case (Cons c cs)
  then show ?case using command_no_table [OF assms, of c k] by (simp add: drain_Cons)
qed

text \<open>What an operation other than a configuration appends to the queue.\<close>

definition appends_rules :: "firewall_manager \<Rightarrow> firewall_manager \<Rightarrow> bool" where
  "appends_rules m m' = (fm_config m' = fm_config m \<and> fm_enabled m' = fm_enabled m \<and>
     (\<exists>cs. fm_exec_queue m' = fm_exec_queue m @ cs \<and> list_all rule_command cs))"

lemma appends_refl: "appends_rules m m"
  by (simp add: appends_rules_def)

lemma appends_trans: "appends_rules m m1 \<Longrightarrow> appends_rules m1 m2 \<Longrightarrow> appends_rules m m2"
  by (auto simp: appends_rules_def)

lemma appends_one:
  "fm_config m' = fm_config m \<Longrightarrow> fm_enabled m' = fm_enabled m \<Longrightarrow> rule_command c \<Longrightarrow>
   appends_rules m (enqueue_command c m')" if "fm_exec_queue m' = fm_exec_queue m"
  using that by (simp add: appends_rules_def enqueue_command_def)

lemma appends_fold: "(\<And>x m. appends_rules m (f x m)) \<Longrightarrow> appends_rules m (fold f xs m)"
  by (induction xs arbitrary: m) (auto intro: appends_refl appends_trans)

lemma appends_op:
  assumes "\<forall>file cfg. op \<noteq> Fw_Configure file cfg"
  shows "appends_rules m (firewall_op_run ovf op m)"
proof (cases op)
  case (Fw_Sweep now)
  have "appends_rules m (forget_rule t m)" for t m
    by (simp add: forget_rule_def remove_command_def rule_command_def appends_one)
  then have "appends_rules m (fold forget_rule ts m)" for ts by (rule appends_fold)
  then show ?thesis
    using Fw_Sweep sweep_forgets [of m now]
    by (cases "fm_enabled m") (simp_all add: sweep_rules_def [of now m] appends_refl del: Let_def)
next
  case (Fw_Load now doc)
  have "appends_rules m (load_rules now (Some items) m)" for items
    unfolding load_remembers
    by (rule appends_fold) (auto simp: remember_rule_def store_rule_def add_command_def rule_command_def
        intro: appends_refl intro!: appends_one)
  then show ?thesis using Fw_Load by (cases doc) (simp_all add: load_rules_def appends_refl)
qed (use assms in \<open>auto simp: block_ip_def block_range_def unblock_ip_def unblock_range_def flush_rules_def
  store_rule_def rule_command_def intro: appends_refl intro!: appends_one\<close>)

lemma appends_settled:
  assumes "helper_runs sys" "nft_laws sys blk T" "fg_helper_path (fm_config m) \<noteq> []"
    and "appends_rules m m'" "blk (settled sys ovf m k) = None"
  shows "blk (settled sys ovf m' k) = None"
proof -
  obtain cs where cs: "fm_exec_queue m' = fm_exec_queue m @ cs" "list_all rule_command cs" "fm_config m' = fm_config m"
    using assms(4) by (auto simp: appends_rules_def)
  have "settled sys ovf m' k = drain_commands sys ovf (fm_config m) cs (settled sys ovf m k)"
    by (simp add: settled_def cs drain_commands_def)
  then show ?thesis using drain_no_table [OF assms(1-3) cs(2) assms(5)] by simp
qed

definition table_gone :: "'k system \<Rightarrow> (int \<Rightarrow> int) \<Rightarrow> ('k \<Rightarrow> table) \<Rightarrow> firewall_manager \<times> 'k \<Rightarrow> bool" where
  "table_gone sys ovf blk mk = (fm_enabled (fst mk) \<and> fg_helper_path (fm_config (fst mk)) \<noteq> [] \<and>
     blk (settled sys ovf (fst mk) (snd mk)) = None)"

lemma gone_step:
  assumes "helper_runs sys" "nft_laws sys blk T" "table_gone sys ovf blk mk" "\<forall>file cfg. op \<noteq> Fw_Configure file cfg"
  shows "table_gone sys ovf blk (firewall_step sys ovf op mk)"
proof (cases "op = Fw_Turn")
  case True
  obtain m k m' k' where mk: "mk = (m, k)" "exec_turn sys ovf (m, k) = (m', k')" by (metis surj_pair)
  then have "fm_enabled m' = fm_enabled m \<and> fm_config m' = fm_config m"
    by (auto simp: exec_turn_def split: list.splits)
  then show ?thesis
    using True mk assms(3) settled_turn [OF mk(2)] by (simp add: table_gone_def firewall_step_def)
next
  case False
  obtain m k where mk: "mk = (m, k)" by (cases mk)
  have ap: "appends_rules m (firewall_op_run ovf op m)" using assms(4) by (rule appends_op)
  then show ?thesis
    using False mk assms(3) appends_settled [OF assms(1,2) _ ap, of ovf k]
    by (auto simp: table_gone_def firewall_step_def appends_rules_def)
qed

lemma gone_run:
  assumes "helper_runs sys" "nft_laws sys blk T"
  shows "\<forall>op\<in>set ops. \<forall>file cfg. op \<noteq> Fw_Configure file cfg \<Longrightarrow> table_gone sys ovf blk mk \<Longrightarrow>
    table_gone sys ovf blk (fold (firewall_step sys ovf) ops mk)"
proof (induction ops arbitrary: mk)
  case (Cons op ops)
  then show ?case using gone_step [OF assms, of ovf mk op] by simp
qed simp

text \<open>
  C20: A flush deletes the kernel's table, and only a new configuration creates it again. Until
  then every block of a valid address is accepted and its rule is listed, but whatever operations
  and turns come in between, when the queue is empty nothing is blocked.
\<close>

theorem blocks_after_flush_are_lost:
  assumes "helper_runs sys" "nft_laws sys blk T" "fm_enabled m" "fg_helper_path (fm_config m) \<noteq> []"
    and "\<forall>op\<in>set ops. \<forall>file cfg. op \<noteq> Fw_Configure file cfg" "manager_valid_ip ovf ip"
    and "fold (firewall_step sys ovf) ops (flush_rules m, k) = (m1, k1)"
  shows "\<exists>m2 k2. block_ip ovf now ip reason d m1 = (True, m2) \<and> new_rule now ip reason d \<in> set (list_rules m2) \<and>
    (exec_turn sys ovf ^^ length (fm_exec_queue m2)) (m2, k1) = (m2\<lparr>fm_exec_queue := []\<rparr>, k2) \<and> blk k2 = None"
proof -
  have "settled sys ovf (flush_rules m) k =
      command_result sys ovf (fm_config m) (''flush'', []) (settled sys ovf m k)"
    by (rule settled_enqueued) (simp_all add: flush_rules_def enqueue_command_def)
  then have "blk (settled sys ovf (flush_rules m) k) = None"
    using assms(2) helper_flushes [OF assms(1,4)] by (simp add: nft_laws_def)
  then have "table_gone sys ovf blk (flush_rules m, k)"
    using assms(3,4) by (simp add: table_gone_def flush_rules_def enqueue_command_def)
  then have g: "table_gone sys ovf blk (m1, k1)" using gone_run [OF assms(1,2,5)] assms(7) by metis
  define m2 where "m2 = snd (block_ip ovf now ip reason d m1)"
  have b: "block_ip ovf now ip reason d m1 = (True, m2)"
    and r: "fm_rules m2 = AList.update ip (new_rule now ip reason d) (fm_rules m1)"
    using g assms(6)
    by (simp_all add: m2_def block_ip_def table_gone_def store_rule_def enqueue_command_def new_rule_def)
  have "(ip, new_rule now ip reason d) \<in> set (fm_rules m2)"
    unfolding r by (rule map_of_SomeD) (simp add: update_conv)
  then have l: "new_rule now ip reason d \<in> set (list_rules m2)" by (force simp: list_rules_def)
  have "table_gone sys ovf blk (m2, k1)"
    using gone_step [OF assms(1,2) g, of "Fw_Block_Ip now ip reason d"] by (simp add: firewall_step_def m2_def)
  then show ?thesis
    using b l turns_drain [where sys = sys and ovf = ovf and m = m2 and k = k1] by (auto simp: table_gone_def)
qed

theorem blocks_after_flush_are_lost_witness:
  "fst (block_ip id 200 ''10.0.0.1'' ''spam'' 60 (flush_rules demo_manager))"
proof -
  have "manager_valid_ip id ''10.0.0.1''" by code_simp
  then show ?thesis
    using blocks_after_flush_are_lost [OF demo_runs demo_laws, of demo_manager "[]" id "''10.0.0.1''" None _ _ 200 "''spam''" 60]
    by (auto simp: demo_manager_def demo_cfg_def)
qed

end
