(* ===== verification/Firewall_Theorems.thy ===== *)
theory Firewall_Theorems
  imports Firewall_Manager_Props
begin

text \<open>
  Where the firewall's parts disagree: ranges that the manager accepts and the helper refuses, what
  a crash and a shutdown leave in the kernel, and blocks that outlast the ban they belong to.
\<close>

section \<open>Recovery\<close>

lemma update_new: "k \<notin> fst ` set al \<Longrightarrow> AList.update k v al = al @ [(k, v)]"
  by (induction al) auto

lemma load_rules_rules:
  "distinct (map fr_target items) \<Longrightarrow> [] \<notin> fr_target ` set items \<Longrightarrow>
   fr_target ` set items \<inter> fst ` set (fm_rules m) = {} \<Longrightarrow>
   fm_rules (load_rules now (Some items) m) =
     fm_rules m @ map (\<lambda>r. (fr_target r, r)) (filter (\<lambda>r. \<not> rule_expired now r) items)"
  unfolding load_remembers
proof (induction items arbitrary: m)
  case (Cons r items)
  show ?case
  proof (cases "rule_expired now r")
    case True
    then show ?thesis using Cons by simp
  next
    case False
    then have "fm_rules (remember_rule r m) = fm_rules m @ [(fr_target r, r)]"
      using Cons.prems by (simp add: update_new)
    then show ?thesis using False Cons.prems Cons.IH [of "remember_rule r m"] by auto
  qed
qed simp

lemma load_settled:
  assumes env: "helper_runs sys" "nft_laws sys blk T" "\<forall>t\<in>T. plain_target ovf t"
  shows "fg_helper_path (fm_config m) \<noteq> [] \<Longrightarrow> fr_target ` set items \<subseteq> T \<Longrightarrow>
    blk (settled sys ovf m k) = Some S \<Longrightarrow> S \<subseteq> element ` T \<Longrightarrow>
    blk (settled sys ovf (load_rules now (Some items) m) k) =
      Some (S \<union> element ` fr_target ` set (filter (\<lambda>r. \<not> rule_expired now r) items))"
  unfolding load_remembers
proof (induction items arbitrary: m S)
  case (Cons r items)
  have ne: "fr_target r \<noteq> []" using Cons.prems(2) env(3) by (auto simp: plain_target_def)
  show ?case
  proof (cases "rule_expired now r")
    case True
    then show ?thesis using Cons by simp
  next
    case False
    have "blk (settled sys ovf (remember_rule r m) k) = Some (insert (element (fr_target r)) S)"
      using Cons.prems by (intro settled_remember [OF env]) auto
    then show ?thesis using False ne Cons.prems Cons.IH [of "remember_rule r m" "insert (element (fr_target r)) S"] by simp
  qed
qed simp

text \<open>
  C27: After a crash the saved rules come back: exactly those that have not expired meanwhile, and the
  kernel blocks them. But what the crashed server had installed in the kernel stays there too: a
  rule that expired during the downtime is no longer listed, cannot be lifted, and is still enforced.
\<close>

theorem firewall_recovery:
  assumes env: "helper_runs sys" "nft_laws sys blk T" "\<forall>t\<in>T. plain_target ovf t"
    and cfg: "fg_enabled cfg" "fg_helper_path cfg \<noteq> []"
    and m0: "distinct (map fst (fm_rules m0))" "\<forall>(t, r)\<in>set (fm_rules m0). fr_target r = t \<and> t \<in> T"
    and k: "blk k = Some S" "S \<subseteq> element ` T"
    and m: "m = load_rules now (Some (save_rules m0)) (firewall_configure Executable cfg firewall_manager_new)"
  shows "fm_rules m = filter (\<lambda>(t, r). \<not> rule_expired now r) (fm_rules m0) \<and>
    (\<exists>k'. (exec_turn sys ovf ^^ length (fm_exec_queue m)) (m, k) = (m\<lparr>fm_exec_queue := []\<rparr>, k') \<and>
       blk k' = Some (S \<union> element ` fst ` set (fm_rules m))) \<and>
    (\<forall>(t, r)\<in>set (fm_rules m0). rule_expired now r \<longrightarrow> fst (unblock_ip t m) = False \<and> fst (unblock_range t m) = False)"
proof -
  let ?c = "firewall_configure Executable cfg firewall_manager_new"
  let ?left = "filter (\<lambda>(t, r). \<not> rule_expired now r) (fm_rules m0)"
  have c: "fm_rules ?c = []" "fg_helper_path (fm_config ?c) \<noteq> []"
    using cfg by (simp_all add: firewall_configure_def enqueue_command_def firewall_manager_new_def)
  have "map fr_target (save_rules m0) = map fst (fm_rules m0)"
    using m0(2) by (auto simp: save_rules_def)
  then have items: "distinct (map fr_target (save_rules m0))" "fr_target ` set (save_rules m0) \<subseteq> T"
    using m0 by (simp, auto simp: save_rules_def)
  have "map (\<lambda>r. (fr_target r, r)) (filter (\<lambda>r. \<not> rule_expired now r) (map snd al)) = filter (\<lambda>(t, r). \<not> rule_expired now r) al"
    if "\<forall>(t, r)\<in>set al. fr_target r = t \<and> t \<in> T" for al
    using that by (induction al) auto
  then have rules: "fm_rules m = ?left"
    using load_rules_rules [OF items(1), of ?c now] items(2) env(3) m0(2) c(1)
    by (auto simp: m save_rules_def plain_target_def)
  have "blk (settled sys ovf ?c k) = Some S"
    using helper_inits [OF env(1) cfg(2), of ovf k] env(2) k(1) cfg
    by (simp add: settled_def firewall_configure_def enqueue_command_def firewall_manager_new_def drain_commands_def
        command_result_def nft_laws_def)
  then have "blk (settled sys ovf m k) = Some (S \<union> element ` fr_target ` set (filter (\<lambda>r. \<not> rule_expired now r) (save_rules m0)))"
    unfolding m using c(2) items(2) k(2) by (intro load_settled [OF env]) auto
  also have "fr_target ` set (filter (\<lambda>r. \<not> rule_expired now r) (save_rules m0)) = fst ` set ?left"
    using m0(2) by (force simp: save_rules_def image_iff)
  finally have kernel: "blk (settled sys ovf m k) = Some (S \<union> element ` fst ` set (fm_rules m))" unfolding rules .
  have "map_of (fm_rules m) t = None" if "(t, r) \<in> set (fm_rules m0)" "rule_expired now r" for t r
    using that m0(1) by (auto simp: rules map_of_eq_None_iff dest: eq_key_imp_eq_value)
  then have "\<forall>(t, r)\<in>set (fm_rules m0). rule_expired now r \<longrightarrow>
      fst (unblock_ip t m) = False \<and> fst (unblock_range t m) = False"
    by (auto simp: unblock_ip_def unblock_range_def split: if_splits)
  then show ?thesis
    using rules kernel turns_drain [where sys = sys and ovf = ovf and m = m and k = k] by simp
qed

text \<open>Two rules, one expired at second 500; the kernel of the crashed server blocks both.\<close>

definition crashed_manager :: firewall_manager where
  "crashed_manager = firewall_manager_new\<lparr>fm_rules :=
     [(''10.0.0.1'', new_rule 100 ''10.0.0.1'' ''spam'' 60), (''192.168.1.0/24'', new_rule 100 ''192.168.1.0/24'' ''bots'' (- 2))]\<rparr>"

theorem firewall_recovery_witness:
  "\<exists>m k'. m = load_rules 500 (Some (save_rules crashed_manager)) (firewall_configure Executable demo_cfg firewall_manager_new) \<and>
    map fst (fm_rules m) = [''192.168.1.0/24''] \<and>
    (exec_turn demo_system id ^^ length (fm_exec_queue m)) (m, Some (map element demo_targets)) = (m\<lparr>fm_exec_queue := []\<rparr>, k') \<and>
    demo_blk k' = Some {element ''10.0.0.1'', element ''192.168.1.0/24''}"
proof -
  let ?k = "Some (map element demo_targets)"
  have "distinct (map fst (fm_rules crashed_manager))"
    "\<forall>(t, r)\<in>set (fm_rules crashed_manager). fr_target r = t \<and> t \<in> set demo_targets"
    "filter (\<lambda>(t, r). \<not> rule_expired 500 r) (fm_rules crashed_manager) =
       [(''192.168.1.0/24'', new_rule 100 ''192.168.1.0/24'' ''bots'' (- 2))]"
    by (simp_all add: crashed_manager_def demo_targets_def new_rule_def rule_expired_def DURATION_PERMANENT_def)
  moreover have "fg_enabled demo_cfg" "fg_helper_path demo_cfg \<noteq> []" by (simp_all add: demo_cfg_def)
  moreover have "demo_blk ?k = Some (element ` set demo_targets)" by (simp add: demo_blk_def)
  ultimately show ?thesis
    using firewall_recovery [OF demo_runs demo_laws demo_plain, where cfg = demo_cfg and ?m0.0 = crashed_manager and k = ?k
        and S = "element ` set demo_targets" and now = 500, OF _ _ _ _ _ _ refl]
    by (auto simp: demo_targets_def insert_commute)
qed

section \<open>Operations that the helper refuses\<close>

lemma refused_unchanged:
  assumes "helper_runs sys" "fg_helper_path cfg \<noteq> []" "nul_free t" "t \<noteq> []"
  shows "\<not> is_valid_cidr ovf t \<Longrightarrow> command_result sys ovf cfg (''add-range'', t) k = k"
    "\<not> is_valid_ip ovf t \<Longrightarrow> command_result sys ovf cfg (''remove'', t) k = k"
  unfolding exec_helper_main [OF assms(1,2)] using assms(3,4)
  by (simp_all add: fw_main_def helper_runs_simps [OF assms(1)] nul_free_actions c_str_nul_free Let_def)

lemma sscanf_trailing:
  assumes "junk \<noteq> []" "\<not> c_isdigit (hd junk)"
  shows "snd (sscanf ovf [CInt, CChr] (show_nat n @ junk)) = 2"
  using assms scan_int_show [of junk n] by (cases junk) (simp_all split: prod.split)

lemma cut_at_slash:
  assumes "\<not> is_range ip"
  shows "takeWhile (\<lambda>c. c \<noteq> CHR ''/'') (ip @ CHR ''/'' # r) = ip"
    "dropWhile (\<lambda>c. c \<noteq> CHR ''/'') (ip @ CHR ''/'' # r) = CHR ''/'' # r"
proof -
  have "\<forall>c\<in>set ip. c \<noteq> CHR ''/''" using assms unfolding is_range_def by blast
  then show "takeWhile (\<lambda>c. c \<noteq> CHR ''/'') (ip @ CHR ''/'' # r) = ip"
    "dropWhile (\<lambda>c. c \<noteq> CHR ''/'') (ip @ CHR ''/'' # r) = CHR ''/'' # r"
    using takeWhile_run [of ip "\<lambda>c. c \<noteq> CHR ''/''" "CHR ''/'' # r"] by simp_all
qed

lemma trailing_accepted:
  assumes "manager_valid_ip ovf ip" "nul_free ip" "nul_free junk" "junk \<noteq> []" "\<not> c_isdigit (hd junk)"
    and "n \<le> (if CHR '':'' \<in> set ip then 128 else 32)"
  shows "manager_valid_cidr ovf (ip @ CHR ''/'' # show_nat n @ junk) \<and>
    \<not> is_valid_cidr ovf (ip @ CHR ''/'' # show_nat n @ junk)"
proof -
  have sl: "\<not> is_range ip" using manager_ip_plain [OF assms(2,1)] .
  have ip: "ip \<noteq> []" using assms(1) by (auto simp: manager_valid_ip_def)
  have "char_code c \<noteq> 0" if "c_isdigit c" for c using that by (auto simp: c_isdigit_def)
  then have "nul_free (show_nat n @ junk)"
    using assms(3) show_nat_digits [of n] by (auto simp: nul_free_def)
  then have "prefix_stoi (show_nat n @ junk) = Some (int n)"
    using scan_int_show [of junk n] assms(5,6) by (auto simp: prefix_stoi_def c_str_nul_free split: if_splits)
  then have a: "manager_valid_cidr ovf (ip @ CHR ''/'' # show_nat n @ junk)"
    using assms(1,6) ip unfolding manager_valid_cidr_def cut_at_slash [OF sl] by auto
  obtain vs where "sscanf ovf [CInt, CChr] (show_nat n @ junk) = (vs, 2)"
    using sscanf_trailing [OF assms(4,5), of ovf n] by (metis prod.collapse)
  then have "\<not> is_valid_cidr ovf (ip @ CHR ''/'' # show_nat n @ junk)"
    unfolding is_valid_cidr_def cut_at_slash [OF sl] by (auto simp: Let_def split: list.splits)
  then show ?thesis using a by simp
qed

text \<open>
  C35: Two operations on ranges are acknowledged although the helper refuses their commands: a range
  with any text after the prefix length, whose rule is listed but never installed, and the removal
  of a range by \<open>unblock_ip\<close> (which \<open>/firewall remove\<close> uses), whose rule is dropped while the kernel
  goes on enforcing it.
\<close>

theorem acknowledged_but_refused:
  assumes "helper_runs sys" "fg_helper_path (fm_config m) \<noteq> []" "fm_enabled m"
    and "manager_valid_ip ovf ip" "nul_free ip" "nul_free junk" "junk \<noteq> []" "\<not> c_isdigit (hd junk)"
    and "n \<le> (if CHR '':'' \<in> set ip then 128 else 32)"
    and "map_of (fm_rules m) t \<noteq> None" "is_range t" "nul_free t"
  shows "(let cidr = ip @ CHR ''/'' # show_nat n @ junk; (ok, m') = block_range ovf now cidr reason d m
          in ok \<and> map_of (fm_rules m') cidr = Some (new_rule now cidr reason d) \<and>
             settled sys ovf m' k = settled sys ovf m k) \<and>
    (let (ok, m') = unblock_ip t m
     in ok \<and> map_of (fm_rules m') t = None \<and> settled sys ovf m' k = settled sys ovf m k)"
proof -
  let ?cidr = "ip @ CHR ''/'' # show_nat n @ junk"
  have v: "manager_valid_cidr ovf ?cidr" "\<not> is_valid_cidr ovf ?cidr"
    using trailing_accepted [OF assms(4-9)] by auto
  have "nul_free ?cidr"
  proof -
    have "char_code c \<noteq> 0" if "c_isdigit c" for c using that by (auto simp: c_isdigit_def)
    then show ?thesis using assms(5,6) show_nat_digits [of n] by (auto simp: nul_free_def char_code_def)
  qed
  then have "command_result sys ovf (fm_config m) (''add-range'', ?cidr) k' = k'" for k'
    using refused_unchanged(1) [OF assms(1,2) _ _ v(2)] by simp
  then have add: "settled sys ovf (enqueue_command (''add-range'', ?cidr) (store_rule (new_rule now ?cidr reason d) m)) k =
      settled sys ovf m k"
    by (subst settled_enqueued [of _ m]) (simp_all add: enqueue_command_def store_rule_def)
  have t: "t \<noteq> []" "\<not> is_valid_ip ovf t"
    using assms(11) valid_ip_no_slash [of ovf t] by (auto simp: is_range_def)
  have remove: "settled sys ovf (enqueue_command (''remove'', t) (m\<lparr>fm_rules := R\<rparr>)) k = settled sys ovf m k" for R
    using refused_unchanged(2) [OF assms(1,2,12) t]
    by (subst settled_enqueued [of _ m]) (simp_all add: enqueue_command_def)
  have "snd (block_range ovf now ?cidr reason d m) =
      enqueue_command (''add-range'', ?cidr) (store_rule (new_rule now ?cidr reason d) m)"
    "snd (unblock_ip t m) = enqueue_command (''remove'', t) (m\<lparr>fm_rules := AList.delete t (fm_rules m)\<rparr>)"
    using v(1) assms(3,10) by (auto simp: block_range_def unblock_ip_def)
  moreover have "fst (block_range ovf now ?cidr reason d m)" "fst (unblock_ip t m)"
    using v(1) assms(3,10) by (simp_all add: block_range_def unblock_ip_def)
  moreover have "fm_rules (enqueue_command c (store_rule (new_rule now x reason d) m)) =
      AList.update x (new_rule now x reason d) (fm_rules m)" for c x
    by (simp add: enqueue_command_def store_rule_def new_rule_def)
  moreover have "fm_rules (enqueue_command c (m\<lparr>fm_rules := R\<rparr>)) = R" for c R by (simp add: enqueue_command_def)
  ultimately show ?thesis using add remove by (simp add: split_beta Let_def update_conv delete_conv)
qed

theorem acknowledged_but_refused_witness:
  "fst (block_range id 0 ''10.0.0.0/8abc'' ''bots'' (- 2) demo_manager) \<and> fst (unblock_ip ''192.168.1.0/24'' demo_manager)"
proof -
  have "manager_valid_ip id ''10.0.0.0''" "nul_free ''10.0.0.0''" "nul_free ''abc''" "show_nat 8 = ''8''"
    "nul_free ''192.168.1.0/24''"
    unfolding nul_free_def by code_simp+
  moreover have "\<not> c_isdigit (hd ''abc'')" "is_range ''192.168.1.0/24''"
    by (simp_all add: c_isdigit_def char_code_def is_range_def)
  ultimately show ?thesis
    using acknowledged_but_refused [OF demo_runs, of demo_manager id "''10.0.0.0''" "''abc''" 8 "''192.168.1.0/24''" 0 "''bots''" "- 2" None]
    by (simp add: demo_manager_def demo_cfg_def Let_def split_beta)
qed

section \<open>Shutdown\<close>

lemma steps_without_turn:
  "Fw_Turn \<notin> set ops \<Longrightarrow>
   fold (firewall_step sys ovf) ops (m, k) = (fold (firewall_op_run ovf) ops m, k)"
  by (induction ops arbitrary: m) (auto simp: firewall_step_def)

text \<open>
  C0: The destructor flushes first and drains the queue afterwards. If the thread has not yet come to
  the commands since the configuration, they create the table anew and install every rule: the
  server is gone, with the cleanup asked for, and the kernel blocks all that was listed.
\<close>

theorem cleanup_is_undone_by_the_queue:
  assumes "helper_runs sys" "nft_laws sys blk T" "\<forall>t\<in>T. plain_target ovf t"
    and "fg_enabled cfg" "fg_helper_path cfg \<noteq> []" "fg_cleanup_on_shutdown cfg"
    and "list_all (service_op T) ops" "Fw_Turn \<notin> set ops"
    and "fold (firewall_step sys ovf) ops (firewall_configure Executable cfg firewall_manager_new, k) = (m, k1)"
  shows "k1 = k \<and> blk (firewall_destroy sys ovf (m, k1)) = Some (element ` fr_target ` set (list_rules m))"
proof -
  let ?c = "firewall_configure Executable cfg firewall_manager_new"
  let ?flushed = "command_result sys ovf cfg (''flush'', []) k"
  have m: "m = fold (firewall_op_run ovf) ops ?c" "k1 = k"
    using assms(9) by (simp_all add: steps_without_turn [OF assms(8)])
  have "blk ?flushed = None" using assms(2) helper_flushes [OF assms(1,5)] by (simp add: nft_laws_def)
  then have ok: "firewall_ok sys ovf blk T m ?flushed"
    using ok_run [OF assms(1-3,7), of "(?c, ?flushed)"] ok_configured [OF assms(1,2) _ assms(4,5), of ?flushed]
    by (simp add: steps_without_turn [OF assms(8)] m)
  have "fm_config (firewall_op_run ovf op m) = fm_config m" if "service_op T op" for op m
  proof -
    have "\<forall>file cfg. op \<noteq> Fw_Configure file cfg" using that by auto
    then show ?thesis using appends_op [of op m ovf] by (simp add: appends_rules_def)
  qed
  then have "list_all (service_op T) os \<Longrightarrow> fm_config (fold (firewall_op_run ovf) os m0) = fm_config m0" for os m0
    by (induction os arbitrary: m0) auto
  then have "fm_config m = cfg"
    using assms(4,5,7) by (simp add: m firewall_configure_def enqueue_command_def)
  then have "firewall_destroy sys ovf (m, k1) = settled sys ovf m ?flushed"
    using ok assms(6) by (simp add: firewall_destroy_def firewall_ok_def settled_def command_result_def m(2))
  moreover have "fr_target ` set (list_rules m) = fst ` set (fm_rules m)"
    using ok by (force simp: list_rules_def firewall_ok_def image_image intro!: image_cong)
  ultimately show ?thesis using ok m(2) by (simp add: firewall_ok_def)
qed

theorem cleanup_is_undone_by_the_queue_witness:
  "\<exists>m. list_rules m = [new_rule 100 ''10.0.0.1'' ''spam'' 60] \<and>
     demo_blk (firewall_destroy demo_system id (m, None)) = Some {(''blocked4'', ''{ 10.0.0.1 }'')}"
proof -
  let ?ops = "[Fw_Block_Ip 100 ''10.0.0.1'' ''spam'' 60]"
  let ?m = "fold (firewall_op_run id) ?ops (firewall_configure Executable demo_cfg firewall_manager_new)"
  have "manager_valid_ip id ''10.0.0.1''" by code_simp
  then have l: "list_rules ?m = [new_rule 100 ''10.0.0.1'' ''spam'' 60]"
    by (simp add: block_ip_def firewall_configure_def enqueue_command_def firewall_manager_new_def demo_cfg_def
        store_rule_def list_rules_def new_rule_def)
  have "list_all (service_op (set demo_targets)) ?ops" by (simp add: demo_targets_def)
  then have "demo_blk (firewall_destroy demo_system id (?m, None)) = Some (element ` fr_target ` set (list_rules ?m))"
    using cleanup_is_undone_by_the_queue [OF demo_runs demo_laws demo_plain, of demo_cfg ?ops None ?m None]
    by (simp add: firewall_step_def demo_cfg_def)
  moreover have "element ''10.0.0.1'' = (''blocked4'', ''{ 10.0.0.1 }'')"
    by (simp add: element_def set_of_def is_ipv6_def elem_of_def snprintf_def NFT_SET_V4_def)
  ultimately show ?thesis using l by (auto simp: new_rule_def)
qed

section \<open>Bans and their blocks\<close>

lemma block_call_rule:
  assumes "be_ip e \<noteq> []" "manager_valid_ip ovf (be_ip e)" "fm_enabled m"
  shows "ban_firewall_call ovf now (block_call e) m =
    enqueue_command (''add'', be_ip e) (store_rule (new_rule now (be_ip e) (be_reason e) (fw_duration e)) m)"
  using assms by (simp add: block_call_def block_ip_def)

lemma block_calls_enabled: "fm_enabled (fold (ban_firewall_call ovf now) (map block_call es) m) = fm_enabled m"
  by (induction es arbitrary: m) (auto simp: block_call_def block_ip_def enqueue_command_def store_rule_def)

lemma block_calls_other:
  "ip \<notin> be_ip ` set es \<Longrightarrow>
   map_of (fm_rules (fold (ban_firewall_call ovf now) (map block_call es) m)) ip = map_of (fm_rules m) ip"
  by (induction es arbitrary: m)
    (auto simp: block_call_def block_ip_def enqueue_command_def store_rule_def new_rule_def update_conv)

text \<open>
  C32: At a start every active ban is blocked again for its full duration, counted from now and not
  from the ban: as long as the server has been restarted at least once, the kernel goes on
  refusing the address after the ban has expired, for as long as the ban was old at the restart.
\<close>

theorem reloaded_ban_outlasts_itself:
  assumes "load_from_db True active b = (b', calls)" "bm_has_db b" "bm_fw_enabled b" "fm_enabled m"
    and "e \<in> set active" "distinct (map be_ip active)" "manager_valid_ip ovf (be_ip e)" "be_duration e > 0"
    and "be_timestamp e + be_duration e < t" "t < now + be_duration e"
  shows "is_expired (t * 1000000000) e \<and>
    (\<exists>r. map_of (fm_rules (fold (ban_firewall_call ovf now) calls m)) (be_ip e) = Some r \<and> \<not> rule_expired t r)"
proof -
  have ip: "be_ip e \<noteq> []" using assms(7) by (auto simp: manager_valid_ip_def)
  have calls: "calls = map block_call (filter (\<lambda>e. be_ip e \<noteq> []) active)"
    using assms(1-3) by (auto simp: load_from_db_def)
  obtain xs ys where split: "filter (\<lambda>e. be_ip e \<noteq> []) active = xs @ e # ys"
    using assms(5) ip by (auto dest!: split_list)
  have "distinct (map be_ip (filter (\<lambda>e. be_ip e \<noteq> []) active))"
    using assms(6) by (rule distinct_map_filter)
  then have "be_ip e \<notin> be_ip ` set ys" by (simp add: split)
  then have "map_of (fm_rules (fold (ban_firewall_call ovf now) calls m)) (be_ip e) =
      Some (new_rule now (be_ip e) (be_reason e) (fw_duration e))"
    using assms(4,7) ip
    by (simp add: calls split block_calls_other block_call_rule block_calls_enabled enqueue_command_def store_rule_def
        update_conv new_rule_def)
  moreover have "fw_duration e = be_duration e" using assms(8) by (simp add: fw_duration_def is_permanent_def)
  ultimately show ?thesis
    using assms(8-10) by (auto simp: is_expired_def is_permanent_def rule_expired_def new_rule_def DURATION_PERMANENT_def)
qed

text \<open>A ban of one day, the restart after 20 hours: 20 hours after its end the address is still refused.\<close>

theorem reloaded_ban_outlasts_itself_witness:
  "is_expired (159999 * 1000000000) (ban_entry_new\<lparr>be_ip := ''10.0.0.1'', be_timestamp := 1000, be_duration := 86400\<rparr>)"
proof -
  let ?e = "ban_entry_new\<lparr>be_ip := ''10.0.0.1'', be_timestamp := 1000, be_duration := 86400\<rparr>"
  let ?b = "ban_manager_new\<lparr>bm_has_db := True, bm_fw_enabled := True\<rparr>"
  have "manager_valid_ip id ''10.0.0.1''" by code_simp
  then show ?thesis
    using reloaded_ban_outlasts_itself [of "[?e]" ?b _ _ demo_manager ?e id 159999 73600]
    by (cases "load_from_db True [?e] ?b") (simp add: ban_manager_new_def demo_manager_def ban_entry_new_def)
qed

end
