(* ===== verification/Slur_Filter.thy ===== *)
theory Slur_Filter
  imports Prelude
begin

text \<open>
  The wordlist layer of content moderation: include/moderation/SlurFilter.h and
  engine/moderation/SlurFilter.cpp. A text is its bytes. The decoder's index into the text is here
  the text from that index on; code points are natural numbers, which stay below 2 ^ 21 in the
  decoder's 32-bit accumulator. The hash sets of tokens are lists without repetitions. Of the
  configuration the filter reads the switch and the score of a match; the score is only copied, so
  its type is a parameter. Each operation runs under the filter's lock.
\<close>

unbundle bit_operations_syntax

section \<open>Decoding\<close>

text \<open>The loop over the continuation bytes: those that follow, how many, and the bits so far.\<close>

fun decode_rest :: "string \<Rightarrow> nat \<Rightarrow> nat \<Rightarrow> nat option" where
  "decode_rest s 0 cp = Some cp"
| "decode_rest (c # s) (Suc n) cp =
    (if char_code c AND 0xC0 \<noteq> 0x80 then None
     else decode_rest s n (push_bit 6 cp OR (char_code c AND 0x3F)))"
| "decode_rest [] (Suc n) cp = None"

text \<open>The code point and the number of bytes consumed.\<close>

definition decode_utf8 :: "string \<Rightarrow> nat \<times> nat" where
  "decode_utf8 s =
    (case s of
       [] \<Rightarrow> (0xFFFD, 0)
     | c # r \<Rightarrow>
         (let b0 = char_code c in
          if b0 < 0x80 then (b0, 1)
          else
            (let (width, cp) =
               (if b0 AND 0xE0 = 0xC0 then (2, b0 AND 0x1F)
                else if b0 AND 0xF0 = 0xE0 then (3, b0 AND 0x0F)
                else if b0 AND 0xF8 = 0xF0 then (4, b0 AND 0x07)
                else (0, 0))
             in if width = 0 then (0xFFFD, 1)
                else if width > length s then (0xFFFD, 1)
                else case decode_rest r (width - 1) cp of
                       None \<Rightarrow> (0xFFFD, 1)
                     | Some cp \<Rightarrow>
                         if cp \<ge> 0xD800 \<and> cp \<le> 0xDFFF then (0xFFFD, 1)
                         else if cp > 0x10FFFF then (0xFFFD, 1)
                         else if width = 2 \<and> cp < 0x80 \<or> width = 3 \<and> cp < 0x800 \<or> width = 4 \<and> cp < 0x10000
                         then (0xFFFD, 1)
                         else (cp, width))))"

section \<open>Folding\<close>

definition is_combining_mark :: "nat \<Rightarrow> bool" where
  "is_combining_mark cp =
    (cp \<ge> 0x0300 \<and> cp \<le> 0x036F \<or> cp \<ge> 0x20D0 \<and> cp \<le> 0x20FF \<or> cp \<ge> 0xFE20 \<and> cp \<le> 0xFE2F \<or>
     cp \<ge> 0x1AB0 \<and> cp \<le> 0x1AFF \<or> cp \<ge> 0x1DC0 \<and> cp \<le> 0x1DFF)"

definition is_zero_width :: "nat \<Rightarrow> bool" where
  "is_zero_width cp = (cp \<in> set [0x200B, 0x200C, 0x200D, 0x2060, 0xFEFF, 0x180E, 0x00AD])"

text \<open>The character zero stands for no mapping.\<close>

definition fold_latin :: "nat \<Rightarrow> char option" where
  "fold_latin cp =
    (if cp \<in> set [0x00C0, 0x00C1, 0x00C2, 0x00C3, 0x00C4, 0x00C5, 0x00E0, 0x00E1, 0x00E2, 0x00E3, 0x00E4, 0x00E5]
     then Some CHR ''a''
     else if cp \<in> set [0x00C8, 0x00C9, 0x00CA, 0x00CB, 0x00E8, 0x00E9, 0x00EA, 0x00EB] then Some CHR ''e''
     else if cp \<in> set [0x00CC, 0x00CD, 0x00CE, 0x00CF, 0x00EC, 0x00ED, 0x00EE, 0x00EF] then Some CHR ''i''
     else if cp \<in> set [0x00D2, 0x00D3, 0x00D4, 0x00D5, 0x00D6, 0x00D8, 0x00F2, 0x00F3, 0x00F4, 0x00F5, 0x00F6, 0x00F8]
     then Some CHR ''o''
     else if cp \<in> set [0x00D9, 0x00DA, 0x00DB, 0x00DC, 0x00F9, 0x00FA, 0x00FB, 0x00FC] then Some CHR ''u''
     else if cp \<in> set [0x00D1, 0x00F1] then Some CHR ''n''
     else if cp \<in> set [0x00C7, 0x00E7] then Some CHR ''c''
     else if cp \<in> set [0x00DD, 0x00FD, 0x00FF] then Some CHR ''y''
     else None)"

definition cyrillic_folds :: "(nat \<times> char) list" where
  "cyrillic_folds =
    [(0x0430, CHR ''a''), (0x0435, CHR ''e''), (0x0456, CHR ''i''), (0x043E, CHR ''o''), (0x0440, CHR ''p''),
     (0x0441, CHR ''c''), (0x0443, CHR ''y''), (0x0445, CHR ''x''), (0x043A, CHR ''k''), (0x043C, CHR ''m''),
     (0x0410, CHR ''a''), (0x0412, CHR ''b''), (0x0415, CHR ''e''), (0x041A, CHR ''k''), (0x041C, CHR ''m''),
     (0x041D, CHR ''h''), (0x041E, CHR ''o''), (0x0420, CHR ''p''), (0x0421, CHR ''c''), (0x0422, CHR ''t''),
     (0x0425, CHR ''x'')]"

definition greek_folds :: "(nat \<times> char) list" where
  "greek_folds =
    [(0x03B1, CHR ''a''), (0x03BF, CHR ''o''), (0x03B5, CHR ''e''), (0x03BD, CHR ''v''), (0x03C1, CHR ''p''),
     (0x03BA, CHR ''k''), (0x03B9, CHR ''i''), (0x03C7, CHR ''x'')]"

definition fold_confusable :: "nat \<Rightarrow> char" where
  "fold_confusable cp =
    (if cp \<ge> 0xFF01 \<and> cp \<le> 0xFF5E then char_of (cp - 0xFEE0)
     else case fold_latin cp of
            Some c \<Rightarrow> c
          | None \<Rightarrow>
              (case map_of cyrillic_folds cp of
                 Some c \<Rightarrow> c
               | None \<Rightarrow> (case map_of greek_folds cp of Some c \<Rightarrow> c | None \<Rightarrow> CHR 0x00)))"

definition fold_leet_digit :: "char \<Rightarrow> char" where
  "fold_leet_digit c =
    (if c = CHR ''0'' then CHR ''o'' else if c = CHR ''1'' then CHR ''i'' else if c = CHR ''3'' then CHR ''e''
     else if c = CHR ''4'' then CHR ''a'' else if c = CHR ''5'' then CHR ''s'' else if c = CHR ''7'' then CHR ''t''
     else if c = CHR ''9'' then CHR ''g'' else c)"

text \<open>What the loop of the first pass appends for a code point.\<close>

definition fold_code_point :: "nat \<Rightarrow> string" where
  "fold_code_point cp =
    (if cp = 0xFFFD then '' ''
     else if is_combining_mark cp \<or> is_zero_width cp then []
     else if cp < 0x80 then
       (let c = char_of cp;
            c = (if c_isupper c then c_tolower c else c);
            c = (if c_isdigit c then fold_leet_digit c else c)
        in [c])
     else if fold_confusable cp \<noteq> CHR 0x00 then [c_tolower (fold_confusable cp)]
     else '' '')"

lemma decode_utf8_advance: "s \<noteq> [] \<Longrightarrow> 0 < snd (decode_utf8 s)"
  by (cases s) (auto simp: decode_utf8_def Let_def split: option.split)

function fold_message :: "string \<Rightarrow> string" where
  "fold_message s =
    (if s = [] then []
     else (let (cp, n) = decode_utf8 s in fold_code_point cp @ fold_message (drop n s)))"
  by pat_completeness auto
termination
proof (relation "measure length")
  fix s :: string and p cp n
  assume "s \<noteq> []" "p = decode_utf8 s" "(cp, n) = p"
  then show "(drop n s, s) \<in> measure length"
    using decode_utf8_advance [of s] by (metis diff_less in_measure length_drop length_greater_0_conv snd_conv)
qed simp

declare fold_message.simps [simp del]

definition c_isalpha :: "char \<Rightarrow> bool" where
  "c_isalpha c = (c_isupper c \<or> c_islower c)"

function collapse_runs :: "string \<Rightarrow> string" where
  "collapse_runs [] = []"
| "collapse_runs (c # s) =
    (let run = c # takeWhile (\<lambda>d. d = c) s in
     (if c_isalpha c \<and> length run \<ge> 3 then [c] else run) @ collapse_runs (dropWhile (\<lambda>d. d = c) s))"
  by pat_completeness auto
termination
  by (relation "measure length") (auto simp: le_imp_less_Suc length_dropWhile_le)

definition normalize_message :: "string \<Rightarrow> string" where
  "normalize_message message = collapse_runs (fold_message message)"

section \<open>Tokens\<close>

function tokenize :: "string \<Rightarrow> string list" where
  "tokenize s =
    (if s = [] then []
     else
       let rest = dropWhile (\<lambda>c. \<not> c_isalnum c) s;
           token = takeWhile c_isalnum rest
       in (if token \<noteq> [] then [token] else []) @ tokenize (dropWhile c_isalnum rest))"
  by pat_completeness auto
termination
proof (relation "measure length")
  fix s rest token :: string
  assume s: "s \<noteq> []" and rest: "rest = dropWhile (\<lambda>c. \<not> c_isalnum c) s"
  show "(dropWhile c_isalnum rest, s) \<in> measure length"
  proof (cases rest)
    case Nil
    then show ?thesis using s by simp
  next
    case (Cons c r)
    then have "c_isalnum c" using hd_dropWhile [of "\<lambda>c. \<not> c_isalnum c" s] rest by auto
    then have "length (dropWhile c_isalnum rest) < length rest"
      using Cons length_dropWhile_le [of c_isalnum r] by simp
    also have "\<dots> \<le> length s" unfolding rest by (rule length_dropWhile_le)
    finally show ?thesis by simp
  qed
qed simp

declare tokenize.simps [simp del]

definition try_strip :: "string \<Rightarrow> string \<Rightarrow> bool" where
  "try_strip token suffix =
    (if length token < length suffix + 3 then False
     else drop (length token - length suffix) token = suffix)"

definition strip_suffix :: "string \<Rightarrow> string" where
  "strip_suffix token =
    (if try_strip token ''ers'' then take (length token - 3) token
     else if try_strip token ''ing'' then take (length token - 3) token
     else if try_strip token ''ed'' then take (length token - 2) token
     else if try_strip token ''er'' then take (length token - 2) token
     else if try_strip token ''es'' then take (length token - 2) token
     else if try_strip token ''s'' then take (length token - 1) token
     else token)"

section \<open>The filter\<close>

record 'd slur_config =
  sc_enabled :: bool
  sc_match_score :: 'd

record 'd slur_filter =
  sf_cfg :: "'d slur_config"
  sf_wordlist :: "string list"
  sf_exceptions :: "string list"

record 'd slur_result =
  sr_score :: 'd
  sr_matched :: "string list"
  sr_reason :: string

definition slur_configure :: "'d slur_config \<Rightarrow> 'd slur_filter \<Rightarrow> 'd slur_filter" where
  "slur_configure cfg f = f\<lparr>sf_cfg := cfg\<rparr>"

definition load_wordlist :: "string list \<Rightarrow> 'd slur_filter \<Rightarrow> 'd slur_filter" where
  "load_wordlist raw f =
    f\<lparr>sf_wordlist := fold (\<lambda>entry fresh.
        case tokenize (normalize_message entry) of
          [] \<Rightarrow> fresh
        | tok # _ \<Rightarrow> if length tok < 3 then fresh else List.insert tok fresh) raw []\<rparr>"

definition load_exceptions :: "string list \<Rightarrow> 'd slur_filter \<Rightarrow> 'd slur_filter" where
  "load_exceptions raw f =
    f\<lparr>sf_exceptions := fold (\<lambda>entry fresh.
        case tokenize (normalize_message entry) of [] \<Rightarrow> fresh | tok # _ \<Rightarrow> List.insert tok fresh) raw []\<rparr>"

definition wordlist_size :: "'d slur_filter \<Rightarrow> nat" where
  "wordlist_size f = length (sf_wordlist f)"

definition exception_size :: "'d slur_filter \<Rightarrow> nat" where
  "exception_size f = length (sf_exceptions f)"

definition slur_active :: "'d slur_filter \<Rightarrow> bool" where
  "slur_active f = (sc_enabled (sf_cfg f) \<and> sf_wordlist f \<noteq> [])"

definition slur_candidate :: "'d slur_filter \<Rightarrow> string \<Rightarrow> string list" where
  "slur_candidate f tok =
    (if tok \<in> set (sf_exceptions f) then []
     else if tok \<in> set (sf_wordlist f) then [tok]
     else
       let stem = strip_suffix tok in
       if length stem < length tok then
         (if stem \<notin> set (sf_exceptions f) \<and> stem \<in> set (sf_wordlist f) then [stem] else [])
       else [])"

definition no_match :: "('d::zero) slur_result" where
  "no_match = \<lparr>sr_score = 0, sr_matched = [], sr_reason = []\<rparr>"

definition slur_scan :: "string \<Rightarrow> ('d::zero) slur_filter \<Rightarrow> 'd slur_result" where
  "slur_scan message f =
    (if \<not> slur_active f then no_match
     else
       let tokens = tokenize (normalize_message message) in
       if tokens = [] then no_match
       else if sf_wordlist f = [] then no_match
       else
         let candidates = concat (map (slur_candidate f) tokens) in
         if candidates = [] then no_match
         else
           let matched = fold (\<lambda>c out. if c \<in> set out then out else out @ [c]) candidates [] in
           \<lparr>sr_score = sc_match_score (sf_cfg f), sr_matched = matched,
            sr_reason = ''slur('' @ show_nat (length matched) @ '')''\<rparr>)"

end
