(* ===== verification/Slur_Filter_Props.thy ===== *)
theory Slur_Filter_Props
  imports Slur_Filter
begin

text \<open>
  The wordlist filter: the decoder against UTF-8 as the standard defines it, which decorations of a
  text the normalisation sees through, what the scan reports, and which inflections escape it.
\<close>

unbundle bit_operations_syntax

section \<open>UTF-8\<close>

text \<open>The encoding of a Unicode scalar value (RFC 3629).\<close>

definition scalar :: "nat \<Rightarrow> bool" where
  "scalar cp = (cp < 0x110000 \<and> \<not> (0xD800 \<le> cp \<and> cp \<le> 0xDFFF))"

definition utf8_codes :: "nat \<Rightarrow> nat list" where
  "utf8_codes cp =
    (if cp < 0x80 then [cp]
     else if cp < 0x800 then [0xC0 + cp div 64, 0x80 + cp mod 64]
     else if cp < 0x10000 then [0xE0 + cp div 4096, 0x80 + cp div 64 mod 64, 0x80 + cp mod 64]
     else [0xF0 + cp div 262144, 0x80 + cp div 4096 mod 64, 0x80 + cp div 64 mod 64, 0x80 + cp mod 64])"

definition utf8 :: "nat \<Rightarrow> string" where
  "utf8 cp = map char_of (utf8_codes cp)"

definition well_formed_start :: "string \<Rightarrow> bool" where
  "well_formed_start s = (\<exists>cp rest. scalar cp \<and> s = utf8 cp @ rest)"

subsection \<open>The decoder's masks are ranges\<close>

lemma and_high: "(b::nat) AND push_bit n (mask m) = 2 ^ n * (b div 2 ^ n mod 2 ^ m)"
proof -
  have "b AND push_bit n (mask m) = push_bit n (take_bit m (drop_bit n b))"
    by (rule bit_eqI) (auto simp: bit_simps)
  then show ?thesis by (simp add: push_bit_eq_mult take_bit_eq_mod drop_bit_eq_div)
qed

lemma high_masks:
  "(b::nat) AND 0xE0 = 32 * (b div 32 mod 8)" "b AND 0xF0 = 16 * (b div 16 mod 16)"
  "b AND 0xF8 = 8 * (b div 8 mod 32)" "b AND 0xC0 = 64 * (b div 64 mod 4)"
proof -
  have "push_bit 5 (mask 3 :: nat) = 0xE0" "push_bit 4 (mask 4 :: nat) = 0xF0"
    "push_bit 3 (mask 5 :: nat) = 0xF8" "push_bit 6 (mask 2 :: nat) = 0xC0"
    by (simp_all add: mask_eq_exp_minus_1 push_bit_eq_mult)
  then show "b AND 0xE0 = 32 * (b div 32 mod 8)" "b AND 0xF0 = 16 * (b div 16 mod 16)"
    "b AND 0xF8 = 8 * (b div 8 mod 32)" "b AND 0xC0 = 64 * (b div 64 mod 4)"
    using and_high [of b 5 3] and_high [of b 4 4] and_high [of b 3 5] and_high [of b 6 2] by simp_all
qed

lemma low_masks:
  "(b::nat) AND 0x1F = b mod 32" "b AND 0x0F = b mod 16" "b AND 0x07 = b mod 8" "b AND 0x3F = b mod 64"
  using and_high [of b 0 5] and_high [of b 0 4] and_high [of b 0 3] and_high [of b 0 6]
  by (simp_all add: mask_eq_exp_minus_1)

lemma lead_ranges:
  assumes "(b::nat) < 256"
  shows "b AND 0xE0 = 0xC0 \<longleftrightarrow> 192 \<le> b \<and> b < 224" "b AND 0xF0 = 0xE0 \<longleftrightarrow> 224 \<le> b \<and> b < 240"
    "b AND 0xF8 = 0xF0 \<longleftrightarrow> 240 \<le> b \<and> b < 248" "b AND 0xC0 = 0x80 \<longleftrightarrow> 128 \<le> b \<and> b < 192"
proof -
  have small: "b div 32 mod 8 = b div 32" "b div 16 mod 16 = b div 16" "b div 8 mod 32 = b div 8" "b div 64 mod 4 = b div 64"
    using assms by (simp_all add: less_mult_imp_div_less)
  have eq: "m * (b div m) = m * q \<longleftrightarrow> m * q \<le> b \<and> b < m * q + m" if "0 < m" for m q
    using that div_nat_eqI [of m q b] by (metis add.commute div_mult_self1_is_m dividend_less_times_div
        mult.commute mult_Suc_right nonzero_mult_div_cancel_left less_not_refl3 times_div_less_eq_dividend)
  show "b AND 0xE0 = 0xC0 \<longleftrightarrow> 192 \<le> b \<and> b < 224" "b AND 0xF0 = 0xE0 \<longleftrightarrow> 224 \<le> b \<and> b < 240"
    "b AND 0xF8 = 0xF0 \<longleftrightarrow> 240 \<le> b \<and> b < 248" "b AND 0xC0 = 0x80 \<longleftrightarrow> 128 \<le> b \<and> b < 192"
    unfolding high_masks small using eq [of 32 6] eq [of 16 14] eq [of 8 30] eq [of 64 2] by simp_all
qed

lemma shifted_or: "push_bit 6 (cp::nat) OR (b AND 0x3F) = cp * 64 + b mod 64"
proof -
  have "push_bit 6 cp AND take_bit 6 b = 0" by (rule bit_eqI) (auto simp: bit_simps)
  then show ?thesis
    using disjunctive_add_eq_or [of "push_bit 6 cp" "take_bit 6 b"]
    by (simp add: low_masks take_bit_eq_mod push_bit_eq_mult)
qed

text \<open>The decoder in arithmetic.\<close>

definition continuation :: "char \<Rightarrow> bool" where
  "continuation c = (128 \<le> char_code c \<and> char_code c < 192)"

declare decode_rest.simps(2) [simp del]

lemma decode_rest_step [simp]:
  "decode_rest (c # s) (Suc n) cp =
    (if continuation c then decode_rest s n (cp * 64 + char_code c mod 64) else None)"
  using lead_ranges(4) [OF char_code_less_256, of c] by (simp add: decode_rest.simps(2) shifted_or continuation_def)

lemma decode_rest_one [simp]:
  "decode_rest s (Suc 0) cp = (case s of [] \<Rightarrow> None | c # _ \<Rightarrow> if continuation c then Some (cp * 64 + char_code c mod 64) else None)"
  by (cases s) simp_all

lemma decode_lead:
  "decode_utf8 (c # r) =
    (let b = char_code c in
     if b < 128 then (b, 1)
     else if b < 192 \<or> 248 \<le> b then (0xFFFD, 1)
     else
       (let (width, cp) = (if b < 224 then (2, b mod 32) else if b < 240 then (3, b mod 16) else (4, b mod 8))
        in if width > Suc (length r) then (0xFFFD, 1)
           else case decode_rest r (width - 1) cp of
                  None \<Rightarrow> (0xFFFD, 1)
                | Some cp \<Rightarrow>
                    if scalar cp \<and> (width = 2 \<longrightarrow> 0x80 \<le> cp) \<and> (width = 3 \<longrightarrow> 0x800 \<le> cp) \<and> (width = 4 \<longrightarrow> 0x10000 \<le> cp)
                    then (cp, width) else (0xFFFD, 1)))"
  using char_code_less_256 [of c]
  by (auto simp: decode_utf8_def Let_def lead_ranges low_masks scalar_def split: option.split)

subsection \<open>Accepted exactly when well formed\<close>

lemma char_of_code [simp]: "char_of (char_code c) = c"
  by (simp add: char_code_def)

lemma lead_low:
  "192 \<le> b \<Longrightarrow> b < 224 \<Longrightarrow> b mod 32 = b - (192::nat)" "224 \<le> b \<Longrightarrow> b < 240 \<Longrightarrow> b mod 16 = b - (224::nat)"
  "240 \<le> b \<Longrightarrow> b < 248 \<Longrightarrow> b mod 8 = b - (240::nat)" "128 \<le> b \<Longrightarrow> b < 192 \<Longrightarrow> b mod 64 = b - (128::nat)"
proof -
  have "b mod m = b - q * m" if "q * m \<le> b" "b < q * m + m" for m q :: nat
    using that by (intro mod_nat_eqI) auto
  from this [of 6 32] this [of 14 16] this [of 30 8] this [of 2 64]
  show "192 \<le> b \<Longrightarrow> b < 224 \<Longrightarrow> b mod 32 = b - 192" "224 \<le> b \<Longrightarrow> b < 240 \<Longrightarrow> b mod 16 = b - 224"
    "240 \<le> b \<Longrightarrow> b < 248 \<Longrightarrow> b mod 8 = b - 240" "128 \<le> b \<Longrightarrow> b < 192 \<Longrightarrow> b mod 64 = b - 128"
    by simp_all
qed

lemma six_bits: "(x::nat) div 64 * 64 + x mod 64 = x"
  by simp

lemma two_groups: "((x::nat) div 4096 * 64 + x div 64 mod 64) * 64 + x mod 64 = x"
proof -
  have "x div 4096 = x div 64 div 64" by (simp add: div_mult2_eq [of x 64 64, simplified])
  then show ?thesis using six_bits [of "x div 64"] six_bits [of x] by simp
qed

lemma three_groups: "(((x::nat) div 262144 * 64 + x div 4096 mod 64) * 64 + x div 64 mod 64) * 64 + x mod 64 = x"
proof -
  have "x div 262144 = x div 64 div 4096" "x div 4096 = x div 64 div 64"
    by (simp_all add: div_mult2_eq [of x 64 4096, simplified] div_mult2_eq [of x 64 64, simplified])
  then show ?thesis using two_groups [of "x div 64"] six_bits [of x] by simp
qed

lemma last_group: "(y::nat) < 64 \<Longrightarrow> (u * 64 + y) mod 64 = y" "(y::nat) < 64 \<Longrightarrow> (u * 64 + y) div 64 = u"
  by simp_all

lemma digits_two:
  assumes "(x::nat) < 64" "y < 64" "v = (a * 64 + x) * 64 + y"
  shows "v div 4096 = a" "v div 64 mod 64 = x" "v mod 64 = y"
proof -
  have m: "v mod 64 = y" and d: "v div 64 = a * 64 + x" using assms(2) by (simp_all only: assms(3) last_group)
  show "v mod 64 = y" by (rule m)
  show "v div 64 mod 64 = x" using assms(1) by (simp add: d)
  show "v div 4096 = a" using assms(1) by (simp add: d div_mult2_eq [of v 64 64, simplified])
qed

lemma digits_three:
  assumes "(x::nat) < 64" "y < 64" "z < 64" "v = ((a * 64 + x) * 64 + y) * 64 + z"
  shows "v div 262144 = a" "v div 4096 mod 64 = x" "v div 64 mod 64 = y" "v mod 64 = z"
proof -
  have m: "v mod 64 = z" and d: "v div 64 = (a * 64 + x) * 64 + y" using assms(3) by (simp_all only: assms(4) last_group)
  note two = digits_two [OF assms(1,2) d]
  show "v mod 64 = z" by (rule m)
  show "v div 64 mod 64 = y" using two(3) .
  show "v div 4096 mod 64 = x" using two(2) by (simp add: div_mult2_eq [of v 64 64, simplified])
  show "v div 262144 = a" using two(1) by (simp add: div_mult2_eq [of v 64 4096, simplified])
qed

lemma continuation_char_of [simp]: "(x::nat) < 64 \<Longrightarrow> continuation (char_of (128 + x))"
  by (simp add: continuation_def char_code_char_of)

lemma continuation_bits [simp]: "(x::nat) < 64 \<Longrightarrow> char_code (char_of (128 + x)) mod 64 = x"
  by (simp add: char_code_char_of lead_low)

lemma decode_utf8_encoded:
  assumes "scalar cp"
  shows "decode_utf8 (utf8 cp @ rest) = (cp, length (utf8 cp))"
proof -
  consider "cp < 0x80" | "0x80 \<le> cp" "cp < 0x800" | "0x800 \<le> cp" "cp < 0x10000" | "0x10000 \<le> cp" "cp < 0x110000"
    using assms by (fastforce simp: scalar_def)
  then show ?thesis
  proof cases
    case 1
    then show ?thesis by (simp add: utf8_def utf8_codes_def decode_lead char_code_char_of)
  next
    case 2
    have two: "decode_utf8 (char_of (192 + x) # char_of (128 + y) # rest) = (x * 64 + y, 2)"
      if "x < 32" "2 \<le> x" "y < 64" "scalar (x * 64 + y)" for x y
    proof -
      have "char_code (char_of (192 + x)) = 192 + x" "(192 + x) mod 32 = x" using that by (simp_all add: char_code_char_of lead_low)
      then show ?thesis using that by (simp add: decode_lead Let_def)
    qed
    have "cp div 64 < 32" "2 \<le> cp div 64" using 2 by auto
    then have "decode_utf8 (char_of (192 + cp div 64) # char_of (128 + cp mod 64) # rest) = (cp, 2)"
      using assms two [of "cp div 64" "cp mod 64"] six_bits [of cp] by simp
    moreover have "utf8 cp = [char_of (192 + cp div 64), char_of (128 + cp mod 64)]"
      using 2 by (simp add: utf8_def utf8_codes_def)
    ultimately show ?thesis by simp
  next
    case 3
    then have "cp div 4096 < 16" by auto
    then have "char_code (char_of (224 + cp div 4096)) = 224 + cp div 4096" "(224 + cp div 4096) mod 16 = cp div 4096"
      by (simp_all add: char_code_char_of lead_low)
    then show ?thesis
      using 3 assms \<open>cp div 4096 < 16\<close> two_groups [of cp] by (simp add: utf8_def utf8_codes_def decode_lead Let_def numeral_2_eq_2)
  next
    case 4
    then have "cp div 262144 < 8" by auto
    then have "char_code (char_of (240 + cp div 262144)) = 240 + cp div 262144"
      "(240 + cp div 262144) mod 8 = cp div 262144"
      by (simp_all add: char_code_char_of lead_low)
    then show ?thesis
      using 4 assms \<open>cp div 262144 < 8\<close> three_groups [of cp]
      by (simp add: utf8_def utf8_codes_def decode_lead Let_def numeral_3_eq_3)
  qed
qed

lemma decode_rest_two:
  "decode_rest s (Suc (Suc 0)) cp = Some v \<Longrightarrow>
   \<exists>c d r. s = c # d # r \<and> continuation c \<and> continuation d \<and> v = (cp * 64 + char_code c mod 64) * 64 + char_code d mod 64"
  by (cases s) (auto split: if_splits list.splits)

lemma decode_rest_three:
  "decode_rest s (Suc (Suc (Suc 0))) cp = Some v \<Longrightarrow>
   \<exists>c d e r. s = c # d # e # r \<and> continuation c \<and> continuation d \<and> continuation e \<and>
     v = ((cp * 64 + char_code c mod 64) * 64 + char_code d mod 64) * 64 + char_code e mod 64"
  by (cases s) (auto split: if_splits dest: decode_rest_two)

lemma continuation_code: "continuation c \<Longrightarrow> char_of (128 + char_code c mod 64) = c"
  by (simp add: continuation_def lead_low)

lemma utf8_three_bytes:
  assumes "(a::nat) < 16" "x < 64" "y < 64" "0x800 \<le> (a * 64 + x) * 64 + y"
  shows "utf8 ((a * 64 + x) * 64 + y) = [char_of (224 + a), char_of (128 + x), char_of (128 + y)]"
proof -
  define v where "v = (a * 64 + x) * 64 + y"
  have "a \<le> 15" "x \<le> 63" "y \<le> 63" using assms(1-3) by simp_all
  then have "a * 64 + x \<le> 1023" by simp
  then have "v < 0x10000" unfolding v_def using mult_le_mono1 [of "a * 64 + x" 1023 64] \<open>y \<le> 63\<close> by simp
  then have "utf8 v = [char_of (224 + v div 4096), char_of (128 + v div 64 mod 64), char_of (128 + v mod 64)]"
    using assms(4) [folded v_def] by (simp add: utf8_def utf8_codes_def)
  then show ?thesis unfolding digits_two [OF assms(2,3) v_def] unfolding v_def .
qed

lemma utf8_four_bytes:
  assumes "(a::nat) < 8" "x < 64" "y < 64" "z < 64" "0x10000 \<le> ((a * 64 + x) * 64 + y) * 64 + z"
  shows "utf8 (((a * 64 + x) * 64 + y) * 64 + z) =
    [char_of (240 + a), char_of (128 + x), char_of (128 + y), char_of (128 + z)]"
proof -
  define v where "v = ((a * 64 + x) * 64 + y) * 64 + z"
  have "utf8 v = [char_of (240 + v div 262144), char_of (128 + v div 4096 mod 64), char_of (128 + v div 64 mod 64),
      char_of (128 + v mod 64)]"
    using assms(5) [folded v_def] by (simp add: utf8_def utf8_codes_def)
  then show ?thesis unfolding digits_three [OF assms(2-4) v_def] unfolding v_def .
qed

lemma decode_utf8_well_formed:
  assumes "s \<noteq> []" "decode_utf8 s \<noteq> (0xFFFD, 1)"
  shows "well_formed_start s"
proof -
  obtain c r where s: "s = c # r" using assms(1) by (cases s) auto
  let ?b = "char_code c"
  consider "?b < 128" | "192 \<le> ?b" "?b < 224" | "224 \<le> ?b" "?b < 240" | "240 \<le> ?b" "?b < 248"
    using assms(2) by (fastforce simp: s decode_lead)
  then show ?thesis
  proof cases
    case 1
    then have "scalar ?b" "s = utf8 ?b @ r" by (simp_all add: scalar_def utf8_def utf8_codes_def s)
    then show ?thesis by (auto simp: well_formed_start_def)
  next
    case 2
    then obtain d q where d: "r = d # q" "continuation d"
      and cp: "scalar (?b mod 32 * 64 + char_code d mod 64)" "0x80 \<le> ?b mod 32 * 64 + char_code d mod 64"
      using assms(2) by (auto simp: s decode_lead Let_def split: list.splits if_splits option.splits)
    then have "s = utf8 (?b mod 32 * 64 + char_code d mod 64) @ q"
      using 2 continuation_code [OF d(2)] by (simp add: s utf8_def utf8_codes_def lead_low)
    then show ?thesis using cp(1) by (auto simp: well_formed_start_def)
  next
    case 3
    let ?v = "\<lambda>d e. (?b mod 16 * 64 + char_code d mod 64) * 64 + char_code e mod 64"
    obtain v where "decode_rest r (Suc (Suc 0)) (?b mod 16) = Some v" "scalar v" "0x800 \<le> v"
      using 3 assms(2) by (auto simp: s decode_lead Let_def numeral_2_eq_2 split: if_splits option.splits)
    then obtain d e q where d: "r = d # e # q" "continuation d" "continuation e"
      and cp: "scalar (?v d e)" "0x800 \<le> ?v d e"
      by (auto dest!: decode_rest_two)
    have "utf8 (?v d e) = [char_of (224 + ?b mod 16), char_of (128 + char_code d mod 64), char_of (128 + char_code e mod 64)]"
      using cp(2) by (intro utf8_three_bytes) simp_all
    moreover have "224 + ?b mod 16 = ?b" using 3 by (simp add: lead_low)
    ultimately have "s = utf8 (?v d e) @ q"
      by (simp only: s d(1) continuation_code [OF d(2)] continuation_code [OF d(3)] char_of_code append_Cons append_Nil)
    then show ?thesis using cp(1) by (auto simp: well_formed_start_def)
  next
    case 4
    let ?v = "\<lambda>d e f. ((?b mod 8 * 64 + char_code d mod 64) * 64 + char_code e mod 64) * 64 + char_code f mod 64"
    obtain v where "decode_rest r (Suc (Suc (Suc 0))) (?b mod 8) = Some v" "scalar v" "0x10000 \<le> v"
      using 4 assms(2) by (auto simp: s decode_lead Let_def numeral_3_eq_3 split: if_splits option.splits)
    then obtain d e f q where d: "r = d # e # f # q" "continuation d" "continuation e" "continuation f"
      and cp: "scalar (?v d e f)" "0x10000 \<le> ?v d e f"
      by (auto dest!: decode_rest_three)
    have "utf8 (?v d e f) = [char_of (240 + ?b mod 8), char_of (128 + char_code d mod 64),
        char_of (128 + char_code e mod 64), char_of (128 + char_code f mod 64)]"
      using cp(2) by (intro utf8_four_bytes) simp_all
    moreover have "240 + ?b mod 8 = ?b" using 4 by (simp add: lead_low)
    ultimately have "s = utf8 (?v d e f) @ q"
      by (simp only: s d(1) continuation_code [OF d(2)] continuation_code [OF d(3)] continuation_code [OF d(4)]
          char_of_code append_Cons append_Nil)
    then show ?thesis using cp(1) by (auto simp: well_formed_start_def)
  qed
qed

text \<open>
  C24: The decoder agrees with the definition of UTF-8: a text that starts with the encoding of a
  scalar value is decoded to that value and its length, and at any other byte (stray or missing
  continuation bytes, overlong forms, surrogates, values above 10FFFF) it yields U+FFFD and goes on
  one byte further.
\<close>

theorem decode_utf8_exact:
  "(\<forall>cp rest. scalar cp \<longrightarrow> decode_utf8 (utf8 cp @ rest) = (cp, length (utf8 cp))) \<and>
   (\<forall>s. s \<noteq> [] \<longrightarrow> \<not> well_formed_start s \<longrightarrow> decode_utf8 s = (0xFFFD, 1))"
  using decode_utf8_encoded decode_utf8_well_formed by blast

theorem decode_utf8_exact_witness:
  "decode_utf8 (utf8 0x435 @ ''vil'') = (0x435, 2) \<and> decode_utf8 (utf8 0x1F600) = (0x1F600, 4)"
  using decode_utf8_exact [THEN conjunct1, rule_format, of "0x435" "''vil''"]
    decode_utf8_exact [THEN conjunct1, rule_format, of "0x1F600" "[]"]
  by (simp add: scalar_def utf8_def utf8_codes_def)

section \<open>What the normalisation sees through\<close>

text \<open>A text in which the next code point begins anew.\<close>

definition fresh_start :: "string \<Rightarrow> bool" where
  "fresh_start s = (s = [] \<or> \<not> continuation (hd s))"

lemma decode_rest_append: "n \<le> length r \<Longrightarrow> decode_rest (r @ s) n cp = decode_rest r n cp"
proof (induction r arbitrary: n cp)
  case (Cons c r)
  then show ?case by (cases n) auto
qed simp

lemma decode_rest_short: "length r < n \<Longrightarrow> fresh_start s \<Longrightarrow> decode_rest (r @ s) n cp = None"
proof (induction r arbitrary: n cp)
  case Nil
  then obtain m where "n = Suc m" by (cases n) auto
  then show ?case using Nil by (cases s) (auto simp: fresh_start_def)
next
  case (Cons c r)
  then obtain m where "n = Suc m" by (cases n) auto
  then show ?case using Cons by simp
qed

lemma decode_rest_fresh: "fresh_start s \<Longrightarrow> decode_rest (r @ s) n cp = decode_rest r n cp"
  using decode_rest_append [of n r s cp] decode_rest_short [of r n s cp] decode_rest_short [of r n "[]" cp]
  by (cases "n \<le> length r") (simp_all add: fresh_start_def)

text \<open>The checks on the value that the bytes give.\<close>

definition checked :: "nat \<Rightarrow> nat option \<Rightarrow> nat \<times> nat" where
  "checked width v =
    (case v of
       None \<Rightarrow> (0xFFFD, 1)
     | Some cp \<Rightarrow>
         if scalar cp \<and> (width = 2 \<longrightarrow> 0x80 \<le> cp) \<and> (width = 3 \<longrightarrow> 0x800 \<le> cp) \<and> (width = 4 \<longrightarrow> 0x10000 \<le> cp)
         then (cp, width) else (0xFFFD, 1))"

lemma decode_checked:
  "decode_utf8 (c # r) =
    (let b = char_code c in
     if b < 128 then (b, 1)
     else if b < 192 \<or> 248 \<le> b then (0xFFFD, 1)
     else if b < 224 then checked 2 (decode_rest r 1 (b mod 32))
     else if b < 240 then checked 3 (decode_rest r 2 (b mod 16))
     else checked 4 (decode_rest r 3 (b mod 8)))"
proof -
  have none: "decode_rest r n cp = None" if "length r < n" for r n cp
    using decode_rest_short [of r n "[]" cp] that by (simp add: fresh_start_def)
  show ?thesis
    unfolding decode_lead checked_def [symmetric] by (auto simp: Let_def checked_def none simp del: decode_rest_one)
qed

lemma decode_utf8_append: "a \<noteq> [] \<Longrightarrow> fresh_start s \<Longrightarrow> decode_utf8 (a @ s) = decode_utf8 a"
  by (cases a) (simp_all add: decode_checked decode_rest_fresh Let_def del: decode_rest_one)

lemma checked_fits: "w = Suc n \<Longrightarrow> snd (checked w (decode_rest r n cp)) \<le> Suc (length r)"
  using decode_rest_short [of r n "[]" cp]
  by (cases "length r < n") (auto simp: checked_def fresh_start_def split: option.split)

lemma decode_utf8_fits: "s \<noteq> [] \<Longrightarrow> snd (decode_utf8 s) \<le> length s"
  using checked_fits [of 2 1 "tl s"] checked_fits [of 3 2 "tl s"] checked_fits [of 4 3 "tl s"]
  by (cases s) (simp_all add: decode_checked Let_def del: decode_rest_one)

lemma fold_message_Nil [simp]: "fold_message [] = []"
  by (simp add: fold_message.simps)

lemma fold_message_append:
  "fresh_start s \<Longrightarrow> fold_message (a @ s) = fold_message a @ fold_message s"
proof (induction a rule: fold_message.induct)
  case (1 a)
  show ?case
  proof (cases "a = []")
    case False
    obtain cp n where d: "decode_utf8 a = (cp, n)" by (cases "decode_utf8 a")
    then have n: "n \<le> length a" using decode_utf8_fits [OF False] by simp
    have "fold_message (a @ s) = fold_code_point cp @ fold_message (drop n a @ s)"
      using False n decode_utf8_append [OF False 1(2)] d by (subst fold_message.simps) simp
    moreover have "fold_message a = fold_code_point cp @ fold_message (drop n a)"
      using False d by (subst fold_message.simps) simp
    ultimately show ?thesis using 1 False d by simp
  qed simp
qed

text \<open>The text of a list of code points.\<close>

definition utf8_text :: "nat list \<Rightarrow> string" where
  "utf8_text cps = concat (map utf8 cps)"

lemma utf8_not_Nil: "utf8 cp \<noteq> []"
  by (simp add: utf8_def utf8_codes_def)

lemma fold_message_utf8:
  "scalar cp \<Longrightarrow> fold_message (utf8 cp @ s) = fold_code_point cp @ fold_message s"
  using utf8_not_Nil [of cp] by (subst fold_message.simps) (simp add: decode_utf8_encoded)

lemma fold_message_text:
  "list_all scalar cps \<Longrightarrow> fold_message (utf8_text cps @ s) = concat (map fold_code_point cps) @ fold_message s"
  by (induction cps) (simp_all add: utf8_text_def fold_message_utf8)

lemma utf8_fresh: "scalar cp \<Longrightarrow> fresh_start (utf8 cp @ s)"
proof -
  assume "scalar cp"
  then have "cp div 262144 < 16" "cp < 0x110000" by (auto simp: scalar_def)
  then show ?thesis by (auto simp: utf8_def utf8_codes_def fresh_start_def continuation_def char_code_char_of)
qed

lemma text_fresh: "list_all scalar cps \<Longrightarrow> fresh_start s \<Longrightarrow> fresh_start (utf8_text cps @ s)"
  by (cases cps) (simp_all add: utf8_text_def utf8_fresh)

lemma fold_message_around:
  "list_all scalar cps \<Longrightarrow> fresh_start b \<Longrightarrow>
   fold_message (a @ utf8_text cps @ b) = fold_message a @ concat (map fold_code_point cps) @ fold_message b"
  by (subst fold_message_append) (simp_all add: text_fresh fold_message_text)

text \<open>The characters that stand for a letter: its upper case, a digit in its place, a look-alike of
another script; and the invisible ones.\<close>

definition invisible :: "nat \<Rightarrow> bool" where
  "invisible cp = (is_combining_mark cp \<or> is_zero_width cp)"

definition stands_for :: "nat \<Rightarrow> char \<Rightarrow> bool" where
  "stands_for cp p =
    (if cp < 0x80 then c_tolower (char_of cp) = p \<or> fold_leet_digit (char_of cp) = p
     else cp \<noteq> 0xFFFD \<and> \<not> invisible cp \<and> c_tolower (fold_confusable cp) = p)"

definition disguised :: "string \<Rightarrow> nat list \<Rightarrow> bool" where
  "disguised word cps = list_all2 stands_for (filter (\<lambda>cp. \<not> invisible cp) cps) word"

lemma leet_letter: "c_islower p \<Longrightarrow> fold_leet_digit c = p \<Longrightarrow> c \<noteq> p \<Longrightarrow> c_isdigit c"
  by (auto simp: fold_leet_digit_def c_isdigit_def char_code_def split: if_splits)

lemma islower_facts: "c_islower p \<Longrightarrow> \<not> c_isdigit p \<and> \<not> c_isupper p"
  by (auto simp: c_islower_def c_isdigit_def c_isupper_def)

lemma stands_for_fold:
  assumes "c_islower p" "stands_for cp p"
  shows "fold_code_point cp = [p] \<and> \<not> invisible cp"
proof (cases "cp < 0x80")
  case True
  let ?c = "char_of cp :: char"
  have inv: "\<not> invisible cp" using True by (auto simp: invisible_def is_combining_mark_def is_zero_width_def)
  have t: "c_tolower ?c = (if c_isupper ?c then c_tolower ?c else ?c)" by (simp add: c_tolower_def)
  have "(let c = if c_isupper ?c then c_tolower ?c else ?c in if c_isdigit c then fold_leet_digit c else c) = p"
  proof (cases "c_tolower ?c = p")
    case True
    then show ?thesis using t islower_facts [OF assms(1)] by (simp add: Let_def)
  next
    case False
    then have f: "fold_leet_digit ?c = p" using assms(2) \<open>cp < 0x80\<close> by (simp add: stands_for_def)
    have "?c \<noteq> p" using False islower_facts [OF assms(1)] by (auto simp: c_tolower_def)
    then have "c_isdigit ?c" "\<not> c_isupper ?c"
      using leet_letter [OF assms(1) f] by (auto simp: c_isdigit_def c_isupper_def)
    then show ?thesis using f by simp
  qed
  then show ?thesis using True inv by (simp add: fold_code_point_def invisible_def Let_def)
next
  case False
  then have "c_tolower (fold_confusable cp) = p" "cp \<noteq> 0xFFFD" "\<not> invisible cp"
    using assms(2) by (simp_all add: stands_for_def)
  moreover from this have "fold_confusable cp \<noteq> CHR 0x00"
    using assms(1) by (auto simp: c_tolower_def c_isupper_def c_islower_def char_code_def)
  ultimately show ?thesis using False by (simp add: fold_code_point_def invisible_def)
qed

lemma fold_invisible: "invisible cp \<Longrightarrow> fold_code_point cp = []"
  by (auto simp: fold_code_point_def invisible_def is_combining_mark_def is_zero_width_def)

lemma disguised_fold:
  "list_all c_islower word \<Longrightarrow> disguised word cps \<Longrightarrow> concat (map fold_code_point cps) = word"
proof (induction cps arbitrary: word)
  case Nil
  then show ?case by (simp add: disguised_def)
next
  case (Cons cp cps)
  show ?case
  proof (cases "invisible cp")
    case True
    then show ?thesis using Cons by (simp add: disguised_def fold_invisible)
  next
    case False
    then obtain p w where w: "word = p # w" "stands_for cp p" "disguised w cps"
      using Cons.prems(2) by (auto simp: disguised_def list_all2_Cons1)
    then show ?thesis using Cons stands_for_fold [of p cp] by simp
  qed
qed

lemma ascii_utf8: "char_code c < 0x80 \<Longrightarrow> utf8 (char_code c) = [c]"
  by (simp add: utf8_def utf8_codes_def)

lemma plain_text: "list_all c_islower word \<Longrightarrow> utf8_text (map char_code word) = word"
  by (induction word) (auto simp: utf8_text_def ascii_utf8 c_islower_def)

lemma plain_disguised: "list_all c_islower word \<Longrightarrow> disguised word (map char_code word)"
proof (induction word)
  case (Cons p w)
  have "char_code p < 0x80" "c_tolower p = p" using Cons.prems islower_facts [of p] by (auto simp: c_islower_def c_tolower_def)
  then have "stands_for (char_code p) p \<and> \<not> invisible (char_code p)"
    by (auto simp: stands_for_def invisible_def is_combining_mark_def is_zero_width_def)
  then show ?case using Cons by (simp add: disguised_def)
qed (simp add: disguised_def)

lemma plain_scalar: "list_all scalar (map char_code word)"
proof -
  have "scalar (char_code c)" for c using char_code_less_256 [of c] by (auto simp: scalar_def)
  then show ?thesis by (induction word) simp_all
qed

lemma fold_message_lower: "list_all c_islower word \<Longrightarrow> fold_message word = word"
  using fold_message_text [OF plain_scalar, of word "[]"] disguised_fold [OF _ plain_disguised, of word]
  by (simp add: plain_text del: map_map)

lemma disguised_message:
  assumes "list_all c_islower word" "list_all scalar cps" "disguised word cps" "fresh_start b"
  shows "fold_message (a @ utf8_text cps @ b) = fold_message (a @ word @ b)"
proof -
  have "fold_message (a @ utf8_text cps @ b) = fold_message (a @ utf8_text (map char_code word) @ b)"
    using assms plain_disguised [OF assms(1)] plain_scalar [of word]
    by (simp only: fold_message_around disguised_fold)
  then show ?thesis by (simp only: plain_text [OF assms(1)])
qed


definition demo_filter :: "nat slur_filter" where
  "demo_filter = \<lparr>sf_cfg = \<lparr>sc_enabled = True, sc_match_score = 1\<rparr>, sf_wordlist = [''bad'', ''zorke''], sf_exceptions = []\<rparr>"

text \<open>B, Cyrillic a, a zero width space, D.\<close>

lemma demo_disguised:
  "list_all c_islower ''bad''" "list_all scalar [0x42, 0x430, 0x200B, 0x44]" "disguised ''bad'' [0x42, 0x430, 0x200B, 0x44]"
proof -
  show "list_all c_islower ''bad''" by (simp add: c_islower_def char_code_def)
  show "list_all scalar [0x42, 0x430, 0x200B, 0x44]" by (simp add: scalar_def)
  have letters: "char_code (char_of (66::nat)) = 66" "char_code (char_of (68::nat)) = 68"
    "char_of (98::nat) = CHR ''b''" "char_of (100::nat) = CHR ''d''"
    "char_code CHR ''a'' = 97" "char_code CHR ''b'' = 98" "char_code CHR ''d'' = 100"
    using char_of_code [of "CHR ''b''"] char_of_code [of "CHR ''d''"] by (simp_all add: char_code_def)
  moreover have "fold_confusable 0x430 = CHR ''a''"
    by (simp add: fold_confusable_def fold_latin_def cyrillic_folds_def)
  with letters show "disguised ''bad'' [0x42, 0x430, 0x200B, 0x44]"
    by (simp add: disguised_def invisible_def is_combining_mark_def is_zero_width_def stands_for_def c_tolower_def
        c_isupper_def letters)
qed


section \<open>What a scan reports\<close>

lemma dedup_fold:
  "distinct out \<Longrightarrow>
   distinct (fold (\<lambda>c out. if c \<in> set out then out else out @ [c]) cs out) \<and>
   set (fold (\<lambda>c out. if c \<in> set out then out else out @ [c]) cs out) = set out \<union> set cs"
  by (induction cs arbitrary: out) auto

text \<open>The tokens that a word of the list is reported for.\<close>

definition reports :: "'d slur_filter \<Rightarrow> string \<Rightarrow> string \<Rightarrow> bool" where
  "reports f tok w =
    (tok \<notin> set (sf_exceptions f) \<and> w \<in> set (sf_wordlist f) \<and>
     (w = tok \<or> tok \<notin> set (sf_wordlist f) \<and> w = strip_suffix tok \<and> length w < length tok \<and> w \<notin> set (sf_exceptions f)))"

lemma candidate_reports: "w \<in> set (slur_candidate f tok) \<longleftrightarrow> reports f tok w"
  by (auto simp: slur_candidate_def reports_def Let_def)

lemma slur_scan_exact:
  assumes "slur_active f"
  shows "distinct (sr_matched (slur_scan m f)) \<and>
    set (sr_matched (slur_scan m f)) = {w. \<exists>tok\<in>set (tokenize (normalize_message m)). reports f tok w} \<and>
    slur_scan m f = (if sr_matched (slur_scan m f) = [] then no_match
      else \<lparr>sr_score = sc_match_score (sf_cfg f), sr_matched = sr_matched (slur_scan m f),
             sr_reason = ''slur('' @ show_nat (length (sr_matched (slur_scan m f))) @ '')''\<rparr>)"
proof -
  let ?toks = "tokenize (normalize_message m)"
  let ?cs = "concat (map (slur_candidate f) ?toks)"
  let ?out = "fold (\<lambda>c out. if c \<in> set out then out else out @ [c]) ?cs []"
  have d: "distinct ?out" "set ?out = set ?cs" using dedup_fold [of "[]" ?cs] by simp_all
  have w: "sf_wordlist f \<noteq> []" using assms by (simp add: slur_active_def)
  have c: "set ?cs = {w. \<exists>tok\<in>set ?toks. reports f tok w}" by (auto simp: candidate_reports)
  show ?thesis
  proof (cases "?cs = []")
    case True
    then have "slur_scan m f = no_match" unfolding slur_scan_def Let_def using assms w by simp
    moreover have "{w. \<exists>tok\<in>set ?toks. reports f tok w} = {}" using c True by simp
    ultimately show ?thesis by (simp add: no_match_def)
  next
    case False
    then have "?toks \<noteq> []" by auto
    then have s: "slur_scan m f = \<lparr>sr_score = sc_match_score (sf_cfg f), sr_matched = ?out,
        sr_reason = ''slur('' @ show_nat (length ?out) @ '')''\<rparr>"
      unfolding slur_scan_def Let_def
      by (simp only: False assms w not_False_eq_True not_True_eq_False if_False if_True)
    have "?out \<noteq> []" using d(2) False by (metis set_empty)
    then show ?thesis using d c by (simp only: s slur_result.simps if_False simp_thms)
  qed
qed

section \<open>Inflections\<close>

definition ends_with :: "string \<Rightarrow> string \<Rightarrow> bool" where
  "ends_with e w = (\<exists>u. w = u @ e)"

lemma distinct_single: "distinct xs \<Longrightarrow> xs = [w] \<longleftrightarrow> set xs = {w}"
  by (cases xs rule: remdups_adj.cases) auto

lemma try_strip_iff: "try_strip token suffix \<longleftrightarrow> (\<exists>u. token = u @ suffix \<and> 3 \<le> length u)"
proof
  assume t: "try_strip token suffix"
  let ?n = "length token - length suffix"
  have d: "drop ?n token = suffix" "length suffix + 3 \<le> length token"
    using t by (simp_all add: try_strip_def split: if_splits)
  have "token = take ?n token @ suffix" using append_take_drop_id [of ?n token] unfolding d(1) by simp
  moreover have "3 \<le> length (take ?n token)" using d(2) by simp
  ultimately show "\<exists>u. token = u @ suffix \<and> 3 \<le> length u" by blast
qed (auto simp: try_strip_def)

lemma strip_plural:
  assumes "3 \<le> length w"
  shows "strip_suffix (w @ ''s'') =
    (if ends_with ''er'' w \<and> 5 \<le> length w then take (length w - 2) w
     else if ends_with ''e'' w \<and> 4 \<le> length w then take (length w - 1) w
     else w)"
proof -
  have t: "try_strip (w @ ''s'') (e @ ''s'') \<longleftrightarrow> ends_with e w \<and> 3 + length e \<le> length w" for e
    by (auto simp: try_strip_iff ends_with_def)
  have n: "\<not> try_strip (w @ ''s'') ''ing''" "\<not> try_strip (w @ ''s'') ''ed''" "\<not> try_strip (w @ ''s'') ''er''"
    by (auto simp: try_strip_iff append_eq_append_conv2 Cons_eq_append_conv append_eq_Cons_conv)
  show ?thesis
    using t [of "''er''"] t [of "''e''"] t [of "[]"] n assms
    by (auto simp: strip_suffix_def ends_with_def)
qed



end
