(* ===== verification/Slur_Tokens.thy ===== *)
theory Slur_Tokens
  imports Slur_Filter_Props
begin

text \<open>
  Tokens of a normalised text: what stands between two characters that are no letters or digits is
  folded, collapsed and cut into tokens by itself.
\<close>

lemma collapse_plain_Cons: "\<not> c_isalpha c \<Longrightarrow> collapse_runs (c # y) = c # collapse_runs y"
  by (cases y) auto

lemma collapse_at_plain:
  assumes "\<not> c_isalpha c"
  shows "collapse_runs (x @ c # y) = collapse_runs x @ c # collapse_runs y"
proof (induction x rule: length_induct)
  case (1 x)
  show ?case
  proof (cases x)
    case Nil
    then show ?thesis by (simp add: collapse_plain_Cons [OF assms] del: collapse_runs.simps(2))
  next
    case (Cons d xs)
    show ?thesis
    proof (cases "d = c")
      case True
      then show ?thesis
        using 1 Cons by (simp add: collapse_plain_Cons [OF assms] del: collapse_runs.simps(2))
    next
      case False
      have tw: "takeWhile (\<lambda>e. e = d) (xs @ c # y) = takeWhile (\<lambda>e. e = d) xs"
        and dw: "dropWhile (\<lambda>e. e = d) (xs @ c # y) = dropWhile (\<lambda>e. e = d) xs @ c # y"
        using False by (induction xs) auto
      have "length (dropWhile (\<lambda>e. e = d) xs) < length x"
        using length_dropWhile_le [of "\<lambda>e. e = d" xs] by (simp add: Cons)
      then have "collapse_runs (dropWhile (\<lambda>e. e = d) xs @ c # y) =
          collapse_runs (dropWhile (\<lambda>e. e = d) xs) @ c # collapse_runs y"
        using 1 by blast
      then show ?thesis by (simp add: Cons tw dw)
    qed
  qed
qed

lemma tokenize_Nil [simp]: "tokenize [] = []"
  by (simp add: tokenize.simps)

text \<open>The tokenizer on a character that is no part of a token, and on one that is.\<close>

lemma tokenize_unfold:
  "tokenize s =
    (let rest = dropWhile (\<lambda>c. \<not> c_isalnum c) s; token = takeWhile c_isalnum rest
     in (if token \<noteq> [] then [token] else []) @ tokenize (dropWhile c_isalnum rest))"
proof (cases "s = []")
  case False
  show ?thesis by (subst tokenize.simps [of s]) (simp only: False if_False)
qed simp

lemma tokenize_cong:
  assumes "dropWhile (\<lambda>c. \<not> c_isalnum c) x = dropWhile (\<lambda>c. \<not> c_isalnum c) y"
  shows "tokenize x = tokenize y"
  by (simp only: tokenize_unfold [of x] tokenize_unfold [of y] assms)

lemma tokenize_plain: "\<not> c_isalnum c \<Longrightarrow> tokenize (c # y) = tokenize y"
  by (rule tokenize_cong) simp

lemma tokenize_prefix:
  assumes "w \<noteq> []" "list_all c_isalnum w" "y = [] \<or> \<not> c_isalnum (hd y)"
  shows "tokenize (w @ y) = w # tokenize y"
proof -
  have t: "takeWhile c_isalnum (w @ y) = w" "dropWhile c_isalnum (w @ y) = y"
    using assms(2,3) by (induction w) (auto simp: takeWhile_eq_Nil_iff dropWhile_eq_self_iff)
  have d: "dropWhile (\<lambda>c. \<not> c_isalnum c) (w @ y) = w @ y" using assms(1,2) by (cases w) simp_all
  show ?thesis
    using assms(1) by (simp only: tokenize_unfold [of "w @ y"] Let_def t d not_False_eq_True if_True append_Cons append_Nil)
qed

lemma tokenize_split:
  assumes "\<not> c_isalnum c"
  shows "tokenize (x @ c # y) = tokenize x @ tokenize y"
proof (induction x rule: length_induct)
  case (1 x)
  show ?case
  proof (cases x)
    case Nil
    then show ?thesis by (simp add: tokenize_plain [OF assms])
  next
    case (Cons a r)
    show ?thesis
    proof (cases "c_isalnum a")
      case False
      then show ?thesis using 1 Cons by (simp add: tokenize_plain)
    next
      case True
      define w v where "w = takeWhile c_isalnum x" and "v = dropWhile c_isalnum x"
      have x: "x = w @ v" by (simp add: w_def v_def)
      have w: "w \<noteq> []" by (simp add: w_def Cons True)
      have all: "list_all c_isalnum w" unfolding list_all_iff w_def by (meson set_takeWhileD)
      have v: "v = [] \<or> \<not> c_isalnum (hd v)" unfolding v_def by (metis hd_dropWhile)
      have "length v < length x" using w by (simp add: x)
      then have "tokenize (v @ c # y) = tokenize v @ tokenize y" using 1 by blast
      moreover have "tokenize (w @ v @ c # y) = w # tokenize (v @ c # y)"
        by (rule tokenize_prefix [OF w all]) (use v assms in \<open>cases v; simp\<close>)
      ultimately show ?thesis using tokenize_prefix [OF w all v] by (simp add: x)
    qed
  qed
qed

lemma tokenize_word: "word \<noteq> [] \<Longrightarrow> list_all c_isalnum word \<Longrightarrow> tokenize word = [word]"
  using tokenize_prefix [of word "[]"] by simp

lemma lower_alnum: "list_all c_islower word \<Longrightarrow> list_all c_isalnum word"
  by (auto simp: list_all_iff c_isalnum_def)

lemma lower_token:
  "list_all c_islower word \<Longrightarrow> word \<noteq> [] \<Longrightarrow> collapse_runs word = word \<Longrightarrow>
   tokenize (normalize_message word) = [word]"
  by (simp add: normalize_message_def fold_message_lower tokenize_word lower_alnum)

lemma fold_space: "fold_message ('' '' @ s) = '' '' @ fold_message s"
proof -
  have "utf8 32 = '' ''" using ascii_utf8 [of "CHR '' ''"] by (simp add: char_code_def)
  moreover have "fold_code_point 32 = '' ''"
  proof -
    have "char_of (32::nat) = CHR '' ''" using char_of_code [of "CHR '' ''"] by (simp add: char_code_def)
    then show ?thesis
      by (simp add: fold_code_point_def is_combining_mark_def is_zero_width_def c_isupper_def c_isdigit_def char_code_def)
  qed
  ultimately show ?thesis using fold_message_utf8 [of 32 s] by (simp add: scalar_def)
qed

lemma spaced_word_token:
  assumes "list_all c_islower word" "word \<noteq> []" "collapse_runs word = word"
  shows "word \<in> set (tokenize (normalize_message (p @ '' '' @ word @ '' '' @ q)))"
proof -
  have space: "\<not> c_isalpha CHR '' ''" "\<not> c_isalnum CHR '' ''"
    by (simp_all add: c_isalpha_def c_isalnum_def c_isdigit_def c_isupper_def c_islower_def char_code_def)
  have fr: "fresh_start ('' '' @ s)" for s by (simp add: fresh_start_def continuation_def char_code_def)
  have "fold_message (word @ '' '' @ q) = word @ fold_message ('' '' @ q)"
    using fold_message_append [OF fr, of word q] fold_message_lower [OF assms(1)] by simp
  then have "fold_message (p @ '' '' @ word @ '' '' @ q) = fold_message p @ CHR '' '' # word @ CHR '' '' # fold_message q"
    using fold_message_append [OF fr, of p "word @ '' '' @ q"] fold_space [of q] fold_space [of "word @ '' '' @ q"] by simp
  then have "normalize_message (p @ '' '' @ word @ '' '' @ q) =
      collapse_runs (fold_message p) @ CHR '' '' # word @ CHR '' '' # collapse_runs (fold_message q)"
    by (simp add: normalize_message_def collapse_at_plain [OF space(1)] assms(3))
  then show ?thesis by (simp add: tokenize_split [OF space(2)] tokenize_word assms(2) lower_alnum [OF assms(1)])
qed

end
