(* ===== verification/Moderation_Heat.thy ===== *)
theory Moderation_Heat
  imports Complex_Main AO_Server
begin

text \<open>
  The heat accumulator of content moderation: include/moderation/ModerationTypes.h, the heat part of
  ContentModerationConfig.h, ModerationHeat.h and ModerationHeat.cpp. Every address has a heat that
  offences raise, trust lowers below zero and time takes back to zero; thresholds turn it into
  an action. The table is an \<open>unordered_map\<close>, here the list of its entries. Doubles are modelled as
  real numbers, so rounding is not; the clock (milliseconds) is an argument.
\<close>

section \<open>Scores and configuration\<close>

record axis_scores =
  ax_visual_noise :: real
  ax_link_risk :: real
  ax_slurs :: real
  ax_hate :: real
  ax_sexual :: real
  ax_sexual_minors :: real
  ax_violence :: real
  ax_self_harm :: real
  ax_semantic_echo :: real

definition axis_scores_new :: axis_scores where
  "axis_scores_new = \<lparr>ax_visual_noise = 0, ax_link_risk = 0, ax_slurs = 0, ax_hate = 0, ax_sexual = 0,
     ax_sexual_minors = 0, ax_violence = 0, ax_self_harm = 0, ax_semantic_echo = 0\<rparr>"

record heat_config =
  hc_decay_half_life_seconds :: real
  hc_censor_threshold :: real
  hc_drop_threshold :: real
  hc_mute_threshold :: real
  hc_kick_threshold :: real
  hc_ban_threshold :: real
  hc_perma_ban_threshold :: real
  hc_mute_duration_seconds :: int
  hc_ban_duration_seconds :: int
  hc_weight :: axis_scores
  hc_floor :: axis_scores
  hc_prune_below :: real
  hc_sweep_idle_seconds :: int

definition heat_config_default :: heat_config where
  "heat_config_default =
    \<lparr>hc_decay_half_life_seconds = 600, hc_censor_threshold = 1, hc_drop_threshold = 3, hc_mute_threshold = 6,
     hc_kick_threshold = 10, hc_ban_threshold = 15, hc_perma_ban_threshold = 25,
     hc_mute_duration_seconds = 15 * 60, hc_ban_duration_seconds = 24 * 60 * 60,
     hc_weight = \<lparr>ax_visual_noise = 1 / 2, ax_link_risk = 5, ax_slurs = 6, ax_hate = 10, ax_sexual = 7,
       ax_sexual_minors = 43, ax_violence = 2, ax_self_harm = 7, ax_semantic_echo = 2\<rparr>,
     hc_floor = \<lparr>ax_visual_noise = 0, ax_link_risk = 0, ax_slurs = 0, ax_hate = 85 / 100, ax_sexual = 85 / 100,
       ax_sexual_minors = 85 / 100, ax_violence = 85 / 100, ax_self_harm = 85 / 100, ax_semantic_echo = 0\<rparr>,
     hc_prune_below = 5 / 100, hc_sweep_idle_seconds = 3600\<rparr>"

text \<open>\<open>heat_delta_from\<close>: linear above an axis' floor, quadratic and small below it.\<close>

definition axis_contrib :: "real \<Rightarrow> real \<Rightarrow> real" where
  "axis_contrib score flr =
    (if score \<le> 0 then 0 else if score > flr then score - flr else score * score * (1 / 100))"

definition heat_delta_from :: "axis_scores \<Rightarrow> heat_config \<Rightarrow> real" where
  "heat_delta_from s h =
    (axis_contrib (ax_visual_noise s) (ax_visual_noise (hc_floor h)) * ax_visual_noise (hc_weight h)
     + axis_contrib (ax_link_risk s) (ax_link_risk (hc_floor h)) * ax_link_risk (hc_weight h)
     + axis_contrib (ax_slurs s) (ax_slurs (hc_floor h)) * ax_slurs (hc_weight h)
     + axis_contrib (ax_hate s) (ax_hate (hc_floor h)) * ax_hate (hc_weight h)
     + axis_contrib (ax_sexual s) (ax_sexual (hc_floor h)) * ax_sexual (hc_weight h)
     + axis_contrib (ax_sexual_minors s) (ax_sexual_minors (hc_floor h)) * ax_sexual_minors (hc_weight h)
     + axis_contrib (ax_violence s) (ax_violence (hc_floor h)) * ax_violence (hc_weight h)
     + axis_contrib (ax_self_harm s) (ax_self_harm (hc_floor h)) * ax_self_harm (hc_weight h)
     + axis_contrib (ax_semantic_echo s) (ax_semantic_echo (hc_floor h)) * ax_semantic_echo (hc_weight h))"

section \<open>The accumulator\<close>

record heat_entry =
  he_heat :: real
  he_last_update_ms :: int

record moderation_heat =
  mh_cfg :: heat_config
  mh_state :: "(string \<times> heat_entry) list"

definition moderation_heat_new :: moderation_heat where
  "moderation_heat_new = \<lparr>mh_cfg = heat_config_default, mh_state = []\<rparr>"

definition heat_configure :: "heat_config \<Rightarrow> moderation_heat \<Rightarrow> moderation_heat" where
  "heat_configure cfg h = h\<lparr>mh_cfg := cfg\<rparr>"

definition decay_factor :: "heat_config \<Rightarrow> int \<Rightarrow> real" where
  "decay_factor cfg dt_ms =
    (let half_life = max 1 (hc_decay_half_life_seconds cfg)
     in exp (- (real_of_int dt_ms / 1000) * ln 2 / half_life))"

definition decay_entry :: "heat_config \<Rightarrow> int \<Rightarrow> heat_entry \<Rightarrow> heat_entry" where
  "decay_entry cfg now en =
    (if he_last_update_ms en = 0 then en\<lparr>he_last_update_ms := now\<rparr>
     else if now - he_last_update_ms en \<le> 0 then en
     else
       let heat = he_heat en * decay_factor cfg (now - he_last_update_ms en)
       in \<lparr>he_heat = (if \<bar>heat\<bar> < 1 / 1000000 then 0 else heat), he_last_update_ms = now\<rparr>)"

definition heat_entry_of :: "string \<Rightarrow> moderation_heat \<Rightarrow> heat_entry" where
  "heat_entry_of ipid h =
    (case map_of (mh_state h) ipid of Some en \<Rightarrow> en | None \<Rightarrow> \<lparr>he_heat = 0, he_last_update_ms = 0\<rparr>)"

definition heat_store :: "string \<Rightarrow> heat_entry \<Rightarrow> moderation_heat \<Rightarrow> moderation_heat" where
  "heat_store ipid en h = h\<lparr>mh_state := AList.update ipid en (mh_state h)\<rparr>"

definition heat_apply :: "int \<Rightarrow> string \<Rightarrow> real \<Rightarrow> moderation_heat \<Rightarrow> real \<times> moderation_heat" where
  "heat_apply now ipid delta h =
    (let d = (if delta < 0 then 0 else delta);
         en = decay_entry (mh_cfg h) now (heat_entry_of ipid h);
         heat = (if he_heat en < 0 then 0 else he_heat en) + d
     in (heat, heat_store ipid (en\<lparr>he_heat := heat\<rparr>) h))"

definition heat_peek :: "int \<Rightarrow> string \<Rightarrow> moderation_heat \<Rightarrow> real \<times> moderation_heat" where
  "heat_peek now ipid h =
    (case map_of (mh_state h) ipid of
       None \<Rightarrow> (0, h)
     | Some en \<Rightarrow> (let en' = decay_entry (mh_cfg h) now en in (he_heat en', heat_store ipid en' h)))"

definition accrue_trust :: "int \<Rightarrow> string \<Rightarrow> real \<Rightarrow> real \<Rightarrow> moderation_heat \<Rightarrow> real \<times> moderation_heat" where
  "accrue_trust now ipid amount flr h =
    (if amount \<le> 0 then heat_peek now ipid h
     else if flr \<ge> 0 then heat_peek now ipid h
     else
       let en = decay_entry (mh_cfg h) now (heat_entry_of ipid h) in
       if he_heat en > 0 then (he_heat en, heat_store ipid en h)
       else
         let heat = max flr (he_heat en - amount)
         in (heat, heat_store ipid (en\<lparr>he_heat := heat\<rparr>) h))"

definition decide_action :: "heat_config \<Rightarrow> real \<Rightarrow> moderation_action" where
  "decide_action cfg heat =
    (if heat \<ge> hc_perma_ban_threshold cfg then MA_PERMA_BAN
     else if heat \<ge> hc_ban_threshold cfg then MA_BAN
     else if heat \<ge> hc_kick_threshold cfg then MA_KICK
     else if heat \<ge> hc_mute_threshold cfg then MA_MUTE
     else if heat \<ge> hc_drop_threshold cfg then MA_DROP
     else if heat \<ge> hc_censor_threshold cfg then MA_CENSOR
     else if heat > 0 then MA_LOG
     else MA_NONE)"

definition heat_reset :: "string \<Rightarrow> moderation_heat \<Rightarrow> moderation_heat" where
  "heat_reset ipid h = h\<lparr>mh_state := AList.delete ipid (mh_state h)\<rparr>"

text \<open>The idle test looks at the entry before it is decayed.\<close>

definition heat_sweep :: "int \<Rightarrow> moderation_heat \<Rightarrow> moderation_heat" where
  "heat_sweep now h =
    (let idle = (\<lambda>en. now - he_last_update_ms en > hc_sweep_idle_seconds (mh_cfg h) * 1000)
     in h\<lparr>mh_state :=
            map (\<lambda>(k, en). (k, decay_entry (mh_cfg h) now en))
              (filter (\<lambda>(k, en). \<not> (\<bar>he_heat (decay_entry (mh_cfg h) now en)\<bar> < hc_prune_below (mh_cfg h) \<and> idle en))
                (mh_state h))\<rparr>)"

definition heat_size :: "moderation_heat \<Rightarrow> nat" where
  "heat_size h = length (mh_state h)"

section \<open>Severity\<close>

definition severity :: "moderation_action \<Rightarrow> nat" where
  "severity a =
    (case a of MA_NONE \<Rightarrow> 0 | MA_LOG \<Rightarrow> 1 | MA_CENSOR \<Rightarrow> 2 | MA_DROP \<Rightarrow> 3 | MA_MUTE \<Rightarrow> 4 | MA_KICK \<Rightarrow> 5
       | MA_BAN \<Rightarrow> 6 | MA_PERMA_BAN \<Rightarrow> 7)"

end
