(* ===== verification/Content_Moderator.thy ===== *)
theory Content_Moderator
  imports Moderation_Heat Slur_Filter
begin

text \<open>
  The content moderator: include/moderation/ContentModerator.h and
  engine/moderation/ContentModerator.cpp, with the URL layer (UrlExtractor.cpp) and the
  \<open>/noheat\<close> command. The layers that work with code point statistics, embeddings and trained
  weights, and the matches of the URL regular expression, are parameters (\<open>layers\<close>); the
  clusterer's state is \<open>'c\<close>. The calls on the database, the audit log and the host's callback are the
  outputs of an operation. Traces and metrics are not modelled.
\<close>

unbundle bit_operations_syntax

section \<open>Configuration\<close>

record url_config =
  uc_enabled :: bool
  uc_blocklist :: "string list"
  uc_allowlist :: "string list"
  uc_blocked_score :: real
  uc_unknown_url_score :: real

record trust_bank_config =
  tb_enabled :: bool
  tb_clean_reward :: real
  tb_max_trust :: real

record moderation_config =
  mc_enabled :: bool
  mc_check_ic :: bool
  mc_check_ooc :: bool
  mc_message_sample_length :: int
  mc_urls :: url_config
  mc_slurs :: "real slur_config"
  mc_embeddings_enabled :: bool
  mc_heat :: heat_config
  mc_trust_bank :: trust_bank_config
  mc_inject_axis :: string
  mc_inject_score :: real
  mc_sqlite_enabled :: bool

record ('v, 'c) layers =
  ly_steady_ms :: int
  ly_system_ms :: int
  ly_now_sec :: int
  ly_unicode :: "string \<Rightarrow> real \<times> string"
  ly_url_matches :: "string \<Rightarrow> string list"
  ly_backend :: "(string \<Rightarrow> 'v option) option"
  ly_classifier :: "('v \<Rightarrow> axis_scores option) option"
  ly_bad_hint :: "('v \<Rightarrow> bool) option"
  ly_cluster :: "string \<Rightarrow> string \<Rightarrow> 'v option \<Rightarrow> 'c \<Rightarrow> (real \<times> string) \<times> 'c"

section \<open>The URL layer\<close>

definition contains_ci :: "string \<Rightarrow> string \<Rightarrow> bool" where
  "contains_ci haystack needle =
    (if needle = [] then False
     else if length needle > length haystack then False
     else \<exists>i\<in>set [0..<Suc (length haystack - length needle)].
            map c_tolower (take (length needle) (drop i haystack)) = map c_tolower needle)"

definition strip_url :: "string \<Rightarrow> string" where
  "strip_url url = rev (dropWhile (\<lambda>c. c \<in> set '',.)]!?;'') (rev url))"

definition clamp01 :: "real \<Rightarrow> real" where
  "clamp01 x = (if x < 0 then 0 else if x > 1 then 1 else x)"

record url_extraction =
  ue_score :: real
  ue_urls :: "string list"
  ue_blocked :: "string list"
  ue_reason :: string

definition url_step :: "url_config \<Rightarrow> string \<Rightarrow> url_extraction \<Rightarrow> url_extraction" where
  "url_step cfg m out =
    (let url = strip_url (map c_tolower m) in
     if url = [] then out
     else if list_ex (\<lambda>allow. allow \<noteq> [] \<and> contains_ci url allow) (uc_allowlist cfg) then out
     else
       let out1 = out\<lparr>ue_urls := ue_urls out @ [url]\<rparr> in
       case find (\<lambda>needle. needle \<noteq> [] \<and> contains_ci url needle) (uc_blocklist cfg) of
         None \<Rightarrow> out1
       | Some needle \<Rightarrow>
           out1\<lparr>ue_blocked := ue_blocked out @ [url],
                ue_reason := ue_reason out @ (if ue_reason out \<noteq> [] then '', '' else []) @ ''blocked:'' @ needle\<rparr>)"

definition extract_urls :: "url_config \<Rightarrow> (string \<Rightarrow> string list) \<Rightarrow> string \<Rightarrow> url_extraction" where
  "extract_urls cfg matches msg =
    (let out = \<lparr>ue_score = 0, ue_urls = [], ue_blocked = [], ue_reason = []\<rparr> in
     if \<not> uc_enabled cfg \<or> msg = [] then out
     else
       let out = fold (url_step cfg) (matches msg) out in
       if ue_blocked out \<noteq> [] then out\<lparr>ue_score := clamp01 (uc_blocked_score cfg)\<rparr>
       else if ue_urls out \<noteq> [] \<and> uc_unknown_url_score cfg > 0 then
         out\<lparr>ue_score := clamp01 (uc_unknown_url_score cfg),
             ue_reason := (if ue_reason out = [] then ''unknown_url'' else ue_reason out)\<rparr>
       else out)"

section \<open>The moderator\<close>

type_synonym active_mute = "int \<times> string"

record 'c moderator =
  cm_cfg :: "moderation_config option"
  cm_slurs :: "real slur_filter"
  cm_heat :: moderation_heat
  cm_cluster :: 'c
  cm_has_audit :: bool
  cm_has_callback :: bool
  cm_db_open :: bool
  cm_mutes :: "(string \<times> active_mute) list"
  cm_noheat :: "string list"

record moderation_event =
  ev_timestamp_ms :: int
  ev_ipid :: string
  ev_channel :: string
  ev_message_sample :: string
  ev_scores :: axis_scores
  ev_action :: moderation_action
  ev_heat_after :: real
  ev_reason :: string

datatype moderator_output =
    Mute_Saved string int int string
  | Mutes_Deleted string
  | Expired_Mutes_Pruned
  | Action_Called string moderation_action string
  | Audited moderation_event
  | Event_Stored moderation_event
  | Reset_Audited string real bool

record check_verdict =
  vd_action :: moderation_action
  vd_scores :: axis_scores
  vd_heat_delta :: real
  vd_heat_after :: real
  vd_reason :: string
  vd_triggered_axes :: "string list"

definition check_verdict_new :: check_verdict where
  "check_verdict_new = \<lparr>vd_action = MA_NONE, vd_scores = axis_scores_new, vd_heat_delta = 0, vd_heat_after = 0,
     vd_reason = [], vd_triggered_axes = []\<rparr>"

text \<open>The active mutes that the open database returns.\<close>

definition moderator_configure :: "moderation_config \<Rightarrow> (string \<times> active_mute) list \<Rightarrow> 'c moderator \<Rightarrow> 'c moderator" where
  "moderator_configure cfg saved m =
     m\<lparr>cm_cfg := Some cfg, cm_slurs := slur_configure (mc_slurs cfg) (cm_slurs m),
       cm_heat := heat_configure (mc_heat cfg) (cm_heat m),
       cm_mutes := (if cm_db_open m then fold (\<lambda>(ipid, mute). AList.update ipid mute) saved [] else [])\<rparr>"

definition set_slur_wordlist :: "string list \<Rightarrow> 'c moderator \<Rightarrow> 'c moderator" where
  "set_slur_wordlist raw m = m\<lparr>cm_slurs := load_wordlist raw (cm_slurs m)\<rparr>"

definition set_slur_exceptions :: "string list \<Rightarrow> 'c moderator \<Rightarrow> 'c moderator" where
  "set_slur_exceptions raw m = m\<lparr>cm_slurs := load_exceptions raw (cm_slurs m)\<rparr>"

definition is_muted :: "int \<Rightarrow> string \<Rightarrow> 'c moderator \<Rightarrow> bool" where
  "is_muted now ipid m =
    (case map_of (cm_mutes m) ipid of None \<Rightarrow> False | Some (expires, _) \<Rightarrow> expires \<le> 0 \<or> expires > now)"

text \<open>The reason, the end and what is left in seconds.\<close>

definition get_mute_info :: "int \<Rightarrow> string \<Rightarrow> 'c moderator \<Rightarrow> (string \<times> int \<times> int) option" where
  "get_mute_info now ipid m =
    (case map_of (cm_mutes m) ipid of
       None \<Rightarrow> None
     | Some (expires, why) \<Rightarrow>
         if expires > 0 \<and> expires \<le> now then None
         else Some (why, expires, if expires > 0 then expires - now else - 1))"

definition lift_mute :: "string \<Rightarrow> 'c moderator \<Rightarrow> bool \<times> 'c moderator" where
  "lift_mute ipid m = (map_of (cm_mutes m) ipid \<noteq> None, m\<lparr>cm_mutes := AList.delete ipid (cm_mutes m)\<rparr>)"

definition reset_state :: "('v, 'c) layers \<Rightarrow> string \<Rightarrow> 'c moderator \<Rightarrow> bool \<times> 'c moderator \<times> moderator_output list" where
  "reset_state ly ipid m =
    (let (prior_heat, h) = heat_peek (ly_steady_ms ly) ipid (cm_heat m);
         (had_mute, m1) = lift_mute ipid (m\<lparr>cm_heat := h\<rparr>);
         m2 = m1\<lparr>cm_heat := heat_reset ipid (cm_heat m1)\<rparr>;
         cleared = (had_mute \<or> prior_heat > 0)
     in (cleared, m2,
         (if cm_db_open m then [Mutes_Deleted ipid] else [])
         @ (if cm_has_audit m \<and> cleared then [Reset_Audited ipid prior_heat had_mute] else [])))"

definition current_heat :: "('v, 'c) layers \<Rightarrow> string \<Rightarrow> 'c moderator \<Rightarrow> real \<times> 'c moderator" where
  "current_heat ly ipid m =
    (let (heat, h) = heat_peek (ly_steady_ms ly) ipid (cm_heat m) in (heat, m\<lparr>cm_heat := h\<rparr>))"

definition set_noheat :: "string \<Rightarrow> bool \<Rightarrow> 'c moderator \<Rightarrow> 'c moderator" where
  "set_noheat ipid exempt m =
     m\<lparr>cm_noheat := (if exempt then List.insert ipid (cm_noheat m) else removeAll ipid (cm_noheat m))\<rparr>"

definition is_noheat :: "string \<Rightarrow> 'c moderator \<Rightarrow> bool" where
  "is_noheat ipid m = (ipid \<in> set (cm_noheat m))"

section \<open>Reasons and samples\<close>

fun format_reason :: "string list \<Rightarrow> string" where
  "format_reason [] = []"
| "format_reason [a] = a"
| "format_reason (a # b # axes) = a @ '', '' @ format_reason (b # axes)"

definition is_continuation :: "char \<Rightarrow> bool" where
  "is_continuation c = (char_code c AND 0xC0 = 0x80)"

text \<open>Walks back while the byte at the cut is a continuation byte.\<close>

fun walk_back :: "string \<Rightarrow> nat \<Rightarrow> nat" where
  "walk_back msg 0 = 0"
| "walk_back msg (Suc pos) = (if is_continuation (msg ! Suc pos) then walk_back msg pos else Suc pos)"

definition sequence_length :: "char \<Rightarrow> nat" where
  "sequence_length c =
    (let lead = char_code c in
     if lead < 0x80 then 1
     else if lead AND 0xE0 = 0xC0 then 2
     else if lead AND 0xF0 = 0xE0 then 3
     else if lead AND 0xF8 = 0xF0 then 4
     else 0)"

definition ellipsis :: string where
  "ellipsis = [CHR 0xE2, CHR 0x80, CHR 0xA6]"

definition message_sample :: "string \<Rightarrow> int \<Rightarrow> string" where
  "message_sample msg max_bytes =
    (if max_bytes \<le> 0 \<or> int (length msg) \<le> max_bytes then msg
     else
       let pos = walk_back msg (nat max_bytes);
           pos2 =
             (if pos > 0 \<and> pos < length msg then
                (let seq_len = sequence_length (msg ! pos)
                 in if seq_len = 0 \<or> pos + seq_len > length msg then walk_back msg (pos - 1) else pos)
              else pos)
       in take pos2 msg @ ellipsis)"

section \<open>Checking a message\<close>

definition keysmash :: "string \<Rightarrow> bool" where
  "keysmash msg =
    (let letters = filter (\<lambda>c. c_islower c \<or> c_isupper c) (map c_tolower msg);
         vowels = filter (\<lambda>c. c \<in> set ''aeiou'') letters
     in length letters \<ge> 8 \<and> real (length vowels) / real (length letters) < 25 / 100)"

type_synonym findings = "axis_scores \<times> string list"

definition unicode_layer :: "('v, 'c) layers \<Rightarrow> string \<Rightarrow> findings \<Rightarrow> findings" where
  "unicode_layer ly msg fs =
    (let (s, axes) = fs; (score, why) = ly_unicode ly msg
     in (s\<lparr>ax_visual_noise := score\<rparr>, if score > 0 then axes @ [''visual_noise('' @ why @ '')''] else axes))"

definition url_layer :: "('v, 'c) layers \<Rightarrow> moderation_config \<Rightarrow> string \<Rightarrow> findings \<Rightarrow> findings" where
  "url_layer ly cfg msg fs =
    (let (s, axes) = fs; r = extract_urls (mc_urls cfg) (ly_url_matches ly) msg
     in (s\<lparr>ax_link_risk := ue_score r\<rparr>, if ue_score r > 0 then axes @ [''link('' @ ue_reason r @ '')''] else axes))"

definition slur_layer :: "real slur_filter \<Rightarrow> string \<Rightarrow> findings \<Rightarrow> findings" where
  "slur_layer f msg fs =
    (if slur_active f then
       (let (s, axes) = fs; r = slur_scan msg f
        in (s\<lparr>ax_slurs := sr_score r\<rparr>, if sr_score r > 0 then axes @ [sr_reason r] else axes))
     else fs)"

text \<open>The embedding is computed once, when a layer needs it; \<open>None\<close> also when it failed.\<close>

definition shared_embedding :: "('v, 'c) layers \<Rightarrow> string \<Rightarrow> 'v option" where
  "shared_embedding ly msg =
    (case ly_backend ly of
       None \<Rightarrow> None
     | Some embedding \<Rightarrow> if ly_classifier ly \<noteq> None \<or> ly_bad_hint ly \<noteq> None then embedding msg else None)"

definition merge_scores :: "axis_scores \<Rightarrow> axis_scores \<Rightarrow> axis_scores" where
  "merge_scores s l =
     s\<lparr>ax_hate := max (ax_hate s) (ax_hate l), ax_sexual := max (ax_sexual s) (ax_sexual l),
       ax_sexual_minors := max (ax_sexual_minors s) (ax_sexual_minors l),
       ax_violence := max (ax_violence s) (ax_violence l), ax_self_harm := max (ax_self_harm s) (ax_self_harm l)\<rparr>"

definition classifier_layer :: "('v, 'c) layers \<Rightarrow> moderation_config \<Rightarrow> string \<Rightarrow> findings \<Rightarrow> findings" where
  "classifier_layer ly cfg msg fs =
    (case (ly_classifier ly, shared_embedding ly msg) of
       (Some classify, Some e) \<Rightarrow>
         (case classify e of
            Some l \<Rightarrow>
              if keysmash msg then fs
              else
                (let (s, axes) = fs; flr = hc_floor (mc_heat cfg)
                 in (merge_scores s l,
                     axes @ (if ax_hate l > ax_hate flr then [''hate''] else [])
                     @ (if ax_sexual l > ax_sexual flr then [''sexual''] else [])
                     @ (if ax_sexual_minors l > ax_sexual_minors flr then [''sexual_minors''] else [])
                     @ (if ax_violence l > ax_violence flr then [''violence''] else [])
                     @ (if ax_self_harm l > ax_self_harm flr then [''self_harm''] else [])))
          | None \<Rightarrow> fs)
     | _ \<Rightarrow> fs)"

definition inject_score :: "string \<Rightarrow> real \<Rightarrow> axis_scores \<Rightarrow> axis_scores" where
  "inject_score axis score s =
    (if axis = ''hate'' then s\<lparr>ax_hate := max (ax_hate s) score\<rparr>
     else if axis = ''sexual'' then s\<lparr>ax_sexual := max (ax_sexual s) score\<rparr>
     else if axis = ''sexual_minors'' then s\<lparr>ax_sexual_minors := max (ax_sexual_minors s) score\<rparr>
     else if axis = ''violence'' then s\<lparr>ax_violence := max (ax_violence s) score\<rparr>
     else if axis = ''self_harm'' then s\<lparr>ax_self_harm := max (ax_self_harm s) score\<rparr>
     else s)"

definition bad_hint_layer :: "('v, 'c) layers \<Rightarrow> moderation_config \<Rightarrow> string \<Rightarrow> findings \<Rightarrow> findings" where
  "bad_hint_layer ly cfg msg fs =
    (case (ly_bad_hint ly, shared_embedding ly msg) of
       (Some is_bad, Some e) \<Rightarrow>
         if is_bad e then
           (let (s, axes) = fs
            in (inject_score (mc_inject_axis cfg) (mc_inject_score cfg) s, axes @ [mc_inject_axis cfg @ ''_bh'']))
         else fs
     | _ \<Rightarrow> fs)"

definition cluster_layer ::
  "('v, 'c) layers \<Rightarrow> moderation_config \<Rightarrow> string \<Rightarrow> string \<Rightarrow> 'c \<Rightarrow> findings \<Rightarrow> findings \<times> 'c" where
  "cluster_layer ly cfg ipid msg c fs =
    (if mc_embeddings_enabled cfg then
       (let (s, axes) = fs; ((score, why), c') = ly_cluster ly ipid msg (shared_embedding ly msg) c
        in if score > 0 then ((s\<lparr>ax_semantic_echo := max (ax_semantic_echo s) score\<rparr>, axes @ [why]), c')
           else (fs, c'))
     else (fs, c))"

definition run_layers ::
  "('v, 'c) layers \<Rightarrow> moderation_config \<Rightarrow> string \<Rightarrow> string \<Rightarrow> 'c moderator \<Rightarrow> findings \<times> 'c" where
  "run_layers ly cfg ipid msg m =
    (let fs = unicode_layer ly msg (axis_scores_new, []);
         fs = url_layer ly cfg msg fs;
         fs = slur_layer (cm_slurs m) msg fs;
         fs = classifier_layer ly cfg msg fs;
         fs = bad_hint_layer ly cfg msg fs
     in cluster_layer ly cfg ipid msg (cm_cluster m) fs)"

definition clean_epsilon :: real where
  "clean_epsilon = 1 / 100"

text \<open>A message without offence: the heat is only decayed, or lowered towards the trust floor.\<close>

definition check_clean ::
  "('v, 'c) layers \<Rightarrow> moderation_config \<Rightarrow> string \<Rightarrow> findings \<Rightarrow> 'c moderator \<Rightarrow> check_verdict \<times> 'c moderator" where
  "check_clean ly cfg ipid fs m =
    (let (heat, h) =
       (if tb_enabled (mc_trust_bank cfg)
        then accrue_trust (ly_steady_ms ly) ipid (tb_clean_reward (mc_trust_bank cfg)) (- tb_max_trust (mc_trust_bank cfg)) (cm_heat m)
        else heat_peek (ly_steady_ms ly) ipid (cm_heat m))
     in (check_verdict_new\<lparr>vd_scores := fst fs, vd_triggered_axes := snd fs, vd_heat_after := heat\<rparr>, m\<lparr>cm_heat := h\<rparr>))"

text \<open>An exempt sender: nothing is applied, and the action returned is none.\<close>

definition check_exempt ::
  "('v, 'c) layers \<Rightarrow> string \<Rightarrow> findings \<Rightarrow> real \<Rightarrow> 'c moderator \<Rightarrow> check_verdict \<times> 'c moderator" where
  "check_exempt ly ipid fs delta m =
    (let (_, h) = heat_peek (ly_steady_ms ly) ipid (cm_heat m);
         (heat, h) = heat_peek (ly_steady_ms ly) ipid h;
         why = format_reason (snd fs)
     in (\<lparr>vd_action = MA_NONE, vd_scores = fst fs, vd_heat_delta = delta, vd_heat_after = heat,
          vd_reason = (if why \<noteq> [] then why @ '' [noheat_suppressed]'' else []), vd_triggered_axes = snd fs\<rparr>,
         m\<lparr>cm_heat := h\<rparr>))"

definition record_mute ::
  "('v, 'c) layers \<Rightarrow> moderation_config \<Rightarrow> string \<Rightarrow> string \<Rightarrow> 'c moderator \<Rightarrow> 'c moderator \<times> moderator_output list" where
  "record_mute ly cfg ipid why m =
    (let expires = ly_now_sec ly + hc_mute_duration_seconds (mc_heat cfg);
         mute_reason = (if why = [] then ''auto-mute'' else why)
     in (m\<lparr>cm_mutes := AList.update ipid (expires, mute_reason) (cm_mutes m)\<rparr>,
         if cm_db_open m then [Mute_Saved ipid (ly_now_sec ly) expires mute_reason] else []))"

definition check_event ::
  "('v, 'c) layers \<Rightarrow> moderation_config \<Rightarrow> string \<Rightarrow> string \<Rightarrow> string \<Rightarrow> check_verdict \<Rightarrow> moderation_event" where
  "check_event ly cfg ipid channel msg v =
     \<lparr>ev_timestamp_ms = ly_system_ms ly, ev_ipid = ipid, ev_channel = channel,
      ev_message_sample = message_sample msg (mc_message_sample_length cfg), ev_scores = vd_scores v,
      ev_action = vd_action v, ev_heat_after = vd_heat_after v, ev_reason = vd_reason v\<rparr>"

definition check_offence ::
  "('v, 'c) layers \<Rightarrow> moderation_config \<Rightarrow> string \<Rightarrow> string \<Rightarrow> string \<Rightarrow> findings \<Rightarrow> real \<Rightarrow> 'c moderator \<Rightarrow>
     check_verdict \<times> 'c moderator \<times> moderator_output list" where
  "check_offence ly cfg ipid channel msg fs delta m =
    (let (heat, h) = heat_apply (ly_steady_ms ly) ipid delta (cm_heat m);
         v = \<lparr>vd_action = decide_action (mh_cfg h) heat, vd_scores = fst fs, vd_heat_delta = delta, vd_heat_after = heat,
              vd_reason = format_reason (snd fs), vd_triggered_axes = snd fs\<rparr>;
         (m1, saved) = (if vd_action v = MA_MUTE then record_mute ly cfg ipid (vd_reason v) (m\<lparr>cm_heat := h\<rparr>)
                        else (m\<lparr>cm_heat := h\<rparr>, []));
         called = (if vd_action v \<noteq> MA_NONE \<and> vd_action v \<noteq> MA_LOG \<and> cm_has_callback m
                   then [Action_Called ipid (vd_action v) (vd_reason v)] else []);
         ev = check_event ly cfg ipid channel msg v;
         stored = (cm_db_open m \<and> mc_sqlite_enabled cfg)
     in (v, m1, saved @ called @ (if cm_has_audit m then [Audited ev] else [])
                @ (if stored \<and> severity (vd_action v) \<ge> severity MA_LOG then [Event_Stored ev] else [])))"

definition moderator_check ::
  "('v, 'c) layers \<Rightarrow> string \<Rightarrow> string \<Rightarrow> string \<Rightarrow> 'c moderator \<Rightarrow> check_verdict \<times> 'c moderator \<times> moderator_output list" where
  "moderator_check ly ipid channel msg m =
    (case cm_cfg m of
       None \<Rightarrow> (check_verdict_new, m, [])
     | Some cfg \<Rightarrow>
         if \<not> mc_enabled cfg then (check_verdict_new, m, [])
         else if channel = ''ic'' \<and> \<not> mc_check_ic cfg then (check_verdict_new, m, [])
         else if channel = ''ooc'' \<and> \<not> mc_check_ooc cfg then (check_verdict_new, m, [])
         else
           (let (fs, c) = run_layers ly cfg ipid msg m;
                m1 = m\<lparr>cm_cluster := c\<rparr>;
                delta = heat_delta_from (fst fs) (mc_heat cfg)
            in if delta < clean_epsilon then
                 (let (v, m2) = check_clean ly cfg ipid fs m1 in (v, m2, []))
               else if is_noheat ipid m1 then
                 (let (v, m2) = check_exempt ly ipid fs delta m1 in (v, m2, []))
               else check_offence ly cfg ipid channel msg fs delta m1))"

section \<open>Housekeeping\<close>

text \<open>The addresses with heat entries and those muted now.\<close>

definition compute_heat_stats :: "int \<Rightarrow> 'c moderator \<Rightarrow> nat \<times> nat" where
  "compute_heat_stats now m =
    (heat_size (cm_heat m), length (filter (\<lambda>(_, expires, _). expires = 0 \<or> expires > now) (cm_mutes m)))"

definition moderator_sweep :: "('v, 'c) layers \<Rightarrow> ('c \<Rightarrow> 'c) \<Rightarrow> 'c moderator \<Rightarrow> 'c moderator \<times> moderator_output list" where
  "moderator_sweep ly sweep_cluster m =
    (m\<lparr>cm_heat := heat_sweep (ly_steady_ms ly) (cm_heat m), cm_cluster := sweep_cluster (cm_cluster m),
       cm_mutes := filter (\<lambda>(_, expires, _). \<not> (expires > 0 \<and> expires \<le> ly_now_sec ly)) (cm_mutes m)\<rparr>,
     if cm_db_open m then [Expired_Mutes_Pruned] else [])"

text \<open>\<open>/noheat\<close>: the arguments start with the command's name; \<open>own\<close> is the sender's own address.\<close>

definition noheat_command :: "string \<Rightarrow> string list \<Rightarrow> 'c moderator \<Rightarrow> 'c moderator" where
  "noheat_command own args m =
    (if length args \<ge> 2 \<and> args ! 1 = ''off'' then set_noheat own False m
     else
       let target = (if length args \<ge> 2 then args ! 1 else own)
       in set_noheat target (\<not> is_noheat target m) m)"

end
