(* ===== verification/Content_Moderator_Props.thy ===== *)
theory Content_Moderator_Props
  imports Content_Moderator Slur_Tokens
begin

text \<open>
  The content moderator: trust never weakens a response, heat stays above the trust floor, a message
  without offence passes whatever its sender has done, and samples keep whole characters.
\<close>

section \<open>Heat\<close>

lemma severity_simps [simp]:
  "severity MA_NONE = 0" "severity MA_LOG = 1" "severity MA_CENSOR = 2" "severity MA_DROP = 3"
  "severity MA_MUTE = 4" "severity MA_KICK = 5" "severity MA_BAN = 6" "severity MA_PERMA_BAN = 7"
  by (simp_all add: severity_def)

lemma decide_mono: "a \<le> b \<Longrightarrow> severity (decide_action cfg a) \<le> severity (decide_action cfg b)"
  unfolding decide_action_def by (auto split: if_splits)

lemma heat_apply_at_least: "0 \<le> delta \<Longrightarrow> delta \<le> fst (heat_apply now ipid delta h)"
  by (simp add: heat_apply_def Let_def)

lemma axis_contrib_nonneg [simp]: "0 \<le> axis_contrib s f"
  by (simp add: axis_contrib_def)

definition weights_nonneg :: "heat_config \<Rightarrow> bool" where
  "weights_nonneg h = (let w = hc_weight h in
     0 \<le> ax_visual_noise w \<and> 0 \<le> ax_link_risk w \<and> 0 \<le> ax_slurs w \<and> 0 \<le> ax_hate w \<and> 0 \<le> ax_sexual w \<and>
     0 \<le> ax_sexual_minors w \<and> 0 \<le> ax_violence w \<and> 0 \<le> ax_self_harm w \<and> 0 \<le> ax_semantic_echo w)"

lemma delta_at_least_slurs:
  "weights_nonneg h \<Longrightarrow> axis_contrib (ax_slurs s) (ax_slurs (hc_floor h)) * ax_slurs (hc_weight h) \<le> heat_delta_from s h"
  unfolding heat_delta_from_def weights_nonneg_def Let_def by (simp add: add_nonneg_nonneg)

lemma default_weights: "weights_nonneg heat_config_default"
  by (simp add: weights_nonneg_def heat_config_default_def)

subsection \<open>The trust floor\<close>

lemma decay_factor_range: "0 \<le> dt \<Longrightarrow> 0 < decay_factor cfg dt \<and> decay_factor cfg dt \<le> 1"
proof -
  assume "0 \<le> dt"
  then have "- (real_of_int dt / 1000) * ln 2 / max 1 (hc_decay_half_life_seconds cfg) \<le> 0"
    by (intro divide_nonpos_pos mult_nonpos_nonneg) auto
  then show ?thesis unfolding decay_factor_def Let_def by simp
qed

definition heat_floor :: "real \<Rightarrow> moderation_heat \<Rightarrow> bool" where
  "heat_floor T h = (\<forall>(k, en)\<in>set (mh_state h). - T \<le> he_heat en)"

lemma decay_floor:
  assumes "- T \<le> he_heat en" "0 \<le> T"
  shows "- T \<le> he_heat (decay_entry cfg now en)"
proof (cases "now - he_last_update_ms en \<le> 0 \<or> he_last_update_ms en = 0")
  case True
  then show ?thesis using assms by (auto simp: decay_entry_def)
next
  case False
  let ?f = "decay_factor cfg (now - he_last_update_ms en)"
  have f: "0 < ?f" "?f \<le> 1" using decay_factor_range [of "now - he_last_update_ms en" cfg] False by auto
  have "- T \<le> he_heat en * ?f"
  proof (cases "0 \<le> he_heat en")
    case True
    then show ?thesis using f assms(2) by (smt (verit) mult_nonneg_nonneg)
  next
    case False
    then have "he_heat en \<le> he_heat en * ?f" using f mult_left_mono_neg [of ?f 1 "he_heat en"] by simp
    then show ?thesis using assms(1) by simp
  qed
  then show ?thesis using False assms(2) by (simp add: decay_entry_def Let_def)
qed

lemma floor_store: "heat_floor T h \<Longrightarrow> - T \<le> he_heat en \<Longrightarrow> heat_floor T (heat_store ipid en h)"
proof -
  have "set (AList.update ipid en al) \<subseteq> insert (ipid, en) (set al)" for al by (induction al) auto
  then show "heat_floor T h \<Longrightarrow> - T \<le> he_heat en \<Longrightarrow> ?thesis"
    unfolding heat_floor_def heat_store_def by fastforce
qed

lemma floor_entry: "heat_floor T h \<Longrightarrow> 0 \<le> T \<Longrightarrow> - T \<le> he_heat (heat_entry_of ipid h)"
  by (auto simp: heat_floor_def heat_entry_of_def dest!: map_of_SomeD split: option.splits)

lemma floor_apply: "heat_floor T h \<Longrightarrow> 0 \<le> T \<Longrightarrow> heat_floor T (snd (heat_apply now ipid delta h))"
  by (auto simp: heat_apply_def Let_def intro!: floor_store)

lemma floor_peek: "heat_floor T h \<Longrightarrow> 0 \<le> T \<Longrightarrow> heat_floor T (snd (heat_peek now ipid h))"
  using floor_entry [of T h ipid]
  by (auto simp: heat_peek_def Let_def heat_entry_of_def intro!: floor_store decay_floor split: option.split)

lemma floor_accrue: "heat_floor T h \<Longrightarrow> 0 \<le> T \<Longrightarrow> heat_floor T (snd (accrue_trust now ipid amount (- T) h))"
  by (auto simp: accrue_trust_def Let_def floor_peek intro!: floor_store decay_floor floor_entry)

lemma floor_sweep: "heat_floor T h \<Longrightarrow> 0 \<le> T \<Longrightarrow> heat_floor T (heat_sweep now h)"
  by (auto simp: heat_sweep_def heat_floor_def intro!: decay_floor)

lemma floor_reset: "heat_floor T h \<Longrightarrow> heat_floor T (heat_reset ipid h)"
  by (auto simp: heat_reset_def heat_floor_def AList.delete_eq)

section \<open>The operations of a moderator in service\<close>

datatype ('v, 'c) moderator_op =
    Op_Check "('v, 'c) layers" string string string
  | Op_Heat "('v, 'c) layers" string
  | Op_Reset "('v, 'c) layers" string
  | Op_Lift string
  | Op_Noheat string bool
  | Op_Sweep "('v, 'c) layers" "'c \<Rightarrow> 'c"
  | Op_Wordlist "string list"
  | Op_Exceptions "string list"

fun moderator_op_run :: "('v, 'c) moderator_op \<Rightarrow> 'c moderator \<Rightarrow> 'c moderator" where
  "moderator_op_run (Op_Check ly ipid channel msg) m = fst (snd (moderator_check ly ipid channel msg m))"
| "moderator_op_run (Op_Heat ly ipid) m = snd (current_heat ly ipid m)"
| "moderator_op_run (Op_Reset ly ipid) m = fst (snd (reset_state ly ipid m))"
| "moderator_op_run (Op_Lift ipid) m = snd (lift_mute ipid m)"
| "moderator_op_run (Op_Noheat ipid b) m = set_noheat ipid b m"
| "moderator_op_run (Op_Sweep ly f) m = fst (moderator_sweep ly f m)"
| "moderator_op_run (Op_Wordlist raw) m = set_slur_wordlist raw m"
| "moderator_op_run (Op_Exceptions raw) m = set_slur_exceptions raw m"

definition trust_ok :: "moderation_config \<Rightarrow> 'c moderator \<Rightarrow> bool" where
  "trust_ok cfg m = (cm_cfg m = Some cfg \<and> heat_floor (tb_max_trust (mc_trust_bank cfg)) (cm_heat m))"

lemma record_mute_simps [simp]:
  "cm_heat (fst (record_mute ly cfg ipid r m)) = cm_heat m" "cm_cfg (fst (record_mute ly cfg ipid r m)) = cm_cfg m"
  "cm_slurs (fst (record_mute ly cfg ipid r m)) = cm_slurs m" "cm_noheat (fst (record_mute ly cfg ipid r m)) = cm_noheat m"
  by (simp_all add: record_mute_def Let_def)

lemma check_heat:
  assumes "cm_cfg m = Some cfg" "0 \<le> tb_max_trust (mc_trust_bank cfg)" "trust_ok cfg m"
  shows "trust_ok cfg (fst (snd (moderator_check ly ipid channel msg m)))"
  using assms
  by (auto simp: moderator_check_def trust_ok_def Let_def split_beta check_clean_def check_exempt_def check_offence_def
      floor_peek floor_accrue floor_apply)

lemma op_trust:
  assumes "0 \<le> tb_max_trust (mc_trust_bank cfg)" "trust_ok cfg m"
  shows "trust_ok cfg (moderator_op_run op m)"
proof (cases op)
  case (Op_Check ly ipid channel msg)
  then show ?thesis using assms check_heat [of m cfg] by (simp add: trust_ok_def)
qed (use assms in \<open>auto simp: trust_ok_def current_heat_def reset_state_def lift_mute_def set_noheat_def
    moderator_sweep_def set_slur_wordlist_def set_slur_exceptions_def Let_def split_beta
    floor_peek floor_sweep intro!: floor_reset\<close>)

text \<open>
  C21: Trust is a credit towards being checked less, not towards being let off: under a configuration
  the heat of an address never falls below the trust bank's limit, whatever happens, and however
  much trust an address has gathered, the response to an offence is at least what the
  offence alone calls for.
\<close>

theorem trust_never_weakens_response:
  assumes "0 \<le> tb_max_trust (mc_trust_bank cfg)" "trust_ok cfg m0"
    and "m = fold moderator_op_run ops m0" "0 \<le> delta"
  shows "(\<forall>(ipid, en)\<in>set (mh_state (cm_heat m)). - tb_max_trust (mc_trust_bank cfg) \<le> he_heat en) \<and>
    delta \<le> fst (heat_apply now ipid delta (cm_heat m)) \<and>
    severity (decide_action h delta) \<le> severity (decide_action h (fst (heat_apply now ipid delta (cm_heat m))))"
proof -
  have "trust_ok cfg (fold moderator_op_run os m)" if "trust_ok cfg m" for os m
    using that by (induction os arbitrary: m) (auto intro: op_trust [OF assms(1)])
  then have "trust_ok cfg m" using assms(2,3) by simp
  then show ?thesis
    using heat_apply_at_least [OF assms(4)] decide_mono by (auto simp: trust_ok_def heat_floor_def)
qed

text \<open>A moderator with the default thresholds and two listed words.\<close>

definition demo_moderation :: moderation_config where
  "demo_moderation =
    \<lparr>mc_enabled = True, mc_check_ic = True, mc_check_ooc = True, mc_message_sample_length = 200,
     mc_urls = \<lparr>uc_enabled = False, uc_blocklist = [], uc_allowlist = [], uc_blocked_score = 1, uc_unknown_url_score = 0\<rparr>,
     mc_slurs = \<lparr>sc_enabled = True, sc_match_score = 1\<rparr>, mc_embeddings_enabled = False, mc_heat = heat_config_default,
     mc_trust_bank = \<lparr>tb_enabled = True, tb_clean_reward = 1 / 10, tb_max_trust = 10\<rparr>,
     mc_inject_axis = ''hate'', mc_inject_score = 1, mc_sqlite_enabled = False\<rparr>"

definition demo_moderator :: "unit moderator" where
  "demo_moderator =
    \<lparr>cm_cfg = Some demo_moderation,
     cm_slurs = \<lparr>sf_cfg = \<lparr>sc_enabled = True, sc_match_score = 1\<rparr>, sf_wordlist = [''bad'', ''zorke''], sf_exceptions = []\<rparr>,
     cm_heat = moderation_heat_new, cm_cluster = (), cm_has_audit = False, cm_has_callback = False,
     cm_db_open = False, cm_mutes = [], cm_noheat = []\<rparr>"

definition demo_layers :: "int \<Rightarrow> (unit, unit) layers" where
  "demo_layers now =
    \<lparr>ly_steady_ms = now * 1000, ly_system_ms = now * 1000, ly_now_sec = now, ly_unicode = (\<lambda>_. (0, [])),
     ly_url_matches = (\<lambda>_. []), ly_backend = None, ly_classifier = None, ly_bad_hint = None,
     ly_cluster = (\<lambda>_ _ _ c. ((0, []), c))\<rparr>"

theorem trust_never_weakens_response_witness:
  "6 \<le> fst (heat_apply 5 ''x'' 6 (snd (accrue_trust 4 ''x'' 8 (- 10) (cm_heat demo_moderator))))"
proof -
  let ?m = "demo_moderator\<lparr>cm_heat := snd (accrue_trust 4 ''x'' 8 (- 10) (cm_heat demo_moderator))\<rparr>"
  have "heat_floor 10 (cm_heat demo_moderator)" by (simp add: heat_floor_def demo_moderator_def moderation_heat_new_def)
  then have "trust_ok demo_moderation ?m"
    by (simp add: trust_ok_def floor_accrue) (simp add: demo_moderator_def demo_moderation_def floor_accrue)
  then show ?thesis
    using trust_never_weakens_response [of demo_moderation ?m ?m "[]" 6] by (simp add: demo_moderation_def)
qed

section \<open>Messages without offence\<close>

lemma clean_check:
  assumes "cm_cfg m = Some cfg"
    and "heat_delta_from (fst (fst (run_layers ly cfg ipid msg m))) (mc_heat cfg) < clean_epsilon"
  shows "vd_action (fst (moderator_check ly ipid channel msg m)) = MA_NONE \<and>
    snd (snd (moderator_check ly ipid channel msg m)) = [] \<and>
    cm_mutes (fst (snd (moderator_check ly ipid channel msg m))) = cm_mutes m"
  using assms
  by (auto simp: moderator_check_def check_verdict_new_def check_clean_def Let_def split_beta)

lemma check_acts:
  assumes "moderator_check ly ipid channel msg m = (v, m1, outs)" "vd_action v \<noteq> MA_NONE" "cm_cfg m = Some cfg"
  obtains fs c delta where "run_layers ly cfg ipid msg m = (fs, c)" "delta = heat_delta_from (fst fs) (mc_heat cfg)"
    "check_offence ly cfg ipid channel msg fs delta (m\<lparr>cm_cluster := c\<rparr>) = (v, m1, outs)"
proof (cases "run_layers ly cfg ipid msg m")
  case (Pair fs c)
  let ?delta = "heat_delta_from (fst fs) (mc_heat cfg)" and ?m = "m\<lparr>cm_cluster := c\<rparr>"
  have "vd_action (fst (check_clean ly cfg ipid fs ?m)) = MA_NONE" "vd_action (fst (check_exempt ly ipid fs ?delta ?m)) = MA_NONE"
    by (simp_all add: check_clean_def check_exempt_def check_verdict_new_def Let_def split_beta)
  then have "check_offence ly cfg ipid channel msg fs ?delta ?m = (v, m1, outs)"
    using assms by (auto simp: moderator_check_def Pair Let_def split_beta check_verdict_new_def split: if_splits)
  then show ?thesis using that Pair by blast
qed

lemma offence_muted:
  assumes "check_offence ly cfg ipid channel msg fs delta m = (v, m1, outs)" "vd_action v = MA_MUTE"
  shows "cm_cfg m1 = cm_cfg m \<and> map_of (cm_mutes m1) ipid =
    Some (ly_now_sec ly + hc_mute_duration_seconds (mc_heat cfg), if vd_reason v = [] then ''auto-mute'' else vd_reason v)"
  using assms unfolding check_offence_def record_mute_def Let_def split_beta
  by (auto simp: update_conv split: if_splits)

lemma muted_by_check:
  assumes "moderator_check ly ipid channel msg m = (v, m1, outs)" "vd_action v = MA_MUTE" "cm_cfg m = Some cfg"
  shows "cm_cfg m1 = Some cfg \<and> map_of (cm_mutes m1) ipid =
    Some (ly_now_sec ly + hc_mute_duration_seconds (mc_heat cfg), if vd_reason v = [] then ''auto-mute'' else vd_reason v)"
proof -
  have "vd_action v \<noteq> MA_NONE" using assms(2) by simp
  then obtain fs c delta where "check_offence ly cfg ipid channel msg fs delta (m\<lparr>cm_cluster := c\<rparr>) = (v, m1, outs)"
    using assms(1,3) by (elim check_acts)
  then show ?thesis using offence_muted [OF _ assms(2)] assms(3) by fastforce
qed

text \<open>
  C25: A mute is recorded for the configured time and reported to the sender, but it silences nobody:
  whatever the sender's heat and mutes, a message that does not offend by itself gets the
  action none and has no consequence.
\<close>

theorem mute_does_not_silence:
  assumes "moderator_check ly ipid channel msg m = (v, m1, outs)" "vd_action v = MA_MUTE" "cm_cfg m = Some cfg"
    and "t < hc_mute_duration_seconds (mc_heat cfg)"
    and "heat_delta_from (fst (fst (run_layers ly2 cfg ipid msg2 m1))) (mc_heat cfg) < clean_epsilon"
  shows "is_muted (ly_now_sec ly + t) ipid m1 \<and>
    (let (v2, m2, outs2) = moderator_check ly2 ipid channel2 msg2 m1
     in vd_action v2 = MA_NONE \<and> outs2 = [] \<and> cm_mutes m2 = cm_mutes m1)"
proof -
  have m: "cm_cfg m1 = Some cfg" "map_of (cm_mutes m1) ipid =
      Some (ly_now_sec ly + hc_mute_duration_seconds (mc_heat cfg), if vd_reason v = [] then ''auto-mute'' else vd_reason v)"
    using muted_by_check [OF assms(1-3)] by blast+
  show ?thesis
    using clean_check [OF m(1) assms(5), of channel2] m(2) assms(4) by (simp add: is_muted_def split_beta)
qed

text \<open>A message of one word in lower case.\<close>

lemma lower_scan:
  assumes "list_all c_islower w" "w \<noteq> []" "collapse_runs w = w" "slur_active f"
  shows "slur_scan w f = (if slur_candidate f w = [] then no_match
     else \<lparr>sr_score = sc_match_score (sf_cfg f), sr_matched = slur_candidate f w, sr_reason = ''slur(1)''\<rparr>)"
proof -
  have "sf_wordlist f \<noteq> []" using assms(4) by (simp add: slur_active_def)
  moreover have "show_nat (Suc 0) = ''1''" using char_of_code [of "CHR ''1''"] by (simp add: show_nat.simps char_code_def)
  moreover have "slur_candidate f w = [] \<or> (\<exists>c. slur_candidate f w = [c])"
    by (simp add: slur_candidate_def Let_def)
  ultimately show ?thesis
    using assms(4) lower_token [OF assms(1-3)]
    by (elim disjE exE) (simp_all add: slur_scan_def Let_def)
qed

lemma demo_layers_run:
  "fst (run_layers (demo_layers n) demo_moderation ipid msg m) = slur_layer (cm_slurs m) msg (axis_scores_new, [])"
  by (simp add: run_layers_def unicode_layer_def url_layer_def classifier_layer_def bad_hint_layer_def
      cluster_layer_def demo_layers_def demo_moderation_def extract_urls_def Let_def split_beta axis_scores_new_def)

theorem mute_does_not_silence_witness:
  "let m1 = fst (snd (moderator_check (demo_layers 1) ''x'' ''ic'' ''bad'' demo_moderator))
   in is_muted 101 ''x'' m1 \<and> vd_action (fst (moderator_check (demo_layers 100) ''x'' ''ic'' ''hi'' m1)) = MA_NONE"
proof -
  let ?r = "moderator_check (demo_layers 1) ''x'' ''ic'' ''bad'' demo_moderator"
  obtain v m1 outs where r: "?r = (v, m1, outs)" by (cases ?r)
  have lower: "list_all c_islower ''bad''" "list_all c_islower ''hi''"
    by (simp_all add: c_islower_def char_code_def)
  have cfg: "cm_cfg demo_moderator = Some demo_moderation" by (simp add: demo_moderator_def)
  have f: "slur_active (cm_slurs demo_moderator)" "slur_candidate (cm_slurs demo_moderator) ''bad'' = [''bad'']"
    "slur_candidate (cm_slurs demo_moderator) ''hi'' = []" "sc_match_score (sf_cfg (cm_slurs demo_moderator)) = 1"
    by (simp_all add: slur_candidate_def demo_moderator_def slur_active_def strip_suffix_def try_strip_def)
  have bad: "fst (run_layers (demo_layers 1) demo_moderation ''x'' ''bad'' demo_moderator) =
      (axis_scores_new\<lparr>ax_slurs := 1\<rparr>, [''slur(1)''])"
    using f lower(1) by (simp add: demo_layers_run slur_layer_def lower_scan)
  have "heat_delta_from (axis_scores_new\<lparr>ax_slurs := 1\<rparr>) heat_config_default = 6"
    by (simp add: heat_delta_from_def axis_contrib_def axis_scores_new_def heat_config_default_def)
  then have "vd_action (fst ?r) = MA_MUTE \<and> cm_slurs (fst (snd ?r)) = cm_slurs demo_moderator"
    using bad
    by (simp add: moderator_check_def cfg demo_moderation_def split_beta Let_def check_offence_def
        is_noheat_def clean_epsilon_def demo_moderator_def moderation_heat_new_def heat_apply_def
        heat_entry_of_def decay_entry_def demo_layers_def decide_action_def heat_config_default_def heat_store_def)
  then have "vd_action v = MA_MUTE \<and> cm_slurs m1 = cm_slurs demo_moderator" by (simp add: r)
  then have v: "vd_action v = MA_MUTE" and m1: "cm_slurs m1 = cm_slurs demo_moderator" by blast+
  have "fst (run_layers (demo_layers 100) demo_moderation ''x'' ''hi'' m1) = (axis_scores_new, [])"
    using f lower(2) by (simp add: demo_layers_run slur_layer_def lower_scan m1 no_match_def axis_scores_new_def)
  then have "heat_delta_from (fst (fst (run_layers (demo_layers 100) demo_moderation ''x'' ''hi'' m1))) (mc_heat demo_moderation) < clean_epsilon"
    by (simp add: heat_delta_from_def axis_contrib_def axis_scores_new_def clean_epsilon_def)
  then show ?thesis
    using mute_does_not_silence [OF r v cfg, of 100 "demo_layers 100" "''hi''" "''ic''"] r
    by (simp add: demo_layers_def demo_moderation_def heat_config_default_def split_beta)
qed

section \<open>Samples\<close>

definition well_encoded :: "string \<Rightarrow> bool" where
  "well_encoded u = (u \<noteq> [] \<and> \<not> is_continuation (hd u) \<and> list_all is_continuation (tl u) \<and> sequence_length (hd u) = length u)"

lemma is_continuation_iff: "is_continuation c = continuation c"
  using lead_ranges(4) [OF char_code_less_256, of c] by (simp add: is_continuation_def continuation_def)

lemma sequence_length_ranges:
  "sequence_length c =
    (let b = char_code c in if b < 128 then 1 else if b < 192 then 0 else if b < 224 then 2 else if b < 240 then 3
     else if b < 248 then 4 else 0)"
  using char_code_less_256 [of c] by (auto simp: sequence_length_def Let_def lead_ranges)

lemma utf8_well_encoded: "scalar cp \<Longrightarrow> well_encoded (utf8 cp)"
proof -
  assume "scalar cp"
  then have "cp < 0x110000" by (simp add: scalar_def)
  then have d: "cp div 262144 < 8" "cp < 0x10000 \<longrightarrow> cp div 4096 < 16" "cp < 0x800 \<longrightarrow> cp div 64 < 32" by auto
  show ?thesis
    unfolding well_encoded_def utf8_def utf8_codes_def is_continuation_iff sequence_length_ranges
    using d by (auto simp: continuation_def char_code_char_of Let_def)
qed

lemma walk_back_stops: "\<not> is_continuation (msg ! pos) \<Longrightarrow> walk_back msg pos = pos"
  by (cases pos) simp_all

lemma walk_back_run:
  "(\<And>i. lo < i \<Longrightarrow> i \<le> pos \<Longrightarrow> is_continuation (msg ! i)) \<Longrightarrow> \<not> is_continuation (msg ! lo) \<Longrightarrow> lo \<le> pos \<Longrightarrow>
   walk_back msg pos = lo"
proof (induction pos)
  case (Suc pos)
  show ?case
  proof (cases "lo = Suc pos")
    case True
    then show ?thesis using walk_back_stops Suc.prems(2) by blast
  next
    case False
    then show ?thesis using Suc by simp
  qed
qed (simp add: walk_back_stops)

lemma text_split:
  "n < length (utf8_text cps) \<Longrightarrow>
   \<exists>xs cp ys. cps = xs @ cp # ys \<and> length (utf8_text xs) \<le> n \<and> n < length (utf8_text (xs @ [cp]))"
proof (induction cps rule: rev_induct)
  case (snoc cp cps)
  show ?case
  proof (cases "n < length (utf8_text cps)")
    case True
    then obtain xs c ys where "cps = xs @ c # ys" "length (utf8_text xs) \<le> n" "n < length (utf8_text (xs @ [c]))"
      using snoc.IH by blast
    then show ?thesis by (intro exI [of _ xs] exI [of _ c] exI [of _ "ys @ [cp]"]) simp
  next
    case False
    then show ?thesis using snoc.prems by (intro exI [of _ cps] exI [of _ cp] exI [of _ "[]"]) simp
  qed
qed (simp add: utf8_text_def)

lemma utf8_text_append: "utf8_text (xs @ ys) = utf8_text xs @ utf8_text ys"
  by (simp add: utf8_text_def)

text \<open>
  C34: A sample of a well-formed text consists of whole characters: as many as fit the limit, and
  the ellipsis. It never exceeds the limit by more than the three bytes of the ellipsis.
\<close>

theorem sample_keeps_characters:
  assumes "list_all scalar cps" "0 < max_bytes" "max_bytes < int (length (utf8_text cps))"
  shows "\<exists>n < length cps. message_sample (utf8_text cps) max_bytes = utf8_text (take n cps) @ ellipsis \<and>
    int (length (utf8_text (take n cps))) \<le> max_bytes \<and> max_bytes < int (length (utf8_text (take (Suc n) cps)))"
proof -
  let ?msg = "utf8_text cps" and ?n = "nat max_bytes"
  have len: "?n < length ?msg" using assms(2,3) by linarith
  obtain xs cp ys where s: "cps = xs @ cp # ys" "length (utf8_text xs) \<le> ?n" "?n < length (utf8_text (xs @ [cp]))"
    using text_split [of ?n cps] len by blast
  let ?lo = "length (utf8_text xs)" and ?u = "utf8 cp"
  have u: "well_encoded ?u" using assms(1) utf8_well_encoded by (simp add: s(1))
  have msg: "?msg = utf8_text xs @ ?u @ utf8_text ys" by (simp add: s(1) utf8_text_def)
  have at: "?msg ! (?lo + i) = ?u ! i" if "i < length ?u" for i
    using that by (simp add: msg nth_append)
  have n: "?n < ?lo + length ?u" using s(3) by (simp add: utf8_text_def)
  have hd: "?msg ! ?lo = hd ?u" using at [of 0] u by (simp add: well_encoded_def hd_conv_nth)
  have "is_continuation (?msg ! i)" if i: "?lo < i" "i \<le> ?n" for i
  proof -
    obtain j where j: "i = ?lo + Suc j" "Suc j < length ?u" using i n by (metis less_imp_Suc_add less_add_eq_less nat_add_left_cancel_less le_less_trans add_Suc_right)
    then show ?thesis using at [of "Suc j"] u by (cases ?u) (auto simp: well_encoded_def list_all_length)
  qed
  then have w: "walk_back ?msg ?n = ?lo"
    using u hd s(2) by (intro walk_back_run) (simp_all add: well_encoded_def)
  have "sequence_length (?msg ! ?lo) = length ?u" "0 < length ?u" "?lo + length ?u \<le> length ?msg"
    using u hd by (simp_all add: well_encoded_def msg)
  then have "message_sample ?msg max_bytes = take ?lo ?msg @ ellipsis"
    using assms(2,3) w by (simp add: message_sample_def Let_def)
  also have "take ?lo ?msg = utf8_text (take (length xs) cps)" by (simp add: s(1) utf8_text_append)
  finally have "message_sample ?msg max_bytes = utf8_text (take (length xs) cps) @ ellipsis" .
  moreover have "take (Suc (length xs)) cps = xs @ [cp]" "take (length xs) cps = xs" "length xs < length cps"
    by (simp_all add: s(1))
  ultimately show ?thesis using s(2,3) assms(2) by (intro exI [of _ "length xs"]) auto
qed

theorem sample_keeps_characters_witness:
  "message_sample (utf8_text [0x435, 0x1F600, 0x41]) 4 = utf8_text [0x435] @ ellipsis"
proof -
  let ?cps = "[0x435, 0x1F600, 0x41]"
  have "list_all scalar ?cps" "length (utf8_text ?cps) = 7"
    by (simp_all add: scalar_def utf8_text_def utf8_def utf8_codes_def)
  then obtain n where n: "n < length ?cps" "message_sample (utf8_text ?cps) 4 = utf8_text (take n ?cps) @ ellipsis"
    "int (length (utf8_text (take n ?cps))) \<le> 4" "4 < int (length (utf8_text (take (Suc n) ?cps)))"
    using sample_keeps_characters [of ?cps 4] by auto
  then have "n = 0 \<or> n = 1 \<or> n = 2" by auto
  then have "n = 1" using n(3,4) by (auto simp: utf8_text_def utf8_def utf8_codes_def)
  then show ?thesis using n(2) by simp
qed

end
