(* ===== verification/Moderated_Server.thy ===== *)
theory Moderated_Server
  imports Content_Moderator_Props AO_Server_Theorems
begin

text \<open>
  The content moderator in the AO2 server: the server's parameter for the moderator is instantiated
  with the model of ContentModerator, and a listed word, however disguised, is followed from the
  sender's message to what the server sends.
\<close>

section \<open>The link\<close>

text \<open>What the moderator asks of the database and the audit log is not an output of the server.\<close>

definition server_verdict :: "check_verdict \<Rightarrow> moderation_verdict" where
  "server_verdict v = \<lparr>mv_action = vd_action v, mv_sanitized_message = [], mv_reason = vd_reason v\<rparr>"

definition moderated_env :: "('v, 'c) layers \<Rightarrow> 'c moderator server_env \<Rightarrow> 'c moderator server_env" where
  "moderated_env ly e =
     e\<lparr>se_check := (\<lambda>ipid channel msg _ m. case moderator_check ly ipid channel msg m of (v, m', _) \<Rightarrow> (server_verdict v, m')),
       se_mute_info := (\<lambda>ipid m. map_option (\<lambda>(_, _, left). left) (get_mute_info (ly_now_sec ly) ipid m))\<rparr>"

section \<open>A listed word is an offence\<close>

lemma layer_slurs:
  "ax_slurs (fst (unicode_layer ly msg fs)) = ax_slurs (fst fs)"
  "ax_slurs (fst (url_layer ly cfg msg fs)) = ax_slurs (fst fs)"
  "ax_slurs (fst (classifier_layer ly cfg msg fs)) = ax_slurs (fst fs)"
  "ax_slurs (fst (bad_hint_layer ly cfg msg fs)) = ax_slurs (fst fs)"
  "ax_slurs (fst (fst (cluster_layer ly cfg ipid msg c fs))) = ax_slurs (fst fs)"
  by (simp_all add: unicode_layer_def url_layer_def classifier_layer_def bad_hint_layer_def cluster_layer_def
      merge_scores_def inject_score_def Let_def split_beta split: option.split)

lemma run_layers_slurs:
  "slur_active (cm_slurs m) \<Longrightarrow>
   ax_slurs (fst (fst (run_layers ly cfg ipid msg m))) = sr_score (slur_scan msg (cm_slurs m))"
  by (simp add: run_layers_def Let_def layer_slurs) (simp add: slur_layer_def Let_def split_beta)

definition listed_word :: "'c moderator \<Rightarrow> string \<Rightarrow> bool" where
  "listed_word m word =
    (word \<in> set (sf_wordlist (cm_slurs m)) \<and> word \<notin> set (sf_exceptions (cm_slurs m)) \<and>
     list_all c_islower word \<and> word \<noteq> [] \<and> collapse_runs word = word)"

lemma disguised_word_scores:
  assumes "slur_active (cm_slurs m)" "listed_word m word" "list_all scalar cps" "disguised word cps"
  shows "sr_score (slur_scan (a @ '' '' @ utf8_text cps @ '' '' @ b) (cm_slurs m)) = sc_match_score (sf_cfg (cm_slurs m))"
proof -
  let ?f = "cm_slurs m" and ?msg = "a @ '' '' @ word @ '' '' @ b"
  have w: "list_all c_islower word" "word \<noteq> []" "collapse_runs word = word"
    using assms(2) by (simp_all add: listed_word_def)
  have "fresh_start ('' '' @ b)" by (simp add: fresh_start_def continuation_def char_code_def)
  from disguised_message [OF w(1) assms(3,4) this, of "a @ '' ''"]
  have same: "slur_scan (a @ '' '' @ utf8_text cps @ '' '' @ b) ?f = slur_scan ?msg ?f"
    by (simp add: slur_scan_def normalize_message_def)
  have "word \<in> set (sr_matched (slur_scan ?msg ?f))"
    using slur_scan_exact [OF assms(1), of ?msg] spaced_word_token [OF w, of a b] assms(2)
    by (auto simp: reports_def listed_word_def)
  then have ne: "sr_matched (slur_scan ?msg ?f) \<noteq> []" by (metis empty_iff empty_set)
  have "slur_scan ?msg ?f = \<lparr>sr_score = sc_match_score (sf_cfg ?f), sr_matched = sr_matched (slur_scan ?msg ?f),
      sr_reason = ''slur('' @ show_nat (length (sr_matched (slur_scan ?msg ?f))) @ '')''\<rparr>"
    using slur_scan_exact [OF assms(1), of ?msg, THEN conjunct2, THEN conjunct2] unfolding if_not_P [OF ne] .
  then have "sr_score (slur_scan ?msg ?f) = sc_match_score (sf_cfg ?f)"
    by (rule trans [OF arg_cong [where f = sr_score]]) (rule slur_result.select_convs)
  then show ?thesis by (simp only: same)
qed

text \<open>The thresholds under which one match alone is answered by at least a drop.\<close>

definition match_drops :: "moderation_config \<Rightarrow> real slur_filter \<Rightarrow> bool" where
  "match_drops cfg f =
    (let h = mc_heat cfg in
     weights_nonneg h \<and> clean_epsilon \<le> hc_drop_threshold h \<and>
     hc_drop_threshold h \<le> axis_contrib (sc_match_score (sf_cfg f)) (ax_slurs (hc_floor h)) * ax_slurs (hc_weight h))"

lemma drop_severity: "hc_drop_threshold h \<le> heat \<Longrightarrow> 3 \<le> severity (decide_action h heat)"
  by (simp add: decide_action_def)

lemma check_stops:
  assumes "cm_cfg m = Some cfg" "mc_enabled cfg" "mc_check_ic cfg" "mc_check_ooc cfg" "mh_cfg (cm_heat m) = mc_heat cfg"
    and "match_drops cfg (cm_slurs m)" "slur_active (cm_slurs m)" "\<not> is_noheat ipid m"
    and "sr_score (slur_scan msg (cm_slurs m)) = sc_match_score (sf_cfg (cm_slurs m))"
  shows "3 \<le> severity (vd_action (fst (moderator_check ly ipid channel msg m)))"
proof -
  obtain fs c where r: "run_layers ly cfg ipid msg m = (fs, c)" by (cases "run_layers ly cfg ipid msg m")
  let ?h = "mc_heat cfg" and ?m = "m\<lparr>cm_cluster := c\<rparr>"
  let ?d = "heat_delta_from (fst fs) ?h"
  have "ax_slurs (fst fs) = sc_match_score (sf_cfg (cm_slurs m))"
    using run_layers_slurs [OF assms(7), of ly cfg ipid msg] r assms(9) by simp
  then have d: "hc_drop_threshold ?h \<le> ?d" "clean_epsilon \<le> ?d"
    using delta_at_least_slurs [of ?h "fst fs"] assms(6) by (auto simp: match_drops_def Let_def)
  have "moderator_check ly ipid channel msg m = check_offence ly cfg ipid channel msg fs ?d ?m"
    using assms(1-4,8) r d by (simp add: moderator_check_def is_noheat_def)
  moreover have "vd_action (fst (check_offence ly cfg ipid channel msg fs ?d ?m)) =
      decide_action ?h (fst (heat_apply (ly_steady_ms ly) ipid ?d (cm_heat m)))"
    using assms(5) by (simp add: check_offence_def Let_def split_beta heat_apply_def heat_store_def)
  moreover have "hc_drop_threshold ?h \<le> fst (heat_apply (ly_steady_ms ly) ipid ?d (cm_heat m))"
    using heat_apply_at_least [of ?d "ly_steady_ms ly" ipid "cm_heat m"] d by (simp add: clean_epsilon_def)
  ultimately show ?thesis using drop_severity by simp
qed

section \<open>What the server does with it\<close>

text \<open>The server only adds outputs, and of those only frames to this client tell of it to anyone.\<close>

fun to_client :: "u64 \<Rightarrow> server_output \<Rightarrow> bool" where
  "to_client c (Sent d t) = (d = c)"
| "to_client c (Room_Out r) = False"
| "to_client c out = True"

definition tells_only :: "u64 \<Rightarrow> 'm ao_server \<Rightarrow> 'm ao_server \<Rightarrow> bool" where
  "tells_only c s t = (\<exists>outs. sv_outs t = sv_outs s @ outs \<and> list_all (to_client c) outs)"

lemma tells_only_refl [simp]: "tells_only c s s"
  by (simp add: tells_only_def)

lemma tells_only_trans: "tells_only c s t \<Longrightarrow> tells_only c t u \<Longrightarrow> tells_only c s u"
  by (force simp: tells_only_def)

lemma tells_only_emit: "list_all (to_client c) outs \<Longrightarrow> tells_only c s t \<Longrightarrow> tells_only c s (emit outs t)"
  by (force simp: tells_only_def emit_def)

lemma tells_only_outs: "sv_outs t = sv_outs u \<Longrightarrow> tells_only c s t = tells_only c s u"
  by (simp add: tells_only_def)

lemma tells_only_send: "tells_only c s t \<Longrightarrow> tells_only c s (send e c pkt t)"
  by (auto simp: send_def Let_def on_room_def tells_only_def emit_def)

lemma tells_only_close: "tells_only c s t \<Longrightarrow> tells_only c s (close_deferred e cs t)"
  by (auto simp: close_deferred_def list_all_iff intro!: tells_only_emit)

lemma tells_only_ban: "tells_only c s t \<Longrightarrow> tells_only c s (record_ban b bm t)"
  by (auto simp: record_ban_def split_beta list_all_iff tells_only_def emit_def)

lemma tells_only_notice: "s_client_id (session_at p t) = c \<Longrightarrow> tells_only c s t \<Longrightarrow> tells_only c s (send_mod_notice e p m v t)"
  by (auto simp: send_mod_notice_def Let_def intro: tells_only_send split: option.split)

lemma stopped_verdict:
  assumes "3 \<le> severity (mv_action v)"
  shows "fst (apply_content_verdict e p m v s) = Stop \<and>
    tells_only (s_client_id (session_at p s)) s (snd (apply_content_verdict e p m v s))"
  using assms
  by (cases "mv_action v")
    (auto simp: apply_content_verdict_def Let_def intro!: tells_only_notice tells_only_close tells_only_send tells_only_ban
      split: option.split)

lemma spam_check_tells:
  "spam_check e p msg s = Some (b, t) \<Longrightarrow>
   sv_moderator t = sv_moderator s \<and> sv_room t = sv_room s \<and> tells_only c s t"
  by (auto simp: spam_check_def Let_def emit_def tells_only_def list_all_iff split: option.splits)

lemma moderate_stops:
  assumes "sv_moderator s = Some m" "3 \<le> severity (vd_action (fst (moderator_check ly (s_ipid (session_at p s)) channel msg m)))"
  shows "fst (moderate (moderated_env ly e) p channel msg s) = Stop \<and>
    tells_only (s_client_id (session_at p s)) s (snd (moderate (moderated_env ly e) p channel msg s))"
proof -
  obtain v m' outs where r: "moderator_check ly (s_ipid (session_at p s)) channel msg m = (v, m', outs)"
    by (cases "moderator_check ly (s_ipid (session_at p s)) channel msg m")
  let ?e = "moderated_env ly e" and ?s = "s\<lparr>sv_moderator := Some m'\<rparr>"
  have "se_check ?e (s_ipid (session_at p s)) channel msg (s_area (session_at p s)) m = (server_verdict v, m')"
    by (simp add: moderated_env_def r)
  then have "moderate ?e p channel msg s = apply_content_verdict ?e p m' (server_verdict v) ?s"
    by (simp add: moderate_def assms(1) Let_def)
  moreover have "3 \<le> severity (mv_action (server_verdict v))" using assms(2) r by (simp add: server_verdict_def)
  moreover have "session_at p ?s = session_at p s" "tells_only c ?s t = tells_only c s t" for c t
    by (simp_all add: session_at_def tells_only_def)
  ultimately show ?thesis using stopped_verdict [of "server_verdict v" ?e p m' ?s] by simp
qed


definition demo_mod_env :: "unit moderator server_env" where
  "demo_mod_env = \<lparr>se_has_send = True, se_ws_addr = None, se_version = ''1'', se_token_hash = (\<lambda>_. 0),
     se_spam_hash = (\<lambda>_. 0), se_steady_ns = 0, se_system_ns = 0, se_spam_ms = 0,
     se_check = (\<lambda>_ _ _ _ m. (\<lparr>mv_action = MA_NONE, mv_sanitized_message = [], mv_reason = []\<rparr>, m)),
     se_mute_info = (\<lambda>_ _. None), se_rep_cached = None, se_random = (\<lambda>n. replicate n 0),
     se_external = (\<lambda>_ _ _ m. ([], m)), se_reload = None, se_gi = 0, se_gb = False\<rparr>"

text \<open>The room of two joined clients under the moderator.\<close>

definition demo_moderated :: "unit moderator ao_server" where
  "demo_moderated = \<lparr>sv_room = sv_room (demo_run demo_joined), sv_proto = [], sv_bans = None, sv_spam = None, sv_asn = None,
     sv_moderator = Some demo_moderator, sv_users = None, sv_outs = [], sv_undef = False\<rparr>"


end
