(* ===== verification/Spec2Isabelle.thy ===== *)
theory Spec2Isabelle
  imports Prelude Map_Interface Persistent_Map Persistent_Map_Props FW_Helper ACL_Flags
    Area_State Game_Room Game_Room_Props Game_Room_Theorems Crypto Crypto_Props
    Spam_Detector Spam_Detector_Props Queue_Interface Event_Channel IC_Queue State_Buffer
    Ban_Manager ASN_Reputation ASN_Reputation_Props User_Store Spam_Response
    AO_Wire AO_Packets AO_Packet_Props AO_Client AO_Client_Props
    AO_Server AO_Commands AO_Staff_Commands AO_Command_Registry AO_Handlers AO_Observers AO_Server_Props
    AO_Server_Reach AO_Server_Theorems AO_Server_Safety AO_Relay AO_Handshake
    Base64 WS_Frame WS_Frame_Props WS_Reader WS_Reader_Props Trusted_Proxy Proxy_Protocol WS_Http WS_Handshake
    WS_Client WS_Opening WS_Server WS_Server_Props WS_Pool WS_Pool_Props WS_Pool_Theorems Firewall_Manager Firewall_Manager_Props Firewall_Theorems
    Slur_Filter Slur_Filter_Props Slur_Tokens Moderation_Heat Content_Moderator Content_Moderator_Props Moderated_Server
begin

text \<open>
  AO-SDL is a client and a server for an online courtroom game, in C++. This library models the
  server (\<open>kagami\<close>: the game state, the AO2 protocol, the WebSockets below it, moderation and
  abuse control), the protocol side of the client, the concurrent data structures both are
  built on, and the privileged firewall helper, which is a C program of its own.

  \<^bold>\<open>The program and how its parts interact.\<close> Bytes come in at the WebSocket server
  (engine/net/WebSocketServer.cpp): a connection passes the proxy header and the HTTP handshake, its
  bytes are cut into frames and these put together to messages. The worker pool of the application
  (apps/kagami/WsWorkerPool.cpp) polls the sockets in one thread and hands the messages of a client to
  the worker of its slot. A worker calls the AO2 server (plugins/net/ao/AOServer.cpp), which keeps one
  protocol state and text buffer for each client, cuts the buffer at the AO2 delimiter, parses a
  packet (AOPacket.cpp, PacketTypes.cpp) and runs its handler (ServerPacketBehavior.cpp). The handlers
  work on the shared room (engine/game/GameRoom.cpp): sessions in a persistent trie
  (include/utils/PersistentMap.h), characters, areas, counters. Out-of-character texts with a slash
  go to the command registry (engine/game/CommandRegistry.cpp, plugins/net/ao/commands). Other texts pass
  the spam detector and the content moderator, whose layers score a message and whose heat
  accumulator turns the scores into an action. Bans are kept by the ban manager, which asks the
  firewall manager to block an address; that writes commands into the pipe of the helper
  (tools/kagami-fw-helper.c), which checks them and starts nft. On the other end the client composes and
  parses the same packets (AOClient.cpp, PacketBehavior.cpp), publishes events (EventChannel) and plays
  messages from a queue; the render thread gets its state through a triple buffer.

  \<^bold>\<open>Theories and what they model.\<close>

  \<^item> \<open>Prelude\<close>: machine types, the "C" locale, lists and bit sets, decimal numbers.
    \<open>Map_Interface\<close> and \<open>Queue_Interface\<close> are the locales of a key-value store and of a queue.
  \<^item> \<open>Persistent_Map\<close>, \<open>Persistent_Map_Props\<close>: the hash trie, as nodes with a 32-bit bitmap; it refines a
    finite map, for every hash function, and never reads outside a node.
  \<^item> \<open>Crypto\<close>, \<open>Crypto_Props\<close>, \<open>Base64\<close>: SHA-1, SHA-256, HMAC, PBKDF2 against their standards.
  \<^item> \<open>ACL_Flags\<close>, \<open>Area_State\<close>, \<open>Game_Room\<close>, \<open>Game_Room_Props\<close>, \<open>Game_Room_Theorems\<close>: the room. Sessions are
    shared objects, so a session pointer is an index into a heap; the abstract view is the finite map of the
    registered sessions, of which the counters and the table of taken characters are functions.
  \<^item> \<open>Spam_Detector\<close>, \<open>ASN_Reputation\<close>, \<open>Ban_Manager\<close>, \<open>User_Store\<close> (with their \<open>_Props\<close>) and \<open>Spam_Response\<close>: abuse
    control, and the callback of main.cpp that joins the first three.
  \<^item> \<open>FW_Helper\<close>, \<open>Firewall_Manager\<close>, \<open>Firewall_Manager_Props\<close>, \<open>Firewall_Theorems\<close>: the helper as a function from
    its arguments to the commands it starts, the manager with its queue and thread, and both together
    with the kernel. What nft does is a parameter with the laws \<open>nft_laws\<close>.
  \<^item> \<open>Slur_Filter\<close>, \<open>Slur_Filter_Props\<close>, \<open>Slur_Tokens\<close>, \<open>Moderation_Heat\<close>, \<open>Content_Moderator\<close>,
    \<open>Content_Moderator_Props\<close>, \<open>Moderated_Server\<close>: content moderation, from the UTF-8 decoder of the word filter
    over the heat of an address to what the AO2 server relays.
  \<^item> \<open>AO_Wire\<close>, \<open>AO_Packets\<close>, \<open>AO_Packet_Props\<close>: the text protocol, one constructor for each packet class.
    \<open>AO_Client\<close>, \<open>AO_Client_Props\<close>: the client's connection.
  \<^item> \<open>AO_Server\<close>, \<open>AO_Commands\<close>, \<open>AO_Staff_Commands\<close>, \<open>AO_Command_Registry\<close>, \<open>AO_Handlers\<close>: the AO2 server, one
    definition for each broadcast, command and packet handler; \<open>AO_Observers\<close> and \<open>AO_Server_Props\<close> say what each of
    them leaves alone, \<open>AO_Server_Reach\<close> is its step relation with the invariant of the reachable states;
    \<open>AO_Server_Theorems\<close>, \<open>AO_Server_Safety\<close>, \<open>AO_Relay\<close> and \<open>AO_Handshake\<close> hold the properties.
  \<^item> \<open>WS_Frame\<close>, \<open>WS_Reader\<close>, \<open>WS_Http\<close>, \<open>WS_Handshake\<close>, \<open>WS_Client\<close>, \<open>WS_Server\<close> (with their \<open>_Props\<close>), \<open>WS_Opening\<close>,
    \<open>Trusted_Proxy\<close>, \<open>Proxy_Protocol\<close>: WebSockets on both ends and the proxy headers.
  \<^item> \<open>WS_Pool\<close>, \<open>WS_Pool_Props\<close>, \<open>WS_Pool_Theorems\<close>: the threads of the server as interleaved steps over
    the WebSocket server and the AO2 server.
  \<^item> \<open>Event_Channel\<close>, \<open>IC_Queue\<close>, \<open>State_Buffer\<close>: queues and the triple buffer of the client.

  \<^bold>\<open>How the code is modelled.\<close> A class is a record of its members, a method a function of the record that
  returns it updated; a C++ enumeration is a datatype; integers have their width (words) where they can
  wrap and are \<open>int\<close> or \<open>nat\<close> where the code bounds them. Strings are lists of bytes. Unordered containers
  are lists of their entries; no property depends on the order. What a component sends, logs to a
  database or asks of another component is a list of outputs, in order. Exceptions and undefined
  behaviour are values (\<open>None\<close>, a sum, or the flag \<open>sv_undef\<close> of the server). A critical section is one
  step. Clocks, random bytes, hashes of the standard library and operating system calls are arguments.
  Doubles of the moderation and spam code are real numbers, so rounding is not modelled. Loops are structural
  or terminate by a measure; no definition needs fuel, and where the code may wait for ever
  (the lock in \<open>WS_Pool\<close>) the step relation has no step. Indeterminate values of uninitialised members are
  arguments.

  \<^bold>\<open>Locales.\<close> \<open>kv_store\<close> is interpreted by the trie with the registry's hash, \<open>fifo_queue\<close> by the event channel and
  by the IC queue, \<open>block_driver\<close> by both hash functions, and the hierarchy of \<open>observer\<close> locales by the
  views of the server's state (buffers, registry, moderators, powers, whereabouts, invariant, accounts):
  an invariant of the server is proved for all handlers and commands by proving it for the few
  operations that a locale assumes.

  \<^bold>\<open>What the theorems show.\<close> Refinement: the trie is a map, the pool is the AO2 server, the kernel follows the
  firewall rules, the character table is the view's. Invariants: counters, ownership, registry, buffers,
  order of messages, the trust floor of the heat. Safety: a client without authority changes only its own standing, a
  locked area keeps out, the handshake admits no banned client (but can be left out), the helper runs only checked commands,
  a forwarded address cannot be forged, a listed word reaches nobody. End to end: a frame that one client composes is what another
  parses; handshakes of both ends agree. Termination: the rounds of the pool end. The library also
  records where the code departs from its intention: frames smuggled through the chat, a banned
  hello that stops the whole pool, firewall commands lost after a flush, plurals that the word filter
  misses, mutes that silence nobody, and others.

  \<^bold>\<open>Not modelled.\<close> HTTP client and server, sockets and TLS, the REST interface and the NX backend (JSON documents
  of an external library), the tables of the database other than the accounts, the reputation
  service, the statistical layers of moderation (parameters in the record \<open>layers\<close>), the regular expression for URLs,
  metrics, logs and the terminal, configuration and start-up of the application, asset decoding,
  rendering, audio, the widgets and the mobile application: they are operating system and library
  calls, floating point arithmetic or presentation. The commands \<open>/firewall\<close> and \<open>/noheat\<close> are modelled with their
  components; the answers of \<open>/reputation\<close> and \<open>/modheat\<close> are parameters. The rate limiters
  of the pool are answers, and its time statistics are left out.
\<close>

end
